(* ===== verification/Prelude.thy ===== *)
theory Prelude
  imports Main "HOL-Library.Sublist"
begin

text \<open>
  What every component theory of the development shares: the collections of rewrite rules the
  component proofs use, the result type for Go's \<open>(value, error)\<close> pairs, and generic facts about
  lists and maps that HOL does not state in the form the proofs need.
\<close>

named_theorems go_defs \<open>definitions of small helpers, unfolded together\<close>
named_theorems go_str \<open>facts about the model of package strings\<close>

type_synonym ('e, 'a) go_result = "'e + 'a"

abbreviation (input) Ok :: "'a \<Rightarrow> ('e, 'a) go_result" where
  "Ok \<equiv> Inr"

abbreviation (input) Err :: "'e \<Rightarrow> ('e, 'a) go_result" where
  "Err \<equiv> Inl"

section \<open>Lists\<close>

text \<open>The first element that satisfies a predicate, as a search loop that returns on a match.\<close>

lemma find_SomeD: "find P xs = Some x \<Longrightarrow> x \<in> set xs \<and> P x"
  by (induction xs) (auto split: if_splits)

lemma find_eq_None_iff: "find P xs = None \<longleftrightarrow> (\<forall>x\<in>set xs. \<not> P x)"
  by (induction xs) auto

lemma find_cong_pred: "(\<And>x. x \<in> set xs \<Longrightarrow> P x = Q x) \<Longrightarrow> find P xs = find Q xs"
  by (induction xs) auto

lemma find_append: "find P (xs @ ys) = (case find P xs of None \<Rightarrow> find P ys | Some x \<Rightarrow> Some x)"
  by (induction xs) auto

lemma last_n_append:
  "length ys \<le> n \<Longrightarrow> drop (length (xs @ ys) - n) (xs @ ys) = drop (length xs - (n - length ys)) xs @ ys"
  by (simp add: drop_append)

text \<open>Keeping the last \<open>n\<close> elements, \<open>xs[len(xs)-n:]\<close>.\<close>

definition last_n :: "nat \<Rightarrow> 'a list \<Rightarrow> 'a list" where
  "last_n n xs = drop (length xs - n) xs"

lemma last_n_all [simp]: "length xs \<le> n \<Longrightarrow> last_n n xs = xs"
  by (simp add: last_n_def)

lemma length_last_n [simp]: "length (last_n n xs) = min n (length xs)"
  by (simp add: last_n_def)

lemma suffix_last_n: "suffix (last_n n xs) xs"
  by (simp add: last_n_def suffix_drop)

lemma set_last_n: "set (last_n n xs) \<subseteq> set xs"
  by (simp add: last_n_def set_drop_subset)

lemma last_n_0 [simp]: "last_n 0 xs = []"
  by (simp add: last_n_def)

lemma last_n_last_n: "last_n m (last_n n xs) = last_n (min m n) xs"
  by (cases "length xs \<le> n") (auto simp: last_n_def min_def)

lemma takeWhile_append_dropWhile_tl:
  "c \<in> set s \<Longrightarrow> s = takeWhile (\<lambda>x. x \<noteq> c) s @ c # tl (dropWhile (\<lambda>x. x \<noteq> c) s)"
proof (induction s)
  case (Cons a s)
  then show ?case by (cases "a = c") auto
qed simp

section \<open>Maps\<close>

lemma map_upd_same_dom: "k \<in> dom m \<Longrightarrow> dom (m(k \<mapsto> v)) = dom m"
  by auto

lemma restrict_map_dom_subset: "dom (m |` A) = dom m \<inter> A"
  by (auto simp: restrict_map_def split: if_splits)

end
