(* ===== verification/Go_Strings.thy ===== *)
theory Go_Strings
  imports Prelude
begin

text \<open>
  Go strings and the functions of package \<open>strings\<close> and \<open>unicode/utf8\<close> the program calls.

  A Go string is a sequence of bytes, and so is an Isabelle \<^typ>\<open>string\<close>: a \<^typ>\<open>char\<close> is a byte.
  \<open>decode_rune\<close> is \<open>utf8.DecodeRuneInString\<close>, so a range loop over a string and a conversion to
  \<open>[]rune\<close> are \<open>runes\<close>, exact on every byte sequence (an invalid byte is U+FFFD of width 1).
  \<open>trim_space\<close> removes the whole Unicode white space set. \<open>to_lower\<close> and \<open>equal_fold\<close> map the ASCII
  letters and leave the bytes of other runes as they are: they agree with Go on ASCII strings, which
  is what the identifiers, keys and error texts they are applied to are made of.
\<close>

section \<open>Bytes and runes\<close>

type_synonym rune = nat

definition byte :: "char \<Rightarrow> nat" where
  "byte c = of_char c"

lemma byte_less [simp]: "byte c < 256"
  unfolding byte_def using of_char_of [of "of_char c :: nat"]
  by (metis nat_of_char_less_256)

lemma byte_inject [simp]: "byte c = byte d \<longleftrightarrow> c = d"
  by (simp add: byte_def)

lemma byte_char_of [simp]: "n < 256 \<Longrightarrow> byte (char_of n) = n"
  by (simp add: byte_def)

lemma char_of_byte [simp]: "char_of (byte c) = c"
  by (simp add: byte_def)

abbreviation rune_error :: rune where
  "rune_error \<equiv> 65533"

definition is_cont :: "nat \<Rightarrow> bool" where
  "is_cont b \<longleftrightarrow> 128 \<le> b \<and> b < 192"

text \<open>\<open>utf8.DecodeRuneInString\<close>: the rune at the start of a non-empty string and its width.\<close>

definition decode_rune :: "string \<Rightarrow> rune \<times> nat" where
  "decode_rune s = (case map byte (take 4 s) of
     [] \<Rightarrow> (rune_error, 0)
   | b0 # bs \<Rightarrow>
     (if b0 < 128 then (b0, 1)
      else if 194 \<le> b0 \<and> b0 < 224 then
        (case bs of b1 # _ \<Rightarrow>
           (if is_cont b1 then ((b0 - 192) * 64 + (b1 - 128), 2) else (rune_error, 1))
         | [] \<Rightarrow> (rune_error, 1))
      else if 224 \<le> b0 \<and> b0 < 240 then
        (case bs of b1 # b2 # _ \<Rightarrow>
           (if is_cont b1 \<and> is_cont b2 \<and> (b0 = 224 \<longrightarrow> 160 \<le> b1) \<and> (b0 = 237 \<longrightarrow> b1 < 160)
            then ((b0 - 224) * 4096 + (b1 - 128) * 64 + (b2 - 128), 3) else (rune_error, 1))
         | _ \<Rightarrow> (rune_error, 1))
      else if 240 \<le> b0 \<and> b0 < 245 then
        (case bs of b1 # b2 # b3 # _ \<Rightarrow>
           (if is_cont b1 \<and> is_cont b2 \<and> is_cont b3 \<and> (b0 = 240 \<longrightarrow> 144 \<le> b1) \<and> (b0 = 244 \<longrightarrow> b1 < 144)
            then ((b0 - 240) * 262144 + (b1 - 128) * 4096 + (b2 - 128) * 64 + (b3 - 128), 4)
            else (rune_error, 1))
         | _ \<Rightarrow> (rune_error, 1))
      else (rune_error, 1)))"

lemma decode_rune_width_pos: "s \<noteq> [] \<Longrightarrow> 0 < snd (decode_rune s)"
  by (cases s) (auto simp: decode_rune_def split: list.splits)

text \<open>The runes of a string, as \<open>[]rune(s)\<close> and \<open>for _, r := range s\<close> produce them.\<close>

function runes :: "string \<Rightarrow> rune list" where
  "runes s = (if s = [] then [] else fst (decode_rune s) # runes (drop (snd (decode_rune s)) s))"
  by pat_completeness auto
termination
  by (relation "measure length") (auto simp: decode_rune_width_pos)

declare runes.simps [simp del]

lemma runes_Nil [simp]: "runes [] = []"
  by (simp add: runes.simps)

text \<open>\<open>utf8.AppendRune\<close>, used by \<open>string([]rune)\<close>: surrogates and values beyond U+10FFFF become U+FFFD.\<close>

definition valid_rune :: "rune \<Rightarrow> bool" where
  "valid_rune r \<longleftrightarrow> r < 55296 \<or> 57344 \<le> r \<and> r < 1114112"

definition encode_rune :: "rune \<Rightarrow> string" where
  "encode_rune r0 = (let r = (if valid_rune r0 then r0 else rune_error) in
     map char_of
      (if r < 128 then [r]
       else if r < 2048 then [192 + r div 64, 128 + r mod 64]
       else if r < 65536 then [224 + r div 4096, 128 + r div 64 mod 64, 128 + r mod 64]
       else [240 + r div 262144, 128 + r div 4096 mod 64, 128 + r div 64 mod 64, 128 + r mod 64]))"

definition of_runes :: "rune list \<Rightarrow> string" where
  "of_runes rs = concat (map encode_rune rs)"

lemma of_runes_simps [simp]:
  "of_runes [] = []" "of_runes (r # rs) = encode_rune r @ of_runes rs"
  "of_runes (rs @ rs') = of_runes rs @ of_runes rs'"
  by (simp_all add: of_runes_def)

definition rune_count :: "string \<Rightarrow> nat" where
  "rune_count s = length (runes s)"

lemma decode_ascii: "byte c < 128 \<Longrightarrow> decode_rune (c # s) = (byte c, 1)"
  by (simp add: decode_rune_def)

lemma runes_ascii: "byte c < 128 \<Longrightarrow> runes (c # s) = byte c # runes s"
  by (subst runes.simps) (simp add: decode_ascii)

lemma runes_all_ascii: "\<forall>c\<in>set s. byte c < 128 \<Longrightarrow> runes s = map byte s"
  by (induction s) (auto simp: runes_ascii)

section \<open>White space\<close>

text \<open>
  The UTF-8 encodings of the runes for which \<open>unicode.IsSpace\<close> holds: the ASCII ones, U+0085,
  U+00A0, U+1680, U+2000 to U+200A, U+2028, U+2029, U+202F, U+205F and U+3000.
\<close>

definition space_runes :: "rune list" where
  "space_runes =
     [32, 9, 10, 11, 12, 13, 133, 160, 5760, 8192, 8193, 8194, 8195, 8196, 8197, 8198, 8199, 8200,
      8201, 8202, 8232, 8233, 8239, 8287, 12288]"

definition is_space_rune :: "rune \<Rightarrow> bool" where
  "is_space_rune r \<longleftrightarrow> r \<in> set space_runes"

definition space_encs :: "string list" where
  "space_encs =
    [[CHR 0x20], [CHR 0x09], [CHR 0x0A], [CHR 0x0B], [CHR 0x0C], [CHR 0x0D],
     [CHR 0xC2, CHR 0x85], [CHR 0xC2, CHR 0xA0], [CHR 0xE1, CHR 0x9A, CHR 0x80],
     [CHR 0xE2, CHR 0x80, CHR 0x80], [CHR 0xE2, CHR 0x80, CHR 0x81], [CHR 0xE2, CHR 0x80, CHR 0x82],
     [CHR 0xE2, CHR 0x80, CHR 0x83], [CHR 0xE2, CHR 0x80, CHR 0x84], [CHR 0xE2, CHR 0x80, CHR 0x85],
     [CHR 0xE2, CHR 0x80, CHR 0x86], [CHR 0xE2, CHR 0x80, CHR 0x87], [CHR 0xE2, CHR 0x80, CHR 0x88],
     [CHR 0xE2, CHR 0x80, CHR 0x89], [CHR 0xE2, CHR 0x80, CHR 0x8A], [CHR 0xE2, CHR 0x80, CHR 0xA8],
     [CHR 0xE2, CHR 0x80, CHR 0xA9], [CHR 0xE2, CHR 0x80, CHR 0xAF], [CHR 0xE2, CHR 0x81, CHR 0x9F],
     [CHR 0xE3, CHR 0x80, CHR 0x80]]"

lemma space_encs_are_space_runes: "space_encs = map encode_rune space_runes"
  by (simp add: space_encs_def space_runes_def encode_rune_def valid_rune_def char_of_def bit_0)

text \<open>The white space encoding at the head of a string, if there is one.\<close>

definition lead_enc :: "string list \<Rightarrow> string \<Rightarrow> string option" where
  "lead_enc encs s = find (\<lambda>e. e \<noteq> [] \<and> prefix e s) encs"

lemma lead_enc_Some: "lead_enc encs s = Some e \<Longrightarrow> e \<in> set encs \<and> e \<noteq> [] \<and> prefix e s"
  by (auto simp: lead_enc_def dest: find_SomeD)

lemma lead_enc_None: "lead_enc encs s = None \<longleftrightarrow> (\<forall>e\<in>set encs. e \<noteq> [] \<longrightarrow> \<not> prefix e s)"
  by (auto simp: lead_enc_def find_eq_None_iff)

function strip_enc :: "string list \<Rightarrow> string \<Rightarrow> string" where
  "strip_enc encs s = (case lead_enc encs s of None \<Rightarrow> s | Some e \<Rightarrow> strip_enc encs (drop (length e) s))"
  by pat_completeness auto
termination
proof (relation "measure (\<lambda>(encs, s). length s)", simp)
  fix encs s e assume "lead_enc encs s = Some e"
  then have "e \<noteq> []" "length e \<le> length s"
    using lead_enc_Some prefix_length_le by blast+
  then show "((encs, drop (length e) s), encs, s) \<in> measure (\<lambda>(encs, s). length s)"
    by (cases e) auto
qed

declare strip_enc.simps [simp del]

definition trim_left_space :: "string \<Rightarrow> string" where
  "trim_left_space = strip_enc space_encs"

definition trim_right_space :: "string \<Rightarrow> string" where
  "trim_right_space s = rev (strip_enc (map rev space_encs) (rev s))"

text \<open>\<open>strings.TrimSpace\<close>.\<close>

definition trim_space :: "string \<Rightarrow> string" where
  "trim_space s = trim_right_space (trim_left_space s)"

lemma strip_enc_stop: "lead_enc encs s = None \<Longrightarrow> strip_enc encs s = s"
  by (simp add: strip_enc.simps)

lemma strip_enc_lead_None [simp]: "lead_enc encs (strip_enc encs s) = None"
proof (induction encs s rule: strip_enc.induct)
  case (1 encs s)
  then show ?case by (subst strip_enc.simps) (auto split: option.splits)
qed

lemma strip_enc_idem [simp]: "strip_enc encs (strip_enc encs s) = strip_enc encs s"
  by (simp add: strip_enc_stop)

lemma strip_enc_suffix: "suffix (strip_enc encs s) s"
proof (induction encs s rule: strip_enc.induct)
  case (1 encs s)
  then show ?case
    by (subst strip_enc.simps)
      (auto split: option.splits intro: suffix_order.trans suffix_drop)
qed

lemma strip_enc_fix_iff: "strip_enc encs s = s \<longleftrightarrow> lead_enc encs s = None"
  by (metis strip_enc_lead_None strip_enc_stop)

lemma trim_space_fix_iff:
  "trim_space s = s \<longleftrightarrow>
     lead_enc space_encs s = None \<and> lead_enc (map rev space_encs) (rev s) = None"
proof
  assume fix_s: "trim_space s = s"
  let ?l = "trim_left_space s"
  have "length (trim_space s) \<le> length ?l" "length ?l \<le> length s"
    using strip_enc_suffix [of "map rev space_encs" "rev ?l"] strip_enc_suffix [of space_encs s]
    by (auto simp: trim_space_def trim_right_space_def trim_left_space_def dest: suffix_length_le)
  with fix_s have "length ?l = length s" by simp
  then have l: "?l = s"
    using strip_enc_suffix [of space_encs s]
    by (metis trim_left_space_def suffix_def append_eq_append_conv append_Nil)
  with fix_s have "trim_right_space s = s" by (simp add: trim_space_def)
  then have "strip_enc (map rev space_encs) (rev s) = rev s"
    by (simp add: trim_right_space_def) (metis rev_rev_ident)
  with l show "lead_enc space_encs s = None \<and> lead_enc (map rev space_encs) (rev s) = None"
    by (simp add: trim_left_space_def strip_enc_fix_iff)
next
  assume "lead_enc space_encs s = None \<and> lead_enc (map rev space_encs) (rev s) = None"
  then show "trim_space s = s"
    by (simp add: trim_space_def trim_right_space_def trim_left_space_def strip_enc_stop)
qed

lemma trim_right_prefix: "prefix (trim_right_space s) s"
  using strip_enc_suffix [of "map rev space_encs" "rev s"]
  by (simp add: trim_right_space_def suffix_to_prefix)

lemma trim_space_idem [simp]: "trim_space (trim_space s) = trim_space s"
proof -
  let ?l = "trim_left_space s" and ?t = "trim_space s"
  have "lead_enc space_encs ?t = None"
  proof -
    have "lead_enc space_encs ?l = None" by (simp add: trim_left_space_def)
    moreover have "prefix ?t ?l" by (simp add: trim_space_def trim_right_prefix)
    ultimately show ?thesis by (auto simp: lead_enc_None dest: prefix_order.trans)
  qed
  moreover have "lead_enc (map rev space_encs) (rev ?t) = None"
    by (simp add: trim_space_def trim_right_space_def)
  ultimately show ?thesis by (simp add: trim_space_fix_iff)
qed

lemma trim_space_Nil [simp]: "trim_space [] = []"
  by (auto simp: trim_space_fix_iff lead_enc_None)

lemma set_trim_space: "set (trim_space s) \<subseteq> set s"
proof -
  have "set (trim_space s) \<subseteq> set (trim_left_space s)"
    using trim_right_prefix [of "trim_left_space s"] by (auto simp: trim_space_def dest: set_mono_prefix)
  also have "\<dots> \<subseteq> set s"
    using strip_enc_suffix [of space_encs s] by (auto simp: trim_left_space_def dest: set_mono_suffix)
  finally show ?thesis .
qed

text \<open>A byte that neither starts nor ends a white space encoding; strings of such bytes are trimmed.\<close>

definition not_spacey :: "char \<Rightarrow> bool" where
  "not_spacey c \<longleftrightarrow> (\<forall>e\<in>set space_encs. hd e \<noteq> c \<and> last e \<noteq> c)"

lemma space_encs_nonempty: "e \<in> set space_encs \<Longrightarrow> e \<noteq> []"
  by (auto simp: space_encs_def)

lemma trim_space_fix_conv:
  "trim_space s = s \<longleftrightarrow> (\<forall>e\<in>set space_encs. \<not> prefix e s \<and> \<not> suffix e s)"
  using space_encs_nonempty by (auto simp: trim_space_fix_iff lead_enc_None suffix_to_prefix)

lemma trim_space_fixed:
  assumes "s \<noteq> [] \<Longrightarrow> not_spacey (hd s) \<and> not_spacey (last s)"
  shows "trim_space s = s"
proof (cases "s = []")
  case False
  with assms have hd: "not_spacey (hd s)" and lst: "not_spacey (last s)" by auto
  have "lead_enc space_encs s = None"
    using hd by (auto simp: lead_enc_None prefix_def not_spacey_def hd_append split: if_splits)
  moreover have "lead_enc (map rev space_encs) (rev s) = None"
  proof -
    have "\<not> prefix (rev e) (rev s)" if "e \<in> set space_encs" for e
    proof
      assume "prefix (rev e) (rev s)"
      then obtain zs where "s = zs @ e"
        by (auto simp: suffix_to_prefix [symmetric] suffix_def)
      with space_encs_nonempty [OF that] have "last s = last e" by simp
      with lst that show False by (auto simp: not_spacey_def)
    qed
    then show ?thesis by (auto simp: lead_enc_None)
  qed
  ultimately show ?thesis by (simp add: trim_space_fix_iff)
qed simp

section \<open>Case\<close>

text \<open>\<open>strings.ToLower\<close> and \<open>strings.EqualFold\<close> (ASCII letters).\<close>

definition is_upper_char :: "char \<Rightarrow> bool" where
  "is_upper_char c \<longleftrightarrow> 65 \<le> byte c \<and> byte c \<le> 90"

definition lower_char :: "char \<Rightarrow> char" where
  "lower_char c = (if is_upper_char c then char_of (byte c + 32) else c)"

definition to_lower :: "string \<Rightarrow> string" where
  "to_lower = map lower_char"

definition equal_fold :: "string \<Rightarrow> string \<Rightarrow> bool" where
  "equal_fold s t \<longleftrightarrow> to_lower s = to_lower t"

lemma lower_char_not_upper [simp]: "\<not> is_upper_char (lower_char c)"
  by (auto simp: lower_char_def is_upper_char_def)

lemma lower_char_id: "\<not> is_upper_char c \<Longrightarrow> lower_char c = c"
  by (simp add: lower_char_def)

lemma lower_char_idem [simp]: "lower_char (lower_char c) = lower_char c"
  by (simp add: lower_char_id)

lemma to_lower_simps [simp]:
  "to_lower [] = []" "to_lower (c # s) = lower_char c # to_lower s"
  "to_lower (s @ t) = to_lower s @ to_lower t"
  by (simp_all add: to_lower_def)

lemma to_lower_idem [simp]: "to_lower (to_lower s) = to_lower s"
  by (simp add: to_lower_def)

lemma to_lower_eq_Nil [simp]: "to_lower s = [] \<longleftrightarrow> s = []"
  by (simp add: to_lower_def)

lemma length_to_lower [simp]: "length (to_lower s) = length s"
  by (simp add: to_lower_def)

lemma to_lower_id: "(\<And>c. c \<in> set s \<Longrightarrow> \<not> is_upper_char c) \<Longrightarrow> to_lower s = s"
  by (induction s) (auto simp: lower_char_id)

lemma set_to_lower: "set (to_lower s) = lower_char ` set s"
  by (simp add: to_lower_def)

lemma equal_fold_refl [simp]: "equal_fold s s"
  by (simp add: equal_fold_def)

lemma equal_fold_sym: "equal_fold s t \<longleftrightarrow> equal_fold t s"
  by (auto simp: equal_fold_def)

text \<open>No letter is a byte of a white space encoding, so lower-casing and trimming commute.\<close>

definition is_letter_char :: "char \<Rightarrow> bool" where
  "is_letter_char c \<longleftrightarrow> is_upper_char c \<or> 97 \<le> byte c \<and> byte c \<le> 122"

lemma lower_char_letter: "lower_char c \<noteq> c \<Longrightarrow> is_letter_char c \<and> is_letter_char (lower_char c)"
  by (auto simp: lower_char_def is_letter_char_def is_upper_char_def)

lemma space_encs_no_letter: "e \<in> set space_encs \<Longrightarrow> c \<in> set e \<Longrightarrow> \<not> is_letter_char c"
  by (auto simp: space_encs_def is_letter_char_def is_upper_char_def byte_def)

lemma prefix_to_lower:
  assumes "\<And>c. c \<in> set e \<Longrightarrow> \<not> is_letter_char c"
  shows "prefix e (to_lower s) \<longleftrightarrow> prefix e s"
  using assms
proof (induction e arbitrary: s)
  case (Cons a e)
  then show ?case
    by (cases s) (auto dest: lower_char_letter, (metis lower_char_letter)+)
qed simp

lemma drop_to_lower: "drop n (to_lower s) = to_lower (drop n s)"
  by (simp add: to_lower_def drop_map)

lemma take_to_lower: "take n (to_lower s) = to_lower (take n s)"
  by (simp add: to_lower_def take_map)

lemma lead_enc_to_lower:
  assumes "\<And>e c. e \<in> set encs \<Longrightarrow> c \<in> set e \<Longrightarrow> \<not> is_letter_char c"
  shows "lead_enc encs (to_lower s) = lead_enc encs s"
  unfolding lead_enc_def
  by (rule find_cong_pred) (use assms in \<open>auto simp: prefix_to_lower\<close>)

lemma strip_enc_to_lower:
  assumes "\<And>e c. e \<in> set encs \<Longrightarrow> c \<in> set e \<Longrightarrow> \<not> is_letter_char c"
  shows "strip_enc encs (to_lower s) = to_lower (strip_enc encs s)"
  using assms
proof (induction encs s rule: strip_enc.induct)
  case (1 encs s)
  have le: "lead_enc encs (to_lower s) = lead_enc encs s"
    using "1.prems" by (rule lead_enc_to_lower)
  show ?case
  proof (cases "lead_enc encs s")
    case None
    then show ?thesis by (simp add: strip_enc_stop le)
  next
    case (Some e)
    with "1.IH" "1.prems" have "strip_enc encs (to_lower (drop (length e) s)) =
        to_lower (strip_enc encs (drop (length e) s))" by blast
    with Some le show ?thesis
      by (simp add: strip_enc.simps [of encs s] strip_enc.simps [of encs "to_lower s"] drop_to_lower)
  qed
qed

lemma rev_to_lower: "rev (to_lower s) = to_lower (rev s)"
  by (simp add: to_lower_def rev_map)

lemma trim_space_to_lower: "trim_space (to_lower s) = to_lower (trim_space s)"
proof -
  have "trim_left_space (to_lower s) = to_lower (trim_left_space s)" for s
    unfolding trim_left_space_def by (rule strip_enc_to_lower) (rule space_encs_no_letter)
  moreover have "trim_right_space (to_lower s) = to_lower (trim_right_space s)" for s
    unfolding trim_right_space_def rev_to_lower
    by (subst strip_enc_to_lower) (auto simp: rev_to_lower dest: space_encs_no_letter)
  ultimately show ?thesis by (simp add: trim_space_def)
qed

section \<open>Searching\<close>

text \<open>
  \<open>strings.HasPrefix\<close> and \<open>strings.HasSuffix\<close> are \<^const>\<open>prefix\<close> and \<^const>\<open>suffix\<close>.
  \<open>strings.Index\<close>: \<^const>\<open>None\<close> is -1.
\<close>

fun str_index :: "string \<Rightarrow> string \<Rightarrow> nat option" where
  "str_index [] sub = (if sub = [] then Some 0 else None)"
| "str_index (c # s) sub = (if prefix sub (c # s) then Some 0 else map_option Suc (str_index s sub))"

definition str_contains :: "string \<Rightarrow> string \<Rightarrow> bool" where
  "str_contains s sub \<longleftrightarrow> str_index s sub \<noteq> None"

lemma str_index_Some_iff:
  "str_index s sub = Some i \<Longrightarrow> i + length sub \<le> length s \<and> s = take i s @ sub @ drop (i + length sub) s"
proof (induction s arbitrary: i)
  case (Cons c s)
  show ?case
  proof (cases "prefix sub (c # s)")
    case True
    with Cons.prems have "i = 0" by simp
    with True prefix_length_le [OF True] show ?thesis by (auto simp: prefix_def)
  next
    case False
    with Cons.prems obtain j where "str_index s sub = Some j" "i = Suc j" by auto
    with Cons.IH [of j] show ?thesis by auto
  qed
qed (auto split: if_splits)

lemma str_contains_iff: "str_contains s sub \<longleftrightarrow> sublist sub s"
proof
  assume "str_contains s sub"
  then obtain i where "str_index s sub = Some i" by (auto simp: str_contains_def)
  from str_index_Some_iff [OF this] show "sublist sub s" by (metis sublist_def)
next
  assume "sublist sub s"
  then show "str_contains s sub"
    by (induction s) (auto simp: str_contains_def sublist_Cons_right)
qed

lemma str_index_first:
  "str_index s sub = Some i \<Longrightarrow> j < i \<Longrightarrow> \<not> prefix sub (drop j s)"
proof (induction s arbitrary: i j)
  case (Cons c s)
  then show ?case by (cases j) (auto split: if_splits)
qed (auto split: if_splits)

text \<open>The position of a single byte, \<open>strings.Index(s, ":")\<close>.\<close>

lemma str_index_byte:
  "str_index s [c] = (if c \<in> set s then Some (length (takeWhile (\<lambda>x. x \<noteq> c) s)) else None)"
  by (induction s) auto

text \<open>\<open>strings.TrimPrefix\<close>.\<close>

definition trim_prefix :: "string \<Rightarrow> string \<Rightarrow> string" where
  "trim_prefix s p = (if prefix p s then drop (length p) s else s)"

text \<open>\<open>strings.Count\<close>: non-overlapping occurrences from the left; for the empty string, runes + 1.\<close>

function count_nonempty :: "string \<Rightarrow> string \<Rightarrow> nat" where
  "count_nonempty s sub =
     (if sub = [] then 0
      else case str_index s sub of
        None \<Rightarrow> 0
      | Some i \<Rightarrow> Suc (count_nonempty (drop (i + length sub) s) sub))"
  by pat_completeness auto
termination
proof (relation "measure (\<lambda>(s, sub). length s)", simp)
  fix s sub i assume "sub \<noteq> []" "str_index s sub = Some i"
  with str_index_Some_iff [OF this(2)] show "((drop (i + length sub) s, sub), s, sub) \<in> measure (\<lambda>(s, sub). length s)"
    by (cases sub) auto
qed

declare count_nonempty.simps [simp del]

definition str_count :: "string \<Rightarrow> string \<Rightarrow> nat" where
  "str_count s sub = (if sub = [] then rune_count s + 1 else count_nonempty s sub)"

text \<open>\<open>strings.Replace(s, old, new, 1)\<close>; an empty \<open>old\<close> matches at the start.\<close>

definition replace_first :: "string \<Rightarrow> string \<Rightarrow> string \<Rightarrow> string" where
  "replace_first s old new = (case str_index s old of
     None \<Rightarrow> s
   | Some i \<Rightarrow> take i s @ new @ drop (i + length old) s)"

text \<open>\<open>strings.ReplaceAll\<close> of one byte by another.\<close>

definition replace_byte :: "char \<Rightarrow> char \<Rightarrow> string \<Rightarrow> string" where
  "replace_byte c d = map (\<lambda>x. if x = c then d else x)"

section \<open>Splitting and joining\<close>

text \<open>\<open>strings.SplitN(s, sep, n)\<close> for a one-byte separator and a positive \<open>n\<close>.\<close>

fun split_n :: "nat \<Rightarrow> char \<Rightarrow> string \<Rightarrow> string list" where
  "split_n 0 c s = []"
| "split_n (Suc 0) c s = [s]"
| "split_n (Suc (Suc n)) c s =
     (if c \<in> set s
      then takeWhile (\<lambda>x. x \<noteq> c) s # split_n (Suc n) c (tl (dropWhile (\<lambda>x. x \<noteq> c) s))
      else [s])"

lemma takeWhile_dropWhile_sep:
  "c \<notin> set a \<Longrightarrow> takeWhile (\<lambda>x. x \<noteq> c) (a @ c # b) = a \<and> tl (dropWhile (\<lambda>x. x \<noteq> c) (a @ c # b)) = b"
  by (induction a) auto

lemma split_n_sep:
  "c \<notin> set a \<Longrightarrow> split_n (Suc (Suc n)) c (a @ c # b) = a # split_n (Suc n) c b"
  using takeWhile_dropWhile_sep [of c a b] by simp

text \<open>\<open>strings.Split\<close> with a separator of one byte.\<close>

fun split_on :: "char \<Rightarrow> string \<Rightarrow> string list" where
  "split_on c [] = [[]]"
| "split_on c (x # s) = (if x = c then [] # split_on c s else (case split_on c s of l # ls \<Rightarrow> (x # l) # ls | [] \<Rightarrow> [[x]]))"

text \<open>\<open>strings.Join\<close>.\<close>

fun join :: "string \<Rightarrow> string list \<Rightarrow> string" where
  "join sep [] = []"
| "join sep [x] = x"
| "join sep (x # y # xs) = x @ sep @ join sep (y # xs)"

text \<open>\<open>strings.Fields\<close>: the maximal runs of bytes between white space.\<close>

function fields_from :: "string \<Rightarrow> string \<Rightarrow> string list" where
  "fields_from cur s = (case lead_enc space_encs s of
     Some e \<Rightarrow> (if cur = [] then [] else [rev cur]) @ fields_from [] (drop (length e) s)
   | None \<Rightarrow> (case s of [] \<Rightarrow> (if cur = [] then [] else [rev cur]) | c # s' \<Rightarrow> fields_from (c # cur) s'))"
  by pat_completeness auto
termination
proof (relation "measure (\<lambda>(cur, s). length s)", simp_all)
  fix s e assume "lead_enc space_encs s = Some e"
  then have "e \<noteq> []" "length e \<le> length s"
    using lead_enc_Some prefix_length_le by blast+
  then show "length s - length e < length s" by (cases e) auto
qed

declare fields_from.simps [simp del]

definition fields :: "string \<Rightarrow> string list" where
  "fields s = fields_from [] s"

section \<open>Formatting\<close>

text \<open>\<open>%d\<close> and \<open>strconv.Itoa\<close>.\<close>

definition digit_char :: "nat \<Rightarrow> char" where
  "digit_char d = char_of (48 + d)"

fun nat_digits :: "nat \<Rightarrow> string" where
  "nat_digits n = (if n < 10 then [digit_char n] else nat_digits (n div 10) @ [digit_char (n mod 10)])"

declare nat_digits.simps [simp del]

definition itoa :: "int \<Rightarrow> string" where
  "itoa i = (if i < 0 then CHR ''-'' # nat_digits (nat (- i)) else nat_digits (nat i))"

end
