(* ===== verification/Agent_Ids.thy ===== *)
theory Agent_Ids
  imports Go_Strings
begin

text \<open>
  Agent and account identifiers, \<open>pkg/routing/agent_id.go\<close>: the regular expressions of the file as
  predicates and replacements on byte strings, and \<open>NormalizeAgentID\<close> and \<open>NormalizeAccountID\<close>.
  Proved: the shape of a normalized identifier, when normalizing twice is normalizing once (it is
  not when the identifier starts with an underscore), and that an identifier holds no separator.
\<close>

section \<open>The constants and regular expressions\<close>

definition default_agent_id :: string where "default_agent_id = ''main''"
definition default_main_key :: string where "default_main_key = ''main''"
definition default_account_id :: string where "default_account_id = ''default''"
definition max_agent_id_length :: nat where "max_agent_id_length = 64"

definition id_start :: "char \<Rightarrow> bool" where
  "id_start c \<longleftrightarrow> 97 \<le> byte c \<and> byte c \<le> 122 \<or> 48 \<le> byte c \<and> byte c \<le> 57"

definition id_char :: "char \<Rightarrow> bool" where
  "id_char c \<longleftrightarrow> id_start c \<or> c = CHR ''_'' \<or> c = CHR ''-''"

text \<open>\<open>validIDRe\<close>, \<open>^[a-z0-9][a-z0-9_-]{0,63}$\<close>.\<close>

definition valid_id_re :: "string \<Rightarrow> bool" where
  "valid_id_re s = (case s of [] \<Rightarrow> False | c # cs \<Rightarrow> id_start c \<and> list_all id_char cs \<and> length cs \<le> 63)"

text \<open>\<open>invalidCharsRe.ReplaceAllString(s, "-")\<close>: every maximal run of other bytes becomes one dash.\<close>

function replace_invalid :: "string \<Rightarrow> string" where
  "replace_invalid [] = []"
| "replace_invalid (c # s) =
     (if id_char c then c # replace_invalid s
      else CHR ''-'' # replace_invalid (dropWhile (\<lambda>x. \<not> id_char x) s))"
  by pat_completeness auto
termination
  by (relation "measure length") (auto simp: le_imp_less_Suc length_dropWhile_le)

definition strip_leading_dashes :: "string \<Rightarrow> string" where
  "strip_leading_dashes = dropWhile (\<lambda>c. c = CHR ''-'')"

definition strip_trailing_dashes :: "string \<Rightarrow> string" where
  "strip_trailing_dashes s = rev (dropWhile (\<lambda>c. c = CHR ''-'') (rev s))"

section \<open>Normalization\<close>

definition normalize_agent_id :: "string \<Rightarrow> string" where
  "normalize_agent_id i =
    (let trimmed = trim_space i in
     if trimmed = [] then default_agent_id
     else let lower = to_lower trimmed in
       if valid_id_re lower then lower
       else let r1 = replace_invalid lower;
                r2 = strip_leading_dashes r1;
                r3 = strip_trailing_dashes r2;
                r4 = (if length r3 > max_agent_id_length then take max_agent_id_length r3 else r3)
            in if r4 = [] then default_agent_id else r4)"

definition normalize_account_id :: "string \<Rightarrow> string" where
  "normalize_account_id i =
    (let trimmed = trim_space i in
     if trimmed = [] then default_account_id
     else let lower = to_lower trimmed in
       if valid_id_re lower then lower
       else let r1 = replace_invalid lower;
                r2 = strip_leading_dashes r1;
                r3 = strip_trailing_dashes r2;
                r4 = (if length r3 > max_agent_id_length then take max_agent_id_length r3 else r3)
            in if r4 = [] then default_account_id else r4)"

lemmas id_defaults = default_agent_id_def default_account_id_def max_agent_id_length_def

section \<open>The shape of a normalized identifier\<close>

text \<open>What both functions guarantee: non-empty, at most 64 bytes, of the identifier alphabet, no
  dash in front.\<close>

definition id_shape :: "string \<Rightarrow> bool" where
  "id_shape s \<longleftrightarrow> s \<noteq> [] \<and> length s \<le> 64 \<and> list_all id_char s \<and> hd s \<noteq> CHR ''-''"

lemma list_all_replace_invalid [simp]: "list_all id_char (replace_invalid s)"
  by (induction s rule: replace_invalid.induct) (auto simp: id_char_def)

lemma replace_invalid_id: "list_all id_char s \<Longrightarrow> replace_invalid s = s"
  by (induction s) auto

lemma list_all_dropWhile: "list_all P s \<Longrightarrow> list_all P (dropWhile Q s)"
  by (auto simp: list_all_iff dest: set_dropWhileD)

lemma list_all_take: "list_all P s \<Longrightarrow> list_all P (take n s)"
  by (auto simp: list_all_iff dest: in_set_takeD)

lemma prefix_strip_trailing: "prefix (strip_trailing_dashes s) s"
  by (simp add: strip_trailing_dashes_def flip: suffix_to_prefix)
    (metis rev_rev_ident suffix_dropWhile suffix_to_prefix)

lemma list_all_strip_trailing: "list_all P s \<Longrightarrow> list_all P (strip_trailing_dashes s)"
  using prefix_strip_trailing [of s] by (auto simp: list_all_iff dest: set_mono_prefix)

lemma hd_strip_leading: "strip_leading_dashes s \<noteq> [] \<Longrightarrow> hd (strip_leading_dashes s) \<noteq> CHR ''-''"
  using hd_dropWhile [of "\<lambda>c. c = CHR ''-''" s] by (simp add: strip_leading_dashes_def)

lemma hd_prefix: "prefix t s \<Longrightarrow> t \<noteq> [] \<Longrightarrow> hd t = hd s"
  by (auto simp: prefix_def)

lemma id_shape_sanitized:
  assumes r: "list_all id_char r"
    and t: "t = strip_trailing_dashes (strip_leading_dashes r)"
    and u: "u = (if length t > max_agent_id_length then take max_agent_id_length t else t)" "u \<noteq> []"
  shows "id_shape u"
proof -
  have "list_all id_char t"
    using r by (simp add: t strip_leading_dashes_def list_all_strip_trailing list_all_dropWhile)
  moreover have "prefix u t" by (simp add: u take_is_prefix)
  moreover have "prefix t (strip_leading_dashes r)" by (simp add: t prefix_strip_trailing)
  ultimately have "list_all id_char u" and "hd u = hd (strip_leading_dashes r)"
      and "strip_leading_dashes r \<noteq> []"
    using \<open>u \<noteq> []\<close> by (auto simp: list_all_iff dest: set_mono_prefix hd_prefix prefix_order.trans)
  moreover have "length u \<le> 64" by (auto simp: u max_agent_id_length_def)
  ultimately show ?thesis using \<open>u \<noteq> []\<close> by (simp add: id_shape_def hd_strip_leading)
qed

lemma id_shape_valid: "valid_id_re s \<Longrightarrow> id_shape s"
  by (auto simp: valid_id_re_def id_shape_def id_char_def id_start_def byte_def split: list.splits)

lemma id_shape_agent [simp]: "id_shape (normalize_agent_id i)"
  using id_shape_sanitized [OF list_all_replace_invalid refl refl]
  by (auto simp: normalize_agent_id_def Let_def id_shape_valid)
    (auto simp: default_agent_id_def id_shape_def id_char_def id_start_def byte_def)

lemma id_shape_account [simp]: "id_shape (normalize_account_id i)"
  using id_shape_sanitized [OF list_all_replace_invalid refl refl]
  by (auto simp: normalize_account_id_def Let_def id_shape_valid)
    (auto simp: default_account_id_def id_shape_def id_char_def id_start_def byte_def)

text \<open>Identifier bytes are lower-case, are not white space, and are not the key separator.\<close>

lemma id_char_simps [simp]:
  "id_char c \<Longrightarrow> \<not> is_upper_char c" "id_char c \<Longrightarrow> c \<noteq> CHR '':''" "id_char c \<Longrightarrow> byte c < 128"
  by (auto simp: id_char_def id_start_def is_upper_char_def byte_def)

lemma id_char_not_spacey: "id_char c \<Longrightarrow> not_spacey c"
  by (auto simp: id_char_def id_start_def not_spacey_def space_encs_def byte_def)

lemma id_shape_nonempty [simp]: "id_shape s \<Longrightarrow> s \<noteq> []"
  by (simp add: id_shape_def)

lemma not_id_char_colon [simp]: "\<not> id_char CHR '':''"
  by (auto simp: id_char_def id_start_def byte_def)

lemma id_shape_no_colon: "id_shape s \<Longrightarrow> CHR '':'' \<notin> set s"
  by (auto simp: id_shape_def list_all_iff)

lemma id_shape_to_lower [simp]: "id_shape s \<Longrightarrow> to_lower s = s"
  by (rule to_lower_id) (auto simp: id_shape_def list_all_iff)

lemma id_shape_trim [simp]: "id_shape s \<Longrightarrow> trim_space s = s"
  by (rule trim_space_fixed) (auto simp: id_shape_def list_all_iff intro: id_char_not_spacey)

section \<open>Normalizing twice\<close>

lemma id_shape_valid_iff: "id_shape s \<Longrightarrow> valid_id_re s \<longleftrightarrow> hd s \<noteq> CHR ''_''"
  by (cases s) (auto simp: id_shape_def valid_id_re_def id_char_def id_start_def byte_def)

lemma normalize_agent_id_fixed: "id_shape s \<Longrightarrow> hd s \<noteq> CHR ''_'' \<Longrightarrow> normalize_agent_id s = s"
  by (simp add: normalize_agent_id_def Let_def id_shape_valid_iff)

lemma strip_leading_fixed: "s \<noteq> [] \<Longrightarrow> hd s \<noteq> CHR ''-'' \<Longrightarrow> strip_leading_dashes s = s"
  by (cases s) (auto simp: strip_leading_dashes_def)

lemma strip_trailing_fixed: "s \<noteq> [] \<Longrightarrow> last s \<noteq> CHR ''-'' \<Longrightarrow> strip_trailing_dashes s = s"
  by (cases s rule: rev_cases) (auto simp: strip_trailing_dashes_def)

lemma normalize_agent_id_fixed_last:
  assumes "id_shape s" and "last s \<noteq> CHR ''-''"
  shows "normalize_agent_id s = s"
proof -
  have "replace_invalid s = s" "strip_leading_dashes s = s" "strip_trailing_dashes s = s"
      "length s \<le> 64"
    using assms by (simp_all add: id_shape_def replace_invalid_id strip_leading_fixed strip_trailing_fixed)
  with assms(1) show ?thesis
    by (simp add: normalize_agent_id_def max_agent_id_length_def)
qed

text \<open>
  A normalized agent identifier is non-empty, at most 64 bytes long, made of \<open>[a-z0-9_-]\<close> only
  and never starts with a dash, whatever the input; and normalizing it again changes nothing unless
  it starts with an underscore and ends with a dash (the one case where the code is not idempotent).
\<close>

theorem normalize_agent_id_canonical:
  "id_shape (normalize_agent_id i) \<and>
   (hd (normalize_agent_id i) \<noteq> CHR ''_'' \<or> last (normalize_agent_id i) \<noteq> CHR ''-'' \<longrightarrow>
    normalize_agent_id (normalize_agent_id i) = normalize_agent_id i)"
  using normalize_agent_id_fixed normalize_agent_id_fixed_last by auto

theorem normalize_agent_id_canonical_witness:
  "normalize_agent_id (normalize_agent_id ''  Ops Team! '') = normalize_agent_id ''  Ops Team! ''"
proof -
  have "hd (normalize_agent_id ''  Ops Team! '') \<noteq> CHR ''_''" by code_simp
  then show ?thesis using normalize_agent_id_canonical [of "''  Ops Team! ''"] by simp
qed

text \<open>
  The exception is real: an identifier of 64 underscores, letters and dashes is cut behind a dash,
  which a second normalization strips, so it names a different agent.
\<close>

definition underscore_id :: string where
  "underscore_id = CHR ''_'' # replicate 62 CHR ''a'' @ ''!b''"

theorem normalize_agent_id_not_idempotent:
  "normalize_agent_id (normalize_agent_id underscore_id) \<noteq> normalize_agent_id underscore_id"
  by code_simp

end
