(* ===== verification/Session_Keys.thy ===== *)
theory Session_Keys
  imports Agent_Ids
begin

text \<open>
  Session keys, \<open>pkg/routing/session_key.go\<close>: the direct-message scopes, construction of the keys
  of direct and group conversations, identity links and parsing. Proved: a key that was built parses
  back to its agent, and keys of the finest direct-message scope are injective, so two conversations
  share a session only if agent, channel, account and peer agree.
\<close>

section \<open>Data\<close>

definition dm_scope_main :: string where "dm_scope_main = ''main''"
definition dm_scope_per_peer :: string where "dm_scope_per_peer = ''per-peer''"
definition dm_scope_per_channel_peer :: string where "dm_scope_per_channel_peer = ''per-channel-peer''"
definition dm_scope_per_account_channel_peer :: string where
  "dm_scope_per_account_channel_peer = ''per-account-channel-peer''"

lemmas dm_scope_defs = dm_scope_main_def dm_scope_per_peer_def dm_scope_per_channel_peer_def
  dm_scope_per_account_channel_peer_def

record route_peer =
  peer_kind :: string
  peer_id :: string

text \<open>
  \<open>IdentityLinks\<close> is a Go map; a range loop visits it in an unspecified order. The model carries the
  entries in the order of the iteration, so a theorem for every list holds for every order.
\<close>

type_synonym identity_links = "(string \<times> string list) list"

record session_key_params =
  skp_agent_id :: string
  skp_channel :: string
  skp_account_id :: string
  skp_peer :: "route_peer option"
  skp_dm_scope :: string
  skp_identity_links :: identity_links

record parsed_session_key =
  psk_agent_id :: string
  psk_rest :: string

section \<open>Construction\<close>

definition build_agent_main_session_key :: "string \<Rightarrow> string" where
  "build_agent_main_session_key agent =
     ''agent:'' @ normalize_agent_id agent @ '':'' @ default_main_key"

definition normalize_channel :: "string \<Rightarrow> string" where
  "normalize_channel channel =
     (let c = trim_space (to_lower channel) in if c = [] then ''unknown'' else c)"

text \<open>The candidate spellings of a peer: raw, with the channel in front, and without a platform.\<close>

definition link_candidates :: "string \<Rightarrow> string \<Rightarrow> string list" where
  "link_candidates channel pid =
    (let raw = to_lower pid; ch = to_lower (trim_space channel) in
      (if raw \<noteq> [] then [raw] else []) @
      (if ch \<noteq> [] then [ch @ '':'' @ to_lower pid] else []) @
      (case str_index raw '':'' of
         Some i \<Rightarrow> (if 0 < i \<and> i < length raw - 1 then [drop (i + 1) raw] else [])
       | None \<Rightarrow> []))"

definition link_matches :: "string list \<Rightarrow> string list \<Rightarrow> bool" where
  "link_matches cands ids \<longleftrightarrow>
     list_ex (\<lambda>i. let n = to_lower (trim_space i) in n \<noteq> [] \<and> n \<in> set cands) ids"

fun first_link :: "string list \<Rightarrow> identity_links \<Rightarrow> string" where
  "first_link cands [] = []"
| "first_link cands ((canonical, ids) # ls) =
     (let name = trim_space canonical in
      if name = [] then first_link cands ls
      else if link_matches cands ids then name
      else first_link cands ls)"

definition resolve_linked_peer_id :: "identity_links \<Rightarrow> string \<Rightarrow> string \<Rightarrow> string" where
  "resolve_linked_peer_id links channel peer =
    (if links = [] then []
     else let pid = trim_space peer in
       if pid = [] then []
       else let cands = link_candidates channel pid in
         if cands = [] then [] else first_link cands links)"

definition effective_dm_scope :: "string \<Rightarrow> string" where
  "effective_dm_scope scope = (if scope = [] then dm_scope_main else scope)"

text \<open>The peer part of a direct-message key: trimmed, collapsed over identity links, lower-cased.\<close>

definition direct_peer_id :: "session_key_params \<Rightarrow> route_peer \<Rightarrow> string" where
  "direct_peer_id p peer =
    (let pid = trim_space (peer_id peer);
         linked = (if effective_dm_scope (skp_dm_scope p) \<noteq> dm_scope_main \<and> pid \<noteq> []
                   then resolve_linked_peer_id (skp_identity_links p) (skp_channel p) pid else [])
     in to_lower (if linked \<noteq> [] then linked else pid))"

definition build_agent_peer_session_key :: "session_key_params \<Rightarrow> string" where
  "build_agent_peer_session_key p =
    (let agent = normalize_agent_id (skp_agent_id p);
         peer = (case skp_peer p of None \<Rightarrow> \<lparr>peer_kind = ''direct'', peer_id = []\<rparr> | Some q \<Rightarrow> q);
         kind0 = trim_space (peer_kind peer);
         kind = (if kind0 = [] then ''direct'' else kind0)
     in if kind = ''direct'' then
          (let scope = effective_dm_scope (skp_dm_scope p);
               pid = direct_peer_id p peer
           in if scope = dm_scope_per_account_channel_peer \<and> pid \<noteq> [] then
                ''agent:'' @ agent @ '':'' @ normalize_channel (skp_channel p) @ '':'' @
                  normalize_account_id (skp_account_id p) @ '':direct:'' @ pid
              else if scope = dm_scope_per_channel_peer \<and> pid \<noteq> [] then
                ''agent:'' @ agent @ '':'' @ normalize_channel (skp_channel p) @ '':direct:'' @ pid
              else if scope = dm_scope_per_peer \<and> pid \<noteq> [] then
                ''agent:'' @ agent @ '':direct:'' @ pid
              else build_agent_main_session_key agent)
        else
          (let channel = normalize_channel (skp_channel p);
               pid0 = to_lower (trim_space (peer_id peer));
               pid = (if pid0 = [] then ''unknown'' else pid0)
           in ''agent:'' @ agent @ '':'' @ channel @ '':'' @ kind @ '':'' @ pid))"

section \<open>Parsing\<close>

definition parse_agent_session_key :: "string \<Rightarrow> parsed_session_key option" where
  "parse_agent_session_key key =
    (let raw = trim_space key in
     if raw = [] then None
     else case split_n 3 CHR '':'' raw of
       [p0, p1, p2] \<Rightarrow>
         (if p0 \<noteq> ''agent'' then None
          else let agent = trim_space p1 in
            if agent = [] \<or> p2 = [] then None
            else Some \<lparr>psk_agent_id = agent, psk_rest = p2\<rparr>)
     | _ \<Rightarrow> None)"

definition is_subagent_session_key :: "string \<Rightarrow> bool" where
  "is_subagent_session_key key =
    (let raw = trim_space key in
     if raw = [] then False
     else if prefix ''subagent:'' (to_lower raw) then True
     else case parse_agent_session_key raw of
       None \<Rightarrow> False
     | Some parsed \<Rightarrow> prefix ''subagent:'' (to_lower (psk_rest parsed)))"

section \<open>Keys are trimmed and parse back\<close>

text \<open>A trimmed, non-empty tail behind a colon keeps the whole string trimmed.\<close>

lemma colon_not_in_space_enc: "e \<in> set space_encs \<Longrightarrow> CHR '':'' \<notin> set e"
  by (auto simp: space_encs_def)

lemma suffix_append_sep:
  assumes "suffix e (a @ c # p)" and "c \<notin> set e"
  shows "suffix e p"
proof (cases "length e \<le> length p")
  case True
  from assms(1) have "suffix e ((a @ [c]) @ p)" by simp
  with True show ?thesis by (rule suffix_length_suffix [rotated 2]) (auto simp: suffix_def)
next
  case False
  from assms(1) obtain zs where zs: "a @ c # p = zs @ e" by (auto simp: suffix_def)
  then have "e = drop (length zs) (a @ c # p)" by simp
  moreover have "length zs \<le> length a"
  proof -
    have "length zs + length e = length a + Suc (length p)" using arg_cong [OF zs, of length] by simp
    with False show ?thesis by simp
  qed
  ultimately have "c \<in> set e" by simp
  with assms(2) show ?thesis by simp
qed

lemma trim_space_tail:
  assumes "not_spacey h" and p: "trim_space p = p" "p \<noteq> []"
  shows "trim_space (h # a @ CHR '':'' # p) = h # a @ CHR '':'' # p"
proof -
  have "\<not> prefix e (h # t)" if "e \<in> set space_encs" for e t
    using assms(1) space_encs_nonempty [OF that] that by (cases e) (auto simp: not_spacey_def)
  moreover have "\<not> suffix e (h # a @ CHR '':'' # p)" if e: "e \<in> set space_encs" for e
  proof
    assume "suffix e (h # a @ CHR '':'' # p)"
    then have "suffix e p"
      using suffix_append_sep [of e "h # a" "CHR '':''" p] colon_not_in_space_enc [OF e] by simp
    with p(1) e show False by (simp add: trim_space_fix_conv)
  qed
  ultimately show ?thesis unfolding trim_space_fix_conv by blast
qed

lemma not_spacey_a: "not_spacey CHR ''a''"
  by (rule id_char_not_spacey) (simp add: id_char_def id_start_def byte_def)

text \<open>What every key looks like: the agent, a middle and a trimmed last component.\<close>

definition key_form :: "string \<Rightarrow> string \<Rightarrow> string \<Rightarrow> bool" where
  "key_form key agent rest \<longleftrightarrow>
     key = ''agent:'' @ agent @ '':'' @ rest \<and> rest \<noteq> [] \<and>
     (\<exists>m p. ''agent:'' @ agent @ '':'' @ rest = m @ CHR '':'' # p \<and> prefix ''agent'' m \<and> p \<noteq> [] \<and> trim_space p = p)"

lemma key_form_parse:
  assumes kf: "key_form key agent rest" and ag: "id_shape agent"
  shows "parse_agent_session_key key = Some \<lparr>psk_agent_id = agent, psk_rest = rest\<rparr>"
proof -
  from kf obtain m p where k: "key = ''agent:'' @ agent @ '':'' @ rest" "rest \<noteq> []"
    and m: "key = m @ CHR '':'' # p" "prefix ''agent'' m" "p \<noteq> []" "trim_space p = p"
    by (auto simp: key_form_def)
  from m(2) obtain m' where "m = CHR ''a'' # m'" by (auto simp: prefix_def)
  with m have t: "trim_space key = key"
    using trim_space_tail [OF not_spacey_a m(4,3), of m'] by simp
  have "split_n (Suc (Suc 1)) CHR '':'' (''agent'' @ CHR '':'' # (agent @ CHR '':'' # rest)) =
      ''agent'' # split_n (Suc 1) CHR '':'' (agent @ CHR '':'' # rest)"
    by (rule split_n_sep) simp
  moreover have "split_n (Suc (Suc 0)) CHR '':'' (agent @ CHR '':'' # rest) =
      agent # split_n (Suc 0) CHR '':'' rest"
    by (rule split_n_sep) (rule id_shape_no_colon [OF ag])
  ultimately have sp: "split_n 3 CHR '':'' key = [''agent'', agent, rest]"
    by (simp add: k numeral_3_eq_3 del: split_n.simps(3))
  have "key \<noteq> []" by (simp add: k(1))
  then show ?thesis
    using k(2) ag by (simp add: parse_agent_session_key_def t sp)
qed

lemma main_key_form: "key_form (build_agent_main_session_key a) (normalize_agent_id a) default_main_key"
proof -
  have "trim_space default_main_key = default_main_key"
    by (rule trim_space_fixed)
      (auto simp: default_main_key_def id_char_def id_start_def byte_def intro!: id_char_not_spacey)
  then show ?thesis
    unfolding key_form_def build_agent_main_session_key_def
    by (intro conjI exI [of _ "''agent:'' @ normalize_agent_id a"] exI [of _ default_main_key])
      (auto simp: default_main_key_def)
qed

lemma key_formI:
  assumes "key = ''agent:'' @ agent @ '':'' @ rest" and "rest = m @ CHR '':'' # p" and "p \<noteq> []" "trim_space p = p"
  shows "key_form key agent rest"
  unfolding key_form_def
  by (rule conjI, rule assms(1), rule conjI, simp add: assms(2),
      rule exI [of _ "''agent:'' @ agent @ '':'' @ m"], rule exI [of _ p])
    (simp add: assms(2-4))

lemma first_link_trimmed: "trim_space (first_link cands ls) = first_link cands ls"
  by (induction cands ls rule: first_link.induct) (auto simp: Let_def)

lemma resolve_linked_trimmed:
  "trim_space (resolve_linked_peer_id ls ch p) = resolve_linked_peer_id ls ch p"
  by (auto simp: resolve_linked_peer_id_def Let_def first_link_trimmed)

lemma direct_peer_id_trimmed: "trim_space (direct_peer_id p q) = direct_peer_id p q"
  by (auto simp: direct_peer_id_def Let_def trim_space_to_lower resolve_linked_trimmed)

lemma unknown_trimmed: "trim_space ''unknown'' = ''unknown''"
  by (rule trim_space_fixed) (auto simp: id_char_def id_start_def byte_def intro!: id_char_not_spacey)

text \<open>The group peer part of a key.\<close>

definition group_peer_id :: "route_peer \<Rightarrow> string" where
  "group_peer_id q = (let p = to_lower (trim_space (peer_id q)) in if p = [] then ''unknown'' else p)"

lemma group_peer_id_facts [simp]: "group_peer_id q \<noteq> []" "trim_space (group_peer_id q) = group_peer_id q"
  by (auto simp: group_peer_id_def Let_def trim_space_to_lower unknown_trimmed)

text \<open>The five forms of a session key.\<close>

inductive session_key :: "session_key_params \<Rightarrow> string \<Rightarrow> bool" for p where
  main: "session_key p (build_agent_main_session_key (normalize_agent_id (skp_agent_id p)))"
| per_peer: "q \<noteq> [] \<Longrightarrow> trim_space q = q \<Longrightarrow>
    session_key p (''agent:'' @ normalize_agent_id (skp_agent_id p) @ '':direct:'' @ q)"
| per_channel: "q \<noteq> [] \<Longrightarrow> trim_space q = q \<Longrightarrow>
    session_key p (''agent:'' @ normalize_agent_id (skp_agent_id p) @ '':'' @
      normalize_channel (skp_channel p) @ '':direct:'' @ q)"
| per_account: "q \<noteq> [] \<Longrightarrow> trim_space q = q \<Longrightarrow>
    session_key p (''agent:'' @ normalize_agent_id (skp_agent_id p) @ '':'' @
      normalize_channel (skp_channel p) @ '':'' @ normalize_account_id (skp_account_id p) @ '':direct:'' @ q)"
| group: "q \<noteq> [] \<Longrightarrow> trim_space q = q \<Longrightarrow>
    session_key p (''agent:'' @ normalize_agent_id (skp_agent_id p) @ '':'' @
      normalize_channel (skp_channel p) @ '':'' @ kind @ '':'' @ q)"

lemma build_session_key: "session_key p (build_agent_peer_session_key p)"
proof -
  define peer where "peer = (case skp_peer p of None \<Rightarrow> \<lparr>peer_kind = ''direct'', peer_id = []\<rparr> | Some q \<Rightarrow> q)"
  define kind where "kind = (let k = trim_space (peer_kind peer) in if k = [] then ''direct'' else k)"
  show ?thesis
  proof (cases "kind = ''direct''")
    case True
    then show ?thesis
      using session_key.intros(1) session_key.intros(2-4) [OF _ direct_peer_id_trimmed]
      by (simp add: build_agent_peer_session_key_def Let_def kind_def peer_def)
  next
    case False
    then have "build_agent_peer_session_key p =
        ''agent:'' @ normalize_agent_id (skp_agent_id p) @ '':'' @
          normalize_channel (skp_channel p) @ '':'' @ kind @ '':'' @ group_peer_id peer"
      by (simp add: build_agent_peer_session_key_def Let_def kind_def peer_def group_peer_id_def)
    then show ?thesis using session_key.group [of "group_peer_id peer" p kind] by simp
  qed
qed

lemma session_key_form:
  assumes "session_key p key" and "normalize_agent_id (normalize_agent_id (skp_agent_id p)) = normalize_agent_id (skp_agent_id p)"
  shows "\<exists>rest. key_form key (normalize_agent_id (skp_agent_id p)) rest"
  using assms(1)
proof cases
  case main
  with assms(2) main_key_form [of "normalize_agent_id (skp_agent_id p)"] show ?thesis by auto
next
  case (per_peer q)
  then show ?thesis by (intro exI key_formI [where m = "''direct''" and p = q]) auto
next
  case (per_channel q)
  then show ?thesis
    by (intro exI key_formI [where m = "normalize_channel (skp_channel p) @ '':direct''" and p = q]) auto
next
  case (per_account q)
  then show ?thesis
    by (intro exI key_formI [where m = "normalize_channel (skp_channel p) @ '':'' @
          normalize_account_id (skp_account_id p) @ '':direct''" and p = q]) auto
next
  case (group q kind)
  then show ?thesis
    by (intro exI key_formI [where m = "normalize_channel (skp_channel p) @ '':'' @ kind" and p = q]) auto
qed

text \<open>
  Every session key that \<open>BuildAgentPeerSessionKey\<close> builds, for whatever scope, peer, channel
  and identity links, is parsed back by \<open>ParseAgentSessionKey\<close> to the normalized agent identifier
  and exactly the text behind it, provided normalizing that identifier is stable.
\<close>

theorem session_key_parse_back:
  assumes "normalize_agent_id (normalize_agent_id (skp_agent_id p)) = normalize_agent_id (skp_agent_id p)"
  shows "\<exists>rest. build_agent_peer_session_key p = ''agent:'' @ normalize_agent_id (skp_agent_id p) @ '':'' @ rest \<and>
    parse_agent_session_key (build_agent_peer_session_key p) =
      Some \<lparr>psk_agent_id = normalize_agent_id (skp_agent_id p), psk_rest = rest\<rparr>"
proof -
  obtain rest where "key_form (build_agent_peer_session_key p) (normalize_agent_id (skp_agent_id p)) rest"
    using session_key_form [OF build_session_key assms] by blast
  then show ?thesis using key_form_parse [OF _ id_shape_agent] by (auto simp: key_form_def)
qed

definition sample_params :: session_key_params where
  "sample_params = \<lparr>skp_agent_id = ''Ops Bot'', skp_channel = ''Slack'', skp_account_id = [],
     skp_peer = Some \<lparr>peer_kind = ''direct'', peer_id = '' U42 ''\<rparr>,
     skp_dm_scope = dm_scope_per_channel_peer, skp_identity_links = []\<rparr>"

theorem session_key_parse_back_witness:
  "parse_agent_session_key (build_agent_peer_session_key sample_params) =
     Some \<lparr>psk_agent_id = ''ops-bot'', psk_rest = ''slack:direct:u42''\<rparr>"
proof -
  have n: "normalize_agent_id (skp_agent_id sample_params) = ''ops-bot''" "normalize_agent_id ''ops-bot'' = ''ops-bot''"
    and b: "build_agent_peer_session_key sample_params = ''agent:ops-bot:slack:direct:u42''"
    by code_simp+
  show ?thesis using session_key_parse_back [of sample_params] by (simp add: n b)
qed

section \<open>Isolation of conversations\<close>

lemma append_sep_inject:
  "c \<notin> set a \<Longrightarrow> c \<notin> set b \<Longrightarrow> a @ c # x = b @ c # y \<longleftrightarrow> a = b \<and> x = y"
  using takeWhile_dropWhile_sep by metis

definition direct_peer :: "session_key_params \<Rightarrow> route_peer \<Rightarrow> bool" where
  "direct_peer p q \<longleftrightarrow> skp_peer p = Some q \<and> trim_space (peer_kind q) \<in> {[], ''direct''} \<and> direct_peer_id p q \<noteq> []"

definition peer_scopes :: "string list" where
  "peer_scopes = [dm_scope_per_peer, dm_scope_per_channel_peer, dm_scope_per_account_channel_peer]"

text \<open>What a scope puts between the agent and the peer.\<close>

definition scope_middle :: "session_key_params \<Rightarrow> string" where
  "scope_middle p =
    (if skp_dm_scope p = dm_scope_per_peer then []
     else normalize_channel (skp_channel p) @ '':'' @
       (if skp_dm_scope p = dm_scope_per_channel_peer then [] else normalize_account_id (skp_account_id p) @ '':''))"

lemma build_direct_key:
  "direct_peer p q \<Longrightarrow> skp_dm_scope p \<in> set peer_scopes \<Longrightarrow>
   build_agent_peer_session_key p =
     ''agent:'' @ normalize_agent_id (skp_agent_id p) @ CHR '':'' # scope_middle p @ ''direct:'' @ direct_peer_id p q"
  by (auto simp: direct_peer_def build_agent_peer_session_key_def Let_def effective_dm_scope_def dm_scope_defs
      peer_scopes_def scope_middle_def)

text \<open>
  C26: Under each of the scopes \<open>per-peer\<close>, \<open>per-channel-peer\<close> and \<open>per-account-channel-peer\<close>, two direct conversations
  (on channels whose names hold no colon, where the scope looks at the channel) share a session key exactly when the
  agent and the (link-resolved, lower-cased) peer are the same, and with them the channel and the account as far as the
  scope separates them: no conversation reads the history of another.
\<close>

theorem session_key_isolation:
  assumes "direct_peer p q" and "direct_peer p' q'"
    and "skp_dm_scope p = scope" "skp_dm_scope p' = scope" "scope \<in> set peer_scopes"
    and "scope \<noteq> dm_scope_per_peer \<longrightarrow> CHR '':'' \<notin> set (normalize_channel (skp_channel p)) \<and>
      CHR '':'' \<notin> set (normalize_channel (skp_channel p'))"
  shows "build_agent_peer_session_key p = build_agent_peer_session_key p' \<longleftrightarrow>
     normalize_agent_id (skp_agent_id p) = normalize_agent_id (skp_agent_id p') \<and>
     (scope \<noteq> dm_scope_per_peer \<longrightarrow> normalize_channel (skp_channel p) = normalize_channel (skp_channel p')) \<and>
     (scope = dm_scope_per_account_channel_peer \<longrightarrow>
        normalize_account_id (skp_account_id p) = normalize_account_id (skp_account_id p')) \<and>
     direct_peer_id p q = direct_peer_id p' q'"
proof -
  have k: "build_agent_peer_session_key p = build_agent_peer_session_key p' \<longleftrightarrow>
      normalize_agent_id (skp_agent_id p) = normalize_agent_id (skp_agent_id p') \<and>
      scope_middle p @ ''direct:'' @ direct_peer_id p q = scope_middle p' @ ''direct:'' @ direct_peer_id p' q'"
    using assms(3-5) by (simp add: build_direct_key [OF assms(1)] build_direct_key [OF assms(2)]
        append_sep_inject id_shape_no_colon)
  show ?thesis
  proof (cases "scope = dm_scope_per_peer")
    case True
    then show ?thesis unfolding k using assms(3,4) by (simp add: scope_middle_def dm_scope_defs)
  next
    case False
    then have c: "CHR '':'' \<notin> set (normalize_channel (skp_channel p))" "CHR '':'' \<notin> set (normalize_channel (skp_channel p'))"
      using assms(6) by blast+
    have "scope = dm_scope_per_channel_peer \<or> scope = dm_scope_per_account_channel_peer"
      using False assms(5) by (auto simp: peer_scopes_def)
    then show ?thesis unfolding k using assms(3,4) c
      by (auto simp: scope_middle_def dm_scope_defs append_sep_inject id_shape_no_colon)
  qed
qed

definition sample_direct :: "string \<Rightarrow> string \<Rightarrow> session_key_params" where
  "sample_direct scope u = \<lparr>skp_agent_id = ''main'', skp_channel = ''Slack'', skp_account_id = [],
     skp_peer = Some \<lparr>peer_kind = ''direct'', peer_id = u\<rparr>, skp_dm_scope = scope, skp_identity_links = []\<rparr>"

theorem session_key_isolation_witness:
  "list_all (\<lambda>scope. build_agent_peer_session_key (sample_direct scope ''u1'') \<noteq>
     build_agent_peer_session_key (sample_direct scope ''u2'')) peer_scopes"
  unfolding list_all_iff
proof
  fix scope
  assume scope: "scope \<in> set peer_scopes"
  let ?q = "\<lambda>u. \<lparr>peer_kind = ''direct'', peer_id = u\<rparr>"
  have i: "direct_peer_id (sample_direct scope u) (?q u) = to_lower (trim_space u)" for u
    by (simp add: direct_peer_id_def sample_direct_def resolve_linked_peer_id_def Let_def)
  have t: "to_lower (trim_space ''u1'') = ''u1''" "to_lower (trim_space ''u2'') = ''u2''"
    "trim_space ''direct'' = ''direct''" "CHR '':'' \<notin> set (normalize_channel ''Slack'')" by code_simp+
  have d: "direct_peer (sample_direct scope ''u1'') (?q ''u1'')" "direct_peer (sample_direct scope ''u2'') (?q ''u2'')"
    unfolding direct_peer_def i using t by (simp_all add: sample_direct_def)
  show "build_agent_peer_session_key (sample_direct scope ''u1'') \<noteq> build_agent_peer_session_key (sample_direct scope ''u2'')"
    using session_key_isolation [OF d _ _ scope] t unfolding i by (simp add: sample_direct_def)
qed

section \<open>Identity links\<close>

lemma first_link_unique:
  assumes "\<And>c ids. (c, ids) \<in> set ls \<Longrightarrow> trim_space c \<noteq> [] \<Longrightarrow> link_matches cands ids \<Longrightarrow> trim_space c = name"
  shows "first_link cands ls =
    (if \<exists>(c, ids)\<in>set ls. trim_space c \<noteq> [] \<and> link_matches cands ids then name else [])"
  using assms
proof (induction ls)
  case (Cons l ls)
  obtain c0 ids0 where l: "l = (c0, ids0)" by (cases l)
  have IH: "first_link cands ls =
      (if \<exists>(c, ids)\<in>set ls. trim_space c \<noteq> [] \<and> link_matches cands ids then name else [])"
    by (rule Cons.IH) (use Cons.prems in auto)
  show ?case
  proof (cases "trim_space c0 \<noteq> [] \<and> link_matches cands ids0")
    case True
    with Cons.prems [of c0 ids0] show ?thesis by (auto simp: l)
  next
    case False
    then have "first_link cands (l # ls) = first_link cands ls" by (auto simp: l Let_def)
    with IH False show ?thesis by (auto simp: l)
  qed
qed simp

text \<open>
  The result of resolving identity links does not depend on the order in which Go's map
  iteration visits them, as long as all entries that match the peer carry one canonical name.
\<close>

theorem resolve_linked_order_independent:
  assumes "set ls = set ls'"
    and "\<And>c ids. (c, ids) \<in> set ls \<Longrightarrow> trim_space c \<noteq> [] \<Longrightarrow>
      link_matches (link_candidates channel (trim_space peer)) ids \<Longrightarrow> trim_space c = name"
  shows "resolve_linked_peer_id ls channel peer = resolve_linked_peer_id ls' channel peer"
proof -
  have "first_link (link_candidates channel (trim_space peer)) ls =
      first_link (link_candidates channel (trim_space peer)) ls'"
    using first_link_unique [of ls, OF assms(2)] first_link_unique [of ls', OF assms(2)] assms(1) by simp
  moreover have "ls = [] \<longleftrightarrow> ls' = []" using assms(1) by auto
  ultimately show ?thesis by (simp add: resolve_linked_peer_id_def Let_def)
qed

theorem resolve_linked_order_independent_witness:
  "resolve_linked_peer_id [(''ann'', [''slack:u1'']), (''bob'', [''u2''])] ''slack'' ''U1'' =
   resolve_linked_peer_id [(''bob'', [''u2'']), (''ann'', [''slack:u1''])] ''slack'' ''U1''"
proof (rule resolve_linked_order_independent [where name = "''ann''"])
  have "\<not> link_matches (link_candidates ''slack'' (trim_space ''U1'')) [''u2'']" "trim_space ''ann'' = ''ann''"
    by code_simp+
  then show "trim_space c = ''ann''"
    if "(c, ids) \<in> set [(''ann'', [''slack:u1'']), (''bob'', [''u2''])]"
      "link_matches (link_candidates ''slack'' (trim_space ''U1'')) ids" for c ids
    using that by auto
qed auto

text \<open>Without that hypothesis the order decides: the same links give two different sessions.\<close>

theorem resolve_linked_order_dependent:
  "resolve_linked_peer_id [(''ann'', [''u1'']), (''bob'', [''slack:u1''])] ''slack'' ''u1'' \<noteq>
   resolve_linked_peer_id [(''bob'', [''slack:u1'']), (''ann'', [''u1''])] ''slack'' ''u1''"
  by code_simp

end
