(* ===== verification/Route_Resolver.thy ===== *)
theory Route_Resolver
  imports Session_Keys
begin

text \<open>
  The route resolver, \<open>pkg/routing/route.go\<close>: which configured agent handles an inbound message and
  under which session keys. The configuration it reads (bindings, agents, session scope) is a record.
  Proved: the priority cascade picks the first level that matches and, within it, the first binding
  in configuration order; the agent is always a configured one; bindings of other channels and
  accounts play no part; the session key carries the resolved agent.
\<close>

section \<open>Configuration and input\<close>

record binding_match =
  bm_channel :: string
  bm_account_id :: string
  bm_peer :: "route_peer option"
  bm_guild_id :: string
  bm_team_id :: string

record agent_binding =
  ab_agent_id :: string
  ab_match :: binding_match

record agent_config =
  ac_id :: string
  ac_default :: bool

record route_config =
  rc_bindings :: "agent_binding list"
  rc_agents :: "agent_config list"
  rc_dm_scope :: string
  rc_identity_links :: identity_links

record route_input =
  ri_channel :: string
  ri_account_id :: string
  ri_peer :: "route_peer option"
  ri_parent_peer :: "route_peer option"
  ri_guild_id :: string
  ri_team_id :: string

record resolved_route =
  rr_agent_id :: string
  rr_channel :: string
  rr_account_id :: string
  rr_session_key :: string
  rr_main_session_key :: string
  rr_matched_by :: string

section \<open>Matching\<close>

definition matches_account_id :: "string \<Rightarrow> string \<Rightarrow> bool" where
  "matches_account_id match_account actual =
    (let trimmed = trim_space match_account in
     if trimmed = [] then actual = default_account_id
     else if trimmed = ''*'' then True
     else to_lower trimmed = to_lower actual)"

definition filter_bindings :: "route_config \<Rightarrow> string \<Rightarrow> string \<Rightarrow> agent_binding list" where
  "filter_bindings cfg channel account =
    filter (\<lambda>b. let mc = to_lower (trim_space (bm_channel (ab_match b))) in
        mc \<noteq> [] \<and> mc = channel \<and> matches_account_id (bm_account_id (ab_match b)) account)
      (rc_bindings cfg)"

definition peer_matches :: "route_peer \<Rightarrow> agent_binding \<Rightarrow> bool" where
  "peer_matches peer b = (case bm_peer (ab_match b) of
     None \<Rightarrow> False
   | Some mp \<Rightarrow>
      (let kind = to_lower (trim_space (peer_kind mp)); pid = trim_space (peer_id mp) in
       kind \<noteq> [] \<and> pid \<noteq> [] \<and> kind = to_lower (peer_kind peer) \<and> pid = peer_id peer))"

definition find_peer_match :: "agent_binding list \<Rightarrow> route_peer \<Rightarrow> agent_binding option" where
  "find_peer_match bs peer = find (peer_matches peer) bs"

definition guild_matches :: "string \<Rightarrow> agent_binding \<Rightarrow> bool" where
  "guild_matches guild b = (let g = trim_space (bm_guild_id (ab_match b)) in g \<noteq> [] \<and> g = guild)"

definition find_guild_match :: "agent_binding list \<Rightarrow> string \<Rightarrow> agent_binding option" where
  "find_guild_match bs guild = find (guild_matches guild) bs"

definition team_matches :: "string \<Rightarrow> agent_binding \<Rightarrow> bool" where
  "team_matches team b = (let t = trim_space (bm_team_id (ab_match b)) in t \<noteq> [] \<and> t = team)"

definition find_team_match :: "agent_binding list \<Rightarrow> string \<Rightarrow> agent_binding option" where
  "find_team_match bs team = find (team_matches team) bs"

definition unscoped :: "agent_binding \<Rightarrow> bool" where
  "unscoped b \<longleftrightarrow> bm_peer (ab_match b) = None \<and> bm_guild_id (ab_match b) = [] \<and> bm_team_id (ab_match b) = []"

definition find_account_match :: "agent_binding list \<Rightarrow> agent_binding option" where
  "find_account_match bs = find (\<lambda>b. trim_space (bm_account_id (ab_match b)) \<noteq> ''*'' \<and> unscoped b) bs"

definition find_channel_wildcard_match :: "agent_binding list \<Rightarrow> agent_binding option" where
  "find_channel_wildcard_match bs = find (\<lambda>b. trim_space (bm_account_id (ab_match b)) = ''*'' \<and> unscoped b) bs"

section \<open>Picking the agent\<close>

definition resolve_default_agent_id :: "route_config \<Rightarrow> string" where
  "resolve_default_agent_id cfg = (case rc_agents cfg of
     [] \<Rightarrow> default_agent_id
   | a0 # _ \<Rightarrow>
      (case find (\<lambda>a. ac_default a \<and> trim_space (ac_id a) \<noteq> []) (rc_agents cfg) of
         Some a \<Rightarrow> normalize_agent_id (trim_space (ac_id a))
       | None \<Rightarrow> (if trim_space (ac_id a0) \<noteq> [] then normalize_agent_id (trim_space (ac_id a0))
                  else default_agent_id)))"

definition pick_agent_id :: "route_config \<Rightarrow> string \<Rightarrow> string" where
  "pick_agent_id cfg agent =
    (let trimmed = trim_space agent in
     if trimmed = [] then normalize_agent_id (resolve_default_agent_id cfg)
     else let normalized = normalize_agent_id trimmed in
       if rc_agents cfg = [] then normalized
       else if list_ex (\<lambda>a. normalize_agent_id (ac_id a) = normalized) (rc_agents cfg) then normalized
       else normalize_agent_id (resolve_default_agent_id cfg))"

section \<open>The cascade\<close>

definition choose_route :: "route_config \<Rightarrow> route_input \<Rightarrow> string \<Rightarrow> string \<Rightarrow> resolved_route" where
  "choose_route cfg input agent matched_by =
    (let channel = to_lower (trim_space (ri_channel input));
         account = normalize_account_id (ri_account_id input);
         scope = (if rc_dm_scope cfg = [] then dm_scope_main else rc_dm_scope cfg);
         resolved = pick_agent_id cfg agent
     in \<lparr>rr_agent_id = resolved, rr_channel = channel, rr_account_id = account,
         rr_session_key = to_lower (build_agent_peer_session_key
           \<lparr>skp_agent_id = resolved, skp_channel = channel, skp_account_id = account,
            skp_peer = ri_peer input, skp_dm_scope = scope, skp_identity_links = rc_identity_links cfg\<rparr>),
         rr_main_session_key = to_lower (build_agent_main_session_key resolved),
         rr_matched_by = matched_by\<rparr>)"

definition peer_level :: "agent_binding list \<Rightarrow> route_peer option \<Rightarrow> agent_binding option" where
  "peer_level bs peer = (case peer of
     None \<Rightarrow> None
   | Some q \<Rightarrow> (if trim_space (peer_id q) \<noteq> [] then find_peer_match bs q else None))"

definition guild_level :: "agent_binding list \<Rightarrow> string \<Rightarrow> agent_binding option" where
  "guild_level bs guild =
     (if trim_space guild \<noteq> [] then find_guild_match bs (trim_space guild) else None)"

definition team_level :: "agent_binding list \<Rightarrow> string \<Rightarrow> agent_binding option" where
  "team_level bs team =
     (if trim_space team \<noteq> [] then find_team_match bs (trim_space team) else None)"

definition resolve_route :: "route_config \<Rightarrow> route_input \<Rightarrow> resolved_route" where
  "resolve_route cfg input =
    (let channel = to_lower (trim_space (ri_channel input));
         account = normalize_account_id (ri_account_id input);
         bs = filter_bindings cfg channel account
     in case peer_level bs (ri_peer input) of
          Some m \<Rightarrow> choose_route cfg input (ab_agent_id m) ''binding.peer''
        | None \<Rightarrow> (case peer_level bs (ri_parent_peer input) of
            Some m \<Rightarrow> choose_route cfg input (ab_agent_id m) ''binding.peer.parent''
          | None \<Rightarrow> (case guild_level bs (ri_guild_id input) of
              Some m \<Rightarrow> choose_route cfg input (ab_agent_id m) ''binding.guild''
            | None \<Rightarrow> (case team_level bs (ri_team_id input) of
                Some m \<Rightarrow> choose_route cfg input (ab_agent_id m) ''binding.team''
              | None \<Rightarrow> (case find_account_match bs of
                  Some m \<Rightarrow> choose_route cfg input (ab_agent_id m) ''binding.account''
                | None \<Rightarrow> (case find_channel_wildcard_match bs of
                    Some m \<Rightarrow> choose_route cfg input (ab_agent_id m) ''binding.channel''
                  | None \<Rightarrow> choose_route cfg input (resolve_default_agent_id cfg) ''default''))))))"

section \<open>The agent is a configured one\<close>

definition configured_ids :: "route_config \<Rightarrow> string list" where
  "configured_ids cfg = map (\<lambda>a. normalize_agent_id (ac_id a)) (rc_agents cfg)"

lemma normalize_trim [simp]: "normalize_agent_id (trim_space i) = normalize_agent_id i"
  by (simp add: normalize_agent_id_def Let_def)

lemma normalize_blank: "trim_space i = [] \<Longrightarrow> normalize_agent_id i = default_agent_id"
  by (simp add: normalize_agent_id_def)

lemma resolve_default_configured:
  assumes "rc_agents cfg \<noteq> []"
  shows "resolve_default_agent_id cfg \<in> set (configured_ids cfg)"
proof (cases "find (\<lambda>a. ac_default a \<and> trim_space (ac_id a) \<noteq> []) (rc_agents cfg)")
  case None
  with assms show ?thesis
    by (cases "rc_agents cfg")
      (auto simp: resolve_default_agent_id_def configured_ids_def normalize_blank)
next
  case (Some a)
  with assms find_SomeD [OF Some] show ?thesis
    by (cases "rc_agents cfg") (auto simp: resolve_default_agent_id_def configured_ids_def)
qed

lemma pick_agent_configured:
  assumes "rc_agents cfg \<noteq> []"
    and stable: "\<And>i. i \<in> set (configured_ids cfg) \<Longrightarrow> normalize_agent_id i = i"
  shows "pick_agent_id cfg agent \<in> set (configured_ids cfg)"
proof -
  have "normalize_agent_id (resolve_default_agent_id cfg) \<in> set (configured_ids cfg)"
    using stable [OF resolve_default_configured [OF assms(1)]] resolve_default_configured [OF assms(1)]
    by simp
  moreover have "normalize_agent_id agent \<in> set (configured_ids cfg)"
    if "list_ex (\<lambda>a. normalize_agent_id (ac_id a) = normalize_agent_id agent) (rc_agents cfg)"
    using that by (force simp: configured_ids_def list_ex_iff)
  ultimately show ?thesis using assms(1) by (simp add: pick_agent_id_def Let_def)
qed

lemma choose_route_simps [simp]:
  "rr_agent_id (choose_route cfg i a m) = pick_agent_id cfg a"
  "rr_matched_by (choose_route cfg i a m) = m"
  "rr_channel (choose_route cfg i a m) = to_lower (trim_space (ri_channel i))"
  "rr_account_id (choose_route cfg i a m) = normalize_account_id (ri_account_id i)"
  by (simp_all add: choose_route_def Let_def)

lemma resolve_route_choose: "\<exists>a m. resolve_route cfg i = choose_route cfg i a m"
  unfolding resolve_route_def Let_def by (auto split: option.splits)

text \<open>
  Whatever the message and the bindings, if agents are configured (with identifiers that
  normalize stably), \<open>ResolveRoute\<close> answers with one of them: a binding to an unknown agent falls
  back to the default agent instead of routing nowhere.
\<close>

theorem resolve_route_configured:
  assumes "rc_agents cfg \<noteq> []"
    and "\<And>i. i \<in> set (configured_ids cfg) \<Longrightarrow> normalize_agent_id i = i"
  shows "rr_agent_id (resolve_route cfg input) \<in> set (configured_ids cfg)"
  using resolve_route_choose [of cfg input] pick_agent_configured [OF assms] by auto

definition sample_binding :: "string \<Rightarrow> string \<Rightarrow> route_peer option \<Rightarrow> agent_binding" where
  "sample_binding agent account peer = \<lparr>ab_agent_id = agent, ab_match =
     \<lparr>bm_channel = ''Telegram'', bm_account_id = account, bm_peer = peer, bm_guild_id = [], bm_team_id = []\<rparr>\<rparr>"

definition sample_config :: route_config where
  "sample_config = \<lparr>rc_bindings =
      [sample_binding ''ghost'' ''*'' None,
       sample_binding ''Ops'' [] (Some \<lparr>peer_kind = ''group'', peer_id = ''77''\<rparr>)],
     rc_agents = [\<lparr>ac_id = ''main'', ac_default = True\<rparr>, \<lparr>ac_id = ''OPS'', ac_default = False\<rparr>],
     rc_dm_scope = [], rc_identity_links = []\<rparr>"

definition sample_input :: "string \<Rightarrow> route_input" where
  "sample_input p = \<lparr>ri_channel = ''telegram'', ri_account_id = [],
     ri_peer = Some \<lparr>peer_kind = ''group'', peer_id = p\<rparr>, ri_parent_peer = None,
     ri_guild_id = [], ri_team_id = []\<rparr>"

lemma sample_config_ids: "configured_ids sample_config = [''main'', ''ops'']"
  by code_simp

lemma sample_ids_stable: "normalize_agent_id ''main'' = ''main''" "normalize_agent_id ''ops'' = ''ops''"
  by code_simp+

theorem resolve_route_configured_witness:
  "rr_agent_id (resolve_route sample_config (sample_input ''5'')) \<in> {''main'', ''ops''}"
proof -
  have "rc_agents sample_config \<noteq> []" by (simp add: sample_config_def)
  moreover have "normalize_agent_id i = i" if "i \<in> set (configured_ids sample_config)" for i
    using that sample_ids_stable by (auto simp: sample_config_ids)
  ultimately show ?thesis
    using resolve_route_configured [of sample_config "sample_input ''5''"] by (simp add: sample_config_ids)
qed

section \<open>The cascade against a declarative specification\<close>

text \<open>
  The specification: the levels in priority order, each with the predicate its bindings satisfy
  (\<open>None\<close> where the message carries nothing to match the level on). The winner is the first level
  with a matching binding in scope, and in it the first such binding in configuration order.
\<close>

definition in_scope :: "route_input \<Rightarrow> agent_binding \<Rightarrow> bool" where
  "in_scope input b \<longleftrightarrow>
     to_lower (trim_space (bm_channel (ab_match b))) \<noteq> [] \<and>
     to_lower (trim_space (bm_channel (ab_match b))) = to_lower (trim_space (ri_channel input)) \<and>
     matches_account_id (bm_account_id (ab_match b)) (normalize_account_id (ri_account_id input))"

definition has_id :: "route_peer option \<Rightarrow> bool" where
  "has_id peer = (case peer of None \<Rightarrow> False | Some q \<Rightarrow> trim_space (peer_id q) \<noteq> [])"

definition route_levels :: "route_input \<Rightarrow> (string \<times> (agent_binding \<Rightarrow> bool)) list" where
  "route_levels i =
    [(''binding.peer'', \<lambda>b. has_id (ri_peer i) \<and> peer_matches (the (ri_peer i)) b),
     (''binding.peer.parent'', \<lambda>b. has_id (ri_parent_peer i) \<and> peer_matches (the (ri_parent_peer i)) b),
     (''binding.guild'', \<lambda>b. trim_space (ri_guild_id i) \<noteq> [] \<and> guild_matches (trim_space (ri_guild_id i)) b),
     (''binding.team'', \<lambda>b. trim_space (ri_team_id i) \<noteq> [] \<and> team_matches (trim_space (ri_team_id i)) b),
     (''binding.account'', \<lambda>b. trim_space (bm_account_id (ab_match b)) \<noteq> ''*'' \<and> unscoped b),
     (''binding.channel'', \<lambda>b. trim_space (bm_account_id (ab_match b)) = ''*'' \<and> unscoped b)]"

definition route_spec :: "route_config \<Rightarrow> route_input \<Rightarrow> resolved_route" where
  "route_spec cfg i =
    (case find (\<lambda>(name, P). \<exists>b\<in>set (rc_bindings cfg). in_scope i b \<and> P b) (route_levels i) of
       Some (name, P) \<Rightarrow>
         choose_route cfg i (ab_agent_id (hd (filter (\<lambda>b. in_scope i b \<and> P b) (rc_bindings cfg)))) name
     | None \<Rightarrow> choose_route cfg i (resolve_default_agent_id cfg) ''default'')"

lemma filter_bindings_in_scope:
  "filter_bindings cfg (to_lower (trim_space (ri_channel i))) (normalize_account_id (ri_account_id i)) =
   filter (in_scope i) (rc_bindings cfg)"
  unfolding filter_bindings_def Let_def by (rule filter_cong) (simp_all add: in_scope_def)

lemma find_False [simp]: "find (\<lambda>x. False) xs = None"
  by (induction xs) auto

lemma find_filter:
  "find P (filter Q xs) =
    (if \<exists>x\<in>set xs. Q x \<and> P x then Some (hd (filter (\<lambda>x. Q x \<and> P x) xs)) else None)"
  by (induction xs) auto

lemma level_finds:
  "peer_level bs peer = find (\<lambda>b. has_id peer \<and> peer_matches (the peer) b) bs"
  "guild_level bs guild = find (\<lambda>b. trim_space guild \<noteq> [] \<and> guild_matches (trim_space guild) b) bs"
  "team_level bs team = find (\<lambda>b. trim_space team \<noteq> [] \<and> team_matches (trim_space team) b) bs"
  by (auto simp: peer_level_def has_id_def find_peer_match_def guild_level_def find_guild_match_def
      team_level_def find_team_match_def find_eq_None_iff split: option.splits)

text \<open>
  C16: \<open>ResolveRoute\<close> implements the declarative priority cascade peer, parent peer, guild, team,
  account, channel wildcard, default: the first level with a matching binding in scope decides, and
  of that level the first binding in configuration order.
\<close>

theorem resolve_route_cascade: "resolve_route cfg input = route_spec cfg input"
  unfolding resolve_route_def route_spec_def Let_def filter_bindings_in_scope level_finds
    find_account_match_def find_channel_wildcard_match_def find_filter route_levels_def
  by (simp add: if_distrib [of "\<lambda>x. case_option _ _ x"] cong: if_cong)

text \<open>Everything below the bindings only looks at the other fields of the configuration.\<close>

lemma rc_bindings_upd:
  "rc_agents (cfg\<lparr>rc_bindings := bs\<rparr>) = rc_agents cfg"
  "rc_dm_scope (cfg\<lparr>rc_bindings := bs\<rparr>) = rc_dm_scope cfg"
  "rc_identity_links (cfg\<lparr>rc_bindings := bs\<rparr>) = rc_identity_links cfg"
  by simp_all

lemma default_agent_bindings [simp]:
  "resolve_default_agent_id (cfg\<lparr>rc_bindings := bs\<rparr>) = resolve_default_agent_id cfg"
  unfolding resolve_default_agent_id_def rc_bindings_upd ..

lemma choose_route_bindings [simp]:
  "choose_route (cfg\<lparr>rc_bindings := bs\<rparr>) i a m = choose_route cfg i a m"
  unfolding choose_route_def pick_agent_id_def default_agent_bindings rc_bindings_upd ..

text \<open>
  Bindings of other channels and accounts have no influence: resolving against only the
  bindings in scope of the message gives the same route.
\<close>

theorem resolve_route_scope_only:
  "resolve_route (cfg\<lparr>rc_bindings := filter (in_scope input) (rc_bindings cfg)\<rparr>) input = resolve_route cfg input"
  by (simp add: resolve_route_def Let_def filter_bindings_in_scope cong: option.case_cong)

text \<open>The session key of a route carries the agent of the route.\<close>

lemma key_form_to_lower:
  assumes "key_form key agent rest" "id_shape agent"
  shows "key_form (to_lower key) agent (to_lower rest)"
proof -
  from assms(1) obtain m p where k: "key = ''agent:'' @ agent @ '':'' @ rest" "rest \<noteq> []"
    and m: "key = m @ CHR '':'' # p" "prefix ''agent'' m" "p \<noteq> []" "trim_space p = p"
    by (auto simp: key_form_def)
  have l: "to_lower ''agent:'' = ''agent:''" "to_lower '':'' = '':''" "to_lower ''agent'' = ''agent''"
      "lower_char CHR '':'' = CHR '':''"
    by code_simp+
  have "to_lower key = ''agent:'' @ agent @ '':'' @ to_lower rest"
    unfolding k(1) to_lower_simps(3) l using assms(2) by simp
  moreover have "to_lower key = to_lower m @ CHR '':'' # to_lower p" unfolding m(1) by (simp add: l(4))
  moreover have "prefix ''agent'' (to_lower m)"
    using m(2) l(3) by (metis map_mono_prefix to_lower_def)
  moreover have "trim_space (to_lower p) = to_lower p" by (simp add: trim_space_to_lower m(4))
  ultimately show ?thesis
    using k(2) m(3) unfolding key_form_def
    by (intro conjI exI [of _ "to_lower m"] exI [of _ "to_lower p"]) auto
qed

text \<open>
  The session key and the main session key of a resolved route are keys of the resolved agent:
  parsing either gives the agent the message was routed to.
\<close>

theorem resolve_route_keys_of_agent:
  assumes "normalize_agent_id (rr_agent_id (resolve_route cfg input)) = rr_agent_id (resolve_route cfg input)"
  shows "map_option psk_agent_id (parse_agent_session_key (rr_session_key (resolve_route cfg input))) =
      Some (rr_agent_id (resolve_route cfg input)) \<and>
    map_option psk_agent_id (parse_agent_session_key (rr_main_session_key (resolve_route cfg input))) =
      Some (rr_agent_id (resolve_route cfg input))"
proof -
  obtain a m where c: "resolve_route cfg input = choose_route cfg input a m"
    using resolve_route_choose by blast
  define r where "r = pick_agent_id cfg a"
  have n: "normalize_agent_id r = r" using assms by (simp add: c r_def)
  have "id_shape r" using id_shape_agent [of r] n by simp
  define p where "p = \<lparr>skp_agent_id = r, skp_channel = rr_channel (resolve_route cfg input),
    skp_account_id = rr_account_id (resolve_route cfg input), skp_peer = ri_peer input,
    skp_dm_scope = (if rc_dm_scope cfg = [] then dm_scope_main else rc_dm_scope cfg),
    skp_identity_links = rc_identity_links cfg\<rparr>"
  have keys: "rr_session_key (resolve_route cfg input) = to_lower (build_agent_peer_session_key p)"
      "rr_main_session_key (resolve_route cfg input) = to_lower (build_agent_main_session_key r)"
    by (simp_all add: c choose_route_def Let_def p_def r_def)
  have "skp_agent_id p = r" by (simp add: p_def)
  then obtain rest where "key_form (build_agent_peer_session_key p) r rest"
    using session_key_form [OF build_session_key, of p] n by auto
  moreover have "key_form (build_agent_main_session_key r) r default_main_key"
    using main_key_form [of r] by (simp add: n)
  ultimately show ?thesis
    using key_form_parse [OF key_form_to_lower \<open>id_shape r\<close>] \<open>id_shape r\<close>
    by (simp add: keys) (simp add: c r_def)
qed

theorem resolve_route_keys_of_agent_witness:
  "map_option psk_agent_id (parse_agent_session_key
     (rr_session_key (resolve_route sample_config (sample_input ''77'')))) = Some ''ops''"
proof -
  have a: "rr_agent_id (resolve_route sample_config (sample_input ''77'')) = ''ops''" by code_simp
  then show ?thesis
    using resolve_route_keys_of_agent [of sample_config "sample_input ''77''"] sample_ids_stable by simp
qed

end
