(* ===== verification/Messages.thy ===== *)
theory Messages
  imports Complex_Main Go_Strings
begin

text \<open>
  The data every component that talks to a language model shares,
  \<open>pkg/providers/protocoltypes/types.go\<close>: messages, tool calls, responses and the untyped values
  (\<open>any\<close>) that JSON arguments hold. Numbers of a decoded JSON document are rationals.
\<close>

datatype go_any =
    Any_Nil
  | Any_Bool bool
  | Any_Num rat
  | Any_Int int
  | Any_Str string
  | Any_List "go_any list"
  | Any_Map "(string \<times> go_any) list"

type_synonym go_args = "(string \<times> go_any) list"

record function_call =
  fc_name :: string
  fc_arguments :: string
  fc_thought_signature :: string

record google_extra =
  ge_thought_signature :: string

record extra_content =
  ec_google :: "google_extra option"

text \<open>\<open>Arguments\<close> is \<open>None\<close> where Go has a nil map.\<close>

record tool_call =
  tc_id :: string
  tc_type :: string
  tc_function :: "function_call option"
  tc_name :: string
  tc_arguments :: "go_args option"
  tc_thought_signature :: string
  tc_extra_content :: "extra_content option"

record content_block =
  cb_type :: string
  cb_text :: string
  cb_cache_control :: "string option"

record message =
  msg_role :: string
  msg_content :: string
  msg_media :: "string list"
  msg_reasoning :: string
  msg_system_parts :: "content_block list"
  msg_tool_calls :: "tool_call list"
  msg_tool_call_id :: string

record llm_response =
  lr_content :: string
  lr_reasoning_content :: string
  lr_tool_calls :: "tool_call list"
  lr_finish_reason :: string
  lr_reasoning :: string

text \<open>A composite literal \<open>Message{Role: r, Content: c}\<close>, all other fields zero.\<close>

definition mk_message :: "string \<Rightarrow> string \<Rightarrow> message" where
  "mk_message r c = \<lparr>msg_role = r, msg_content = c, msg_media = [], msg_reasoning = [],
     msg_system_parts = [], msg_tool_calls = [], msg_tool_call_id = []\<rparr>"

lemma mk_message_simps [simp]:
  "msg_role (mk_message r c) = r" "msg_content (mk_message r c) = c"
  "msg_tool_calls (mk_message r c) = []" "msg_tool_call_id (mk_message r c) = []"
  "msg_media (mk_message r c) = []"
  by (simp_all add: mk_message_def)

section \<open>The kinds of messages\<close>

definition is_system :: "message \<Rightarrow> bool" where "is_system m \<longleftrightarrow> msg_role m = ''system''"
definition is_tool :: "message \<Rightarrow> bool" where "is_tool m \<longleftrightarrow> msg_role m = ''tool''"
definition is_user :: "message \<Rightarrow> bool" where "is_user m \<longleftrightarrow> msg_role m = ''user''"
definition is_assistant :: "message \<Rightarrow> bool" where "is_assistant m \<longleftrightarrow> msg_role m = ''assistant''"

definition has_calls :: "message \<Rightarrow> bool" where
  "has_calls m \<longleftrightarrow> is_assistant m \<and> msg_tool_calls m \<noteq> []"

text \<open>A plain message carries no part of a tool exchange and is not a system message.\<close>

definition plain :: "message \<Rightarrow> bool" where
  "plain m \<longleftrightarrow> \<not> is_system m \<and> \<not> is_tool m \<and> \<not> has_calls m"

text \<open>Every message is of exactly one kind; case analysis on it settles questions of disjointness.\<close>

datatype kind = K_System | K_Tool | K_Calls | K_User | K_Other

definition kind :: "message \<Rightarrow> kind" where
  "kind m = (if is_system m then K_System else if is_tool m then K_Tool
    else if has_calls m then K_Calls else if is_user m then K_User else K_Other)"

lemma kinds:
  "is_system m \<longleftrightarrow> kind m = K_System" "is_tool m \<longleftrightarrow> kind m = K_Tool"
  "has_calls m \<longleftrightarrow> kind m = K_Calls" "is_user m \<longleftrightarrow> kind m = K_User"
  "plain m \<longleftrightarrow> kind m = K_User \<or> kind m = K_Other"
  unfolding kind_def is_tool_def is_system_def has_calls_def is_assistant_def is_user_def plain_def
  by simp_all

lemma mk_message_kinds [simp]:
  "is_user (mk_message ''user'' c)" "is_tool (mk_message ''tool'' c)" "is_system (mk_message ''system'' c)"
  "is_assistant (mk_message ''assistant'' c)" "\<not> has_calls (mk_message r c)"
  by (simp_all add: is_user_def is_tool_def is_system_def is_assistant_def has_calls_def)

end
