(* ===== verification/Session_Store.thy ===== *)
theory Session_Store
  imports Messages
begin

text \<open>
  The interface between the agent loop and session persistence, \<open>pkg/session/session_store.go\<close>: the
  operations as a record (the Go interface) and what the agent relies on as a locale. Both backends,
  the in-memory \<open>SessionManager\<close> and the JSONL store, interpret it in their own theories. The
  operations are fire-and-forget, as in the code: a failed write leaves the state as it was.
\<close>

record 's session_ops =
  so_add :: "'s \<Rightarrow> string \<Rightarrow> message \<Rightarrow> 's"
  so_history :: "'s \<Rightarrow> string \<Rightarrow> message list"
  so_summary :: "'s \<Rightarrow> string \<Rightarrow> string"
  so_set_summary :: "'s \<Rightarrow> string \<Rightarrow> string \<Rightarrow> 's"
  so_set_history :: "'s \<Rightarrow> string \<Rightarrow> message list \<Rightarrow> 's"
  so_truncate :: "'s \<Rightarrow> string \<Rightarrow> int \<Rightarrow> 's"
  so_save :: "'s \<Rightarrow> string \<Rightarrow> 's"

text \<open>
  The parameters besides the operations: \<open>inv\<close> is the backend's well-formedness, \<open>known s k\<close> says that
  session \<open>k\<close> exists (setters of the manager ignore unknown sessions), \<open>slot k\<close> is what the backend stores
  \<open>k\<close> under (two keys with the same slot share their data), \<open>view m\<close> is the message as it reads back
  (the JSON of a message omits some fields) and \<open>good m\<close> says that the backend can store \<open>m\<close>.
\<close>

locale session_store =
  fixes ops :: "'s session_ops"
    and inv :: "'s \<Rightarrow> bool"
    and known :: "'s \<Rightarrow> string \<Rightarrow> bool"
    and slot :: "string \<Rightarrow> string"
    and view :: "message \<Rightarrow> message"
    and good :: "message \<Rightarrow> bool"
  assumes inv_add: "inv s \<Longrightarrow> good m \<Longrightarrow> inv (so_add ops s k m)"
    and inv_set_summary: "inv s \<Longrightarrow> inv (so_set_summary ops s k t)"
    and inv_set_history: "inv s \<Longrightarrow> list_all good h \<Longrightarrow> inv (so_set_history ops s k h)"
    and inv_truncate: "inv s \<Longrightarrow> inv (so_truncate ops s k n)"
    and inv_save: "inv s \<Longrightarrow> inv (so_save ops s k)"
    and known_add: "known (so_add ops s k m) k"
    and known_set_history: "known s k' \<Longrightarrow> known (so_set_history ops s k h) k'"
    and known_set_summary: "known s k' \<Longrightarrow> known (so_set_summary ops s k t) k'"
    and known_truncate: "known s k' \<Longrightarrow> known (so_truncate ops s k n) k'"
    and history_add: "inv s \<Longrightarrow> good m \<Longrightarrow> so_history ops (so_add ops s k m) k = so_history ops s k @ [view m]"
    and history_set: "inv s \<Longrightarrow> known s k \<Longrightarrow> list_all good h \<Longrightarrow>
      so_history ops (so_set_history ops s k h) k = map view h"
    and history_truncate: "inv s \<Longrightarrow> known s k \<Longrightarrow>
      so_history ops (so_truncate ops s k n) k = last_n (nat n) (so_history ops s k)"
    and history_set_summary: "inv s \<Longrightarrow> so_history ops (so_set_summary ops s k t) k' = so_history ops s k'"
    and history_save: "inv s \<Longrightarrow> so_history ops (so_save ops s k) k' = so_history ops s k'"
    and summary_set: "inv s \<Longrightarrow> known s k \<Longrightarrow> so_summary ops (so_set_summary ops s k t) k = t"
    and summary_add: "inv s \<Longrightarrow> good m \<Longrightarrow> so_summary ops (so_add ops s k m) k' = so_summary ops s k'"
    and summary_set_history: "inv s \<Longrightarrow> so_summary ops (so_set_history ops s k h) k' = so_summary ops s k'"
    and summary_truncate: "inv s \<Longrightarrow> so_summary ops (so_truncate ops s k n) k' = so_summary ops s k'"
    and summary_save: "inv s \<Longrightarrow> so_summary ops (so_save ops s k) k' = so_summary ops s k'"
    and frame: "slot k' \<noteq> slot k \<Longrightarrow>
      so_history ops (so_add ops s k m) k' = so_history ops s k' \<and>
      so_history ops (so_set_history ops s k h) k' = so_history ops s k' \<and>
      so_history ops (so_truncate ops s k n) k' = so_history ops s k' \<and>
      so_summary ops (so_set_summary ops s k t) k' = so_summary ops s k'"
    and history_stored: "inv s \<Longrightarrow> m \<in> set (so_history ops s k) \<Longrightarrow> good m \<and> view m = m"
begin

lemma map_view_history: "inv s \<Longrightarrow> set h \<subseteq> set (so_history ops s k) \<Longrightarrow> map view h = h \<and> list_all good h"
  using history_stored by (auto simp: list_all_iff intro!: map_idI)

text \<open>Saving messages one after the other appends them, read back.\<close>

lemma foldl_add:
  assumes "inv s" "list_all good ms"
  shows "inv (foldl (\<lambda>s m. so_add ops s k m) s ms) \<and>
    so_history ops (foldl (\<lambda>s m. so_add ops s k m) s ms) k = so_history ops s k @ map view ms"
  using assms by (induction ms arbitrary: s) (auto simp: inv_add history_add)

end

end
