(* ===== verification/Session_Manager.thy ===== *)
theory Session_Manager
  imports Session_Store
begin

text \<open>
  The in-memory session backend, \<open>pkg/session/manager.go\<close>: a map of sessions, saved one JSON file per
  session. The disk is a map from file names to the saved snapshot; \<open>now\<close> is \<open>time.Now()\<close>. The
  operations the agent uses interpret the interface \<open>session_store\<close>.
\<close>

record session =
  s_key :: string
  s_messages :: "message list"
  s_summary :: string
  s_created :: int
  s_updated :: int

record session_manager =
  sm_sessions :: "string \<rightharpoonup> session"
  sm_storage :: string
  sm_disk :: "string \<rightharpoonup> session"

definition new_session :: "int \<Rightarrow> string \<Rightarrow> session" where
  "new_session now key = \<lparr>s_key = key, s_messages = [], s_summary = [], s_created = now, s_updated = now\<rparr>"

definition sm_get_or_create :: "int \<Rightarrow> session_manager \<Rightarrow> string \<Rightarrow> session_manager \<times> session" where
  "sm_get_or_create now sm key = (case sm_sessions sm key of
     Some s \<Rightarrow> (sm, s)
   | None \<Rightarrow> (let s = new_session now key in (sm\<lparr>sm_sessions := (sm_sessions sm)(key \<mapsto> s)\<rparr>, s)))"

definition sm_add_full_message :: "int \<Rightarrow> session_manager \<Rightarrow> string \<Rightarrow> message \<Rightarrow> session_manager" where
  "sm_add_full_message now sm key m =
    (let s = (case sm_sessions sm key of Some s \<Rightarrow> s | None \<Rightarrow> (new_session now key)\<lparr>s_updated := 0\<rparr>)
     in sm\<lparr>sm_sessions := (sm_sessions sm)(key \<mapsto> s\<lparr>s_messages := s_messages s @ [m], s_updated := now\<rparr>)\<rparr>)"

definition sm_add_message :: "int \<Rightarrow> session_manager \<Rightarrow> string \<Rightarrow> string \<Rightarrow> string \<Rightarrow> session_manager" where
  "sm_add_message now sm key role content = sm_add_full_message now sm key (mk_message role content)"

definition sm_get_history :: "session_manager \<Rightarrow> string \<Rightarrow> message list" where
  "sm_get_history sm key = (case sm_sessions sm key of None \<Rightarrow> [] | Some s \<Rightarrow> s_messages s)"

definition sm_get_summary :: "session_manager \<Rightarrow> string \<Rightarrow> string" where
  "sm_get_summary sm key = (case sm_sessions sm key of None \<Rightarrow> [] | Some s \<Rightarrow> s_summary s)"

definition sm_set_summary :: "int \<Rightarrow> session_manager \<Rightarrow> string \<Rightarrow> string \<Rightarrow> session_manager" where
  "sm_set_summary now sm key t = (case sm_sessions sm key of
     None \<Rightarrow> sm
   | Some s \<Rightarrow> sm\<lparr>sm_sessions := (sm_sessions sm)(key \<mapsto> s\<lparr>s_summary := t, s_updated := now\<rparr>)\<rparr>)"

definition sm_truncate_history :: "int \<Rightarrow> session_manager \<Rightarrow> string \<Rightarrow> int \<Rightarrow> session_manager" where
  "sm_truncate_history now sm key keep_last = (case sm_sessions sm key of
     None \<Rightarrow> sm
   | Some s \<Rightarrow>
      (if keep_last \<le> 0 then
         sm\<lparr>sm_sessions := (sm_sessions sm)(key \<mapsto> s\<lparr>s_messages := [], s_updated := now\<rparr>)\<rparr>
       else if int (length (s_messages s)) \<le> keep_last then sm
       else sm\<lparr>sm_sessions := (sm_sessions sm)(key \<mapsto>
         s\<lparr>s_messages := drop (nat (int (length (s_messages s)) - keep_last)) (s_messages s),
           s_updated := now\<rparr>)\<rparr>))"

definition sm_set_history :: "int \<Rightarrow> session_manager \<Rightarrow> string \<Rightarrow> message list \<Rightarrow> session_manager" where
  "sm_set_history now sm key history = (case sm_sessions sm key of
     None \<Rightarrow> sm
   | Some s \<Rightarrow> sm\<lparr>sm_sessions := (sm_sessions sm)(key \<mapsto> s\<lparr>s_messages := history, s_updated := now\<rparr>)\<rparr>)"

section \<open>Saving and loading\<close>

definition sanitize_filename :: "string \<Rightarrow> string" where
  "sanitize_filename key =
    replace_byte (CHR 0x5C) (CHR ''_'') (replace_byte (CHR ''/'') (CHR ''_'') (replace_byte (CHR '':'') (CHR ''_'') key))"

text \<open>\<open>filename == "." || !filepath.IsLocal(filename)\<close> on Unix for a name without slashes.\<close>

definition invalid_filename :: "string \<Rightarrow> bool" where
  "invalid_filename f \<longleftrightarrow> f = ''.'' \<or> f = [] \<or> f = ''..''"

text \<open>\<open>Save\<close> with its error; \<open>strip\<close> is what the JSON of a message keeps.\<close>

definition sm_save ::
  "(message \<Rightarrow> message) \<Rightarrow> session_manager \<Rightarrow> string \<Rightarrow> string option \<times> session_manager" where
  "sm_save strip sm key =
    (if sm_storage sm = [] then (None, sm)
     else let filename = sanitize_filename key in
       if invalid_filename filename then (Some ''invalid argument'', sm)
       else (case sm_sessions sm key of
           None \<Rightarrow> (None, sm)
         | Some s \<Rightarrow> (None, sm\<lparr>sm_disk := (sm_disk sm)(filename @ ''.json'' \<mapsto>
             s\<lparr>s_messages := map strip (s_messages s)\<rparr>)\<rparr>)))"

text \<open>\<open>loadSessions\<close>: the directory is read in the order of \<open>names\<close>; later files win.\<close>

definition sm_load_sessions :: "session_manager \<Rightarrow> string list \<Rightarrow> session_manager" where
  "sm_load_sessions sm names =
    foldl (\<lambda>sm f. if \<not> suffix ''.json'' f then sm
        else (case sm_disk sm f of None \<Rightarrow> sm
          | Some s \<Rightarrow> sm\<lparr>sm_sessions := (sm_sessions sm)(s_key s \<mapsto> s)\<rparr>)) sm names"

section \<open>The interface\<close>

definition manager_ops :: "(message \<Rightarrow> message) \<Rightarrow> int \<Rightarrow> session_manager session_ops" where
  "manager_ops strip now = \<lparr>so_add = sm_add_full_message now, so_history = sm_get_history,
     so_summary = sm_get_summary, so_set_summary = sm_set_summary now,
     so_set_history = sm_set_history now, so_truncate = sm_truncate_history now,
     so_save = (\<lambda>sm k. snd (sm_save strip sm k))\<rparr>"

lemma manager_sel [simp]:
  "so_history (manager_ops strip now) = sm_get_history"
  "so_summary (manager_ops strip now) = sm_get_summary"
  by (simp_all add: manager_ops_def)

definition manager_known :: "session_manager \<Rightarrow> string \<Rightarrow> bool" where
  "manager_known sm k \<longleftrightarrow> k \<in> dom (sm_sessions sm)"

lemmas sm_op_defs = sm_add_full_message_def sm_get_history_def sm_get_summary_def sm_set_summary_def
  sm_truncate_history_def sm_set_history_def sm_save_def manager_known_def Let_def

lemma drop_last_n: "int (length xs) > n \<Longrightarrow> n > 0 \<Longrightarrow> drop (nat (int (length xs) - n)) xs = last_n (nat n) xs"
  by (simp add: last_n_def nat_diff_distrib)

lemma sm_history_truncate:
  "manager_known sm k \<Longrightarrow>
    sm_get_history (sm_truncate_history now sm k n) k = last_n (nat n) (sm_get_history sm k)"
  by (auto simp: sm_op_defs drop_last_n)

lemma sm_history_save: "sm_get_history (snd (sm_save strip sm k)) k' = sm_get_history sm k'"
  by (simp add: sm_op_defs split: option.split)

lemma sm_summary_save: "sm_get_summary (snd (sm_save strip sm k)) k' = sm_get_summary sm k'"
  by (simp add: sm_op_defs split: option.split)

interpretation manager: session_store "manager_ops strip now" "\<lambda>_. True" manager_known
    "\<lambda>k. k" "\<lambda>m. m" "\<lambda>_. True" for strip now
  by unfold_locales
    (simp_all add: manager_ops_def sm_history_truncate sm_history_save sm_summary_save,
     auto simp: sm_op_defs new_session_def split: option.splits if_splits)

end
