(* ===== verification/Jsonl_Store.thy ===== *)
theory Jsonl_Store
  imports Session_Store
begin

text \<open>
  The append-only session store, \<open>pkg/memory/jsonl.go\<close>, behind the adapter
  \<open>pkg/session/jsonl_backend.go\<close>. Every operation is modelled as the sequence of file-system writes it
  issues, so that a crash between two writes, or in the middle of an append, is a state of the model.
  \<open>WriteFileAtomic\<close> (temp file, fsync, rename) replaces a file in one step. The JSON encoding of a
  message is a parameter \<open>enc\<close>, \<open>dec\<close>; what the code relies on is \<open>codec_ok\<close>.
\<close>

section \<open>Files\<close>

definition nl :: char where "nl = CHR 0x0A"
definition cr :: char where "cr = CHR 0x0D"

record session_meta =
  me_key :: string
  me_summary :: string
  me_skip :: int
  me_count :: int
  me_created :: int
  me_updated :: int

record jsonl_fs =
  fs_lines :: "string \<rightharpoonup> string"
  fs_metas :: "string \<rightharpoonup> session_meta"

datatype fs_write =
    Append_Lines string string
  | Write_Lines string string
  | Write_Meta string session_meta

definition file_content :: "jsonl_fs \<Rightarrow> string \<Rightarrow> string" where
  "file_content fs p = (case fs_lines fs p of None \<Rightarrow> [] | Some c \<Rightarrow> c)"

fun apply_write :: "jsonl_fs \<Rightarrow> fs_write \<Rightarrow> jsonl_fs" where
  "apply_write fs (Append_Lines p d) = fs\<lparr>fs_lines := (fs_lines fs)(p \<mapsto> file_content fs p @ d)\<rparr>"
| "apply_write fs (Write_Lines p d) = fs\<lparr>fs_lines := (fs_lines fs)(p \<mapsto> d)\<rparr>"
| "apply_write fs (Write_Meta p m) = fs\<lparr>fs_metas := (fs_metas fs)(p \<mapsto> m)\<rparr>"

definition run_writes :: "jsonl_fs \<Rightarrow> fs_write list \<Rightarrow> jsonl_fs" where
  "run_writes fs ws = foldl apply_write fs ws"

definition sanitize_key :: "string \<Rightarrow> string" where
  "sanitize_key key =
    replace_byte (CHR 0x5C) (CHR ''_'') (replace_byte (CHR ''/'') (CHR ''_'') (replace_byte (CHR '':'') (CHR ''_'') key))"

definition jsonl_path :: "string \<Rightarrow> string" where "jsonl_path key = sanitize_key key @ ''.jsonl''"
definition meta_path :: "string \<Rightarrow> string" where "meta_path key = sanitize_key key @ ''.meta.json''"

definition read_meta :: "jsonl_fs \<Rightarrow> string \<Rightarrow> session_meta" where
  "read_meta fs key = (case fs_metas fs (meta_path key) of
     None \<Rightarrow> \<lparr>me_key = key, me_summary = [], me_skip = 0, me_count = 0, me_created = 0, me_updated = 0\<rparr>
   | Some m \<Rightarrow> m)"

section \<open>Scanning lines\<close>

definition max_line_size :: int where "max_line_size = 10 * 1024 * 1024"

text \<open>\<open>bufio.ScanLines\<close>: the text between newlines, without a trailing carriage return.\<close>

function split_lines :: "string \<Rightarrow> string list" where
  "split_lines [] = []"
| "split_lines (c # s) =
    takeWhile (\<lambda>x. x \<noteq> nl) (c # s) # split_lines (tl (dropWhile (\<lambda>x. x \<noteq> nl) (c # s)))"
  by pat_completeness auto
termination
proof (relation "measure length")
  fix c :: char and s
  have "length (dropWhile (\<lambda>x. x \<noteq> nl) (c # s)) \<le> length (c # s)" by (rule length_dropWhile_le)
  then show "(tl (dropWhile (\<lambda>x. x \<noteq> nl) (c # s)), c # s) \<in> measure length" by simp
qed simp

definition drop_cr :: "string \<Rightarrow> string" where
  "drop_cr l = (if l \<noteq> [] \<and> last l = cr then butlast l else l)"

text \<open>The non-empty lines of a file; \<open>None\<close> when the scanner stops at a line too long for its buffer.\<close>

definition scan_file :: "string \<Rightarrow> string list option" where
  "scan_file s = (let ls = split_lines s in
     if list_ex (\<lambda>l. max_line_size \<le> int (length l)) ls then None
     else Some (filter (\<lambda>l. l \<noteq> []) (map drop_cr ls)))"

definition read_messages :: "(string \<Rightarrow> message option) \<Rightarrow> string \<Rightarrow> int \<Rightarrow> message list option" where
  "read_messages dec s skip = map_option (\<lambda>ls. List.map_filter dec (drop (nat skip) ls)) (scan_file s)"

definition count_lines :: "string \<Rightarrow> int option" where
  "count_lines s = map_option (\<lambda>ls. int (length ls)) (scan_file s)"

section \<open>The operations, as the writes they issue\<close>

definition file_of :: "(message \<Rightarrow> string) \<Rightarrow> message list \<Rightarrow> string" where
  "file_of enc ms = concat (map (\<lambda>m. enc m @ [nl]) ms)"

definition add_msg_writes :: "(message \<Rightarrow> string) \<Rightarrow> int \<Rightarrow> jsonl_fs \<Rightarrow> string \<Rightarrow> message \<Rightarrow> fs_write list" where
  "add_msg_writes enc now fs key m =
    (let meta = read_meta fs key;
         created = (if me_count meta = 0 \<and> me_created meta = 0 then now else me_created meta)
     in [Append_Lines (jsonl_path key) (enc m @ [nl]),
         Write_Meta (meta_path key)
           (meta\<lparr>me_created := created, me_count := me_count meta + 1, me_updated := now\<rparr>)])"

definition set_summary_writes :: "int \<Rightarrow> jsonl_fs \<Rightarrow> string \<Rightarrow> string \<Rightarrow> fs_write list" where
  "set_summary_writes now fs key t =
    (let meta = read_meta fs key;
         created = (if me_created meta = 0 then now else me_created meta)
     in [Write_Meta (meta_path key) (meta\<lparr>me_created := created, me_summary := t, me_updated := now\<rparr>)])"

definition truncate_history_writes :: "int \<Rightarrow> jsonl_fs \<Rightarrow> string \<Rightarrow> int \<Rightarrow> fs_write list" where
  "truncate_history_writes now fs key keep_last =
    (case count_lines (file_content fs (jsonl_path key)) of
       None \<Rightarrow> []
     | Some n \<Rightarrow>
        (let meta = (read_meta fs key)\<lparr>me_count := n\<rparr>;
             skip = (if keep_last \<le> 0 then me_count meta
                     else if keep_last < me_count meta - me_skip meta then me_count meta - keep_last
                     else me_skip meta)
         in [Write_Meta (meta_path key) (meta\<lparr>me_skip := skip, me_updated := now\<rparr>)]))"

definition rewrite_jsonl :: "(message \<Rightarrow> string) \<Rightarrow> string \<Rightarrow> message list \<Rightarrow> fs_write" where
  "rewrite_jsonl enc key ms = Write_Lines (jsonl_path key) (file_of enc ms)"

definition set_history_writes ::
  "(message \<Rightarrow> string) \<Rightarrow> int \<Rightarrow> jsonl_fs \<Rightarrow> string \<Rightarrow> message list \<Rightarrow> fs_write list" where
  "set_history_writes enc now fs key history =
    (let meta = read_meta fs key;
         created = (if me_created meta = 0 then now else me_created meta)
     in [Write_Meta (meta_path key)
           (meta\<lparr>me_created := created, me_skip := 0, me_count := int (length history), me_updated := now\<rparr>),
         rewrite_jsonl enc key history])"

definition compact_writes ::
  "(message \<Rightarrow> string) \<Rightarrow> (string \<Rightarrow> message option) \<Rightarrow> int \<Rightarrow> jsonl_fs \<Rightarrow> string \<Rightarrow> fs_write list" where
  "compact_writes enc dec now fs key =
    (let meta = read_meta fs key in
     if me_skip meta = 0 then []
     else (case read_messages dec (file_content fs (jsonl_path key)) (me_skip meta) of
         None \<Rightarrow> []
       | Some active \<Rightarrow>
          [Write_Meta (meta_path key) (meta\<lparr>me_skip := 0, me_count := int (length active), me_updated := now\<rparr>),
           rewrite_jsonl enc key active]))"

definition js_get_history :: "(string \<Rightarrow> message option) \<Rightarrow> jsonl_fs \<Rightarrow> string \<Rightarrow> message list option" where
  "js_get_history dec fs key = read_messages dec (file_content fs (jsonl_path key)) (me_skip (read_meta fs key))"

definition js_get_summary :: "jsonl_fs \<Rightarrow> string \<Rightarrow> string" where
  "js_get_summary fs key = me_summary (read_meta fs key)"

text \<open>\<open>JSONLBackend\<close>: errors are logged and the history of a failed read is empty.\<close>

definition backend_history :: "(string \<Rightarrow> message option) \<Rightarrow> jsonl_fs \<Rightarrow> string \<Rightarrow> message list" where
  "backend_history dec fs key = (case js_get_history dec fs key of None \<Rightarrow> [] | Some ms \<Rightarrow> ms)"

definition jsonl_ops ::
  "(message \<Rightarrow> string) \<Rightarrow> (string \<Rightarrow> message option) \<Rightarrow> int \<Rightarrow> jsonl_fs session_ops" where
  "jsonl_ops enc dec now =
    \<lparr>so_add = (\<lambda>fs k m. run_writes fs (add_msg_writes enc now fs k m)),
     so_history = backend_history dec,
     so_summary = js_get_summary,
     so_set_summary = (\<lambda>fs k t. run_writes fs (set_summary_writes now fs k t)),
     so_set_history = (\<lambda>fs k h. run_writes fs (set_history_writes enc now fs k h)),
     so_truncate = (\<lambda>fs k n. run_writes fs (truncate_history_writes now fs k n)),
     so_save = (\<lambda>fs k. run_writes fs (compact_writes enc dec now fs k))\<rparr>"

lemma jsonl_sel [simp]:
  "so_history (jsonl_ops enc dec now) = backend_history dec"
  "so_summary (jsonl_ops enc dec now) = js_get_summary"
  by (simp_all add: jsonl_ops_def)

section \<open>What the code relies on of encoding/json\<close>

text \<open>The fields of a message that its JSON keeps: \<open>Name\<close>, \<open>Arguments\<close> and \<open>ThoughtSignature\<close> of a call are
  tagged \<open>json:"-"\<close>.\<close>

definition json_call :: "tool_call \<Rightarrow> tool_call" where
  "json_call tc = tc\<lparr>tc_name := [], tc_arguments := None, tc_thought_signature := []\<rparr>"

definition json_view :: "message \<Rightarrow> message" where
  "json_view m = m\<lparr>msg_tool_calls := map json_call (msg_tool_calls m)\<rparr>"

text \<open>One line of JSON: not empty, no raw newline or carriage return, within the scanner's buffer.\<close>

definition line_ok :: "string \<Rightarrow> bool" where
  "line_ok l \<longleftrightarrow> l \<noteq> [] \<and> nl \<notin> set l \<and> cr \<notin> set l \<and> int (length l) < max_line_size"

definition encodes :: "(message \<Rightarrow> string) \<Rightarrow> (string \<Rightarrow> message option) \<Rightarrow> message \<Rightarrow> bool" where
  "encodes enc dec m \<longleftrightarrow> line_ok (enc m) \<and> dec (enc m) = Some (json_view m)"

definition codec_ok :: "(message \<Rightarrow> string) \<Rightarrow> (string \<Rightarrow> message option) \<Rightarrow> message \<Rightarrow> bool" where
  "codec_ok enc dec m \<longleftrightarrow> encodes enc dec m \<and> encodes enc dec (json_view m)"

lemma json_view_idem [simp]: "json_view (json_view m) = json_view m"
  by (simp add: json_view_def json_call_def o_def)

lemma codec_ok_view [simp]: "codec_ok enc dec m \<Longrightarrow> codec_ok enc dec (json_view m)"
  by (simp add: codec_ok_def)

section \<open>Reading back a well-formed file\<close>

lemma split_lines_line: "nl \<notin> set l \<Longrightarrow> split_lines (l @ nl # s) = l # split_lines s"
proof -
  assume "nl \<notin> set l"
  then have "takeWhile (\<lambda>x. x \<noteq> nl) (l @ nl # s) = l" "dropWhile (\<lambda>x. x \<noteq> nl) (l @ nl # s) = nl # s"
    by (induction l) auto
  then show ?thesis by (cases "l @ nl # s") (simp_all del: takeWhile.simps dropWhile.simps)
qed

lemma split_lines_last: "nl \<notin> set l \<Longrightarrow> l \<noteq> [] \<Longrightarrow> split_lines l = [l]"
proof -
  assume l: "nl \<notin> set l" "l \<noteq> []"
  then have w: "takeWhile (\<lambda>x. x \<noteq> nl) l = l" "dropWhile (\<lambda>x. x \<noteq> nl) l = []"
    by (auto simp: takeWhile_eq_all_conv dropWhile_eq_Nil_conv)
  show ?thesis using split_lines.simps(2) [of "hd l" "tl l"] unfolding list.collapse [OF l(2)] w by simp
qed

lemma file_of_simps [simp]:
  "file_of enc [] = []" "file_of enc (m # ms) = enc m @ nl # file_of enc ms"
  "file_of enc (ms @ ms') = file_of enc ms @ file_of enc ms'"
  by (simp_all add: file_of_def)

lemma split_lines_file:
  "list_all (codec_ok enc dec) ms \<Longrightarrow> split_lines (file_of enc ms @ t) = map enc ms @ split_lines t"
  by (induction ms) (auto simp: codec_ok_def encodes_def line_ok_def split_lines_line)

lemma line_ok_drop_cr [simp]: "cr \<notin> set l \<Longrightarrow> drop_cr l = l"
  using last_in_set [of l] by (metis drop_cr_def)

lemma scan_file_tail:
  assumes "list_all (codec_ok enc dec) ms" "nl \<notin> set t" "cr \<notin> set t" "int (length t) < max_line_size"
  shows "scan_file (file_of enc ms @ t) = Some (map enc ms @ (if t = [] then [] else [t]))"
proof -
  have s: "split_lines (file_of enc ms @ t) = map enc ms @ (if t = [] then [] else [t])"
    using assms by (simp add: split_lines_file split_lines_last)
  have l: "line_ok l" if "l \<in> set (map enc ms)" for l
    using assms(1) that by (auto simp: list_all_iff codec_ok_def encodes_def)
  then have "filter (\<lambda>l. l \<noteq> []) (map drop_cr (map enc ms)) = map enc ms"
    by (auto simp: line_ok_def filter_id_conv intro!: map_idI simp del: map_map)
  moreover have "\<not> list_ex (\<lambda>l. max_line_size \<le> int (length l)) (map enc ms)"
    using l by (force simp: list_ex_iff line_ok_def simp del: map_map)
  ultimately show ?thesis unfolding scan_file_def Let_def s using assms(3,4) by simp
qed

lemma scan_file_of: "list_all (codec_ok enc dec) ms \<Longrightarrow> scan_file (file_of enc ms) = Some (map enc ms)"
  using scan_file_tail [of enc dec ms "[]"] by (simp add: max_line_size_def)

lemma map_filter_codec: "list_all (codec_ok enc dec) ms \<Longrightarrow> List.map_filter dec (map enc ms) = map json_view ms"
  by (induction ms) (auto simp: map_filter_simps codec_ok_def encodes_def)

lemma map_filter_append: "List.map_filter f (xs @ ys) = List.map_filter f xs @ List.map_filter f ys"
  by (simp add: List.map_filter_def)

lemma read_messages_file:
  assumes "list_all (codec_ok enc dec) ms"
  shows "read_messages dec (file_of enc ms) skip = Some (map json_view (drop (nat skip) ms))"
proof -
  have "list_all (codec_ok enc dec) (drop (nat skip) ms)"
    using assms by (auto simp: list_all_iff dest: in_set_dropD)
  then show ?thesis
    using assms by (simp add: read_messages_def scan_file_of map_filter_codec drop_map)
qed

section \<open>The store invariant and the interface\<close>

text \<open>Every session file is the lines of storable messages and the truncation offset lies within it.\<close>

definition holds ::
  "(message \<Rightarrow> string) \<Rightarrow> (string \<Rightarrow> message option) \<Rightarrow> jsonl_fs \<Rightarrow> string \<Rightarrow> message list \<Rightarrow> bool" where
  "holds enc dec fs key ms \<longleftrightarrow>
     file_content fs (jsonl_path key) = file_of enc ms \<and> list_all (codec_ok enc dec) ms \<and>
     0 \<le> me_skip (read_meta fs key) \<and> me_skip (read_meta fs key) \<le> int (length ms)"

definition jsonl_inv :: "(message \<Rightarrow> string) \<Rightarrow> (string \<Rightarrow> message option) \<Rightarrow> jsonl_fs \<Rightarrow> bool" where
  "jsonl_inv enc dec fs \<longleftrightarrow> (\<forall>key. \<exists>ms. holds enc dec fs key ms)"

lemma holds_history:
  "holds enc dec fs key ms \<Longrightarrow>
    js_get_history dec fs key = Some (map json_view (drop (nat (me_skip (read_meta fs key))) ms))"
  by (simp add: holds_def js_get_history_def read_messages_file)

lemma holds_backend:
  "holds enc dec fs key ms \<Longrightarrow>
    backend_history dec fs key = map json_view (drop (nat (me_skip (read_meta fs key))) ms)"
  by (simp add: backend_history_def holds_history)

lemma holds_count: "holds enc dec fs key ms \<Longrightarrow> count_lines (file_content fs (jsonl_path key)) = Some (int (length ms))"
  by (auto simp: holds_def count_lines_def scan_file_of)

lemma paths_eq [simp]:
  "jsonl_path k = jsonl_path k' \<longleftrightarrow> sanitize_key k = sanitize_key k'"
  "meta_path k = meta_path k' \<longleftrightarrow> sanitize_key k = sanitize_key k'"
  by (simp_all add: jsonl_path_def meta_path_def)

lemma run_writes_simps [simp]:
  "run_writes fs [] = fs" "run_writes fs (w # ws) = run_writes (apply_write fs w) ws"
  by (simp_all add: run_writes_def)

text \<open>What one write does to what is read of a session; sessions of another slot are not touched.\<close>

lemma content_writes [simp]:
  "file_content (apply_write fs (Append_Lines p d)) q = (if q = p then file_content fs p @ d else file_content fs q)"
  "file_content (apply_write fs (Write_Lines p d)) q = (if q = p then d else file_content fs q)"
  "file_content (apply_write fs (Write_Meta p m)) q = file_content fs q"
  by (simp_all add: file_content_def)

lemma read_meta_writes [simp]:
  "read_meta (apply_write fs (Append_Lines p d)) k = read_meta fs k"
  "read_meta (apply_write fs (Write_Lines p d)) k = read_meta fs k"
  "read_meta (apply_write fs (Write_Meta (meta_path k') m)) k =
    (if sanitize_key k = sanitize_key k' then m else read_meta fs k)"
  by (auto simp: read_meta_def)

lemmas writes_defs = add_msg_writes_def set_summary_writes_def truncate_history_writes_def
  set_history_writes_def compact_writes_def rewrite_jsonl_def Let_def

declare apply_write.simps [simp del]

text \<open>Every operation only writes the two files of its session's slot.\<close>

definition at_slot :: "string \<Rightarrow> fs_write \<Rightarrow> bool" where
  "at_slot k w = (case w of
     Append_Lines p d \<Rightarrow> p = jsonl_path k
   | Write_Lines p d \<Rightarrow> p = jsonl_path k
   | Write_Meta p m \<Rightarrow> p = meta_path k)"

lemma writes_at_slot [simp]:
  "list_all (at_slot k) (add_msg_writes enc now fs k m)"
  "list_all (at_slot k) (set_summary_writes now fs k t)"
  "list_all (at_slot k) (truncate_history_writes now fs k n)"
  "list_all (at_slot k) (set_history_writes enc now fs k h)"
  "list_all (at_slot k) (compact_writes enc dec now fs k)"
  by (auto simp: writes_defs at_slot_def split: option.split)

lemma apply_frame:
  assumes "at_slot k w" "sanitize_key k' \<noteq> sanitize_key k"
  shows "file_content (apply_write fs w) (jsonl_path k') = file_content fs (jsonl_path k') \<and>
    read_meta (apply_write fs w) k' = read_meta fs k'"
  using assms by (cases w) (auto simp: at_slot_def)

lemma run_frame:
  assumes "list_all (at_slot k) ws" "sanitize_key k' \<noteq> sanitize_key k"
  shows "file_content (run_writes fs ws) (jsonl_path k') = file_content fs (jsonl_path k') \<and>
    read_meta (run_writes fs ws) k' = read_meta fs k'"
  using assms(1) by (induction ws arbitrary: fs) (auto simp: apply_frame [OF _ assms(2)])

lemma holds_same_slot:
  "sanitize_key k = sanitize_key k' \<Longrightarrow> holds enc dec fs k ms \<longleftrightarrow> holds enc dec fs k' ms"
  by (simp add: holds_def read_meta_def meta_path_def jsonl_path_def split: option.splits)

text \<open>So an operation keeps the invariant when it keeps it for its own session.\<close>

lemma inv_by_slot:
  assumes "jsonl_inv enc dec fs" "list_all (at_slot k) ws" "holds enc dec (run_writes fs ws) k ms"
  shows "jsonl_inv enc dec (run_writes fs ws)"
  unfolding jsonl_inv_def
proof
  fix k'
  show "\<exists>ms. holds enc dec (run_writes fs ws) k' ms"
  proof (cases "sanitize_key k' = sanitize_key k")
    case True
    then show ?thesis using assms(3) holds_same_slot by metis
  next
    case False
    obtain ms' where "holds enc dec fs k' ms'" using assms(1) by (auto simp: jsonl_inv_def)
    then show ?thesis using run_frame [OF assms(2) False, of fs] by (auto simp: holds_def)
  qed
qed

subsection \<open>The effect of each operation on its own session\<close>

lemma holds_add:
  "holds enc dec fs k ms \<Longrightarrow> codec_ok enc dec m \<Longrightarrow>
    holds enc dec (run_writes fs (add_msg_writes enc now fs k m)) k (ms @ [m])"
  by (auto simp: holds_def writes_defs)

lemma holds_set_summary:
  "holds enc dec fs k ms \<Longrightarrow> holds enc dec (run_writes fs (set_summary_writes now fs k t)) k ms"
  by (auto simp: holds_def writes_defs)

lemma holds_truncate:
  "holds enc dec fs k ms \<Longrightarrow> holds enc dec (run_writes fs (truncate_history_writes now fs k n)) k ms"
  using holds_count [of enc dec fs k ms] by (auto simp: holds_def writes_defs)

lemma holds_set_history:
  "list_all (codec_ok enc dec) h \<Longrightarrow> holds enc dec (run_writes fs (set_history_writes enc now fs k h)) k h"
  by (auto simp: holds_def writes_defs)

lemma compact_active:
  "holds enc dec fs k ms \<Longrightarrow> me_skip (read_meta fs k) \<noteq> 0 \<Longrightarrow>
    compact_writes enc dec now fs k =
      (let active = map json_view (drop (nat (me_skip (read_meta fs k))) ms) in
       [Write_Meta (meta_path k) ((read_meta fs k)\<lparr>me_skip := 0, me_count := int (length active), me_updated := now\<rparr>),
        rewrite_jsonl enc k active])"
  using holds_history [of enc dec fs k ms] by (simp add: compact_writes_def js_get_history_def Let_def)

lemma holds_compact:
  assumes "holds enc dec fs k ms"
  shows "holds enc dec (run_writes fs (compact_writes enc dec now fs k)) k
    (if me_skip (read_meta fs k) = 0 then ms else map json_view (drop (nat (me_skip (read_meta fs k))) ms))"
proof (cases "me_skip (read_meta fs k) = 0")
  case True
  then show ?thesis using assms by (simp add: compact_writes_def)
next
  case False
  have "list_all (codec_ok enc dec) (drop n ms)" for n
    using assms by (auto simp: holds_def list_all_iff dest: in_set_dropD)
  then have "list_all (codec_ok enc dec) (map json_view (drop n ms))" for n
    by (simp add: list_all_iff)
  then show ?thesis using False by (simp add: compact_active [OF assms] holds_def rewrite_jsonl_def Let_def)
qed

lemma read_meta_same_slot:
  "sanitize_key k' = sanitize_key k \<Longrightarrow>
    me_summary (read_meta fs k') = me_summary (read_meta fs k) \<and> me_skip (read_meta fs k') = me_skip (read_meta fs k)"
  by (auto simp: read_meta_def meta_path_def split: option.split)

lemma summary_after:
  "js_get_summary (run_writes fs (add_msg_writes enc now fs k m)) k' = js_get_summary fs k'"
  "js_get_summary (run_writes fs (set_summary_writes now fs k t)) k = t"
  "js_get_summary (run_writes fs (truncate_history_writes now fs k n)) k' = js_get_summary fs k'"
  "js_get_summary (run_writes fs (set_history_writes enc now fs k h)) k' = js_get_summary fs k'"
  "js_get_summary (run_writes fs (compact_writes enc dec now fs k)) k' = js_get_summary fs k'"
  using read_meta_same_slot [of k' k fs]
  by (auto simp: js_get_summary_def writes_defs split: option.split)

lemma history_truncate:
  assumes "holds enc dec fs k ms"
  shows "backend_history dec (run_writes fs (truncate_history_writes now fs k n)) k =
    last_n (nat n) (backend_history dec fs k)"
proof -
  define skip where "skip = me_skip (read_meta fs k)"
  define skip' where "skip' = (if n \<le> 0 then int (length ms)
    else if n < int (length ms) - skip then int (length ms) - n else skip)"
  have b: "0 \<le> skip" "skip \<le> int (length ms)" using assms by (simp_all add: holds_def skip_def)
  have "me_skip (read_meta (run_writes fs (truncate_history_writes now fs k n)) k) = skip'"
    using holds_count [OF assms] by (simp add: truncate_history_writes_def skip'_def skip_def Let_def)
  then have "backend_history dec (run_writes fs (truncate_history_writes now fs k n)) k =
      map json_view (drop (nat skip') ms)"
    using holds_backend [OF holds_truncate [OF assms]] by simp
  also have "drop (nat skip') ms = last_n (nat n) (drop (nat skip) ms)"
    using b by (auto simp: last_n_def skip'_def nat_diff_distrib intro!: arg_cong [where f = "\<lambda>i. drop i ms"])
  also have "map json_view (last_n (nat n) (drop (nat skip) ms)) =
      last_n (nat n) (map json_view (drop (nat skip) ms))"
    by (simp add: last_n_def drop_map)
  finally show ?thesis by (simp add: holds_backend [OF assms] skip_def)
qed

lemma inv_obtain:
  assumes "jsonl_inv enc dec fs"
  obtains ms where "holds enc dec fs k ms"
  using assms by (auto simp: jsonl_inv_def)

lemma history_add:
  assumes "holds enc dec fs k ms" "codec_ok enc dec m"
  shows "backend_history dec (run_writes fs (add_msg_writes enc now fs k m)) k =
    backend_history dec fs k @ [json_view m]"
proof -
  have "nat (me_skip (read_meta fs k)) \<le> length ms" using assms(1) by (auto simp: holds_def)
  then show ?thesis
    using holds_backend [OF holds_add [OF assms, of now]] holds_backend [OF assms(1)]
    by (simp add: writes_defs)
qed

lemma history_set_history:
  "list_all (codec_ok enc dec) h \<Longrightarrow>
    backend_history dec (run_writes fs (set_history_writes enc now fs k h)) k = map json_view h"
  using holds_backend [OF holds_set_history [where now = now]] by (simp add: writes_defs)

lemma backend_same_slot:
  "sanitize_key k' = sanitize_key k \<Longrightarrow> backend_history dec fs k' = backend_history dec fs k"
  using read_meta_same_slot [of k' k fs]
  by (simp add: backend_history_def js_get_history_def jsonl_path_def)

lemma history_frame:
  "list_all (at_slot k) ws \<Longrightarrow> sanitize_key k' \<noteq> sanitize_key k \<Longrightarrow>
    backend_history dec (run_writes fs ws) k' = backend_history dec fs k' \<and>
    js_get_summary (run_writes fs ws) k' = js_get_summary fs k'"
  by (simp add: backend_history_def js_get_history_def js_get_summary_def run_frame)

lemma history_set_summary:
  "backend_history dec (run_writes fs (set_summary_writes now fs k t)) k' = backend_history dec fs k'"
  using read_meta_same_slot [of k' k fs]
  by (simp add: backend_history_def js_get_history_def writes_defs)

lemma history_compact:
  assumes "holds enc dec fs k ms"
  shows "backend_history dec (run_writes fs (compact_writes enc dec now fs k)) k' = backend_history dec fs k'"
proof (cases "sanitize_key k' = sanitize_key k")
  case True
  have "backend_history dec (run_writes fs (compact_writes enc dec now fs k)) k = backend_history dec fs k"
    using holds_backend [OF holds_compact [OF assms, of now]] holds_backend [OF assms]
    by (cases "me_skip (read_meta fs k) = 0")
      (simp add: compact_writes_def, simp add: compact_active [OF assms] rewrite_jsonl_def Let_def o_def)
  then show ?thesis by (simp add: backend_same_slot [OF True])
qed (simp add: history_frame [OF writes_at_slot(5)])

lemma inv_ops:
  assumes "jsonl_inv enc dec fs"
  shows "codec_ok enc dec m \<Longrightarrow> jsonl_inv enc dec (run_writes fs (add_msg_writes enc now fs k m))"
    and "jsonl_inv enc dec (run_writes fs (set_summary_writes now fs k t))"
    and "list_all (codec_ok enc dec) h \<Longrightarrow> jsonl_inv enc dec (run_writes fs (set_history_writes enc now fs k h))"
    and "jsonl_inv enc dec (run_writes fs (truncate_history_writes now fs k n))"
    and "jsonl_inv enc dec (run_writes fs (compact_writes enc dec now fs k))"
proof -
  obtain ms where h: "holds enc dec fs k ms" using assms by (rule inv_obtain)
  note keep = inv_by_slot [OF assms writes_at_slot(1)] inv_by_slot [OF assms writes_at_slot(2)]
    inv_by_slot [OF assms writes_at_slot(3)] inv_by_slot [OF assms writes_at_slot(4)]
    inv_by_slot [OF assms writes_at_slot(5)]
  show "codec_ok enc dec m \<Longrightarrow> jsonl_inv enc dec (run_writes fs (add_msg_writes enc now fs k m))"
    using keep(1) [OF holds_add [OF h]] .
  show "jsonl_inv enc dec (run_writes fs (set_summary_writes now fs k t))"
    using keep(2) [OF holds_set_summary [OF h]] .
  show "list_all (codec_ok enc dec) h \<Longrightarrow> jsonl_inv enc dec (run_writes fs (set_history_writes enc now fs k h))"
    using keep(4) [OF holds_set_history] .
  show "jsonl_inv enc dec (run_writes fs (truncate_history_writes now fs k n))"
    using keep(3) [OF holds_truncate [OF h]] .
  show "jsonl_inv enc dec (run_writes fs (compact_writes enc dec now fs k))"
    using keep(5) [OF holds_compact [OF h]] .
qed

lemmas op_frames = writes_at_slot [THEN history_frame]

text \<open>The JSONL backend keeps every promise of the session interface: what the agent proves against
  the interface holds for it.\<close>

interpretation jsonl: session_store "jsonl_ops enc dec now" "jsonl_inv enc dec" "\<lambda>_ _. True"
    sanitize_key json_view "codec_ok enc dec" for enc dec now
proof
  fix s k m assume "jsonl_inv enc dec s" "m \<in> set (so_history (jsonl_ops enc dec now) s k)"
  then show "codec_ok enc dec m \<and> json_view m = m"
    by (auto simp: jsonl_ops_def holds_backend holds_def list_all_iff dest!: in_set_dropD elim!: inv_obtain [where k = k])
qed (auto simp: jsonl_ops_def op_frames history_set_summary summary_after inv_ops
    elim!: inv_obtain intro: history_add history_set_history history_truncate history_compact)

section \<open>Crashes\<close>

text \<open>The states a crash (or a failing system call) can leave behind: some of the writes done, an append
  possibly cut short.\<close>

inductive crash :: "fs_write list \<Rightarrow> jsonl_fs \<Rightarrow> jsonl_fs \<Rightarrow> bool" where
  crash_here: "crash ws fs fs"
| crash_torn: "prefix d' d \<Longrightarrow> crash (Append_Lines p d # ws) fs (apply_write fs (Append_Lines p d'))"
| crash_later: "crash ws (apply_write fs w) fs' \<Longrightarrow> crash (w # ws) fs fs'"

inductive_cases crash_NilE: "crash [] fs fs'"
inductive_cases crash_ConsE: "crash (w # ws) fs fs'"

lemma crash_Nil [simp]: "crash [] fs fs' \<longleftrightarrow> fs' = fs"
  by (auto intro: crash_here elim: crash_NilE)

lemma crash_meta [simp]:
  "crash (Write_Meta p m # ws) fs fs' \<longleftrightarrow> fs' = fs \<or> crash ws (apply_write fs (Write_Meta p m)) fs'"
  by (auto intro: crash.intros elim: crash_ConsE)

lemma crash_lines [simp]:
  "crash (Write_Lines p d # ws) fs fs' \<longleftrightarrow> fs' = fs \<or> crash ws (apply_write fs (Write_Lines p d)) fs'"
  by (auto intro: crash.intros elim: crash_ConsE)

datatype store_op =
    Op_Add message
  | Op_Set_Summary string
  | Op_Truncate int
  | Op_Set_History "message list"
  | Op_Compact

definition op_writes ::
  "(message \<Rightarrow> string) \<Rightarrow> (string \<Rightarrow> message option) \<Rightarrow> int \<Rightarrow> jsonl_fs \<Rightarrow> string \<Rightarrow> store_op \<Rightarrow> fs_write list" where
  "op_writes enc dec now fs k op = (case op of
     Op_Add m \<Rightarrow> add_msg_writes enc now fs k m
   | Op_Set_Summary t \<Rightarrow> set_summary_writes now fs k t
   | Op_Truncate n \<Rightarrow> truncate_history_writes now fs k n
   | Op_Set_History h \<Rightarrow> set_history_writes enc now fs k h
   | Op_Compact \<Rightarrow> compact_writes enc dec now fs k)"

text \<open>A cut line of JSON is not JSON.\<close>

definition no_torn :: "(message \<Rightarrow> string) \<Rightarrow> (string \<Rightarrow> message option) \<Rightarrow> message \<Rightarrow> bool" where
  "no_torn enc dec m \<longleftrightarrow> (\<forall>n < length (enc m). dec (take n (enc m)) = None)"

lemma read_messages_tail:
  assumes "list_all (codec_ok enc dec) ms" "nl \<notin> set t" "cr \<notin> set t" "int (length t) < max_line_size"
    and "nat skip \<le> length ms"
  shows "read_messages dec (file_of enc ms @ t) skip =
    Some (map json_view (drop (nat skip) ms) @ (if t = [] then [] else case dec t of None \<Rightarrow> [] | Some m \<Rightarrow> [m]))"
proof -
  have "list_all (codec_ok enc dec) (drop (nat skip) ms)"
    using assms(1) by (auto simp: list_all_iff dest: in_set_dropD)
  then have "List.map_filter dec (drop (nat skip) (map enc ms)) = map json_view (drop (nat skip) ms)"
    by (simp add: drop_map map_filter_codec)
  then show ?thesis
    using assms(5)
    by (simp add: read_messages_def scan_file_tail [OF assms(1-4)] map_filter_append map_filter_simps
        split: option.split)
qed

lemma history_torn:
  assumes h: "holds enc dec fs k ms" and m: "codec_ok enc dec m" "no_torn enc dec m"
    and d: "prefix d (enc m @ [nl])"
  shows "backend_history dec (apply_write fs (Append_Lines (jsonl_path k) d)) k \<in>
    {backend_history dec fs k, backend_history dec fs k @ [json_view m]}"
proof -
  define t where "t = (if d = enc m @ [nl] then enc m else d)"
  have t: "prefix t (enc m)" using d by (auto simp: t_def)
  then have tn: "t = take (length t) (enc m)" by (auto simp: prefix_def)
  have "set t \<subseteq> set (enc m)" "length t \<le> length (enc m)"
    using t by (auto dest: set_mono_prefix prefix_length_le)
  then have tok: "nl \<notin> set t" "cr \<notin> set t" "int (length t) < max_line_size"
    using m(1) by (auto simp: codec_ok_def encodes_def line_ok_def)
  have ms: "list_all (codec_ok enc dec) ms" "nat (me_skip (read_meta fs k)) \<le> length ms"
    using h by (auto simp: holds_def)
  have "dec t = (if t = enc m then Some (json_view m) else None)"
  proof (cases "t = enc m")
    case False
    then have "length t < length (enc m)" using t by (metis prefix_length_less prefix_order.le_neq_trans)
    then show ?thesis using False m(2) tn by (metis no_torn_def)
  qed (use m(1) in \<open>simp add: codec_ok_def encodes_def\<close>)
  moreover have "read_messages dec (file_of enc ms @ d) skip = read_messages dec (file_of enc ms @ t) skip" for skip
  proof (cases "d = enc m @ [nl]")
    case True
    have "scan_file (file_of enc ms @ d) = scan_file (file_of enc (ms @ [m]))" by (simp add: True)
    also have "\<dots> = Some (map enc ms @ [enc m])" using ms(1) m(1) scan_file_of [of enc dec "ms @ [m]"] by simp
    also have "\<dots> = scan_file (file_of enc ms @ t)"
      using scan_file_tail [OF ms(1) tok] m(1) True
      by (simp add: t_def codec_ok_def encodes_def line_ok_def)
    finally show ?thesis by (simp add: read_messages_def)
  qed (simp add: t_def)
  ultimately show ?thesis
    using h read_messages_tail [OF ms(1) tok ms(2)] holds_backend [OF h]
    by (auto simp: backend_history_def js_get_history_def holds_def)
qed

lemma crash_add:
  assumes h: "holds enc dec fs k ms" and m: "codec_ok enc dec m" "no_torn enc dec m"
    and c: "crash (add_msg_writes enc now fs k m) fs fs'"
  shows "backend_history dec fs' k \<in> {backend_history dec fs k, backend_history dec fs k @ [json_view m]}"
proof -
  define w where "w = Append_Lines (jsonl_path k) (enc m @ [nl])"
  obtain w2 where w2: "add_msg_writes enc now fs k m = [w, w2]" and meta: "\<exists>p x. w2 = Write_Meta p x"
    by (auto simp: w_def add_msg_writes_def Let_def)
  from c [unfolded w2] consider "fs' = fs"
    | d where "prefix d (enc m @ [nl])" "fs' = apply_write fs (Append_Lines (jsonl_path k) d)"
    | "fs' = run_writes fs (add_msg_writes enc now fs k m)"
    using meta unfolding w2 by (auto elim!: crash_ConsE simp: w_def intro: prefix_order.refl)
  then show ?thesis
    by cases (use history_torn [OF h m] history_add [OF h m(1)] in auto)
qed

text \<open>\<open>SetHistory\<close> and \<open>Compact\<close> reset the offset first and rewrite the file then.\<close>

definition rewriting :: "string \<Rightarrow> fs_write list \<Rightarrow> bool" where
  "rewriting k ws \<longleftrightarrow> ws = [] \<or>
    (\<exists>meta d. ws = [Write_Meta (meta_path k) meta, Write_Lines (jsonl_path k) d] \<and> me_skip meta = 0)"

lemma rewriting_intro:
  "me_skip meta = 0 \<Longrightarrow> rewriting k [Write_Meta (meta_path k) meta, rewrite_jsonl enc k ms]"
  by (auto simp: rewriting_def rewrite_jsonl_def)

lemma rewriting_set_history: "rewriting k (set_history_writes enc now fs k h)"
  unfolding set_history_writes_def Let_def by (rule rewriting_intro) simp

lemma rewriting_compact: "rewriting k (compact_writes enc dec now fs k)"
  unfolding compact_writes_def Let_def
  by (auto split: option.split intro: rewriting_intro) (simp_all add: rewriting_def)

lemma crash_rewriting:
  assumes h: "holds enc dec fs k ms" and r: "rewriting k ws" and c: "crash ws fs fs'"
  shows "suffix (backend_history dec fs k) (backend_history dec fs' k) \<or>
    backend_history dec fs' k = backend_history dec (run_writes fs ws) k"
proof (cases "ws = []")
  case False
  then obtain meta d where ws: "ws = [Write_Meta (meta_path k) meta, Write_Lines (jsonl_path k) d]"
      "me_skip meta = 0"
    using r by (auto simp: rewriting_def)
  define fs1 where "fs1 = apply_write fs (Write_Meta (meta_path k) meta)"
  have "holds enc dec fs1 k ms" using h ws(2) by (simp add: holds_def fs1_def)
  then have "suffix (backend_history dec fs k) (backend_history dec fs1 k)"
    using holds_backend [OF h] ws(2) by (simp add: holds_backend fs1_def suffix_drop flip: drop_map)
  then show ?thesis using c by (auto simp: ws(1) fs1_def)
qed (use c in simp)

text \<open>
  Whatever write a crash interrupts, and however it cuts an append, no acknowledged message is
  lost: the history read afterwards ends with the whole history from before, or the operation is
  complete. Messages that were truncated away may come back; an appended message is there or not.
\<close>

theorem jsonl_crash_safe:
  assumes "jsonl_inv enc dec fs"
    and "\<And>m. op = Op_Add m \<Longrightarrow> codec_ok enc dec m \<and> no_torn enc dec m"
    and "crash (op_writes enc dec now fs k op) fs fs'"
  shows "suffix (backend_history dec fs k) (backend_history dec fs' k) \<or>
    backend_history dec fs' k = backend_history dec (run_writes fs (op_writes enc dec now fs k op)) k"
proof -
  obtain ms where h: "holds enc dec fs k ms" using assms(1) by (rule inv_obtain)
  show ?thesis
  proof (cases op)
    case (Op_Add m)
    then show ?thesis
      using assms(3) crash_add [OF h, of m now fs'] assms(2) [OF Op_Add] history_add [OF h, of m now]
      by (auto simp: op_writes_def)
  next
    case (Op_Set_Summary t)
    then show ?thesis using assms(3) by (auto simp: op_writes_def set_summary_writes_def Let_def)
  next
    case (Op_Truncate n)
    then show ?thesis
      using assms(3) by (auto simp: op_writes_def truncate_history_writes_def Let_def split: option.splits)
  next
    case (Op_Set_History x)
    then have "rewriting k (op_writes enc dec now fs k op)"
      by (simp add: op_writes_def rewriting_set_history)
    then show ?thesis using crash_rewriting [OF h _ assms(3)] by blast
  next
    case Op_Compact
    then have "rewriting k (op_writes enc dec now fs k op)"
      using rewriting_compact by (simp add: op_writes_def)
    then show ?thesis using crash_rewriting [OF h _ assms(3)] by blast
  qed
qed

text \<open>A small codec, for concrete runs: user messages as their text in braces, a newline as a tilde.\<close>

definition demo_enc :: "message \<Rightarrow> string" where
  "demo_enc m = ''{'' @ map (\<lambda>c. if c = nl then CHR ''~'' else c) (msg_content m) @ ''}''"

definition demo_dec :: "string \<Rightarrow> message option" where
  "demo_dec l = (if l \<noteq> [] \<and> hd l = CHR ''{'' \<and> last l = CHR ''}'' \<and> CHR ''{'' \<notin> set (tl l)
     then Some (mk_message ''user'' (map (\<lambda>c. if c = CHR ''~'' then nl else c) (butlast (tl l)))) else None)"

definition demo_fs :: jsonl_fs where
  "demo_fs = \<lparr>fs_lines = Map.empty, fs_metas = Map.empty\<rparr>"

lemma demo_inv: "jsonl_inv demo_enc demo_dec demo_fs"
proof -
  have "holds demo_enc demo_dec demo_fs k []" for k
    by (simp add: holds_def demo_fs_def file_content_def read_meta_def)
  then show ?thesis unfolding jsonl_inv_def by blast
qed

lemma demo_codec:
  "codec_ok demo_enc demo_dec (mk_message ''user'' ''hi'') \<and> no_torn demo_enc demo_dec (mk_message ''user'' ''hi'')"
proof -
  have "json_view (mk_message ''user'' ''hi'') = mk_message ''user'' ''hi''"
    by (simp add: json_view_def mk_message_def)
  moreover have "encodes demo_enc demo_dec (mk_message ''user'' ''hi'')"
    unfolding encodes_def calculation by code_simp
  moreover have "no_torn demo_enc demo_dec (mk_message ''user'' ''hi'')"
    by (auto simp: no_torn_def demo_enc_def demo_dec_def less_Suc_eq numeral_eq_Suc)
  ultimately show ?thesis by (simp add: codec_ok_def)
qed

definition demo_torn :: jsonl_fs where
  "demo_torn = apply_write demo_fs (Append_Lines (jsonl_path ''k'') ''{h'')"

lemma demo_crash:
  "crash (op_writes demo_enc demo_dec 7 demo_fs ''k'' (Op_Add (mk_message ''user'' ''hi''))) demo_fs demo_torn"
proof -
  have "prefix ''{h'' (demo_enc (mk_message ''user'' ''hi'') @ [nl])" by code_simp
  then show ?thesis by (auto simp: op_writes_def add_msg_writes_def demo_torn_def Let_def intro: crash_torn)
qed

theorem jsonl_crash_safe_witness:
  "suffix (backend_history demo_dec demo_fs ''k'') (backend_history demo_dec demo_torn ''k'') \<or>
   backend_history demo_dec demo_torn ''k'' = backend_history demo_dec
     (run_writes demo_fs (op_writes demo_enc demo_dec 7 demo_fs ''k'' (Op_Add (mk_message ''user'' ''hi'')))) ''k''"
  using jsonl_crash_safe [OF demo_inv _ demo_crash] demo_codec by simp

text \<open>A store that holds a conversation.\<close>

definition demo_msgs :: "message list" where
  "demo_msgs = map (\<lambda>c. mk_message ''user'' [c]) ''abcde''"

definition demo_full :: jsonl_fs where
  "demo_full = \<lparr>fs_lines = [jsonl_path ''k'' \<mapsto> file_of demo_enc demo_msgs], fs_metas = Map.empty\<rparr>"

lemma demo_codec_view: "msg_tool_calls m = [] \<Longrightarrow> encodes demo_enc demo_dec m \<Longrightarrow> codec_ok demo_enc demo_dec m"
  by (cases m) (simp add: codec_ok_def json_view_def)

lemma demo_full_inv: "jsonl_inv demo_enc demo_dec demo_full"
proof -
  have "list_all (codec_ok demo_enc demo_dec) demo_msgs"
  proof -
    have "json_view (mk_message r c) = mk_message r c" for r c by (simp add: json_view_def mk_message_def)
    then have "list_all (\<lambda>c. encodes demo_enc demo_dec (mk_message ''user'' [c])) ''abcde''"
      unfolding encodes_def by (simp only:) code_simp
    then show ?thesis by (auto simp: demo_msgs_def list_all_iff intro!: demo_codec_view)
  qed
  then have "\<exists>ms. holds demo_enc demo_dec demo_full key ms" for key
    by (intro exI [of _ "if sanitize_key key = sanitize_key ''k'' then demo_msgs else []"])
      (simp add: holds_def demo_full_def file_content_def read_meta_def)
  then show ?thesis unfolding jsonl_inv_def by blast
qed

lemma demo_full_history: "backend_history demo_dec demo_full ''k'' = demo_msgs"
  by code_simp

text \<open>
  What the write path does not survive: a crash that cuts an append leaves a line without its
  newline, and the next message is appended to that line. It was acknowledged and synced, but the
  merged line does not decode, so the message is lost.
\<close>

theorem torn_append_loses_next:
  "crash (op_writes demo_enc demo_dec 7 demo_fs ''k'' (Op_Add (mk_message ''user'' ''hi''))) demo_fs demo_torn \<and>
   backend_history demo_dec (run_writes demo_torn
     (op_writes demo_enc demo_dec 9 demo_torn ''k'' (Op_Add (mk_message ''user'' ''yo'')))) ''k'' = []"
proof
  show "backend_history demo_dec (run_writes demo_torn
     (op_writes demo_enc demo_dec 9 demo_torn ''k'' (Op_Add (mk_message ''user'' ''yo'')))) ''k'' = []"
    by code_simp
qed (rule demo_crash)

text \<open>Two session keys can have the same files: the keys of the peers \<open>a:b\<close> and \<open>a_b\<close> do, and then each
  reads the other's conversation.\<close>

theorem jsonl_sessions_collide:
  "backend_history dec fs ''agent:main:telegram:direct:a:b'' = backend_history dec fs ''agent:main:telegram:direct:a_b''"
  by (rule backend_same_slot) code_simp

end
