(* ===== verification/History.thy ===== *)
theory History
  imports Messages
begin

text \<open>
  The conversation a provider receives, \<open>pkg/agent/context.go\<close>: \<open>sanitizeHistoryForProvider\<close> and
  \<open>BuildMessages\<close>. A session file can hold any history (it is cut by the summarizer and by context
  compression, and a crash can lose results); providers reject one whose tool exchanges are
  broken. The specification is the inductive predicate \<open>ready\<close>, and the two passes of the code are shown
  to produce exactly its histories, to change nothing else, and to drop no plain message.
\<close>

section \<open>The two passes\<close>

text \<open>The backward walk of the first pass: the nearest message that is not a tool result.\<close>

definition found_assistant :: "message list \<Rightarrow> bool" where
  "found_assistant acc =
    (case dropWhile is_tool (rev acc) of [] \<Rightarrow> False | m # _ \<Rightarrow> has_calls m)"

definition sanitize_step :: "message list \<Rightarrow> message \<Rightarrow> message list" where
  "sanitize_step acc m =
    (if is_system m then acc
     else if is_tool m then
       (if acc = [] then acc
        else if \<not> found_assistant acc then acc
        else acc @ [m])
     else if is_assistant m then
       (if msg_tool_calls m \<noteq> [] then
          (if acc = [] then acc
           else if \<not> is_user (last acc) \<and> \<not> is_tool (last acc) then acc
           else acc @ [m])
        else acc @ [m])
     else acc @ [m])"

definition sanitize_pass1 :: "message list \<Rightarrow> message list" where
  "sanitize_pass1 history = foldl sanitize_step [] history"

text \<open>Whether every call of \<open>m\<close> is answered by one of the tool messages that follow.\<close>

definition all_found :: "message \<Rightarrow> message list \<Rightarrow> bool" where
  "all_found m ts = list_all (\<lambda>tc. tc_id tc \<in> set (map msg_tool_call_id ts)) (msg_tool_calls m)"

function sanitize_pass2 :: "message list \<Rightarrow> message list" where
  "sanitize_pass2 [] = []"
| "sanitize_pass2 (m # rest) =
    (if has_calls m \<and> \<not> all_found m (takeWhile is_tool rest)
     then sanitize_pass2 (drop (length (takeWhile is_tool rest)) rest)
     else m # sanitize_pass2 rest)"
  by pat_completeness auto
termination
  by (relation "measure length") (simp_all add: less_Suc_eq_le)

definition sanitize_history :: "message list \<Rightarrow> message list" where
  "sanitize_history history = (if history = [] then history else sanitize_pass2 (sanitize_pass1 history))"

section \<open>What a strict provider accepts\<close>

text \<open>
  \<open>ready prev ms\<close>: after the message \<open>prev\<close> (if any) the history \<open>ms\<close> can be sent. It is a sequence
  of plain messages and of complete exchanges: an assistant message with calls that follows a user
  message or a tool result, and behind it the tool results, which answer every call.
\<close>

inductive ready :: "message option \<Rightarrow> message list \<Rightarrow> bool" where
  ready_nil: "ready prev []"
| ready_plain: "plain m \<Longrightarrow> ready (Some m) ms \<Longrightarrow> ready prev (m # ms)"
| ready_exchange:
    "has_calls m \<Longrightarrow> is_user prev \<or> is_tool prev \<Longrightarrow> ts \<noteq> [] \<Longrightarrow> list_all is_tool ts \<Longrightarrow> all_found m ts \<Longrightarrow>
     ms = [] \<or> \<not> is_tool (hd ms) \<Longrightarrow> ready (Some (last ts)) ms \<Longrightarrow> ready (Some prev) (m # ts @ ms)"

inductive_cases ready_ConsE: "ready prev (m # ms)"

lemma ready_plain_iff: "plain m \<Longrightarrow> ready prev (m # ms) \<longleftrightarrow> ready (Some m) ms"
  by (auto simp: kinds intro: ready_plain elim: ready_ConsE)

lemma ready_no_system: "ready prev ms \<Longrightarrow> \<forall>m\<in>set ms. \<not> is_system m"
  by (induction rule: ready.induct) (auto simp: kinds list_all_iff)

lemma ready_hd: "ready prev ms \<Longrightarrow> ms \<noteq> [] \<Longrightarrow> \<not> is_tool (hd ms)"
  by (induction rule: ready.induct) (auto simp: kinds)

lemma ready_snoc: "ready prev ms \<Longrightarrow> plain m \<Longrightarrow> ready prev (ms @ [m])"
proof (induction rule: ready.induct)
  case (ready_exchange a prev ts ms)
  then have "ready (Some prev) (a # ts @ ms @ [m])"
    by (intro ready.ready_exchange) (auto simp: hd_append kinds)
  then show ?case by simp
qed (auto intro: ready.intros)

section \<open>The first pass from the left\<close>

text \<open>The same pass with the part of the output it looks at as arguments: the last message written,
  and whether the output ends in an assistant message with calls and its tool results.\<close>

definition may_call :: "message option \<Rightarrow> bool" where
  "may_call prev = (case prev of None \<Rightarrow> False | Some q \<Rightarrow> is_user q \<or> is_tool q)"

fun keep :: "message option \<Rightarrow> bool \<Rightarrow> message list \<Rightarrow> message list" where
  "keep prev open_ex [] = []"
| "keep prev open_ex (m # ms) =
    (if is_system m then keep prev open_ex ms
     else if is_tool m then (if open_ex then m # keep (Some m) True ms else keep prev open_ex ms)
     else if has_calls m then (if may_call prev then m # keep (Some m) True ms else keep prev open_ex ms)
     else m # keep (Some m) False ms)"

definition last_msg :: "message list \<Rightarrow> message option" where
  "last_msg acc = (if acc = [] then None else Some (last acc))"

lemma found_assistant_simps [simp]:
  "found_assistant [] = False"
  "found_assistant (acc @ [m]) = (if is_tool m then found_assistant acc else has_calls m)"
  by (simp_all add: found_assistant_def)

lemma last_msg_snoc [simp]: "last_msg (acc @ [m]) = Some m"
  by (simp add: last_msg_def)

lemma sanitize_step_keep:
  "sanitize_step acc m =
    (if is_system m then acc
     else if is_tool m then (if found_assistant acc then acc @ [m] else acc)
     else if has_calls m then (if may_call (last_msg acc) then acc @ [m] else acc)
     else acc @ [m])"
  by (auto simp: sanitize_step_def has_calls_def may_call_def last_msg_def)

lemma foldl_sanitize_step:
  "foldl sanitize_step acc ms = acc @ keep (last_msg acc) (found_assistant acc) ms"
  by (induction ms arbitrary: acc) (simp_all add: sanitize_step_keep)

lemma sanitize_pass1_keep: "sanitize_pass1 ms = keep None False ms"
  by (simp add: sanitize_pass1_def foldl_sanitize_step last_msg_def)

lemma keep_idem: "keep p c (keep p c ms) = keep p c ms"
  by (induction p c ms rule: keep.induct) auto

lemma subseq_keep: "subseq (keep p c ms) ms"
  by (induction p c ms rule: keep.induct) (auto simp: kinds intro: list_emb_Cons)

lemma keep_plain: "filter plain (keep p c ms) = filter plain ms"
  by (induction p c ms rule: keep.induct) (auto simp: kinds)

text \<open>A fixed point of the pass, taken apart.\<close>

lemma keep_fixed_Cons:
  "keep p c (m # ms) = m # ms \<longleftrightarrow>
    (is_tool m \<and> c \<and> keep (Some m) True ms = ms) \<or>
    (has_calls m \<and> may_call p \<and> keep (Some m) True ms = ms) \<or>
    (plain m \<and> keep (Some m) False ms = ms)"
proof -
  have "length (keep p c ms) \<le> length ms" for p c
    using list_emb_length [OF subseq_keep] .
  then have ne: "keep p c ms \<noteq> m # ms" for p c by (metis impossible_Cons)
  show ?thesis by (cases "kind m") (auto simp: ne kinds)
qed

declare keep.simps(2) [simp del]

section \<open>The second pass\<close>

lemma sanitize_pass2_tools:
  "list_all is_tool ts \<Longrightarrow> sanitize_pass2 (ts @ ms) = ts @ sanitize_pass2 ms"
  by (induction ts) (auto simp: kinds)

lemma keep_fixed_tools:
  "list_all is_tool ts \<Longrightarrow> ts \<noteq> [] \<Longrightarrow> keep p True (ts @ ms) = ts @ ms \<longleftrightarrow> keep (Some (last ts)) True ms = ms"
proof (induction ts arbitrary: p)
  case (Cons t ts)
  then show ?case by (cases "ts = []") (auto simp: keep_fixed_Cons kinds)
qed simp

lemma keep_fixed_boundary:
  assumes "keep p c ms = ms" "ms = [] \<or> \<not> is_tool (hd ms)" "may_call p \<Longrightarrow> may_call q"
  shows "keep q d ms = ms"
  using assms by (cases ms) (auto simp: keep_fixed_Cons kinds)

lemma split_tools:
  obtains ts rest where "ms = ts @ rest" "list_all is_tool ts" "takeWhile is_tool ms = ts"
    "rest = [] \<or> \<not> is_tool (hd rest)" "drop (length ts) ms = rest"
proof (rule that)
  show "ms = takeWhile is_tool ms @ dropWhile is_tool ms" by simp
  show "list_all is_tool (takeWhile is_tool ms)" by (auto simp: list_all_iff dest: set_takeWhileD)
  show "dropWhile is_tool ms = [] \<or> \<not> is_tool (hd (dropWhile is_tool ms))" by (meson hd_dropWhile)
  show "drop (length (takeWhile is_tool ms)) ms = dropWhile is_tool ms" by (simp add: dropWhile_eq_drop)
qed simp

lemma all_found_Nil: "has_calls m \<Longrightarrow> \<not> all_found m []"
  by (cases "msg_tool_calls m") (auto simp: has_calls_def all_found_def)

lemma has_calls_may_call [simp]: "has_calls m \<Longrightarrow> \<not> may_call (Some m)"
  by (auto simp: may_call_def kinds)

lemma may_call_last: "list_all is_tool ts \<Longrightarrow> ts \<noteq> [] \<Longrightarrow> may_call (Some (last ts))"
  by (simp add: may_call_def list_all_iff)

lemma pass2_ready: "keep p False ms = ms \<Longrightarrow> ready p (sanitize_pass2 ms)"
proof (induction "length ms" arbitrary: p ms rule: less_induct)
  case less
  show ?case
  proof (cases ms)
    case Nil
    then show ?thesis by (simp add: ready_nil)
  next
    case (Cons m rest)
    with less.prems consider
        (call) "has_calls m" "may_call p" "keep (Some m) True rest = rest"
      | (plain) "plain m" "keep (Some m) False rest = rest"
      by (auto simp: keep_fixed_Cons kinds)
    then show ?thesis
    proof cases
      case plain
      then show ?thesis using less.hyps [of rest "Some m"] Cons by (auto simp: kinds ready_plain)
    next
      case call
      obtain ts rs where s: "rest = ts @ rs" "list_all is_tool ts" "takeWhile is_tool rest = ts"
          "rs = [] \<or> \<not> is_tool (hd rs)" "drop (length ts) rest = rs"
        using split_tools [of rest] by metis
      obtain q where q: "p = Some q" "is_user q \<or> is_tool q"
        using call(2) by (auto simp: may_call_def split: option.splits)
      have len: "length rs < length ms" by (simp add: Cons s(1))
      show ?thesis
      proof (cases "all_found m ts")
        case True
        then have ne: "ts \<noteq> []" using all_found_Nil [OF call(1)] by auto
        then have "keep (Some (last ts)) True rs = rs"
          using call(3) keep_fixed_tools [OF s(2) ne] by (simp add: s(1))
        then have "keep (Some (last ts)) False rs = rs" using s(4) keep_fixed_boundary by blast
        then have r: "ready (Some (last ts)) (sanitize_pass2 rs)" using less.hyps len by blast
        then have "sanitize_pass2 rs = [] \<or> \<not> is_tool (hd (sanitize_pass2 rs))"
          using ready_hd by blast
        then have "ready p (m # ts @ sanitize_pass2 rs)"
          unfolding q(1) using ready_exchange [OF call(1) q(2) ne s(2) True] r by blast
        then show ?thesis
          using True s(3) sanitize_pass2_tools [OF s(2)] by (simp add: Cons) (simp add: s(1))
      next
        case False
        have "keep p False rs = rs"
        proof (cases "ts = []")
          case True
          with call(1,3) s(1,4) show ?thesis using keep_fixed_boundary [of "Some m" True rs p] by simp
        next
          case ne: False
          have "keep (Some (last ts)) True rs = rs"
            using call(3) keep_fixed_tools [OF s(2) ne] by (simp add: s(1))
          then show ?thesis using keep_fixed_boundary s(4) call(2) by blast
        qed
        then show ?thesis using less.hyps [OF len] False s(3,5) call(1) by (simp add: Cons)
      qed
    qed
  qed
qed

lemma ready_fixed: "ready p ms \<Longrightarrow> keep p c ms = ms \<and> sanitize_pass2 ms = ms"
proof (induction arbitrary: c rule: ready.induct)
  case (ready_plain m ms prev)
  then show ?case by (auto simp: keep_fixed_Cons kinds)
next
  case (ready_exchange m prev ts ms)
  then have "keep (Some (last ts)) True ms = ms" "sanitize_pass2 ms = ms" by auto
  moreover have "takeWhile is_tool (ts @ ms) = ts"
    using ready_exchange.hyps(4,6) by (cases ms) (auto simp: list_all_iff takeWhile_append2)
  moreover have "may_call (Some prev)" using ready_exchange.hyps(2) by (simp add: may_call_def)
  ultimately show ?case
    using ready_exchange.hyps
    by (auto simp: keep_fixed_Cons keep_fixed_tools sanitize_pass2_tools)
qed simp

lemma subseq_pass2: "subseq (sanitize_pass2 ms) ms"
proof (induction ms rule: sanitize_pass2.induct)
  case (2 m rest)
  have "subseq (drop n rest) (m # rest)" for n
    by (metis list_emb_Cons subseq_order.order_refl suffix_drop suffix_imp_subseq)
  with 2 show ?case by (auto intro: subseq_order.trans)
qed simp

lemma pass2_plain: "filter plain (sanitize_pass2 ms) = filter plain ms"
proof (induction ms rule: sanitize_pass2.induct)
  case (2 m rest)
  obtain ts rs where s: "rest = ts @ rs" "list_all is_tool ts" "takeWhile is_tool rest = ts"
      "drop (length ts) rest = rs"
    using split_tools [of rest] by metis
  have "filter plain ts = []" using s(2) by (auto simp: list_all_iff filter_empty_conv kinds)
  then have "filter plain rest = filter plain rs" by (simp add: s(1))
  moreover have "has_calls m \<Longrightarrow> \<not> plain m" by (simp add: kinds)
  ultimately show ?case using 2 s(3,4) by auto
qed simp

section \<open>Correctness of sanitizing\<close>

lemma sanitize_history_passes: "sanitize_history ms = sanitize_pass2 (sanitize_pass1 ms)"
  by (simp add: sanitize_history_def sanitize_pass1_def)

lemma sanitize_ready: "ready None ms \<Longrightarrow> sanitize_history ms = ms"
  by (simp add: sanitize_history_passes sanitize_pass1_keep ready_fixed)

text \<open>
  C1: Whatever a session holds, the sanitized history is one a strict provider accepts: no system
  message, every tool result behind the assistant message that asked for it, every tool call
  answered, and tool calls only after a user message or a tool result.
\<close>

theorem sanitize_history_ready: "ready None (sanitize_history ms)"
  by (simp add: sanitize_history_passes sanitize_pass1_keep pass2_ready keep_idem)

text \<open>
  C2: Sanitizing changes exactly the histories a provider would reject: the fixed points are the
  acceptable histories, so a healthy conversation is sent as it is and sanitizing twice is
  sanitizing once.
\<close>

theorem sanitize_history_fixpoints: "sanitize_history ms = ms \<longleftrightarrow> ready None ms"
proof
  assume "sanitize_history ms = ms"
  have "ready None (sanitize_history ms)"
    by (simp add: sanitize_history_passes sanitize_pass1_keep pass2_ready keep_idem)
  with \<open>sanitize_history ms = ms\<close> show "ready None ms" by simp
qed (rule sanitize_ready)

text \<open>
  Sanitizing only ever drops messages, keeps their order, and never drops what a user or an
  assistant said outside a tool exchange.
\<close>

theorem sanitize_history_conservative:
  "subseq (sanitize_history ms) ms \<and> filter plain (sanitize_history ms) = filter plain ms"
proof
  show "subseq (sanitize_history ms) ms"
    unfolding sanitize_history_passes sanitize_pass1_keep
    by (rule subseq_order.trans [OF subseq_pass2 subseq_keep])
qed (simp add: sanitize_history_passes sanitize_pass1_keep pass2_plain keep_plain)

section \<open>Building the request\<close>

text \<open>The summary block; the dash of the format string is the three bytes of U+2014.\<close>

definition summary_text :: "string \<Rightarrow> string" where
  "summary_text summary =
    ''CONTEXT_SUMMARY: The following is an approximate summary of prior conversation for reference only. '' @
    ''It may be incomplete or outdated '' @ encode_rune 8212 @
    '' always defer to explicit instructions.'' @ [CHR 0x0A, CHR 0x0A] @ summary"

definition part_separator :: string where
  "part_separator = [CHR 0x0A, CHR 0x0A] @ ''---'' @ [CHR 0x0A, CHR 0x0A]"

definition text_block :: "string \<Rightarrow> string option \<Rightarrow> content_block" where
  "text_block t cc = \<lparr>cb_type = ''text'', cb_text = t, cb_cache_control = cc\<rparr>"

text \<open>\<open>static\<close> is the cached prompt of \<open>BuildSystemPromptWithCache\<close> (files of the workspace) and \<open>dynamic\<close> the
  result of \<open>buildDynamicContext\<close> (clock and runtime).\<close>

definition build_messages ::
  "string \<Rightarrow> string \<Rightarrow> message list \<Rightarrow> string \<Rightarrow> string \<Rightarrow> string list \<Rightarrow> message list" where
  "build_messages static dynamic history summary current media =
    (let parts = [static, dynamic] @ (if summary \<noteq> [] then [summary_text summary] else []);
         blocks = [text_block static (Some ''ephemeral''), text_block dynamic None] @
           (if summary \<noteq> [] then [text_block (summary_text summary) None] else []);
         system = (mk_message ''system'' (join part_separator parts))\<lparr>msg_system_parts := blocks\<rparr>;
         user = (if trim_space current \<noteq> [] then [(mk_message ''user'' current)\<lparr>msg_media := media\<rparr>] else [])
     in system # sanitize_history history @ user)"

definition add_tool_result :: "message list \<Rightarrow> string \<Rightarrow> string \<Rightarrow> string \<Rightarrow> message list" where
  "add_tool_result ms call_id tool_name result = ms @ [(mk_message ''tool'' result)\<lparr>msg_tool_call_id := call_id\<rparr>]"

definition add_assistant_message :: "message list \<Rightarrow> string \<Rightarrow> 'a list \<Rightarrow> message list" where
  "add_assistant_message ms content tool_calls = ms @ [mk_message ''assistant'' content]"

lemma is_user_media [simp]: "is_user ((mk_message ''user'' c)\<lparr>msg_media := m\<rparr>)"
  by (simp add: is_user_def)

lemma user_plain: "is_user m \<Longrightarrow> plain m"
  by (simp add: kinds)

lemma build_messages_parts:
  "\<exists>system rest. build_messages static dynamic history summary current media = system # rest \<and>
    is_system system \<and> list_all (\<lambda>m. \<not> is_system m) rest \<and> ready None rest \<and>
    (trim_space current = [] \<or> (rest \<noteq> [] \<and> is_user (last rest) \<and> msg_content (last rest) = current))"
proof -
  define user where "user = (mk_message ''user'' current)\<lparr>msg_media := media\<rparr>"
  define rest where "rest = sanitize_history history @ (if trim_space current \<noteq> [] then [user] else [])"
  have "ready None (sanitize_history history)"
    by (simp add: sanitize_history_passes sanitize_pass1_keep pass2_ready keep_idem)
  then have "ready None rest"
    using ready_snoc [of None "sanitize_history history" user] user_plain [of user]
    by (simp add: rest_def user_def)
  moreover have "list_all (\<lambda>m. \<not> is_system m) rest"
    using ready_no_system [OF \<open>ready None rest\<close>] by (simp add: list_all_iff)
  moreover have "trim_space current = [] \<or> (rest \<noteq> [] \<and> is_user (last rest) \<and> msg_content (last rest) = current)"
    by (simp add: rest_def user_def)
  moreover have "\<exists>system. build_messages static dynamic history summary current media = system # rest \<and>
      is_system system"
    unfolding build_messages_def Let_def rest_def user_def by (intro exI conjI, rule refl) (simp add: is_system_def)
  ultimately show ?thesis by blast
qed

text \<open>
  Every request starts with exactly one system message, and what follows is a history a strict
  provider accepts that ends with the user's message unless that is blank: whatever the session,
  the summary and the message are.
\<close>

theorem build_messages_request:
  "\<exists>system rest. build_messages static dynamic history summary current media = system # rest \<and>
    is_system system \<and> list_all (\<lambda>m. \<not> is_system m) rest \<and> ready None rest \<and>
    (trim_space current = [] \<or> (rest \<noteq> [] \<and> is_user (last rest) \<and> msg_content (last rest) = current))"
  by (rule build_messages_parts)

end
