(* ===== verification/Agent_Context.thy ===== *)
theory Agent_Context
  imports Session_Manager Jsonl_Store History "HOL-Library.Signed_Division"
begin

text \<open>
  How the agent keeps a conversation within the context window, \<open>pkg/agent/loop.go\<close>: emergency
  compression (\<open>forceCompression\<close>) and summarization (\<open>maybeSummarize\<close>, \<open>summarizeSession\<close>,
  \<open>summarizeBatch\<close>). The operations work on the session interface; the provider is a parameter
  \<open>chat n prompt\<close>, the answer to the \<open>n\<close>-th call. Sums of Go ints use truncated division \<open>sdiv\<close>.
\<close>

section \<open>Token estimate\<close>

definition estimate_tokens :: "message list \<Rightarrow> int" where
  "estimate_tokens ms = (int (sum_list (map (\<lambda>m. rune_count (msg_content m)) ms)) * 2) sdiv 5"

section \<open>Emergency compression\<close>

definition compression_note :: "nat \<Rightarrow> string" where
  "compression_note n = [CHR 0x0A, CHR 0x0A] @ ''[System Note: Emergency compression dropped '' @ itoa (int n) @
     '' oldest messages due to context limit]''"

text \<open>The new history, \<open>None\<close> where the code returns without touching the session.\<close>

definition compress_history :: "message list \<Rightarrow> message list option" where
  "compress_history history =
    (if length history \<le> 4 then None
     else let conversation = butlast (tl history) in
       if conversation = [] then None
       else let mid = length conversation div 2;
                kept = drop mid conversation;
                first = (hd history)\<lparr>msg_content := msg_content (hd history) @ compression_note mid\<rparr>
            in Some (first # kept @ [last history]))"

definition force_compression :: "'s session_ops \<Rightarrow> 's \<Rightarrow> string \<Rightarrow> 's" where
  "force_compression ops s key =
    (case compress_history (so_history ops s key) of
       None \<Rightarrow> s
     | Some h \<Rightarrow> so_save ops (so_set_history ops s key h) key)"

section \<open>Splitting a conversation at a user message\<close>

fun search_back :: "message list \<Rightarrow> nat \<Rightarrow> nat" where
  "search_back ms 0 = 0"
| "search_back ms (Suc n) = (if is_user (ms ! Suc n) then Suc n else search_back ms n)"

definition search_forward :: "message list \<Rightarrow> nat \<Rightarrow> nat" where
  "search_forward ms mid = mid + length (takeWhile (\<lambda>m. \<not> is_user m) (drop mid ms))"

text \<open>\<open>None\<close> is the index panic, when \<open>mid\<close> is not an index of the list.\<close>

definition find_nearest_user_message :: "message list \<Rightarrow> nat \<Rightarrow> nat option" where
  "find_nearest_user_message ms mid =
    (if length ms \<le> mid then None
     else let b = search_back ms mid in
       if is_user (ms ! b) then Some b
       else let f = search_forward ms mid in
         if f < length ms then Some f else Some mid)"

section \<open>Calling the model\<close>

text \<open>The answer of a provider: an error, or a response that may be a nil pointer.\<close>

type_synonym llm_result = "(string, llm_response option) go_result"

definition usable :: "llm_result \<Rightarrow> bool" where
  "usable r = (case r of Err e \<Rightarrow> False | Ok None \<Rightarrow> False | Ok (Some resp) \<Rightarrow> lr_content resp \<noteq> [])"

fun retry_llm_call :: "(nat \<Rightarrow> string \<Rightarrow> llm_result) \<Rightarrow> nat \<Rightarrow> string \<Rightarrow> nat \<Rightarrow> llm_result \<Rightarrow> llm_result \<times> nat" where
  "retry_llm_call chat n prompt 0 prev = (prev, n)"
| "retry_llm_call chat n prompt (Suc left) prev =
    (let r = chat n prompt in
     if usable r then (r, Suc n) else retry_llm_call chat (Suc n) prompt left r)"

section \<open>Summaries\<close>

definition summary_line :: "message \<Rightarrow> string" where
  "summary_line m = msg_role m @ '': '' @ msg_content m @ [CHR 0x0A]"

definition batch_prompt :: "message list \<Rightarrow> string \<Rightarrow> string" where
  "batch_prompt batch existing =
    ''Provide a concise summary of this conversation segment, preserving core context and key points.'' @ [CHR 0x0A] @
    (if existing \<noteq> [] then ''Existing context: '' @ existing @ [CHR 0x0A] else []) @
    [CHR 0x0A] @ ''CONVERSATION:'' @ [CHR 0x0A] @ concat (map summary_line batch)"

definition fallback_part :: "message \<Rightarrow> string" where
  "fallback_part m =
    (let rs = runes (trim_space (msg_content m)) in
     if rs = [] then msg_role m @ '': ''
     else let keep = min (max (length rs * 10 div 100) 200) (length rs) in
       msg_role m @ '': '' @ of_runes (take keep rs) @ (if keep < length rs then ''...'' else []))"

text \<open>The summary of a batch and the number of provider calls made so far; \<open>None\<close> is the nil dereference
  of a provider that answers neither a response nor an error.\<close>

definition summarize_batch ::
  "(nat \<Rightarrow> string \<Rightarrow> llm_result) \<Rightarrow> nat \<Rightarrow> message list \<Rightarrow> string \<Rightarrow> string option \<times> nat" where
  "summarize_batch chat n batch existing =
    (case retry_llm_call chat n (batch_prompt batch existing) 3 (Ok None) of
       (Ok None, n') \<Rightarrow> (None, n')
     | (Ok (Some resp), n') \<Rightarrow>
         (if lr_content resp \<noteq> [] then (Some (trim_space (lr_content resp)), n')
          else (Some (''Conversation summary: '' @ join '' | '' (map fallback_part batch)), n'))
     | (Err e, n') \<Rightarrow> (Some (''Conversation summary: '' @ join '' | '' (map fallback_part batch)), n'))"

definition merge_prompt :: "string \<Rightarrow> string \<Rightarrow> string" where
  "merge_prompt s1 s2 = ''Merge these two conversation summaries into one cohesive summary:'' @
     [CHR 0x0A, CHR 0x0A] @ ''1: '' @ s1 @ [CHR 0x0A, CHR 0x0A] @ ''2: '' @ s2"

definition omitted_note :: string where
  "omitted_note = CHR 0x0A # ''[Note: Some oversized messages were omitted from this summary for efficiency.]''"

definition summarizable :: "message \<Rightarrow> bool" where
  "summarizable m \<longleftrightarrow> is_user m \<or> is_assistant m"

definition oversized :: "int \<Rightarrow> message \<Rightarrow> bool" where
  "oversized window m \<longleftrightarrow> int (length (msg_content m) div 2) > window sdiv 2"

definition valid_messages :: "int \<Rightarrow> message list \<Rightarrow> message list" where
  "valid_messages window ms = filter (\<lambda>m. summarizable m \<and> \<not> oversized window m) ms"

definition some_omitted :: "int \<Rightarrow> message list \<Rightarrow> bool" where
  "some_omitted window ms \<longleftrightarrow> list_ex (\<lambda>m. summarizable m \<and> oversized window m) ms"

text \<open>What a summarization comes to: the code panics, leaves the session alone, or commits a summary.\<close>

datatype summary_outcome = Sum_Panic | Sum_Skip | Sum_Commit string

definition final_summary ::
  "(nat \<Rightarrow> string \<Rightarrow> llm_result) \<Rightarrow> nat \<Rightarrow> message list \<Rightarrow> string \<Rightarrow> string option" where
  "final_summary chat n valid summary =
    (if length valid > 10 then
       (case find_nearest_user_message valid (length valid div 2) of
          None \<Rightarrow> None
        | Some mid \<Rightarrow>
          (case summarize_batch chat n (take mid valid) [] of
             (None, n1) \<Rightarrow> None
           | (Some s1, n1) \<Rightarrow>
             (case summarize_batch chat n1 (drop mid valid) [] of
                (None, n2) \<Rightarrow> None
              | (Some s2, n2) \<Rightarrow>
                (case retry_llm_call chat n2 (merge_prompt s1 s2) 3 (Ok None) of
                   (Ok None, n3) \<Rightarrow> None
                 | (Ok (Some resp), n3) \<Rightarrow>
                     (if lr_content resp \<noteq> [] then Some (lr_content resp) else Some (s1 @ '' '' @ s2))
                 | (Err e, n3) \<Rightarrow> Some (s1 @ '' '' @ s2)))))
     else fst (summarize_batch chat n valid summary))"

definition summarize_decide ::
  "(nat \<Rightarrow> string \<Rightarrow> llm_result) \<Rightarrow> int \<Rightarrow> message list \<Rightarrow> string \<Rightarrow> summary_outcome" where
  "summarize_decide chat window history summary =
    (if length history \<le> 4 then Sum_Skip
     else let to_summarize = take (length history - 4) history;
              valid = valid_messages window to_summarize
          in if valid = [] then Sum_Skip
             else (case final_summary chat 0 valid summary of
                 None \<Rightarrow> Sum_Panic
               | Some t0 \<Rightarrow>
                  (let t = (if some_omitted window to_summarize \<and> t0 \<noteq> [] then t0 @ omitted_note else t0)
                   in if t \<noteq> [] then Sum_Commit t else Sum_Skip)))"

definition summarize_commit :: "'s session_ops \<Rightarrow> 's \<Rightarrow> string \<Rightarrow> summary_outcome \<Rightarrow> 's" where
  "summarize_commit ops s key out = (case out of
     Sum_Commit t \<Rightarrow> so_save ops (so_truncate ops (so_set_summary ops s key t) key 4) key
   | _ \<Rightarrow> s)"

text \<open>\<open>summarizeSession\<close> when nothing else writes to the session meanwhile.\<close>

definition summarize_session ::
  "'s session_ops \<Rightarrow> (nat \<Rightarrow> string \<Rightarrow> llm_result) \<Rightarrow> int \<Rightarrow> 's \<Rightarrow> string \<Rightarrow> 's" where
  "summarize_session ops chat window s key =
    summarize_commit ops s key (summarize_decide chat window (so_history ops s key) (so_summary ops s key))"

section \<open>When to summarize\<close>

record context_limits =
  cl_window :: int
  cl_message_threshold :: int
  cl_token_percent :: int

definition over_threshold :: "context_limits \<Rightarrow> message list \<Rightarrow> bool" where
  "over_threshold lims h \<longleftrightarrow>
     int (length h) > cl_message_threshold lims \<or>
     estimate_tokens h > (cl_window lims * cl_token_percent lims) sdiv 100"

text \<open>\<open>maybeSummarize\<close>: the set of running summarizations, and whether a goroutine is started.\<close>

definition maybe_summarize ::
  "'s session_ops \<Rightarrow> context_limits \<Rightarrow> 's \<Rightarrow> string \<Rightarrow> string \<Rightarrow> string set \<Rightarrow> string set \<times> bool" where
  "maybe_summarize ops lims s agent key summarizing =
    (if over_threshold lims (so_history ops s key) then
       (let summarize_key = agent @ '':'' @ key in
        if summarize_key \<in> summarizing then (summarizing, False)
        else (insert summarize_key summarizing, True))
     else (summarizing, False))"

section \<open>Compression\<close>

lemma compress_length:
  "compress_history h = Some h' \<Longrightarrow> length h' = 2 + (length h - 2 - (length h - 2) div 2) \<and> length h' < length h"
  by (auto simp: compress_history_def Let_def split: if_splits)

lemma compress_None: "compress_history h = None \<longleftrightarrow> length h \<le> 4"
  by (cases h) (auto simp: compress_history_def Let_def dest: arg_cong [where f = length])

lemma compress_suffix:
  assumes "compress_history h = Some h'"
  shows "suffix (tl h') (tl h) \<and> last h' = last h \<and> hd h' = (hd h)\<lparr>msg_content := msg_content (hd h') \<rparr> \<and>
    prefix (msg_content (hd h)) (msg_content (hd h'))"
proof -
  obtain a b where h: "h = a # b" "b \<noteq> []" using assms
    by (cases h) (auto simp: compress_history_def Let_def split: if_splits)
  have "b = butlast b @ [last b]" using h(2) by simp
  then have "suffix (drop n (butlast b) @ [last b]) b" for n
    by (metis append.assoc append_take_drop_id suffix_def)
  then show ?thesis using assms h
    by (auto simp: compress_history_def Let_def split: if_splits)
qed

lemma compress_rest_in: "compress_history h = Some h' \<Longrightarrow> set (tl h') \<subseteq> set h"
  using compress_suffix [of h h'] by (meson dual_order.trans set_mono_suffix suffix_tl)

lemma compress_nonempty: "compress_history h = Some h' \<Longrightarrow> h' \<noteq> []"
  by (auto simp: compress_history_def Let_def split: if_splits)

section \<open>The operations on any session store\<close>

context session_store
begin

lemma history_force_compression:
  assumes "inv s" "known s k"
    and "\<And>h'. compress_history (so_history ops s k) = Some h' \<Longrightarrow> good (hd h')"
  shows "inv (force_compression ops s k) \<and>
    so_history ops (force_compression ops s k) k =
      (case compress_history (so_history ops s k) of None \<Rightarrow> so_history ops s k | Some h' \<Rightarrow> view (hd h') # tl h')"
proof (cases "compress_history (so_history ops s k)")
  case (Some h')
  have h: "h' = hd h' # tl h'" using compress_nonempty [OF Some] by simp
  have r: "map view (tl h') = tl h'" "list_all good (tl h')"
    using map_view_history [OF assms(1) compress_rest_in [OF Some]] by auto
  have "list_all good h'" using r(2) assms(3) [OF Some] h by (metis list.pred_inject(2))
  moreover have "map view h' = view (hd h') # tl h'" using r(1) h by (metis list.simps(9))
  ultimately show ?thesis
    using assms(1,2) by (simp add: force_compression_def Some history_save history_set inv_save inv_set_history)
qed (use assms(1) in \<open>simp add: force_compression_def\<close>)

lemma history_commit:
  assumes "inv s" "known s k"
  shows "so_history ops (summarize_commit ops s k out) k =
      (case out of Sum_Commit t \<Rightarrow> last_n 4 (so_history ops s k) | _ \<Rightarrow> so_history ops s k) \<and>
    so_summary ops (summarize_commit ops s k out) k =
      (case out of Sum_Commit t \<Rightarrow> t | _ \<Rightarrow> so_summary ops s k)"
  using assms
  by (simp add: summarize_commit_def history_save history_truncate history_set_summary summary_save
      summary_truncate summary_set inv_set_summary inv_truncate known_set_summary split: summary_outcome.split)

text \<open>Messages saved between the decision and the commit.\<close>

lemma history_race:
  assumes "inv s" "list_all good ms" "ms \<noteq> []"
  shows "so_history ops (summarize_commit ops (foldl (\<lambda>s m. so_add ops s k m) s ms) k (Sum_Commit t)) k =
    last_n 4 (so_history ops s k @ map view ms)"
proof -
  have "known (foldl (\<lambda>s m. so_add ops s k m) s ms) k"
    using assms(3) by (cases ms rule: rev_cases) (simp_all add: known_add)
  then show ?thesis using history_commit foldl_add [OF assms(1,2)] by simp
qed

end

section \<open>Properties of compression\<close>

text \<open>
  Emergency compression on the JSONL store leaves a session of at most four messages alone and
  makes any other strictly shorter: the last message survives, the messages behind the first are a
  suffix of the old ones, and the first keeps its text, with the note appended.
\<close>

theorem force_compression_effect:
  fixes now :: int
  assumes "jsonl_inv enc dec fs"
    and "\<And>h'. compress_history (backend_history dec fs k) = Some h' \<Longrightarrow> codec_ok enc dec (hd h')"
  defines "h \<equiv> backend_history dec fs k"
    and "h' \<equiv> backend_history dec (force_compression (jsonl_ops enc dec now) fs k) k"
  shows "(length h \<le> 4 \<longrightarrow> h' = h) \<and>
    (length h > 4 \<longrightarrow> length h' < length h \<and> last h' = last h \<and> suffix (tl h') (tl h) \<and>
      prefix (msg_content (hd h)) (msg_content (hd h')))"
proof -
  have h': "h' = (case compress_history h of None \<Rightarrow> h | Some g \<Rightarrow> json_view (hd g) # tl g)"
    using jsonl.history_force_compression [where enc = enc and dec = dec and now = now and s = fs and k = k] assms by (simp split: option.splits)
  show ?thesis
  proof (cases "compress_history h")
    case None
    then show ?thesis using h' compress_None [of h] by simp
  next
    case (Some g)
    then have l: "length h > 4" using compress_None [of h] by (metis linorder_not_le option.distinct(1))
    have g: "g \<noteq> []" "tl g \<noteq> []" using compress_length [OF Some] l by (cases g; auto)+
    have v: "json_view m = m" if "m \<in> set h" for m
      using jsonl.history_stored [where enc = enc and dec = dec and s = fs and m = m and k = k] assms(1) that by (simp add: h_def)
    have "msg_content (json_view m) = msg_content m" for m by (simp add: json_view_def)
    then show ?thesis
      using h' Some l compress_length [OF Some] compress_suffix [OF Some] g by (simp add: last_tl)
  qed
qed

lemma demo_compressed:
  "compress_history demo_msgs = Some
    [mk_message ''user'' (CHR ''a'' # compression_note 1), mk_message ''user'' ''c'', mk_message ''user'' ''d'',
     mk_message ''user'' ''e'']"
  by (simp add: compress_history_def demo_msgs_def mk_message_def Let_def)

lemma demo_compressed_codec: "codec_ok demo_enc demo_dec (mk_message ''user'' (CHR ''a'' # compression_note 1))"
proof -
  have "json_view (mk_message r c) = mk_message r c" for r c by (simp add: json_view_def mk_message_def)
  then have "encodes demo_enc demo_dec (mk_message ''user'' (CHR ''a'' # compression_note 1))"
    unfolding encodes_def by (simp only:) code_simp
  then show ?thesis by (rule demo_codec_view [rotated]) simp
qed

theorem force_compression_effect_witness:
  "length (backend_history demo_dec
     (force_compression (jsonl_ops demo_enc demo_dec 3) demo_full ''k'') ''k'') < 5"
proof -
  have "codec_ok demo_enc demo_dec (hd h')" if "compress_history (backend_history demo_dec demo_full ''k'') = Some h'" for h'
    using that demo_compressed_codec by (auto simp: demo_full_history demo_compressed)
  then show ?thesis
    using force_compression_effect [OF demo_full_inv, of "''k''" 3] by (simp add: demo_full_history demo_msgs_def)
qed

section \<open>Properties of summarization\<close>

lemma search_back_le: "search_back ms n \<le> n"
  by (induction n) auto

lemma search_back_user: "is_user (ms ! search_back ms n) \<or> (\<forall>i\<le>n. \<not> is_user (ms ! i))"
  by (induction n) (auto simp: le_Suc_eq)

lemma search_forward_user:
  assumes "search_forward ms mid < length ms"
  shows "is_user (ms ! search_forward ms mid)"
proof -
  have "length (takeWhile (\<lambda>m. \<not> is_user m) (drop mid ms)) < length (drop mid ms)"
    using assms by (auto simp: search_forward_def)
  then show ?thesis using nth_length_takeWhile by (fastforce simp: search_forward_def)
qed

lemma search_forward_none:
  assumes "mid < length ms" "\<not> search_forward ms mid < length ms" "mid \<le> i" "i < length ms"
  shows "\<not> is_user (ms ! i)"
proof
  assume u: "is_user (ms ! i)"
  let ?t = "takeWhile (\<lambda>m. \<not> is_user m) (drop mid ms)"
  have "i - mid < length ?t" using assms(2-4) by (simp add: search_forward_def)
  then have "?t ! (i - mid) \<in> set ?t" by (rule nth_mem)
  moreover have "?t ! (i - mid) = ms ! i"
    using takeWhile_nth [OF \<open>i - mid < length ?t\<close>] assms(3,4) by simp
  ultimately show False using u by (metis set_takeWhileD)
qed

text \<open>
  The split point of a long conversation is always an index of it, so the code never panics,
  and it is a user message whenever the conversation has one.
\<close>

theorem nearest_user_message:
  assumes "mid < length ms"
  shows "\<exists>i. find_nearest_user_message ms mid = Some i \<and> i < length ms \<and>
    ((\<exists>m\<in>set ms. is_user m) \<longrightarrow> is_user (ms ! i))"
proof (cases "is_user (ms ! search_back ms mid)")
  case True
  then show ?thesis using assms search_back_le [of ms mid]
    by (auto simp: find_nearest_user_message_def Let_def)
next
  case nb: False
  show ?thesis
  proof (cases "search_forward ms mid < length ms")
    case True
    then show ?thesis using assms nb search_forward_user by (auto simp: find_nearest_user_message_def Let_def)
  next
    case False
    have "\<not> is_user (ms ! i)" if "i < length ms" for i
      using search_back_user [of ms mid] nb search_forward_none [OF assms False _ that] by (cases "i \<le> mid") auto
    then have "\<not> (\<exists>m\<in>set ms. is_user m)" by (auto simp: in_set_conv_nth)
    then show ?thesis using assms nb False by (auto simp: find_nearest_user_message_def Let_def)
  qed
qed

theorem nearest_user_message_witness:
  "find_nearest_user_message (map (\<lambda>r. mk_message r []) [''tool'', ''assistant'', ''user'']) 1 = Some 2"
proof -
  obtain i where "find_nearest_user_message (map (\<lambda>r. mk_message r []) [''tool'', ''assistant'', ''user'']) 1 = Some i"
      "i < 3" "is_user (map (\<lambda>r. mk_message r []) [''tool'', ''assistant'', ''user''] ! i)"
    using nearest_user_message [of 1 "map (\<lambda>r. mk_message r []) [''tool'', ''assistant'', ''user'']"]
    by (auto simp: is_user_def)
  then show ?thesis by (auto simp: less_Suc_eq numeral_eq_Suc is_user_def)
qed

lemma decide_commit:
  "summarize_decide chat window h t = Sum_Commit t' \<Longrightarrow> t' \<noteq> [] \<and> length h > 4"
  by (auto simp: summarize_decide_def Let_def split: if_splits option.splits)

text \<open>
  A summarization on the JSONL store either leaves the session as it was or replaces the summary by
  a non-empty one and keeps exactly the last four messages.
\<close>

theorem summarize_session_effect:
  fixes now window :: int and chat :: "nat \<Rightarrow> string \<Rightarrow> llm_result" and k :: string
  assumes "jsonl_inv enc dec fs"
  defines "fs' \<equiv> summarize_session (jsonl_ops enc dec now) chat window fs k"
  shows "(backend_history dec fs' k = backend_history dec fs k \<and> js_get_summary fs' k = js_get_summary fs k) \<or>
    (length (backend_history dec fs k) > 4 \<and> js_get_summary fs' k \<noteq> [] \<and>
     backend_history dec fs' k = last_n 4 (backend_history dec fs k))"
  using jsonl.history_commit [OF assms(1), where k = k and now = now and
      out = "summarize_decide chat window (backend_history dec fs k) (js_get_summary fs k)"]
    decide_commit [of chat window "backend_history dec fs k" "js_get_summary fs k"]
  by (auto simp: fs'_def summarize_session_def split: summary_outcome.splits)

definition demo_chat :: "nat \<Rightarrow> string \<Rightarrow> llm_result" where
  "demo_chat n prompt = Ok (Some \<lparr>lr_content = ''sum'', lr_reasoning_content = [], lr_tool_calls = [],
     lr_finish_reason = ''stop'', lr_reasoning = []\<rparr>)"

lemma demo_summary:
  "js_get_summary (summarize_session (jsonl_ops demo_enc demo_dec 3) demo_chat 4096 demo_full ''k'') ''k'' = ''sum''"
  by code_simp

theorem summarize_session_effect_witness:
  "backend_history demo_dec
     (summarize_session (jsonl_ops demo_enc demo_dec 3) demo_chat 4096 demo_full ''k'') ''k'' = tl demo_msgs"
proof -
  have "js_get_summary demo_full ''k'' = []" "last_n 4 demo_msgs = tl demo_msgs" by code_simp+
  then show ?thesis
    using summarize_session_effect [OF demo_full_inv, of 3 demo_chat 4096 "''k''"] demo_summary
    by (simp add: demo_full_history)
qed

text \<open>
  The summary so far is only given to the model when the conversation is short: with more than ten
  messages to summarize the result does not depend on it, so what it held is lost.
\<close>

theorem long_summary_ignores_previous:
  "length (valid_messages window (take (length h - 4) h)) > 10 \<Longrightarrow>
    summarize_decide chat window h old = summarize_decide chat window h []"
  by (simp add: summarize_decide_def final_summary_def Let_def)

section \<open>Summarization runs beside the conversation\<close>

text \<open>
  The goroutine of \<open>maybeSummarize\<close> as a state machine: it reads the session, asks the model, and commits
  later, while the agent keeps saving messages. A job is its key in the map \<open>summarizing\<close>, its session
  and what it decided from the session as it was when it started.
\<close>

record 's sum_machine =
  su_store :: 's
  su_busy :: "string set"
  su_jobs :: "(string \<times> string \<times> summary_outcome) list"

inductive sum_step ::
  "'s session_ops \<Rightarrow> (nat \<Rightarrow> string \<Rightarrow> llm_result) \<Rightarrow> context_limits \<Rightarrow> string \<Rightarrow> 's sum_machine \<Rightarrow> 's sum_machine \<Rightarrow> bool"
  for ops chat lims agent where
  sum_save: "sum_step ops chat lims agent m (m\<lparr>su_store := so_add ops (su_store m) k x\<rparr>)"
| sum_start: "maybe_summarize ops lims (su_store m) agent k (su_busy m) = (busy', True) \<Longrightarrow>
    sum_step ops chat lims agent m (m\<lparr>su_busy := busy', su_jobs := su_jobs m @ [(agent @ '':'' @ k, k,
      summarize_decide chat (cl_window lims) (so_history ops (su_store m) k) (so_summary ops (su_store m) k))]\<rparr>)"
| sum_finish: "su_jobs m = js1 @ (sk, k, out) # js2 \<Longrightarrow>
    sum_step ops chat lims agent m (m\<lparr>su_store := summarize_commit ops (su_store m) k out,
      su_busy := su_busy m - {sk}, su_jobs := js1 @ js2\<rparr>)"

inductive_cases sum_stepE: "sum_step ops chat lims agent m m'"

definition jobs_exclusive :: "'s sum_machine \<Rightarrow> bool" where
  "jobs_exclusive m \<longleftrightarrow> distinct (map fst (su_jobs m)) \<and> su_busy m = set (map fst (su_jobs m))"

lemma jobs_exclusive_step: "sum_step ops chat lims agent m m' \<Longrightarrow> jobs_exclusive m \<Longrightarrow> jobs_exclusive m'"
  by (elim sum_stepE; clarsimp simp: jobs_exclusive_def maybe_summarize_def Let_def simp del: split_paired_Ex
      split: if_splits)

text \<open>
  However summarizations and conversations interleave, no two summarizations of one agent's
  session ever run at the same time, and the busy set names exactly the running ones.
\<close>

theorem summarizations_exclusive:
  assumes "(sum_step ops chat lims agent)\<^sup>*\<^sup>* m m'" "su_jobs m = []" "su_busy m = {}"
  shows "distinct (map fst (su_jobs m')) \<and> set (map fst (su_jobs m')) = su_busy m'"
proof -
  have "jobs_exclusive m" using assms(2,3) by (simp add: jobs_exclusive_def)
  with assms(1) have "jobs_exclusive m'"
    by (induction rule: rtranclp_induct) (auto intro: jobs_exclusive_step)
  then show ?thesis by (simp add: jobs_exclusive_def)
qed

definition demo_limits :: context_limits where
  "demo_limits = \<lparr>cl_window = 4096, cl_message_threshold = 4, cl_token_percent = 75\<rparr>"

definition demo_machine :: "jsonl_fs sum_machine" where
  "demo_machine = \<lparr>su_store = demo_full, su_busy = {}, su_jobs = []\<rparr>"

definition demo_started :: "jsonl_fs sum_machine" where
  "demo_started = \<lparr>su_store = demo_full, su_busy = {''main:k''},
     su_jobs = [(''main:k'', ''k'', summarize_decide demo_chat 4096 demo_msgs [])]\<rparr>"

lemma demo_start:
  "sum_step (jsonl_ops demo_enc demo_dec 3) demo_chat demo_limits ''main'' demo_machine demo_started"
proof -
  let ?ops = "jsonl_ops demo_enc demo_dec 3"
  have "maybe_summarize ?ops demo_limits (su_store demo_machine) ''main'' ''k'' (su_busy demo_machine) =
      ({''main:k''}, True)"
    by (simp add: maybe_summarize_def over_threshold_def demo_full_history demo_limits_def demo_msgs_def
        demo_machine_def)
  moreover have "js_get_summary demo_full ''k'' = []" by code_simp
  ultimately show ?thesis
    using sum_start [of ?ops demo_limits demo_machine "''main''" "''k''" "{''main:k''}" demo_chat]
    by (simp add: demo_machine_def demo_started_def demo_full_history demo_limits_def)
qed

theorem summarizations_exclusive_witness:
  "set (map fst (su_jobs demo_started)) = {''main:k''}"
proof -
  have "(sum_step (jsonl_ops demo_enc demo_dec 3) demo_chat demo_limits ''main'')\<^sup>*\<^sup>* demo_machine demo_started"
    using demo_start by (rule r_into_rtranclp)
  moreover have "su_jobs demo_machine = []" "su_busy demo_machine = {}" by (simp_all add: demo_machine_def)
  moreover have "su_busy demo_started = {''main:k''}" by (simp add: demo_started_def)
  ultimately show ?thesis using summarizations_exclusive by metis
qed

text \<open>
  What the machine does lose: messages saved while a summary is being made are truncated with the
  rest, although the summary was decided without them. With five such messages only the last four stay.
\<close>

theorem summarization_drops_new_messages:
  "length ms \<ge> 4 \<Longrightarrow>
    sm_get_history (summarize_commit (manager_ops strip now)
      (foldl (\<lambda>s m. sm_add_full_message now s k m) s ms) k (Sum_Commit t)) k = last_n 4 ms"
  using manager.history_race [where s = s and ms = ms and strip = strip and now = now and k = k and t = t]
  by (cases "ms = []") (auto simp: manager_ops_def last_n_def list_all_iff)

end
