(* ===== verification/Tool_Registry.thy ===== *)
theory Tool_Registry
  imports Messages Prelude "HOL-Library.AList" "HOL-Library.Char_ord" "HOL-Library.List_Lexorder" "HOL-Library.Word"
begin

text \<open>
  Tools and their registry, \<open>pkg/tools/registry.go\<close>, \<open>result.go\<close> and \<open>base.go\<close>. The Go map of tools is an association list
  with distinct keys (its order is the arbitrary iteration order of the map); strings are compared
  bytewise. A tool is the record of its interface methods; the result of an execution is a function of
  which execution it is, the arguments, and the channel and chat of the request context.
\<close>

section \<open>Results\<close>

record tool_result =
  tr_for_llm :: string
  tr_for_user :: string
  tr_silent :: bool
  tr_is_error :: bool
  tr_stop_on_error :: bool
  tr_async :: bool
  tr_err :: "string option"
  tr_media :: "string list"

definition new_tool_result :: "string \<Rightarrow> tool_result" where
  "new_tool_result t = \<lparr>tr_for_llm = t, tr_for_user = [], tr_silent = False, tr_is_error = False,
     tr_stop_on_error = False, tr_async = False, tr_err = None, tr_media = []\<rparr>"

definition silent_result :: "string \<Rightarrow> tool_result" where
  "silent_result t = (new_tool_result t)\<lparr>tr_silent := True\<rparr>"

definition async_result :: "string \<Rightarrow> tool_result" where
  "async_result t = (new_tool_result t)\<lparr>tr_async := True\<rparr>"

definition error_result :: "string \<Rightarrow> tool_result" where
  "error_result t = (new_tool_result t)\<lparr>tr_is_error := True\<rparr>"

definition fatal_error_result :: "string \<Rightarrow> tool_result" where
  "fatal_error_result t =
    (new_tool_result t)\<lparr>tr_for_user := t, tr_is_error := True, tr_stop_on_error := True\<rparr>"

definition user_result :: "string \<Rightarrow> tool_result" where
  "user_result t = (new_tool_result t)\<lparr>tr_for_user := t\<rparr>"

definition media_result :: "string \<Rightarrow> string list \<Rightarrow> tool_result" where
  "media_result t refs = (new_tool_result t)\<lparr>tr_media := refs\<rparr>"

definition with_error :: "tool_result \<Rightarrow> string \<Rightarrow> tool_result" where
  "with_error r e = r\<lparr>tr_err := Some e\<rparr>"

section \<open>Tools\<close>

text \<open>An execution: the iteration of the loop that makes it, and its place among the calls of the answer.\<close>

type_synonym exec_id = "nat \<times> nat"

record tool =
  tl_name :: string
  tl_description :: string
  tl_parameters :: go_args
  tl_execute :: "exec_id \<Rightarrow> go_args \<Rightarrow> string \<Rightarrow> string \<Rightarrow> tool_result"
  tl_execute_async :: "(exec_id \<Rightarrow> go_args \<Rightarrow> string \<Rightarrow> string \<Rightarrow> tool_result) option"

definition tool_to_schema :: "tool \<Rightarrow> go_args" where
  "tool_to_schema t = [(''type'', Any_Str ''function''), (''function'', Any_Map
     [(''name'', Any_Str (tl_name t)), (''description'', Any_Str (tl_description t)),
      (''parameters'', Any_Map (tl_parameters t))])]"

record tool_entry =
  te_tool :: tool
  te_core :: bool
  te_ttl :: int

record tool_registry =
  tr_tools :: "(string \<times> tool_entry) list"
  tr_version :: "64 word"

definition new_tool_registry :: tool_registry where
  "new_tool_registry = \<lparr>tr_tools = [], tr_version = 0\<rparr>"

section \<open>Operations\<close>

definition register :: "tool_registry \<Rightarrow> tool \<Rightarrow> tool_registry" where
  "register r t = r\<lparr>tr_tools := AList.update (tl_name t) \<lparr>te_tool = t, te_core = True, te_ttl = 0\<rparr> (tr_tools r),
     tr_version := tr_version r + 1\<rparr>"

definition register_hidden :: "tool_registry \<Rightarrow> tool \<Rightarrow> tool_registry" where
  "register_hidden r t =
    r\<lparr>tr_tools := AList.update (tl_name t) \<lparr>te_tool = t, te_core = False, te_ttl = 0\<rparr> (tr_tools r),
      tr_version := tr_version r + 1\<rparr>"

definition promote_one :: "int \<Rightarrow> (string \<times> tool_entry) list \<Rightarrow> string \<Rightarrow> (string \<times> tool_entry) list" where
  "promote_one ttl ts n = (case map_of ts n of
     None \<Rightarrow> ts
   | Some e \<Rightarrow> (if te_core e then ts else AList.update n (e\<lparr>te_ttl := ttl\<rparr>) ts))"

definition promote_tools :: "tool_registry \<Rightarrow> string list \<Rightarrow> int \<Rightarrow> tool_registry" where
  "promote_tools r names ttl = r\<lparr>tr_tools := foldl (promote_one ttl) (tr_tools r) names\<rparr>"

definition tick_entry :: "tool_entry \<Rightarrow> tool_entry" where
  "tick_entry e = (if \<not> te_core e \<and> te_ttl e > 0 then e\<lparr>te_ttl := te_ttl e - 1\<rparr> else e)"

definition tick_ttl :: "tool_registry \<Rightarrow> tool_registry" where
  "tick_ttl r = r\<lparr>tr_tools := map (\<lambda>(n, e). (n, tick_entry e)) (tr_tools r)\<rparr>"

definition expired :: "tool_entry \<Rightarrow> bool" where
  "expired e \<longleftrightarrow> \<not> te_core e \<and> te_ttl e \<le> 0"

definition get_tool :: "tool_registry \<Rightarrow> string \<Rightarrow> tool option" where
  "get_tool r n = (case map_of (tr_tools r) n of
     None \<Rightarrow> None
   | Some e \<Rightarrow> (if expired e then None else Some (te_tool e)))"

definition snapshot_hidden_tools :: "tool_registry \<Rightarrow> (string \<times> string) list \<times> 64 word" where
  "snapshot_hidden_tools r =
    (map (\<lambda>(n, e). (n, tl_description (te_tool e))) (filter (\<lambda>(n, e). \<not> te_core e) (tr_tools r)), tr_version r)"

definition quote_name :: "string \<Rightarrow> string" where
  "quote_name n = [CHR 0x22] @ n @ [CHR 0x22]"

text \<open>\<open>ExecuteWithContext\<close>; \<open>async\<close> says that a callback was given. The name in the
  error is printed with \<open>%q\<close>, which is plain quoting for printable names.\<close>

definition execute_with_context ::
  "exec_id \<Rightarrow> tool_registry \<Rightarrow> string \<Rightarrow> go_args \<Rightarrow> string \<Rightarrow> string \<Rightarrow> bool \<Rightarrow> tool_result" where
  "execute_with_context n r name args channel chat async =
    (case get_tool r name of
       None \<Rightarrow> with_error (error_result (''tool '' @ quote_name name @ '' not found'')) ''tool not found''
     | Some t \<Rightarrow>
        (case tl_execute_async t of
           Some f \<Rightarrow> (if async then f n args channel chat else tl_execute t n args channel chat)
         | None \<Rightarrow> tl_execute t n args channel chat))"

definition execute_tool :: "exec_id \<Rightarrow> tool_registry \<Rightarrow> string \<Rightarrow> go_args \<Rightarrow> tool_result" where
  "execute_tool n r name args = execute_with_context n r name args [] [] False"

definition sorted_tool_names :: "tool_registry \<Rightarrow> string list" where
  "sorted_tool_names r = sort (map fst (tr_tools r))"

definition visible_entries :: "tool_registry \<Rightarrow> tool_entry list" where
  "visible_entries r = filter (\<lambda>e. \<not> expired e) (List.map_filter (map_of (tr_tools r)) (sorted_tool_names r))"

definition get_definitions :: "tool_registry \<Rightarrow> go_args list" where
  "get_definitions r = map (\<lambda>e. tool_to_schema (te_tool e)) (visible_entries r)"

record tool_definition =
  td_name :: string
  td_description :: string
  td_parameters :: go_args

fun any_str :: "go_any option \<Rightarrow> string" where
  "any_str (Some (Any_Str s)) = s"
| "any_str _ = []"

fun any_map :: "go_any option \<Rightarrow> go_args" where
  "any_map (Some (Any_Map m)) = m"
| "any_map _ = []"

definition schema_to_definition :: "go_args \<Rightarrow> tool_definition option" where
  "schema_to_definition schema = (case map_of schema ''function'' of
     Some (Any_Map fn) \<Rightarrow> Some \<lparr>td_name = any_str (map_of fn ''name''),
       td_description = any_str (map_of fn ''description''), td_parameters = any_map (map_of fn ''parameters'')\<rparr>
   | _ \<Rightarrow> None)"

definition to_provider_defs :: "tool_registry \<Rightarrow> tool_definition list" where
  "to_provider_defs r = List.map_filter (\<lambda>e. schema_to_definition (tool_to_schema (te_tool e))) (visible_entries r)"

definition list_tools :: "tool_registry \<Rightarrow> string list" where "list_tools r = sorted_tool_names r"
definition count_tools :: "tool_registry \<Rightarrow> nat" where "count_tools r = length (tr_tools r)"

definition get_summaries :: "tool_registry \<Rightarrow> string list" where
  "get_summaries r = map (\<lambda>e. ''- `'' @ tl_name (te_tool e) @ ''` - '' @ tl_description (te_tool e)) (visible_entries r)"

section \<open>The invariant\<close>

definition registry_ok :: "tool_registry \<Rightarrow> bool" where
  "registry_ok r \<longleftrightarrow> distinct (map fst (tr_tools r)) \<and> (\<forall>(n, e)\<in>set (tr_tools r). tl_name (te_tool e) = n)"

lemma registry_ok_new: "registry_ok new_tool_registry"
  by (simp add: registry_ok_def new_tool_registry_def)

lemma registry_ok_alt: "registry_ok r \<longleftrightarrow> distinct (map fst (tr_tools r)) \<and>
    (\<forall>n e. map_of (tr_tools r) n = Some e \<longrightarrow> tl_name (te_tool e) = n)"
  by (auto simp: registry_ok_def dest: map_of_SomeD)

lemma registry_ok_update:
  "registry_ok r \<Longrightarrow> tl_name (te_tool e) = n \<Longrightarrow> registry_ok (r\<lparr>tr_tools := AList.update n e (tr_tools r), tr_version := v\<rparr>)"
  by (auto simp: registry_ok_alt update_conv' distinct_update split: if_splits)

lemma registry_ok_register: "registry_ok r \<Longrightarrow> registry_ok (register r t)"
  by (simp add: register_def registry_ok_update)

lemma registry_ok_register_hidden: "registry_ok r \<Longrightarrow> registry_ok (register_hidden r t)"
  by (simp add: register_hidden_def registry_ok_update)

lemma map_of_promote_one:
  "map_of (promote_one ttl ts n) m = (case map_of ts m of
     None \<Rightarrow> None
   | Some e \<Rightarrow> Some (if m = n \<and> \<not> te_core e then e\<lparr>te_ttl := ttl\<rparr> else e))"
  by (auto simp: promote_one_def update_conv' split: option.split)

lemma map_of_promote:
  "map_of (foldl (promote_one ttl) ts names) m = (case map_of ts m of
     None \<Rightarrow> None
   | Some e \<Rightarrow> Some (if m \<in> set names \<and> \<not> te_core e then e\<lparr>te_ttl := ttl\<rparr> else e))"
  by (induction names arbitrary: ts) (auto simp: map_of_promote_one split: option.split)

lemma fst_promote: "map fst (foldl (promote_one ttl) ts names) = map fst ts"
proof (induction names arbitrary: ts)
  case (Cons n names)
  have "map fst (promote_one ttl ts n) = map fst ts"
    by (auto simp: promote_one_def update_keys split: option.split dest: map_of_SomeD)
       (metis fst_conv image_eqI map_of_SomeD)
  then show ?case using Cons by simp
qed simp

lemma registry_ok_promote: "registry_ok r \<Longrightarrow> registry_ok (promote_tools r names ttl)"
  by (auto simp: registry_ok_alt promote_tools_def map_of_promote fst_promote split: option.splits if_splits)

lemma map_of_tick: "map_of (map (\<lambda>(n, e). (n, tick_entry e)) ts) m = map_option tick_entry (map_of ts m)"
  by (induction ts) auto

lemma fst_tick: "map fst (map (\<lambda>(n, e). (n, tick_entry e)) ts) = map fst ts"
  by (induction ts) auto

lemma tick_entry_simps [simp]: "te_tool (tick_entry e) = te_tool e" "te_core (tick_entry e) = te_core e"
  by (simp_all add: tick_entry_def)

lemma tick_ttl_sel:
  "tr_tools (tick_ttl r) = map (\<lambda>(n, e). (n, tick_entry e)) (tr_tools r)" "tr_version (tick_ttl r) = tr_version r"
  by (simp_all add: tick_ttl_def)

lemma registry_ok_tick: "registry_ok r \<Longrightarrow> registry_ok (tick_ttl r)"
  unfolding registry_ok_alt tick_ttl_def by (auto simp: map_of_tick fst_tick simp del: map_map)

lemmas registry_ok_ops = registry_ok_register registry_ok_register_hidden registry_ok_promote registry_ok_tick

section \<open>What the model is offered\<close>

lemma schema_definition:
  "schema_to_definition (tool_to_schema t) =
    Some \<lparr>td_name = tl_name t, td_description = tl_description t, td_parameters = tl_parameters t\<rparr>"
  by (simp add: schema_to_definition_def tool_to_schema_def)

lemma names_visible:
  assumes "registry_ok r"
  shows "map (\<lambda>e. tl_name (te_tool e)) (visible_entries r) =
    filter (\<lambda>n. get_tool r n \<noteq> None) (sorted_tool_names r)"
proof -
  have name: "map_of (tr_tools r) n = Some e \<Longrightarrow> tl_name (te_tool e) = n" for n e
    using assms by (simp add: registry_ok_alt)
  have "map (\<lambda>e. tl_name (te_tool e)) (filter (\<lambda>e. \<not> expired e) (List.map_filter (map_of (tr_tools r)) ns)) =
      filter (\<lambda>n. get_tool r n \<noteq> None) ns" for ns
    by (induction ns) (auto simp: map_filter_simps get_tool_def name split: option.split)
  then show ?thesis by (simp add: visible_entries_def)
qed

text \<open>
  The model is offered exactly the tools that can be called: the names of the provider
  definitions are those for which \<open>Get\<close> succeeds, each once, in sorted order, so the list is the same
  for every order in which the tools were registered.
\<close>

theorem offered_tools_callable:
  assumes "registry_ok r"
  shows "map td_name (to_provider_defs r) = filter (\<lambda>n. get_tool r n \<noteq> None) (sort (map fst (tr_tools r))) \<and>
    distinct (map td_name (to_provider_defs r)) \<and> sorted (map td_name (to_provider_defs r)) \<and>
    set (map td_name (to_provider_defs r)) = {n. get_tool r n \<noteq> None}"
proof -
  have "map td_name (to_provider_defs r) = map (\<lambda>e. tl_name (te_tool e)) (visible_entries r)"
    unfolding to_provider_defs_def schema_definition by (simp add: List.map_filter_def)
  then have n: "map td_name (to_provider_defs r) = filter (\<lambda>n. get_tool r n \<noteq> None) (sort (map fst (tr_tools r)))"
    using names_visible [OF assms] by (simp add: sorted_tool_names_def)
  have "get_tool r m \<noteq> None \<Longrightarrow> m \<in> fst ` set (tr_tools r)" for m
    by (auto simp: get_tool_def dom_map_of_conv_image_fst [symmetric] split: option.splits)
  then show ?thesis
    unfolding n using assms by (auto simp: registry_ok_def sorted_wrt_filter)
qed

definition demo_tool :: "string \<Rightarrow> tool" where
  "demo_tool n = \<lparr>tl_name = n, tl_description = ''a tool'', tl_parameters = [],
     tl_execute = (\<lambda>i args c h. user_result ''done''), tl_execute_async = None\<rparr>"

definition demo_registry :: tool_registry where
  "demo_registry = register_hidden (register (register new_tool_registry (demo_tool ''read'')) (demo_tool ''edit''))
     (demo_tool ''mcp'')"

lemma demo_registry_ok: "registry_ok demo_registry"
  by (simp add: demo_registry_def registry_ok_ops registry_ok_new)

theorem offered_tools_callable_witness: "map td_name (to_provider_defs demo_registry) = [''edit'', ''read'']"
proof -
  have "filter (\<lambda>n. get_tool demo_registry n \<noteq> None) (sort (map fst (tr_tools demo_registry))) = [''edit'', ''read'']"
    by code_simp
  then show ?thesis using offered_tools_callable [OF demo_registry_ok] by simp
qed

section \<open>The life of a discovered tool\<close>

lemma get_tool_tick:
  "map_of (tr_tools r) n = Some e \<Longrightarrow>
    get_tool ((tick_ttl ^^ k) r) n =
      (if \<not> te_core e \<and> te_ttl e \<le> int k then None else Some (te_tool e))"
proof (induction k arbitrary: r e)
  case (Suc k)
  have "map_of (tr_tools (tick_ttl r)) n = Some (tick_entry e)" using Suc.prems by (simp add: tick_ttl_def map_of_tick)
  from Suc.IH [OF this] show ?case by (auto simp: funpow_swap1 tick_entry_def)
qed (simp add: get_tool_def expired_def)

text \<open>
  A hidden tool promoted with a time to live of \<open>t\<close> can be called for exactly \<open>t\<close> ticks and no
  longer; core tools never expire, and promotion does not touch them.
\<close>

theorem promoted_tool_lifetime:
  assumes "map_of (tr_tools r) n = Some e" "n \<in> set names"
  shows "get_tool ((tick_ttl ^^ k) (promote_tools r names t)) n =
    (if te_core e \<or> int k < t then Some (te_tool e) else None)"
proof -
  have "map_of (tr_tools (promote_tools r names t)) n = Some (if te_core e then e else e\<lparr>te_ttl := t\<rparr>)"
    using assms by (simp add: promote_tools_def map_of_promote)
  from get_tool_tick [OF this, of k] show ?thesis by (auto split: if_splits)
qed

theorem promoted_tool_lifetime_witness:
  "get_tool ((tick_ttl ^^ 2) (promote_tools demo_registry [''mcp''] 3)) ''mcp'' \<noteq> None \<and>
   get_tool ((tick_ttl ^^ 3) (promote_tools demo_registry [''mcp''] 3)) ''mcp'' = None"
proof -
  have "map_of (tr_tools demo_registry) ''mcp'' = Some \<lparr>te_tool = demo_tool ''mcp'', te_core = False, te_ttl = 0\<rparr>"
    by (simp add: demo_registry_def register_hidden_def register_def new_tool_registry_def demo_tool_def)
  then show ?thesis
    using promoted_tool_lifetime [of demo_registry "''mcp''" _ "[''mcp'']" 2 3]
      promoted_tool_lifetime [of demo_registry "''mcp''" _ "[''mcp'']" 3 3] by simp
qed

section \<open>The version and the cached search index\<close>

datatype registry_op = Reg tool | Reg_Hidden tool | Promote "string list" int | Tick

fun apply_op :: "tool_registry \<Rightarrow> registry_op \<Rightarrow> tool_registry" where
  "apply_op r (Reg t) = register r t"
| "apply_op r (Reg_Hidden t) = register_hidden r t"
| "apply_op r (Promote ns t) = promote_tools r ns t"
| "apply_op r Tick = tick_ttl r"

fun is_registration :: "registry_op \<Rightarrow> bool" where
  "is_registration (Reg t) = True"
| "is_registration (Reg_Hidden t) = True"
| "is_registration _ = False"

lemma version_ops:
  "tr_version (foldl apply_op r ops) = tr_version r + word_of_nat (length (filter is_registration ops))"
proof (induction ops arbitrary: r)
  case (Cons a ops)
  then show ?case
    by (cases a) (simp_all add: register_def register_hidden_def promote_tools_def tick_ttl_def)
qed simp

lemma hidden_docs_promote: "distinct (map fst ts) \<Longrightarrow>
  map (\<lambda>(n, e). (n, tl_description (te_tool e))) (filter (\<lambda>(n, e). \<not> te_core e) (promote_one t ts m)) =
  map (\<lambda>(n, e). (n, tl_description (te_tool e))) (filter (\<lambda>(n, e). \<not> te_core e) ts)"
proof -
  have upd: "map_of xs m = Some e \<Longrightarrow> \<not> te_core e \<Longrightarrow> distinct (map fst xs) \<Longrightarrow>
    map (\<lambda>(n, e). (n, tl_description (te_tool e)))
      (filter (\<lambda>(n, e). \<not> te_core e) (AList.update m (e\<lparr>te_ttl := t\<rparr>) xs)) =
    map (\<lambda>(n, e). (n, tl_description (te_tool e))) (filter (\<lambda>(n, e). \<not> te_core e) xs)" for xs e
    by (induction xs) (auto split: if_splits)
  show "distinct (map fst ts) \<Longrightarrow> ?thesis" unfolding promote_one_def by (auto simp: upd split: option.split)
qed

lemma hidden_docs_op:
  assumes "registry_ok r" "\<not> is_registration a"
  shows "snapshot_hidden_tools (apply_op r a) = snapshot_hidden_tools r \<and> registry_ok (apply_op r a)"
proof (cases a)
  case (Promote ns t)
  have "distinct (map fst ts) \<Longrightarrow>
      map (\<lambda>(n, e). (n, tl_description (te_tool e))) (filter (\<lambda>(n, e). \<not> te_core e) (foldl (promote_one t) ts ns)) =
      map (\<lambda>(n, e). (n, tl_description (te_tool e))) (filter (\<lambda>(n, e). \<not> te_core e) ts)" for ts
  proof (induction ns arbitrary: ts)
    case (Cons n ns)
    then show ?case using fst_promote [of t ts "[n]"] by (simp add: hidden_docs_promote)
  qed simp
  then have "snapshot_hidden_tools (promote_tools r ns t) = snapshot_hidden_tools r" using assms(1)
    by (simp add: snapshot_hidden_tools_def promote_tools_def registry_ok_def)
  then show ?thesis using registry_ok_promote [OF assms(1)] by (simp add: Promote)
next
  case Tick
  have "map (\<lambda>(n, e). (n, tl_description (te_tool e)))
      (filter (\<lambda>(n, e). \<not> te_core e) (map (\<lambda>(n, e). (n, tick_entry e)) ts)) =
      map (\<lambda>(n, e). (n, tl_description (te_tool e))) (filter (\<lambda>(n, e). \<not> te_core e) ts)" for ts
    by (induction ts) auto
  then have "snapshot_hidden_tools (tick_ttl r) = snapshot_hidden_tools r"
    unfolding snapshot_hidden_tools_def tick_ttl_sel by simp
  then show ?thesis using assms(1) by (simp add: Tick registry_ok_tick)
qed (use assms in auto)

text \<open>
  The version number is a sound cache key: after fewer than \<open>2\<^sup>6\<^sup>4\<close> operations, if it is the one
  the snapshot was taken with, the hidden tools are those of the snapshot.
\<close>

theorem version_validates_snapshot:
  assumes "registry_ok r" "length ops < 2 ^ 64" "tr_version (foldl apply_op r ops) = tr_version r"
  shows "snapshot_hidden_tools (foldl apply_op r ops) = snapshot_hidden_tools r"
proof -
  let ?k = "length (filter is_registration ops)"
  have "(word_of_nat ?k :: 64 word) = 0" using assms(3) by (simp add: version_ops)
  moreover have "?k < 2 ^ 64" using assms(2) length_filter_le [of is_registration ops] by (rule le_less_trans [rotated])
  ultimately have "?k = 0"
    by (auto simp: word_of_nat_eq_0_iff dest: nat_dvd_not_less)
  then have "list_all (\<lambda>a. \<not> is_registration a) ops" by (simp add: filter_empty_conv list_all_iff)
  then show ?thesis using assms(1)
  proof (induction ops arbitrary: r)
    case (Cons a ops)
    then show ?case using hidden_docs_op [of r a] by simp
  qed simp
qed

theorem version_validates_snapshot_witness:
  "snapshot_hidden_tools (foldl apply_op demo_registry [Promote [''mcp''] 3, Tick]) = snapshot_hidden_tools demo_registry"
  by (rule version_validates_snapshot [OF demo_registry_ok]) (simp_all add: promote_tools_def tick_ttl_def)

end
