(* ===== verification/Tool_Loop.thy ===== *)
theory Tool_Loop
  imports Tool_Registry History
begin

text \<open>
  The loop of model calls and tool executions, \<open>pkg/tools/toolloop.go\<close> with \<open>NormalizeToolCall\<close> of
  \<open>pkg/providers/toolcall_utils.go\<close>. The model is a parameter \<open>chat n messages definitions\<close>, its \<open>n\<close>-th answer;
  the JSON of tool arguments is a pair of parameters. The loop is recursion on the iterations left,
  so every run ends; the proofs show what the model is ever sent.
\<close>

section \<open>Tool calls\<close>

record json_codec =
  jc_marshal :: "go_args \<Rightarrow> string"
  jc_unmarshal :: "string \<Rightarrow> go_args option"

definition normalize_tool_call :: "json_codec \<Rightarrow> tool_call \<Rightarrow> tool_call" where
  "normalize_tool_call jc tc =
    (let n1 = (if tc_name tc = [] then (case tc_function tc of Some f \<Rightarrow> tc\<lparr>tc_name := fc_name f\<rparr> | None \<Rightarrow> tc) else tc);
         args1 = (case tc_arguments n1 of None \<Rightarrow> [] | Some a \<Rightarrow> a);
         args2 = (case tc_function n1 of
            Some f \<Rightarrow> (if args1 = [] \<and> fc_arguments f \<noteq> []
                       then (case jc_unmarshal jc (fc_arguments f) of Some parsed \<Rightarrow> parsed | None \<Rightarrow> args1)
                       else args1)
          | None \<Rightarrow> args1);
         n2 = n1\<lparr>tc_arguments := Some args2\<rparr>;
         json = jc_marshal jc args2
     in case tc_function n2 of
          None \<Rightarrow> n2\<lparr>tc_function := Some \<lparr>fc_name = tc_name n2, fc_arguments = json, fc_thought_signature = []\<rparr>\<rparr>
        | Some f \<Rightarrow>
           (let f1 = (if fc_name f = [] then f\<lparr>fc_name := tc_name n2\<rparr> else f);
                n3 = (if tc_name n2 = [] then n2\<lparr>tc_name := fc_name f1\<rparr> else n2);
                f2 = (if fc_arguments f1 = [] then f1\<lparr>fc_arguments := json\<rparr> else f1)
            in n3\<lparr>tc_function := Some f2\<rparr>))"

lemma normalize_tool_call_id [simp]: "tc_id (normalize_tool_call jc tc) = tc_id tc"
  by (auto simp: normalize_tool_call_def Let_def split: option.split)

lemma normalize_tool_call_function: "tc_function (normalize_tool_call jc tc) \<noteq> None"
  by (auto simp: normalize_tool_call_def Let_def split: option.split)

text \<open>The call as the loop writes it back into the conversation.\<close>

definition loop_call :: "json_codec \<Rightarrow> tool_call \<Rightarrow> tool_call" where
  "loop_call jc tc = \<lparr>tc_id = tc_id tc, tc_type = ''function'',
     tc_function = Some \<lparr>fc_name = tc_name tc,
       fc_arguments = jc_marshal jc (case tc_arguments tc of None \<Rightarrow> [] | Some a \<Rightarrow> a), fc_thought_signature = []\<rparr>,
     tc_name = tc_name tc, tc_arguments = tc_arguments tc, tc_thought_signature = [], tc_extra_content = None\<rparr>"

definition call_args :: "tool_call \<Rightarrow> go_args" where
  "call_args tc = (case tc_arguments tc of None \<Rightarrow> [] | Some a \<Rightarrow> a)"

text \<open>What the model reads of a result.\<close>

definition content_for_llm :: "tool_result \<Rightarrow> string" where
  "content_for_llm r = (if tr_for_llm r = [] then (case tr_err r of Some e \<Rightarrow> e | None \<Rightarrow> []) else tr_for_llm r)"

definition tool_message :: "tool_call \<Rightarrow> tool_result \<Rightarrow> message" where
  "tool_message tc r = (mk_message ''tool'' (content_for_llm r))\<lparr>msg_tool_call_id := tc_id tc\<rparr>"

definition loop_assistant :: "json_codec \<Rightarrow> llm_response \<Rightarrow> tool_call list \<Rightarrow> message" where
  "loop_assistant jc resp calls =
    (mk_message ''assistant'' (lr_content resp))\<lparr>msg_tool_calls := map (loop_call jc) calls\<rparr>"

section \<open>The loop\<close>

record loop_config =
  lc_chat :: "nat \<Rightarrow> message list \<Rightarrow> tool_definition list \<Rightarrow> (string, llm_response) go_result"
  lc_tools :: "tool_registry option"
  lc_max_iterations :: int
  lc_json :: json_codec

text \<open>The calls of one answer, run in parallel; results keep the order of the calls. The \<open>j\<close>-th call of
  iteration \<open>i\<close> is execution \<open>(i, j)\<close>.\<close>

definition run_calls ::
  "(nat \<Rightarrow> tool_call \<Rightarrow> tool_result) \<Rightarrow> tool_call list \<Rightarrow> (tool_call \<times> tool_result) list" where
  "run_calls f calls = map (\<lambda>(j, tc). (tc, f j tc)) (enumerate 0 calls)"

definition loop_exec :: "loop_config \<Rightarrow> nat \<Rightarrow> string \<Rightarrow> string \<Rightarrow> nat \<Rightarrow> tool_call \<Rightarrow> tool_result" where
  "loop_exec cfg i channel chat j tc = (case lc_tools cfg of
     Some r \<Rightarrow> execute_with_context (i, j) r (tc_name tc) (call_args tc) channel chat False
   | None \<Rightarrow> error_result ''No tools available'')"

definition loop_defs :: "loop_config \<Rightarrow> tool_definition list" where
  "loop_defs cfg = (case lc_tools cfg of None \<Rightarrow> [] | Some r \<Rightarrow> to_provider_defs r)"

text \<open>The messages one answer with tool calls adds.\<close>

definition exchange :: "json_codec \<Rightarrow> (nat \<Rightarrow> tool_call \<Rightarrow> tool_result) \<Rightarrow> llm_response \<Rightarrow> message list" where
  "exchange jc f resp =
    (let calls = map (normalize_tool_call jc) (lr_tool_calls resp)
     in loop_assistant jc resp calls # map (\<lambda>(tc, r). tool_message tc r) (run_calls f calls))"

record loop_result =
  lo_content :: string
  lo_iterations :: nat

text \<open>\<open>left\<close> iterations remain; the second component is everything sent to the model, for the proofs.\<close>

fun tool_loop ::
  "loop_config \<Rightarrow> string \<Rightarrow> string \<Rightarrow> nat \<Rightarrow> nat \<Rightarrow> message list \<Rightarrow>
   (string, loop_result) go_result \<times> message list list" where
  "tool_loop cfg channel chat it 0 messages = (Ok \<lparr>lo_content = [], lo_iterations = it\<rparr>, [])"
| "tool_loop cfg channel chat it (Suc left) messages =
    (case lc_chat cfg (Suc it) messages (loop_defs cfg) of
       Err e \<Rightarrow> (Err (''LLM call failed: '' @ e), [messages])
     | Ok resp \<Rightarrow>
        (if lr_tool_calls resp = [] then (Ok \<lparr>lo_content = lr_content resp, lo_iterations = Suc it\<rparr>, [messages])
         else let (r, sent) = tool_loop cfg channel chat (Suc it) left
                    (messages @ exchange (lc_json cfg) (loop_exec cfg (Suc it) channel chat) resp)
              in (r, messages # sent)))"

definition run_tool_loop ::
  "loop_config \<Rightarrow> message list \<Rightarrow> string \<Rightarrow> string \<Rightarrow> (string, loop_result) go_result \<times> message list list" where
  "run_tool_loop cfg messages channel chat = tool_loop cfg channel chat 0 (nat (lc_max_iterations cfg)) messages"

section \<open>Exchanges keep a conversation acceptable\<close>

lemma tool_message_kind [simp]: "is_tool (tool_message tc r)" "msg_tool_call_id (tool_message tc r) = tc_id tc"
  by (simp_all add: tool_message_def is_tool_def)

lemma fst_run_calls [simp]: "map fst (run_calls f calls) = calls"
  by (simp add: run_calls_def o_def split_def)

lemma length_run_calls [simp]: "length (run_calls f calls) = length calls"
  by (simp add: run_calls_def)

text \<open>An assistant message with calls and one tool message per call.\<close>

definition complete_exchange :: "message list \<Rightarrow> bool" where
  "complete_exchange ms \<longleftrightarrow> (\<exists>m ts. ms = m # ts \<and> has_calls m \<and> ts \<noteq> [] \<and> list_all is_tool ts \<and> all_found m ts)"

lemma complete_exchange_answers:
  assumes "has_calls m" "map tc_id (msg_tool_calls m) = map tc_id (map fst rs)" "ts = map (\<lambda>(tc, r). tool_message tc r) rs"
  shows "complete_exchange (m # ts)"
proof -
  have "map msg_tool_call_id ts = map tc_id (map fst rs)" unfolding assms(3) by (induction rs) auto
  then have "all_found m ts"
    unfolding all_found_def assms(2) [symmetric] by (auto simp: list_all_iff)
  moreover have "ts \<noteq> []"
    using assms(1,2) by (auto simp: assms(3) has_calls_def)
  moreover have "list_all is_tool ts" by (auto simp: assms(3) list_all_iff)
  ultimately show ?thesis using assms(1) by (auto simp: complete_exchange_def)
qed

lemma exchange_complete: "lr_tool_calls resp \<noteq> [] \<Longrightarrow> complete_exchange (exchange jc f resp)"
  unfolding exchange_def Let_def
  by (rule complete_exchange_answers [OF _ _ refl])
    (simp_all add: loop_assistant_def has_calls_def is_assistant_def loop_call_def o_def)

text \<open>The state between calls: acceptable, and the next answer may contain calls.\<close>

definition turn_ready :: "message list \<Rightarrow> bool" where
  "turn_ready ms \<longleftrightarrow> ready None ms \<and> ms \<noteq> [] \<and> (is_user (last ms) \<or> is_tool (last ms))"

lemma ready_append_exchange:
  assumes "complete_exchange ex"
  shows "ready prev ms \<Longrightarrow> may_call (if ms = [] then prev else Some (last ms)) \<Longrightarrow> ready prev (ms @ ex)"
proof -
  obtain a ts where ex: "ex = a # ts" "has_calls a" "ts \<noteq> []" "list_all is_tool ts" "all_found a ts"
    using assms by (auto simp: complete_exchange_def)
  show "ready prev ms \<Longrightarrow> may_call (if ms = [] then prev else Some (last ms)) \<Longrightarrow> ready prev (ms @ ex)"
  proof (induction rule: ready.induct)
    case (ready_nil prev)
    then obtain q where "prev = Some q" "is_user q \<or> is_tool q" by (auto simp: may_call_def split: option.splits)
    then show ?case using ready_exchange [of a q ts "[]"] ex by (simp add: ready.ready_nil)
  next
    case (ready_plain m ms prev)
    then show ?case by (cases "ms = []") (auto intro: ready.ready_plain)
  next
    case (ready_exchange m prev us ms)
    then have "ready (Some (last us)) (ms @ ex)" by (cases "ms = []") auto
    moreover have "ms @ ex = [] \<or> \<not> is_tool (hd (ms @ ex))"
      using ready_exchange.hyps(6) ex(1,2) by (cases ms) (auto simp: kinds)
    ultimately have "ready (Some prev) (m # us @ ms @ ex)"
      using ready_exchange.hyps by (intro ready.ready_exchange) auto
    then show ?case by simp
  qed
qed

lemma turn_ready_exchange: "turn_ready ms \<Longrightarrow> complete_exchange ex \<Longrightarrow> turn_ready (ms @ ex)"
  using ready_append_exchange [of ex None ms]
  by (auto simp: turn_ready_def may_call_def complete_exchange_def list_all_iff)

lemma turn_ready_user: "ready None ms \<Longrightarrow> is_user m \<Longrightarrow> turn_ready (ms @ [m])"
  using ready_snoc [of None ms m] user_plain by (simp add: turn_ready_def)

text \<open>
  Whatever the model answers and the tools return, every conversation the tool loop sends is one
  a strict provider accepts, if the one it starts from is: a system message and an acceptable history that ends with a user
  message or a tool result.
\<close>

theorem tool_loop_requests_ready:
  assumes "is_system s" "turn_ready ms" "sent \<in> set (snd (run_tool_loop cfg (s # ms) channel chat))"
  shows "\<exists>rest. sent = s # rest \<and> turn_ready rest \<and> prefix ms rest"
proof -
  have "sent \<in> set (snd (tool_loop cfg channel chat it left (s # ms))) \<Longrightarrow> turn_ready ms \<Longrightarrow>
      \<exists>rest. sent = s # rest \<and> turn_ready rest \<and> prefix ms rest" for it left ms
  proof (induction left arbitrary: it ms)
    case (Suc left)
    show ?case
    proof (cases "lc_chat cfg (Suc it) (s # ms) (loop_defs cfg)")
      case (Inr resp)
      define ex where "ex = exchange (lc_json cfg) (loop_exec cfg (Suc it) channel chat) resp"
      have "lr_tool_calls resp \<noteq> [] \<Longrightarrow> turn_ready (ms @ ex)"
        unfolding ex_def using turn_ready_exchange [OF Suc.prems(2) exchange_complete] .
      then show ?thesis
        using Suc.IH [of "Suc it" "ms @ ex"] Suc.prems Inr
        by (auto simp: ex_def split: if_splits prod.splits dest: append_prefixD)
    qed (use Suc.prems in auto)
  qed simp
  then show ?thesis using assms(2,3) by (auto simp: run_tool_loop_def)
qed

text \<open>
  The loop always ends: it asks the model at most as often as the configured maximum, and the
  iterations it reports are the calls it made.
\<close>

theorem tool_loop_bounded:
  "length (snd (run_tool_loop cfg ms channel chat)) \<le> nat (lc_max_iterations cfg) \<and>
   (\<forall>r. fst (run_tool_loop cfg ms channel chat) = Ok r \<longrightarrow>
     lo_iterations r = length (snd (run_tool_loop cfg ms channel chat)))"
proof -
  have "length (snd (tool_loop cfg channel chat it left ms)) \<le> left \<and>
      (\<forall>r. fst (tool_loop cfg channel chat it left ms) = Ok r \<longrightarrow>
        lo_iterations r = it + length (snd (tool_loop cfg channel chat it left ms)))" for it left
  proof (induction left arbitrary: it ms)
    case (Suc left)
    show ?case
      using Suc.IH [of "Suc it"] by (auto split: sum.split prod.split) (metis fst_conv snd_conv)+
  qed simp
  from this [of 0 "nat (lc_max_iterations cfg)"] show ?thesis by (simp add: run_tool_loop_def)
qed

definition demo_json :: json_codec where
  "demo_json = \<lparr>jc_marshal = (\<lambda>a. ''{}''), jc_unmarshal = (\<lambda>s. None)\<rparr>"

definition demo_call :: tool_call where
  "demo_call = \<lparr>tc_id = ''c1'', tc_type = ''function'', tc_function = None, tc_name = ''read'',
     tc_arguments = None, tc_thought_signature = [], tc_extra_content = None\<rparr>"

definition demo_answer :: "nat \<Rightarrow> llm_response" where
  "demo_answer n = \<lparr>lr_content = ''ok'', lr_reasoning_content = [],
     lr_tool_calls = (if n = 1 then [demo_call] else []), lr_finish_reason = ''stop'', lr_reasoning = []\<rparr>"

definition demo_config :: loop_config where
  "demo_config = \<lparr>lc_chat = (\<lambda>n ms ds. Ok (demo_answer n)), lc_tools = Some demo_registry,
     lc_max_iterations = 5, lc_json = demo_json\<rparr>"

definition demo_start :: "message list" where
  "demo_start = [mk_message ''system'' ''be brief'', mk_message ''user'' ''hi'']"

lemma demo_sent: "map (map msg_role) (snd (run_tool_loop demo_config demo_start [] [])) =
    [[''system'', ''user''], [''system'', ''user'', ''assistant'', ''tool'']]"
  by code_simp

theorem tool_loop_requests_ready_witness:
  "\<exists>sent \<in> set (snd (run_tool_loop demo_config demo_start [] [])). length sent = 4 \<and> turn_ready (tl sent)"
proof -
  have "is_system (mk_message ''system'' ''be brief'')" "turn_ready [mk_message ''user'' ''hi'']"
    using turn_ready_user [OF ready_nil, of "mk_message ''user'' ''hi''"] by simp_all
  note r = tool_loop_requests_ready [OF this, of _ demo_config "[]" "[]"]
  have "length (snd (run_tool_loop demo_config demo_start [] [])) = 2"
      "map length (snd (run_tool_loop demo_config demo_start [] [])) = [2, 4]"
    using arg_cong [OF demo_sent, of length] arg_cong [OF demo_sent, of "map length"] by (simp_all add: o_def)
  then obtain sent where "sent \<in> set (snd (run_tool_loop demo_config demo_start [] []))" "length sent = 4"
    by (metis (no_types, lifting) image_iff list.set_intros(1) list.set_intros(2) list.set_map)
  then show ?thesis using r [of sent] by (auto simp: demo_start_def)
qed

theorem tool_loop_bounded_witness:
  "length (snd (run_tool_loop demo_config demo_start [] [])) \<le> 5"
  using tool_loop_bounded [of demo_config demo_start "[]" "[]"] by (simp add: demo_config_def)

end
