(* ===== verification/Agent_Loop.thy ===== *)
theory Agent_Loop
  imports Agent_Context Tool_Loop
begin

text \<open>
  One turn of an agent, \<open>runAgentLoop\<close> and \<open>runLLMIteration\<close> of \<open>pkg/agent/loop.go\<close>: build the request,
  call the model (with retries and emergency compression), run the tools it asks for, and save every
  message to the session. The session store is any instance of the interface; the model, the prompt
  files, media loading and the registry changes made by discovery tools are parameters of the turn.
\<close>

section \<open>Outbound messages\<close>

record media_part =
  mp_type :: string
  mp_ref :: string
  mp_caption :: string
  mp_filename :: string
  mp_content_type :: string

datatype outbound =
    Out_Text string string string
  | Out_Media string string "media_part list"

definition internal_channels :: "string list" where
  "internal_channels = [''cli'', ''system'', ''subagent'']"

definition is_internal_channel :: "string \<Rightarrow> bool" where
  "is_internal_channel c \<longleftrightarrow> c \<in> set internal_channels"

text \<open>\<open>filepath.Ext\<close>: from the last dot of the last path element.\<close>

definition file_ext :: "string \<Rightarrow> string" where
  "file_ext p =
    (let base = rev (takeWhile (\<lambda>c. c \<noteq> CHR ''/'') (rev p)) in
     if CHR ''.'' \<in> set base then CHR ''.'' # rev (takeWhile (\<lambda>c. c \<noteq> CHR ''.'') (rev base)) else [])"

definition infer_media_type :: "string \<Rightarrow> string \<Rightarrow> string" where
  "infer_media_type filename content_type =
    (let ct = to_lower content_type; fn = to_lower filename in
     if prefix ''image/'' ct then ''image''
     else if prefix ''audio/'' ct \<or> ct = ''application/ogg'' then ''audio''
     else if prefix ''video/'' ct then ''video''
     else let ext = file_ext fn in
       if ext \<in> {''.jpg'', ''.jpeg'', ''.png'', ''.gif'', ''.webp'', ''.bmp'', ''.svg''} then ''image''
       else if ext \<in> {''.mp3'', ''.wav'', ''.ogg'', ''.m4a'', ''.flac'', ''.aac'', ''.wma'', ''.opus''} then ''audio''
       else if ext \<in> {''.mp4'', ''.avi'', ''.mov'', ''.webm'', ''.mkv''} then ''video''
       else ''file'')"

text \<open>\<open>resolveMediaRefs\<close>; \<open>load\<close> is the data URL of a stored file, \<open>None\<close> where the code skips it (unknown
  reference, file missing, too large or of unknown type). No store is the outer \<open>None\<close>.\<close>

definition resolve_media_refs :: "(string \<Rightarrow> string option) option \<Rightarrow> message list \<Rightarrow> message list" where
  "resolve_media_refs store ms = (case store of
     None \<Rightarrow> ms
   | Some load \<Rightarrow> map (\<lambda>m. if msg_media m = [] then m
       else m\<lparr>msg_media := List.map_filter (\<lambda>ref. if \<not> prefix ''media://'' ref then Some ref else load ref)
         (msg_media m)\<rparr>) ms)"

section \<open>The turn\<close>

record process_options =
  po_session_key :: string
  po_channel :: string
  po_chat_id :: string
  po_user_message :: string
  po_media :: "string list"
  po_default_response :: string
  po_enable_summary :: bool
  po_send_response :: bool
  po_no_history :: bool

text \<open>An error of a model call: its text, and whether it wraps \<open>context.DeadlineExceeded\<close>.\<close>

record call_error =
  er_text :: string
  er_deadline :: bool

record 's turn_env =
  tv_ops :: "'s session_ops"
  tv_agent_id :: string
  tv_limits :: context_limits
  tv_static :: string
  tv_dynamic :: "nat \<Rightarrow> string \<Rightarrow> string \<Rightarrow> string"
  tv_load :: "(string \<Rightarrow> string option) option"
  tv_call :: "nat \<Rightarrow> message list \<Rightarrow> tool_definition list \<Rightarrow> (call_error, llm_response option) go_result"
  tv_json :: json_codec
  tv_max_iterations :: int
  tv_media_meta :: "string \<Rightarrow> (string \<times> string) option"
  tv_reasoning_chat :: "string \<Rightarrow> string"
  tv_discover :: "nat \<Rightarrow> tool_registry \<Rightarrow> tool_registry"

text \<open>\<open>tu_sent\<close> records the requests, for the proofs.\<close>

record 's turn =
  tu_store :: 's
  tu_registry :: tool_registry
  tu_calls :: nat
  tu_out :: "outbound list"
  tu_last_channel :: string
  tu_summarizing :: "string set"
  tu_sent :: "message list list"

definition is_timeout_error :: "call_error \<Rightarrow> bool" where
  "is_timeout_error e \<longleftrightarrow> er_deadline e \<or>
     list_ex (str_contains (to_lower (er_text e)))
       [''deadline exceeded'', ''client.timeout'', ''timed out'', ''timeout exceeded'']"

definition is_context_error :: "call_error \<Rightarrow> bool" where
  "is_context_error e \<longleftrightarrow> \<not> is_timeout_error e \<and>
     list_ex (str_contains (to_lower (er_text e)))
       [''context_length_exceeded'', ''context window'', ''maximum context length'', ''token limit'',
        ''too many tokens'', ''max_tokens'', ''invalidparameter'', ''prompt is too long'', ''request too large'']"

definition compression_notice :: string where
  "compression_notice = ''Context window exceeded. Compressing history and retrying...''"

text \<open>The compression between two attempts, and the request it is retried with.\<close>

definition compress_and_rebuild ::
  "'s turn_env \<Rightarrow> process_options \<Rightarrow> nat \<Rightarrow> 's turn \<Rightarrow> message list \<times> 's turn" where
  "compress_and_rebuild env opts retry st =
    (let out = (if retry = 0 \<and> \<not> is_internal_channel (po_channel opts)
                then [Out_Text (po_channel opts) (po_chat_id opts) compression_notice] else []);
         store = force_compression (tv_ops env) (tu_store st) (po_session_key opts);
         ms = build_messages (tv_static env) (tv_dynamic env (tu_calls st) (po_channel opts) (po_chat_id opts))
           (so_history (tv_ops env) store (po_session_key opts))
           (so_summary (tv_ops env) store (po_session_key opts)) [] []
     in (ms, st\<lparr>tu_store := store, tu_out := tu_out st @ out\<rparr>))"

definition call_model ::
  "'s turn_env \<Rightarrow> message list \<Rightarrow> 's turn \<Rightarrow> (call_error, llm_response option) go_result \<times> 's turn" where
  "call_model env ms st =
    (tv_call env (tu_calls st) ms (to_provider_defs (tu_registry st)),
     st\<lparr>tu_calls := tu_calls st + 1, tu_sent := tu_sent st @ [ms]\<rparr>)"

text \<open>The retry loop: attempt number \<open>retry\<close>, with \<open>left\<close> more allowed.\<close>

fun llm_retry ::
  "'s turn_env \<Rightarrow> process_options \<Rightarrow> nat \<Rightarrow> nat \<Rightarrow> message list \<Rightarrow> 's turn \<Rightarrow>
   (call_error, llm_response option) go_result \<times> message list \<times> 's turn" where
  "llm_retry env opts retry 0 ms st = (let (r, st1) = call_model env ms st in (r, ms, st1))"
| "llm_retry env opts retry (Suc left) ms st =
    (let (r, st1) = call_model env ms st in
     case r of
       Ok resp \<Rightarrow> (r, ms, st1)
     | Err e \<Rightarrow>
        (if is_timeout_error e then llm_retry env opts (Suc retry) left ms st1
         else if is_context_error e then
           (let (ms1, st2) = compress_and_rebuild env opts retry st1
            in llm_retry env opts (Suc retry) left ms1 st2)
         else (r, ms, st1)))"

definition max_retries :: nat where "max_retries = 2"

definition agent_call :: "json_codec \<Rightarrow> tool_call \<Rightarrow> tool_call" where
  "agent_call jc tc =
    (let sig = (case tc_function tc of Some f \<Rightarrow> fc_thought_signature f | None \<Rightarrow> [])
     in \<lparr>tc_id = tc_id tc, tc_type = ''function'',
         tc_function = Some \<lparr>fc_name = tc_name tc, fc_arguments = jc_marshal jc (call_args tc), fc_thought_signature = sig\<rparr>,
         tc_name = tc_name tc, tc_arguments = None, tc_thought_signature = sig, tc_extra_content = tc_extra_content tc\<rparr>)"

definition agent_assistant :: "json_codec \<Rightarrow> llm_response \<Rightarrow> tool_call list \<Rightarrow> message" where
  "agent_assistant jc resp calls =
    (mk_message ''assistant'' (lr_content resp))\<lparr>msg_reasoning := lr_reasoning_content resp,
      msg_tool_calls := map (agent_call jc) calls\<rparr>"

definition mk_part :: "'s turn_env \<Rightarrow> string \<Rightarrow> media_part" where
  "mk_part env ref = (case tv_media_meta env ref of
     None \<Rightarrow> \<lparr>mp_type = [], mp_ref = ref, mp_caption = [], mp_filename = [], mp_content_type = []\<rparr>
   | Some (f, c) \<Rightarrow> \<lparr>mp_type = infer_media_type f c, mp_ref = ref, mp_caption = [], mp_filename = f, mp_content_type = c\<rparr>)"

definition result_out :: "'s turn_env \<Rightarrow> process_options \<Rightarrow> tool_result \<Rightarrow> outbound list" where
  "result_out env opts r =
    (if \<not> tr_silent r \<and> tr_for_user r \<noteq> [] \<and> po_channel opts \<noteq> [] \<and> po_chat_id opts \<noteq> [] \<and>
        \<not> is_internal_channel (po_channel opts)
     then [Out_Text (po_channel opts) (po_chat_id opts) (tr_for_user r)] else []) @
    (if tr_media r \<noteq> [] then [Out_Media (po_channel opts) (po_chat_id opts) (map (mk_part env) (tr_media r))] else [])"

definition save_result ::
  "'s turn_env \<Rightarrow> process_options \<Rightarrow> 's turn \<Rightarrow> tool_call \<times> tool_result \<Rightarrow> 's turn" where
  "save_result env opts st = (\<lambda>(tc, r).
     st\<lparr>tu_store := so_add (tv_ops env) (tu_store st) (po_session_key opts) (tool_message tc r),
        tu_out := tu_out st @ result_out env opts r\<rparr>)"

definition handle_reasoning :: "'s turn_env \<Rightarrow> process_options \<Rightarrow> llm_response \<Rightarrow> outbound list" where
  "handle_reasoning env opts resp =
    (let chat = tv_reasoning_chat env (po_channel opts) in
     if lr_reasoning resp = [] \<or> po_channel opts = [] \<or> chat = [] then []
     else [Out_Text (po_channel opts) chat (lr_reasoning resp)])"

definition fatal_notice :: string where
  "fatal_notice = ''Task stopped due to a fatal error. '' @
     ''Please check the error message and try again with corrected parameters.''"

datatype turn_outcome =
    Turn_Panic
  | Turn_Error string nat
  | Turn_Done string nat

text \<open>The exchange of one answer: the messages it adds, and the state after the tools have run.\<close>

definition agent_results :: "'s turn_env \<Rightarrow> process_options \<Rightarrow> nat \<Rightarrow> llm_response \<Rightarrow> 's turn \<Rightarrow> (tool_call \<times> tool_result) list" where
  "agent_results env opts it resp st =
    run_calls (\<lambda>j tc. execute_with_context (it, j) (tu_registry st) (tc_name tc) (call_args tc)
        (po_channel opts) (po_chat_id opts) True)
      (map (normalize_tool_call (tv_json env)) (lr_tool_calls resp))"

definition agent_exchange :: "'s turn_env \<Rightarrow> process_options \<Rightarrow> nat \<Rightarrow> llm_response \<Rightarrow> 's turn \<Rightarrow> message list" where
  "agent_exchange env opts it resp st =
    agent_assistant (tv_json env) resp (map (normalize_tool_call (tv_json env)) (lr_tool_calls resp)) #
    map (\<lambda>(tc, r). tool_message tc r) (agent_results env opts it resp st)"

definition run_exchange :: "'s turn_env \<Rightarrow> process_options \<Rightarrow> nat \<Rightarrow> llm_response \<Rightarrow> 's turn \<Rightarrow> 's turn" where
  "run_exchange env opts it resp st =
    (let calls = map (normalize_tool_call (tv_json env)) (lr_tool_calls resp);
         st1 = st\<lparr>tu_store := so_add (tv_ops env) (tu_store st) (po_session_key opts)
           (agent_assistant (tv_json env) resp calls)\<rparr>;
         st2 = st1\<lparr>tu_registry := tv_discover env it (tu_registry st1)\<rparr>
     in foldl (save_result env opts) st2 (agent_results env opts it resp st))"

fun llm_iteration ::
  "'s turn_env \<Rightarrow> process_options \<Rightarrow> nat \<Rightarrow> nat \<Rightarrow> message list \<Rightarrow> 's turn \<Rightarrow> turn_outcome \<times> 's turn" where
  "llm_iteration env opts it 0 ms st = (Turn_Done [] it, st)"
| "llm_iteration env opts it (Suc left) ms st =
    (case llm_retry env opts 0 max_retries ms st of
       (Err e, ms1, st1) \<Rightarrow> (Turn_Error (''LLM call failed after retries: '' @ er_text e) (Suc it), st1)
     | (Ok None, ms1, st1) \<Rightarrow> (Turn_Panic, st1)
     | (Ok (Some resp), ms1, st1) \<Rightarrow>
        (let st2 = st1\<lparr>tu_out := tu_out st1 @ handle_reasoning env opts resp\<rparr> in
         if lr_tool_calls resp = [] then
           (Turn_Done (if lr_content resp = [] \<and> lr_reasoning_content resp \<noteq> []
              then lr_reasoning_content resp else lr_content resp) (Suc it), st2)
         else
           (let st3 = run_exchange env opts (Suc it) resp st2;
                stop = list_ex (\<lambda>(tc, r). tr_stop_on_error r) (agent_results env opts (Suc it) resp st2)
            in if stop then (Turn_Done fatal_notice (Suc it), st3)
               else llm_iteration env opts (Suc it) left (ms1 @ agent_exchange env opts (Suc it) resp st2)
                 (st3\<lparr>tu_registry := tick_ttl (tu_registry st3)\<rparr>))))"

definition run_llm_iteration ::
  "'s turn_env \<Rightarrow> process_options \<Rightarrow> message list \<Rightarrow> 's turn \<Rightarrow> turn_outcome \<times> 's turn" where
  "run_llm_iteration env opts ms st = llm_iteration env opts 0 (nat (tv_max_iterations env)) ms st"

definition record_last_channel :: "process_options \<Rightarrow> 's turn \<Rightarrow> 's turn" where
  "record_last_channel opts st =
    (if po_channel opts \<noteq> [] \<and> po_chat_id opts \<noteq> [] \<and> \<not> is_internal_channel (po_channel opts)
     then st\<lparr>tu_last_channel := po_channel opts @ '':'' @ po_chat_id opts\<rparr> else st)"

definition initial_messages :: "'s turn_env \<Rightarrow> process_options \<Rightarrow> 's turn \<Rightarrow> message list" where
  "initial_messages env opts st =
    (let history = (if po_no_history opts then [] else so_history (tv_ops env) (tu_store st) (po_session_key opts));
         summary = (if po_no_history opts then [] else so_summary (tv_ops env) (tu_store st) (po_session_key opts))
     in resolve_media_refs (tv_load env)
          (build_messages (tv_static env) (tv_dynamic env (tu_calls st) (po_channel opts) (po_chat_id opts))
            history summary (po_user_message opts) (po_media opts)))"

text \<open>The result: \<open>None\<close> is the panic of a nil response.\<close>

definition run_agent_loop ::
  "'s turn_env \<Rightarrow> process_options \<Rightarrow> 's turn \<Rightarrow> (string, string) go_result option \<times> 's turn" where
  "run_agent_loop env opts st0 =
    (let st1 = record_last_channel opts st0;
         ms = initial_messages env opts st1;
         add = (\<lambda>st role text. st\<lparr>tu_store :=
           so_add (tv_ops env) (tu_store st) (po_session_key opts) (mk_message role text)\<rparr>)
     in case run_llm_iteration env opts ms (add st1 ''user'' (po_user_message opts)) of
          (Turn_Panic, st) \<Rightarrow> (None, st)
        | (Turn_Error e it, st) \<Rightarrow> (Some (Err e), st)
        | (Turn_Done content it, st) \<Rightarrow>
            (let final = (if content = [] then po_default_response opts else content);
                 st2 = add st ''assistant'' final;
                 st3 = st2\<lparr>tu_store := so_save (tv_ops env) (tu_store st2) (po_session_key opts)\<rparr>;
                 st4 = (if po_enable_summary opts
                   then st3\<lparr>tu_summarizing := fst (maybe_summarize (tv_ops env) (tv_limits env) (tu_store st3)
                     (tv_agent_id env) (po_session_key opts) (tu_summarizing st3))\<rparr>
                   else st3);
                 st5 = (if po_send_response opts
                   then st4\<lparr>tu_out := tu_out st4 @ [Out_Text (po_channel opts) (po_chat_id opts) final]\<rparr> else st4)
             in (Some (Ok final), st5)))"

section \<open>Maps that keep the shape of a conversation\<close>

definition same_shape :: "(message \<Rightarrow> message) \<Rightarrow> bool" where
  "same_shape f \<longleftrightarrow> (\<forall>m. msg_role (f m) = msg_role m \<and> msg_tool_call_id (f m) = msg_tool_call_id m \<and>
     map tc_id (msg_tool_calls (f m)) = map tc_id (msg_tool_calls m))"

lemma same_shape_kind: "same_shape f \<Longrightarrow> kind (f m) = kind m"
  by (auto simp: same_shape_def kind_def is_system_def is_tool_def has_calls_def is_assistant_def is_user_def
      dest!: spec [of _ m] dest: map_eq_imp_length_eq)

lemma same_shape_kinds [simp]:
  assumes "same_shape f"
  shows "is_tool (f m) \<longleftrightarrow> is_tool m" "is_user (f m) \<longleftrightarrow> is_user m" "has_calls (f m) \<longleftrightarrow> has_calls m"
    "plain (f m) \<longleftrightarrow> plain m" "is_system (f m) \<longleftrightarrow> is_system m"
  by (simp_all add: kinds same_shape_kind [OF assms])

lemma all_found_ids: "all_found m ts \<longleftrightarrow> set (map tc_id (msg_tool_calls m)) \<subseteq> set (map msg_tool_call_id ts)"
  by (auto simp: all_found_def list_all_iff)

lemma same_shape_all_found: "same_shape f \<Longrightarrow> all_found (f m) (map f ts) \<longleftrightarrow> all_found m ts"
  unfolding all_found_ids same_shape_def by (simp add: o_def)

lemma ready_map: "ready prev ms \<Longrightarrow> same_shape f \<Longrightarrow> ready (map_option f prev) (map f ms)"
proof (induction rule: ready.induct [consumes 1, case_names nil plain exchange])
  case (nil prev)
  then show ?case by (simp add: ready_nil)
next
  case (plain m ms prev)
  then show ?case by (simp add: ready_plain)
next
  case (exchange m prev ts ms)
  have "ready (Some (f prev)) (f m # map f ts @ map f ms)"
    using exchange by (intro ready_exchange) (auto simp: same_shape_all_found list_all_iff last_map hd_map)
  then show ?case by simp
qed

lemma turn_ready_map: "same_shape f \<Longrightarrow> turn_ready ms \<Longrightarrow> turn_ready (map f ms)"
  using ready_map [of None ms f] by (simp add: turn_ready_def last_map)

lemma complete_exchange_map: "same_shape f \<Longrightarrow> complete_exchange ex \<Longrightarrow> complete_exchange (map f ex)"
  by (auto simp: complete_exchange_def same_shape_all_found list_all_iff)

lemma same_shape_views [simp]: "same_shape (\<lambda>m. m)" "same_shape json_view"
  by (simp_all add: same_shape_def json_view_def json_call_def o_def)

lemma resolve_media_shape: "\<exists>f. same_shape f \<and> resolve_media_refs store ms = map f ms"
proof (cases store)
  case None
  then show ?thesis by (intro exI [of _ "\<lambda>m. m"]) (simp add: resolve_media_refs_def)
next
  case (Some load)
  then show ?thesis
    by (intro exI [of _ "\<lambda>m. if msg_media m = [] then m
       else m\<lparr>msg_media := List.map_filter (\<lambda>ref. if \<not> prefix ''media://'' ref then Some ref else load ref)
         (msg_media m)\<rparr>"]) (simp add: resolve_media_refs_def same_shape_def)
qed

section \<open>Exchanges of the agent\<close>

lemma agent_exchange_complete: "lr_tool_calls resp \<noteq> [] \<Longrightarrow> complete_exchange (agent_exchange env opts it resp st)"
  unfolding agent_exchange_def
  by (rule complete_exchange_answers [OF _ _ refl])
    (simp_all add: agent_assistant_def has_calls_def is_assistant_def agent_call_def agent_results_def o_def Let_def)

lemma store_save_results:
  "tu_store (foldl (save_result env opts) st rs) =
    foldl (\<lambda>s m. so_add (tv_ops env) s (po_session_key opts) m) (tu_store st) (map (\<lambda>(tc, r). tool_message tc r) rs)"
  by (induction rs arbitrary: st) (auto simp: save_result_def)

lemma store_run_exchange:
  "tu_store (run_exchange env opts it resp st) =
    foldl (\<lambda>s m. so_add (tv_ops env) s (po_session_key opts) m) (tu_store st) (agent_exchange env opts it resp st)"
  by (simp add: run_exchange_def store_save_results agent_exchange_def Let_def)

lemma sent_save_results [simp]: "tu_sent (foldl (save_result env opts) st rs) = tu_sent st"
  by (induction rs arbitrary: st) (auto simp: save_result_def)

lemma sent_run_exchange [simp]: "tu_sent (run_exchange env opts it resp st) = tu_sent st"
  by (simp add: run_exchange_def Let_def)

section \<open>Turns without context-window errors\<close>

definition no_context_errors :: "'s turn_env \<Rightarrow> bool" where
  "no_context_errors env \<longleftrightarrow> (\<forall>n ms ds e. tv_call env n ms ds = Err e \<longrightarrow> \<not> is_context_error e)"

lemma call_model_sel [simp]:
  "tu_store (snd (call_model env ms st)) = tu_store st" "tu_sent (snd (call_model env ms st)) = tu_sent st @ [ms]"
  by (simp_all add: call_model_def)

lemma llm_retry_same:
  assumes "no_context_errors env"
  shows "llm_retry env opts retry left ms st = (r, ms1, st1) \<Longrightarrow>
    ms1 = ms \<and> tu_store st1 = tu_store st \<and> set (tu_sent st1) \<subseteq> insert ms (set (tu_sent st))"
proof (induction left arbitrary: retry st)
  case 0
  then show ?case by (auto simp: call_model_def Let_def)
next
  case (Suc left)
  show ?case
  proof (cases "tv_call env (tu_calls st) ms (to_provider_defs (tu_registry st))")
    case (Inl e)
    then have "\<not> is_context_error e" using assms by (auto simp: no_context_errors_def)
    then show ?thesis
      using Suc.prems Suc.IH [of "Suc retry" "snd (call_model env ms st)"] Inl
      by (auto simp: call_model_def split: if_splits)
  qed (use Suc.prems in \<open>auto simp: call_model_def\<close>)
qed

text \<open>What one iteration does after the model has been asked: it stops without touching the session, or
  it runs an exchange and stops, or it runs an exchange and goes on.\<close>

lemma llm_iteration_step:
  assumes "llm_retry env opts 0 max_retries ms st = (r, ms1, st1)"
  obtains (stop) "tu_store (snd (llm_iteration env opts it (Suc left) ms st)) = tu_store st1"
      "tu_sent (snd (llm_iteration env opts it (Suc left) ms st)) = tu_sent st1"
  | (last_exchange) resp st2 where "lr_tool_calls resp \<noteq> []" "tu_store st2 = tu_store st1" "tu_sent st2 = tu_sent st1"
      "snd (llm_iteration env opts it (Suc left) ms st) = run_exchange env opts (Suc it) resp st2"
  | (more) resp st2 st4 where "lr_tool_calls resp \<noteq> []" "tu_store st2 = tu_store st1"
      "tu_store st4 = tu_store (run_exchange env opts (Suc it) resp st2)" "tu_sent st4 = tu_sent st1"
      "snd (llm_iteration env opts it (Suc left) ms st) =
        snd (llm_iteration env opts (Suc it) left (ms1 @ agent_exchange env opts (Suc it) resp st2) st4)"
proof (cases r)
  case (Inl e)
  then show ?thesis using stop by (simp add: assms)
next
  case (Inr x)
  show ?thesis
  proof (cases x)
    case None
    then show ?thesis using Inr stop by (simp add: assms)
  next
    case (Some resp)
    define st2 where "st2 = st1\<lparr>tu_out := tu_out st1 @ handle_reasoning env opts resp\<rparr>"
    define st4 where "st4 = (run_exchange env opts (Suc it) resp st2)\<lparr>tu_registry :=
      tick_ttl (tu_registry (run_exchange env opts (Suc it) resp st2))\<rparr>"
    have "llm_iteration env opts it (Suc left) ms st =
        (if lr_tool_calls resp = [] then
           (Turn_Done (if lr_content resp = [] \<and> lr_reasoning_content resp \<noteq> []
              then lr_reasoning_content resp else lr_content resp) (Suc it), st2)
         else if list_ex (\<lambda>(tc, r). tr_stop_on_error r) (agent_results env opts (Suc it) resp st2)
         then (Turn_Done fatal_notice (Suc it), run_exchange env opts (Suc it) resp st2)
         else llm_iteration env opts (Suc it) left (ms1 @ agent_exchange env opts (Suc it) resp st2) st4)"
      by (simp add: assms Inr Some Let_def st2_def st4_def)
    moreover have "tu_store st2 = tu_store st1" "tu_sent st2 = tu_sent st1" "tu_sent st4 = tu_sent st1"
        "tu_store st4 = tu_store (run_exchange env opts (Suc it) resp st2)"
      by (simp_all add: st2_def st4_def)
    ultimately show ?thesis using stop last_exchange [of resp st2] more [of resp st2 st4]
      by (metis snd_conv)
  qed
qed

text \<open>The conversation between two model calls of a turn.\<close>

definition request_ready :: "message list \<Rightarrow> bool" where
  "request_ready ms \<longleftrightarrow> (\<exists>s rest. ms = s # rest \<and> is_system s \<and> turn_ready rest)"

lemma request_ready_exchange:
  "request_ready ms \<Longrightarrow> complete_exchange ex \<Longrightarrow> request_ready (ms @ ex)"
  using turn_ready_exchange by (fastforce simp: request_ready_def)

lemma llm_iteration_requests:
  assumes "no_context_errors env"
  shows "request_ready ms \<Longrightarrow> \<forall>m\<in>set (tu_sent st). request_ready m \<Longrightarrow>
    \<forall>m\<in>set (tu_sent (snd (llm_iteration env opts it left ms st))). request_ready m"
proof (induction left arbitrary: it ms st)
  case (Suc left)
  obtain r ms1 st1 where r: "llm_retry env opts 0 max_retries ms st = (r, ms1, st1)"
    using prod_cases3 by blast
  note same = llm_retry_same [OF assms r]
  have sent: "\<forall>m\<in>set (tu_sent st1). request_ready m" and ms1: "request_ready ms1"
    using same Suc.prems by auto
  from r show ?case
  proof (cases rule: llm_iteration_step [where it = it and left = left])
    case stop
    then show ?thesis using sent by simp
  next
    case (last_exchange resp st2)
    then show ?thesis using sent by simp
  next
    case (more resp st2 st4)
    have "request_ready (ms1 @ agent_exchange env opts (Suc it) resp st2)"
      using request_ready_exchange [OF ms1 agent_exchange_complete [OF more(1)]] .
    then show ?thesis unfolding more(5) by (rule Suc.IH) (simp add: sent more(4))
  qed
qed simp

lemma initial_messages_ready:
  assumes "trim_space (po_user_message opts) \<noteq> []"
  shows "request_ready (initial_messages env opts st)"
proof -
  obtain f where f: "same_shape f" "initial_messages env opts st = map f (build_messages (tv_static env)
      (tv_dynamic env (tu_calls st) (po_channel opts) (po_chat_id opts))
      (if po_no_history opts then [] else so_history (tv_ops env) (tu_store st) (po_session_key opts))
      (if po_no_history opts then [] else so_summary (tv_ops env) (tu_store st) (po_session_key opts))
      (po_user_message opts) (po_media opts))"
    unfolding initial_messages_def Let_def using resolve_media_shape by metis
  have "request_ready (build_messages a b h sm (po_user_message opts) md)" for a b h sm md
    using build_messages_parts [of a b h sm "po_user_message opts" md] assms
    by (auto simp: request_ready_def turn_ready_def)
  then obtain s rest where "build_messages (tv_static env)
      (tv_dynamic env (tu_calls st) (po_channel opts) (po_chat_id opts))
      (if po_no_history opts then [] else so_history (tv_ops env) (tu_store st) (po_session_key opts))
      (if po_no_history opts then [] else so_summary (tv_ops env) (tu_store st) (po_session_key opts))
      (po_user_message opts) (po_media opts) = s # rest" "is_system s" "turn_ready rest"
    unfolding request_ready_def by blast
  then show ?thesis using f turn_ready_map [OF f(1)] by (auto simp: request_ready_def)
qed

section \<open>All requests of a turn\<close>

text \<open>
  The form of every request, those rebuilt after a context-window error included: the system message, a history as
  the sanitizer leaves it, and the exchanges of the turn behind it, each complete.
\<close>

definition request_form :: "message list \<Rightarrow> bool" where
  "request_form ms \<longleftrightarrow> (\<exists>system base exs. ms = system # base @ concat exs \<and> is_system system \<and> ready None base \<and>
     list_all complete_exchange exs)"

lemma request_form_exchange: "request_form ms \<Longrightarrow> complete_exchange ex \<Longrightarrow> request_form (ms @ ex)"
proof -
  assume "request_form ms" "complete_exchange ex"
  then obtain system base exs where "ms = system # base @ concat exs" "is_system system" "ready None base"
    "list_all complete_exchange exs" by (auto simp: request_form_def)
  then have "ms @ ex = system # base @ concat (exs @ [ex]) \<and> list_all complete_exchange (exs @ [ex])"
    using \<open>complete_exchange ex\<close> by simp
  then show ?thesis using \<open>is_system system\<close> \<open>ready None base\<close> unfolding request_form_def by blast
qed

lemma request_form_base: "is_system system \<Longrightarrow> ready None base \<Longrightarrow> request_form (system # base)"
  unfolding request_form_def by (rule exI [of _ system], rule exI [of _ base], rule exI [of _ "[]"]) simp

lemma build_messages_form: "request_form (build_messages static dynamic history summary current media)"
  using build_messages_parts [of static dynamic history summary current media] by (auto intro: request_form_base)

lemma rebuilt_form: "request_form (fst (compress_and_rebuild env opts retry st))"
  by (simp add: compress_and_rebuild_def Let_def build_messages_form)

lemma initial_messages_form: "request_form (initial_messages env opts st)"
proof -
  let ?h = "if po_no_history opts then [] else so_history (tv_ops env) (tu_store st) (po_session_key opts)"
  let ?s = "if po_no_history opts then [] else so_summary (tv_ops env) (tu_store st) (po_session_key opts)"
  let ?b = "build_messages (tv_static env) (tv_dynamic env (tu_calls st) (po_channel opts) (po_chat_id opts)) ?h ?s
    (po_user_message opts) (po_media opts)"
  obtain f where f: "same_shape f" "initial_messages env opts st = map f ?b"
    unfolding initial_messages_def Let_def using resolve_media_shape by metis
  obtain system rest where "?b = system # rest" "is_system system" "ready None rest"
    using build_messages_parts by blast
  then show ?thesis using f ready_map [of None rest f] request_form_base by simp
qed

lemma llm_retry_forms:
  "llm_retry env opts retry left ms st = (r, ms1, st1) \<Longrightarrow> request_form ms \<Longrightarrow> \<forall>m\<in>set (tu_sent st). request_form m \<Longrightarrow>
    request_form ms1 \<and> (\<forall>m\<in>set (tu_sent st1). request_form m)"
proof (induction left arbitrary: retry ms st)
  case 0
  then show ?case by (auto simp: call_model_def Let_def)
next
  case (Suc left)
  let ?st = "snd (call_model env ms st)"
  have sent: "\<forall>m\<in>set (tu_sent ?st). request_form m" using Suc.prems(2,3) by simp
  show ?case
  proof (cases "tv_call env (tu_calls st) ms (to_provider_defs (tu_registry st))")
    case (Inl e)
    have "tu_sent (snd (compress_and_rebuild env opts retry ?st)) = tu_sent ?st"
      by (simp add: compress_and_rebuild_def Let_def)
    then have "\<forall>m\<in>set (tu_sent (snd (compress_and_rebuild env opts retry ?st))). request_form m" using sent by simp
    note compressed = Suc.IH [OF _ rebuilt_form this]
    show ?thesis
      using Suc.prems Suc.IH [OF _ Suc.prems(2) sent, of "Suc retry"] compressed [of "Suc retry"] sent Inl
      by (auto simp: call_model_def case_prod_beta Let_def split: if_splits)
  qed (use Suc.prems in \<open>auto simp: call_model_def\<close>)
qed

lemma llm_iteration_forms:
  "request_form ms \<Longrightarrow> \<forall>m\<in>set (tu_sent st). request_form m \<Longrightarrow>
    \<forall>m\<in>set (tu_sent (snd (llm_iteration env opts it left ms st))). request_form m"
proof (induction left arbitrary: it ms st)
  case (Suc left)
  obtain r ms1 st1 where r: "llm_retry env opts 0 max_retries ms st = (r, ms1, st1)"
    using prod_cases3 by blast
  note forms = llm_retry_forms [OF r Suc.prems]
  from r show ?case
  proof (cases rule: llm_iteration_step [where it = it and left = left])
    case (more resp st2 st4)
    have "request_form (ms1 @ agent_exchange env opts (Suc it) resp st2)"
      using request_form_exchange [OF _ agent_exchange_complete [OF more(1)]] forms by blast
    then show ?thesis unfolding more(5) by (rule Suc.IH) (use forms in \<open>simp add: more(4)\<close>)
  qed (use forms in simp_all)
qed simp

lemma turn_requests:
  assumes "tu_sent st = []" "sent \<in> set (tu_sent (snd (run_agent_loop env opts st)))"
  obtains st1 where "tu_sent st1 = []"
    "sent \<in> set (tu_sent (snd (run_llm_iteration env opts (initial_messages env opts (record_last_channel opts st)) st1)))"
proof
  let ?st = "(record_last_channel opts st)\<lparr>tu_store := so_add (tv_ops env) (tu_store (record_last_channel opts st))
    (po_session_key opts) (mk_message ''user'' (po_user_message opts))\<rparr>"
  show "tu_sent ?st = []" using assms(1) by (simp add: record_last_channel_def)
  have "tu_sent (snd (run_agent_loop env opts st)) =
      tu_sent (snd (run_llm_iteration env opts (initial_messages env opts (record_last_channel opts st)) ?st))"
    unfolding run_agent_loop_def Let_def by (auto split: prod.split turn_outcome.split)
  then show "sent \<in> set (tu_sent (snd (run_llm_iteration env opts (initial_messages env opts (record_last_channel opts st)) ?st)))"
    using assms(2) by simp
qed

text \<open>
  C5: Every request of a turn, those rebuilt after a context-window error included, is one system message, a history
  that a strict provider accepts, and behind it complete exchanges: calls of the model, each with its result, so that no
  tool result stands without its call and no call without its result.  In a turn without context-window errors, for a
  message that is not blank, all that follows the system message is acceptable, and ends with the user's message or a tool
  result; whatever the session holds, the model answers and the tools return.
\<close>

theorem turn_requests_ready:
  assumes "tu_sent st = []" "sent \<in> set (tu_sent (snd (run_agent_loop env opts st)))"
  shows "(\<exists>system base exs. sent = system # base @ concat exs \<and> is_system system \<and> ready None base \<and>
      list_all complete_exchange exs) \<and>
    (no_context_errors env \<and> trim_space (po_user_message opts) \<noteq> [] \<longrightarrow>
      (\<exists>system rest. sent = system # rest \<and> is_system system \<and> turn_ready rest))"
proof -
  obtain st1 where st1: "tu_sent st1 = []"
    "sent \<in> set (tu_sent (snd (run_llm_iteration env opts (initial_messages env opts (record_last_channel opts st)) st1)))"
    using turn_requests [OF assms] .
  have "\<forall>m\<in>set (tu_sent (snd (run_llm_iteration env opts (initial_messages env opts (record_last_channel opts st)) st1))).
      request_form m"
    unfolding run_llm_iteration_def by (rule llm_iteration_forms [OF initial_messages_form]) (simp add: st1(1))
  then have "request_form sent" using st1(2) by blast
  moreover have "request_ready sent" if "no_context_errors env" "trim_space (po_user_message opts) \<noteq> []"
  proof -
    have "\<forall>m\<in>set (tu_sent (snd (run_llm_iteration env opts (initial_messages env opts (record_last_channel opts st)) st1))).
        request_ready m"
      unfolding run_llm_iteration_def
      by (rule llm_iteration_requests [OF that(1) initial_messages_ready [OF that(2)]]) (simp add: st1(1))
    then show ?thesis using st1(2) by blast
  qed
  ultimately show ?thesis unfolding request_form_def request_ready_def by blast
qed

section \<open>What a turn leaves in the session\<close>

text \<open>The history a turn adds: the user's message, complete exchanges, and the answer.\<close>

lemma ready_exchanges:
  "list_all complete_exchange exs \<Longrightarrow> turn_ready ms \<Longrightarrow> turn_ready (ms @ concat exs)"
proof (induction exs arbitrary: ms)
  case (Cons ex exs)
  then have "turn_ready ((ms @ ex) @ concat exs)" by (intro Cons.IH) (auto intro: turn_ready_exchange)
  then show ?case by simp
qed simp

context session_store
begin

lemma history_run_exchange:
  assumes "tv_ops env = ops" "\<And>m. good m" "inv (tu_store st)"
  shows "inv (tu_store (run_exchange env opts it resp st)) \<and>
    so_history ops (tu_store (run_exchange env opts it resp st)) (po_session_key opts) =
      so_history ops (tu_store st) (po_session_key opts) @ map view (agent_exchange env opts it resp st)"
  unfolding store_run_exchange assms(1)
  by (rule foldl_add [OF assms(3)]) (simp add: list_all_iff assms(2))

lemma history_llm_iteration:
  assumes ops: "tv_ops env = ops" and nc: "no_context_errors env" and gd: "\<And>m. good m" and sh: "same_shape view"
  shows "inv (tu_store st) \<Longrightarrow> inv (tu_store (snd (llm_iteration env opts it left ms st))) \<and>
    (\<exists>exs. list_all complete_exchange exs \<and>
      so_history ops (tu_store (snd (llm_iteration env opts it left ms st))) (po_session_key opts) =
      so_history ops (tu_store st) (po_session_key opts) @ concat exs)"
proof (induction left arbitrary: it ms st)
  case 0
  then show ?case by (auto intro!: exI [of _ "[]"])
next
  case (Suc left)
  let ?k = "po_session_key opts"
  obtain r ms1 st1 where r: "llm_retry env opts 0 max_retries ms st = (r, ms1, st1)"
    using prod_cases3 by blast
  have s1: "tu_store st1 = tu_store st" using llm_retry_same [OF nc r] by simp
  have exch: "inv (tu_store (run_exchange env opts (Suc it) resp st2)) \<and>
      so_history ops (tu_store (run_exchange env opts (Suc it) resp st2)) ?k =
        so_history ops (tu_store st) ?k @ map view (agent_exchange env opts (Suc it) resp st2) \<and>
      complete_exchange (map view (agent_exchange env opts (Suc it) resp st2))"
    if "tu_store st2 = tu_store st1" "lr_tool_calls resp \<noteq> []" for st2 resp
    using history_run_exchange [OF ops gd, of st2 opts "Suc it" resp] Suc.prems that s1
      complete_exchange_map [OF sh agent_exchange_complete [OF that(2)]] by simp
  from r show ?case
  proof (cases rule: llm_iteration_step [where it = it and left = left])
    case stop
    then show ?thesis using s1 Suc.prems by (auto intro!: exI [of _ "[]"])
  next
    case (last_exchange resp st2)
    then show ?thesis using exch [of st2 resp]
      by (auto intro!: exI [of _ "[map view (agent_exchange env opts (Suc it) resp st2)]"])
  next
    case (more resp st2 st4)
    note e = exch [OF more(2,1)]
    have "inv (tu_store st4)" using e more(3) by simp
    from Suc.IH [OF this, of "Suc it" "ms1 @ agent_exchange env opts (Suc it) resp st2"]
    obtain exs where "list_all complete_exchange exs"
      "so_history ops (tu_store (snd (llm_iteration env opts it (Suc left) ms st))) ?k =
        so_history ops (tu_store st4) ?k @ concat exs"
      "inv (tu_store (snd (llm_iteration env opts it (Suc left) ms st)))"
      unfolding more(5) by blast
    then show ?thesis using e more(3)
      by (auto intro!: exI [of _ "map view (agent_exchange env opts (Suc it) resp st2) # exs"])
  qed
qed

end

end
