(* ===== verification/Agent_Turns.thy ===== *)
theory Agent_Turns
  imports Agent_Loop
begin

text \<open>
  What a turn of the agent (\<open>runAgentLoop\<close>, modelled in \<open>Agent_Loop\<close>) leaves behind: the history of
  its session, the number of model calls, and, on concrete runs, what emergency compression does to the
  question that is being answered.
\<close>

section \<open>The history of the session\<close>

lemma record_last_channel_sel [simp]:
  "tu_store (record_last_channel opts st) = tu_store st" "tu_sent (record_last_channel opts st) = tu_sent st"
  "tu_registry (record_last_channel opts st) = tu_registry st"
  by (simp_all add: record_last_channel_def)

text \<open>The state after the model loop of a turn.\<close>

definition after_iterations :: "'s turn_env \<Rightarrow> process_options \<Rightarrow> 's turn \<Rightarrow> 's turn" where
  "after_iterations env opts st =
    (let st1 = record_last_channel opts st in
     snd (run_llm_iteration env opts (initial_messages env opts st1)
       (st1\<lparr>tu_store := so_add (tv_ops env) (tu_store st1) (po_session_key opts)
         (mk_message ''user'' (po_user_message opts))\<rparr>)))"

lemma run_agent_loop_answer:
  assumes "run_agent_loop env opts st = (Some (Ok answer), st')"
  shows "tu_store st' = so_save (tv_ops env) (so_add (tv_ops env) (tu_store (after_iterations env opts st))
    (po_session_key opts) (mk_message ''assistant'' answer)) (po_session_key opts)"
  using assms unfolding run_agent_loop_def after_iterations_def Let_def
  by (auto split: prod.splits turn_outcome.splits)

lemma run_agent_loop_no_answer:
  assumes "run_agent_loop env opts st = (r, st')" "\<nexists>answer. r = Some (Ok answer)"
  shows "tu_store st' = tu_store (after_iterations env opts st)"
  using assms unfolding run_agent_loop_def after_iterations_def Let_def
  by (auto split: prod.splits turn_outcome.splits)

context session_store
begin

lemma history_after_iterations:
  assumes ops: "tv_ops env = ops" and nc: "no_context_errors env" and gd: "\<And>m. good m" and sh: "same_shape view"
    and iv: "inv (tu_store st)"
  obtains exs where "list_all complete_exchange exs" "inv (tu_store (after_iterations env opts st))"
    "so_history ops (tu_store (after_iterations env opts st)) (po_session_key opts) =
      so_history ops (tu_store st) (po_session_key opts) @ [view (mk_message ''user'' (po_user_message opts))] @ concat exs"
proof -
  define st2 where "st2 = (record_last_channel opts st)\<lparr>tu_store := so_add ops (tu_store st) (po_session_key opts)
    (mk_message ''user'' (po_user_message opts))\<rparr>"
  have "inv (tu_store st2)" using iv by (simp add: st2_def inv_add gd)
  moreover have "after_iterations env opts st = snd (llm_iteration env opts 0 (nat (tv_max_iterations env))
      (initial_messages env opts (record_last_channel opts st)) st2)"
    by (simp add: after_iterations_def run_llm_iteration_def Let_def st2_def ops)
  ultimately obtain exs where "list_all complete_exchange exs" "inv (tu_store (after_iterations env opts st))"
    "so_history ops (tu_store (after_iterations env opts st)) (po_session_key opts) =
      so_history ops (tu_store st2) (po_session_key opts) @ concat exs"
    using history_llm_iteration [OF ops nc gd sh, where opts = opts and st = st2] by metis
  then show ?thesis using iv that by (simp add: st2_def history_add gd)
qed

text \<open>A turn that answers adds the question, complete exchanges and the answer to its session.\<close>

lemma turn_history:
  assumes "tv_ops env = ops" "no_context_errors env" "\<And>m. good m" "same_shape view" "inv (tu_store st)"
    and "run_agent_loop env opts st = (Some (Ok answer), st')"
  obtains exs where "list_all complete_exchange exs"
    "so_history ops (tu_store st') (po_session_key opts) =
      so_history ops (tu_store st) (po_session_key opts) @ [view (mk_message ''user'' (po_user_message opts))] @
      concat exs @ [view (mk_message ''assistant'' answer)]"
proof -
  obtain exs where e: "list_all complete_exchange exs" "inv (tu_store (after_iterations env opts st))"
    "so_history ops (tu_store (after_iterations env opts st)) (po_session_key opts) =
      so_history ops (tu_store st) (po_session_key opts) @ [view (mk_message ''user'' (po_user_message opts))] @ concat exs"
    using history_after_iterations [OF assms(1-5)] by blast
  show ?thesis
    by (rule that [OF e(1)])
      (simp add: run_agent_loop_answer [OF assms(6)] assms(1,3) e(2,3) inv_add history_add history_save)
qed

end

lemma ready_turn:
  assumes "ready None h" "is_user u" "list_all complete_exchange exs"
  shows "turn_ready (h @ [u] @ concat exs)"
  using ready_exchanges [OF assms(3) turn_ready_user [OF assms(1,2)]] by simp

lemma ready_answered:
  "ready None h \<Longrightarrow> is_user u \<Longrightarrow> list_all complete_exchange exs \<Longrightarrow> plain a \<Longrightarrow>
    ready None (h @ [u] @ concat exs @ [a])"
  using ready_snoc [of None "h @ [u] @ concat exs" a] ready_turn by (simp add: turn_ready_def)

lemma assistant_plain [simp]: "plain (mk_message ''assistant'' c)"
  by (simp add: plain_def is_system_def is_tool_def)

text \<open>
  C6: A turn that answers (without a context-window error) adds exactly the user's message, zero or more
  complete tool exchanges and the answer to the session, in this order; an acceptable session stays
  acceptable, so sanitizing the next request drops nothing of it.
\<close>

theorem turn_keeps_session_ready:
  assumes "tv_ops env = manager_ops strip now" "no_context_errors env"
    and "run_agent_loop env opts st = (Some (Ok answer), st')"
    and "ready None (sm_get_history (tu_store st) (po_session_key opts))"
  shows "\<exists>exs. list_all complete_exchange exs \<and>
      sm_get_history (tu_store st') (po_session_key opts) =
        sm_get_history (tu_store st) (po_session_key opts) @ [mk_message ''user'' (po_user_message opts)] @
        concat exs @ [mk_message ''assistant'' answer] \<and>
      sanitize_history (sm_get_history (tu_store st') (po_session_key opts)) =
        sm_get_history (tu_store st') (po_session_key opts)"
proof -
  obtain exs where "list_all complete_exchange exs"
    "sm_get_history (tu_store st') (po_session_key opts) =
      sm_get_history (tu_store st) (po_session_key opts) @ [mk_message ''user'' (po_user_message opts)] @
      concat exs @ [mk_message ''assistant'' answer]"
    using manager.turn_history [OF assms(1,2) _ _ _ assms(3)] by auto
  then show ?thesis
    using ready_answered [OF assms(4), of "mk_message ''user'' (po_user_message opts)" exs
      "mk_message ''assistant'' answer"] sanitize_ready by auto
qed

section \<open>Bounds\<close>

lemma llm_retry_calls:
  "length (tu_sent (snd (snd (llm_retry env opts retry left ms st)))) \<le> length (tu_sent st) + left + 1"
proof (induction left arbitrary: retry ms st)
  case 0
  then show ?case by (simp add: call_model_def Let_def)
next
  case (Suc left)
  have c: "length (tu_sent (snd (compress_and_rebuild env opts retry s))) = length (tu_sent s)" for s
    by (simp add: compress_and_rebuild_def Let_def)
  show ?case
    using Suc.IH [of "Suc retry" ms "snd (call_model env ms st)"]
      Suc.IH [of "Suc retry" "fst (compress_and_rebuild env opts retry (snd (call_model env ms st)))"
        "snd (compress_and_rebuild env opts retry (snd (call_model env ms st)))"]
    by (auto simp: case_prod_beta Let_def c call_model_def split: sum.split)
qed

lemma llm_iteration_calls:
  "length (tu_sent (snd (llm_iteration env opts it left ms st))) \<le> length (tu_sent st) + 3 * left"
proof (induction left arbitrary: it ms st)
  case (Suc left)
  obtain r ms1 st1 where r: "llm_retry env opts 0 max_retries ms st = (r, ms1, st1)"
    using prod_cases3 by blast
  then have n: "length (tu_sent st1) \<le> length (tu_sent st) + 3"
    using llm_retry_calls [of env opts 0 max_retries ms st] by (simp add: max_retries_def)
  from r show ?case
  proof (cases rule: llm_iteration_step [where it = it and left = left])
    case (more resp st2 st4)
    then show ?thesis
      using Suc.IH [of "Suc it" "ms1 @ agent_exchange env opts (Suc it) resp st2" st4] n by simp
  qed (use n in simp_all)
qed simp

text \<open>
  A turn of the agent ends, and asks the model at most three times per iteration: twice the retry
  after a timeout or a compression, and no more iterations than configured.
\<close>

theorem turn_calls_bounded:
  "length (tu_sent (snd (run_agent_loop env opts st))) \<le> length (tu_sent st) + 3 * nat (tv_max_iterations env)"
proof -
  have "tu_sent (snd (run_agent_loop env opts st)) = tu_sent (after_iterations env opts st)"
    unfolding run_agent_loop_def after_iterations_def Let_def by (auto split: prod.split turn_outcome.split)
  moreover have "length (tu_sent (after_iterations env opts st)) \<le> length (tu_sent st) + 3 * nat (tv_max_iterations env)"
    unfolding after_iterations_def run_llm_iteration_def Let_def
    by (rule order_trans [OF llm_iteration_calls]) simp
  ultimately show ?thesis by simp
qed

section \<open>A concrete turn\<close>

text \<open>A first answer with one tool call and a second one without, on an in-memory session.\<close>

definition turn_limits :: context_limits where
  "turn_limits = \<lparr>cl_window = 8192, cl_message_threshold = 20, cl_token_percent = 75\<rparr>"

definition demo_env :: "session_manager turn_env" where
  "demo_env = \<lparr>tv_ops = manager_ops (\<lambda>m. m) 7, tv_agent_id = ''main'', tv_limits = turn_limits,
     tv_static = ''be brief'', tv_dynamic = (\<lambda>n c i. ''noon''), tv_load = None,
     tv_call = (\<lambda>n ms ds. Ok (Some (demo_answer (Suc n)))), tv_json = demo_json, tv_max_iterations = 5,
     tv_media_meta = (\<lambda>r. None), tv_reasoning_chat = (\<lambda>c. []), tv_discover = (\<lambda>n r. r)\<rparr>"

definition demo_opts :: process_options where
  "demo_opts = \<lparr>po_session_key = ''agent:main:main'', po_channel = ''telegram'', po_chat_id = ''42'',
     po_user_message = ''hi'', po_media = [], po_default_response = ''done'', po_enable_summary = False,
     po_send_response = True, po_no_history = False\<rparr>"

definition demo_turn :: "session_manager turn" where
  "demo_turn = \<lparr>tu_store = \<lparr>sm_sessions = (\<lambda>k. None), sm_storage = [], sm_disk = (\<lambda>k. None)\<rparr>,
     tu_registry = demo_registry, tu_calls = 0, tu_out = [], tu_last_channel = [], tu_summarizing = {},
     tu_sent = []\<rparr>"

lemma demo_turn_runs:
  "fst (run_agent_loop demo_env demo_opts demo_turn) = Some (Ok ''ok'')"
  "map (map msg_role) (tu_sent (snd (run_agent_loop demo_env demo_opts demo_turn))) =
    [[''system'', ''user''], [''system'', ''user'', ''assistant'', ''tool'']]"
  "tu_out (snd (run_agent_loop demo_env demo_opts demo_turn)) =
    [Out_Text ''telegram'' ''42'' ''done'', Out_Text ''telegram'' ''42'' ''ok'']"
  by code_simp+

lemma demo_no_context_errors: "no_context_errors demo_env"
  by (simp add: no_context_errors_def demo_env_def)

theorem turn_keeps_session_ready_witness:
  "\<exists>exs. list_all complete_exchange exs \<and>
    sm_get_history (tu_store (snd (run_agent_loop demo_env demo_opts demo_turn))) ''agent:main:main'' =
      mk_message ''user'' ''hi'' # concat exs @ [mk_message ''assistant'' ''ok'']"
proof -
  have h: "sm_get_history (tu_store demo_turn) ''agent:main:main'' = []"
    and o: "po_session_key demo_opts = ''agent:main:main''" "po_user_message demo_opts = ''hi''"
    and e: "tv_ops demo_env = manager_ops (\<lambda>m. m) 7"
    by (simp_all add: demo_turn_def sm_get_history_def demo_opts_def demo_env_def)
  have "run_agent_loop demo_env demo_opts demo_turn = (Some (Ok ''ok''), snd (run_agent_loop demo_env demo_opts demo_turn))"
    by (simp add: prod_eq_iff demo_turn_runs(1))
  from turn_keeps_session_ready [OF e demo_no_context_errors this] ready_nil
  show ?thesis by (auto simp: h o)
qed

theorem turn_requests_ready_witness:
  "\<exists>system rest. last (tu_sent (snd (run_agent_loop demo_env demo_opts demo_turn))) = system # rest \<and>
     is_system system \<and> turn_ready rest \<and> map msg_role rest = [''user'', ''assistant'', ''tool'']"
proof -
  let ?sent = "tu_sent (snd (run_agent_loop demo_env demo_opts demo_turn))"
  have q: "no_context_errors demo_env \<and> trim_space (po_user_message demo_opts) \<noteq> []"
    using demo_no_context_errors by (rule conjI) code_simp
  have s: "tu_sent demo_turn = []" by (simp add: demo_turn_def)
  have ne: "?sent \<noteq> []" using demo_turn_runs(2) by auto
  then have "map msg_role (last ?sent) = [''system'', ''user'', ''assistant'', ''tool'']"
    using arg_cong [OF demo_turn_runs(2), of last] by (simp add: last_map)
  then show ?thesis
    using turn_requests_ready [OF s last_in_set [OF ne]] q by auto
qed

section \<open>Compression in the middle of a turn\<close>

text \<open>The users' messages of a history survive sanitizing: what a request asks is what the history asks.\<close>

lemma sanitize_users: "filter is_user (sanitize_history ms) = filter is_user ms"
proof -
  have "filter plain (sanitize_history ms) = filter plain ms"
    by (simp add: sanitize_history_passes sanitize_pass1_keep pass2_plain keep_plain)
  then have "filter is_user (filter plain (sanitize_history ms)) = filter is_user (filter plain ms)" by simp
  moreover have "filter is_user (filter plain xs) = filter is_user xs" for xs
    by (induction xs) (auto dest: user_plain)
  ultimately show ?thesis by simp
qed

lemma trim_empty: "trim_space [] = []"
  by code_simp

text \<open>
  The request the agent retries with after a context-window error asks what the session still asks:
  the first message of the session, if it is a user's, and the user messages in the kept half. When the
  question of the turn lies in the dropped half, behind it the tool results of the turn, it is not sent.
\<close>

theorem retried_request_questions:
  assumes "tv_ops env = manager_ops strip now"
    and "compress_history (sm_get_history (tu_store st) (po_session_key opts)) = Some (first # kept)"
  shows "filter is_user (fst (compress_and_rebuild env opts retry st)) = filter is_user (first # kept)"
proof -
  have "sm_get_history (tu_store st) (po_session_key opts) \<noteq> []"
    using assms(2) by (auto simp: compress_history_def)
  then have k: "manager_known (tu_store st) (po_session_key opts)"
    by (auto simp: sm_get_history_def manager_known_def split: option.splits)
  have "sm_get_history (force_compression (manager_ops strip now) (tu_store st) (po_session_key opts))
      (po_session_key opts) = first # kept"
    using manager.history_force_compression [of "tu_store st" "po_session_key opts" strip now] assms(2) k
    by simp
  then have "fst (compress_and_rebuild env opts retry st) = build_messages (tv_static env)
      (tv_dynamic env (tu_calls st) (po_channel opts) (po_chat_id opts)) (first # kept)
      (so_summary (tv_ops env) (force_compression (tv_ops env) (tu_store st) (po_session_key opts)) (po_session_key opts)) [] []"
    using assms(1) by (simp add: compress_and_rebuild_def Let_def)
  also have "filter is_user \<dots> = filter is_user (sanitize_history (first # kept))"
    using trim_empty by (simp add: build_messages_def Let_def is_user_def)
  finally show ?thesis by (simp only: sanitize_users)
qed

text \<open>A session with an old exchange, and a turn whose question was answered with three tool calls.\<close>

definition crowded_history :: "message list" where
  "crowded_history = [mk_message ''user'' ''old'', mk_message ''assistant'' ''ok'', mk_message ''user'' ''new'',
     (mk_message ''assistant'' [])\<lparr>msg_tool_calls := [demo_call, demo_call, demo_call]\<rparr>,
     mk_message ''tool'' ''r1'', mk_message ''tool'' ''r2'', mk_message ''tool'' ''r3'']"

definition crowded_turn :: "session_manager turn" where
  "crowded_turn = demo_turn\<lparr>tu_store := (tu_store demo_turn)\<lparr>sm_sessions :=
     [''agent:main:main'' \<mapsto> (new_session 0 ''agent:main:main'')\<lparr>s_messages := crowded_history\<rparr>]\<rparr>\<rparr>"

text \<open>The model is asked the old question, and gets the tool results of the new one.\<close>

theorem retried_request_questions_witness:
  "map msg_content (filter is_user (fst (compress_and_rebuild demo_env demo_opts 0 crowded_turn))) =
    [''old'' @ compression_note 2]"
proof -
  have o: "tv_ops demo_env = manager_ops (\<lambda>m. m) 7" by (simp add: demo_env_def)
  have "sm_get_history (tu_store crowded_turn) (po_session_key demo_opts) = crowded_history"
    by (simp add: crowded_turn_def demo_turn_def demo_opts_def sm_get_history_def new_session_def)
  moreover have "compress_history crowded_history = Some
      ((mk_message ''user'' ''old'')\<lparr>msg_content := ''old'' @ compression_note 2\<rparr> #
       [(mk_message ''assistant'' [])\<lparr>msg_tool_calls := [demo_call, demo_call, demo_call]\<rparr>,
        mk_message ''tool'' ''r1'', mk_message ''tool'' ''r2'', mk_message ''tool'' ''r3''])"
    by (simp add: compress_history_def crowded_history_def Let_def) (simp add: numeral_2_eq_2)
  ultimately show ?thesis
    using retried_request_questions [OF o, of crowded_turn demo_opts] by (simp add: is_user_def)
qed

text \<open>
  If the session does not start with a question and the cut falls between the results of the turn, the retried request
  holds no question at all and ends with an old answer.
\<close>

definition cut_turn :: "session_manager turn" where
  "cut_turn = demo_turn\<lparr>tu_store := (tu_store demo_turn)\<lparr>sm_sessions :=
     [''agent:main:main'' \<mapsto> (new_session 0 ''agent:main:main'')\<lparr>s_messages := mk_message ''assistant'' ''ok'' # drop 2 crowded_history\<rparr>]\<rparr>\<rparr>"

lemma retried_request_without_question:
  "map msg_role (fst (compress_and_rebuild demo_env demo_opts 0 cut_turn)) = [''system'', ''assistant'']"
  by code_simp

text \<open>A turn without history, as the heartbeat runs it, sends the whole session after such an error.\<close>

definition full_env :: "session_manager turn_env" where
  "full_env = demo_env\<lparr>tv_call := (\<lambda>n ms ds.
     if n = 0 then Err \<lparr>er_text = ''token limit'', er_deadline = False\<rparr> else Ok (Some (demo_answer 2)))\<rparr>"

definition old_turn :: "session_manager turn" where
  "old_turn = demo_turn\<lparr>tu_store := (tu_store demo_turn)\<lparr>sm_sessions :=
     [''agent:main:main'' \<mapsto> (new_session 0 ''agent:main:main'')\<lparr>s_messages := [mk_message ''user'' ''old'']\<rparr>]\<rparr>\<rparr>"

lemma no_history_turn_loads_history:
  "map (\<lambda>ms. map msg_content (filter is_user ms))
     (tu_sent (snd (run_agent_loop full_env (demo_opts\<lparr>po_no_history := True\<rparr>) old_turn))) =
    [[''hi''], [''old'', ''hi'']]"
  by code_simp

end
