(* ===== verification/Go_Regexp.thy ===== *)
theory Go_Regexp
  imports Go_Strings
begin

text \<open>
  The part of package regexp the program uses: byte classes, concatenation, alternation, greedy
  repetition and word boundaries, searched for anywhere in a string. \<open>rx_run\<close> enumerates the ways to match in the
  priority order of Go's leftmost-first rule, so its first result is the match Go reports. The
  relation \<open>rx_match\<close> is the declarative meaning, and the search is proved to find a match exactly when a
  substring has one. Patterns are matched on bytes: \<open>.\<close> is any byte but a newline.
\<close>

datatype rx =
    Rx_Char "char \<Rightarrow> bool"
  | Rx_Eps
  | Rx_Seq rx rx
  | Rx_Alt rx rx
  | Rx_Star rx
  | Rx_Bound
  | Rx_Begin
  | Rx_End

section \<open>Building patterns\<close>

definition rx_chr :: "char \<Rightarrow> rx" where "rx_chr c = Rx_Char (\<lambda>x. x = c)"
definition rx_in :: "string \<Rightarrow> rx" where "rx_in cs = Rx_Char (\<lambda>x. x \<in> set cs)"
definition rx_any :: rx where "rx_any = Rx_Char (\<lambda>x. x \<noteq> CHR 0x0A)"
definition rx_range :: "char \<Rightarrow> char \<Rightarrow> rx" where "rx_range a b = Rx_Char (\<lambda>x. byte a \<le> byte x \<and> byte x \<le> byte b)"
definition rx_digit :: rx where "rx_digit = rx_range (CHR ''0'') (CHR ''9'')"
definition rx_opt :: "rx \<Rightarrow> rx" where "rx_opt r = Rx_Alt r Rx_Eps"
definition rx_plus :: "rx \<Rightarrow> rx" where "rx_plus r = Rx_Seq r (Rx_Star r)"
definition rx_space :: rx where "rx_space = rx_in [CHR 0x09, CHR 0x0A, CHR 0x0C, CHR 0x0D, CHR 0x20]"

fun rx_seq :: "rx list \<Rightarrow> rx" where
  "rx_seq [] = Rx_Eps"
| "rx_seq [r] = r"
| "rx_seq (r # s # rs) = Rx_Seq r (rx_seq (s # rs))"

fun rx_alts :: "rx list \<Rightarrow> rx" where
  "rx_alts [] = Rx_Char (\<lambda>x. False)"
| "rx_alts [r] = r"
| "rx_alts (r # s # rs) = Rx_Alt r (rx_alts (s # rs))"

definition rx_lit :: "string \<Rightarrow> rx" where "rx_lit s = rx_seq (map rx_chr s)"

section \<open>Matching\<close>

text \<open>A state is the text already passed, backwards, and the text to come.\<close>

type_synonym rx_state = "string \<times> string"

definition word_char :: "char \<Rightarrow> bool" where
  "word_char c \<longleftrightarrow> (48 \<le> byte c \<and> byte c \<le> 57) \<or> (65 \<le> byte c \<and> byte c \<le> 90) \<or>
     (97 \<le> byte c \<and> byte c \<le> 122) \<or> c = CHR ''_''"

definition at_boundary :: "string \<Rightarrow> string \<Rightarrow> bool" where
  "at_boundary b a \<longleftrightarrow> (b \<noteq> [] \<and> word_char (hd b)) \<noteq> (a \<noteq> [] \<and> word_char (hd a))"

text \<open>Repetition tries the body first; a round that consumes nothing is not repeated.\<close>

primrec star_run :: "(rx_state \<Rightarrow> rx_state list) \<Rightarrow> nat \<Rightarrow> rx_state \<Rightarrow> rx_state list" where
  "star_run f 0 st = [st]"
| "star_run f (Suc n) st =
    concat (map (star_run f n) (filter (\<lambda>st'. length (snd st') < length (snd st)) (f st))) @ [st]"

primrec rx_run :: "rx \<Rightarrow> rx_state \<Rightarrow> rx_state list" where
  "rx_run (Rx_Char P) st = (case snd st of [] \<Rightarrow> [] | c # s \<Rightarrow> if P c then [(c # fst st, s)] else [])"
| "rx_run Rx_Eps st = [st]"
| "rx_run (Rx_Seq r1 r2) st = concat (map (rx_run r2) (rx_run r1 st))"
| "rx_run (Rx_Alt r1 r2) st = rx_run r1 st @ rx_run r2 st"
| "rx_run (Rx_Star r) st = star_run (rx_run r) (length (snd st)) st"
| "rx_run Rx_Bound st = (if at_boundary (fst st) (snd st) then [st] else [])"
| "rx_run Rx_Begin st = (if fst st = [] then [st] else [])"
| "rx_run Rx_End st = (if snd st = [] then [st] else [])"

text \<open>The leftmost match: the text before it, backwards, and where it ends.\<close>

fun rx_find_from :: "rx \<Rightarrow> string \<Rightarrow> string \<Rightarrow> (rx_state \<times> rx_state) option" where
  "rx_find_from r b [] = (case rx_run r (b, []) of [] \<Rightarrow> None | st # _ \<Rightarrow> Some ((b, []), st))"
| "rx_find_from r b (c # s) = (case rx_run r (b, c # s) of
     [] \<Rightarrow> rx_find_from r (c # b) s
   | st # _ \<Rightarrow> Some ((b, c # s), st))"

definition rx_match_string :: "rx \<Rightarrow> string \<Rightarrow> bool" where
  "rx_match_string r s = (rx_find_from r [] s \<noteq> None)"

text \<open>\<open>FindString\<close>: the text of the leftmost match.\<close>

definition rx_find_string :: "rx \<Rightarrow> string \<Rightarrow> string option" where
  "rx_find_string r s = (case rx_find_from r [] s of
     None \<Rightarrow> None
   | Some ((b, a), (b', a')) \<Rightarrow> Some (take (length a - length a') a))"

section \<open>What a match is\<close>

inductive rx_match :: "rx \<Rightarrow> string \<Rightarrow> string \<Rightarrow> string \<Rightarrow> bool" where
  match_char: "P c \<Longrightarrow> rx_match (Rx_Char P) b [c] a"
| match_eps: "rx_match Rx_Eps b [] a"
| match_seq: "rx_match r1 b t1 (t2 @ a) \<Longrightarrow> rx_match r2 (rev t1 @ b) t2 a \<Longrightarrow> rx_match (Rx_Seq r1 r2) b (t1 @ t2) a"
| match_alt1: "rx_match r1 b t a \<Longrightarrow> rx_match (Rx_Alt r1 r2) b t a"
| match_alt2: "rx_match r2 b t a \<Longrightarrow> rx_match (Rx_Alt r1 r2) b t a"
| match_star0: "rx_match (Rx_Star r) b [] a"
| match_star: "rx_match r b t1 (t2 @ a) \<Longrightarrow> t1 \<noteq> [] \<Longrightarrow> rx_match (Rx_Star r) (rev t1 @ b) t2 a \<Longrightarrow>
    rx_match (Rx_Star r) b (t1 @ t2) a"
| match_bound: "at_boundary b a \<Longrightarrow> rx_match Rx_Bound b [] a"
| match_begin: "rx_match Rx_Begin [] [] a"
| match_end: "rx_match Rx_End b [] []"

inductive_cases match_charE: "rx_match (Rx_Char P) b t a"
inductive_cases match_epsE: "rx_match Rx_Eps b t a"
inductive_cases match_seqE: "rx_match (Rx_Seq r1 r2) b t a"
inductive_cases match_altE: "rx_match (Rx_Alt r1 r2) b t a"
inductive_cases match_starE: "rx_match (Rx_Star r) b t a"
inductive_cases match_boundE: "rx_match Rx_Bound b t a"
inductive_cases match_beginE: "rx_match Rx_Begin b t a"
inductive_cases match_endE: "rx_match Rx_End b t a"

text \<open>\<open>steps r st st'\<close>: from \<open>st\<close> the pattern can match up to \<open>st'\<close>.\<close>

definition steps :: "rx \<Rightarrow> rx_state \<Rightarrow> rx_state \<Rightarrow> bool" where
  "steps r st st' \<longleftrightarrow> (\<exists>t. snd st = t @ snd st' \<and> fst st' = rev t @ fst st \<and> rx_match r (fst st) t (snd st'))"

lemma steps_simps:
  "steps (Rx_Char P) st st' \<longleftrightarrow> (\<exists>c s. snd st = c # s \<and> P c \<and> st' = (c # fst st, s))"
  "steps Rx_Eps st st' \<longleftrightarrow> st' = st"
  "steps (Rx_Alt r1 r2) st st' \<longleftrightarrow> steps r1 st st' \<or> steps r2 st st'"
  "steps Rx_Bound st st' \<longleftrightarrow> st' = st \<and> at_boundary (fst st) (snd st)"
  "steps Rx_Begin st st' \<longleftrightarrow> st' = st \<and> fst st = []"
  "steps Rx_End st st' \<longleftrightarrow> st' = st \<and> snd st = []"
proof -
  obtain b s b' s' where st [simp]: "st = (b, s)" "st' = (b', s')" by (cases st; cases st')
  show "steps (Rx_Char P) st st' \<longleftrightarrow> (\<exists>c s. snd st = c # s \<and> P c \<and> st' = (c # fst st, s))"
    by (auto simp: steps_def intro: match_char elim: match_charE)
  show "steps Rx_Eps st st' \<longleftrightarrow> st' = st"
    by (auto simp: steps_def intro: match_eps elim: match_epsE)
  show "steps (Rx_Alt r1 r2) st st' \<longleftrightarrow> steps r1 st st' \<or> steps r2 st st'"
    by (auto simp: steps_def intro: match_alt1 match_alt2 elim!: match_altE)
  show "steps Rx_Bound st st' \<longleftrightarrow> st' = st \<and> at_boundary (fst st) (snd st)"
    by (auto simp: steps_def intro: match_bound elim: match_boundE)
  show "steps Rx_Begin st st' \<longleftrightarrow> st' = st \<and> fst st = []"
    by (auto simp: steps_def intro: match_begin elim: match_beginE)
  show "steps Rx_End st st' \<longleftrightarrow> st' = st \<and> snd st = []"
    by (auto simp: steps_def intro: match_end elim: match_endE)
qed

lemma steps_seq: "steps (Rx_Seq r1 r2) st st' \<longleftrightarrow> (\<exists>m. steps r1 st m \<and> steps r2 m st')"
proof
  assume "steps (Rx_Seq r1 r2) st st'"
  then obtain t1 t2 where "snd st = t1 @ t2 @ snd st'" "fst st' = rev t2 @ rev t1 @ fst st"
      "rx_match r1 (fst st) t1 (t2 @ snd st')" "rx_match r2 (rev t1 @ fst st) t2 (snd st')"
    by (auto simp: steps_def elim!: match_seqE)
  then show "\<exists>m. steps r1 st m \<and> steps r2 m st'"
    by (intro exI [of _ "(rev t1 @ fst st, t2 @ snd st')"]) (auto simp: steps_def)
next
  assume "\<exists>m. steps r1 st m \<and> steps r2 m st'"
  then obtain m t1 t2 where "snd st = t1 @ snd m" "fst m = rev t1 @ fst st" "rx_match r1 (fst st) t1 (snd m)"
      "snd m = t2 @ snd st'" "fst st' = rev t2 @ fst m" "rx_match r2 (fst m) t2 (snd st')"
    by (auto simp: steps_def)
  then show "steps (Rx_Seq r1 r2) st st'"
    unfolding steps_def by (intro exI [of _ "t1 @ t2"]) (auto intro: match_seq)
qed

lemma steps_star: "steps (Rx_Star r) st st' \<longleftrightarrow>
  st' = st \<or> (\<exists>m. steps r st m \<and> length (snd m) < length (snd st) \<and> steps (Rx_Star r) m st')"
proof
  assume "steps (Rx_Star r) st st'"
  then obtain t where t: "snd st = t @ snd st'" "fst st' = rev t @ fst st" "rx_match (Rx_Star r) (fst st) t (snd st')"
    by (auto simp: steps_def)
  from t(3) consider "t = []" | t1 t2 where "t = t1 @ t2" "t1 \<noteq> []" "rx_match r (fst st) t1 (t2 @ snd st')"
      "rx_match (Rx_Star r) (rev t1 @ fst st) t2 (snd st')"
    by (auto elim: match_starE)
  then show "st' = st \<or> (\<exists>m. steps r st m \<and> length (snd m) < length (snd st) \<and> steps (Rx_Star r) m st')"
  proof cases
    case 1
    then have "st' = st" using t(1,2) by (simp add: prod_eq_iff)
    then show ?thesis ..
  next
    case (2 t1 t2)
    then have "steps r st (rev t1 @ fst st, t2 @ snd st')" "steps (Rx_Star r) (rev t1 @ fst st, t2 @ snd st') st'"
      using t(1,2) by (auto simp: steps_def)
    moreover have "length (t2 @ snd st') < length (snd st)" using t(1) 2(1,2) by simp
    ultimately show ?thesis by fastforce
  qed
next
  assume "st' = st \<or> (\<exists>m. steps r st m \<and> length (snd m) < length (snd st) \<and> steps (Rx_Star r) m st')"
  then show "steps (Rx_Star r) st st'"
  proof
    assume "st' = st"
    then show ?thesis by (auto simp: steps_def match_star0)
  next
    assume "\<exists>m. steps r st m \<and> length (snd m) < length (snd st) \<and> steps (Rx_Star r) m st'"
    then obtain m t1 t2 where "snd st = t1 @ snd m" "fst m = rev t1 @ fst st" "rx_match r (fst st) t1 (snd m)"
        "length (snd m) < length (snd st)" "snd m = t2 @ snd st'" "fst st' = rev t2 @ fst m"
        "rx_match (Rx_Star r) (fst m) t2 (snd st')"
      by (auto simp: steps_def)
    then show ?thesis
      unfolding steps_def by (intro exI [of _ "t1 @ t2"]) (auto intro!: match_star)
  qed
qed

lemma star_run_steps:
  assumes "\<And>st st'. st' \<in> set (f st) \<longleftrightarrow> steps r st st'"
  shows "length (snd st) \<le> n \<Longrightarrow> st' \<in> set (star_run f n st) \<longleftrightarrow> steps (Rx_Star r) st st'"
proof (induction n arbitrary: st)
  case 0
  then show ?case using steps_star [of r st st'] by simp
next
  case (Suc n)
  have "st' \<in> set (star_run f n m) \<longleftrightarrow> steps (Rx_Star r) m st'" if "length (snd m) < length (snd st)" for m
    using Suc that by simp
  then show ?case using assms steps_star [of r st st'] by auto
qed

lemma rx_run_steps: "st' \<in> set (rx_run r st) \<longleftrightarrow> steps r st st'"
proof (induction r arbitrary: st st')
  case (Rx_Seq r1 r2)
  then show ?case unfolding steps_seq rx_run.simps set_concat set_map by blast
next
  case (Rx_Star r)
  then show ?case using star_run_steps [of "rx_run r" r st "length (snd st)" st'] by simp
qed (auto simp: steps_simps split: list.split)

lemma rx_find_from_iff:
  "rx_find_from r b s \<noteq> None \<longleftrightarrow> (\<exists>u t v. s = u @ t @ v \<and> rx_match r (rev u @ b) t v)"
proof (induction r b s rule: rx_find_from.induct)
  case (1 r b)
  have "rx_run r (b, []) \<noteq> [] \<longleftrightarrow> (\<exists>st. steps r (b, []) st)"
    by (metis list.set_intros(1) neq_Nil_conv rx_run_steps empty_iff list.set(1))
  then show ?case by (auto simp: steps_def split: list.split)
next
  case (2 r b c s)
  have ne: "rx_run r (b, c # s) \<noteq> [] \<longleftrightarrow> (\<exists>st. steps r (b, c # s) st)"
    by (metis list.set_intros(1) neq_Nil_conv rx_run_steps empty_iff list.set(1))
  have here: "(\<exists>st. steps r (b, c # s) st) \<longleftrightarrow> (\<exists>t v. c # s = t @ v \<and> rx_match r b t v)"
    by (auto simp: steps_def)
  have split: "(\<exists>u t v. c # s = u @ t @ v \<and> rx_match r (rev u @ b) t v) \<longleftrightarrow>
      (\<exists>t v. c # s = t @ v \<and> rx_match r b t v) \<or>
      (\<exists>u t v. s = u @ t @ v \<and> rx_match r (rev u @ c # b) t v)" (is "?L \<longleftrightarrow> ?A \<or> ?B")
  proof
    assume ?L
    then obtain u t v where e: "c # s = u @ t @ v" "rx_match r (rev u @ b) t v" by blast
    then show "?A \<or> ?B" by (cases u) auto
  next
    assume "?A \<or> ?B"
    then show ?L
    proof
      assume ?A
      then obtain t v where "c # s = t @ v" "rx_match r b t v" by blast
      then show ?L by (intro exI [of _ "[]"] exI [of _ t] exI [of _ v]) simp
    next
      assume ?B
      then obtain u t v where "s = u @ t @ v" "rx_match r (rev u @ c # b) t v" by blast
      then show ?L by (intro exI [of _ "c # u"] exI [of _ t] exI [of _ v]) simp
    qed
  qed
  show ?case
  proof (cases "rx_run r (b, c # s)")
    case Nil
    then have "rx_find_from r b (c # s) = rx_find_from r (c # b) s" by simp
    moreover have "\<not> (\<exists>t v. c # s = t @ v \<and> rx_match r b t v)" using ne here Nil by blast
    ultimately show ?thesis unfolding split using 2 [OF Nil] by argo
  next
    case (Cons st sts)
    then show ?thesis using ne here split by simp
  qed
qed

text \<open>
  \<open>MatchString\<close>: the search succeeds exactly when some substring matches the pattern where it stands.
\<close>

theorem rx_match_string_iff:
  "rx_match_string r s \<longleftrightarrow> (\<exists>u t v. s = u @ t @ v \<and> rx_match r (rev u) t v)"
  using rx_find_from_iff [of r "[]" s] by (simp add: rx_match_string_def)

end
