(* ===== verification/Error_Classifier.thy ===== *)
theory Error_Classifier
  imports Go_Regexp Prelude
begin

text \<open>
  Classification of provider errors, \<open>pkg/providers/error_classifier.go\<close> and the failover types of
  \<open>pkg/providers/types.go\<close>: which errors let the fallback chain try the next model, and which abort it. The
  patterns are those of the code, in its order.
\<close>

section \<open>Errors and reasons\<close>

text \<open>An error as the code tells errors apart: the two context sentinels, or any other by its message.\<close>

datatype go_error = Canceled | Deadline_Exceeded | Error_Msg string

definition error_text :: "go_error \<Rightarrow> string" where
  "error_text e = (case e of
     Canceled \<Rightarrow> ''context canceled''
   | Deadline_Exceeded \<Rightarrow> ''context deadline exceeded''
   | Error_Msg m \<Rightarrow> m)"

datatype failover_reason =
    Failover_Auth | Failover_Rate_Limit | Failover_Billing | Failover_Timeout
  | Failover_Format | Failover_Overloaded | Failover_Unknown

record failover_error =
  fe_reason :: failover_reason
  fe_provider :: string
  fe_model :: string
  fe_status :: nat
  fe_wrapped :: go_error

definition is_retriable :: "failover_error \<Rightarrow> bool" where
  "is_retriable e \<longleftrightarrow> fe_reason e \<noteq> Failover_Format"

section \<open>Patterns\<close>

datatype error_pattern = Substr string | Rxp rx

definition matches_any :: "string \<Rightarrow> error_pattern list \<Rightarrow> bool" where
  "matches_any msg ps = list_ex (\<lambda>p. case p of
      Rxp r \<Rightarrow> rx_match_string r msg
    | Substr s \<Rightarrow> s \<noteq> [] \<and> str_contains msg s) ps"

definition rx_dots :: rx where "rx_dots = Rx_Star rx_any"

definition rate_limit_patterns :: "error_pattern list" where
  "rate_limit_patterns =
    [Rxp (rx_seq [rx_lit ''rate'', rx_in ''_ '', rx_lit ''limit'']),
     Substr ''too many requests'', Substr ''429'', Substr ''exceeded your current quota'',
     Rxp (rx_seq [rx_lit ''exceeded'', rx_dots, rx_lit ''quota'']),
     Rxp (rx_lit ''resource has been exhausted''),
     Rxp (rx_seq [rx_lit ''resource'', rx_dots, rx_lit ''exhausted'']),
     Substr ''resource_exhausted'', Substr ''quota exceeded'', Substr ''usage limit'']"

definition overloaded_patterns :: "error_pattern list" where
  "overloaded_patterns =
    [Rxp (rx_lit ''overloaded_error''),
     Rxp (rx_seq [rx_lit (CHR 0x22 # ''type'' @ [CHR 0x22]), Rx_Star rx_space, rx_chr (CHR '':''), Rx_Star rx_space,
       rx_lit (CHR 0x22 # ''overloaded_error'' @ [CHR 0x22])]),
     Substr ''overloaded'']"

definition timeout_patterns :: "error_pattern list" where
  "timeout_patterns = map Substr [''timeout'', ''timed out'', ''deadline exceeded'', ''context deadline exceeded'']"

definition billing_patterns :: "error_pattern list" where
  "billing_patterns = Rxp (rx_seq [Rx_Bound, rx_lit ''402'', Rx_Bound]) #
     map Substr [''payment required'', ''insufficient credits'', ''credit balance'', ''plans & billing'',
       ''insufficient balance'']"

definition auth_patterns :: "error_pattern list" where
  "auth_patterns =
    [Rxp (rx_seq [rx_lit ''invalid'', rx_opt (rx_in ''_ ''), rx_lit ''api'', rx_opt (rx_in ''_ ''), rx_lit ''key''])] @
     map Substr [''incorrect api key'', ''invalid token'', ''authentication'', ''re-authenticate'',
       ''oauth token refresh failed'', ''unauthorized'', ''forbidden'', ''access denied'', ''expired'',
       ''token has expired''] @
    [Rxp (rx_seq [Rx_Bound, rx_lit ''401'', Rx_Bound]), Rxp (rx_seq [Rx_Bound, rx_lit ''403'', Rx_Bound])] @
     map Substr [''no credentials found'', ''no api key found'']"

definition format_patterns :: "error_pattern list" where
  "format_patterns = map Substr [''string should match pattern'', ''tool_use.id'', ''tool_use_id'',
     ''messages.1.content.1.tool_use.id'', ''invalid request format'']"

definition image_dimension_patterns :: "error_pattern list" where
  "image_dimension_patterns = [Rxp (rx_lit ''image dimensions exceed max'')]"

definition image_size_patterns :: "error_pattern list" where
  "image_size_patterns = [Rxp (rx_seq [rx_lit ''image exceeds'', rx_dots, rx_lit ''mb''])]"

definition is_image_dimension_error :: "string \<Rightarrow> bool" where
  "is_image_dimension_error msg = matches_any msg image_dimension_patterns"

definition is_image_size_error :: "string \<Rightarrow> bool" where
  "is_image_size_error msg = matches_any msg image_size_patterns"

definition transient_status_codes :: "nat list" where
  "transient_status_codes = [500, 502, 503, 521, 522, 523, 524, 529]"

section \<open>Status codes\<close>

text \<open>The three patterns; each ends in the group of three digits, so the group is the last three bytes of
  the match.\<close>

definition http_status_patterns :: "rx list" where
  "http_status_patterns =
    [rx_seq [rx_lit ''status'', rx_plus (rx_in [CHR '':'', CHR 0x09, CHR 0x0A, CHR 0x0C, CHR 0x0D, CHR 0x20]),
       rx_seq [rx_digit, rx_digit, rx_digit]],
     rx_seq [rx_lit ''http'', rx_plus (rx_in [CHR ''/'', CHR 0x09, CHR 0x0A, CHR 0x0C, CHR 0x0D, CHR 0x20]),
       Rx_Star rx_digit, rx_opt (rx_chr (CHR ''.'')), Rx_Star rx_digit, rx_plus rx_space,
       rx_seq [rx_digit, rx_digit, rx_digit]],
     rx_seq [Rx_Bound, rx_range (CHR ''3'') (CHR ''5''), rx_digit, rx_digit, Rx_Bound]]"

definition parse_digits :: "string \<Rightarrow> nat" where
  "parse_digits s = foldl (\<lambda>n c. if 48 \<le> byte c \<and> byte c \<le> 57 then n * 10 + (byte c - 48) else n) 0 s"

definition extract_http_status :: "string \<Rightarrow> nat" where
  "extract_http_status msg =
    (case List.map_filter (\<lambda>r. rx_find_string r msg) http_status_patterns of
       [] \<Rightarrow> 0
     | t # _ \<Rightarrow> parse_digits (last_n 3 t))"

section \<open>Classification\<close>

definition classify_by_status :: "nat \<Rightarrow> failover_reason option" where
  "classify_by_status status =
    (if status = 401 \<or> status = 403 then Some Failover_Auth
     else if status = 402 then Some Failover_Billing
     else if status = 408 then Some Failover_Timeout
     else if status = 429 then Some Failover_Rate_Limit
     else if status = 400 then Some Failover_Format
     else if status \<in> set transient_status_codes then Some Failover_Timeout
     else None)"

definition classify_by_message :: "string \<Rightarrow> failover_reason option" where
  "classify_by_message msg =
    (if matches_any msg rate_limit_patterns then Some Failover_Rate_Limit
     else if matches_any msg overloaded_patterns then Some Failover_Rate_Limit
     else if matches_any msg billing_patterns then Some Failover_Billing
     else if matches_any msg timeout_patterns then Some Failover_Timeout
     else if matches_any msg auth_patterns then Some Failover_Auth
     else if matches_any msg format_patterns then Some Failover_Format
     else None)"

definition mk_failover :: "failover_reason \<Rightarrow> string \<Rightarrow> string \<Rightarrow> nat \<Rightarrow> go_error \<Rightarrow> failover_error" where
  "mk_failover r p m st e = \<lparr>fe_reason = r, fe_provider = p, fe_model = m, fe_status = st, fe_wrapped = e\<rparr>"

definition classify_error :: "go_error \<Rightarrow> string \<Rightarrow> string \<Rightarrow> failover_error option" where
  "classify_error err provider model =
    (if err = Canceled then None
     else if err = Deadline_Exceeded then Some (mk_failover Failover_Timeout provider model 0 err)
     else let msg = to_lower (error_text err) in
       if is_image_dimension_error msg \<or> is_image_size_error msg
       then Some (mk_failover Failover_Format provider model 0 err)
       else let status = extract_http_status msg in
         case (if status > 0 then classify_by_status status else None) of
           Some r \<Rightarrow> Some (mk_failover r provider model status err)
         | None \<Rightarrow> (case classify_by_message msg of
             Some r \<Rightarrow> Some (mk_failover r provider model 0 err)
           | None \<Rightarrow> None))"

lemma classify_fields:
  "classify_error err p m = Some fe \<Longrightarrow> fe_provider fe = p \<and> fe_model fe = m \<and> fe_wrapped fe = err"
  by (auto simp: classify_error_def mk_failover_def Let_def split: if_splits option.splits)

lemma classify_canceled [simp]: "classify_error Canceled p m = None"
  by (simp add: classify_error_def)

end
