(* ===== verification/Cooldown.thy ===== *)
theory Cooldown
  imports Error_Classifier
begin

text \<open>
  The cooldown tracker, \<open>pkg/providers/cooldown.go\<close>: per provider the counts of recent failures and the
  times until which it is not used. Times are nanoseconds (\<open>now\<close> is \<open>nowFunc()\<close>), the zero \<open>time.Time\<close>
  is \<open>None\<close>. Proved: when a provider is available after a failure, that the remaining time is exact,
  the bounds of the backoff, and that providers do not affect each other.
\<close>

section \<open>State\<close>

definition millisecond :: int where "millisecond = 1000000"
definition minute_ns :: int where "minute_ns = 60 * 1000 * millisecond"
definition hour_ns :: int where "hour_ns = 60 * minute_ns"
definition default_failure_window :: int where "default_failure_window = 24 * hour_ns"

record cooldown_entry =
  ce_error_count :: int
  ce_failure_counts :: "failover_reason \<Rightarrow> int"
  ce_cooldown_end :: "int option"
  ce_disabled_until :: "int option"
  ce_disabled_reason :: "failover_reason option"
  ce_last_failure :: "int option"

record cooldown_tracker =
  ct_entries :: "string \<rightharpoonup> cooldown_entry"
  ct_failure_window :: int

definition new_cooldown_tracker :: cooldown_tracker where
  "new_cooldown_tracker = \<lparr>ct_entries = Map.empty, ct_failure_window = default_failure_window\<rparr>"

definition new_entry :: cooldown_entry where
  "new_entry = \<lparr>ce_error_count = 0, ce_failure_counts = (\<lambda>_. 0), ce_cooldown_end = None,
     ce_disabled_until = None, ce_disabled_reason = None, ce_last_failure = None\<rparr>"

definition get_or_create :: "cooldown_tracker \<Rightarrow> string \<Rightarrow> cooldown_entry" where
  "get_or_create ct p = (case ct_entries ct p of Some e \<Rightarrow> e | None \<Rightarrow> new_entry)"

section \<open>Backoff\<close>

definition calculate_standard_cooldown :: "int \<Rightarrow> int" where
  "calculate_standard_cooldown error_count =
    (let n = max 1 error_count; e = min (n - 1) 3; ms = 60000 * 5 ^ nat e
     in min 3600000 ms * millisecond)"

definition calculate_billing_cooldown :: "int \<Rightarrow> int" where
  "calculate_billing_cooldown billing_count =
    (let base_ms = 5 * 60 * 60 * 1000; max_ms = 24 * 60 * 60 * 1000;
         n = max 1 billing_count; e = min (n - 1) 10; raw = base_ms * 2 ^ nat e
     in min max_ms raw * millisecond)"

section \<open>Operations\<close>

definition mark_failure :: "int \<Rightarrow> cooldown_tracker \<Rightarrow> string \<Rightarrow> failover_reason \<Rightarrow> cooldown_tracker" where
  "mark_failure now ct p reason =
    (let e0 = get_or_create ct p;
         stale = (case ce_last_failure e0 of None \<Rightarrow> False | Some t \<Rightarrow> now - t > ct_failure_window ct);
         e1 = (if stale then e0\<lparr>ce_error_count := 0, ce_failure_counts := (\<lambda>_. 0)\<rparr> else e0);
         e2 = e1\<lparr>ce_error_count := ce_error_count e1 + 1,
                 ce_failure_counts := (ce_failure_counts e1)(reason := ce_failure_counts e1 reason + 1),
                 ce_last_failure := Some now\<rparr>;
         e3 = (if reason = Failover_Billing
               then e2\<lparr>ce_disabled_until := Some (now + calculate_billing_cooldown (ce_failure_counts e2 Failover_Billing)),
                       ce_disabled_reason := Some Failover_Billing\<rparr>
               else e2\<lparr>ce_cooldown_end := Some (now + calculate_standard_cooldown (ce_error_count e2))\<rparr>)
     in ct\<lparr>ct_entries := (ct_entries ct)(p \<mapsto> e3)\<rparr>)"

definition mark_success :: "cooldown_tracker \<Rightarrow> string \<Rightarrow> cooldown_tracker" where
  "mark_success ct p = (case ct_entries ct p of
     None \<Rightarrow> ct
   | Some e \<Rightarrow> ct\<lparr>ct_entries := (ct_entries ct)(p \<mapsto>
       e\<lparr>ce_error_count := 0, ce_failure_counts := (\<lambda>_. 0), ce_cooldown_end := None,
         ce_disabled_until := None, ce_disabled_reason := None\<rparr>)\<rparr>)"

text \<open>\<open>!t.IsZero() && now.Before(t)\<close>.\<close>

definition pending :: "int \<Rightarrow> int option \<Rightarrow> bool" where
  "pending now t = (case t of None \<Rightarrow> False | Some u \<Rightarrow> now < u)"

definition is_available :: "int \<Rightarrow> cooldown_tracker \<Rightarrow> string \<Rightarrow> bool" where
  "is_available now ct p = (case ct_entries ct p of
     None \<Rightarrow> True
   | Some e \<Rightarrow>
      (if pending now (ce_disabled_until e) then False
       else if pending now (ce_cooldown_end e) then False
       else True))"

definition cooldown_remaining :: "int \<Rightarrow> cooldown_tracker \<Rightarrow> string \<Rightarrow> int" where
  "cooldown_remaining now ct p = (case ct_entries ct p of
     None \<Rightarrow> 0
   | Some e \<Rightarrow>
      (let r1 = (if pending now (ce_disabled_until e)
                 then (let d = the (ce_disabled_until e) - now in if d > 0 then d else 0) else 0)
       in if pending now (ce_cooldown_end e)
          then (let d = the (ce_cooldown_end e) - now in if d > r1 then d else r1) else r1))"

definition error_count :: "cooldown_tracker \<Rightarrow> string \<Rightarrow> int" where
  "error_count ct p = (case ct_entries ct p of None \<Rightarrow> 0 | Some e \<Rightarrow> ce_error_count e)"

definition failure_count :: "cooldown_tracker \<Rightarrow> string \<Rightarrow> failover_reason \<Rightarrow> int" where
  "failure_count ct p r = (case ct_entries ct p of None \<Rightarrow> 0 | Some e \<Rightarrow> ce_failure_counts e r)"

section \<open>Backoff is a table\<close>

lemma standard_cooldown_table:
  "calculate_standard_cooldown n =
    (if n \<le> 1 then minute_ns else if n = 2 then 5 * minute_ns else if n = 3 then 25 * minute_ns else hour_ns)"
proof -
  consider "n \<le> 1" | "n = 2" | "n = 3" | "n \<ge> 4" by linarith
  then show ?thesis
    by cases (simp_all add: calculate_standard_cooldown_def minute_ns_def hour_ns_def millisecond_def Let_def
        eval_nat_numeral)
qed

lemma billing_cooldown_table:
  "calculate_billing_cooldown n =
    (if n \<le> 1 then 5 * hour_ns else if n = 2 then 10 * hour_ns else if n = 3 then 20 * hour_ns else 24 * hour_ns)"
proof -
  have big: "(24::int) * 60 * 60 * 1000 \<le> 5 * 60 * 60 * 1000 * 2 ^ k" if "k \<ge> 3" for k :: nat
  proof -
    have "(2::int) ^ 3 \<le> 2 ^ k" using that by (simp only: power_increasing_iff)
    then show ?thesis by simp
  qed
  consider "n \<le> 1" | "n = 2" | "n = 3" | "n \<ge> 4" by linarith
  then show ?thesis
  proof cases
    case 4
    then have "nat (min (n - 1) 10) \<ge> 3" by simp
    then show ?thesis
      using big [of "nat (min (n - 1) 10)"] 4
      by (simp add: calculate_billing_cooldown_def hour_ns_def minute_ns_def millisecond_def Let_def max_def)
  qed (simp_all add: calculate_billing_cooldown_def hour_ns_def minute_ns_def millisecond_def Let_def)
qed

lemma ns_pos [simp]: "0 < minute_ns" "0 < hour_ns" "minute_ns \<le> hour_ns"
  by (simp_all add: minute_ns_def hour_ns_def millisecond_def)

lemma standard_cooldown_bounds:
  "minute_ns \<le> calculate_standard_cooldown n \<and> calculate_standard_cooldown n \<le> hour_ns"
  by (simp add: standard_cooldown_table hour_ns_def minute_ns_def millisecond_def)

lemma billing_cooldown_bounds:
  "5 * hour_ns \<le> calculate_billing_cooldown n \<and> calculate_billing_cooldown n \<le> 24 * hour_ns"
  by (simp add: billing_cooldown_table hour_ns_def minute_ns_def millisecond_def)

section \<open>Availability\<close>

lemma pending_simps [simp]: "\<not> pending now None" "pending now (Some u) \<longleftrightarrow> now < u"
  by (simp_all add: pending_def)

text \<open>
  The remaining time is exact: a provider is available exactly when nothing remains, it is
  available once the remaining time has passed, and not a moment earlier.
\<close>

theorem cooldown_remaining_exact:
  "(cooldown_remaining now ct p = 0 \<longleftrightarrow> is_available now ct p) \<and>
   is_available (now + cooldown_remaining now ct p) ct p \<and>
   (\<forall>d\<ge>0. is_available (now + d) ct p \<longleftrightarrow> d \<ge> cooldown_remaining now ct p)"
proof (cases "ct_entries ct p")
  case (Some e)
  show ?thesis
    by (cases "ce_disabled_until e"; cases "ce_cooldown_end e")
      (auto simp: cooldown_remaining_def is_available_def Some Let_def)
qed (simp add: cooldown_remaining_def is_available_def)

definition failed_tracker :: cooldown_tracker where
  "failed_tracker = mark_failure 0 new_cooldown_tracker ''openai'' Failover_Timeout"

theorem cooldown_remaining_exact_witness:
  "\<not> is_available (30 * 1000000000) failed_tracker ''openai'' \<and> is_available (60 * 1000000000) failed_tracker ''openai''"
proof -
  have "cooldown_remaining 0 failed_tracker ''openai'' = 60 * 1000000000" by code_simp
  then show ?thesis
    using cooldown_remaining_exact [of 0 failed_tracker "''openai''"] by simp
qed

text \<open>What a failure does to its provider and to the others.\<close>

lemma mark_failure_other [simp]:
  "q \<noteq> p \<Longrightarrow> is_available now' (mark_failure now ct p r) q = is_available now' ct q"
  "q \<noteq> p \<Longrightarrow> error_count (mark_failure now ct p r) q = error_count ct q"
  by (simp_all add: mark_failure_def is_available_def error_count_def Let_def)

lemma mark_success_other [simp]:
  "q \<noteq> p \<Longrightarrow> is_available now' (mark_success ct p) q = is_available now' ct q"
  by (simp add: mark_success_def is_available_def split: option.split)

lemma mark_success_available [simp]: "is_available now (mark_success ct p) p"
  by (simp add: mark_success_def is_available_def split: option.split)

text \<open>The count of a provider's failures, as the next failure sees it.\<close>

definition recent :: "int \<Rightarrow> cooldown_tracker \<Rightarrow> string \<Rightarrow> bool" where
  "recent now ct p = (case ce_last_failure (get_or_create ct p) of
     None \<Rightarrow> True | Some t \<Rightarrow> now - t \<le> ct_failure_window ct)"

lemma error_count_failure:
  "error_count (mark_failure now ct p r) p = (if recent now ct p then error_count ct p else 0) + 1"
  by (auto simp: mark_failure_def error_count_def get_or_create_def recent_def Let_def new_entry_def
      split: option.splits)

lemma failure_count_failure:
  "failure_count (mark_failure now ct p r) p r' =
    (if recent now ct p then failure_count ct p r' else 0) + (if r' = r then 1 else 0)"
  by (auto simp: mark_failure_def failure_count_def get_or_create_def recent_def Let_def new_entry_def
      split: option.splits)

text \<open>
  A failure takes its provider out of use at once, for at least a minute and, unless it is a
  billing failure or the provider is already disabled for longer, for exactly the backoff of the
  failures counted in the window: one, five, twenty-five minutes, then an hour.
\<close>

theorem mark_failure_backoff:
  assumes "now \<le> now'" and "is_available now ct p"
  shows "is_available now' (mark_failure now ct p r) p \<longleftrightarrow>
    now' \<ge> now + (if r = Failover_Billing
      then calculate_billing_cooldown (failure_count (mark_failure now ct p r) p Failover_Billing)
      else calculate_standard_cooldown (error_count (mark_failure now ct p r) p))"
  using assms
  by (cases "ct_entries ct p"; cases "ce_disabled_until (the (ct_entries ct p))";
      cases "ce_cooldown_end (the (ct_entries ct p))")
    (auto simp: is_available_def mark_failure_def get_or_create_def failure_count_def error_count_def
      new_entry_def Let_def split: if_splits)

theorem mark_failure_backoff_witness:
  "is_available (3 * minute_ns) (mark_failure 0 new_cooldown_tracker ''openai'' Failover_Timeout) ''openai''"
proof -
  have a: "is_available 0 new_cooldown_tracker ''openai''"
    by (simp add: new_cooldown_tracker_def is_available_def)
  have "error_count (mark_failure 0 new_cooldown_tracker ''openai'' Failover_Timeout) ''openai'' = 1"
    by (simp add: error_count_failure) (simp add: error_count_def new_cooldown_tracker_def)
  then show ?thesis
    using mark_failure_backoff [OF _ a, of "3 * minute_ns" Failover_Timeout]
    by (simp add: standard_cooldown_table minute_ns_def millisecond_def)
qed

lemma unavailable_after_failure:
  assumes "now \<le> now'" "now' < now + minute_ns"
  shows "\<not> is_available now' (mark_failure now ct p r) p"
proof -
  have "now' < now + calculate_standard_cooldown n" "now' < now + calculate_billing_cooldown m" for n m
    using assms standard_cooldown_bounds [of n] billing_cooldown_bounds [of m]
    by (auto simp: hour_ns_def minute_ns_def millisecond_def)
  then show ?thesis
    by (auto simp: is_available_def mark_failure_def Let_def split: option.splits)
qed

end
