(* ===== verification/Fallback.thy ===== *)
theory Fallback
  imports Cooldown
begin

text \<open>
  Model fallback, \<open>pkg/providers/fallback.go\<close> and \<open>pkg/providers/model_ref.go\<close>: the candidate list of a model
  configuration, and the chain that tries the candidates in order. The environment of one execution
  (cancellation, clock, the provider call) is a record of functions of the candidate's index.
\<close>

section \<open>Model references\<close>

record model_ref =
  mr_provider :: string
  mr_model :: string

definition normalize_provider :: "string \<Rightarrow> string" where
  "normalize_provider provider =
    (let p = to_lower (trim_space provider) in
     if p = ''z.ai'' \<or> p = ''z-ai'' then ''zai''
     else if p = ''opencode-zen'' then ''opencode''
     else if p = ''qwen'' then ''qwen-portal''
     else if p = ''kimi-code'' then ''kimi-coding''
     else if p = ''gpt'' then ''openai''
     else if p = ''claude'' then ''anthropic''
     else if p = ''glm'' then ''zhipu''
     else if p = ''google'' then ''gemini''
     else p)"

definition parse_model_ref :: "string \<Rightarrow> string \<Rightarrow> model_ref option" where
  "parse_model_ref raw0 default_provider =
    (let raw = trim_space raw0 in
     if raw = [] then None
     else (case str_index raw ''/'' of
         Some i \<Rightarrow>
          (if i > 0 then
            (let provider = normalize_provider (take i raw); model = trim_space (drop (i + 1) raw) in
             if model = [] then None else Some \<lparr>mr_provider = provider, mr_model = model\<rparr>)
           else Some \<lparr>mr_provider = normalize_provider default_provider, mr_model = raw\<rparr>)
       | None \<Rightarrow> Some \<lparr>mr_provider = normalize_provider default_provider, mr_model = raw\<rparr>))"

definition model_key :: "string \<Rightarrow> string \<Rightarrow> string" where
  "model_key provider model = normalize_provider provider @ ''/'' @ to_lower (trim_space model)"

section \<open>Candidates\<close>

record model_config =
  mc_primary :: string
  mc_fallbacks :: "string list"

record candidate =
  ca_provider :: string
  ca_model :: string

definition add_candidate ::
  "string \<Rightarrow> (string \<Rightarrow> string option) option \<Rightarrow> string set \<times> candidate list \<Rightarrow> string \<Rightarrow> string set \<times> candidate list" where
  "add_candidate default_provider look acc raw =
    (let raw1 = trim_space raw;
         raw2 = (case look of None \<Rightarrow> raw1 | Some f \<Rightarrow> (case f raw1 of None \<Rightarrow> raw1 | Some x \<Rightarrow> x))
     in case parse_model_ref raw2 default_provider of
          None \<Rightarrow> acc
        | Some ref \<Rightarrow>
           (let key = model_key (mr_provider ref) (mr_model ref) in
            if key \<in> fst acc then acc
            else (insert key (fst acc), snd acc @ [\<lparr>ca_provider = mr_provider ref, ca_model = mr_model ref\<rparr>])))"

definition resolve_candidates_with_lookup ::
  "model_config \<Rightarrow> string \<Rightarrow> (string \<Rightarrow> string option) option \<Rightarrow> candidate list" where
  "resolve_candidates_with_lookup cfg default_provider look =
    snd (foldl (add_candidate default_provider look)
      (add_candidate default_provider look ({}, []) (mc_primary cfg)) (mc_fallbacks cfg))"

definition resolve_candidates :: "model_config \<Rightarrow> string \<Rightarrow> candidate list" where
  "resolve_candidates cfg default_provider = resolve_candidates_with_lookup cfg default_provider None"

definition candidate_key :: "candidate \<Rightarrow> string" where
  "candidate_key c = model_key (ca_provider c) (ca_model c)"

lemma add_candidate_keys:
  assumes "distinct (map candidate_key (snd acc))" "fst acc = set (map candidate_key (snd acc))"
  shows "distinct (map candidate_key (snd (add_candidate d l acc raw))) \<and>
    fst (add_candidate d l acc raw) = set (map candidate_key (snd (add_candidate d l acc raw)))"
  using assms by (auto simp: add_candidate_def candidate_key_def Let_def split: option.split)

lemma fold_candidate_keys:
  assumes "distinct (map candidate_key (snd acc))" "fst acc = set (map candidate_key (snd acc))"
  shows "distinct (map candidate_key (snd (foldl (add_candidate d l) acc raws)))"
  using assms by (induction raws arbitrary: acc) (use add_candidate_keys in auto)

text \<open>
  The candidate list never names a model twice, in any spelling the code takes for the same
  (provider aliases, case, spaces), so no model is tried twice in one execution.
\<close>

theorem candidates_distinct:
  "distinct (map candidate_key (resolve_candidates_with_lookup cfg default_provider look))"
  unfolding resolve_candidates_with_lookup_def
  by (rule fold_candidate_keys) (use add_candidate_keys [of "({}, [])"] in simp_all)

section \<open>The chain\<close>

datatype attempt_error =
    In_Cooldown int
  | Raw_Error go_error
  | Failed_Over failover_error

record attempt =
  fa_provider :: string
  fa_model :: string
  fa_error :: attempt_error
  fa_reason :: "failover_reason option"
  fa_duration :: int
  fa_skipped :: bool

record 'r fallback_result =
  fr_response :: 'r
  fr_provider :: string
  fr_model :: string
  fr_attempts :: "attempt list"

datatype chain_error =
    No_Candidates
  | Chain_Canceled
  | Unclassified string string go_error
  | Aborted failover_error
  | Exhausted "attempt list"

record 'r chain_env =
  ev_canceled_before :: "nat \<Rightarrow> bool"
  ev_canceled_after :: "nat \<Rightarrow> bool"
  ev_now :: "nat \<Rightarrow> int"
  ev_end :: "nat \<Rightarrow> int"
  ev_run :: "nat \<Rightarrow> string \<Rightarrow> string \<Rightarrow> (go_error, 'r) go_result"

definition skipped_attempt :: "candidate \<Rightarrow> int \<Rightarrow> attempt" where
  "skipped_attempt c remaining = \<lparr>fa_provider = ca_provider c, fa_model = ca_model c,
     fa_error = In_Cooldown remaining, fa_reason = Some Failover_Rate_Limit, fa_duration = 0, fa_skipped = True\<rparr>"

definition failed_attempt :: "candidate \<Rightarrow> attempt_error \<Rightarrow> failover_reason option \<Rightarrow> int \<Rightarrow> attempt" where
  "failed_attempt c e r d = \<lparr>fa_provider = ca_provider c, fa_model = ca_model c, fa_error = e,
     fa_reason = r, fa_duration = d, fa_skipped = False\<rparr>"

text \<open>The loop from index \<open>i\<close> on. Behind the last candidate, failed or skipped, the chain is exhausted.\<close>

fun execute_from ::
  "'r chain_env \<Rightarrow> nat \<Rightarrow> candidate list \<Rightarrow> attempt list \<Rightarrow> cooldown_tracker \<Rightarrow>
   (chain_error, 'r fallback_result) go_result \<times> cooldown_tracker" where
  "execute_from env i [] attempts ct = (Err (Exhausted attempts), ct)"
| "execute_from env i (c # cs) attempts ct =
    (if ev_canceled_before env i then (Err Chain_Canceled, ct)
     else if \<not> is_available (ev_now env i) ct (ca_provider c) then
       execute_from env (Suc i) cs
         (attempts @ [skipped_attempt c (cooldown_remaining (ev_now env i) ct (ca_provider c))]) ct
     else let elapsed = ev_end env i - ev_now env i in
       case ev_run env i (ca_provider c) (ca_model c) of
         Ok resp \<Rightarrow>
           (Ok \<lparr>fr_response = resp, fr_provider = ca_provider c, fr_model = ca_model c, fr_attempts = attempts\<rparr>,
            mark_success ct (ca_provider c))
       | Err err \<Rightarrow>
           (if ev_canceled_after env i then (Err Chain_Canceled, ct)
            else case classify_error err (ca_provider c) (ca_model c) of
                None \<Rightarrow> (Err (Unclassified (ca_provider c) (ca_model c) err), ct)
              | Some fe \<Rightarrow>
                  (if \<not> is_retriable fe then (Err (Aborted fe), ct)
                   else execute_from env (Suc i) cs
                     (attempts @ [failed_attempt c (Failed_Over fe) (Some (fe_reason fe)) elapsed])
                     (mark_failure (ev_end env i) ct (ca_provider c) (fe_reason fe)))))"

definition execute ::
  "'r chain_env \<Rightarrow> candidate list \<Rightarrow> cooldown_tracker \<Rightarrow>
   (chain_error, 'r fallback_result) go_result \<times> cooldown_tracker" where
  "execute env candidates ct =
    (if candidates = [] then (Err No_Candidates, ct) else execute_from env 0 candidates [] ct)"

fun execute_image_from ::
  "'r chain_env \<Rightarrow> nat \<Rightarrow> candidate list \<Rightarrow> attempt list \<Rightarrow> (chain_error, 'r fallback_result) go_result" where
  "execute_image_from env i [] attempts = Err (Exhausted attempts)"
| "execute_image_from env i (c # cs) attempts =
    (if ev_canceled_before env i then Err Chain_Canceled
     else let elapsed = ev_end env i - ev_now env i in
       case ev_run env i (ca_provider c) (ca_model c) of
         Ok resp \<Rightarrow>
           Ok \<lparr>fr_response = resp, fr_provider = ca_provider c, fr_model = ca_model c, fr_attempts = attempts\<rparr>
       | Err err \<Rightarrow>
           (if ev_canceled_after env i then Err Chain_Canceled
            else let msg = to_lower (error_text err) in
              if is_image_dimension_error msg \<or> is_image_size_error msg
              then Err (Aborted (mk_failover Failover_Format (ca_provider c) (ca_model c) 0 err))
              else execute_image_from env (Suc i) cs (attempts @ [failed_attempt c (Raw_Error err) None elapsed])))"

definition execute_image ::
  "'r chain_env \<Rightarrow> candidate list \<Rightarrow> (chain_error, 'r fallback_result) go_result" where
  "execute_image env candidates =
    (if candidates = [] then Err No_Candidates else execute_image_from env 0 candidates [])"

section \<open>What an execution comes to\<close>

text \<open>
  The specification of one candidate, in the state the chain has reached: why the chain goes on to
  the next one (\<open>passed_over\<close>), and with which tracker.
\<close>

inductive passed_over ::
  "'r chain_env \<Rightarrow> nat \<Rightarrow> candidate \<Rightarrow> cooldown_tracker \<Rightarrow> attempt \<Rightarrow> cooldown_tracker \<Rightarrow> bool" for env i c where
  over_cooldown: "\<not> ev_canceled_before env i \<Longrightarrow> \<not> is_available (ev_now env i) ct (ca_provider c) \<Longrightarrow>
    passed_over env i c ct (skipped_attempt c (cooldown_remaining (ev_now env i) ct (ca_provider c))) ct"
| over_failed: "\<not> ev_canceled_before env i \<Longrightarrow> is_available (ev_now env i) ct (ca_provider c) \<Longrightarrow>
    ev_run env i (ca_provider c) (ca_model c) = Err err \<Longrightarrow> \<not> ev_canceled_after env i \<Longrightarrow>
    classify_error err (ca_provider c) (ca_model c) = Some fe \<Longrightarrow> is_retriable fe \<Longrightarrow>
    passed_over env i c ct (failed_attempt c (Failed_Over fe) (Some (fe_reason fe)) (ev_end env i - ev_now env i))
      (mark_failure (ev_end env i) ct (ca_provider c) (fe_reason fe))"

inductive passed_all ::
  "'r chain_env \<Rightarrow> nat \<Rightarrow> candidate list \<Rightarrow> cooldown_tracker \<Rightarrow> attempt list \<Rightarrow> cooldown_tracker \<Rightarrow> bool" for env where
  passed_nil: "passed_all env i [] ct [] ct"
| passed_cons: "passed_over env i c ct a ct1 \<Longrightarrow> passed_all env (Suc i) cs ct1 as ct2 \<Longrightarrow>
    passed_all env i (c # cs) ct (a # as) ct2"

lemma passed_all_length: "passed_all env i cs ct as ct' \<Longrightarrow> length as = length cs"
  by (induction rule: passed_all.induct) auto

lemma passed_all_same_candidates: "passed_all env i cs ct as ct' \<Longrightarrow>
  map (\<lambda>a. (fa_provider a, fa_model a)) as = map (\<lambda>c. (ca_provider c, ca_model c)) cs"
  by (induction rule: passed_all.induct)
    (auto elim!: passed_over.cases simp: skipped_attempt_def failed_attempt_def)

text \<open>Why the chain stops at a candidate, and that it was served by one.\<close>

definition stops :: "'r chain_env \<Rightarrow> nat \<Rightarrow> candidate \<Rightarrow> chain_error \<Rightarrow> bool" where
  "stops env i c e \<longleftrightarrow>
     e = Chain_Canceled \<and> (ev_canceled_before env i \<or> ev_canceled_after env i) \<or>
     (\<exists>err. ev_run env i (ca_provider c) (ca_model c) = Err err \<and>
       (e = Unclassified (ca_provider c) (ca_model c) err \<and> classify_error err (ca_provider c) (ca_model c) = None \<or>
        (\<exists>fe. e = Aborted fe \<and> classify_error err (ca_provider c) (ca_model c) = Some fe \<and>
          fe_reason fe = Failover_Format)))"

definition serves :: "'r chain_env \<Rightarrow> nat \<Rightarrow> candidate \<Rightarrow> cooldown_tracker \<Rightarrow> 'r \<Rightarrow> bool" where
  "serves env i c ct resp \<longleftrightarrow> \<not> ev_canceled_before env i \<and> is_available (ev_now env i) ct (ca_provider c) \<and>
     ev_run env i (ca_provider c) (ca_model c) = Ok resp"

definition result_of :: "candidate \<Rightarrow> 'r \<Rightarrow> attempt list \<Rightarrow> 'r fallback_result" where
  "result_of c resp as =
     \<lparr>fr_response = resp, fr_provider = ca_provider c, fr_model = ca_model c, fr_attempts = as\<rparr>"

lemma execute_from_step:
  obtains (stop) e where "execute_from env i (c # cs) as ct = (Err e, ct)" "stops env i c e"
  | (serve) resp where "serves env i c ct resp"
      "execute_from env i (c # cs) as ct = (Ok (result_of c resp as), mark_success ct (ca_provider c))"
  | (over) a ct1 where "passed_over env i c ct a ct1"
      "execute_from env i (c # cs) as ct = execute_from env (Suc i) cs (as @ [a]) ct1"
proof (cases "ev_canceled_before env i \<or> \<not> is_available (ev_now env i) ct (ca_provider c)")
  case True
  then show ?thesis using stop [of Chain_Canceled] over [OF over_cooldown]
    by (cases "ev_canceled_before env i") (simp_all add: stops_def)
next
  case False
  show ?thesis
  proof (cases "ev_run env i (ca_provider c) (ca_model c)")
    case (Inl err)
    then show ?thesis
      using False stop over [OF over_failed [OF _ _ Inl]]
      by (cases "classify_error err (ca_provider c) (ca_model c)"; cases "ev_canceled_after env i")
        (auto simp: stops_def is_retriable_def split: if_splits)
  next
    case (Inr resp)
    then show ?thesis using False serve [of resp] by (simp add: serves_def result_of_def)
  qed
qed

text \<open>
  The specification of a whole execution: every candidate was passed over, or those before some
  candidate were and that one stopped the chain or served the request.
\<close>

inductive chain_spec ::
  "'r chain_env \<Rightarrow> nat \<Rightarrow> candidate list \<Rightarrow> attempt list \<Rightarrow> cooldown_tracker \<Rightarrow>
   (chain_error, 'r fallback_result) go_result \<Rightarrow> cooldown_tracker \<Rightarrow> bool" for env i where
  spec_exhausted: "passed_all env i cs ct as ct' \<Longrightarrow> chain_spec env i cs as0 ct (Err (Exhausted (as0 @ as))) ct'"
| spec_stopped: "passed_all env i pre ct as ct' \<Longrightarrow> stops env (i + length pre) c e \<Longrightarrow>
    chain_spec env i (pre @ c # post) as0 ct (Err e) ct'"
| spec_served: "passed_all env i pre ct as ct' \<Longrightarrow> serves env (i + length pre) c ct' resp \<Longrightarrow>
    chain_spec env i (pre @ c # post) as0 ct (Ok (result_of c resp (as0 @ as))) (mark_success ct' (ca_provider c))"

lemma chain_spec_over:
  assumes "passed_over env i c ct a ct1" "chain_spec env (Suc i) cs (as0 @ [a]) ct1 r ct'"
  shows "chain_spec env i (c # cs) as0 ct r ct'"
  using assms(2)
proof cases
  case (spec_exhausted as)
  then show ?thesis
    using chain_spec.spec_exhausted [of env i "c # cs" ct "a # as" ct' as0] passed_cons [OF assms(1)] by simp
next
  case (spec_stopped pre as d e post)
  then show ?thesis using chain_spec.spec_stopped [of env i "c # pre" ct "a # as" ct' d e post as0] passed_cons [OF assms(1)] by simp
next
  case (spec_served pre as ct2 d resp post)
  then show ?thesis using chain_spec.spec_served [of env i "c # pre" ct "a # as" ct2 d resp post as0] passed_cons [OF assms(1)]
    by simp
qed

lemma execute_from_spec:
  "execute_from env i cs as0 ct = (r, ct') \<Longrightarrow> chain_spec env i cs as0 ct r ct'"
proof (induction cs arbitrary: i as0 ct)
  case Nil
  then show ?case using spec_exhausted [of env i "[]" ct "[]" ct as0] passed_nil [of env i ct] by simp
next
  case (Cons c cs)
  show ?case
  proof (cases rule: execute_from_step [of env i c cs as0 ct])
    case (stop e)
    then show ?thesis using Cons.prems spec_stopped [of env i "[]" ct "[]" ct c e cs as0] passed_nil [of env i ct] by simp
  next
    case (serve resp)
    then show ?thesis using Cons.prems spec_served [of env i "[]" ct "[]" ct c resp cs as0] passed_nil [of env i ct]
      by simp
  next
    case (over a ct1)
    then show ?thesis using Cons chain_spec_over by metis
  qed
qed

text \<open>
  C4: \<open>Execute\<close> returns the answer of the first candidate that is not passed over (its provider in
  cooldown, or a retriable failure, which then puts it in cooldown); everything before it is in the
  attempts, in order. It reports exhaustion only when every candidate was passed over, and stops early only on
  cancellation, on an error it cannot classify, and on a malformed request.
\<close>

theorem execute_implements_spec:
  assumes "candidates \<noteq> []"
  shows "case_prod (chain_spec env 0 candidates [] ct) (execute env candidates ct)"
  using assms execute_from_spec [of env 0 candidates "[]" ct]
  by (cases "execute_from env 0 candidates [] ct") (simp add: execute_def)

text \<open>
  Within one minute of a retriable failure the next candidate is skipped untried when it is of
  the same provider, because cooldowns are kept per provider and not per model: a fallback to another model
  of the failing provider never happens.
\<close>

theorem same_provider_fallback_skipped:
  assumes "ca_provider c2 = ca_provider c1"
    and "\<not> ev_canceled_before env i" "is_available (ev_now env i) ct (ca_provider c1)"
    and "ev_run env i (ca_provider c1) (ca_model c1) = Err err" "\<not> ev_canceled_after env i"
    and "classify_error err (ca_provider c1) (ca_model c1) = Some fe" "is_retriable fe"
    and "\<not> ev_canceled_before env (Suc i)"
    and "ev_end env i \<le> ev_now env (Suc i)" "ev_now env (Suc i) < ev_end env i + minute_ns"
  shows "\<exists>failed skipped. \<not> fa_skipped failed \<and> fa_skipped skipped \<and> fa_model skipped = ca_model c2 \<and>
    execute_from env i (c1 # c2 # cs) as0 ct = execute_from env (Suc (Suc i)) cs (as0 @ [failed, skipped])
      (mark_failure (ev_end env i) ct (ca_provider c1) (fe_reason fe))"
proof -
  have "\<not> is_available (ev_now env (Suc i)) (mark_failure (ev_end env i) ct (ca_provider c1) (fe_reason fe))
      (ca_provider c2)"
    unfolding assms(1) by (rule unavailable_after_failure [OF assms(9,10)])
  then have "execute_from env i (c1 # c2 # cs) as0 ct = execute_from env (Suc (Suc i)) cs (as0 @
      [failed_attempt c1 (Failed_Over fe) (Some (fe_reason fe)) (ev_end env i - ev_now env i),
       skipped_attempt c2 (cooldown_remaining (ev_now env (Suc i))
         (mark_failure (ev_end env i) ct (ca_provider c1) (fe_reason fe)) (ca_provider c2))])
      (mark_failure (ev_end env i) ct (ca_provider c1) (fe_reason fe))"
    using assms(2-8) by (simp add: Let_def)
  then show ?thesis by (intro exI conjI) (auto simp: failed_attempt_def skipped_attempt_def)
qed

definition demo_env :: "nat chain_env" where
  "demo_env = \<lparr>ev_canceled_before = (\<lambda>_. False), ev_canceled_after = (\<lambda>_. False),
     ev_now = (\<lambda>i. int i), ev_end = (\<lambda>i. int i),
     ev_run = (\<lambda>i p m. if m = ''gpt-4o'' then Err (Error_Msg ''status: 429'') else Ok 7)\<rparr>"

definition demo_c1 :: candidate where "demo_c1 = \<lparr>ca_provider = ''openai'', ca_model = ''gpt-4o''\<rparr>"
definition demo_c2 :: candidate where "demo_c2 = \<lparr>ca_provider = ''openai'', ca_model = ''gpt-4o-mini''\<rparr>"

lemma demo_classified:
  "classify_error (Error_Msg ''status: 429'') ''openai'' ''gpt-4o'' =
    Some (mk_failover Failover_Rate_Limit ''openai'' ''gpt-4o'' 429 (Error_Msg ''status: 429''))"
  by code_simp

lemma demo_retriable: "is_retriable (mk_failover Failover_Rate_Limit p m st err)"
  by (simp add: is_retriable_def mk_failover_def)

theorem execute_implements_spec_witness:
  "case_prod (chain_spec demo_env 0 [demo_c1, demo_c2] [] new_cooldown_tracker)
    (execute demo_env [demo_c1, demo_c2] new_cooldown_tracker)"
  by (rule execute_implements_spec) simp

theorem same_provider_fallback_skipped_witness:
  "\<exists>as. fst (execute demo_env [demo_c1, demo_c2] new_cooldown_tracker) = Err (Exhausted as) \<and> length as = 2"
proof -
  let ?fe = "mk_failover Failover_Rate_Limit ''openai'' ''gpt-4o'' 429 (Error_Msg ''status: 429'')"
  have "is_available 0 new_cooldown_tracker ''openai''"
    by (simp add: new_cooldown_tracker_def is_available_def)
  then have "\<exists>failed skipped. \<not> fa_skipped failed \<and> fa_skipped skipped \<and> fa_model skipped = ca_model demo_c2 \<and>
      execute_from demo_env 0 (demo_c1 # demo_c2 # []) [] new_cooldown_tracker =
      execute_from demo_env (Suc (Suc 0)) [] ([] @ [failed, skipped])
        (mark_failure (ev_end demo_env 0) new_cooldown_tracker (ca_provider demo_c1) (fe_reason ?fe))"
    using demo_classified demo_retriable
    by (intro same_provider_fallback_skipped [where err = "Error_Msg ''status: 429''"])
      (simp_all add: demo_c1_def demo_c2_def demo_env_def minute_ns_def millisecond_def)
  then obtain failed skipped where "execute_from demo_env 0 [demo_c1, demo_c2] [] new_cooldown_tracker =
      execute_from demo_env (Suc (Suc 0)) [] [failed, skipped]
        (mark_failure (ev_end demo_env 0) new_cooldown_tracker (ca_provider demo_c1) (fe_reason ?fe))"
    unfolding append_Nil by blast
  then have "fst (execute demo_env [demo_c1, demo_c2] new_cooldown_tracker) = Err (Exhausted [failed, skipped])"
    unfolding execute_def by (simp del: execute_from.simps(2))
  then show ?thesis by (intro exI [of _ "[failed, skipped]"]) simp
qed

end
