(* ===== verification/Commands.thy ===== *)
theory Commands
  imports Go_Strings Prelude
begin

text \<open>
  Slash commands, \<open>pkg/commands\<close>: parsing of a command line, the registry with its index of names and
  aliases, the executor, and the built-in commands. A handler is a constructor of \<open>handler\<close>, run by
  \<open>run_handler\<close>; every handler ends in exactly one reply, whose error it returns, so its result is the text
  of that reply and the new state \<open>'s\<close> of whatever the runtime's callbacks change.
\<close>

section \<open>Parsing a command line\<close>

definition nth_token :: "string \<Rightarrow> nat \<Rightarrow> string" where
  "nth_token input n = (let parts = fields (trim_space input) in if n \<ge> length parts then [] else parts ! n)"

definition normalize_command_name :: "string \<Rightarrow> string" where
  "normalize_command_name name = to_lower (trim_space name)"

definition command_prefixes :: "string list" where
  "command_prefixes = [''/'', ''!'']"

definition trim_command_prefix :: "string \<Rightarrow> string option" where
  "trim_command_prefix token = (case find (\<lambda>p. prefix p token) command_prefixes of
     None \<Rightarrow> None | Some p \<Rightarrow> Some (trim_prefix token p))"

definition parse_command_name :: "string \<Rightarrow> string option" where
  "parse_command_name input =
    (let token = nth_token input 0 in
     if token = [] then None
     else case trim_command_prefix token of
       None \<Rightarrow> None
     | Some name \<Rightarrow>
        (let bare = (case str_index name ''@'' of None \<Rightarrow> name | Some i \<Rightarrow> take i name);
             key = normalize_command_name bare
         in if key = [] then None else Some key))"

definition has_command_prefix :: "string \<Rightarrow> bool" where
  "has_command_prefix input =
    (let token = nth_token input 0 in token \<noteq> [] \<and> trim_command_prefix token \<noteq> None)"

section \<open>Definitions and their registry\<close>

datatype handler =
    H_Start | H_Help | H_Show_Model | H_Show_Channel | H_Agents | H_List_Models | H_List_Channels
  | H_Switch_Model | H_Switch_Channel | H_Check_Channel | H_Clear

record sub_command =
  sc_name :: string
  sc_description :: string
  sc_args_usage :: string
  sc_handler :: "handler option"

record command_def =
  cd_name :: string
  cd_description :: string
  cd_usage :: string
  cd_aliases :: "string list"
  cd_sub_commands :: "sub_command list"
  cd_handler :: "handler option"

definition effective_usage :: "command_def \<Rightarrow> string" where
  "effective_usage d =
    (if cd_sub_commands d = [] then cd_usage d
     else ''/'' @ cd_name d @ '' ['' @ join ''|'' (map (\<lambda>sc. sc_name sc @
       (if sc_args_usage sc \<noteq> [] then '' '' @ sc_args_usage sc else [])) (cd_sub_commands d)) @ '']'')"

record command_registry =
  cr_defs :: "command_def list"
  cr_index :: "(string \<times> nat) list"

definition register_command_name :: "(string \<times> nat) list \<Rightarrow> string \<times> nat \<Rightarrow> (string \<times> nat) list" where
  "register_command_name index = (\<lambda>(name, i).
     let key = normalize_command_name name in
     if key = [] then index else if map_of index key \<noteq> None then index else index @ [(key, i)])"

text \<open>The names in the order the constructor registers them: definition by definition, its name first.\<close>

definition command_names :: "command_def list \<Rightarrow> (string \<times> nat) list" where
  "command_names defs = concat (map (\<lambda>(i, d). map (\<lambda>n. (n, i)) (cd_name d # cd_aliases d)) (enumerate 0 defs))"

definition new_command_registry :: "command_def list \<Rightarrow> command_registry" where
  "new_command_registry defs = \<lparr>cr_defs = defs, cr_index = foldl register_command_name [] (command_names defs)\<rparr>"

definition lookup_command :: "command_registry \<Rightarrow> string \<Rightarrow> command_def option" where
  "lookup_command reg name =
    (let key = normalize_command_name name in
     if key = [] then None
     else case map_of (cr_index reg) key of None \<Rightarrow> None | Some i \<Rightarrow> Some (cr_defs reg ! i))"

section \<open>Handlers\<close>

text \<open>A nil callback of the Go struct is \<open>None\<close>; a nil runtime is one whose fields are all \<open>None\<close>.\<close>

record 's runtime =
  rt_model_info :: "('s \<Rightarrow> string \<times> string) option"
  rt_agent_ids :: "('s \<Rightarrow> string list) option"
  rt_definitions :: "command_def list option"
  rt_enabled_channels :: "string list option"
  rt_switch_model :: "(string \<Rightarrow> 's \<Rightarrow> (string, string) go_result \<times> 's) option"
  rt_switch_channel :: "(string \<Rightarrow> string option) option"
  rt_clear_history :: "('s \<Rightarrow> string option \<times> 's) option"

record request =
  rq_channel :: string
  rq_chat_id :: string
  rq_sender_id :: string
  rq_text :: string

definition unavailable_msg :: string where
  "unavailable_msg = ''Command unavailable in current context.''"

definition newline :: string where "newline = [CHR 0x0A]"
definition quoted :: "string \<Rightarrow> string" where "quoted s = [CHR 0x27] @ s @ [CHR 0x27]"

definition format_help_message :: "command_def list \<Rightarrow> string" where
  "format_help_message defs =
    (if defs = [] then ''No commands available.''
     else join newline (map (\<lambda>d.
       (if effective_usage d = [] then ''/'' @ cd_name d else effective_usage d) @ '' - '' @
       (if cd_description d = [] then ''No description'' else cd_description d)) defs))"

definition simple_command :: "string \<Rightarrow> string \<Rightarrow> handler \<Rightarrow> command_def" where
  "simple_command name descr h = \<lparr>cd_name = name, cd_description = descr, cd_usage = ''/'' @ name,
     cd_aliases = [], cd_sub_commands = [], cd_handler = Some h\<rparr>"

definition group_command :: "string \<Rightarrow> string \<Rightarrow> sub_command list \<Rightarrow> command_def" where
  "group_command name descr subs = \<lparr>cd_name = name, cd_description = descr, cd_usage = [],
     cd_aliases = [], cd_sub_commands = subs, cd_handler = None\<rparr>"

definition sub_cmd :: "string \<Rightarrow> string \<Rightarrow> string \<Rightarrow> handler \<Rightarrow> sub_command" where
  "sub_cmd name descr args h =
    \<lparr>sc_name = name, sc_description = descr, sc_args_usage = args, sc_handler = Some h\<rparr>"

definition start_command :: command_def where
  "start_command = simple_command ''start'' ''Start the bot'' H_Start"

definition help_command :: command_def where
  "help_command = simple_command ''help'' ''Show this help message'' H_Help"

definition show_command :: command_def where
  "show_command = group_command ''show'' ''Show current configuration''
    [sub_cmd ''model'' ''Current model and provider'' [] H_Show_Model,
     sub_cmd ''channel'' ''Current channel'' [] H_Show_Channel,
     sub_cmd ''agents'' ''Registered agents'' [] H_Agents]"

definition list_command :: command_def where
  "list_command = group_command ''list'' ''List available options''
    [sub_cmd ''models'' ''Configured models'' [] H_List_Models,
     sub_cmd ''channels'' ''Enabled channels'' [] H_List_Channels,
     sub_cmd ''agents'' ''Registered agents'' [] H_Agents]"

definition switch_command :: command_def where
  "switch_command = group_command ''switch'' ''Switch model''
    [sub_cmd ''model'' ''Switch to a different model'' ''to <name>'' H_Switch_Model,
     sub_cmd ''channel'' ''Moved to /check channel'' [] H_Switch_Channel]"

definition check_command :: command_def where
  "check_command = group_command ''check'' ''Check channel availability''
    [sub_cmd ''channel'' ''Check if a channel is available'' ''<name>'' H_Check_Channel]"

definition clear_command :: command_def where
  "clear_command = simple_command ''clear'' ''Clear the chat history'' H_Clear"

definition builtin_definitions :: "command_def list" where
  "builtin_definitions = [start_command, help_command, show_command, list_command, switch_command,
     check_command, clear_command]"

definition show_model_text :: "string \<times> string \<Rightarrow> string" where
  "show_model_text = (\<lambda>(name, provider). ''Current Model: '' @ name @ '' (Provider: '' @ provider @ '')'')"

definition list_models_text :: "string \<times> string \<Rightarrow> string" where
  "list_models_text = (\<lambda>(name, provider). ''Configured Model: '' @ name @ newline @ ''Provider: '' @
     (if provider = [] then ''configured default'' else provider) @ newline @ newline @
     ''To change models, update config.json'')"

definition agents_text :: "string list \<Rightarrow> string" where
  "agents_text ids = (if ids = [] then ''No agents registered'' else ''Registered agents: '' @ join '', '' ids)"

definition channels_text :: "string list \<Rightarrow> string" where
  "channels_text cs = (if cs = [] then ''No channels enabled''
     else ''Enabled Channels:'' @ newline @ ''- '' @ join (newline @ ''- '') cs)"

definition check_channel :: "(string \<Rightarrow> string option) \<Rightarrow> string \<Rightarrow> string" where
  "check_channel f value =
    (if value = [] then ''Usage: /check channel <name>''
     else case f value of Some e \<Rightarrow> e
       | None \<Rightarrow> ''Channel '' @ quoted value @ '' is available and enabled'')"

definition switch_model :: "(string \<Rightarrow> 's \<Rightarrow> (string, string) go_result \<times> 's) \<Rightarrow> string \<Rightarrow> 's \<Rightarrow> string \<times> 's" where
  "switch_model f text s =
    (let value = nth_token text 3 in
     if nth_token text 2 \<noteq> ''to'' \<or> value = [] then (''Usage: /switch model to <name>'', s)
     else case f value s of
       (Err e, s') \<Rightarrow> (e, s')
     | (Ok old, s') \<Rightarrow> (''Switched model from '' @ old @ '' to '' @ value, s'))"

definition clear_history :: "('s \<Rightarrow> string option \<times> 's) \<Rightarrow> 's \<Rightarrow> string \<times> 's" where
  "clear_history f s = (case f s of
     (Some e, s') \<Rightarrow> (''Failed to clear chat history: '' @ e, s')
   | (None, s') \<Rightarrow> (''Chat history cleared!'', s'))"

fun run_handler :: "handler \<Rightarrow> request \<Rightarrow> 's runtime \<Rightarrow> 's \<Rightarrow> string \<times> 's" where
  "run_handler H_Start rq rt s = (''Hello! I am PicoClaw '' @ encode_rune 129438, s)"
| "run_handler H_Help rq rt s =
    (format_help_message (case rt_definitions rt of Some ds \<Rightarrow> ds | None \<Rightarrow> builtin_definitions), s)"
| "run_handler H_Show_Model rq rt s =
    (case rt_model_info rt of None \<Rightarrow> (unavailable_msg, s) | Some f \<Rightarrow> (show_model_text (f s), s))"
| "run_handler H_Show_Channel rq rt s = (''Current Channel: '' @ rq_channel rq, s)"
| "run_handler H_Agents rq rt s =
    (case rt_agent_ids rt of None \<Rightarrow> (unavailable_msg, s) | Some f \<Rightarrow> (agents_text (f s), s))"
| "run_handler H_List_Models rq rt s =
    (case rt_model_info rt of None \<Rightarrow> (unavailable_msg, s) | Some f \<Rightarrow> (list_models_text (f s), s))"
| "run_handler H_List_Channels rq rt s =
    (case rt_enabled_channels rt of None \<Rightarrow> (unavailable_msg, s) | Some cs \<Rightarrow> (channels_text cs, s))"
| "run_handler H_Switch_Model rq rt s =
    (case rt_switch_model rt of None \<Rightarrow> (unavailable_msg, s) | Some f \<Rightarrow> switch_model f (rq_text rq) s)"
| "run_handler H_Switch_Channel rq rt s =
    (''This command has moved. Please use: /check channel <name>'', s)"
| "run_handler H_Check_Channel rq rt s =
    (case rt_switch_channel rt of None \<Rightarrow> (unavailable_msg, s)
     | Some f \<Rightarrow> (check_channel f (nth_token (rq_text rq) 2), s))"
| "run_handler H_Clear rq rt s =
    (case rt_clear_history rt of None \<Rightarrow> (unavailable_msg, s) | Some f \<Rightarrow> clear_history f s)"

section \<open>The executor\<close>

text \<open>The outcome of a command line: passed on to the agent, or handled with a reply.\<close>

datatype outcome = Passthrough string | Handled string string

definition execute_definition ::
  "request \<Rightarrow> command_def \<Rightarrow> 's runtime \<Rightarrow> 's \<Rightarrow> outcome \<times> 's" where
  "execute_definition rq d rt s =
    (let run = (\<lambda>h. case h of None \<Rightarrow> (Passthrough (cd_name d), s)
                   | Some h \<Rightarrow> (let (reply, s') = run_handler h rq rt s in (Handled (cd_name d) reply, s')))
     in if cd_sub_commands d = [] then run (cd_handler d)
        else let sub = nth_token (rq_text rq) 1 in
          if sub = [] then (Handled (cd_name d) (''Usage: '' @ effective_usage d), s)
          else case find (\<lambda>sc. normalize_command_name (sc_name sc) = normalize_command_name sub) (cd_sub_commands d) of
            Some sc \<Rightarrow> run (sc_handler sc)
          | None \<Rightarrow> (Handled (cd_name d) (''Unknown option: '' @ sub @ ''. Usage: '' @ effective_usage d), s))"

definition execute_command ::
  "command_registry option \<Rightarrow> request \<Rightarrow> 's runtime \<Rightarrow> 's \<Rightarrow> outcome \<times> 's" where
  "execute_command reg rq rt s =
    (case parse_command_name (rq_text rq) of
       None \<Rightarrow> (Passthrough [], s)
     | Some name \<Rightarrow>
        (case reg of None \<Rightarrow> (Passthrough name, s)
         | Some r \<Rightarrow>
            (case lookup_command r name of None \<Rightarrow> (Passthrough name, s)
             | Some d \<Rightarrow> execute_definition rq d rt s)))"

section \<open>The index and the definitions\<close>

lemma find_map: "find P (map f xs) = map_option f (find (P \<circ> f) xs)"
  by (induction xs) auto

lemma map_of_snoc: "map_of (xs @ [(k, v)]) m = (case map_of xs m of None \<Rightarrow> if m = k then Some v else None | Some y \<Rightarrow> Some y)"
  by (induction xs) auto

lemma map_of_register:
  assumes "key \<noteq> []"
  shows "map_of (foldl register_command_name ix ns) key = (case map_of ix key of Some i \<Rightarrow> Some i
    | None \<Rightarrow> map_option snd (find (\<lambda>(n, i). normalize_command_name n = key) ns))"
proof (induction ns arbitrary: ix)
  case (Cons p ns)
  show ?case
    unfolding foldl_Cons Cons.IH using assms
    by (cases p) (auto simp: register_command_name_def Let_def map_of_snoc split: option.splits)
qed (auto split: option.split)

lemma command_names_Cons:
  "concat (map (\<lambda>(i, d). map (\<lambda>n. (n, i)) (cd_name d # cd_aliases d)) (enumerate k (d # ds))) =
    map (\<lambda>n. (n, k)) (cd_name d # cd_aliases d) @
    concat (map (\<lambda>(i, d). map (\<lambda>n. (n, i)) (cd_name d # cd_aliases d)) (enumerate (Suc k) ds))"
  by simp

lemma find_command_names:
  "(case find (\<lambda>(n, i). P n)
      (concat (map (\<lambda>(i, d). map (\<lambda>n. (n, i)) (cd_name d # cd_aliases d)) (enumerate k ds))) of
      None \<Rightarrow> find (\<lambda>d. list_ex P (cd_name d # cd_aliases d)) ds = None
    | Some (n, i) \<Rightarrow> k \<le> i \<and> find (\<lambda>d. list_ex P (cd_name d # cd_aliases d)) ds = Some (ds ! (i - k)))"
proof (induction ds arbitrary: k)
  case (Cons d ds)
  have own: "find (\<lambda>(n, i). P n) (map (\<lambda>n. (n, k)) ns) = map_option (\<lambda>n. (n, k)) (find P ns)" for ns
    by (simp add: find_map o_def)
  show ?case
  proof (cases "find P (cd_name d # cd_aliases d)")
    case None
    then have "\<not> list_ex P (cd_name d # cd_aliases d)" by (auto simp: find_eq_None_iff list_ex_iff split: if_splits)
    then show ?thesis
      unfolding command_names_Cons find_append own None
      using Cons.IH [of "Suc k"] by (auto split: option.splits simp: nth_Cons')
  next
    case (Some n)
    then have "list_ex P (cd_name d # cd_aliases d)" using find_SomeD [OF Some] by (auto simp: list_ex_iff)
    then show ?thesis unfolding command_names_Cons find_append own Some by simp
  qed
qed simp

lemma lookup_command_find:
  "lookup_command (new_command_registry defs) name =
    (if normalize_command_name name = [] then None
     else find (\<lambda>d. list_ex (\<lambda>n. normalize_command_name n = normalize_command_name name) (cd_name d # cd_aliases d)) defs)"
  using find_command_names [where P = "\<lambda>n. normalize_command_name n = normalize_command_name name" and k = 0 and ds = defs]
  by (simp add: lookup_command_def new_command_registry_def map_of_register command_names_def Let_def
      split: option.splits prod.splits)

text \<open>
  The index is the list of definitions: looking a name up finds the first definition whose name
  or one of whose aliases is that name, up to case and surrounding white space, whatever names the
  definitions share; a blank name finds nothing.
\<close>

theorem lookup_command_first:
  "lookup_command (new_command_registry defs) name =
    (if normalize_command_name name = [] then None
     else find (\<lambda>d. list_ex (\<lambda>n. normalize_command_name n = normalize_command_name name) (cd_name d # cd_aliases d)) defs)"
  by (rule lookup_command_find)

section \<open>The built-in commands\<close>

lemma normalize_idem [simp]: "normalize_command_name (normalize_command_name n) = normalize_command_name n"
  by (simp add: normalize_command_name_def trim_space_to_lower)

lemma parse_command_normal: "parse_command_name input = Some c \<Longrightarrow> normalize_command_name c = c \<and> c \<noteq> []"
  by (auto simp: parse_command_name_def Let_def split: if_splits option.splits)

lemma normalize_builtin_names:
  "map (\<lambda>d. map normalize_command_name (cd_name d # cd_aliases d)) builtin_definitions =
    map (\<lambda>d. [cd_name d]) builtin_definitions"
  by code_simp

lemma lookup_builtin:
  assumes "normalize_command_name c = c" "c \<noteq> []"
  shows "lookup_command (new_command_registry builtin_definitions) c = find (\<lambda>d. cd_name d = c) builtin_definitions"
proof -
  have "list_ex (\<lambda>n. normalize_command_name n = c) (cd_name d # cd_aliases d) \<longleftrightarrow> cd_name d = c"
    if "d \<in> set builtin_definitions" for d
    using that normalize_builtin_names by (auto simp: list_ex_iff map_eq_conv)
  then show ?thesis using assms by (simp add: lookup_command_find cong: find_cong_pred)
qed

lemma run_handler_state:
  "h \<noteq> H_Switch_Model \<Longrightarrow> h \<noteq> H_Clear \<Longrightarrow> snd (run_handler h rq rt s) = s"
  by (cases h) (auto split: option.split)

definition handlers :: "command_def \<Rightarrow> handler option list" where
  "handlers d = (if cd_sub_commands d = [] then [cd_handler d] else map sc_handler (cd_sub_commands d))"

lemma execute_definition_handled:
  assumes "None \<notin> set (handlers d)"
  obtains reply s' where "execute_definition rq d rt s = (Handled (cd_name d) reply, s')"
    "s' = s \<or> Some H_Switch_Model \<in> set (handlers d) \<or> Some H_Clear \<in> set (handlers d)"
proof -
  have run: "\<exists>reply s'. (case Some h of None \<Rightarrow> (Passthrough (cd_name d), s)
      | Some h \<Rightarrow> (let (reply, s') = run_handler h rq rt s in (Handled (cd_name d) reply, s'))) =
        (Handled (cd_name d) reply, s') \<and>
      (s' = s \<or> Some H_Switch_Model \<in> set (handlers d) \<or> Some H_Clear \<in> set (handlers d))"
    if "Some h \<in> set (handlers d)" for h
    using that run_handler_state [of h rq rt s]
    by (cases "h = H_Switch_Model \<or> h = H_Clear") (auto simp: case_prod_beta)
  have "\<exists>reply s'. execute_definition rq d rt s = (Handled (cd_name d) reply, s') \<and>
      (s' = s \<or> Some H_Switch_Model \<in> set (handlers d) \<or> Some H_Clear \<in> set (handlers d))"
  proof (cases "cd_sub_commands d = []")
    case True
    then obtain h where "cd_handler d = Some h" "Some h \<in> set (handlers d)"
      using assms by (cases "cd_handler d") (auto simp: handlers_def)
    then show ?thesis using run [of h] True by (simp add: execute_definition_def Let_def)
  next
    case False
    let ?sc = "find (\<lambda>sc. normalize_command_name (sc_name sc) = normalize_command_name (nth_token (rq_text rq) 1))
      (cd_sub_commands d)"
    show ?thesis
    proof (cases "nth_token (rq_text rq) 1 = [] \<or> ?sc = None")
      case True
      then show ?thesis using False by (auto simp: execute_definition_def Let_def)
    next
      case sub: False
      then obtain sc where sc: "?sc = Some sc" by blast
      then obtain h where "sc_handler sc = Some h" "Some h \<in> set (handlers d)"
        using assms False find_SomeD [OF sc] by (cases "sc_handler sc") (force simp: handlers_def)+
      then show ?thesis using run [of h] False sub sc by (simp add: execute_definition_def Let_def)
    qed
  qed
  then show ?thesis using that by blast
qed

lemma builtin_handlers:
  "list_all (\<lambda>d. None \<notin> set (handlers d) \<and> (Some H_Switch_Model \<in> set (handlers d) \<longrightarrow> cd_name d = ''switch'') \<and>
     (Some H_Clear \<in> set (handlers d) \<longrightarrow> cd_name d = ''clear'')) builtin_definitions"
  by code_simp

text \<open>
  With the built-in commands a message is either a command or the agent's business: it is handled,
  with a reply, exactly when its first word is one of their names (after the prefix, up to case and the
  part from an at sign on); only /switch and /clear change the state, and a message passed on to the
  agent leaves everything as it was.
\<close>

theorem builtin_command_or_message:
  "case execute_command (Some (new_command_registry builtin_definitions)) rq rt s of
     (Passthrough c, s') \<Rightarrow> s' = s \<and> parse_command_name (rq_text rq) \<notin> Some ` set (map cd_name builtin_definitions)
   | (Handled c reply, s') \<Rightarrow> parse_command_name (rq_text rq) = Some c \<and> c \<in> set (map cd_name builtin_definitions) \<and>
       (s' = s \<or> c = ''switch'' \<or> c = ''clear'')"
proof (cases "parse_command_name (rq_text rq)")
  case (Some c)
  note normal = parse_command_normal [OF Some]
  show ?thesis
  proof (cases "find (\<lambda>d. cd_name d = c) builtin_definitions")
    case None
    then have "execute_command (Some (new_command_registry builtin_definitions)) rq rt s = (Passthrough c, s)"
      using normal by (simp add: execute_command_def Some lookup_builtin)
    then show ?thesis using None Some by (auto simp: find_eq_None_iff)
  next
    case d: (Some d)
    then have mem: "d \<in> set builtin_definitions" and name: "cd_name d = c" using find_SomeD [OF d] by auto
    have h: "None \<notin> set (handlers d)"
        "Some H_Switch_Model \<in> set (handlers d) \<Longrightarrow> c = ''switch''"
        "Some H_Clear \<in> set (handlers d) \<Longrightarrow> c = ''clear''"
      using builtin_handlers mem name by (simp_all add: list_all_iff)
    obtain reply s' where ex: "execute_definition rq d rt s = (Handled c reply, s')"
        and s': "s' = s \<or> c = ''switch'' \<or> c = ''clear''"
      using execute_definition_handled [OF h(1), of rq rt s] h(2,3) unfolding name by metis
    have run: "execute_command (Some (new_command_registry builtin_definitions)) rq rt s = (Handled c reply, s')"
      using normal by (simp add: execute_command_def Some lookup_builtin d ex)
    have "c \<in> set (map cd_name builtin_definitions)" using mem name by auto
    then show ?thesis unfolding run prod.case outcome.case using Some s' by simp
  qed
qed (auto simp: execute_command_def)

end
