(* ===== verification/Model_Router.thy ===== *)
theory Model_Router
  imports Messages Complex_Main Prelude
begin

text \<open>
  Routing of simple messages to a light model, \<open>pkg/routing/features.go\<close>, \<open>classifier.go\<close> and
  \<open>router.go\<close>. The scores of the Go code are float64 sums of decimal constants; here they are the exact
  rationals. At the default threshold the two agree on every combination of signals.
\<close>

section \<open>Features\<close>

definition lookback_window :: nat where "lookback_window = 6"

record features =
  fe_token_estimate :: nat
  fe_code_blocks :: nat
  fe_recent_tool_calls :: nat
  fe_depth :: nat
  fe_attachments :: bool

definition is_cjk :: "rune \<Rightarrow> bool" where
  "is_cjk r \<longleftrightarrow> 11904 \<le> r \<and> r \<le> 40959 \<or> 63744 \<le> r \<and> r \<le> 64255 \<or> 44032 \<le> r \<and> r \<le> 55215"

definition router_estimate_tokens :: "string \<Rightarrow> nat" where
  "router_estimate_tokens msg =
    (let total = rune_count msg in
     if total = 0 then 0
     else let cjk = length (filter is_cjk (runes msg)) in cjk + (total - cjk) div 4)"

definition count_code_blocks :: "string \<Rightarrow> nat" where
  "count_code_blocks msg = str_count msg ''```'' div 2"

definition count_recent_tool_calls :: "message list \<Rightarrow> nat" where
  "count_recent_tool_calls history = sum_list (map (\<lambda>m. length (msg_tool_calls m)) (last_n lookback_window history))"

definition media_exts :: "string list" where
  "media_exts = [''.jpg'', ''.jpeg'', ''.png'', ''.gif'', ''.webp'', ''.bmp'', ''.mp3'', ''.wav'', ''.ogg'',
     ''.m4a'', ''.flac'', ''.mp4'', ''.avi'', ''.mov'', ''.webm'']"

definition has_attachments :: "string \<Rightarrow> bool" where
  "has_attachments msg \<longleftrightarrow>
    (let lower = to_lower msg in
     str_contains lower ''data:image/'' \<or> str_contains lower ''data:audio/'' \<or> str_contains lower ''data:video/'' \<or>
     list_ex (str_contains lower) media_exts)"

definition extract_features :: "string \<Rightarrow> message list \<Rightarrow> features" where
  "extract_features msg history =
    \<lparr>fe_token_estimate = router_estimate_tokens msg, fe_code_blocks = count_code_blocks msg,
     fe_recent_tool_calls = count_recent_tool_calls history, fe_depth = length history,
     fe_attachments = has_attachments msg\<rparr>"

section \<open>The classifier and the router\<close>

definition rule_score :: "features \<Rightarrow> rat" where
  "rule_score f =
    (if fe_attachments f then 1
     else let s1 = (if fe_token_estimate f > 200 then 35 / 100 else if fe_token_estimate f > 50 then 15 / 100 else 0);
              s2 = s1 + (if fe_code_blocks f > 0 then 40 / 100 else 0);
              s3 = s2 + (if fe_recent_tool_calls f > 3 then 25 / 100 else if fe_recent_tool_calls f > 0 then 10 / 100 else 0);
              s4 = s3 + (if fe_depth f > 10 then 10 / 100 else 0)
          in if s4 > 1 then 1 else s4)"

definition default_threshold :: rat where "default_threshold = 35 / 100"

record router_config =
  ro_light_model :: string
  ro_threshold :: rat

definition new_router :: "router_config \<Rightarrow> router_config" where
  "new_router cfg = (if ro_threshold cfg \<le> 0 then cfg\<lparr>ro_threshold := default_threshold\<rparr> else cfg)"

definition router_select_model :: "router_config \<Rightarrow> string \<Rightarrow> message list \<Rightarrow> string \<Rightarrow> string \<times> bool \<times> rat" where
  "router_select_model r msg history primary =
    (let score = rule_score (extract_features msg history) in
     if score < ro_threshold r then (ro_light_model r, True, score) else (primary, False, score))"

section \<open>Properties\<close>

lemma rule_score_bounds: "0 \<le> rule_score f \<and> rule_score f \<le> 1"
  by (simp add: rule_score_def Let_def)

text \<open>More of any signal never makes a message simpler.\<close>

definition features_le :: "features \<Rightarrow> features \<Rightarrow> bool" where
  "features_le f g \<longleftrightarrow> fe_token_estimate f \<le> fe_token_estimate g \<and> fe_code_blocks f \<le> fe_code_blocks g \<and>
     fe_recent_tool_calls f \<le> fe_recent_tool_calls g \<and> fe_depth f \<le> fe_depth g \<and>
     (fe_attachments g \<or> \<not> fe_attachments f)"

lemma rule_score_mono:
  assumes "features_le f g"
  shows "rule_score f \<le> rule_score g"
proof (cases "fe_attachments g")
  case True
  then have "rule_score g = 1" by (simp add: rule_score_def)
  then show ?thesis using rule_score_bounds [of f] by simp
next
  case False
  with assms show ?thesis by (simp add: rule_score_def features_le_def Let_def)
qed

text \<open>
  With the default threshold (any configured value that is not positive) the light model answers
  exactly the messages without media and code blocks, of at most 200 estimated tokens, unless the recent
  tool calls, the depth of the conversation and the length weigh in together; anything else goes to the
  primary model.
\<close>

theorem light_model_selected:
  fixes msg history
  defines "f \<equiv> extract_features msg history"
  shows "fst (snd (router_select_model (new_router \<lparr>ro_light_model = light, ro_threshold = 0\<rparr>) msg history primary)) \<longleftrightarrow>
    \<not> fe_attachments f \<and> fe_code_blocks f = 0 \<and> fe_token_estimate f \<le> 200 \<and>
    \<not> (fe_recent_tool_calls f > 3 \<and> (fe_depth f > 10 \<or> fe_token_estimate f > 50)) \<and>
    \<not> (fe_token_estimate f > 50 \<and> fe_recent_tool_calls f > 0 \<and> fe_depth f > 10)"
  unfolding f_def [symmetric] router_select_model_def new_router_def default_threshold_def Let_def
  by (simp add: rule_score_def Let_def)

end
