(* ===== verification/Message_Bus.thy ===== *)
theory Message_Bus
  imports Main "HOL-Library.Sublist" Prelude
begin

text \<open>
  The message bus, \<open>pkg/bus/bus.go\<close>: a buffered channel per kind of message, a flag and a done channel that
  \<open>Close\<close> sets. A publisher first reads the flag and then enters a select, \<open>Close\<close> sets the flag, closes
  \<open>done\<close> and drains the buffer; the steps of all of them interleave. A select with several ready cases takes
  any of them, so the steps are a relation. The three channels of the bus do not interact except through the
  flag, so the model is one of them, for messages of any type.
\<close>

definition bus_buffer_size :: nat where "bus_buffer_size = 64"

text \<open>The results of a publish: delivered, closed, or the context's error.\<close>

datatype publish_result = Published | Bus_Closed | Context_Error

record 'm bus =
  bu_buffer :: "'m list"
  bu_done :: bool
  bu_closed :: bool

definition new_bus :: "'m bus" where
  "new_bus = \<lparr>bu_buffer = [], bu_done = False, bu_closed = False\<rparr>"

text \<open>The checks before the select of a publish: \<open>None\<close> goes on to the select.\<close>

definition publish_check :: "'m bus \<Rightarrow> bool \<Rightarrow> publish_result option" where
  "publish_check b canceled = (if bu_closed b then Some Bus_Closed else if canceled then Some Context_Error else None)"

text \<open>The select of a publish; no step is possible while it blocks.\<close>

inductive publish_select :: "'m \<Rightarrow> bool \<Rightarrow> 'm bus \<Rightarrow> publish_result \<Rightarrow> 'm bus \<Rightarrow> bool"
  for m :: 'm and canceled :: bool and b :: "'m bus" where
  send: "length (bu_buffer b) < bus_buffer_size \<Longrightarrow>
    publish_select m canceled b Published (b\<lparr>bu_buffer := bu_buffer b @ [m]\<rparr>)"
| closed: "bu_done b \<Longrightarrow> publish_select m canceled b Bus_Closed b"
| cancel: "canceled \<Longrightarrow> publish_select m canceled b Context_Error b"

text \<open>Consuming: a message, or nothing when the bus or the context is done.\<close>

inductive consume_select :: "bool \<Rightarrow> 'm bus \<Rightarrow> 'm option \<Rightarrow> 'm bus \<Rightarrow> bool"
  for canceled :: bool and b :: "'m bus" where
  receive: "bu_buffer b = m # rest \<Longrightarrow> consume_select canceled b (Some m) (b\<lparr>bu_buffer := rest\<rparr>)"
| closed: "bu_done b \<Longrightarrow> consume_select canceled b None b"
| cancel: "canceled \<Longrightarrow> consume_select canceled b None b"

text \<open>\<open>Close\<close>: the compare-and-swap of the flag, closing \<open>done\<close>, and one message drained at a time.\<close>

definition close_swap :: "'m bus \<Rightarrow> 'm bus option" where
  "close_swap b = (if bu_closed b then None else Some (b\<lparr>bu_closed := True\<rparr>))"

definition close_done :: "'m bus \<Rightarrow> 'm bus" where
  "close_done b = b\<lparr>bu_done := True\<rparr>"

definition drain_one :: "'m bus \<Rightarrow> 'm bus option" where
  "drain_one b = (case bu_buffer b of [] \<Rightarrow> None | m # rest \<Rightarrow> Some (b\<lparr>bu_buffer := rest\<rparr>))"

section \<open>The system\<close>

text \<open>Where the closing goroutine is.\<close>

datatype closer = Idle | Swapped | Draining | Finished

text \<open>The bus with its clients: \<open>sy_waiting\<close> are the messages of publishers between their check and their
  select; the other lists record, for the proofs, what was accepted, consumed and drained, in order.\<close>

record 'm system =
  sy_bus :: "'m bus"
  sy_closer :: closer
  sy_waiting :: "'m list"
  sy_accepted :: "'m list"
  sy_consumed :: "'m list"
  sy_drained :: "'m list"

definition start_system :: "'m system" where
  "start_system = \<lparr>sy_bus = new_bus, sy_closer = Idle, sy_waiting = [], sy_accepted = [], sy_consumed = [], sy_drained = []\<rparr>"

inductive bus_step :: "'m system \<Rightarrow> 'm system \<Rightarrow> bool" for s :: "'m system" where
  check: "publish_check (sy_bus s) False = None \<Longrightarrow> bus_step s (s\<lparr>sy_waiting := m # sy_waiting s\<rparr>)"
| publish: "m \<in> set (sy_waiting s) \<Longrightarrow> publish_select m canceled (sy_bus s) Published b \<Longrightarrow>
    bus_step s (s\<lparr>sy_bus := b, sy_waiting := remove1 m (sy_waiting s), sy_accepted := sy_accepted s @ [m]\<rparr>)"
| reject: "m \<in> set (sy_waiting s) \<Longrightarrow> publish_select m canceled (sy_bus s) r b \<Longrightarrow> r \<noteq> Published \<Longrightarrow>
    bus_step s (s\<lparr>sy_bus := b, sy_waiting := remove1 m (sy_waiting s)\<rparr>)"
| consume: "consume_select canceled (sy_bus s) (Some m) b \<Longrightarrow>
    bus_step s (s\<lparr>sy_bus := b, sy_consumed := sy_consumed s @ [m]\<rparr>)"
| swap: "sy_closer s = Idle \<Longrightarrow> close_swap (sy_bus s) = Some b \<Longrightarrow> bus_step s (s\<lparr>sy_bus := b, sy_closer := Swapped\<rparr>)"
| finish: "sy_closer s = Swapped \<Longrightarrow> bus_step s (s\<lparr>sy_bus := close_done (sy_bus s), sy_closer := Draining\<rparr>)"
| drain: "sy_closer s = Draining \<Longrightarrow> drain_one (sy_bus s) = Some b \<Longrightarrow>
    bus_step s (s\<lparr>sy_bus := b, sy_drained := sy_drained s @ take 1 (bu_buffer (sy_bus s))\<rparr>)"
| drained: "sy_closer s = Draining \<Longrightarrow> drain_one (sy_bus s) = None \<Longrightarrow> bus_step s (s\<lparr>sy_closer := Finished\<rparr>)"

inductive reachable :: "'m system \<Rightarrow> bool" where
  start: "reachable start_system"
| step: "reachable s \<Longrightarrow> bus_step s s' \<Longrightarrow> reachable s'"

inductive_cases publish_selectE: "publish_select m canceled b r b'"
inductive_cases consume_selectE: "consume_select canceled b (Some m) b'"

section \<open>Order and loss\<close>

text \<open>The messages taken out of the buffer so far, by consumers and by the drain, are an interleaving.\<close>

definition bus_inv :: "'m system \<Rightarrow> bool" where
  "bus_inv s \<longleftrightarrow> length (bu_buffer (sy_bus s)) \<le> bus_buffer_size \<and>
     (bu_closed (sy_bus s) \<longleftrightarrow> sy_closer s \<noteq> Idle) \<and>
     (bu_done (sy_bus s) \<longleftrightarrow> sy_closer s = Draining \<or> sy_closer s = Finished) \<and>
     (\<exists>out. sy_accepted s = out @ bu_buffer (sy_bus s) \<and> out \<in> shuffles (sy_consumed s) (sy_drained s)) \<and>
     (sy_closer s = Idle \<or> sy_closer s = Swapped \<longrightarrow> sy_drained s = [])"

lemma shuffles_snoc:
  "zs \<in> shuffles xs ys \<Longrightarrow> zs @ [z] \<in> shuffles (xs @ [z]) ys"
  "zs \<in> shuffles xs ys \<Longrightarrow> zs @ [z] \<in> shuffles xs (ys @ [z])"
proof -
  have "zs \<in> shuffles xs ys \<Longrightarrow> zs @ [z] \<in> shuffles (xs @ [z]) ys \<and> zs @ [z] \<in> shuffles xs (ys @ [z])"
  proof (induction xs ys arbitrary: zs rule: shuffles.induct)
    case (1 ys)
    then show ?case by (induction ys arbitrary: zs) (auto simp: Cons_in_shuffles_iff)
  next
    case (2 xs)
    then show ?case by (induction xs arbitrary: zs) (auto simp: Cons_in_shuffles_iff)
  next
    case (3 x xs y ys)
    from 3(3) show ?case by (auto dest: 3(1,2))
  qed
  then show "zs \<in> shuffles xs ys \<Longrightarrow> zs @ [z] \<in> shuffles (xs @ [z]) ys"
    "zs \<in> shuffles xs ys \<Longrightarrow> zs @ [z] \<in> shuffles xs (ys @ [z])" by blast+
qed

lemma bus_inv_step: "bus_step s s' \<Longrightarrow> bus_inv s \<Longrightarrow> bus_inv s'"
proof (induction rule: bus_step.induct)
  case (publish m canceled b)
  then show ?case by (auto simp: bus_inv_def elim!: publish_selectE)
next
  case (reject m canceled r b)
  then show ?case by (auto elim!: publish_selectE simp: bus_inv_def)
next
  case (consume canceled m b)
  then obtain rest where b: "bu_buffer (sy_bus s) = m # rest" "b = (sy_bus s)\<lparr>bu_buffer := rest\<rparr>"
    using consume.hyps by (auto elim: consume_selectE)
  from consume.prems obtain out where "sy_accepted s = out @ m # rest" "out \<in> shuffles (sy_consumed s) (sy_drained s)"
    by (auto simp: bus_inv_def b)
  then show ?case using consume b shuffles_snoc(1) [of out "sy_consumed s" "sy_drained s" m]
    by (auto simp: bus_inv_def intro!: exI [of _ "out @ [m]"])
next
  case (drain b)
  then obtain m rest where b: "bu_buffer (sy_bus s) = m # rest" "b = (sy_bus s)\<lparr>bu_buffer := rest\<rparr>"
    using drain.hyps by (auto simp: drain_one_def split: list.splits)
  from drain.prems obtain out where "sy_accepted s = out @ m # rest" "out \<in> shuffles (sy_consumed s) (sy_drained s)"
    by (auto simp: bus_inv_def b)
  then show ?case using drain b shuffles_snoc(2) [of out "sy_consumed s" "sy_drained s" m]
    by (auto simp: bus_inv_def intro!: exI [of _ "out @ [m]"])
qed (auto simp: bus_inv_def close_swap_def close_done_def split: if_splits)

lemma bus_inv_reachable: "reachable s \<Longrightarrow> bus_inv s"
proof (induction rule: reachable.induct)
  case start
  show ?case by (simp add: bus_inv_def start_system_def new_bus_def bus_buffer_size_def)
qed (rule bus_inv_step)

text \<open>
  C38: Whatever publishers, consumers and \<open>Close\<close> interleave, before, during and after closing: the bus holds at most
  64 messages, and the messages whose publish returned without an error are, in the order they were accepted, those
  taken out so far, then those in the buffer; those taken out are the ones consumed and the ones thrown away by the drain
  of \<open>Close\<close>, interleaved, each in its order.  So none is duplicated, invented or reordered, and while \<open>Close\<close> has not
  closed \<open>done\<close>, none is lost: the drain has taken nothing.
\<close>

theorem bus_fifo:
  assumes "reachable s"
  shows "length (bu_buffer (sy_bus s)) \<le> 64 \<and>
    (\<exists>out. sy_accepted s = out @ bu_buffer (sy_bus s) \<and> out \<in> shuffles (sy_consumed s) (sy_drained s)) \<and>
    (\<not> bu_done (sy_bus s) \<longrightarrow> sy_drained s = [] \<and> sy_accepted s = sy_consumed s @ bu_buffer (sy_bus s))"
  using bus_inv_reachable [OF assms] by (cases "sy_closer s") (auto simp: bus_inv_def bus_buffer_size_def)

lemma witness_system: "reachable (start_system\<lparr>sy_bus := new_bus\<lparr>bu_buffer := [5 :: nat]\<rparr>, sy_accepted := [5]\<rparr>)"
proof -
  have "bus_step start_system (start_system\<lparr>sy_waiting := [5 :: nat]\<rparr>)"
    using bus_step.check [of start_system 5] by (simp add: start_system_def publish_check_def new_bus_def)
  note r1 = reachable.step [OF reachable.start this]
  have "publish_select 5 False (new_bus :: nat bus) Published (new_bus\<lparr>bu_buffer := [5]\<rparr>)"
    using publish_select.send [of "new_bus :: nat bus" 5 False] by (simp add: new_bus_def bus_buffer_size_def)
  then have "bus_step (start_system\<lparr>sy_waiting := [5 :: nat]\<rparr>)
      (start_system\<lparr>sy_bus := new_bus\<lparr>bu_buffer := [5 :: nat]\<rparr>, sy_accepted := [5]\<rparr>)"
    using bus_step.publish [of 5 "start_system\<lparr>sy_waiting := [5 :: nat]\<rparr>" False] by (simp add: start_system_def)
  then show ?thesis by (rule reachable.step [OF r1])
qed

theorem bus_fifo_witness:
  "sy_accepted (start_system\<lparr>sy_bus := new_bus\<lparr>bu_buffer := [5 :: nat]\<rparr>, sy_accepted := [5]\<rparr>) = [] @ [5 :: nat]"
  using bus_fifo [OF witness_system] by (simp add: start_system_def new_bus_def)

text \<open>
  \<open>Close\<close> does not keep its promise that buffered messages are not silently lost: from a state in
  which a publisher has passed the check of the closed flag, there is a run in which the drain throws an
  accepted message away, and one in which the publish succeeds after \<open>Close\<close> has returned and the message
  stays in the buffer.
\<close>

theorem close_loses_accepted:
  "(\<exists>s. reachable s \<and> sy_closer s = Finished \<and> sy_accepted s = [m] \<and> sy_consumed s = [] \<and> sy_drained s = [m]) \<and>
   (\<exists>s. reachable s \<and> sy_closer s = Finished \<and> sy_accepted s = [m] \<and> bu_buffer (sy_bus s) = [m])"
proof -
  define w where "w = start_system\<lparr>sy_waiting := [m]\<rparr>"
  have "bus_step start_system w"
    using bus_step.check [of start_system m] by (simp add: w_def start_system_def publish_check_def new_bus_def)
  note rw = reachable.step [OF reachable.start this]
  have send: "publish_select m False b Published (b\<lparr>bu_buffer := [m]\<rparr>)" if "bu_buffer b = []" for b
    using publish_select.send [of b m False] that by (simp add: bus_buffer_size_def)
  have swap: "reachable (s\<lparr>sy_bus := (sy_bus s)\<lparr>bu_closed := True, bu_done := True\<rparr>, sy_closer := Draining\<rparr>)"
    if "reachable s" "sy_closer s = Idle" "\<not> bu_closed (sy_bus s)" for s :: "'a system"
    using reachable.step [OF reachable.step [OF that(1) bus_step.swap [OF that(2)]] bus_step.finish] that(3)
    by (simp add: close_swap_def close_done_def)
  have pub: "bus_step s (s\<lparr>sy_bus := (sy_bus s)\<lparr>bu_buffer := [m]\<rparr>, sy_waiting := [], sy_accepted := [m]\<rparr>)"
    if "sy_waiting s = [m]" "bu_buffer (sy_bus s) = []" "sy_accepted s = []" for s
    using bus_step.publish [of m s False, OF _ send] that by simp
  have fin: "bus_step s (s\<lparr>sy_closer := Finished\<rparr>)" if "sy_closer s = Draining" "bu_buffer (sy_bus s) = []" for s :: "'a system"
    using bus_step.drained [OF that(1)] that(2) by (simp add: drain_one_def)
  let ?p = "w\<lparr>sy_bus := new_bus\<lparr>bu_buffer := [m]\<rparr>, sy_waiting := [], sy_accepted := [m]\<rparr>"
  have "bus_step w ?p" using pub [of w] by (simp add: w_def start_system_def new_bus_def)
  from swap [OF reachable.step [OF rw this]]
  have "reachable (?p\<lparr>sy_bus := (sy_bus ?p)\<lparr>bu_closed := True, bu_done := True\<rparr>, sy_closer := Draining\<rparr>)"
    by (simp add: w_def start_system_def new_bus_def)
  from reachable.step [OF reachable.step [OF this bus_step.drain] fin]
  have 1: "\<exists>s. reachable s \<and> sy_closer s = Finished \<and> sy_accepted s = [m] \<and> sy_consumed s = [] \<and> sy_drained s = [m]"
    by (force simp: w_def start_system_def new_bus_def drain_one_def)
  have "reachable (w\<lparr>sy_bus := (sy_bus w)\<lparr>bu_closed := True, bu_done := True\<rparr>, sy_closer := Draining\<rparr>)"
    using swap [OF rw] by (simp add: w_def start_system_def new_bus_def)
  from reachable.step [OF reachable.step [OF this fin] pub]
  have 2: "\<exists>s. reachable s \<and> sy_closer s = Finished \<and> sy_accepted s = [m] \<and> bu_buffer (sy_bus s) = [m]"
    by (force simp: w_def start_system_def new_bus_def)
  show ?thesis using 1 2 by blast
qed

end
