(* ===== verification/Media_Store.thy ===== *)
theory Media_Store
  imports Prelude "HOL-Library.AList"
begin

text \<open>
  Media files, \<open>pkg/media/store.go\<close>. The store
  keeps three maps (references to entries, scopes to references, references to scopes) that must agree; the
  map of references is an association list, in the order Go happens to iterate over it. The disk is the set
  of existing paths; \<open>removable\<close> says which of them \<open>os.Remove\<close> deletes.
\<close>

record media_meta =
  mm_filename :: string
  mm_content_type :: string
  mm_source :: string

record media_entry =
  md_path :: string
  md_meta :: media_meta
  md_stored_at :: int

record media_store =
  ms_refs :: "(string \<times> media_entry) list"
  ms_scopes :: "string \<rightharpoonup> string set"
  ms_ref_scope :: "string \<rightharpoonup> string"

definition new_media_store :: media_store where
  "new_media_store = \<lparr>ms_refs = [], ms_scopes = (\<lambda>_. None), ms_ref_scope = (\<lambda>_. None)\<rparr>"

definition remove_files :: "(string \<Rightarrow> bool) \<Rightarrow> string list \<Rightarrow> string set \<Rightarrow> string set" where
  "remove_files removable paths disk = disk - {p \<in> set paths. removable p}"

section \<open>Operations\<close>

text \<open>\<open>uuid\<close> is the fresh identifier, \<open>now\<close> the clock.\<close>

definition store_media ::
  "string set \<Rightarrow> string \<Rightarrow> int \<Rightarrow> media_store \<Rightarrow> string \<Rightarrow> media_meta \<Rightarrow> string \<Rightarrow>
   (string, string) go_result \<times> media_store" where
  "store_media disk uuid now st path meta scope =
    (if path \<notin> disk then (Err (''media store: '' @ path), st)
     else let ref = ''media://'' @ uuid;
              refs = (case ms_scopes st scope of None \<Rightarrow> {} | Some R \<Rightarrow> R)
          in (Ok ref, st\<lparr>
               ms_refs := AList.update ref \<lparr>md_path = path, md_meta = meta, md_stored_at = now\<rparr> (ms_refs st),
               ms_scopes := (ms_scopes st)(scope \<mapsto> insert ref refs),
               ms_ref_scope := (ms_ref_scope st)(ref \<mapsto> scope)\<rparr>))"

definition resolve_with_meta :: "media_store \<Rightarrow> string \<Rightarrow> (string, string \<times> media_meta) go_result" where
  "resolve_with_meta st ref = (case map_of (ms_refs st) ref of
     None \<Rightarrow> Err (''media store: unknown ref: '' @ ref)
   | Some e \<Rightarrow> Ok (md_path e, md_meta e))"

definition resolve_media :: "media_store \<Rightarrow> string \<Rightarrow> (string, string) go_result" where
  "resolve_media st ref = (case map_of (ms_refs st) ref of
     None \<Rightarrow> Err (''media store: unknown ref: '' @ ref)
   | Some e \<Rightarrow> Ok (md_path e))"

text \<open>Both phases: the new store and the paths to delete.\<close>

definition release_all :: "media_store \<Rightarrow> string \<Rightarrow> media_store \<times> string list" where
  "release_all st scope = (case ms_scopes st scope of
     None \<Rightarrow> (st, [])
   | Some R \<Rightarrow>
      (st\<lparr>ms_refs := filter (\<lambda>(r, e). r \<notin> R) (ms_refs st),
         ms_scopes := (ms_scopes st)(scope := None),
         ms_ref_scope := (ms_ref_scope st) |` (- R)\<rparr>,
       map (\<lambda>(r, e). md_path e) (filter (\<lambda>(r, e). r \<in> R) (ms_refs st))))"

definition drop_from_scope :: "media_store \<Rightarrow> string \<Rightarrow> string \<rightharpoonup> string set" where
  "drop_from_scope st ref = (case ms_ref_scope st ref of
     None \<Rightarrow> ms_scopes st
   | Some scope \<Rightarrow> (case ms_scopes st scope of
       None \<Rightarrow> ms_scopes st
     | Some R \<Rightarrow> (if R - {ref} = {} then (ms_scopes st)(scope := None)
         else (ms_scopes st)(scope \<mapsto> R - {ref}))))"

definition forget_ref :: "media_store \<Rightarrow> string \<Rightarrow> media_store" where
  "forget_ref st ref = st\<lparr>ms_refs := AList.delete ref (ms_refs st), ms_scopes := drop_from_scope st ref,
     ms_ref_scope := (ms_ref_scope st)(ref := None)\<rparr>"

definition clean_one :: "int \<Rightarrow> media_store \<times> string list \<Rightarrow> string \<times> media_entry \<Rightarrow> media_store \<times> string list" where
  "clean_one cutoff = (\<lambda>(st, gone) (ref, e).
     if md_stored_at e < cutoff then (forget_ref st ref, gone @ [md_path e]) else (st, gone))"

definition clean_expired :: "int \<Rightarrow> int \<Rightarrow> media_store \<Rightarrow> media_store \<times> string list" where
  "clean_expired max_age now st =
    (if max_age \<le> 0 then (st, []) else foldl (clean_one (now - max_age)) (st, []) (ms_refs st))"

section \<open>The invariant and the abstraction\<close>

definition media_ok :: "media_store \<Rightarrow> bool" where
  "media_ok st \<longleftrightarrow> distinct (map fst (ms_refs st)) \<and>
     dom (map_of (ms_refs st)) = dom (ms_ref_scope st) \<and>
     (\<forall>r s. ms_ref_scope st r = Some s \<longleftrightarrow> (\<exists>R. ms_scopes st s = Some R \<and> r \<in> R)) \<and>
     {} \<notin> ran (ms_scopes st)"

text \<open>What the store means: every reference has an entry and a scope.\<close>

definition media_abs :: "media_store \<Rightarrow> string \<rightharpoonup> media_entry \<times> string" where
  "media_abs st r = (case (map_of (ms_refs st) r, ms_ref_scope st r) of
     (Some e, Some s) \<Rightarrow> Some (e, s) | _ \<Rightarrow> None)"

lemma media_ok_new: "media_ok new_media_store"
  by (simp add: media_ok_def new_media_store_def)

lemma media_okD:
  assumes "media_ok st"
  shows "ms_ref_scope st r = Some s \<longleftrightarrow> (\<exists>R. ms_scopes st s = Some R \<and> r \<in> R)"
    "map_of (ms_refs st) r = None \<longleftrightarrow> ms_ref_scope st r = None" "ms_scopes st s \<noteq> Some {}"
    "distinct (map fst (ms_refs st))"
proof -
  have "dom (map_of (ms_refs st)) = dom (ms_ref_scope st)" using assms by (simp add: media_ok_def)
  then show "map_of (ms_refs st) r = None \<longleftrightarrow> ms_ref_scope st r = None" by (metis domIff)
  show "ms_scopes st s \<noteq> Some {}" using assms by (auto simp: media_ok_def ran_def)
qed (use assms in \<open>simp_all add: media_ok_def\<close>)

lemma media_okI:
  assumes "distinct (map fst (ms_refs st))" "\<And>r. map_of (ms_refs st) r = None \<longleftrightarrow> ms_ref_scope st r = None"
    "\<And>r s. ms_ref_scope st r = Some s \<longleftrightarrow> (\<exists>R. ms_scopes st s = Some R \<and> r \<in> R)" "\<And>s. ms_scopes st s \<noteq> Some {}"
  shows "media_ok st"
proof -
  have "dom (map_of (ms_refs st)) = dom (ms_ref_scope st)"
    using assms(2) by (metis domIff subsetI subset_antisym)
  moreover have "{} \<notin> ran (ms_scopes st)" using assms(4) by (auto simp: ran_def)
  ultimately show ?thesis unfolding media_ok_def using assms(1,3) by blast
qed

lemma media_ok_updI:
  assumes "distinct (map fst refs)" "\<And>r. map_of refs r = None \<longleftrightarrow> rs r = None"
    "\<And>r s. rs r = Some s \<longleftrightarrow> (\<exists>R. sc s = Some R \<and> r \<in> R)" "\<And>s. sc s \<noteq> Some {}"
  shows "media_ok (st\<lparr>ms_refs := refs, ms_scopes := sc, ms_ref_scope := rs\<rparr>)"
  by (rule media_okI) (simp_all add: assms)

lemma resolve_abs:
  "media_ok st \<Longrightarrow> resolve_with_meta st ref = (case media_abs st ref of
     None \<Rightarrow> Err (''media store: unknown ref: '' @ ref) | Some (e, s) \<Rightarrow> Ok (md_path e, md_meta e))"
  using media_okD(2) [of st ref] by (auto simp: resolve_with_meta_def media_abs_def split: option.split)

lemma store_ok:
  assumes ok: "media_ok st" and p: "path \<in> disk" and fresh: "map_of (ms_refs st) (''media://'' @ uuid) = None"
  shows "media_ok (snd (store_media disk uuid now st path meta scope))"
proof -
  define ref where "ref = ''media://'' @ uuid"
  define S where "S = (case ms_scopes st scope of None \<Rightarrow> {} | Some R \<Rightarrow> R)"
  define e where "e = \<lparr>md_path = path, md_meta = meta, md_stored_at = now\<rparr>"
  have free: "ms_ref_scope st ref = None" using media_okD(2) [OF ok] fresh by (simp add: ref_def)
  have S: "r \<in> S \<longleftrightarrow> ms_ref_scope st r = Some scope" for r
    using media_okD(1) [OF ok, of r scope] by (simp add: S_def split: option.split)
  have new: "snd (store_media disk uuid now st path meta scope) =
      st\<lparr>ms_refs := AList.update ref e (ms_refs st), ms_scopes := (ms_scopes st)(scope \<mapsto> insert ref S),
         ms_ref_scope := (ms_ref_scope st)(ref \<mapsto> scope)\<rparr>"
    by (simp add: store_media_def p Let_def ref_def S_def e_def)
  have mem: "((ms_ref_scope st)(ref \<mapsto> scope)) r = Some s \<longleftrightarrow>
      (\<exists>R. ((ms_scopes st)(scope \<mapsto> insert ref S)) s = Some R \<and> r \<in> R)" for r s
    using media_okD(1) [OF ok, of r s] free by (cases "s = scope") (auto simp: S)
  show ?thesis unfolding new
    by (rule media_ok_updI [OF _ _ mem])
      (use media_okD(2-4) [OF ok] in \<open>auto simp: distinct_update update_conv'\<close>)
qed

lemma store_abs:
  "path \<in> disk \<Longrightarrow> media_abs (snd (store_media disk uuid now st path meta scope)) =
    (media_abs st)(''media://'' @ uuid \<mapsto> (\<lparr>md_path = path, md_meta = meta, md_stored_at = now\<rparr>, scope))"
  by (rule ext) (simp add: store_media_def Let_def media_abs_def update_conv')

lemma map_of_filter_key: "map_of (filter (\<lambda>(r, e). P r) xs) r = (if P r then map_of xs r else None)"
  by (induction xs) auto

lemma distinct_filter_key: "distinct (map fst xs) \<Longrightarrow> distinct (map fst (filter P xs))"
  by (simp add: distinct_map_filter)

lemma scope_members:
  "media_ok st \<Longrightarrow> ms_scopes st scope = Some R \<Longrightarrow> r \<in> R \<longleftrightarrow> ms_ref_scope st r = Some scope"
  using media_okD(1) [of st r scope] by simp

lemma release_ok:
  assumes ok: "media_ok st"
  shows "media_ok (fst (release_all st scope))"
proof (cases "ms_scopes st scope")
  case (Some R)
  have new: "fst (release_all st scope) = st\<lparr>ms_refs := filter (\<lambda>(r, e). r \<notin> R) (ms_refs st),
      ms_scopes := (ms_scopes st)(scope := None), ms_ref_scope := (ms_ref_scope st) |` (- R)\<rparr>"
    by (simp add: release_all_def Some)
  note R = scope_members [OF ok Some]
  have mem: "((ms_ref_scope st) |` (- R)) r = Some s \<longleftrightarrow>
      (\<exists>Q. ((ms_scopes st)(scope := None)) s = Some Q \<and> r \<in> Q)" for r s
    using media_okD(1) [OF ok, of r s] R [of r] by (auto simp: restrict_map_def)
  show ?thesis unfolding new
    by (rule media_ok_updI [OF _ _ mem])
      (use media_okD(2-4) [OF ok] in \<open>auto simp: distinct_filter_key map_of_filter_key restrict_map_def\<close>)
qed (simp add: release_all_def ok)

lemma release_abs:
  assumes "media_ok st"
  shows "media_abs (fst (release_all st scope)) r =
    (case media_abs st r of Some (e, s) \<Rightarrow> if s = scope then None else Some (e, s) | None \<Rightarrow> None)"
proof (cases "ms_scopes st scope")
  case None
  have "ms_ref_scope st r \<noteq> Some scope" using media_okD(1) [OF assms, of r scope] None by simp
  then show ?thesis using None by (auto simp: release_all_def media_abs_def split: option.split)
next
  case (Some R)
  have "r \<in> R \<longleftrightarrow> ms_ref_scope st r = Some scope" using media_okD(1) [OF assms, of r scope] Some by simp
  then show ?thesis using Some
    by (auto simp: release_all_def media_abs_def map_of_filter_key restrict_map_def split: option.split)
qed

section \<open>Expiry\<close>

lemma forget_ok:
  assumes ok: "media_ok st"
  shows "media_ok (forget_ref st ref)"
proof -
  have mem: "((ms_ref_scope st)(ref := None)) r = Some s \<longleftrightarrow> (\<exists>R. drop_from_scope st ref s = Some R \<and> r \<in> R)" for r s
    using media_okD(1) [OF ok, of r s] media_okD(1) [OF ok, of ref s]
    by (cases "r = ref") (auto simp: drop_from_scope_def split: option.split)
  show ?thesis unfolding forget_ref_def
    by (rule media_ok_updI [OF _ _ mem])
      (use media_okD(2-4) [OF ok] in \<open>auto simp: distinct_delete delete_conv' drop_from_scope_def split: option.split\<close>)
qed

lemma forget_abs: "media_abs (forget_ref st ref) = (media_abs st)(ref := None)"
  by (rule ext) (auto simp: forget_ref_def media_abs_def delete_conv')

lemma clean_fold:
  assumes "media_ok st"
  shows "media_ok (fst (foldl (clean_one cutoff) (st, gone) xs)) \<and>
    snd (foldl (clean_one cutoff) (st, gone) xs) = gone @ map (\<lambda>(r, e). md_path e) (filter (\<lambda>(r, e). md_stored_at e < cutoff) xs) \<and>
    media_abs (fst (foldl (clean_one cutoff) (st, gone) xs)) =
      (\<lambda>r. if \<exists>e. (r, e) \<in> set xs \<and> md_stored_at e < cutoff then None else media_abs st r)"
  using assms
proof (induction xs arbitrary: st gone)
  case (Cons x xs)
  obtain ref e where x: "x = (ref, e)" by (cases x)
  show ?case
  proof (cases "md_stored_at e < cutoff")
    case True
    then have "clean_one cutoff (st, gone) x = (forget_ref st ref, gone @ [md_path e])"
      by (simp add: clean_one_def x)
    then show ?thesis
      using Cons.IH [OF forget_ok [OF Cons.prems], of ref "gone @ [md_path e]"] True
      by (auto simp: x forget_abs fun_eq_iff)
  next
    case False
    then have "clean_one cutoff (st, gone) x = (st, gone)" by (simp add: clean_one_def x)
    then show ?thesis using Cons.IH [OF Cons.prems] False by (auto simp: x fun_eq_iff)
  qed
qed simp

lemma clean_expired_facts:
  assumes "media_ok st" "max_age > 0"
  shows "media_ok (fst (clean_expired max_age now st)) \<and>
    media_abs (fst (clean_expired max_age now st)) =
      (\<lambda>r. case media_abs st r of None \<Rightarrow> None
         | Some (e, s) \<Rightarrow> if md_stored_at e < now - max_age then None else Some (e, s)) \<and>
    set (snd (clean_expired max_age now st)) =
      {md_path e |e. \<exists>r s. media_abs st r = Some (e, s) \<and> md_stored_at e < now - max_age}"
proof -
  have entry: "(r, e) \<in> set (ms_refs st) \<longleftrightarrow> (\<exists>s. media_abs st r = Some (e, s))" for r e
    using media_okD(2) [OF assms(1), of r] map_of_eq_Some_iff [OF media_okD(4) [OF assms(1)], of r e]
    by (auto simp: media_abs_def split: option.splits)
  have old: "(\<exists>e. (r, e) \<in> set (ms_refs st) \<and> md_stored_at e < c) \<longleftrightarrow>
      (\<exists>e s. media_abs st r = Some (e, s) \<and> md_stored_at e < c)" for r c
    by (auto simp: entry)
  have "set (map (\<lambda>(r, e). md_path e) (filter (\<lambda>(r, e). md_stored_at e < c) (ms_refs st))) =
      {md_path e |e. \<exists>r s. media_abs st r = Some (e, s) \<and> md_stored_at e < c}" for c
    by (auto simp: entry [symmetric] image_iff)
  then show ?thesis
    using clean_fold [OF assms(1), of "now - max_age" "[]" "ms_refs st"] assms(2)
    by (auto simp: clean_expired_def old split: option.split)
qed

text \<open>
  Cleaning keeps the three maps in agreement and removes exactly the references stored before the
  cutoff, with their scopes; every file it deletes is the file of one of them.
\<close>

theorem clean_expired_exact:
  assumes "media_ok st" "max_age > 0"
  shows "media_ok (fst (clean_expired max_age now st)) \<and>
    media_abs (fst (clean_expired max_age now st)) =
      (\<lambda>r. case media_abs st r of None \<Rightarrow> None
         | Some (e, s) \<Rightarrow> if md_stored_at e < now - max_age then None else Some (e, s)) \<and>
    set (snd (clean_expired max_age now st)) =
      {md_path e |e. \<exists>r s. media_abs st r = Some (e, s) \<and> md_stored_at e < now - max_age}"
  by (rule clean_expired_facts [OF assms])

section \<open>Lifetime of a reference\<close>

datatype media_op =
    Op_Store string int string media_meta string
  | Op_Release string
  | Op_Clean int

fun apply_media :: "string set \<Rightarrow> int \<Rightarrow> media_store \<Rightarrow> media_op \<Rightarrow> media_store" where
  "apply_media disk max_age st (Op_Store uuid now path meta scope) = snd (store_media disk uuid now st path meta scope)"
| "apply_media disk max_age st (Op_Release scope) = fst (release_all st scope)"
| "apply_media disk max_age st (Op_Clean now) = fst (clean_expired max_age now st)"

text \<open>Whether an operation leaves the reference of \<open>uuid\<close>, stored under \<open>scope\<close>, alone until \<open>deadline\<close>.\<close>

fun spares :: "string \<Rightarrow> string \<Rightarrow> int \<Rightarrow> media_op \<Rightarrow> bool" where
  "spares uuid scope deadline (Op_Store u now path meta s) = (u \<noteq> uuid)"
| "spares uuid scope deadline (Op_Release s) = (s \<noteq> scope)"
| "spares uuid scope deadline (Op_Clean now) = (now \<le> deadline)"

definition held :: "media_store \<Rightarrow> string \<Rightarrow> media_entry \<Rightarrow> string \<Rightarrow> bool" where
  "held st ref e scope \<longleftrightarrow> distinct (map fst (ms_refs st)) \<and> map_of (ms_refs st) ref = Some e \<and>
     (\<forall>s R. ms_scopes st s = Some R \<and> ref \<in> R \<longrightarrow> s = scope)"

lemma held_forget: "held st ref e scope \<Longrightarrow> r \<noteq> ref \<Longrightarrow> held (forget_ref st r) ref e scope"
  by (auto simp: held_def forget_ref_def distinct_delete delete_conv' drop_from_scope_def split: option.splits if_splits)

lemma held_clean:
  "held st ref e scope \<Longrightarrow> \<not> md_stored_at e < cutoff \<Longrightarrow> (\<forall>e'. (ref, e') \<in> set xs \<longrightarrow> e' = e) \<Longrightarrow>
    held (fst (foldl (clean_one cutoff) (st, gone) xs)) ref e scope"
proof (induction xs arbitrary: st gone)
  case (Cons x xs)
  obtain r e' where x: "x = (r, e')" by (cases x)
  have "held (fst (clean_one cutoff (st, gone) x)) ref e scope"
    using Cons.prems held_forget [of st ref e scope r] by (auto simp: x clean_one_def)
  then have "held (fst (foldl (clean_one cutoff) (fst (clean_one cutoff (st, gone) x), snd (clean_one cutoff (st, gone) x)) xs)) ref e scope"
    using Cons.prems(2,3) by (intro Cons.IH) auto
  then show ?case by simp
qed simp

lemma held_op:
  assumes h: "held st (''media://'' @ uuid) e scope" and sp: "spares uuid scope (md_stored_at e + max_age) op"
  shows "held (apply_media disk max_age st op) (''media://'' @ uuid) e scope"
proof (cases op)
  case (Op_Store u now path meta s)
  define ref where "ref = ''media://'' @ uuid"
  define ref' where "ref' = ''media://'' @ u"
  have "ref' \<noteq> ref" using sp by (simp add: Op_Store ref_def ref'_def)
  moreover have "held st ref e scope" using h by (simp add: ref_def)
  ultimately have "held (snd (store_media disk u now st path meta s)) ref e scope"
    unfolding store_media_def Let_def ref'_def [symmetric]
    by (auto simp: held_def distinct_update update_conv' simp del: map_of_eq_Some_iff split: option.splits)
  then show ?thesis by (simp add: Op_Store ref_def)
next
  case (Op_Release s)
  then show ?thesis using h sp
    by (auto simp: held_def release_all_def map_of_filter_key distinct_filter_key split: option.splits if_splits)
next
  case (Op_Clean now)
  have "\<forall>e'. (''media://'' @ uuid, e') \<in> set (ms_refs st) \<longrightarrow> e' = e"
    using h by (auto simp: held_def dest: map_of_is_SomeI)
  then show ?thesis using h sp Op_Clean by (auto simp: clean_expired_def intro!: held_clean)
qed

text \<open>
  A stored file stays resolvable, with its path and metadata, whatever else is stored, released and
  cleaned, until its own scope is released or a cleaning runs more than the maximum age after it was
  stored.
\<close>

theorem stored_media_resolves:
  assumes "media_ok st" "path \<in> disk" "map_of (ms_refs st) (''media://'' @ uuid) = None"
    and "list_all (spares uuid scope (now + max_age)) ops"
  shows "resolve_with_meta (foldl (apply_media disk max_age) (snd (store_media disk uuid now st path meta scope)) ops)
    (''media://'' @ uuid) = Ok (path, meta)"
proof -
  define e where "e = \<lparr>md_path = path, md_meta = meta, md_stored_at = now\<rparr>"
  define ref where "ref = ''media://'' @ uuid"
  define st1 where "st1 = snd (store_media disk uuid now st path meta scope)"
  have ok: "media_ok st1" using store_ok [OF assms(1-3)] by (simp add: st1_def)
  have "map_of (ms_refs st1) ref = Some e" "ms_ref_scope st1 ref = Some scope"
    unfolding st1_def store_media_def Let_def ref_def [symmetric] using assms(2) by (simp_all add: update_conv' e_def)
  then have "held st1 ref e scope"
    unfolding held_def using media_okD(1) [OF ok, of ref] media_okD(4) [OF ok] by (metis option.inject)
  moreover have "held s ref e scope \<Longrightarrow> list_all (spares uuid scope (now + max_age)) ops \<Longrightarrow>
      held (foldl (apply_media disk max_age) s ops) ref e scope" for s
    using held_op [where e = e and max_age = max_age and disk = disk and uuid = uuid and scope = scope]
    by (induction ops arbitrary: s) (simp_all add: e_def ref_def)
  ultimately have "held (foldl (apply_media disk max_age) st1 ops) ref e scope" using assms(4) by blast
  then show ?thesis
    unfolding held_def resolve_with_meta_def st1_def [symmetric] ref_def [symmetric] by (simp add: e_def del: map_of_eq_Some_iff)
qed

section \<open>A concrete store\<close>

definition demo_meta :: media_meta where
  "demo_meta = \<lparr>mm_filename = ''a.png'', mm_content_type = ''image/png'', mm_source = ''telegram''\<rparr>"

definition demo_store :: media_store where
  "demo_store = snd (store_media {''/tmp/a''} ''u1'' 0 new_media_store ''/tmp/a'' demo_meta ''chat'')"

lemma demo_store_ok: "media_ok demo_store"
  unfolding demo_store_def by (rule store_ok [OF media_ok_new]) (simp_all add: new_media_store_def)

theorem clean_expired_exact_witness:
  "media_ok (fst (clean_expired 10 20 demo_store)) \<and> set (snd (clean_expired 10 20 demo_store)) = {''/tmp/a''}"
proof -
  have "clean_expired 10 20 demo_store = clean_expired 10 20 demo_store" "snd (clean_expired 10 20 demo_store) = [''/tmp/a'']"
    by (simp, code_simp)
  then show ?thesis using clean_expired_exact [OF demo_store_ok, of 10 20] by simp
qed

theorem stored_media_resolves_witness:
  "resolve_with_meta (foldl (apply_media {''/tmp/a''} 10) demo_store [Op_Release ''other'', Op_Clean 9]) ''media://u1'' =
    Ok (''/tmp/a'', demo_meta)"
  using stored_media_resolves [OF media_ok_new, of "''/tmp/a''" "{''/tmp/a''}" "''u1''" "''chat''" 0 10
      "[Op_Release ''other'', Op_Clean 9]" demo_meta]
  by (simp add: demo_store_def new_media_store_def)

text \<open>The store neither moves nor copies a file, and a cleaning deletes what it points to: a file of the
  user's that a tool registered (as \<open>send_file\<close> does with files of the workspace) is gone from the disk
  when the reference expires.\<close>

lemma cleaning_deletes_users_file:
  assumes "media_ok st" "path \<in> disk" "map_of (ms_refs st) (''media://'' @ uuid) = None"
    and "0 < max_age" "now + max_age < later" "removable path"
  shows "path \<notin> remove_files removable (snd (clean_expired max_age later
    (snd (store_media disk uuid now st path meta scope)))) disk"
proof -
  let ?st = "snd (store_media disk uuid now st path meta scope)"
  have "media_abs ?st (''media://'' @ uuid) = Some (\<lparr>md_path = path, md_meta = meta, md_stored_at = now\<rparr>, scope)"
    by (simp add: store_abs [OF assms(2)])
  then have "path \<in> set (snd (clean_expired max_age later ?st))"
    using clean_expired_facts [OF store_ok [OF assms(1-3)] assms(4), of later] assms(5) by force
  then show ?thesis using assms(6) by (simp add: remove_files_def)
qed

end
