(* ===== verification/Search_Cache.thy ===== *)
theory Search_Cache
  imports Go_Strings Prelude Complex_Main "HOL-Library.AList" "HOL-Library.Word"
begin

text \<open>
  The cache of skill searches, \<open>pkg/skills/search_cache.go\<close>: an LRU map from queries to results that also
  answers similar queries, by the Jaccard similarity of their byte trigrams. The Go map is an association
  list in iteration order, the results are of any type, \<open>now\<close> is the clock, similarities are rationals.
\<close>

unbundle bit_operations_syntax

section \<open>Trigrams\<close>

definition trigram :: "char \<Rightarrow> char \<Rightarrow> char \<Rightarrow> 32 word" where
  "trigram a b c = push_bit 16 (of_nat (byte a)) OR push_bit 8 (of_nat (byte b)) OR of_nat (byte c)"

fun all_trigrams :: "string \<Rightarrow> 32 word list" where
  "all_trigrams (a # b # c # s) = trigram a b c # all_trigrams (b # c # s)"
| "all_trigrams s = []"

definition build_trigrams :: "string \<Rightarrow> 32 word list" where
  "build_trigrams s = remdups_adj (sort (all_trigrams s))"

text \<open>The two-pointer merge that counts common elements.\<close>

fun count_common :: "'a :: linorder list \<Rightarrow> 'a list \<Rightarrow> nat" where
  "count_common (a # as) (b # bs) =
    (if a = b then Suc (count_common as bs)
     else if a < b then count_common as (b # bs) else count_common (a # as) bs)"
| "count_common _ _ = 0"

definition jaccard_similarity :: "'a :: linorder list \<Rightarrow> 'a list \<Rightarrow> rat" where
  "jaccard_similarity a b =
    (if a = [] \<and> b = [] then 1
     else let common = count_common a b
          in of_nat common / of_nat (length a + length b - common))"

section \<open>The cache\<close>

record 'r cache_entry =
  en_query :: string
  en_trigrams :: "32 word list"
  en_results :: "'r list"
  en_created :: int

record 'r search_cache =
  ch_entries :: "(string \<times> 'r cache_entry) list"
  ch_order :: "string list"
  ch_max :: int
  ch_ttl :: int

definition similarity_threshold :: rat where "similarity_threshold = 7 / 10"

definition new_search_cache :: "int \<Rightarrow> int \<Rightarrow> 'r search_cache" where
  "new_search_cache max_entries ttl = \<lparr>ch_entries = [], ch_order = [],
     ch_max = (if max_entries \<le> 0 then 50 else max_entries),
     ch_ttl = (if ttl \<le> 0 then 5 * 60 * 1000000000 else ttl)\<rparr>"

definition normalize_query :: "string \<Rightarrow> string" where
  "normalize_query q = to_lower (trim_space q)"

definition move_to_end :: "string \<Rightarrow> 'r search_cache \<Rightarrow> 'r search_cache" where
  "move_to_end key c = c\<lparr>ch_order := remove1 key (ch_order c) @ [key]\<rparr>"

definition entry_fresh :: "int \<Rightarrow> 'r search_cache \<Rightarrow> 'r cache_entry \<Rightarrow> bool" where
  "entry_fresh now c e \<longleftrightarrow> now - en_created e < ch_ttl c"

definition better :: "int \<Rightarrow> 'r search_cache \<Rightarrow> 32 word list \<Rightarrow>
    'r cache_entry option \<times> rat \<Rightarrow> string \<times> 'r cache_entry \<Rightarrow> 'r cache_entry option \<times> rat" where
  "better now c tris = (\<lambda>(best, sim) (k, e).
     if \<not> entry_fresh now c e then (best, sim)
     else let s = jaccard_similarity tris (en_trigrams e) in if s > sim then (Some e, s) else (best, sim))"

definition best_entry :: "int \<Rightarrow> 'r search_cache \<Rightarrow> 32 word list \<Rightarrow> 'r cache_entry option \<times> rat" where
  "best_entry now c tris = foldl (better now c tris) (None, 0) (ch_entries c)"

definition cache_similar :: "int \<Rightarrow> 'r search_cache \<Rightarrow> string \<Rightarrow> 'r list option \<times> 'r search_cache" where
  "cache_similar now c key = (case best_entry now c (build_trigrams key) of
     (Some e, sim) \<Rightarrow> (if sim \<ge> similarity_threshold then (Some (en_results e), move_to_end (en_query e) c) else (None, c))
   | (None, sim) \<Rightarrow> (None, c))"

definition cache_get :: "int \<Rightarrow> 'r search_cache \<Rightarrow> string \<Rightarrow> 'r list option \<times> 'r search_cache" where
  "cache_get now c query =
    (let key = normalize_query query in
     if key = [] then (None, c)
     else case map_of (ch_entries c) key of
       Some e \<Rightarrow> (if entry_fresh now c e then (Some (en_results e), move_to_end key c) else cache_similar now c key)
     | None \<Rightarrow> cache_similar now c key)"

definition keep_key :: "int \<Rightarrow> 'r search_cache \<Rightarrow> string \<Rightarrow> bool" where
  "keep_key now c k = (case map_of (ch_entries c) k of None \<Rightarrow> False | Some e \<Rightarrow> entry_fresh now c e)"

definition evict_expired :: "int \<Rightarrow> 'r search_cache \<Rightarrow> 'r search_cache" where
  "evict_expired now c =
    (let gone = filter (\<lambda>k. \<not> keep_key now c k) (ch_order c)
     in c\<lparr>ch_entries := filter (\<lambda>(k, e). k \<notin> set gone) (ch_entries c), ch_order := filter (keep_key now c) (ch_order c)\<rparr>)"

text \<open>The loop that makes room: the oldest keys go while the cache is full.\<close>

function make_room :: "'r search_cache \<Rightarrow> 'r search_cache" where
  "make_room c =
    (case ch_order c of
       [] \<Rightarrow> c
     | k # ks \<Rightarrow> (if int (length (ch_entries c)) \<ge> ch_max c
         then make_room (c\<lparr>ch_entries := AList.delete k (ch_entries c), ch_order := ks\<rparr>) else c))"
  by pat_completeness auto
termination
  by (relation "measure (\<lambda>c. length (ch_order c))") auto

declare make_room.simps [simp del]

definition mk_entry :: "int \<Rightarrow> string \<Rightarrow> 'r list \<Rightarrow> 'r cache_entry" where
  "mk_entry now key rs = \<lparr>en_query = key, en_trigrams = build_trigrams key, en_results = rs, en_created = now\<rparr>"

definition cache_put :: "int \<Rightarrow> 'r search_cache \<Rightarrow> string \<Rightarrow> 'r list \<Rightarrow> 'r search_cache" where
  "cache_put now c query rs =
    (let key = normalize_query query in
     if key = [] then c
     else let c1 = evict_expired now c in
       if map_of (ch_entries c1) key \<noteq> None
       then move_to_end key (c1\<lparr>ch_entries := AList.update key (mk_entry now key rs) (ch_entries c1)\<rparr>)
       else let c2 = make_room c1
            in c2\<lparr>ch_entries := AList.update key (mk_entry now key rs) (ch_entries c2), ch_order := ch_order c2 @ [key]\<rparr>)"

definition cache_len :: "'r search_cache \<Rightarrow> nat" where "cache_len c = length (ch_entries c)"

section \<open>Similarity is Jaccard similarity\<close>

lemma count_common_card:
  "sorted as \<Longrightarrow> distinct as \<Longrightarrow> sorted bs \<Longrightarrow> distinct bs \<Longrightarrow> count_common as bs = card (set as \<inter> set bs)"
proof (induction as bs rule: count_common.induct)
  case (1 a as b bs)
  consider "a = b" | "a < b" | "b < a" by (rule linorder_cases)
  then show ?case
  proof cases
    case 1
    have "set (a # as) \<inter> set (b # bs) = insert a (set as \<inter> set bs)" using 1 by auto
    then show ?thesis using 1 "1.IH"(1) "1.prems" by simp
  next
    case 2
    have "a \<notin> set (b # bs)" using 2 "1.prems" by auto
    then have "set (a # as) \<inter> set (b # bs) = set as \<inter> set (b # bs)" by auto
    then show ?thesis using 2 "1.IH"(2) "1.prems" by simp
  next
    case 3
    have "b \<notin> set (a # as)" using 3 "1.prems" by auto
    then have "set (a # as) \<inter> set (b # bs) = set (a # as) \<inter> set bs" by auto
    moreover have "a \<noteq> b" "\<not> a < b" using 3 by auto
    ultimately show ?thesis using "1.IH"(3) "1.prems" by simp
  qed
qed auto

lemma distinct_remdups_adj_sorted: "sorted xs \<Longrightarrow> distinct (remdups_adj xs)"
  by (induction xs rule: remdups_adj.induct) auto

lemma build_trigrams_sorted: "sorted (build_trigrams s)" "distinct (build_trigrams s)"
  by (simp_all add: build_trigrams_def distinct_remdups_adj_sorted)

text \<open>
  The two-pointer similarity of two queries is the Jaccard similarity of their sets of trigrams, and
  1 when neither has any.
\<close>

theorem jaccard_of_trigrams:
  fixes s t :: string
  defines "A \<equiv> set (build_trigrams s)" and "B \<equiv> set (build_trigrams t)"
  shows "jaccard_similarity (build_trigrams s) (build_trigrams t) =
    (if A = {} \<and> B = {} then 1 else of_nat (card (A \<inter> B)) / of_nat (card (A \<union> B)))"
proof -
  have "length (build_trigrams s) + length (build_trigrams t) - card (A \<inter> B) = card (A \<union> B)"
    using card_Un_Int [of A B] distinct_card [OF build_trigrams_sorted(2)] by (simp add: A_def B_def)
  then show ?thesis
    using count_common_card [OF build_trigrams_sorted build_trigrams_sorted, of s t]
    by (simp add: jaccard_similarity_def A_def B_def Let_def)
qed

section \<open>The invariant\<close>

text \<open>The order lists every key once, and each entry knows its key; a fresh cache has room.\<close>

definition cache_ok :: "'r search_cache \<Rightarrow> bool" where
  "cache_ok c \<longleftrightarrow> distinct (ch_order c) \<and> distinct (map fst (ch_entries c)) \<and>
     set (ch_order c) = set (map fst (ch_entries c)) \<and>
     (\<forall>(k, e) \<in> set (ch_entries c). en_query e = k \<and> en_trigrams e = build_trigrams k) \<and>
     0 < ch_max c \<and> int (length (ch_entries c)) \<le> ch_max c"

lemma cache_okD:
  assumes "cache_ok c"
  shows "distinct (ch_order c)" "distinct (map fst (ch_entries c))" "set (ch_order c) = set (map fst (ch_entries c))"
    "(k, e) \<in> set (ch_entries c) \<Longrightarrow> en_query e = k \<and> en_trigrams e = build_trigrams k"
    "0 < ch_max c" "int (length (ch_entries c)) \<le> ch_max c"
  using assms by (auto simp: cache_ok_def)

lemma cache_ok_new: "cache_ok (new_search_cache m t)"
  by (simp add: cache_ok_def new_search_cache_def)

lemma cache_ok_move: "cache_ok c \<Longrightarrow> key \<in> set (ch_order c) \<Longrightarrow> cache_ok (move_to_end key c)"
  by (auto simp: cache_ok_def move_to_end_def)

lemma best_entry_in:
  "best_entry now c tris = (Some e, sim) \<Longrightarrow>
    \<exists>k. (k, e) \<in> set (ch_entries c) \<and> entry_fresh now c e \<and> sim = jaccard_similarity tris (en_trigrams e)"
proof -
  have "foldl (better now c tris) acc xs = (Some e, sim) \<Longrightarrow>
      (\<forall>e0 s0. acc = (Some e0, s0) \<longrightarrow> (\<exists>k. (k, e0) \<in> S \<and> entry_fresh now c e0 \<and> s0 = jaccard_similarity tris (en_trigrams e0))) \<Longrightarrow>
      \<exists>k. (k, e) \<in> S \<union> set xs \<and> entry_fresh now c e \<and> sim = jaccard_similarity tris (en_trigrams e)" for acc xs S
  proof (induction xs arbitrary: acc S)
    case (Cons x xs)
    obtain k e' where x: "x = (k, e')" by (cases x)
    have "\<exists>k. (k, e) \<in> insert x S \<union> set xs \<and> entry_fresh now c e \<and> sim = jaccard_similarity tris (en_trigrams e)"
      using Cons.prems
      by (intro Cons.IH [of "better now c tris acc x"]) (auto simp: better_def x Let_def split: prod.splits if_splits)
    then show ?case by auto
  qed auto
  from this [of "(None, 0)" "ch_entries c" "{}"] show "best_entry now c tris = (Some e, sim) \<Longrightarrow> ?thesis"
    by (simp add: best_entry_def)
qed

lemma cache_similar_hit:
  assumes "cache_similar now c key = (Some rs, c')"
  obtains k e where "(k, e) \<in> set (ch_entries c)" "entry_fresh now c e" "rs = en_results e"
    "jaccard_similarity (build_trigrams key) (en_trigrams e) \<ge> similarity_threshold" "c' = move_to_end (en_query e) c"
  using assms best_entry_in [of now c "build_trigrams key"]
  by (auto simp: cache_similar_def split: prod.splits option.splits if_splits)

lemma cache_ok_similar: "cache_ok c \<Longrightarrow> cache_ok (snd (cache_similar now c key))"
proof (cases "fst (cache_similar now c key)")
  case (Some rs)
  assume ok: "cache_ok c"
  from Some have "cache_similar now c key = (Some rs, snd (cache_similar now c key))" by (simp add: prod_eq_iff)
  from cache_similar_hit [OF this] obtain k e where
    "(k, e) \<in> set (ch_entries c)" "snd (cache_similar now c key) = move_to_end (en_query e) c" by blast
  then show ?thesis using cache_okD(3,4) [OF ok] cache_ok_move [OF ok, of "en_query e"] by force
qed (auto simp: cache_similar_def split: prod.splits option.splits if_splits)

lemma cache_ok_get: "cache_ok c \<Longrightarrow> cache_ok (snd (cache_get now c query))"
proof -
  assume ok: "cache_ok c"
  have "map_of (ch_entries c) k = Some e \<Longrightarrow> k \<in> set (ch_order c)" for k e
    using cache_okD(3) [OF ok] by (force dest: map_of_SomeD)
  then show ?thesis
    using cache_ok_move [OF ok] cache_ok_similar [OF ok] ok by (auto simp: cache_get_def Let_def split: option.split)
qed

lemma keep_key_iff: "cache_ok c \<Longrightarrow> keep_key now c k \<longleftrightarrow> (\<exists>e. (k, e) \<in> set (ch_entries c) \<and> entry_fresh now c e)"
proof (cases "map_of (ch_entries c) k")
  case None
  then have "(k, e) \<notin> set (ch_entries c)" for e by (force simp: map_of_eq_None_iff)
  then show "cache_ok c \<Longrightarrow> keep_key now c k \<longleftrightarrow> (\<exists>e. (k, e) \<in> set (ch_entries c) \<and> entry_fresh now c e)"
    by (simp add: keep_key_def None)
next
  case (Some e)
  assume "cache_ok c"
  then have "(k, e') \<in> set (ch_entries c) \<longleftrightarrow> e' = e" for e'
    by (metis Some cache_okD(2) map_of_eq_Some_iff option.inject)
  then show "keep_key now c k \<longleftrightarrow> (\<exists>e. (k, e) \<in> set (ch_entries c) \<and> entry_fresh now c e)"
    by (simp add: keep_key_def Some)
qed

lemma evict_sel:
  assumes ok: "cache_ok c"
  shows "ch_entries (evict_expired now c) = filter (\<lambda>(k, e). entry_fresh now c e) (ch_entries c)"
    "set (ch_order (evict_expired now c)) = fst ` set (filter (\<lambda>(k, e). entry_fresh now c e) (ch_entries c))"
    "distinct (ch_order (evict_expired now c))"
    "ch_max (evict_expired now c) = ch_max c" "ch_ttl (evict_expired now c) = ch_ttl c"
proof -
  have kept: "k \<notin> set (filter (\<lambda>k. \<not> keep_key now c k) (ch_order c)) \<longleftrightarrow> entry_fresh now c e"
    if "(k, e) \<in> set (ch_entries c)" for k e
  proof -
    have "k \<in> set (ch_order c)" using cache_okD(3) [OF ok] that by force
    moreover have "map_of (ch_entries c) k = Some e" using map_of_eq_Some_iff [OF cache_okD(2) [OF ok]] that by blast
    ultimately show ?thesis by (simp add: keep_key_def)
  qed
  have "filter (\<lambda>(k, e). k \<notin> set (filter (\<lambda>k. \<not> keep_key now c k) (ch_order c))) (ch_entries c) =
      filter (\<lambda>(k, e). entry_fresh now c e) (ch_entries c)"
  proof (rule filter_cong [OF refl])
    fix x assume "x \<in> set (ch_entries c)"
    moreover obtain k e where "x = (k, e)" by (cases x)
    ultimately show "(case x of (k, e) \<Rightarrow> k \<notin> set (filter (\<lambda>k. \<not> keep_key now c k) (ch_order c))) \<longleftrightarrow>
        (case x of (k, e) \<Rightarrow> entry_fresh now c e)"
      using kept [of k e] by simp
  qed
  then show "ch_entries (evict_expired now c) = filter (\<lambda>(k, e). entry_fresh now c e) (ch_entries c)"
    by (simp add: evict_expired_def Let_def)
  show "set (ch_order (evict_expired now c)) = fst ` set (filter (\<lambda>(k, e). entry_fresh now c e) (ch_entries c))"
  proof -
    have "keep_key now c k \<Longrightarrow> k \<in> set (ch_order c)" for k
      unfolding cache_okD(3) [OF ok] by (force simp: keep_key_iff [OF ok])
    then have "set (ch_order (evict_expired now c)) = {k. keep_key now c k}"
      by (auto simp: evict_expired_def Let_def)
    then show ?thesis by (force simp: keep_key_iff [OF ok])
  qed
qed (use cache_okD(1) [OF ok] in \<open>simp_all add: evict_expired_def Let_def\<close>)

lemma cache_ok_evict: "cache_ok c \<Longrightarrow> cache_ok (evict_expired now c)"
proof -
  assume ok: "cache_ok c"
  have "int (length (filter (\<lambda>(k, e). entry_fresh now c e) (ch_entries c))) \<le> ch_max c"
    using length_filter_le [of "\<lambda>(k, e). entry_fresh now c e" "ch_entries c"] cache_okD(6) [OF ok] by linarith
  then show ?thesis
    unfolding cache_ok_def [of "evict_expired now c"] using evict_sel [OF ok, of now] cache_okD [OF ok]
    by (auto simp: distinct_map_filter)
qed

text \<open>Making room: what goes are the oldest keys, and one place is free afterwards.\<close>

lemma make_room_ok:
  assumes "cache_ok c"
  shows "cache_ok (make_room c) \<and> int (length (ch_entries (make_room c))) < ch_max c \<and>
    ch_max (make_room c) = ch_max c \<and> ch_ttl (make_room c) = ch_ttl c \<and>
    suffix (ch_order (make_room c)) (ch_order c) \<and>
    map_of (ch_entries (make_room c)) = map_of (ch_entries c) |` set (ch_order (make_room c)) \<and>
    (int (length (ch_entries c)) < ch_max c \<longrightarrow> make_room c = c)"
  using assms
proof (induction c rule: make_room.induct)
  case (1 c)
  note okD = cache_okD [OF "1.prems"]
  have self: "map_of (ch_entries c) = map_of (ch_entries c) |` set (ch_order c)"
    unfolding okD(3) by (rule ext) (auto simp: restrict_map_def map_of_eq_None_iff)
  show ?case
  proof (cases "ch_order c")
    case Nil
    then have "ch_entries c = []" using okD(3) by auto
    then show ?thesis using 1 Nil okD(5) self by (simp add: make_room.simps)
  next
    case (Cons k ks)
    show ?thesis
    proof (cases "int (length (ch_entries c)) \<ge> ch_max c")
      case True
      define c' where "c' = c\<lparr>ch_entries := AList.delete k (ch_entries c), ch_order := ks\<rparr>"
      have step: "make_room c = make_room c'" using True Cons by (subst make_room.simps) (simp add: c'_def)
      have "int (length (AList.delete k (ch_entries c))) \<le> ch_max c"
        using okD(6) length_delete_le [of k "ch_entries c"] by linarith
      moreover have "set (map fst (AList.delete k (ch_entries c))) = set ks"
        using okD(1,3) Cons by (auto simp: delete_keys)
      moreover have "set (AList.delete k (ch_entries c)) \<subseteq> set (ch_entries c)"
        by (auto simp: AList.delete_eq)
      ultimately have "cache_ok c'" unfolding cache_ok_def
        using okD Cons by (auto simp: c'_def distinct_delete)
      from "1.IH" [OF Cons True] this
      have ih: "cache_ok (make_room c') \<and> int (length (ch_entries (make_room c'))) < ch_max c' \<and>
          ch_max (make_room c') = ch_max c' \<and> ch_ttl (make_room c') = ch_ttl c' \<and>
          suffix (ch_order (make_room c')) (ch_order c') \<and>
          map_of (ch_entries (make_room c')) = map_of (ch_entries c') |` set (ch_order (make_room c'))"
        by (simp add: c'_def)
      have "k \<notin> set (ch_order (make_room c'))"
        using ih okD(1) Cons set_mono_suffix [of "ch_order (make_room c')" ks] by (auto simp: c'_def)
      then have "map_of (ch_entries c') |` set (ch_order (make_room c')) =
          map_of (ch_entries c) |` set (ch_order (make_room c'))"
        by (auto simp: c'_def fun_eq_iff restrict_map_def delete_conv')
      then show ?thesis unfolding step using ih True Cons by (auto simp: c'_def suffix_ConsI)
    next
      case False
      then have "make_room c = c" using Cons by (subst make_room.simps) simp
      then show ?thesis using "1.prems" False self by simp
    qed
  qed
qed

lemma entries_of_map:
  "cache_ok c \<Longrightarrow> (k, e) \<in> set (ch_entries c) \<longleftrightarrow> map_of (ch_entries c) k = Some e"
  by (metis cache_okD(2) map_of_eq_Some_iff)

lemma put_update_ok:
  assumes ok: "cache_ok c" and room: "map_of (ch_entries c) key \<noteq> None \<or> int (length (ch_entries c)) < ch_max c"
    and ord: "distinct ord" "set ord = insert key (set (ch_order c))"
  shows "cache_ok (c\<lparr>ch_entries := AList.update key (mk_entry now key rs) (ch_entries c), ch_order := ord\<rparr>)"
proof -
  let ?es = "AList.update key (mk_entry now key rs) (ch_entries c)"
  have d: "distinct (map fst ?es)" using cache_okD(2) [OF ok] by (simp add: distinct_update)
  have "en_query e = k \<and> en_trigrams e = build_trigrams k" if "(k, e) \<in> set ?es" for k e
  proof -
    have m: "map_of ?es k = Some e" using d that by (metis map_of_eq_Some_iff)
    show ?thesis
    proof (cases "k = key")
      case True
      then show ?thesis using m by (auto simp: update_conv' mk_entry_def)
    next
      case False
      then have "(k, e) \<in> set (ch_entries c)" using m entries_of_map [OF ok] by (simp add: update_conv')
      then show ?thesis by (rule cache_okD(4) [OF ok])
    qed
  qed
  moreover have "int (length ?es) \<le> ch_max c"
  proof (cases "map_of (ch_entries c) key")
    case None
    then have "map fst ?es = map fst (ch_entries c) @ [key]" by (simp add: update_keys map_of_eq_None_iff)
    from arg_cong [OF this, of length] show ?thesis using room None by simp
  next
    case (Some e)
    then have "key \<in> set (map fst (ch_entries c))" by (metis map_of_eq_None_iff option.distinct(1) set_map)
    then have "map fst ?es = map fst (ch_entries c)" by (simp add: update_keys)
    then show ?thesis using cache_okD(6) [OF ok] by (metis length_map)
  qed
  moreover have "set (map fst ?es) = set ord"
    unfolding ord(2) cache_okD(3) [OF ok] by (simp add: update_keys) auto
  ultimately show ?thesis
    using cache_okD(5) [OF ok] d ord(1) unfolding cache_ok_def by (simp add: case_prod_beta)
qed

lemma cache_ok_put:
  assumes "cache_ok c"
  shows "cache_ok (cache_put now c query rs)"
proof -
  define key where "key = normalize_query query"
  define c1 where "c1 = evict_expired now c"
  have c1: "cache_ok c1" unfolding c1_def by (rule cache_ok_evict [OF assms])
  note c2 = make_room_ok [OF c1]
  have in_order: "k \<in> set (ch_order d) \<longleftrightarrow> map_of (ch_entries d) k \<noteq> None" if "cache_ok d" for d :: "'a search_cache" and k
    unfolding cache_okD(3) [OF that] by (simp add: map_of_eq_None_iff)
  show ?thesis
  proof (cases "map_of (ch_entries c1) key")
    case None
    then have "map_of (ch_entries (make_room c1)) key = None" using c2 by (simp add: restrict_map_def)
    then have "key \<notin> set (ch_order (make_room c1))" using in_order c2 by blast
    then have "cache_ok ((make_room c1)\<lparr>ch_entries := AList.update key (mk_entry now key rs) (ch_entries (make_room c1)),
        ch_order := ch_order (make_room c1) @ [key]\<rparr>)"
      using c2 cache_okD(1) by (intro put_update_ok) auto
    then show ?thesis using assms None by (simp add: cache_put_def Let_def key_def c1_def)
  next
    case (Some e)
    then have "key \<in> set (ch_order c1)" using in_order [OF c1] by simp
    then have "cache_ok (c1\<lparr>ch_entries := AList.update key (mk_entry now key rs) (ch_entries c1),
        ch_order := remove1 key (ch_order c1) @ [key]\<rparr>)"
      using cache_okD(1) [OF c1] Some by (intro put_update_ok [OF c1]) auto
    then show ?thesis using assms Some by (simp add: cache_put_def Let_def key_def c1_def move_to_end_def)
  qed
qed

section \<open>Properties\<close>

lemma put_map:
  assumes "cache_ok c" "normalize_query query \<noteq> []"
  shows "map_of (ch_entries (cache_put now c query rs)) (normalize_query query) = Some (mk_entry now (normalize_query query) rs)"
    "ch_ttl (cache_put now c query rs) = ch_ttl c" "ch_max (cache_put now c query rs) = ch_max c"
    "last (ch_order (cache_put now c query rs)) = normalize_query query"
  using assms make_room_ok [OF cache_ok_evict [OF assms(1)], of now] evict_sel(4,5) [OF assms(1), of now]
  by (simp_all add: cache_put_def Let_def update_conv' move_to_end_def)

text \<open>Normalizing twice is normalizing once, so the key of a query is found under the query.\<close>

lemma get_exact:
  assumes "normalize_query query \<noteq> []" "map_of (ch_entries c) (normalize_query query) = Some e" "entry_fresh now c e"
  shows "cache_get now c query = (Some (en_results e), move_to_end (normalize_query query) c)"
  using assms by (simp add: cache_get_def Let_def)

text \<open>
  The cache is a cache: every operation keeps the invariant (at most the configured number of
  entries, each listed once in the order), and a result that was put is got back until its time to live
  has passed.
\<close>

theorem cache_put_get:
  assumes "cache_ok c" "normalize_query query \<noteq> []" "now' - now < ch_ttl c"
  shows "cache_ok (cache_put now c query rs) \<and> int (cache_len (cache_put now c query rs)) \<le> ch_max c \<and>
    fst (cache_get now' (cache_put now c query rs) query) = Some rs \<and>
    cache_ok (snd (cache_get now' (cache_put now c query rs) query))"
proof -
  note p = put_map [OF assms(1,2), of now rs]
  note ok = cache_ok_put [OF assms(1), of now query rs]
  have "cache_get now' (cache_put now c query rs) query =
      (Some rs, move_to_end (normalize_query query) (cache_put now c query rs))"
    using get_exact [OF assms(2) p(1), of now'] assms(3) p(2) by (simp add: entry_fresh_def mk_entry_def)
  then show ?thesis using ok cache_ok_get [OF ok, of now' query] cache_okD(6) [OF ok] p(3) by (simp add: cache_len_def)
qed

lemma cache_get_hit:
  assumes "cache_ok c" "cache_get now c query = (Some rs, c')"
  shows "\<exists>k e. map_of (ch_entries c) k = Some e \<and> rs = en_results e \<and> now - en_created e < ch_ttl c \<and>
    (k = normalize_query query \<or>
     jaccard_similarity (build_trigrams (normalize_query query)) (build_trigrams k) \<ge> 7 / 10)"
proof -
  let ?key = "normalize_query query"
  have sim: "\<exists>k e. map_of (ch_entries c) k = Some e \<and> rs = en_results e \<and> entry_fresh now c e \<and>
      jaccard_similarity (build_trigrams ?key) (build_trigrams k) \<ge> 7 / 10"
    if hit: "cache_similar now c ?key = (Some rs, c')"
    using cache_similar_hit [OF hit] entries_of_map [OF assms(1)] cache_okD(4) [OF assms(1)]
    by (metis similarity_threshold_def)
  show ?thesis
  proof (cases "\<exists>e. map_of (ch_entries c) ?key = Some e \<and> entry_fresh now c e")
    case True
    then show ?thesis using assms(2) by (auto simp: cache_get_def Let_def entry_fresh_def split: if_splits)
  next
    case False
    then have "cache_similar now c ?key = (Some rs, c')"
      using assms(2) by (auto simp: cache_get_def Let_def split: if_splits option.splits)
    then show ?thesis using sim by (auto simp: entry_fresh_def)
  qed
qed

text \<open>
  A hit is never stale or unrelated: its results were stored less than the time to live ago, for the
  same query or for one whose trigrams are similar to at least seven tenths.
\<close>

theorem cache_hit_sound:
  assumes "cache_ok c" "cache_get now c query = (Some rs, c')"
  shows "\<exists>k e. map_of (ch_entries c) k = Some e \<and> rs = en_results e \<and> now - en_created e < ch_ttl c \<and>
    (k = normalize_query query \<or>
     jaccard_similarity (build_trigrams (normalize_query query)) (build_trigrams k) \<ge> 7 / 10)"
  by (rule cache_get_hit [OF assms])

text \<open>
  When a new query needs room, what leaves the cache are expired entries and then the keys at the
  front of the order, those not used for the longest time: the keys kept are a suffix of the order.
\<close>

theorem cache_evicts_oldest:
  assumes "cache_ok c" "normalize_query query \<noteq> []" "map_of (ch_entries c) (normalize_query query) = None"
  shows "\<exists>kept. ch_order (cache_put now c query rs) = kept @ [normalize_query query] \<and>
    suffix kept (filter (keep_key now c) (ch_order c))"
proof -
  have "map_of (ch_entries (evict_expired now c)) (normalize_query query) = None"
    using assms(3) evict_sel(1) [OF assms(1), of now] by (simp add: map_of_eq_None_iff) auto
  moreover have "ch_order (evict_expired now c) = filter (keep_key now c) (ch_order c)"
    by (simp add: evict_expired_def Let_def)
  ultimately show ?thesis
    using make_room_ok [OF cache_ok_evict [OF assms(1)], of now] assms(2) by (simp add: cache_put_def Let_def)
qed

section \<open>Concrete caches\<close>

definition demo_cache :: "string search_cache" where
  "demo_cache = cache_put 0 (new_search_cache 2 10) ''go'' [''r1'']"

lemma demo_cache_ok: "cache_ok demo_cache"
  unfolding demo_cache_def by (rule cache_ok_put [OF cache_ok_new])

theorem cache_put_get_witness:
  "fst (cache_get 5 (cache_put 0 (new_search_cache 2 10) '' Go '' [''r1'']) '' Go '') = Some [''r1'']"
proof -
  have "normalize_query '' Go '' \<noteq> []" by code_simp
  from cache_put_get [OF cache_ok_new this, of 5 0 2 10 "[''r1'']"] show ?thesis by (simp add: new_search_cache_def)
qed

text \<open>Queries of fewer than three bytes have no trigrams and are all similar to each other: a search for
  \<open>ai\<close> is answered with the results of a search for \<open>go\<close>.\<close>

lemma short_queries_collide: "fst (cache_get 5 demo_cache ''ai'') = Some [''r1'']"
  by code_simp

theorem cache_hit_sound_witness:
  "\<exists>k e. map_of (ch_entries demo_cache) k = Some e \<and> en_results e = [''r1''] \<and> 5 - en_created e < 10"
proof -
  have "cache_get 5 demo_cache ''ai'' = (Some [''r1''], snd (cache_get 5 demo_cache ''ai''))"
    by (simp add: prod_eq_iff short_queries_collide)
  moreover have "ch_ttl demo_cache = 10" by code_simp
  ultimately show ?thesis using cache_hit_sound [OF demo_cache_ok] by metis
qed

theorem cache_evicts_oldest_witness:
  "\<exists>kept. ch_order (cache_put 1 demo_cache ''tts'' []) = kept @ [''tts''] \<and> suffix kept [''go'']"
proof -
  have "normalize_query ''tts'' = ''tts''" "map_of (ch_entries demo_cache) ''tts'' = None"
    "filter (keep_key 1 demo_cache) (ch_order demo_cache) = [''go'']"
    by code_simp+
  then show ?thesis using cache_evicts_oldest [OF demo_cache_ok, of "''tts''" 1 "[]"] by simp
qed

end
