(* ===== verification/Bus_Types.thy ===== *)
theory Bus_Types
  imports Prelude
begin

text \<open>
  The messages on the bus (\<open>src/pkg/bus/types.go\<close>): who sent a message, where it came from, and what
  the agent sends back.  The metadata map of an inbound message is an association list, looked up with
  \<open>map_of\<close>.
\<close>

record peer =
  pe_kind :: string
  pe_id :: string

record sender_info =
  si_platform :: string
  si_platform_id :: string
  si_canonical_id :: string
  si_username :: string
  si_display_name :: string

definition no_sender :: sender_info where
  "no_sender = \<lparr>si_platform = [], si_platform_id = [], si_canonical_id = [], si_username = [],
                si_display_name = []\<rparr>"

record inbound_message =
  im_channel :: string
  im_sender_id :: string
  im_sender :: sender_info
  im_chat_id :: string
  im_content :: string
  im_media :: "string list"
  im_peer :: peer
  im_message_id :: string
  im_media_scope :: string
  im_session_key :: string
  im_metadata :: "(string \<times> string) list"

record outbound_message =
  ob_channel :: string
  ob_chat_id :: string
  ob_content :: string
  ob_reply_to :: string

end
