(* ===== verification/Channel_Access.thy ===== *)
theory Channel_Access
  imports Session_Keys Go_Regexp Bus_Types
begin

text \<open>
  Who may talk to the agent: the canonical identifiers and the matching of allow-list entries
  (\<open>src/pkg/identity/identity.go\<close>), and what every channel does with an incoming message
  (\<open>src/pkg/channels/base.go\<close>): the allow-list check, the decision to answer in a group, the media
  scope, the indicators (typing, reaction, placeholder) and the publication on the bus.  What happens
  outside, in order, is a list of events.
\<close>

section \<open>Canonical identifiers\<close>

definition build_canonical_id :: "string \<Rightarrow> string \<Rightarrow> string" where
  "build_canonical_id platform pid =
    (let p = to_lower (trim_space platform); i = trim_space pid in
     if p = [] \<or> i = [] then [] else p @ '':'' @ i)"

definition parse_canonical_id :: "string \<Rightarrow> (string \<times> string) option" where
  "parse_canonical_id canonical =
    (let c = trim_space canonical in
     case str_index c '':'' of
       None \<Rightarrow> None
     | Some idx \<Rightarrow> if idx = 0 \<or> idx = length c - 1 then None else Some (take idx c, drop (idx + 1) c))"

definition is_numeric :: "string \<Rightarrow> bool" where
  "is_numeric s \<longleftrightarrow> s \<noteq> [] \<and> list_all (\<lambda>r. 48 \<le> r \<and> r \<le> 57) (runes s)"

text \<open>An entry \<open>id|user\<close>: the parts before and behind the bar, when it is not the first byte.\<close>

definition split_bar :: "string \<Rightarrow> string \<times> string" where
  "split_bar s = (case str_index s ''|'' of
     Some idx \<Rightarrow> if 0 < idx then (take idx s, drop (idx + 1) s) else (s, [])
   | None \<Rightarrow> (s, []))"

definition match_canonical :: "sender_info \<Rightarrow> string \<Rightarrow> string \<Rightarrow> bool" where
  "match_canonical sender platform i =
    (let candidate = build_canonical_id platform i in
     if candidate \<noteq> [] \<and> si_canonical_id sender \<noteq> [] then equal_fold (si_canonical_id sender) candidate
     else equal_fold platform (si_platform sender) \<and> si_platform_id sender = i)"

definition match_legacy :: "sender_info \<Rightarrow> string \<Rightarrow> bool" where
  "match_legacy sender allowed =
    (let is_at = prefix ''@'' allowed; trimmed = trim_prefix allowed ''@'';
         (allowed_id, allowed_user) = split_bar trimmed in
     si_platform_id sender \<noteq> [] \<and> si_platform_id sender = allowed_id \<or>
     is_at \<and> si_username sender \<noteq> [] \<and> si_username sender = trimmed \<or>
     allowed_user \<noteq> [] \<and> si_platform_id sender \<noteq> [] \<and> si_platform_id sender = allowed_id \<or>
     allowed_user \<noteq> [] \<and> si_username sender \<noteq> [] \<and> si_username sender = allowed_user)"

definition match_allowed :: "sender_info \<Rightarrow> string \<Rightarrow> bool" where
  "match_allowed sender entry =
    (let allowed = trim_space entry in
     if allowed = [] then False
     else case parse_canonical_id allowed of
       Some (platform, i) \<Rightarrow>
         if \<not> is_numeric platform then match_canonical sender platform i else match_legacy sender allowed
     | None \<Rightarrow> match_legacy sender allowed)"

section \<open>The base channel\<close>

record group_trigger =
  gt_mention_only :: bool
  gt_prefixes :: "string list"

text \<open>
  The capabilities of the concrete channel, \<open>None\<close> where it lacks the interface: whether typing and the
  reaction succeed for a chat (and message), and the identifier of the placeholder sent, if any.
\<close>

record owner_caps =
  ow_typing :: "(string \<Rightarrow> bool) option"
  ow_reaction :: "(string \<Rightarrow> string \<Rightarrow> bool) option"
  ow_placeholder :: "(string \<Rightarrow> string option) option"

text \<open>\<open>bc_owner\<close> is the owner when both it and the placeholder recorder have been injected.\<close>

record base_channel =
  bc_name :: string
  bc_allow_list :: "string list"
  bc_group_trigger :: group_trigger
  bc_owner :: "owner_caps option"

definition should_respond_in_group :: "base_channel \<Rightarrow> bool \<Rightarrow> string \<Rightarrow> bool \<times> string" where
  "should_respond_in_group c mentioned s =
    (let gt = bc_group_trigger c in
     if mentioned then (True, trim_space s)
     else if gt_mention_only gt then (False, s)
     else if gt_prefixes gt \<noteq> [] then
       (case find (\<lambda>p. p \<noteq> [] \<and> prefix p s) (gt_prefixes gt) of
          Some p \<Rightarrow> (True, trim_space (trim_prefix s p))
        | None \<Rightarrow> (False, s))
     else (True, trim_space s))"

definition allowed_entry :: "string \<Rightarrow> string \<Rightarrow> bool" where
  "allowed_entry sender_id allowed =
    (let (id_part, user_part) = split_bar sender_id;
         trimmed = trim_prefix allowed ''@'';
         (allowed_id, allowed_user) = split_bar trimmed in
     sender_id = allowed \<or> id_part = allowed \<or> sender_id = trimmed \<or> id_part = trimmed \<or>
     id_part = allowed_id \<or>
     allowed_user \<noteq> [] \<and> sender_id = allowed_user \<or>
     user_part \<noteq> [] \<and> (user_part = allowed \<or> user_part = trimmed \<or> user_part = allowed_user))"

definition is_allowed :: "base_channel \<Rightarrow> string \<Rightarrow> bool" where
  "is_allowed c sender_id = (bc_allow_list c = [] \<or> list_ex (allowed_entry sender_id) (bc_allow_list c))"

definition is_allowed_sender :: "base_channel \<Rightarrow> sender_info \<Rightarrow> bool" where
  "is_allowed_sender c sender = (bc_allow_list c = [] \<or> list_ex (match_allowed sender) (bc_allow_list c))"

text \<open>\<open>audioAnnotationRe\<close>.\<close>

definition audio_annotation_re :: rx where
  "audio_annotation_re = rx_seq [rx_chr (CHR ''[''), rx_alts [rx_lit ''voice'', rx_lit ''audio''],
     rx_opt (rx_seq [rx_chr (CHR '':''), Rx_Star (Rx_Char (\<lambda>x. x \<noteq> CHR '']''))]), rx_chr (CHR '']'')]"

text \<open>\<open>fresh\<close> is the identifier \<open>uniqueID\<close> would return.\<close>

definition build_media_scope :: "string \<Rightarrow> string \<Rightarrow> string \<Rightarrow> string \<Rightarrow> string" where
  "build_media_scope fresh channel chat mid =
    channel @ '':'' @ chat @ '':'' @ (if mid = [] then fresh else mid)"

datatype channel_event =
    Start_Typing string
  | Record_Typing_Stop string string
  | React string string
  | Record_Reaction_Undo string string
  | Send_Placeholder string
  | Record_Placeholder string string string
  | Publish_Inbound inbound_message

definition typing_events :: "base_channel \<Rightarrow> owner_caps \<Rightarrow> string \<Rightarrow> channel_event list" where
  "typing_events c ow chat = (case ow_typing ow of
     None \<Rightarrow> []
   | Some start \<Rightarrow> Start_Typing chat # (if start chat then [Record_Typing_Stop (bc_name c) chat] else []))"

definition reaction_events :: "base_channel \<Rightarrow> owner_caps \<Rightarrow> string \<Rightarrow> string \<Rightarrow> channel_event list" where
  "reaction_events c ow chat mid = (case ow_reaction ow of
     None \<Rightarrow> []
   | Some react \<Rightarrow> if mid = [] then []
       else React chat mid # (if react chat mid then [Record_Reaction_Undo (bc_name c) chat] else []))"

definition placeholder_events :: "base_channel \<Rightarrow> owner_caps \<Rightarrow> string \<Rightarrow> string \<Rightarrow> channel_event list" where
  "placeholder_events c ow chat s =
    (if rx_match_string audio_annotation_re s then []
     else case ow_placeholder ow of
       None \<Rightarrow> []
     | Some send \<Rightarrow> Send_Placeholder chat #
         (case send chat of
            Some ph \<Rightarrow> if ph \<noteq> [] then [Record_Placeholder (bc_name c) chat ph] else []
          | None \<Rightarrow> []))"

definition sender_admitted :: "base_channel \<Rightarrow> string \<Rightarrow> sender_info \<Rightarrow> bool" where
  "sender_admitted c sender_id sender =
    (if si_canonical_id sender \<noteq> [] \<or> si_platform_id sender \<noteq> [] then is_allowed_sender c sender
     else is_allowed c sender_id)"

definition inbound_of ::
  "base_channel \<Rightarrow> string \<Rightarrow> peer \<Rightarrow> string \<Rightarrow> string \<Rightarrow> string \<Rightarrow> string \<Rightarrow> string list \<Rightarrow>
     (string \<times> string) list \<Rightarrow> sender_info \<Rightarrow> inbound_message" where
  "inbound_of c fresh pr mid sender_id chat s media metadata sender =
     \<lparr>im_channel = bc_name c,
      im_sender_id = (if si_canonical_id sender \<noteq> [] then si_canonical_id sender else sender_id),
      im_sender = sender, im_chat_id = chat, im_content = s, im_media = media, im_peer = pr,
      im_message_id = mid, im_media_scope = build_media_scope fresh (bc_name c) chat mid,
      im_session_key = [], im_metadata = metadata\<rparr>"

definition handle_message ::
  "base_channel \<Rightarrow> string \<Rightarrow> peer \<Rightarrow> string \<Rightarrow> string \<Rightarrow> string \<Rightarrow> string \<Rightarrow> string list \<Rightarrow>
     (string \<times> string) list \<Rightarrow> sender_info option \<Rightarrow> channel_event list" where
  "handle_message c fresh pr mid sender_id chat s media metadata sender_opt =
    (let sender = (case sender_opt of Some x \<Rightarrow> x | None \<Rightarrow> no_sender) in
     if \<not> sender_admitted c sender_id sender then []
     else (case bc_owner c of
             None \<Rightarrow> []
           | Some ow \<Rightarrow> typing_events c ow chat @ reaction_events c ow chat mid @ placeholder_events c ow chat s) @
          [Publish_Inbound (inbound_of c fresh pr mid sender_id chat s media metadata sender)])"

section \<open>Canonical identifiers round-trip\<close>

lemma prefix_before_sep:
  assumes "prefix e (p @ c # b)" and "c \<notin> set e"
  shows "prefix e p"
proof (cases "length e \<le> length p")
  case True
  with assms(1) show ?thesis by (meson prefixI prefix_length_prefix)
next
  case False
  from assms(1) obtain zs where zs: "p @ c # b = e @ zs" by (auto simp: prefix_def)
  then have "e = take (length e) (p @ c # b)" by simp
  with False have "c \<in> set e" by (cases "length e - length p") (auto simp: take_Cons')
  with assms(2) show ?thesis by simp
qed

lemma trim_space_around_colon:
  assumes "trim_space p = p" "trim_space i = i"
  shows "trim_space (p @ CHR '':'' # i) = p @ CHR '':'' # i"
  unfolding trim_space_fix_conv
proof (intro ballI conjI notI)
  fix e assume e: "e \<in> set space_encs"
  note sep = colon_not_in_space_enc [OF e]
  { assume "prefix e (p @ CHR '':'' # i)"
    from prefix_before_sep [OF this sep] assms(1) e show False by (simp add: trim_space_fix_conv) }
  { assume "suffix e (p @ CHR '':'' # i)"
    from suffix_append_sep [OF this sep] assms(2) e show False by (simp add: trim_space_fix_conv) }
qed

lemma takeWhile_sep: "c \<notin> set p \<Longrightarrow> takeWhile (\<lambda>x. x \<noteq> c) (p @ c # i) = p"
  by (induction p) auto

lemma parse_around_colon:
  assumes "trim_space p = p" "trim_space i = i" "p \<noteq> []" "i \<noteq> []" "CHR '':'' \<notin> set p"
  shows "parse_canonical_id (p @ '':'' @ i) = Some (p, i)"
  using assms by (simp add: parse_canonical_id_def trim_space_around_colon str_index_byte takeWhile_sep)

lemma to_lower_no_colon: "CHR '':'' \<notin> set p \<Longrightarrow> CHR '':'' \<notin> set (to_lower p)"
proof
  assume "CHR '':'' \<notin> set p" "CHR '':'' \<in> set (to_lower p)"
  then obtain c where c: "c \<in> set p" "CHR '':'' = lower_char c" by (auto simp: set_to_lower)
  then have "lower_char c \<noteq> c" using \<open>CHR '':'' \<notin> set p\<close> by metis
  from lower_char_letter [OF this] c(2) have "is_letter_char CHR '':''" by simp
  then show False by (simp add: is_letter_char_def is_upper_char_def byte_def)
qed

definition plain_platform :: "string \<Rightarrow> bool" where
  "plain_platform p \<longleftrightarrow> trim_space p \<noteq> [] \<and> CHR '':'' \<notin> set p"

lemma build_parts:
  assumes "plain_platform p" "trim_space i \<noteq> []"
  shows "build_canonical_id p i = to_lower (trim_space p) @ '':'' @ trim_space i"
    and "parse_canonical_id (build_canonical_id p i) = Some (to_lower (trim_space p), trim_space i)"
proof -
  let ?p = "to_lower (trim_space p)" and ?i = "trim_space i"
  show b: "build_canonical_id p i = ?p @ '':'' @ ?i"
    using assms by (simp add: build_canonical_id_def plain_platform_def)
  have "CHR '':'' \<notin> set ?p"
    using assms(1) set_trim_space [of p] by (intro to_lower_no_colon) (auto simp: plain_platform_def)
  with assms show "parse_canonical_id (build_canonical_id p i) = Some (?p, ?i)"
    unfolding b by (intro parse_around_colon) (auto simp: plain_platform_def trim_space_to_lower)
qed

text \<open>
  A canonical identifier parses back to the platform, trimmed and in lower case, and the trimmed
  platform ID, colons in the ID included; building it again from the parts gives the same identifier.
\<close>

theorem canonical_id_roundtrip:
  assumes "plain_platform p" "trim_space i \<noteq> []"
  shows "parse_canonical_id (build_canonical_id p i) = Some (to_lower (trim_space p), trim_space i) \<and>
         build_canonical_id (to_lower (trim_space p)) (trim_space i) = build_canonical_id p i"
  using assms build_parts(2) [OF assms]
  by (auto simp: build_canonical_id_def trim_space_to_lower)

theorem canonical_id_roundtrip_witness:
  "parse_canonical_id (build_canonical_id '' Matrix'' ''@ann:home.org'') =
     Some (to_lower (trim_space '' Matrix''), trim_space ''@ann:home.org'')"
proof -
  have "plain_platform '' Matrix''" "trim_space ''@ann:home.org'' \<noteq> []" by code_simp+
  from canonical_id_roundtrip [OF this] show ?thesis by simp
qed

section \<open>The allow-list\<close>

lemma build_trimmed: "trim_space (build_canonical_id p i) = build_canonical_id p i"
  by (simp add: build_canonical_id_def trim_space_to_lower trim_space_around_colon Let_def)

lemma build_again:
  assumes "plain_platform p" "trim_space i \<noteq> []"
  shows "build_canonical_id (to_lower (trim_space p)) (trim_space i) = build_canonical_id p i"
  using assms by (simp add: build_canonical_id_def trim_space_to_lower)

lemma equal_fold_length: "equal_fold s t \<Longrightarrow> length s = length t"
  unfolding equal_fold_def by (metis length_to_lower)

lemma indicator_events_publish_nothing:
  "Publish_Inbound m \<notin> set (typing_events c ow chat)"
  "Publish_Inbound m \<notin> set (reaction_events c ow chat mid)"
  "Publish_Inbound m \<notin> set (placeholder_events c ow chat s)"
  by (auto simp: typing_events_def reaction_events_def placeholder_events_def split: option.splits)

section \<open>Which senders an allow-list admits\<close>

text \<open>
  The entries as the documentation describes them, and whom each is meant for: an identifier of a platform, a raw
  identifier of the channel, a user name behind an \<open>@\<close>, or an identifier and a user name.  A name behind an \<open>@\<close>
  also admits the sender whose identifier it is.
\<close>

datatype allow_entry = Entry_Canonical string string | Entry_Id string | Entry_At string | Entry_Both string string

fun entry_text :: "allow_entry \<Rightarrow> string" where
  "entry_text (Entry_Canonical p i) = p @ '':'' @ i"
| "entry_text (Entry_Id i) = i"
| "entry_text (Entry_At u) = ''@'' @ u"
| "entry_text (Entry_Both i u) = i @ ''|'' @ u"

fun entry_admits :: "allow_entry \<Rightarrow> sender_info \<Rightarrow> bool" where
  "entry_admits (Entry_Canonical p i) s \<longleftrightarrow>
     (if si_canonical_id s \<noteq> [] then equal_fold (si_canonical_id s) (p @ '':'' @ i)
      else equal_fold p (si_platform s) \<and> si_platform_id s = i)"
| "entry_admits (Entry_Id i) s \<longleftrightarrow> si_platform_id s = i"
| "entry_admits (Entry_At u) s \<longleftrightarrow> si_username s = u \<or> si_platform_id s = u"
| "entry_admits (Entry_Both i u) s \<longleftrightarrow> si_platform_id s = i \<or> si_username s = u"

text \<open>The texts that are one of these forms: the parts are not empty, and hold no bar and no colon of their own.\<close>

definition entry_part :: "string \<Rightarrow> bool" where
  "entry_part s \<longleftrightarrow> s \<noteq> [] \<and> CHR '':'' \<notin> set s \<and> CHR ''|'' \<notin> set s"

fun entry_ok :: "allow_entry \<Rightarrow> bool" where
  "entry_ok (Entry_Canonical p i) \<longleftrightarrow>
     p \<noteq> [] \<and> i \<noteq> [] \<and> CHR '':'' \<notin> set p \<and> trim_space p = p \<and> trim_space i = i \<and> \<not> is_numeric p"
| "entry_ok (Entry_Id i) \<longleftrightarrow> entry_part i \<and> \<not> prefix ''@'' i \<and> trim_space i = i"
| "entry_ok (Entry_At u) \<longleftrightarrow> entry_part u \<and> trim_space (''@'' @ u) = ''@'' @ u"
| "entry_ok (Entry_Both i u) \<longleftrightarrow> entry_part i \<and> entry_part u \<and> \<not> prefix ''@'' i \<and>
     trim_space (i @ ''|'' @ u) = i @ ''|'' @ u"

lemma parse_no_colon: "CHR '':'' \<notin> set e \<Longrightarrow> parse_canonical_id e = None"
  using set_trim_space [of e] by (auto simp: parse_canonical_id_def str_index_byte Let_def)

lemma split_bar_none: "CHR ''|'' \<notin> set s \<Longrightarrow> split_bar s = (s, [])"
  by (simp add: split_bar_def str_index_byte)

lemma split_bar_parts: "entry_part i \<Longrightarrow> split_bar (i @ ''|'' @ u) = (i, u)"
  by (simp add: split_bar_def str_index_byte entry_part_def takeWhile_sep)

lemma equal_fold_lower: "equal_fold s (to_lower p @ t) \<longleftrightarrow> equal_fold s (p @ t)"
  by (simp add: equal_fold_def)

lemma match_allowed_entry:
  assumes "entry_ok e"
  shows "match_allowed s (entry_text e) \<longleftrightarrow> entry_admits e s"
proof (cases e)
  case (Entry_Canonical p i)
  then have p: "p \<noteq> []" "i \<noteq> []" "trim_space p = p" "trim_space i = i" "\<not> is_numeric p" "CHR '':'' \<notin> set p"
    using assms by auto
  then have "parse_canonical_id (entry_text e) = Some (p, i)" "trim_space (entry_text e) = entry_text e"
    using Entry_Canonical parse_around_colon trim_space_around_colon by auto
  moreover have "build_canonical_id p i = to_lower p @ '':'' @ i" using p by (simp add: build_canonical_id_def)
  ultimately show ?thesis using p Entry_Canonical equal_fold_lower [of _ p "'':'' @ i"]
    by (auto simp: match_allowed_def match_canonical_def Let_def)
next
  case (Entry_Id i)
  then have i: "entry_part i" "\<not> prefix ''@'' i" "trim_space i = i" using assms by auto
  then show ?thesis using Entry_Id
    by (auto simp: match_allowed_def match_legacy_def parse_no_colon split_bar_none trim_prefix_def entry_part_def)
next
  case (Entry_At u)
  then show ?thesis using assms
    by (auto simp: match_allowed_def match_legacy_def parse_no_colon split_bar_none trim_prefix_def entry_part_def)
next
  case (Entry_Both i u)
  then have b: "entry_part i" "entry_part u" "\<not> prefix ''@'' i" "trim_space (i @ ''|'' @ u) = i @ ''|'' @ u"
    using assms by auto
  then have "parse_canonical_id (i @ ''|'' @ u) = None" "\<not> prefix ''@'' (i @ ''|'' @ u)"
    using parse_no_colon [of "i @ ''|'' @ u"] by (cases i; auto simp: entry_part_def)+
  then show ?thesis using Entry_Both b split_bar_parts [OF b(1), of u]
    by (auto simp: match_allowed_def match_legacy_def trim_prefix_def entry_part_def)
qed


definition demo_channel :: base_channel where
  "demo_channel = \<lparr>bc_name = ''telegram'', bc_allow_list = [''telegram:42'', ''@ann'', ''7|bob''],
     bc_group_trigger = \<lparr>gt_mention_only = False, gt_prefixes = []\<rparr>,
     bc_owner = Some \<lparr>ow_typing = Some (\<lambda>c. True), ow_reaction = None, ow_placeholder = Some (\<lambda>c. Some ''p1'')\<rparr>\<rparr>"

definition demo_entries :: "allow_entry list" where
  "demo_entries = [Entry_Canonical ''telegram'' ''42'', Entry_At ''ann'', Entry_Both ''7'' ''bob'']"

definition demo_sender :: "string \<Rightarrow> string \<Rightarrow> sender_info" where
  "demo_sender pid user = no_sender\<lparr>si_platform := ''telegram'', si_platform_id := pid,
     si_canonical_id := build_canonical_id ''telegram'' pid, si_username := user\<rparr>"

definition demo_handled :: "base_channel \<Rightarrow> string \<Rightarrow> string \<Rightarrow> channel_event list" where
  "demo_handled c pid user =
     handle_message c [] (Bus_Types.peer.make [] []) ''m'' pid ''c'' ''hi'' [] [] (Some (demo_sender pid user))"


text \<open>
  A Matrix user ID in the allow-list, the form the documentation of the channel asks for, refuses
  everybody: it is read as a canonical identifier of a platform named after the user, so not even the
  message of this user is admitted.
\<close>

theorem matrix_user_id_refused:
  assumes "CHR '':'' \<notin> set user" "trim_space (''@'' @ user) = ''@'' @ user"
    "trim_space server = server" "server \<noteq> []"
    and c: "bc_allow_list c = [''@'' @ user @ '':'' @ server]"
    and s: "si_platform sender = ''matrix''" "si_platform_id sender = ''@'' @ user @ '':'' @ server"
    and canonical: "si_canonical_id sender = build_canonical_id ''matrix'' (si_platform_id sender)"
  shows "handle_message c fresh pr mid sid chat t media md (Some sender) = []"
proof -
  let ?u = "''@'' @ user" and ?entry = "''@'' @ user @ '':'' @ server"
  have p: "parse_canonical_id ?entry = Some (?u, server)"
    using parse_around_colon [of ?u server] assms(1-4) by simp
  have trimmed: "trim_space ?entry = ?entry" using trim_space_around_colon [of ?u server] assms(2,3) by simp
  have n: "\<not> is_numeric ?u"
    by (simp add: is_numeric_def runes_ascii byte_def)
  have cand: "build_canonical_id ?u server = to_lower ?u @ '':'' @ server"
    using assms(2-4) by (simp add: build_canonical_id_def)
  have m: "plain_platform ''matrix''" "to_lower (trim_space ''matrix'') = ''matrix''" by code_simp+
  have can: "si_canonical_id sender = ''matrix:'' @ ?entry"
    using build_parts(1) [OF m(1), of ?entry] canonical s(2) trimmed m(2) by simp
  have "\<not> equal_fold (si_canonical_id sender) (build_canonical_id ?u server)"
    using equal_fold_length [of "si_canonical_id sender" "build_canonical_id ?u server"]
    unfolding can cand by auto
  then have "\<not> match_allowed sender ?entry"
    using n can cand unfolding match_allowed_def trimmed p match_canonical_def Let_def by auto
  then have "\<not> sender_admitted c sid sender"
    using can c by (simp add: sender_admitted_def is_allowed_sender_def)
  then show ?thesis by (simp add: handle_message_def)
qed

theorem matrix_user_id_refused_witness:
  "handle_message (demo_channel\<lparr>bc_name := ''matrix'', bc_allow_list := [''@ann:home.org'']\<rparr>) [] (Bus_Types.peer.make [] [])
     ''m'' ''@ann:home.org'' ''r'' ''hi'' [] []
     (Some (no_sender\<lparr>si_platform := ''matrix'', si_platform_id := ''@ann:home.org'',
        si_canonical_id := build_canonical_id ''matrix'' ''@ann:home.org''\<rparr>)) = []"
proof -
  have "trim_space ''@ann'' = ''@ann''" "trim_space ''home.org'' = ''home.org''" by code_simp+
  then show ?thesis
    by (intro matrix_user_id_refused [where user = "''ann''" and server = "''home.org''"]) simp_all
qed

end
