(* ===== verification/Agent_Registry.thy ===== *)
theory Agent_Registry
  imports Route_Resolver Agent_Turns Fallback Model_Router Commands
begin

text \<open>
  The agents of a process (\<open>src/pkg/agent/registry.go\<close>, the parts of \<open>instance.go\<close> and \<open>loop.go\<close> that
  belong to one agent): the registry and its default agent, which agents may be spawned, which model
  answers a turn, and the turn of an agent as a step of the whole loop's state.
\<close>

section \<open>Agents and the state they share\<close>

text \<open>Which models a turn calls: the fallback chain over several candidates, or one model.\<close>

datatype model_plan = Plan_Chain "candidate list" | Plan_Single string

text \<open>
  An agent with its session store, tool registry and the flag of its message tool; \<open>ai_call\<close> is the
  provider, for a call plan, and \<open>ai_sends\<close> says whether the message tool sends something in a turn.
\<close>

record 's agent_instance =
  ai_id :: string
  ai_model :: string
  ai_candidates :: "candidate list"
  ai_light_candidates :: "candidate list"
  ai_router :: "router_config option"
  ai_allow_agents :: "string list option"
  ai_env :: "'s turn_env"
  ai_call :: "model_plan \<Rightarrow> nat \<Rightarrow> message list \<Rightarrow> tool_definition list \<Rightarrow>
     (call_error, llm_response option) go_result"
  ai_sends :: "process_options \<Rightarrow> 's turn \<Rightarrow> bool"
  ai_store :: 's
  ai_registry :: tool_registry
  ai_sent :: bool

text \<open>The state of the loop: the registry (a Go map, in the order it is ranged over) and what agents share.\<close>

record 's loop_state =
  al_agents :: "(string \<times> 's agent_instance) list"
  al_calls :: nat
  al_out :: "outbound list"
  al_last_channel :: string
  al_summarizing :: "string set"

section \<open>The registry\<close>

definition register_agent ::
  "(string \<times> 's agent_instance) list \<Rightarrow> string \<times> 's agent_instance \<Rightarrow> (string \<times> 's agent_instance) list" where
  "register_agent agents = (\<lambda>(id, a). AList.update (normalize_agent_id id) a agents)"

definition new_agent_registry ::
  "'s agent_instance \<Rightarrow> (string \<times> 's agent_instance) list \<Rightarrow> (string \<times> 's agent_instance) list" where
  "new_agent_registry implicit configured =
    (if configured = [] then [(''main'', implicit)] else foldl register_agent [] configured)"

definition get_agent :: "'s loop_state \<Rightarrow> string \<Rightarrow> 's agent_instance option" where
  "get_agent al agent_id = map_of (al_agents al) (normalize_agent_id agent_id)"

text \<open>The key of the default agent.\<close>

definition default_key :: "'s loop_state \<Rightarrow> string option" where
  "default_key al =
    (if map_of (al_agents al) ''main'' \<noteq> None then Some ''main''
     else case al_agents al of [] \<Rightarrow> None | (k, _) # _ \<Rightarrow> Some k)"

definition get_default_agent :: "'s loop_state \<Rightarrow> 's agent_instance option" where
  "get_default_agent al = (case default_key al of None \<Rightarrow> None | Some k \<Rightarrow> map_of (al_agents al) k)"

definition list_agent_ids :: "'s loop_state \<Rightarrow> string list" where
  "list_agent_ids al = map fst (al_agents al)"

definition can_spawn_subagent :: "'s loop_state \<Rightarrow> string \<Rightarrow> string \<Rightarrow> bool" where
  "can_spawn_subagent al parent_id target_id =
    (case get_agent al parent_id of
       None \<Rightarrow> False
     | Some parent \<Rightarrow>
        (case ai_allow_agents parent of
           None \<Rightarrow> False
         | Some allowed \<Rightarrow> let target = normalize_agent_id target_id in
             list_ex (\<lambda>a. a = ''*'' \<or> normalize_agent_id a = target) allowed))"

section \<open>The models of a turn\<close>

definition select_candidates :: "'s agent_instance \<Rightarrow> string \<Rightarrow> message list \<Rightarrow> candidate list \<times> string" where
  "select_candidates a user_msg history =
    (case ai_router a of
       None \<Rightarrow> (ai_candidates a, ai_model a)
     | Some r \<Rightarrow>
        if ai_light_candidates a = [] then (ai_candidates a, ai_model a)
        else (let (model, used_light, score) = router_select_model r user_msg history (ai_model a)
              in if \<not> used_light then (ai_candidates a, ai_model a)
                 else (ai_light_candidates a, ro_light_model r)))"

definition call_plan :: "'s agent_instance \<Rightarrow> string \<Rightarrow> message list \<Rightarrow> model_plan" where
  "call_plan a user_msg ms =
    (let (candidates, model) = select_candidates a user_msg ms
     in if 1 < length candidates then Plan_Chain candidates else Plan_Single model)"

section \<open>A turn of an agent\<close>

definition turn_of :: "'s agent_instance \<Rightarrow> 's loop_state \<Rightarrow> 's turn" where
  "turn_of a al = \<lparr>tu_store = ai_store a, tu_registry = ai_registry a, tu_calls = al_calls al,
     tu_out = al_out al, tu_last_channel = al_last_channel al, tu_summarizing = al_summarizing al, tu_sent = []\<rparr>"

definition env_of :: "'s agent_instance \<Rightarrow> process_options \<Rightarrow> 's loop_state \<Rightarrow> 's turn_env" where
  "env_of a opts al =
    (let ms = initial_messages (ai_env a) opts (record_last_channel opts (turn_of a al))
     in (ai_env a)\<lparr>tv_agent_id := ai_id a, tv_call := ai_call a (call_plan a (po_user_message opts) ms)\<rparr>)"

definition put_agent :: "string \<Rightarrow> 's agent_instance \<Rightarrow> 's loop_state \<Rightarrow> 's loop_state" where
  "put_agent k a al = al\<lparr>al_agents := AList.update k a (al_agents al)\<rparr>"

definition merge_turn :: "string \<Rightarrow> 's agent_instance \<Rightarrow> bool \<Rightarrow> 's turn \<Rightarrow> 's loop_state \<Rightarrow> 's loop_state" where
  "merge_turn k a sent t al = put_agent k
     (a\<lparr>ai_store := tu_store t, ai_registry := tu_registry t, ai_sent := ai_sent a \<or> sent\<rparr>)
     (al\<lparr>al_calls := tu_calls t, al_out := tu_out t, al_last_channel := tu_last_channel t,
        al_summarizing := tu_summarizing t\<rparr>)"

text \<open>\<open>al.runAgentLoop(ctx, agent, opts)\<close> for the agent registered under \<open>k\<close>.\<close>

definition run_agent ::
  "string \<Rightarrow> 's agent_instance \<Rightarrow> process_options \<Rightarrow> 's loop_state \<Rightarrow>
   (string, string) go_result option \<times> 's loop_state" where
  "run_agent k a opts al =
    (let (r, t) = run_agent_loop (env_of a opts al) opts (turn_of a al)
     in (r, merge_turn k a (ai_sends a opts (turn_of a al)) t al))"

end
