(* ===== verification/Message_Processing.thy ===== *)
theory Message_Processing
  imports Agent_Registry Media_Store Channel_Access
begin

text \<open>
  What the agent loop does with one inbound message (\<open>src/pkg/agent/loop.go\<close>): voice messages are
  transcribed, the route chooses the agent and the session, commands are answered at once, everything else
  is a turn of the agent, and \<open>Run\<close> publishes the answer unless the message tool has already sent one.
\<close>

section \<open>The surroundings\<close>

text \<open>What happens outside the bus: the transcript echoed to the user and the deferred placeholder.\<close>

datatype direct_event =
    Direct_Feedback string string string string
  | Direct_Placeholder string string

text \<open>
  \<open>le_transcribe\<close> is the transcriber (\<open>None\<close> when there is none), \<open>le_channels\<close> the names of the channel
  manager's channels (\<open>None\<close> without a manager), \<open>le_provider\<close> the configured default provider.
\<close>

record loop_env =
  le_routes :: route_config
  le_commands :: "command_registry option"
  le_provider :: string
  le_channels :: "string list option"
  le_media :: "media_store option"
  le_transcribe :: "(string \<Rightarrow> string option) option"
  le_echo :: bool

definition default_response :: string where
  "default_response = ''I've completed processing but have no response to give. Increase `max_tool_iterations` in config.json.''"

section \<open>The message tool\<close>

text \<open>
  \<open>MessageTool.Execute\<close>: \<open>send\<close> is the callback (\<open>None\<close> when not configured), which returns an error or
  nothing; the last argument and result is the flag \<open>sentInRound\<close>.
\<close>

definition message_execute ::
  "(string \<Rightarrow> string \<Rightarrow> string \<Rightarrow> string option) option \<Rightarrow> go_args \<Rightarrow> string \<Rightarrow> string \<Rightarrow> bool \<Rightarrow> tool_result \<times> bool" where
  "message_execute send args ctx_channel ctx_chat sent =
    (case map_of args ''content'' of
       Some (Any_Str text) \<Rightarrow>
        (let ch = any_str (map_of args ''channel''); id = any_str (map_of args ''chat_id'');
             channel = (if ch = [] then ctx_channel else ch); chat = (if id = [] then ctx_chat else id)
         in if channel = [] \<or> chat = [] then (error_result ''No target channel/chat specified'', sent)
            else case send of
              None \<Rightarrow> (error_result ''Message sending not configured'', sent)
            | Some f \<Rightarrow>
               (case f channel chat text of
                  Some e \<Rightarrow> (with_error (error_result (''sending message: '' @ e)) e, sent)
                | None \<Rightarrow> (silent_result (''Message sent to '' @ channel @ '':'' @ chat), True)))
     | _ \<Rightarrow> (error_result ''content is required'', sent))"

lemma message_execute_flag:
  "snd (message_execute send args c h sent) \<longleftrightarrow> sent \<or> \<not> tr_is_error (fst (message_execute send args c h sent))"
  by (auto simp: message_execute_def Let_def error_result_def silent_result_def new_tool_result_def with_error_def
      split: option.split go_any.split)

section \<open>Voice messages\<close>

definition is_audio_file :: "string \<Rightarrow> string \<Rightarrow> bool" where
  "is_audio_file filename content_type \<longleftrightarrow>
     list_ex (\<lambda>ext. suffix ext (to_lower filename)) [''.mp3'', ''.wav'', ''.ogg'', ''.m4a'', ''.flac'', ''.aac'', ''.wma''] \<or>
     list_ex (\<lambda>t. prefix t (to_lower content_type)) [''audio/'', ''application/ogg'', ''application/x-ogg'']"

text \<open>A file that cannot be resolved or is no audio yields nothing, a failed transcription an empty text.\<close>

definition transcriptions :: "media_store \<Rightarrow> (string \<Rightarrow> string option) \<Rightarrow> string list \<Rightarrow> string list" where
  "transcriptions store transcribe refs = concat (map (\<lambda>ref. case resolve_with_meta store ref of
       Err e \<Rightarrow> []
     | Ok (path, meta) \<Rightarrow>
        if is_audio_file (mm_filename meta) (mm_content_type meta)
        then [case transcribe path of Some text \<Rightarrow> text | None \<Rightarrow> []] else []) refs)"

definition voice_text :: "string \<Rightarrow> string" where
  "voice_text text = ''[voice: '' @ text @ '']''"

text \<open>\<open>ReplaceAllStringFunc\<close> with the running index: the replaced text and the transcriptions left over.\<close>

function replace_annotations :: "string \<Rightarrow> string list \<Rightarrow> string \<times> string list" where
  "replace_annotations s texts =
    (case rx_find_from audio_annotation_re [] s of
       None \<Rightarrow> (s, texts)
     | Some ((before, found), (_, rest)) \<Rightarrow>
        if length rest < length s then
          (let (new, texts') = (case texts of
                 [] \<Rightarrow> (take (length found - length rest) found, [])
               | t # ts \<Rightarrow> (voice_text t, ts));
               (tail, left) = replace_annotations rest texts'
           in (rev before @ new @ tail, left))
        else (s, texts))"
  by auto
termination by (relation "measure (\<lambda>(s, texts). length s)") auto

declare replace_annotations.simps [simp del]

definition replace_voice :: "string \<Rightarrow> string list \<Rightarrow> string" where
  "replace_voice s texts =
    (let (new, left) = replace_annotations s texts
     in new @ concat (map (\<lambda>t. [CHR 0x0A] @ voice_text t) left))"

definition feedback_text :: "string list \<Rightarrow> string" where
  "feedback_text texts =
    (let spoken = filter (\<lambda>t. t \<noteq> []) texts in
     if spoken \<noteq> [] then ''Transcript: '' @ join [CHR 0x0A] spoken else ''No voice detected in the audio'')"

definition send_transcription_feedback :: "loop_env \<Rightarrow> inbound_message \<Rightarrow> string list \<Rightarrow> direct_event list" where
  "send_transcription_feedback env msg texts =
    (if \<not> le_echo env \<or> le_channels env = None then []
     else [Direct_Feedback (im_channel msg) (im_chat_id msg) (feedback_text texts) (im_message_id msg)])"

definition transcribe_audio_in_message ::
  "loop_env \<Rightarrow> inbound_message \<Rightarrow> inbound_message \<times> bool \<times> direct_event list" where
  "transcribe_audio_in_message env msg =
    (case (le_transcribe env, le_media env) of
       (Some transcribe, Some store) \<Rightarrow>
        (let texts = transcriptions store transcribe (im_media msg) in
         if im_media msg = [] \<or> texts = [] then (msg, False, [])
         else (msg\<lparr>im_content := replace_voice (im_content msg) texts\<rparr>, True,
               send_transcription_feedback env msg texts))
     | _ \<Rightarrow> (msg, False, []))"

section \<open>Routing a message\<close>

definition inbound_metadata :: "inbound_message \<Rightarrow> string \<Rightarrow> string" where
  "inbound_metadata msg key = (case map_of (im_metadata msg) key of Some v \<Rightarrow> v | None \<Rightarrow> [])"

definition extract_peer :: "inbound_message \<Rightarrow> route_peer option" where
  "extract_peer msg =
    (let kind = pe_kind (im_peer msg); pid = pe_id (im_peer msg) in
     if kind = [] then None
     else Some \<lparr>peer_kind = kind,
       peer_id = (if pid = [] then (if kind = ''direct'' then im_sender_id msg else im_chat_id msg) else pid)\<rparr>)"

definition extract_parent_peer :: "inbound_message \<Rightarrow> route_peer option" where
  "extract_parent_peer msg =
    (let kind = inbound_metadata msg ''parent_peer_kind''; pid = inbound_metadata msg ''parent_peer_id'' in
     if kind = [] \<or> pid = [] then None else Some \<lparr>peer_kind = kind, peer_id = pid\<rparr>)"

definition route_input_of :: "inbound_message \<Rightarrow> route_input" where
  "route_input_of msg = \<lparr>ri_channel = im_channel msg, ri_account_id = inbound_metadata msg ''account_id'',
     ri_peer = extract_peer msg, ri_parent_peer = extract_parent_peer msg,
     ri_guild_id = inbound_metadata msg ''guild_id'', ri_team_id = inbound_metadata msg ''team_id''\<rparr>"

text \<open>The route and the key of the agent: the route's agent, or the default agent when it has none.\<close>

definition resolve_message_route ::
  "loop_env \<Rightarrow> 's loop_state \<Rightarrow> inbound_message \<Rightarrow> (string, resolved_route \<times> string \<times> 's agent_instance) go_result" where
  "resolve_message_route env al msg =
    (let route = resolve_route (le_routes env) (route_input_of msg);
         k = normalize_agent_id (rr_agent_id route)
     in case get_agent al (rr_agent_id route) of
          Some a \<Rightarrow> Ok (route, k, a)
        | None \<Rightarrow>
           (case (default_key al, get_default_agent al) of
              (Some d, Some a) \<Rightarrow> Ok (route, d, a)
            | _ \<Rightarrow> Err (''no agent available for route (agent_id='' @ rr_agent_id route @ '')'')))"

definition resolve_scope_key :: "resolved_route \<Rightarrow> string \<Rightarrow> string" where
  "resolve_scope_key route msg_session_key =
    (if msg_session_key \<noteq> [] \<and> prefix ''agent:'' msg_session_key then msg_session_key else rr_session_key route)"

section \<open>Commands\<close>

definition build_commands_runtime ::
  "loop_env \<Rightarrow> 's loop_state \<Rightarrow> command_registry \<Rightarrow> process_options \<Rightarrow> 's agent_instance runtime" where
  "build_commands_runtime env al reg opts =
    \<lparr>rt_model_info = Some (\<lambda>a. (ai_model a, le_provider env)),
     rt_agent_ids = Some (\<lambda>a. list_agent_ids al),
     rt_definitions = Some (cr_defs reg),
     rt_enabled_channels = Some (case le_channels env of None \<Rightarrow> [] | Some cs \<Rightarrow> cs),
     rt_switch_model = Some (\<lambda>value a. (Ok (ai_model a), a\<lparr>ai_model := value\<rparr>)),
     rt_switch_channel = Some (\<lambda>value. case le_channels env of
         None \<Rightarrow> Some ''channel manager not initialized''
       | Some cs \<Rightarrow> if value \<notin> set cs \<and> value \<noteq> ''cli''
           then Some (''channel '' @ quoted value @ '' not found or not enabled'') else None),
     rt_clear_history = Some (\<lambda>a. let ops = tv_ops (ai_env a); k = po_session_key opts in
       (None, a\<lparr>ai_store := so_save ops (so_set_summary ops (so_set_history ops (ai_store a) k []) k []) k\<rparr>))\<rparr>"

text \<open>The reply when the message was a command, and the agent after it.\<close>

definition handle_command ::
  "loop_env \<Rightarrow> 's loop_state \<Rightarrow> inbound_message \<Rightarrow> process_options \<Rightarrow> 's agent_instance \<Rightarrow> string option \<times> 's agent_instance" where
  "handle_command env al msg opts a =
    (if \<not> has_command_prefix (im_content msg) then (None, a)
     else case le_commands env of
       None \<Rightarrow> (None, a)
     | Some reg \<Rightarrow>
        (case execute_command (Some reg)
            \<lparr>rq_channel = im_channel msg, rq_chat_id = im_chat_id msg, rq_sender_id = im_sender_id msg,
             rq_text = im_content msg\<rparr> (build_commands_runtime env al reg opts) a of
           (Handled name reply, a') \<Rightarrow> (Some reply, a')
         | (Passthrough name, a') \<Rightarrow> (None, a')))"

section \<open>Processing a message\<close>

definition message_options :: "resolved_route \<Rightarrow> inbound_message \<Rightarrow> process_options" where
  "message_options route msg =
    \<lparr>po_session_key = resolve_scope_key route (im_session_key msg), po_channel = im_channel msg,
     po_chat_id = im_chat_id msg, po_user_message = im_content msg, po_media = im_media msg,
     po_default_response = default_response, po_enable_summary = True, po_send_response = False,
     po_no_history = False\<rparr>"

definition process_system_message ::
  "'s loop_state \<Rightarrow> inbound_message \<Rightarrow> (string, string) go_result option \<times> 's loop_state" where
  "process_system_message al msg =
    (if im_channel msg \<noteq> ''system'' then
       (Some (Err (''processSystemMessage called with non-system message channel: '' @ im_channel msg)), al)
     else
       let (channel, chat) = (case str_index (im_chat_id msg) '':'' of
             Some idx \<Rightarrow> if 0 < idx then (take idx (im_chat_id msg), drop (idx + 1) (im_chat_id msg))
               else (''cli'', im_chat_id msg)
           | None \<Rightarrow> (''cli'', im_chat_id msg))
       in if is_internal_channel channel then (Some (Ok []), al)
          else case (default_key al, get_default_agent al) of
            (Some k, Some a) \<Rightarrow> run_agent k a
              \<lparr>po_session_key = build_agent_main_session_key (ai_id a), po_channel = channel, po_chat_id = chat,
               po_user_message = ''[System: '' @ im_sender_id msg @ ''] '' @ im_content msg, po_media = [],
               po_default_response = ''Background task completed.'', po_enable_summary = False,
               po_send_response = True, po_no_history = False\<rparr> al
          | _ \<Rightarrow> (Some (Err ''no default agent for system message''), al))"

text \<open>The turn's own message tool forgets what it sent in earlier rounds.\<close>

definition reset_sent_in_round :: "'s agent_instance \<Rightarrow> 's agent_instance" where
  "reset_sent_in_round a = (if get_tool (ai_registry a) ''message'' \<noteq> None then a\<lparr>ai_sent := False\<rparr> else a)"

definition process_routed ::
  "loop_env \<Rightarrow> 's loop_state \<Rightarrow> inbound_message \<Rightarrow> (string, string) go_result option \<times> 's loop_state" where
  "process_routed env al msg =
    (case resolve_message_route env al msg of
       Err e \<Rightarrow> (Some (Err e), al)
     | Ok (route, k, a0) \<Rightarrow>
        (let a = reset_sent_in_round a0; opts = message_options route msg in
         case handle_command env al msg opts a of
           (Some reply, a') \<Rightarrow> (Some (Ok reply), put_agent k a' al)
         | (None, a') \<Rightarrow> run_agent k a' opts al))"

definition process_message ::
  "loop_env \<Rightarrow> 's loop_state \<Rightarrow> inbound_message \<Rightarrow>
   (string, string) go_result option \<times> direct_event list \<times> 's loop_state" where
  "process_message env al msg0 =
    (let (msg, had_audio, evs) = transcribe_audio_in_message env msg0;
         evs' = evs @ (if had_audio \<and> le_channels env \<noteq> None
           then [Direct_Placeholder (im_channel msg) (im_chat_id msg)] else []);
         (r, al') = (if im_channel msg = ''system'' then process_system_message al msg
                     else process_routed env al msg)
     in (r, evs', al'))"

text \<open>The body of \<open>Run\<close> for one message; \<open>None\<close> is a panic.\<close>

definition already_sent :: "'s loop_state \<Rightarrow> bool" where
  "already_sent al = (case get_default_agent al of
     None \<Rightarrow> False
   | Some a \<Rightarrow> get_tool (ai_registry a) ''message'' \<noteq> None \<and> ai_sent a)"

definition response_text :: "(string, string) go_result \<Rightarrow> string" where
  "response_text r = (case r of Ok text \<Rightarrow> text | Err e \<Rightarrow> ''Error processing message: '' @ e)"

definition run_message :: "loop_env \<Rightarrow> 's loop_state \<Rightarrow> inbound_message \<Rightarrow> 's loop_state option" where
  "run_message env al msg =
    (case process_message env al msg of
       (None, evs, al') \<Rightarrow> None
     | (Some r, evs, al') \<Rightarrow>
        Some (if response_text r \<noteq> [] \<and> \<not> already_sent al'
              then al'\<lparr>al_out := al_out al' @ [Out_Text (im_channel msg) (im_chat_id msg) (response_text r)]\<rparr>
              else al'))"

text \<open>The loop over the messages consumed from the bus.\<close>

fun run_messages :: "loop_env \<Rightarrow> 's loop_state \<Rightarrow> inbound_message list \<Rightarrow> 's loop_state option" where
  "run_messages env al [] = Some al"
| "run_messages env al (m # ms) =
    (case run_message env al m of None \<Rightarrow> None | Some al' \<Rightarrow> run_messages env al' ms)"

section \<open>Direct processing\<close>

definition direct_message :: "string \<Rightarrow> string \<Rightarrow> string \<Rightarrow> string \<Rightarrow> inbound_message" where
  "direct_message text skey channel chat =
    \<lparr>im_channel = channel, im_sender_id = ''cron'', im_sender = no_sender, im_chat_id = chat, im_content = text,
     im_media = [], im_peer = \<lparr>pe_kind = [], pe_id = []\<rparr>, im_message_id = [], im_media_scope = [],
     im_session_key = skey, im_metadata = []\<rparr>"

definition process_direct_with_channel ::
  "loop_env \<Rightarrow> 's loop_state \<Rightarrow> string \<Rightarrow> string \<Rightarrow> string \<Rightarrow> string \<Rightarrow>
   (string, string) go_result option \<times> direct_event list \<times> 's loop_state" where
  "process_direct_with_channel env al text skey channel chat =
    process_message env al (direct_message text skey channel chat)"

definition process_direct ::
  "loop_env \<Rightarrow> 's loop_state \<Rightarrow> string \<Rightarrow> string \<Rightarrow>
   (string, string) go_result option \<times> direct_event list \<times> 's loop_state" where
  "process_direct env al text skey = process_direct_with_channel env al text skey ''cli'' ''direct''"

definition process_heartbeat ::
  "'s loop_state \<Rightarrow> string \<Rightarrow> string \<Rightarrow> string \<Rightarrow> (string, string) go_result option \<times> 's loop_state" where
  "process_heartbeat al text channel chat =
    (case (default_key al, get_default_agent al) of
       (Some k, Some a) \<Rightarrow> run_agent k a
         \<lparr>po_session_key = ''heartbeat'', po_channel = channel, po_chat_id = chat, po_user_message = text,
          po_media = [], po_default_response = default_response, po_enable_summary = False,
          po_send_response = False, po_no_history = True\<rparr> al
     | _ \<Rightarrow> (Some (Err ''no default agent for heartbeat''), al))"

end
