(* ===== verification/Message_Rounds.thy ===== *)
theory Message_Rounds
  imports Message_Processing
begin

text \<open>
  What the handling of messages guarantees: only the agent a message is routed to changes, a process with
  one agent answers every message of a user, and the flag of the message tool, which \<open>Run\<close> reads from the
  default agent and \<open>processMessage\<close> resets in the routed one, silences the other agents.
\<close>

section \<open>Frames\<close>

lemma map_of_put_agent [simp]: "map_of (al_agents (put_agent k a al)) = (map_of (al_agents al))(k \<mapsto> a)"
  by (simp add: put_agent_def update_conv')

lemma keys_put_agent: "k \<in> fst ` set (al_agents al) \<Longrightarrow> map fst (al_agents (put_agent k a al)) = map fst (al_agents al)"
  by (simp add: put_agent_def update_keys)

lemma default_key_keys:
  "map fst (al_agents al') = map fst (al_agents al) \<Longrightarrow> default_key al' = default_key al"
proof -
  assume keys: "map fst (al_agents al') = map fst (al_agents al)"
  then have "map_of (al_agents al') k = None \<longleftrightarrow> map_of (al_agents al) k = None" for k
    by (metis map_of_eq_None_iff image_set)
  moreover have "(case al_agents al' of [] \<Rightarrow> None | (k, _) # _ \<Rightarrow> Some k) =
      (case al_agents al of [] \<Rightarrow> None | (k, _) # _ \<Rightarrow> Some k)"
    using keys by (cases "al_agents al"; cases "al_agents al'") auto
  ultimately show ?thesis by (simp add: default_key_def)
qed

lemma default_key_agent: "default_key al = Some k \<Longrightarrow> \<exists>a. map_of (al_agents al) k = Some a"
  by (auto simp: default_key_def split: if_splits list.splits)

lemma default_agent_key: "default_key al = Some k \<Longrightarrow> get_default_agent al = map_of (al_agents al) k"
  by (simp add: get_default_agent_def)

text \<open>What a step on the agent \<open>k\<close> leaves alone.\<close>

definition only_agent :: "string \<Rightarrow> 's loop_state \<Rightarrow> 's loop_state \<Rightarrow> bool" where
  "only_agent k al al' \<longleftrightarrow> map fst (al_agents al') = map fst (al_agents al) \<and>
     (\<forall>k'. k' \<noteq> k \<longrightarrow> map_of (al_agents al') k' = map_of (al_agents al) k')"

lemma only_agent_refl [simp]: "only_agent k al al"
  by (simp add: only_agent_def)

lemma only_agent_put:
  "map_of (al_agents al) k = Some a \<Longrightarrow> only_agent k al (put_agent k a' al)"
  unfolding only_agent_def using keys_put_agent [of k al a'] map_of_SomeD [of "al_agents al" k a]
  by force

lemma al_agents_merge [simp]:
  "al_agents (merge_turn k a sent t al) = al_agents (put_agent k
     (a\<lparr>ai_store := tu_store t, ai_registry := tu_registry t, ai_sent := ai_sent a \<or> sent\<rparr>) al)"
  by (simp add: merge_turn_def put_agent_def)

lemma only_agent_run:
  "map_of (al_agents al) k = Some a \<Longrightarrow> only_agent k al (snd (run_agent k a' opts al))"
  using only_agent_put by (auto simp: run_agent_def only_agent_def Let_def split: prod.split)

text \<open>The key of the agent that handles a message.\<close>

definition handler_key :: "loop_env \<Rightarrow> 's loop_state \<Rightarrow> inbound_message \<Rightarrow> string option" where
  "handler_key env al msg =
    (if im_channel msg = ''system'' then default_key al
     else case resolve_message_route env al msg of Err e \<Rightarrow> None | Ok (route, k, a) \<Rightarrow> Some k)"

lemma resolve_message_route_agent:
  "resolve_message_route env al msg = Ok (route, k, a) \<Longrightarrow> map_of (al_agents al) k = Some a"
  by (auto simp: resolve_message_route_def get_agent_def get_default_agent_def Let_def split: option.splits)

lemma transcribe_content: "\<exists>c. fst (transcribe_audio_in_message env msg) = msg\<lparr>im_content := c\<rparr>"
proof -
  have same: "\<exists>c. fst (msg, False, [] :: direct_event list) = msg\<lparr>im_content := c\<rparr>"
    by (rule exI [of _ "im_content msg"]) simp
  have "\<exists>c. fst (if P then (msg, False, []) else (msg\<lparr>im_content := c'\<rparr>, True, evs)) = msg\<lparr>im_content := c\<rparr>"
    for P c' and evs :: "direct_event list"
    using same by (cases P) auto
  with same show ?thesis
    unfolding transcribe_audio_in_message_def Let_def by (auto simp only: prod.case split: option.split)
qed

lemma route_input_content: "route_input_of (msg\<lparr>im_content := c\<rparr>) = route_input_of msg"
  by (simp add: route_input_of_def extract_peer_def extract_parent_peer_def inbound_metadata_def Let_def cong: if_cong)

lemma transcribe_keeps:
  "im_channel (fst (transcribe_audio_in_message env msg)) = im_channel msg"
  "im_chat_id (fst (transcribe_audio_in_message env msg)) = im_chat_id msg"
  "route_input_of (fst (transcribe_audio_in_message env msg)) = route_input_of msg"
proof -
  from transcribe_content obtain c where c: "fst (transcribe_audio_in_message env msg) = msg\<lparr>im_content := c\<rparr>"
    by blast
  show "im_channel (fst (transcribe_audio_in_message env msg)) = im_channel msg"
    "im_chat_id (fst (transcribe_audio_in_message env msg)) = im_chat_id msg"
    "route_input_of (fst (transcribe_audio_in_message env msg)) = route_input_of msg"
    unfolding c route_input_content by simp_all
qed

lemma transcribe_handler:
  "handler_key env al (fst (transcribe_audio_in_message env msg)) = handler_key env al msg"
  by (simp add: handler_key_def transcribe_keeps resolve_message_route_def)

lemma process_routed_frame:
  "case resolve_message_route env al msg of
     Err e \<Rightarrow> snd (process_routed env al msg) = al
   | Ok (route, k, a) \<Rightarrow> only_agent k al (snd (process_routed env al msg))"
proof (cases "resolve_message_route env al msg")
  case (Inl e)
  then show ?thesis by (simp add: process_routed_def)
next
  case (Inr x)
  obtain route k a where x: "x = (route, k, a)" by (cases x)
  with Inr have "map_of (al_agents al) k = Some a" by (simp add: resolve_message_route_agent)
  with Inr x show ?thesis
    by (simp add: process_routed_def Let_def only_agent_run only_agent_put split: prod.split option.split)
qed

lemma process_message_frame:
  assumes "handler_key env al msg = Some k"
  shows "only_agent k al (snd (snd (process_message env al msg)))"
proof -
  let ?m = "fst (transcribe_audio_in_message env msg)"
  have h: "handler_key env al ?m = Some k" using assms by (simp add: transcribe_handler)
  have "only_agent k al (snd (process_system_message al ?m))" if "im_channel ?m = ''system''"
    using that h default_key_agent [of al k]
    by (auto simp: handler_key_def process_system_message_def only_agent_run get_default_agent_def
        split: option.split prod.split)
  moreover have "only_agent k al (snd (process_routed env al ?m))" if "im_channel ?m \<noteq> ''system''"
    using that h process_routed_frame [of env al ?m]
    by (auto simp: handler_key_def split: sum.splits prod.splits)
  ultimately show ?thesis
    by (auto simp: process_message_def case_prod_beta Let_def)
qed

lemma process_message_no_handler:
  "handler_key env al msg = None \<Longrightarrow> al_agents (snd (snd (process_message env al msg))) = al_agents al"
  using transcribe_handler [of env al msg] process_routed_frame [of env al "fst (transcribe_audio_in_message env msg)"]
  by (auto simp: process_message_def case_prod_beta Let_def handler_key_def process_system_message_def
      split: if_splits sum.splits option.splits prod.split)

lemma run_message_agents:
  assumes "run_message env al msg = Some al'"
  shows "al_agents al' = al_agents (snd (snd (process_message env al msg)))"
  using assms by (auto simp: run_message_def split: prod.splits option.splits if_splits)

section \<open>The answer to a message\<close>

text \<open>No handler of a built-in command replies with the empty text.\<close>

lemma quoted_not_Nil [simp]: "quoted s \<noteq> []"
  by (simp add: quoted_def)

lemma format_help_not_Nil: "format_help_message defs \<noteq> []"
proof -
  have "join newline (map f ds) \<noteq> []" if "\<And>d. f d \<noteq> []" "ds \<noteq> []" for f :: "command_def \<Rightarrow> string" and ds
    using that by (cases ds rule: list.exhaust; cases "tl ds") auto
  then show ?thesis by (simp add: format_help_message_def)
qed

lemma run_handler_reply: "fst (run_handler h rq (build_commands_runtime env al reg opts) a) \<noteq> []"
  by (cases h)
    (auto simp: build_commands_runtime_def format_help_not_Nil show_model_text_def list_models_text_def
      agents_text_def channels_text_def check_channel_def switch_model_def clear_history_def Let_def
      split: option.split)

text \<open>A command is answered with some text, and what is passed on changes nothing.\<close>

definition answered :: "'a \<Rightarrow> outcome \<times> 'a \<Rightarrow> bool" where
  "answered s p \<longleftrightarrow> (case fst p of Handled c reply \<Rightarrow> reply \<noteq> [] | Passthrough c \<Rightarrow> snd p = s)"

lemma answered_simps [simp]:
  "answered s (Handled c reply, s') \<longleftrightarrow> reply \<noteq> []"
  "answered s (Passthrough c, s') \<longleftrightarrow> s' = s"
  by (simp_all add: answered_def)

lemma execute_definition_answered:
  assumes "\<And>h. fst (run_handler h rq rt s) \<noteq> []"
  shows "answered s (execute_definition rq d rt s)"
proof -
  have run: "answered s (case h of None \<Rightarrow> (Passthrough (cd_name d), s)
      | Some h \<Rightarrow> (let (reply, s') = run_handler h rq rt s in (Handled (cd_name d) reply, s')))" for h
    using assms by (cases h) (simp_all add: case_prod_beta)
  show ?thesis
    unfolding execute_definition_def Let_def by (simp add: run [unfolded Let_def] split: option.split)
qed

lemma execute_command_answered:
  assumes "\<And>h. fst (run_handler h rq rt s) \<noteq> []"
  shows "answered s (execute_command reg rq rt s)"
  unfolding execute_command_def
  by (simp add: execute_definition_answered [OF assms] split: option.split)

lemma handle_command_reply:
  assumes "handle_command env al msg opts a = (reply, a')"
  shows "(\<forall>text. reply = Some text \<longrightarrow> text \<noteq> []) \<and> (reply = None \<longrightarrow> a' = a)"
proof (cases "has_command_prefix (im_content msg)"; cases "le_commands env")
  fix reg assume c: "has_command_prefix (im_content msg)" "le_commands env = Some reg"
  let ?rq = "\<lparr>rq_channel = im_channel msg, rq_chat_id = im_chat_id msg, rq_sender_id = im_sender_id msg,
             rq_text = im_content msg\<rparr>"
  obtain out s' where e: "execute_command (Some reg) ?rq (build_commands_runtime env al reg opts) a = (out, s')"
    by fastforce
  with execute_command_answered [OF run_handler_reply, where rq = ?rq and reg = "Some reg"]
  have "answered a (out, s')" by metis
  with c e assms show ?thesis by (cases out) (auto simp: handle_command_def)
qed (use assms in \<open>auto simp: handle_command_def\<close>)

section \<open>Turns end\<close>

lemma llm_retry_answers:
  assumes "\<And>n ms ts. tv_call env n ms ts \<noteq> Ok None"
  shows "fst (llm_retry env opts retry left ms st) \<noteq> Ok None"
proof (induction left arbitrary: retry ms st)
  case 0
  then show ?case using assms by (simp add: call_model_def)
next
  case (Suc left)
  then show ?case
    by (simp add: call_model_def Let_def case_prod_beta split: sum.split del: not_None_eq) (metis assms)
qed

lemma llm_iteration_no_panic:
  assumes "\<And>n ms ts. tv_call env n ms ts \<noteq> Ok None"
  shows "fst (llm_iteration env opts it left ms st) \<noteq> Turn_Panic"
proof (induction left arbitrary: it ms st)
  case (Suc left)
  obtain r ms1 st1 where r: "llm_retry env opts 0 max_retries ms st = (r, ms1, st1)"
    using prod_cases3 by blast
  with llm_retry_answers [OF assms, of opts 0 max_retries ms st] have "r \<noteq> Ok None" by simp
  with r show ?case
    using Suc.IH by (auto simp: Let_def split: sum.split option.split)
qed simp

lemma run_agent_loop_result:
  assumes "\<And>n ms ts. tv_call env n ms ts \<noteq> Ok None" "po_default_response opts \<noteq> []"
  shows "\<exists>r. fst (run_agent_loop env opts st) = Some r \<and> response_text r \<noteq> []"
  using llm_iteration_no_panic [OF assms(1)] assms(2)
  unfolding run_agent_loop_def run_llm_iteration_def Let_def response_text_def
  by (auto split: prod.split turn_outcome.split) (metis fst_conv)+

text \<open>The turn of a registered agent, when the provider always answers or fails.\<close>

definition always_answers :: "'s agent_instance \<Rightarrow> bool" where
  "always_answers a \<longleftrightarrow> (\<forall>plan n ms ts. ai_call a plan n ms ts \<noteq> Ok None)"

lemma run_agent_result:
  assumes "always_answers a" "po_default_response opts \<noteq> []"
  shows "\<exists>r. fst (run_agent k a opts al) = Some r \<and> response_text r \<noteq> []"
proof -
  have "\<exists>r. fst (run_agent_loop (env_of a opts al) opts (turn_of a al)) = Some r \<and> response_text r \<noteq> []"
    using assms by (intro run_agent_loop_result) (simp_all add: env_of_def Let_def always_answers_def)
  then show ?thesis by (simp add: run_agent_def case_prod_beta Let_def)
qed

lemma run_agent_flag:
  assumes "default_key al = Some k" "already_sent (snd (run_agent k a opts al))" "\<not> ai_sent a"
  shows "ai_sends a opts (turn_of a al)"
proof -
  let ?al = "snd (run_agent k a opts al)"
  obtain a0 where "map_of (al_agents al) k = Some a0" using default_key_agent [OF assms(1)] by blast
  then have keys: "map fst (al_agents ?al) = map fst (al_agents al)"
    using only_agent_run [of al k a0 a opts] by (simp add: only_agent_def)
  then have d: "default_key ?al = Some k" using default_key_keys assms(1) by metis
  show ?thesis
    using assms(2,3) by (simp add: already_sent_def default_agent_key [OF d])
      (simp add: run_agent_def case_prod_beta Let_def)
qed

lemma put_agent_flag:
  assumes "default_key al = Some k" "already_sent (put_agent k a al)"
  shows "ai_sent a"
proof -
  obtain a0 where "map_of (al_agents al) k = Some a0" using default_key_agent [OF assms(1)] by blast
  then have "map fst (al_agents (put_agent k a al)) = map fst (al_agents al)"
    using only_agent_put [of al k a0 a] by (simp add: only_agent_def)
  then have "default_key (put_agent k a al) = Some k" using default_key_keys assms(1) by metis
  with assms(2) show ?thesis by (simp add: already_sent_def default_agent_key)
qed

text \<open>Commands keep the flag of the message tool.\<close>

lemma run_handler_flag:
  "ai_sent (snd (run_handler h rq (build_commands_runtime env al reg opts) a)) = ai_sent a"
  by (cases h) (auto simp: build_commands_runtime_def switch_model_def clear_history_def Let_def)

lemma execute_command_keeps:
  assumes "P s" "\<And>h. P (snd (run_handler h rq rt s))"
  shows "P (snd (execute_command reg rq rt s))"
proof -
  have run: "P (snd (case h of None \<Rightarrow> (Passthrough n, s)
      | Some h \<Rightarrow> (let (reply, s') = run_handler h rq rt s in (Handled n reply, s'))))" for h n
    using assms by (cases h) (simp_all add: case_prod_beta)
  have "P (snd (execute_definition rq d rt s))" for d
    unfolding execute_definition_def Let_def by (simp add: run [unfolded Let_def] assms(1) split: option.split)
  then show ?thesis unfolding execute_command_def by (simp add: assms(1) split: option.split)
qed

lemma handle_command_flag:
  assumes "handle_command env al msg opts a = (reply, a')"
  shows "ai_sent a' = ai_sent a"
proof (cases "has_command_prefix (im_content msg)"; cases "le_commands env")
  fix reg assume c: "has_command_prefix (im_content msg)" "le_commands env = Some reg"
  let ?rq = "\<lparr>rq_channel = im_channel msg, rq_chat_id = im_chat_id msg, rq_sender_id = im_sender_id msg,
             rq_text = im_content msg\<rparr>"
  have "ai_sent (snd (execute_command (Some reg) ?rq (build_commands_runtime env al reg opts) a)) = ai_sent a"
    by (rule execute_command_keeps) (simp_all add: run_handler_flag)
  with c assms show ?thesis by (auto simp: handle_command_def split: prod.splits outcome.splits)
qed (use assms in \<open>auto simp: handle_command_def\<close>)

section \<open>One agent answers everything\<close>

lemma turn_of_reset [simp]: "turn_of (reset_sent_in_round a) al = turn_of a al"
  "ai_sends (reset_sent_in_round a) = ai_sends a" "ai_call (reset_sent_in_round a) = ai_call a"
  by (simp_all add: reset_sent_in_round_def turn_of_def)

lemma default_response_not_Nil: "default_response \<noteq> []"
  by (simp add: default_response_def)

lemma process_routed_answers:
  assumes "resolve_message_route env al msg = Ok (route, k, a)" "default_key al = Some k"
    "get_tool (ai_registry a) ''message'' \<noteq> None" "always_answers a"
  shows "\<exists>r al'. process_routed env al msg = (Some r, al') \<and> response_text r \<noteq> [] \<and>
     (already_sent al' \<longrightarrow> ai_sends a (message_options route msg) (turn_of a al))"
proof -
  let ?a = "reset_sent_in_round a" and ?opts = "message_options route msg"
  have flag: "\<not> ai_sent ?a" using assms(3) by (simp add: reset_sent_in_round_def)
  obtain reply a' where h: "handle_command env al msg ?opts ?a = (reply, a')" by fastforce
  note hr = handle_command_reply [OF h] and hf = handle_command_flag [OF h]
  show ?thesis
  proof (cases reply)
    case (Some t)
    with assms(1) h have "process_routed env al msg = (Some (Ok t), put_agent k a' al)"
      by (simp add: process_routed_def Let_def)
    with Some hr hf flag put_agent_flag [OF assms(2), of a'] show ?thesis by (auto simp: response_text_def)
  next
    case None
    with hr have a': "a' = ?a" by simp
    with None assms(1) h have p: "process_routed env al msg = run_agent k ?a ?opts al"
      by (simp add: process_routed_def Let_def)
    have "always_answers ?a" using assms(4) by (simp add: always_answers_def)
    then obtain r where "fst (run_agent k ?a ?opts al) = Some r" "response_text r \<noteq> []"
      using run_agent_result [of ?a ?opts k al] by (auto simp: message_options_def default_response_not_Nil)
    then show ?thesis
      using run_agent_flag [OF assms(2), of ?a ?opts] flag unfolding p by (cases "run_agent k ?a ?opts al") auto
  qed
qed

text \<open>The turn of a message: its options, for the message as it is after the transcription.\<close>

definition turn_options :: "loop_env \<Rightarrow> inbound_message \<Rightarrow> process_options" where
  "turn_options env msg =
    message_options (resolve_route (le_routes env) (route_input_of msg)) (fst (transcribe_audio_in_message env msg))"

lemma process_message_transcribed:
  assumes "im_channel msg \<noteq> ''system''"
  shows "fst (process_message env al msg) = fst (process_routed env al (fst (transcribe_audio_in_message env msg)))"
    and "snd (snd (process_message env al msg)) = snd (process_routed env al (fst (transcribe_audio_in_message env msg)))"
  using assms by (simp_all add: process_message_def case_prod_beta Let_def transcribe_keeps)

text \<open>
  C7: A process with one agent answers every message of a user, commands and failing model calls included, if the
  message tool has sent nothing during this very turn: the loop goes on, and after what the processing has published
  it publishes a non-empty text for the chat of the message.
\<close>

theorem user_message_answered:
  assumes al: "al_agents al = [(k, a)]" and tool: "get_tool (ai_registry a) ''message'' \<noteq> None"
    and ch: "im_channel msg \<noteq> ''system''" and ans: "always_answers a"
    and quiet: "\<not> ai_sends a (turn_options env msg) (turn_of a al)"
  shows "\<exists>al1 text. snd (snd (process_message env al msg)) = al1 \<and> text \<noteq> [] \<and>
    run_message env al msg = Some (al1\<lparr>al_out := al_out al1 @ [Out_Text (im_channel msg) (im_chat_id msg) text]\<rparr>)"
proof -
  have d: "default_key al = Some k" using al by (auto simp: default_key_def)
  let ?m = "fst (transcribe_audio_in_message env msg)" and ?route = "resolve_route (le_routes env) (route_input_of msg)"
  have "resolve_message_route env al ?m = Ok (?route, k, a)"
    using al d by (auto simp: resolve_message_route_def transcribe_keeps get_agent_def Let_def
        default_agent_key split: if_splits)
  from process_routed_answers [OF this d tool ans]
  obtain r al1 where r: "process_routed env al ?m = (Some r, al1)" "response_text r \<noteq> []"
      "already_sent al1 \<longrightarrow> ai_sends a (message_options ?route ?m) (turn_of a al)" by blast
  with quiet have "\<not> already_sent al1" by (auto simp: turn_options_def)
  then show ?thesis using r process_message_transcribed [OF ch, of env al]
    by (cases "process_message env al msg") (auto simp: run_message_def intro!: exI [of _ "response_text r"])
qed

section \<open>The flag of another agent's message tool\<close>

text \<open>The loop without its publications.\<close>

fun process_all :: "loop_env \<Rightarrow> 's loop_state \<Rightarrow> inbound_message list \<Rightarrow> 's loop_state option" where
  "process_all env al [] = Some al"
| "process_all env al (m # ms) =
    (case process_message env al m of (None, evs, al') \<Rightarrow> None | (Some r, evs, al') \<Rightarrow> process_all env al' ms)"

text \<open>The message is routed to an agent of its own, not the default one.\<close>

definition routed_elsewhere :: "loop_env \<Rightarrow> 's loop_state \<Rightarrow> inbound_message \<Rightarrow> bool" where
  "routed_elsewhere env al msg \<longleftrightarrow> im_channel msg \<noteq> ''system'' \<and>
     (let k = normalize_agent_id (rr_agent_id (resolve_route (le_routes env) (route_input_of msg)))
      in default_key al \<noteq> Some k \<and> k \<in> set (map fst (al_agents al)))"

lemma routed_elsewhere_handler:
  assumes "routed_elsewhere env al msg"
  obtains k where "handler_key env al msg = Some k" "default_key al \<noteq> Some k"
proof -
  let ?k = "normalize_agent_id (rr_agent_id (resolve_route (le_routes env) (route_input_of msg)))"
  have k: "?k \<in> set (map fst (al_agents al))" "default_key al \<noteq> Some ?k" "im_channel msg \<noteq> ''system''"
    using assms by (auto simp: routed_elsewhere_def Let_def)
  then obtain a where "map_of (al_agents al) ?k = Some a" by (metis map_of_eq_None_iff image_set not_Some_eq)
  with k(3) have "handler_key env al msg = Some ?k"
    by (simp add: handler_key_def resolve_message_route_def get_agent_def Let_def)
  with k(2) that show thesis by blast
qed

lemma elsewhere_keeps_flag:
  assumes "routed_elsewhere env al msg" "already_sent al"
  defines "al' \<equiv> snd (snd (process_message env al msg))"
  shows "already_sent al'" "map fst (al_agents al') = map fst (al_agents al)"
proof -
  obtain k where k: "handler_key env al msg = Some k" "default_key al \<noteq> Some k"
    using routed_elsewhere_handler [OF assms(1)] by blast
  have f: "only_agent k al al'" unfolding al'_def by (rule process_message_frame [OF k(1)])
  then show keys: "map fst (al_agents al') = map fst (al_agents al)" by (simp add: only_agent_def)
  from assms(2) obtain d where d: "default_key al = Some d" by (auto simp: already_sent_def get_default_agent_def split: option.splits)
  then have "default_key al' = Some d" using default_key_keys [OF keys] by simp
  moreover have "map_of (al_agents al') d = map_of (al_agents al) d"
    using f k(2) d by (auto simp: only_agent_def)
  ultimately show "already_sent al'" using assms(2) d by (simp add: already_sent_def default_agent_key)
qed

text \<open>
  C9: Once the message tool of the default agent has sent something, no answer of any other agent is ever
  published: whatever messages follow, as long as they are routed to other agents, the loop does exactly
  what it would do if it published no answers, because \<open>Run\<close> asks the default agent's tool while
  \<open>processMessage\<close> resets the tool of the agent that has the turn.
\<close>

theorem stale_flag_silences_agents:
  assumes "already_sent al" "list_all (routed_elsewhere env al) msgs"
  shows "run_messages env al msgs = process_all env al msgs"
  using assms
proof (induction msgs arbitrary: al)
  case (Cons m ms)
  from Cons.prems have m: "routed_elsewhere env al m" by simp
  obtain r evs al' where p: "process_message env al m = (r, evs, al')" using prod_cases3 by blast
  note kept = elsewhere_keeps_flag [OF m Cons.prems(1), unfolded p snd_conv]
  have "list_all (routed_elsewhere env al') ms"
    using Cons.prems(2) kept(2) default_key_keys [OF kept(2)] by (simp add: routed_elsewhere_def list_all_iff)
  then have "run_messages env al' ms = process_all env al' ms" using Cons.IH kept(1) by blast
  then show ?case using p kept(1) by (simp add: run_message_def split: option.split)
qed simp

section \<open>Commands on the agent\<close>

context session_store
begin

lemma clear_store:
  fixes k :: string
  assumes "inv s" "\<And>s k. known s k"
  defines "s' \<equiv> so_save ops (so_set_summary ops (so_set_history ops s k []) k []) k"
  shows "so_history ops s' k = [] \<and> so_summary ops s' k = [] \<and>
    (\<forall>k'. slot k' \<noteq> slot k \<longrightarrow> so_history ops s' k' = so_history ops s k' \<and> so_summary ops s' k' = so_summary ops s k')"
  using assms(1,2) frame inv_set_history [OF assms(1), of "[]" k] inv_set_summary
  unfolding s'_def
  by (simp add: history_save summary_save history_set_summary summary_set history_set summary_set_history)

end

lemma parse_command_prefix: "parse_command_name t = Some c \<Longrightarrow> has_command_prefix t"
  by (auto simp: parse_command_name_def has_command_prefix_def Let_def split: option.splits if_splits)

lemma clear_command_runs:
  assumes "le_commands env = Some (new_command_registry builtin_definitions)"
    "parse_command_name (im_content msg) = Some ''clear''"
  shows "handle_command env al msg opts a = (Some ''Chat history cleared!'',
    a\<lparr>ai_store := (let ops = tv_ops (ai_env a); k = po_session_key opts in
      so_save ops (so_set_summary ops (so_set_history ops (ai_store a) k []) k []) k)\<rparr>)"
proof -
  have n: "normalize_command_name ''clear'' = ''clear''" "cd_name clear_command = ''clear''"
    "cd_sub_commands clear_command = []" "cd_handler clear_command = Some H_Clear"
    "find (\<lambda>d. cd_name d = ''clear'') builtin_definitions = Some clear_command" by code_simp+
  show ?thesis
    using assms parse_command_prefix [OF assms(2)]
    by (simp add: handle_command_def execute_command_def lookup_builtin n execute_definition_def clear_history_def
        build_commands_runtime_def Let_def)
qed

text \<open>
  \<open>/clear\<close>, however it is written, empties the history and the summary of the message's session, says so,
  and leaves every session stored under another file alone.
\<close>

theorem clear_command_effect:
  assumes "le_commands env = Some (new_command_registry builtin_definitions)"
    "parse_command_name (im_content msg) = Some ''clear''"
    and ops: "tv_ops (ai_env a) = jsonl_ops enc dec now" and inv: "jsonl_inv enc dec (ai_store a)"
  shows "\<exists>a'. handle_command env al msg opts a = (Some ''Chat history cleared!'', a') \<and>
    so_history (jsonl_ops enc dec now) (ai_store a') (po_session_key opts) = [] \<and>
    so_summary (jsonl_ops enc dec now) (ai_store a') (po_session_key opts) = [] \<and>
    (\<forall>k'. sanitize_key k' \<noteq> sanitize_key (po_session_key opts) \<longrightarrow>
       so_history (jsonl_ops enc dec now) (ai_store a') k' = so_history (jsonl_ops enc dec now) (ai_store a) k' \<and>
       so_summary (jsonl_ops enc dec now) (ai_store a') k' = so_summary (jsonl_ops enc dec now) (ai_store a) k')"
  using jsonl.clear_store [OF inv, of now "po_session_key opts"]
  by (simp add: clear_command_runs [OF assms(1,2)] ops Let_def)

text \<open>
  Switching the model of an agent changes which models its turns call exactly when the agent has no
  fallbacks and the light model does not answer: with a fallback chain the command says that it switched
  the model, and every turn goes on calling the models configured at the start.
\<close>

theorem switch_model_effect:
  assumes "nth_token (rq_text rq) 2 = ''to''" "nth_token (rq_text rq) 3 = m" "m \<noteq> []" "m \<noteq> ai_model a"
  shows "run_handler H_Switch_Model rq (build_commands_runtime env al reg opts) a =
      (''Switched model from '' @ ai_model a @ '' to '' @ m, a\<lparr>ai_model := m\<rparr>) \<and>
    (call_plan (a\<lparr>ai_model := m\<rparr>) question ms \<noteq> call_plan a question ms \<longleftrightarrow>
    length (ai_candidates a) \<le> 1 \<and>
    \<not> (\<exists>r. ai_router a = Some r \<and> ai_light_candidates a \<noteq> [] \<and> fst (snd (router_select_model r question ms m))))"
proof -
  have light: "fst (snd (router_select_model r question ms p)) = fst (snd (router_select_model r question ms q))" for r p q
    by (simp add: router_select_model_def Let_def)
  have "call_plan (a\<lparr>ai_model := m\<rparr>) question ms \<noteq> call_plan a question ms \<longleftrightarrow> length (ai_candidates a) \<le> 1 \<and>
      \<not> (\<exists>r. ai_router a = Some r \<and> ai_light_candidates a \<noteq> [] \<and> fst (snd (router_select_model r question ms m)))"
    using assms(4) light
    by (cases "ai_router a")
      (auto simp: call_plan_def select_candidates_def case_prod_beta Let_def)
  moreover have "run_handler H_Switch_Model rq (build_commands_runtime env al reg opts) a =
      (''Switched model from '' @ ai_model a @ '' to '' @ m, a\<lparr>ai_model := m\<rparr>)"
    using assms(1-3) by (simp add: build_commands_runtime_def switch_model_def Let_def)
  ultimately show ?thesis by blast
qed

section \<open>A concrete process\<close>

definition demo_agent :: "string \<Rightarrow> bool \<Rightarrow> session_manager agent_instance" where
  "demo_agent n sent = \<lparr>ai_id = n, ai_model = ''big'',
     ai_candidates = [\<lparr>ca_provider = ''p'', ca_model = ''big''\<rparr>, \<lparr>ca_provider = ''q'', ca_model = ''spare''\<rparr>],
     ai_light_candidates = [], ai_router = None, ai_allow_agents = None, ai_env = Agent_Turns.demo_env,
     ai_call = (\<lambda>plan n ms ts. Ok (Some (demo_answer 2))), ai_sends = (\<lambda>opts t. False),
     ai_store = tu_store demo_turn, ai_registry = register new_tool_registry (demo_tool ''message''), ai_sent = sent\<rparr>"

definition demo_loop :: "(string \<times> 's agent_instance) list \<Rightarrow> 's loop_state" where
  "demo_loop agents = \<lparr>al_agents = agents, al_calls = 0, al_out = [], al_last_channel = [], al_summarizing = {}\<rparr>"

definition demo_loop_env :: loop_env where
  "demo_loop_env = \<lparr>le_routes = \<lparr>rc_bindings =
       [\<lparr>ab_agent_id = ''b'', ab_match = \<lparr>bm_channel = ''s'', bm_account_id = ''*'', bm_peer = None,
         bm_guild_id = [], bm_team_id = []\<rparr>\<rparr>],
       rc_agents = [\<lparr>ac_id = ''a'', ac_default = True\<rparr>, \<lparr>ac_id = ''b'', ac_default = False\<rparr>],
       rc_dm_scope = [], rc_identity_links = []\<rparr>,
     le_commands = Some (new_command_registry [show_command]), le_provider = ''p'', le_channels = None,
     le_media = None, le_transcribe = None, le_echo = False\<rparr>"

definition demo_inbound :: "string \<Rightarrow> string \<Rightarrow> inbound_message" where
  "demo_inbound channel text = (direct_message text [] channel ''42'')\<lparr>im_sender_id := ''ann''\<rparr>"

lemma demo_answers: "always_answers (demo_agent n sent)"
  by (simp add: always_answers_def demo_agent_def)

lemma demo_message_tool: "get_tool (ai_registry (demo_agent ''a'' False)) ''message'' \<noteq> None"
  by (simp add: demo_agent_def get_tool_def register_def new_tool_registry_def demo_tool_def expired_def Let_def)

theorem user_message_answered_witness:
  "\<exists>al' out text. run_message demo_loop_env (demo_loop [(''a'', demo_agent ''a'' False)]) (demo_inbound ''s'' ''hi'') = Some al' \<and>
     al_out al' = out @ [Out_Text ''s'' ''42'' text] \<and> text \<noteq> []"
proof -
  have m: "im_channel (demo_inbound ''s'' ''hi'') = ''s''" "im_chat_id (demo_inbound ''s'' ''hi'') = ''42''"
    by (simp_all add: demo_inbound_def direct_message_def)
  have al: "al_agents (demo_loop [(''a'', demo_agent ''a'' False)]) = [(''a'', demo_agent ''a'' False)]"
    by (simp add: demo_loop_def)
  have "im_channel (demo_inbound ''s'' ''hi'') \<noteq> ''system''"
    "\<not> ai_sends (demo_agent ''a'' False) opts st" for opts st
    by (simp_all add: m demo_agent_def)
  from user_message_answered [OF al demo_message_tool this(1) demo_answers this(2), where env = demo_loop_env]
  show ?thesis by (auto simp: m)
qed

text \<open>The default agent's message tool was used some time ago; the answer of the other agent is dropped.\<close>

definition demo_two :: "session_manager loop_state" where
  "demo_two = demo_loop [(''a'', demo_agent ''a'' True), (''b'', demo_agent ''b'' False)]"

definition demo_show :: inbound_message where
  "demo_show = demo_inbound ''s'' ''/show channel''"

lemma demo_show_processed:
  "(case process_message demo_loop_env demo_two demo_show of (r, evs, al) \<Rightarrow> (r, al_out al)) =
     (Some (Ok ''Current Channel: s''), [])"
  by code_simp

theorem stale_flag_silences_agents_witness:
  "fst (process_message demo_loop_env demo_two demo_show) = Some (Ok ''Current Channel: s'') \<and>
   map_option al_out (run_messages demo_loop_env demo_two [demo_show]) = Some []"
proof -
  have "already_sent demo_two" "list_all (routed_elsewhere demo_loop_env demo_two) [demo_show]"
    by code_simp+
  from stale_flag_silences_agents [OF this] demo_show_processed show ?thesis
    by (auto split: prod.splits)
qed

theorem switch_model_effect_witness:
  "run_handler H_Switch_Model
      \<lparr>rq_channel = ''s'', rq_chat_id = ''42'', rq_sender_id = ''ann'', rq_text = ''/switch model to tiny''\<rparr>
      (build_commands_runtime demo_loop_env demo_two (new_command_registry [show_command]) demo_opts)
      (demo_agent ''a'' False) =
     (''Switched model from big to tiny'', (demo_agent ''a'' False)\<lparr>ai_model := ''tiny''\<rparr>) \<and>
   call_plan ((demo_agent ''a'' False)\<lparr>ai_model := ''tiny''\<rparr>) ''hi'' [] = call_plan (demo_agent ''a'' False) ''hi'' []"
proof -
  let ?rq = "\<lparr>rq_channel = ''s'', rq_chat_id = ''42'', rq_sender_id = ''ann'', rq_text = ''/switch model to tiny''\<rparr>"
  have "nth_token (rq_text ?rq) 2 = ''to''" "nth_token (rq_text ?rq) 3 = ''tiny''"
    "''tiny'' \<noteq> ai_model (demo_agent ''a'' False)" by code_simp+
  from switch_model_effect [OF this(1,2) _ this(3), where question = "''hi''" and ms = "[]"]
  show ?thesis by (simp add: demo_agent_def)
qed

text \<open>An agent on the JSONL store that holds a conversation.\<close>

definition jsonl_agent :: "jsonl_fs agent_instance" where
  "jsonl_agent = \<lparr>ai_id = ''main'', ai_model = ''big'', ai_candidates = [], ai_light_candidates = [],
     ai_router = None, ai_allow_agents = None,
     ai_env = \<lparr>tv_ops = jsonl_ops demo_enc demo_dec 7, tv_agent_id = ''main'', tv_limits = turn_limits,
       tv_static = ''be brief'', tv_dynamic = (\<lambda>n c i. ''noon''), tv_load = None,
       tv_call = (\<lambda>n ms ds. Ok None), tv_json = demo_json, tv_max_iterations = 5,
       tv_media_meta = (\<lambda>r. None), tv_reasoning_chat = (\<lambda>c. []), tv_discover = (\<lambda>n r. r)\<rparr>,
     ai_call = (\<lambda>plan n ms ts. Ok (Some (demo_answer 2))), ai_sends = (\<lambda>opts t. False),
     ai_store = demo_full, ai_registry = new_tool_registry, ai_sent = False\<rparr>"

theorem clear_command_effect_witness:
  "\<exists>a'. handle_command (demo_loop_env\<lparr>le_commands := Some (new_command_registry builtin_definitions)\<rparr>)
       (demo_loop []) (demo_inbound ''s'' ''!Clear@bot'') (demo_opts\<lparr>po_session_key := ''k''\<rparr>) jsonl_agent =
     (Some ''Chat history cleared!'', a') \<and> so_history (jsonl_ops demo_enc demo_dec 7) (ai_store a') ''k'' = []"
proof -
  let ?env = "demo_loop_env\<lparr>le_commands := Some (new_command_registry builtin_definitions)\<rparr>"
  have "parse_command_name (im_content (demo_inbound ''s'' ''!Clear@bot'')) = Some ''clear''" by code_simp
  moreover have "tv_ops (ai_env jsonl_agent) = jsonl_ops demo_enc demo_dec 7"
    "jsonl_inv demo_enc demo_dec (ai_store jsonl_agent)"
    by (simp_all add: jsonl_agent_def demo_full_inv)
  ultimately show ?thesis
    using clear_command_effect [of ?env _ jsonl_agent demo_enc demo_dec 7 "demo_loop []"
        "demo_opts\<lparr>po_session_key := ''k''\<rparr>"] by (fastforce simp del: jsonl_sel)
qed

end
