(* ===== verification/Split_Message.thy ===== *)
theory Split_Message
  imports Go_Strings Prelude
begin

text \<open>
  Splitting a long message for a channel, \<open>SplitMessage\<close> of \<open>pkg/channels/split.go\<close>. The Go function works on a
  slice of runes that it sometimes rebuilds; so do the definitions, on lists of runes. One turn of its loop
  is \<open>split_step\<close>; the loop takes fuel, because it does not always end, and a slice out of range is a panic.
\<close>

section \<open>Searching\<close>

definition nl_rune :: rune where "nl_rune = 10"
definition tick_rune :: rune where "tick_rune = 96"

definition slice :: "nat \<Rightarrow> nat \<Rightarrow> 'a list \<Rightarrow> 'a list" where
  "slice i j xs = take (j - i) (drop i xs)"

text \<open>A slice of the code panics out of range.\<close>

definition go_slice :: "nat \<Rightarrow> nat \<Rightarrow> 'a list \<Rightarrow> 'a list option" where
  "go_slice i j xs = (if i \<le> j \<and> j \<le> length xs then Some (slice i j xs) else None)"

text \<open>The fences of a slice: the index of the one left open, and the index behind the next one.\<close>

definition fence :: "rune list" where "fence = [96, 96, 96]"

fun unclosed_block :: "nat \<Rightarrow> nat option \<Rightarrow> rune list \<Rightarrow> nat option" where
  "unclosed_block i opened (x # y # z # xs) =
    (if x = tick_rune \<and> y = tick_rune \<and> z = tick_rune
     then unclosed_block (i + 3) (case opened of None \<Rightarrow> Some i | Some _ \<Rightarrow> None) xs
     else unclosed_block (i + 1) opened (y # z # xs))"
| "unclosed_block i opened _ = opened"

fun next_fence :: "nat \<Rightarrow> rune list \<Rightarrow> nat option" where
  "next_fence i (x # y # z # xs) =
    (if x = tick_rune \<and> y = tick_rune \<and> z = tick_rune then Some (i + 3) else next_fence (i + 1) (y # z # xs))"
| "next_fence i _ = None"

definition find_unclosed :: "rune list \<Rightarrow> nat \<Rightarrow> nat \<Rightarrow> nat option" where
  "find_unclosed rs start stop = unclosed_block start None (slice start stop rs)"

definition find_closing :: "rune list \<Rightarrow> nat \<Rightarrow> nat \<Rightarrow> nat option" where
  "find_closing rs start stop = next_fence start (slice start stop rs)"

definition find_newline_from :: "rune list \<Rightarrow> nat \<Rightarrow> nat option" where
  "find_newline_from rs i = find (\<lambda>j. rs ! j = nl_rune) [i..<length rs]"

definition find_last_in_range :: "(rune \<Rightarrow> bool) \<Rightarrow> rune list \<Rightarrow> nat \<Rightarrow> nat \<Rightarrow> nat \<Rightarrow> nat option" where
  "find_last_in_range P rs start stop window = find (\<lambda>j. P (rs ! j)) (rev [max (stop - window) start..<stop])"

definition find_last_newline :: "rune list \<Rightarrow> nat \<Rightarrow> nat \<Rightarrow> nat \<Rightarrow> nat option" where
  "find_last_newline = find_last_in_range (\<lambda>r. r = nl_rune)"

definition find_last_space :: "rune list \<Rightarrow> nat \<Rightarrow> nat \<Rightarrow> nat \<Rightarrow> nat option" where
  "find_last_space = find_last_in_range (\<lambda>r. r = 32 \<or> r = 9)"

text \<open>The space the loop skips, and \<open>strings.TrimSpace\<close> on runes.\<close>

definition is_blank :: "rune \<Rightarrow> bool" where
  "is_blank r \<longleftrightarrow> r = 32 \<or> r = 9 \<or> r = 10 \<or> r = 13"

definition trim_right_runes :: "(rune \<Rightarrow> bool) \<Rightarrow> rune list \<Rightarrow> rune list" where
  "trim_right_runes P rs = rev (dropWhile P (rev rs))"

definition trim_space_runes :: "rune list \<Rightarrow> rune list" where
  "trim_space_runes rs = trim_right_runes is_space_rune (dropWhile is_space_rune rs)"

section \<open>One turn of the loop\<close>

definition code_block_buffer :: "nat \<Rightarrow> nat" where
  "code_block_buffer max_len = min (max (max_len div 10) 50) (max_len div 2)"

definition effective_limit :: "nat \<Rightarrow> nat" where
  "effective_limit max_len = max (max_len - code_block_buffer max_len) (max_len div 2)"

text \<open>The index of a search, where the code rejects one that is not behind \<open>start\<close>.\<close>

definition behind :: "nat \<Rightarrow> nat option \<Rightarrow> nat option" where
  "behind start r = (case r of Some i \<Rightarrow> (if i > start then Some i else None) | None \<Rightarrow> None)"

definition natural_end :: "rune list \<Rightarrow> nat \<Rightarrow> nat \<Rightarrow> nat option" where
  "natural_end rs start stop = (case behind start (find_last_newline rs start stop 200) of
     Some i \<Rightarrow> Some i | None \<Rightarrow> behind start (find_last_space rs start stop 100))"

definition skip_blanks :: "rune list \<Rightarrow> nat \<Rightarrow> nat" where
  "skip_blanks rs i = i + length (takeWhile is_blank (drop i rs))"

text \<open>A turn yields a chunk, the runes left to work on and the new start, or panics.\<close>

definition plain_split :: "nat \<Rightarrow> rune list \<Rightarrow> nat \<Rightarrow> nat \<Rightarrow> (rune list \<times> rune list \<times> nat) option" where
  "plain_split max_len rs start stop =
    (let m = (if stop \<le> start then start + effective_limit max_len else stop)
     in map_option (\<lambda>c. (c, rs, skip_blanks rs m)) (go_slice start m rs))"

definition inject_split :: "rune list \<Rightarrow> rune list \<Rightarrow> nat \<Rightarrow> nat \<Rightarrow> (rune list \<times> rune list \<times> nat) option" where
  "inject_split header rs start stop =
    map_option (\<lambda>c. (trim_right_runes is_blank c @ nl_rune # fence,
      trim_space_runes (header @ nl_rune # drop stop rs), 0)) (go_slice start stop rs)"

definition inner_limit :: "nat \<Rightarrow> rune list \<Rightarrow> nat \<Rightarrow> nat" where
  "inner_limit max_len rs start = min (start + max_len - 5) (length rs)"

definition split_open_block ::
  "nat \<Rightarrow> rune list \<Rightarrow> nat \<Rightarrow> nat \<Rightarrow> nat \<Rightarrow> (rune list \<times> rune list \<times> nat) option" where
  "split_open_block max_len rs start msg_end u =
    (let header_end = find_newline_from rs u
     in case go_slice u (case header_end of None \<Rightarrow> u + 3 | Some h \<Rightarrow> h) rs of
          None \<Rightarrow> None
        | Some line \<Rightarrow>
           (let header = trim_space_runes line;
                header_end_idx = (case header_end of None \<Rightarrow> u + length header | Some h \<Rightarrow> h)
            in if msg_end > header_end_idx + 20 then
                 (if max_len < 5 then None
                  else let inner = inner_limit max_len rs start
                    in inject_split header rs start
                      (case find_last_newline rs start inner 200 of
                         Some b \<Rightarrow> (if b > header_end_idx then b else inner) | None \<Rightarrow> inner))
               else (case natural_end rs start u of
                   Some n \<Rightarrow> plain_split max_len rs start n
                 | None \<Rightarrow>
                    (if u - start > 20 then plain_split max_len rs start u
                     else if max_len < 5 then None
                     else inject_split header rs start (inner_limit max_len rs start)))))"

definition split_step :: "nat \<Rightarrow> rune list \<Rightarrow> nat \<Rightarrow> (rune list \<times> rune list \<times> nat) option" where
  "split_step max_len rs start =
    (let stop = start + effective_limit max_len;
         msg_end = (case natural_end rs start stop of Some n \<Rightarrow> n | None \<Rightarrow> stop)
     in case find_unclosed rs start msg_end of
          None \<Rightarrow> plain_split max_len rs start msg_end
        | Some u \<Rightarrow>
           (if length rs > msg_end then
              (case find_closing rs msg_end (length rs) of
                 Some c \<Rightarrow> (if c - start \<le> max_len then plain_split max_len rs start c
                    else split_open_block max_len rs start msg_end u)
               | None \<Rightarrow> split_open_block max_len rs start msg_end u)
            else plain_split max_len rs start msg_end))"

section \<open>The loop\<close>

datatype split_result = Chunks "rune list list" | Split_Panic | Out_Of_Fuel

fun cons_chunk :: "rune list \<Rightarrow> split_result \<Rightarrow> split_result" where
  "cons_chunk c (Chunks cs) = Chunks (c # cs)"
| "cons_chunk c r = r"

fun split_loop :: "nat \<Rightarrow> nat \<Rightarrow> rune list \<Rightarrow> nat \<Rightarrow> split_result" where
  "split_loop 0 max_len rs start = Out_Of_Fuel"
| "split_loop (Suc fuel) max_len rs start =
    (if start \<ge> length rs then Chunks []
     else if length rs - start \<le> max_len then Chunks [drop start rs]
     else case split_step max_len rs start of
       None \<Rightarrow> Split_Panic
     | Some (chunk, rs', start') \<Rightarrow> cons_chunk chunk (split_loop fuel max_len rs' start'))"

definition split_message :: "nat \<Rightarrow> string \<Rightarrow> int \<Rightarrow> split_result" where
  "split_message fuel content max_len =
    (if max_len \<le> 0 then (if content = [] then Chunks [] else Chunks [runes content])
     else split_loop fuel (nat max_len) (runes content) 0)"

section \<open>Lengths\<close>

lemma length_slice: "length (slice i j xs) \<le> j - i"
  by (simp add: slice_def)

lemma slice_append_drop: "i \<le> j \<Longrightarrow> slice i j xs @ drop j xs = drop i xs"
  by (simp add: slice_def) (metis append_take_drop_id drop_drop le_add_diff_inverse2)

lemma effective_limit_bounds: "0 < max_len \<Longrightarrow> 0 < effective_limit max_len \<and> effective_limit max_len \<le> max_len"
  by (auto simp: effective_limit_def code_block_buffer_def max_def min_def)

lemma find_last_in_range_Some:
  "find_last_in_range P rs start stop window = Some j \<Longrightarrow> start \<le> j \<and> j < stop \<and> P (rs ! j)"
  by (auto simp: find_last_in_range_def dest: find_SomeD)

lemma natural_end_Some: "natural_end rs start stop = Some n \<Longrightarrow> start < n \<and> n < stop"
  by (auto simp: natural_end_def behind_def find_last_newline_def find_last_space_def
      dest: find_last_in_range_Some split: option.splits if_splits)

lemma unclosed_block_Some:
  "unclosed_block i opened xs = Some u \<Longrightarrow> opened = Some u \<or> (i \<le> u \<and> u + 3 \<le> i + length xs)"
  by (induction i opened xs rule: unclosed_block.induct) (fastforce split: if_splits option.splits)+

lemma find_unclosed_Some: "find_unclosed rs start stop = Some u \<Longrightarrow> start \<le> u \<and> u < stop"
  using unclosed_block_Some [of start None "slice start stop rs" u] length_slice [of start stop rs]
  by (auto simp: find_unclosed_def)

lemma next_fence_Some: "next_fence i xs = Some c \<Longrightarrow> \<exists>k. c = i + k + 3 \<and> k < length xs \<and> xs ! k = tick_rune"
proof (induction i xs rule: next_fence.induct)
  case (1 i x y z xs)
  show ?case
  proof (cases "x = tick_rune \<and> y = tick_rune \<and> z = tick_rune")
    case True
    then show ?thesis using 1(2) by (intro exI [of _ 0]) simp
  next
    case False
    then obtain k where "c = i + 1 + k + 3" "k < length (y # z # xs)" "(y # z # xs) ! k = tick_rune"
      using 1 by auto
    then show ?thesis by (intro exI [of _ "Suc k"]) simp
  qed
qed auto

lemma length_trim_right: "length (trim_right_runes P rs) \<le> length rs"
  using length_dropWhile_le [of P "rev rs"] by (simp add: trim_right_runes_def)

lemma plain_split_length:
  "plain_split max_len rs start stop = Some (c, r) \<Longrightarrow> 0 < max_len \<Longrightarrow> stop - start \<le> max_len \<Longrightarrow> length c \<le> max_len"
  using effective_limit_bounds [of max_len] length_slice [of start stop rs]
    length_slice [of start "start + effective_limit max_len" rs]
  by (auto simp: plain_split_def go_slice_def Let_def split: if_splits intro: order_trans)

lemma inject_split_length:
  "inject_split header rs start stop = Some (c, r) \<Longrightarrow> 5 \<le> max_len \<Longrightarrow> stop \<le> inner_limit max_len rs start \<Longrightarrow>
    length c \<le> max_len"
  using length_trim_right [of is_blank "slice start stop rs"] length_slice [of start stop rs]
  by (auto simp: inject_split_def inner_limit_def fence_def go_slice_def split: if_splits)

lemma split_open_block_length:
  assumes "split_open_block max_len rs start msg_end u = Some (c, r)" "0 < max_len" "u < start + effective_limit max_len"
  shows "length c \<le> max_len"
proof -
  have u: "u - start \<le> max_len" using assms(2,3) effective_limit_bounds [of max_len] by linarith
  have n: "n - start \<le> max_len" if "natural_end rs start u = Some n" for n
    using natural_end_Some [OF that] u by linarith
  have b: "b \<le> inner_limit max_len rs start" if "find_last_newline rs start (inner_limit max_len rs start) 200 = Some b" for b
    using find_last_in_range_Some [OF that [unfolded find_last_newline_def]] by simp
  show ?thesis
    using assms(1,2) u n b unfolding split_open_block_def Let_def
    by (auto split: if_splits option.splits elim!: plain_split_length inject_split_length)
qed

lemma split_step_length:
  assumes "split_step max_len rs start = Some (c, r)" "0 < max_len"
  shows "length c \<le> max_len"
proof -
  define stop where "stop = start + effective_limit max_len"
  define msg_end where "msg_end = (case natural_end rs start stop of Some n \<Rightarrow> n | None \<Rightarrow> stop)"
  have m: "msg_end \<le> stop" using natural_end_Some [of rs start stop] by (auto simp: msg_end_def split: option.split)
  then have l: "msg_end - start \<le> max_len" using effective_limit_bounds [OF assms(2)] unfolding stop_def by linarith
  have u: "u < start + effective_limit max_len" if "find_unclosed rs start msg_end = Some u" for u
    using find_unclosed_Some [OF that] m by (simp add: stop_def)
  show ?thesis
    using assms l u unfolding split_step_def Let_def stop_def [symmetric] msg_end_def [symmetric]
    by (auto simp: stop_def [symmetric] split: if_splits option.splits elim!: plain_split_length split_open_block_length)
qed

lemma split_loop_length:
  "split_loop fuel max_len rs start = Chunks cs \<Longrightarrow> 0 < max_len \<Longrightarrow> c \<in> set cs \<Longrightarrow> length c \<le> max_len"
proof (induction fuel arbitrary: rs start cs)
  case (Suc fuel)
  show ?case
  proof (cases "length rs - start \<le> max_len")
    case True
    then show ?thesis using Suc.prems by (auto split: if_splits)
  next
    case False
    then have long: "\<not> length rs \<le> start" by linarith
    then obtain chunk rs' start' where st: "split_step max_len rs start = Some (chunk, rs', start')"
      using Suc.prems False by (cases "split_step max_len rs start") auto
    then obtain cs' where "split_loop fuel max_len rs' start' = Chunks cs'" "cs = chunk # cs'"
      using Suc.prems(1) False long by (cases "split_loop fuel max_len rs' start'") auto
    then show ?thesis using Suc.IH Suc.prems(2,3) split_step_length [OF st] by auto
  qed
qed simp

text \<open>No slice of the code is out of range.\<close>

lemma plain_split_ok: "start \<le> stop \<Longrightarrow> stop \<le> length rs \<Longrightarrow> start + effective_limit max_len \<le> length rs \<Longrightarrow>
    plain_split max_len rs start stop \<noteq> None"
  by (simp add: plain_split_def go_slice_def Let_def)

lemma inject_split_ok: "start \<le> stop \<Longrightarrow> stop \<le> length rs \<Longrightarrow> inject_split header rs start stop \<noteq> None"
  by (simp add: inject_split_def go_slice_def)

lemma find_newline_from_Some: "find_newline_from rs u = Some h \<Longrightarrow> u \<le> h \<and> h < length rs"
  by (auto simp: find_newline_from_def dest: find_SomeD)

lemma find_unclosed_room: "find_unclosed rs start stop = Some u \<Longrightarrow> start \<le> u \<and> u + 3 \<le> stop"
  using unclosed_block_Some [of start None "slice start stop rs" u] length_slice [of start stop rs]
  by (auto simp: find_unclosed_def)

lemma small_limit: "3 \<le> effective_limit max_len \<Longrightarrow> 5 \<le> max_len"
  by (auto simp: effective_limit_def code_block_buffer_def max_def min_def split: if_splits)

lemma split_open_block_ok:
  assumes "5 \<le> max_len" "start + max_len \<le> length rs" "start \<le> u" "u + 3 \<le> length rs"
  shows "split_open_block max_len rs start msg_end u \<noteq> None"
proof -
  have eff: "start + effective_limit max_len \<le> length rs"
    using effective_limit_bounds [of max_len] assms(1,2) by linarith
  have inner: "start \<le> inner_limit max_len rs start" "inner_limit max_len rs start \<le> length rs"
    using assms(1,2) by (auto simp: inner_limit_def)
  have newline: "start \<le> b \<and> b \<le> length rs" if "find_last_newline rs start (inner_limit max_len rs start) 200 = Some b" for b
    using find_last_in_range_Some [OF that [unfolded find_last_newline_def]] inner by linarith
  have header: "go_slice u (case find_newline_from rs u of None \<Rightarrow> u + 3 | Some h \<Rightarrow> h) rs \<noteq> None"
    using assms(4) find_newline_from_Some [of rs u] by (auto simp: go_slice_def split: option.split)
  have natural: "plain_split max_len rs start n \<noteq> None" if "natural_end rs start u = Some n" for n
    using natural_end_Some [OF that] assms(4) eff by (intro plain_split_ok) linarith+
  have before: "plain_split max_len rs start u \<noteq> None" using assms(3,4) eff by (intro plain_split_ok) linarith+
  show ?thesis
    using header newline inner inject_split_ok [of start _ rs] natural before assms(1)
    unfolding split_open_block_def Let_def by (auto simp del: not_None_eq split: option.split)
qed

lemma split_step_ok:
  assumes "0 < max_len" "start + max_len < length rs"
  shows "split_step max_len rs start \<noteq> None"
proof -
  define stop where "stop = start + effective_limit max_len"
  define msg_end where "msg_end = (case natural_end rs start stop of Some n \<Rightarrow> n | None \<Rightarrow> stop)"
  have m: "start \<le> msg_end" "msg_end \<le> stop" "stop \<le> length rs"
    using natural_end_Some [of rs start stop] effective_limit_bounds [OF assms(1)] assms(2)
    by (auto simp: msg_end_def stop_def split: option.split)
  have plain: "plain_split max_len rs start msg_end \<noteq> None" using m by (intro plain_split_ok) (auto simp: stop_def)
  have closing: "plain_split max_len rs start c \<noteq> None" if c: "find_closing rs msg_end (length rs) = Some c" "c - start \<le> max_len" for c
  proof (rule plain_split_ok)
    obtain k where "c = msg_end + k + 3" using next_fence_Some [OF c(1) [unfolded find_closing_def]] by blast
    then show "start \<le> c" using m(1) by simp
  qed (use c(2) assms(2) m(3) in \<open>auto simp: stop_def\<close>)
  have block: "split_open_block max_len rs start msg_end u \<noteq> None" if "find_unclosed rs start msg_end = Some u" for u
  proof (rule split_open_block_ok)
    have "start \<le> u" "u + 3 \<le> msg_end" using find_unclosed_room [OF that] by blast+
    then show "start \<le> u" "u + 3 \<le> length rs" "5 \<le> max_len" using m by (auto simp: stop_def intro!: small_limit)
  qed (use assms(2) in simp)
  show ?thesis
    using plain closing block unfolding split_step_def Let_def stop_def [symmetric] msg_end_def [symmetric]
    by (auto simp del: not_None_eq split: option.split)
qed

lemma split_loop_no_panic: "0 < max_len \<Longrightarrow> split_loop fuel max_len rs start \<noteq> Split_Panic"
proof (induction fuel arbitrary: rs start)
  case (Suc fuel)
  have "cons_chunk c (split_loop fuel max_len rs' start') \<noteq> Split_Panic" for c rs' start'
    using Suc.IH [OF Suc.prems, of rs' start'] by (cases "split_loop fuel max_len rs' start'") simp_all
  moreover have "split_step max_len rs start \<noteq> None" if "\<not> length rs - start \<le> max_len"
    using that by (intro split_step_ok [OF Suc.prems]) linarith
  ultimately show ?case by (auto split: option.split)
qed simp

text \<open>
  C34: Whatever the message and the limit, no slice of the splitting is out of range, in any of its turns; and when
  the splitting ends, no chunk is longer than the channel's limit, the fences it adds included.
\<close>

theorem split_chunks_bounded:
  assumes "0 < max_len"
  shows "split_message fuel content max_len \<noteq> Split_Panic \<and>
    (\<forall>cs. split_message fuel content max_len = Chunks cs \<longrightarrow> (\<forall>c\<in>set cs. int (length c) \<le> max_len))"
proof -
  have m: "split_message fuel content max_len = split_loop fuel (nat max_len) (runes content) 0"
    using assms by (simp add: split_message_def)
  have "int (length c) \<le> max_len" if "split_message fuel content max_len = Chunks cs" "c \<in> set cs" for c cs
    using split_loop_length [OF that(1) [unfolded m] _ that(2)] assms by simp
  then show ?thesis using split_loop_no_panic [of "nat max_len"] assms unfolding m by simp
qed

section \<open>Text without fences\<close>

lemma no_fence_slice: "\<not> sublist fence rs \<Longrightarrow> \<not> sublist fence (slice i j rs)"
  by (metis slice_def sublist_take sublist_drop sublist_order.order_trans)

lemma unclosed_no_fence: "\<not> sublist fence xs \<Longrightarrow> unclosed_block i opened xs = opened"
proof (induction i opened xs rule: unclosed_block.induct)
  case (1 i opened x y z xs)
  have "sublist fence (fence @ xs)" by simp
  then have "\<not> (x = tick_rune \<and> y = tick_rune \<and> z = tick_rune)" using 1(3) by (auto simp: fence_def tick_rune_def)
  moreover have "\<not> sublist fence (y # z # xs)" using 1(3) by (auto simp: sublist_Cons_right)
  ultimately show ?case using 1(2) by (simp del: de_Morgan_conj)
qed auto

lemma dropWhile_drop: "drop (skip_blanks rs m) rs = dropWhile is_blank (drop m rs)"
  by (simp add: skip_blanks_def dropWhile_eq_drop add.commute)

lemma filter_dropWhile: "filter (\<lambda>r. \<not> P r) (dropWhile P xs) = filter (\<lambda>r. \<not> P r) xs"
  by (induction xs) auto

lemma split_loop_plain:
  assumes "0 < max_len" "\<not> sublist fence rs"
  shows "length rs - start < fuel \<Longrightarrow> \<exists>cs. split_loop fuel max_len rs start = Chunks cs \<and> [] \<notin> set cs \<and>
    subseq (concat cs) (drop start rs) \<and>
    filter (\<lambda>r. \<not> is_blank r) (concat cs) = filter (\<lambda>r. \<not> is_blank r) (drop start rs)"
proof (induction fuel arbitrary: start)
  case (Suc fuel)
  consider "start \<ge> length rs" | "start < length rs" "length rs - start \<le> max_len" | "max_len < length rs - start"
    by linarith
  then show ?case
  proof cases
    case 3
    define stop where "stop = start + effective_limit max_len"
    define m where "m = (case natural_end rs start stop of Some n \<Rightarrow> n | None \<Rightarrow> stop)"
    have m: "start < m" "m < length rs"
      using natural_end_Some [of rs start stop] effective_limit_bounds [OF assms(1)] 3
      by (auto simp: m_def stop_def split: option.split)
    have "find_unclosed rs start m = None"
      by (simp add: find_unclosed_def unclosed_no_fence [OF no_fence_slice [OF assms(2)]])
    then have step: "split_step max_len rs start = Some (slice start m rs, rs, skip_blanks rs m)"
      using m by (simp add: split_step_def Let_def stop_def [symmetric] m_def [symmetric] plain_split_def go_slice_def)
    have "skip_blanks rs m \<ge> m" by (simp add: skip_blanks_def)
    then have "length rs - skip_blanks rs m < fuel" using m 3 Suc.prems by linarith
    from Suc.IH [OF this] obtain cs where cs: "split_loop fuel max_len rs (skip_blanks rs m) = Chunks cs" "[] \<notin> set cs"
      "subseq (concat cs) (dropWhile is_blank (drop m rs))"
      "filter (\<lambda>r. \<not> is_blank r) (concat cs) = filter (\<lambda>r. \<not> is_blank r) (drop m rs)"
      by (auto simp: dropWhile_drop filter_dropWhile)
    have d: "drop start rs = slice start m rs @ drop m rs" using slice_append_drop [of start m rs] m by simp
    have "subseq (concat cs) (drop m rs)"
      using cs(3) subseq_order.trans suffix_imp_subseq suffix_dropWhile by metis
    moreover have "slice start m rs \<noteq> []" using m by (simp add: slice_def)
    ultimately show ?thesis using 3 cs unfolding d by (simp add: step list_emb_append_mono)
  qed simp_all
qed simp

text \<open>
  C32: A message without code fences is always split: the loop ends after at most one turn per rune, no
  chunk is empty or longer than the limit, and the chunks in order are the message, except for white
  space at the cuts.
\<close>

theorem split_plain_text:
  assumes "0 < max_len" "\<not> sublist fence (runes content)" "length (runes content) < fuel"
  shows "\<exists>cs. split_message fuel content max_len = Chunks cs \<and>
    list_all (\<lambda>c. c \<noteq> [] \<and> int (length c) \<le> max_len) cs \<and> subseq (concat cs) (runes content) \<and>
    filter (\<lambda>r. \<not> is_blank r) (concat cs) = filter (\<lambda>r. \<not> is_blank r) (runes content)"
  using split_loop_plain [OF _ assms(2), of "nat max_len" 0 fuel] split_loop_length [of fuel "nat max_len" "runes content" 0]
    assms(1,3) by (fastforce simp: split_message_def list_all_iff)

section \<open>A code block with a long first line\<close>

text \<open>The runes the loop keeps coming back to: a fence, a line \<open>h\<close> longer than the limit and without
  spaces or backticks, and anything behind it.\<close>

definition long_block :: "nat \<Rightarrow> rune list \<Rightarrow> rune list \<Rightarrow> bool" where
  "long_block max_len h rs \<longleftrightarrow> 10 \<le> max_len \<and> max_len \<le> length h \<and>
     (\<forall>r\<in>set h. r \<noteq> tick_rune \<and> \<not> is_space_rune r) \<and> (\<exists>t. rs = fence @ h @ nl_rune # t)"

lemma length_fence [simp]: "length fence = 3"
  by (simp add: fence_def)

lemma unclosed_no_tick: "tick_rune \<notin> set xs \<Longrightarrow> unclosed_block i opened xs = opened"
  by (induction i opened xs rule: unclosed_block.induct) auto

lemma find_last_none: "(\<And>j. start \<le> j \<Longrightarrow> j < stop \<Longrightarrow> \<not> P (rs ! j)) \<Longrightarrow> find_last_in_range P rs start stop w = None"
  by (auto simp: find_last_in_range_def find_eq_None_iff)

lemma trim_right_snoc: "\<not> P x \<Longrightarrow> trim_right_runes P (xs @ x # ys) = xs @ x # trim_right_runes P ys"
proof -
  assume "\<not> P x"
  then have "dropWhile P (rev ys @ [x] @ rev xs) = dropWhile P (rev ys) @ [x] @ rev xs"
    by (cases "\<forall>y\<in>set (rev ys). P y") (auto simp: dropWhile_append)
  then show ?thesis by (simp add: trim_right_runes_def)
qed

lemma space_facts: "\<not> is_space_rune tick_rune" "is_space_rune nl_rune" "is_space_rune 32" "is_space_rune 9"
  by (simp_all add: is_space_rune_def space_runes_def tick_rune_def nl_rune_def)

lemma long_block_nth:
  assumes "long_block max_len h rs" "j < 3 + length h"
  shows "\<not> is_space_rune (rs ! j)" "3 \<le> j \<Longrightarrow> rs ! j \<noteq> tick_rune"
proof -
  obtain t where rs: "rs = (fence @ h) @ nl_rune # t" using assms(1) by (auto simp: long_block_def)
  have nth: "rs ! j = (fence @ h) ! j" using assms(2) unfolding rs by (simp only: nth_append length_append length_fence if_True)
  have h: "r \<in> set h \<Longrightarrow> r \<noteq> tick_rune \<and> \<not> is_space_rune r" for r using assms(1) by (auto simp: long_block_def)
  have "(fence @ h) ! j \<in> set fence \<union> set h" using assms(2) by (metis fence_def length_append length_Cons
      list.size(3) nth_mem set_append numeral_3_eq_3)
  then show "\<not> is_space_rune (rs ! j)"
    unfolding nth using h space_facts(1) by (auto simp: fence_def tick_rune_def)
  assume "3 \<le> j"
  then have "(fence @ h) ! j \<in> set h" using assms(2) by (simp add: nth_append fence_def)
  then show "rs ! j \<noteq> tick_rune" unfolding nth using h by blast
qed

lemma long_block_step:
  assumes lb: "long_block max_len h rs"
  obtains c rs' where "split_step max_len rs 0 = Some (c, rs', 0)" "long_block max_len h rs'"
proof -
  define eff where "eff = effective_limit max_len"
  obtain t where rs: "rs = fence @ h @ nl_rune # t" and m: "10 \<le> max_len" "max_len \<le> length h"
    and h: "\<And>r. r \<in> set h \<Longrightarrow> r \<noteq> tick_rune \<and> \<not> is_space_rune r"
    using lb by (auto simp: long_block_def)
  have eff: "5 \<le> eff" "eff \<le> max_len"
    using m effective_limit_bounds [of max_len] by (auto simp: eff_def effective_limit_def)
  have none: "natural_end rs 0 stop = None" if "stop \<le> eff" for stop
  proof -
    have sp: "\<not> is_space_rune (rs ! j)" if "j < stop" for j
      using that long_block_nth(1) [OF lb, of j] \<open>stop \<le> eff\<close> eff m by linarith
    have "rs ! j \<noteq> nl_rune" "rs ! j \<noteq> 32" "rs ! j \<noteq> 9" if "j < stop" for j
      using sp [OF that] space_facts by metis+
    then show ?thesis
      by (simp add: natural_end_def find_last_newline_def find_last_space_def find_last_none behind_def)
  qed
  have s: "slice 0 eff rs = fence @ take (eff - 3) h" using eff m by (simp add: slice_def rs)
  have "tick_rune \<notin> set (take (eff - 3) h)" using h in_set_takeD by metis
  then have u: "find_unclosed rs 0 eff = Some 0"
    unfolding find_unclosed_def s by (simp add: fence_def tick_rune_def unclosed_no_tick [unfolded tick_rune_def])
  have c: "c > max_len" if "find_closing rs eff (length rs) = Some c" for c
  proof -
    from that obtain k where k: "c = eff + k + 3" "k < length (slice eff (length rs) rs)"
      "slice eff (length rs) rs ! k = tick_rune"
      using next_fence_Some unfolding find_closing_def by blast
    then have "rs ! (eff + k) = tick_rune" by (simp add: slice_def add.commute)
    then have "\<not> eff + k < 3 + length h" using long_block_nth(2) [OF lb, of "eff + k"] eff by linarith
    then show ?thesis using k(1) m by linarith
  qed
  have nl: "find_newline_from rs 0 = Some (3 + length h)"
  proof -
    have "[0..<length rs] = [0..<3 + length h] @ (3 + length h) # [Suc (3 + length h)..<length rs]"
      using upt_add_eq_append [of 0 "3 + length h" "length rs - (3 + length h)"] upt_conv_Cons [of "3 + length h" "length rs"]
      by (simp add: rs)
    moreover have "find (\<lambda>j. rs ! j = nl_rune) [0..<3 + length h] = None"
      using long_block_nth(1) [OF lb] space_facts(2) by (fastforce simp: find_eq_None_iff)
    moreover have "rs ! (3 + length h) = nl_rune" by (simp add: rs nth_append)
    ultimately show ?thesis by (simp add: find_newline_from_def find_append)
  qed
  have header: "trim_space_runes (slice 0 (3 + length h) rs) = fence @ h"
  proof -
    have "slice 0 (3 + length h) rs = fence @ h" by (simp add: slice_def rs)
    moreover have "dropWhile is_space_rune (fence @ h) = fence @ h"
      using space_facts(1) by (simp add: fence_def tick_rune_def)
    moreover obtain h' x where "h = h' @ [x]" using m by (cases h rule: rev_cases) auto
    then have "trim_right_runes is_space_rune (fence @ h) = fence @ h"
      using h trim_right_snoc [of is_space_rune x "fence @ h'" "[]"] by (simp add: trim_right_runes_def)
    ultimately show ?thesis by (simp add: trim_space_runes_def)
  qed
  have line: "go_slice 0 (3 + length h) rs = Some (slice 0 (3 + length h) rs)" by (simp add: go_slice_def rs fence_def)
  define rs' where "rs' = trim_space_runes ((fence @ h) @ nl_rune # drop (max_len - 5) rs)"
  have step: "split_step max_len rs 0 = inject_split (fence @ h) rs 0 (inner_limit max_len rs 0)"
  proof -
    have "split_open_block max_len rs 0 eff 0 = inject_split (fence @ h) rs 0 (inner_limit max_len rs 0)"
      using none [of 0] eff m header line by (simp add: split_open_block_def nl Let_def)
    then show ?thesis
      using none [of eff] u c eff m by (auto simp: split_step_def Let_def eff_def [symmetric] rs split: option.split)
  qed
  have "inner_limit max_len rs 0 = max_len - 5" using m by (simp add: inner_limit_def rs)
  moreover have cut: "go_slice 0 (max_len - 5) rs = Some (slice 0 (max_len - 5) rs)" using m by (simp add: go_slice_def rs)
  ultimately have "\<exists>c. split_step max_len rs 0 = Some (c, rs', 0)"
    using cut by (simp add: step inject_split_def rs'_def)
  moreover have "long_block max_len h rs'"
  proof -
    obtain h' x where h': "h = h' @ [x]" using m by (cases h rule: rev_cases) auto
    have "drop (max_len - 5) rs = drop (max_len - 5) (fence @ h') @ x # nl_rune # t"
      using m by (simp add: rs h')
    then have "rs' = trim_space_runes ((fence @ h @ nl_rune # drop (max_len - 5) (fence @ h')) @ x # nl_rune # t)"
      by (simp add: rs'_def)
    also have "\<dots> = trim_right_runes is_space_rune ((fence @ h @ nl_rune # drop (max_len - 5) (fence @ h')) @ x # nl_rune # t)"
      using space_facts(1) by (simp add: trim_space_runes_def fence_def tick_rune_def)
    also have "\<dots> = (fence @ h @ nl_rune # drop (max_len - 5) (fence @ h')) @ x # trim_right_runes is_space_rune (nl_rune # t)"
      by (rule trim_right_snoc) (use h h' in simp)
    finally show ?thesis using lb by (auto simp: long_block_def)
  qed
  ultimately show ?thesis using that by blast
qed

lemma long_block_loops: "long_block max_len h rs \<Longrightarrow> split_loop fuel max_len rs 0 = Out_Of_Fuel"
proof (induction fuel arbitrary: rs)
  case (Suc fuel)
  obtain c rs' where "split_step max_len rs 0 = Some (c, rs', 0)" "long_block max_len h rs'"
    using long_block_step [OF Suc.prems] by blast
  moreover have "max_len < length rs" "rs \<noteq> []" using Suc.prems by (auto simp: long_block_def fence_def)
  ultimately show ?case using Suc.IH by simp
qed simp

text \<open>
  C37: The loop does not end on a message that starts with a code block whose first line is as long as the
  limit and has no spaces (a block of minified JSON, say): whatever the fuel, it runs out, because the
  line is put back as the header of the rest in every turn and the rest never gets shorter.
\<close>

theorem split_never_ends:
  assumes "runes content = fence @ h @ nl_rune # t" "10 \<le> max_len" "max_len \<le> int (length h)"
    and "\<forall>r\<in>set h. r \<noteq> tick_rune \<and> \<not> is_space_rune r"
  shows "split_message fuel content max_len = Out_Of_Fuel"
  using long_block_loops [of "nat max_len" h "runes content" fuel] assms
  by (auto simp: split_message_def long_block_def le_nat_iff)

section \<open>Concrete messages\<close>

lemma runes_demo: "runes ''ab cd'' = [97, 98, 32, 99, 100]"
  by code_simp

theorem split_plain_text_witness:
  "\<exists>cs. split_message 6 ''ab cd'' 3 = Chunks cs \<and> list_all (\<lambda>c. c \<noteq> [] \<and> int (length c) \<le> 3) cs"
proof -
  have "\<not> sublist fence (runes ''ab cd'')" by (simp add: runes_demo fence_def sublist_Cons_right)
  moreover have "length (runes ''ab cd'') < 6" by (simp add: runes_demo)
  ultimately show ?thesis using split_plain_text [of 3 "''ab cd''" 6] by auto
qed

theorem split_chunks_bounded_witness:
  "split_message 6 (''```'' @ [CHR 0x0A] @ ''aaaaaaaaaaaa'') 10 \<noteq> Split_Panic \<and> int (length [97 :: rune, 98]) \<le> 3"
proof -
  have "split_message 6 ''ab cd'' 3 = Chunks [[97, 98], [99, 100]]" by code_simp
  then show ?thesis using split_chunks_bounded [of 3 6 "''ab cd''"]
      split_chunks_bounded [of 10 6 "''```'' @ [CHR 0x0A] @ ''aaaaaaaaaaaa''"] by simp
qed

theorem split_never_ends_witness: "split_message 1000 (''```aaaaaaaaaa'' @ [CHR 0x0A] @ ''```'') 10 = Out_Of_Fuel"
proof -
  have "runes (''```aaaaaaaaaa'' @ [CHR 0x0A] @ ''```'') = fence @ replicate 10 97 @ nl_rune # fence"
    by code_simp
  from split_never_ends [OF this] show ?thesis
    by (simp add: tick_rune_def is_space_rune_def space_runes_def)
qed

end
