(* ===== verification/Channel_Manager.thy ===== *)
theory Channel_Manager
  imports Split_Message Bus_Types Agent_Loop
begin

text \<open>
  Delivery of outgoing messages, \<open>src/pkg/channels/manager.go\<close> and \<open>errutil.go\<close>: the dispatcher that hands a
  message to the worker of its channel, the worker that splits and sends it with retries, and the
  bookkeeping of typing indicators, reactions and placeholders.  A concrete channel is a record of
  parameters; what it is asked to do, in order, is a log.
\<close>

section \<open>Errors of a channel\<close>

datatype send_error = Err_Not_Running | Err_Rate_Limit | Err_Temporary | Err_Send_Failed | Err_Other

definition classify_send_error :: "int \<Rightarrow> send_error" where
  "classify_send_error status =
    (if status = 429 then Err_Rate_Limit
     else if status \<ge> 500 then Err_Temporary
     else if status \<ge> 400 then Err_Send_Failed
     else Err_Other)"

definition classify_net_error :: "'e option \<Rightarrow> send_error option" where
  "classify_net_error err = map_option (\<lambda>_. Err_Temporary) err"

definition permanent :: "send_error \<Rightarrow> bool" where
  "permanent e \<longleftrightarrow> e = Err_Not_Running \<or> e = Err_Send_Failed"

section \<open>State\<close>

definition default_rate_limit :: rat where "default_rate_limit = 10"
definition max_send_retries :: nat where "max_send_retries = 3"
definition rate_limit_delay :: int where "rate_limit_delay = 1000"
definition base_backoff :: int where "base_backoff = 500"
definition max_backoff :: int where "max_backoff = 8000"
definition typing_stop_ttl :: int where "typing_stop_ttl = 300000"
definition placeholder_ttl :: int where "placeholder_ttl = 600000"

text \<open>A pending action: the identifier of a stop function, of an undo function or of a placeholder, with its time.\<close>

record manager_entry =
  nt_id :: string
  nt_created :: int

datatype manager_event =
    Called_Stop string
  | Called_Undo string
  | Edited string string string bool
  | Sent outbound_message "send_error option"
  | Slept int

text \<open>The three maps of the manager, how many calls and waits there have been, and the log.\<close>

record manager_state =
  mg_typing :: "(string \<times> manager_entry) list"
  mg_reactions :: "(string \<times> manager_entry) list"
  mg_placeholders :: "(string \<times> manager_entry) list"
  mg_calls :: nat
  mg_waits :: nat
  mg_log :: "manager_event list"

text \<open>
  A worker's channel: the outcome of the \<open>n\<close>-th call, the optional capabilities, the length limit (0
  without one), and whether the context is done at the \<open>n\<close>-th wait.
\<close>

record channel_driver =
  dr_send :: "nat \<Rightarrow> outbound_message \<Rightarrow> send_error option"
  dr_edit :: "(nat \<Rightarrow> string \<Rightarrow> string \<Rightarrow> string \<Rightarrow> bool) option"
  dr_placeholder :: "(nat \<Rightarrow> string \<Rightarrow> string option) option"
  dr_max_len :: int
  dr_canceled :: "nat \<Rightarrow> bool"

definition note_key :: "string \<Rightarrow> string \<Rightarrow> string" where
  "note_key channel chat = channel @ '':'' @ chat"

section \<open>Recording\<close>

definition record_placeholder :: "int \<Rightarrow> string \<Rightarrow> string \<Rightarrow> string \<Rightarrow> manager_state \<Rightarrow> manager_state" where
  "record_placeholder now channel chat ph m =
    m\<lparr>mg_placeholders := AList.update (note_key channel chat) \<lparr>nt_id = ph, nt_created = now\<rparr> (mg_placeholders m)\<rparr>"

definition record_typing_stop :: "int \<Rightarrow> string \<Rightarrow> string \<Rightarrow> string \<Rightarrow> manager_state \<Rightarrow> manager_state" where
  "record_typing_stop now channel chat stop m =
    (let key = note_key channel chat in
     m\<lparr>mg_typing := AList.update key \<lparr>nt_id = stop, nt_created = now\<rparr> (mg_typing m),
       mg_log := mg_log m @ (case map_of (mg_typing m) key of Some old \<Rightarrow> [Called_Stop (nt_id old)] | None \<Rightarrow> [])\<rparr>)"

definition record_reaction_undo :: "int \<Rightarrow> string \<Rightarrow> string \<Rightarrow> string \<Rightarrow> manager_state \<Rightarrow> manager_state" where
  "record_reaction_undo now channel chat undo m =
    m\<lparr>mg_reactions := AList.update (note_key channel chat) \<lparr>nt_id = undo, nt_created = now\<rparr> (mg_reactions m)\<rparr>"

text \<open>\<open>SendPlaceholder\<close> on the channel, if it is registered.\<close>

definition send_placeholder :: "int \<Rightarrow> channel_driver option \<Rightarrow> string \<Rightarrow> string \<Rightarrow> manager_state \<Rightarrow> bool \<times> manager_state" where
  "send_placeholder now ch channel chat m =
    (case ch of None \<Rightarrow> (False, m)
     | Some d \<Rightarrow>
        (case dr_placeholder d of None \<Rightarrow> (False, m)
         | Some send \<Rightarrow>
            let m1 = m\<lparr>mg_calls := mg_calls m + 1\<rparr> in
            (case send (mg_calls m) chat of
               None \<Rightarrow> (False, m1)
             | Some ph \<Rightarrow> if ph = [] then (False, m1) else (True, record_placeholder now channel chat ph m1))))"

section \<open>Sending\<close>

definition stop_typing :: "string \<Rightarrow> manager_state \<Rightarrow> manager_state" where
  "stop_typing key m = (case map_of (mg_typing m) key of
     None \<Rightarrow> m
   | Some n \<Rightarrow> m\<lparr>mg_typing := AList.delete key (mg_typing m), mg_log := mg_log m @ [Called_Stop (nt_id n)]\<rparr>)"

definition undo_reaction :: "string \<Rightarrow> manager_state \<Rightarrow> manager_state" where
  "undo_reaction key m = (case map_of (mg_reactions m) key of
     None \<Rightarrow> m
   | Some n \<Rightarrow> m\<lparr>mg_reactions := AList.delete key (mg_reactions m), mg_log := mg_log m @ [Called_Undo (nt_id n)]\<rparr>)"

definition edit_placeholder :: "channel_driver \<Rightarrow> string \<Rightarrow> outbound_message \<Rightarrow> manager_state \<Rightarrow> bool \<times> manager_state" where
  "edit_placeholder d key msg m = (case map_of (mg_placeholders m) key of
     None \<Rightarrow> (False, m)
   | Some n \<Rightarrow>
      (let m1 = m\<lparr>mg_placeholders := AList.delete key (mg_placeholders m)\<rparr> in
       case dr_edit d of
         Some edit \<Rightarrow>
          (if nt_id n = [] then (False, m1)
           else let ok = edit (mg_calls m1) (ob_chat_id msg) (nt_id n) (ob_content msg) in
             (ok, m1\<lparr>mg_calls := mg_calls m1 + 1,
                mg_log := mg_log m1 @ [Edited (ob_chat_id msg) (nt_id n) (ob_content msg) ok]\<rparr>))
       | None \<Rightarrow> (False, m1)))"

definition pre_send :: "channel_driver \<Rightarrow> string \<Rightarrow> outbound_message \<Rightarrow> manager_state \<Rightarrow> bool \<times> manager_state" where
  "pre_send d name msg m =
    (let key = note_key name (ob_chat_id msg)
     in edit_placeholder d key msg (undo_reaction key (stop_typing key m)))"

text \<open>A wait: \<open>True\<close> when the context is done instead.\<close>

definition wait :: "channel_driver \<Rightarrow> manager_state \<Rightarrow> bool \<times> manager_state" where
  "wait d m = (dr_canceled d (mg_waits m), m\<lparr>mg_waits := mg_waits m + 1\<rparr>)"

definition retry_delay :: "nat \<Rightarrow> send_error \<Rightarrow> int" where
  "retry_delay attempt e =
    (if e = Err_Rate_Limit then rate_limit_delay else min (base_backoff * 2 ^ attempt) max_backoff)"

datatype delivery = Delivered | Failed send_error | Canceled

definition call_send :: "channel_driver \<Rightarrow> outbound_message \<Rightarrow> manager_state \<Rightarrow> send_error option \<times> manager_state" where
  "call_send d msg m =
    (let r = dr_send d (mg_calls m) msg
     in (r, m\<lparr>mg_calls := mg_calls m + 1, mg_log := mg_log m @ [Sent msg r]\<rparr>))"

text \<open>The retry loop, from attempt number \<open>attempt\<close> with \<open>left\<close> more to come.\<close>

fun send_attempts :: "channel_driver \<Rightarrow> outbound_message \<Rightarrow> nat \<Rightarrow> nat \<Rightarrow> manager_state \<Rightarrow> delivery \<times> manager_state" where
  "send_attempts d msg attempt left m =
    (case call_send d msg m of
       (None, m1) \<Rightarrow> (Delivered, m1)
     | (Some e, m1) \<Rightarrow>
        if permanent e then (Failed e, m1)
        else (case left of
          0 \<Rightarrow> (Failed e, m1)
        | Suc left' \<Rightarrow>
           (let (stopped, m2) = wait d (m1\<lparr>mg_log := mg_log m1 @ [Slept (retry_delay attempt e)]\<rparr>)
            in if stopped then (Canceled, m2) else send_attempts d msg (Suc attempt) left' m2)))"

declare send_attempts.simps [simp del]

definition send_with_retry :: "channel_driver \<Rightarrow> string \<Rightarrow> outbound_message \<Rightarrow> manager_state \<Rightarrow> delivery \<times> manager_state" where
  "send_with_retry d name msg m =
    (let (stopped, m1) = wait d m in
     if stopped then (Canceled, m1)
     else let (edited, m2) = pre_send d name msg m1 in
       if edited then (Delivered, m2) else send_attempts d msg 0 max_send_retries m2)"

text \<open>The messages a worker sends for one message: its chunks, or itself.  \<open>None\<close>: splitting does not end.\<close>

definition worker_chunks :: "nat \<Rightarrow> channel_driver \<Rightarrow> outbound_message \<Rightarrow> outbound_message list option" where
  "worker_chunks fuel d msg =
    (if 0 < dr_max_len d \<and> dr_max_len d < int (rune_count (ob_content msg)) then
       (case split_message fuel (ob_content msg) (dr_max_len d) of
          Chunks cs \<Rightarrow> Some (map (\<lambda>c. msg\<lparr>ob_content := of_runes c\<rparr>) cs)
        | _ \<Rightarrow> None)
     else Some [msg])"

fun send_all :: "channel_driver \<Rightarrow> string \<Rightarrow> outbound_message list \<Rightarrow> manager_state \<Rightarrow> delivery list \<times> manager_state" where
  "send_all d name [] m = ([], m)"
| "send_all d name (c # cs) m =
    (let (r, m1) = send_with_retry d name c m; (rs, m2) = send_all d name cs m1 in (r # rs, m2))"

text \<open>One message of the worker's queue.\<close>

definition run_worker :: "nat \<Rightarrow> channel_driver \<Rightarrow> string \<Rightarrow> outbound_message \<Rightarrow> manager_state \<Rightarrow>
    (delivery list \<times> manager_state) option" where
  "run_worker fuel d name msg m = map_option (\<lambda>cs. send_all d name cs m) (worker_chunks fuel d msg)"

section \<open>Dispatching\<close>

datatype dispatch = Skip_Internal | Unknown_Channel | No_Worker | To_Worker channel_driver

text \<open>\<open>channels\<close> are the registered names, \<open>workers\<close> the workers of the channels that have started.\<close>

definition dispatch_target :: "string set \<Rightarrow> (string \<rightharpoonup> channel_driver) \<Rightarrow> string \<Rightarrow> dispatch" where
  "dispatch_target channels workers channel =
    (if is_internal_channel channel then Skip_Internal
     else if channel \<notin> channels then Unknown_Channel
     else case workers channel of None \<Rightarrow> No_Worker | Some d \<Rightarrow> To_Worker d)"

definition send_message :: "nat \<Rightarrow> string set \<Rightarrow> (string \<rightharpoonup> channel_driver) \<Rightarrow> outbound_message \<Rightarrow> manager_state \<Rightarrow>
    (string, delivery list \<times> manager_state) go_result option" where
  "send_message fuel channels workers msg m =
    (if ob_channel msg \<notin> channels then Some (Err (''channel '' @ ob_channel msg @ '' not found''))
     else case workers (ob_channel msg) of
       None \<Rightarrow> Some (Err (''channel '' @ ob_channel msg @ '' has no active worker''))
     | Some d \<Rightarrow> map_option Inr (run_worker fuel d (ob_channel msg) msg m))"

text \<open>The rate of a channel and the burst of its limiter.\<close>

definition channel_rate :: "string \<Rightarrow> rat" where
  "channel_rate name = (case map_of [(''telegram'', 20), (''discord'', 1), (''slack'', 1), (''matrix'', 2),
     (''line'', 10), (''qq'', 5), (''irc'', 2)] name of Some r \<Rightarrow> r | None \<Rightarrow> default_rate_limit)"

definition channel_burst :: "string \<Rightarrow> int" where
  "channel_burst name = max 1 \<lceil>channel_rate name / 2\<rceil>"

section \<open>The janitor\<close>

text \<open>One entry of a tick, read at \<open>now\<close> as \<open>n\<close>, and then taken out of the map whatever it is by then.\<close>

definition evict_typing :: "int \<Rightarrow> string \<Rightarrow> manager_entry \<Rightarrow> manager_state \<Rightarrow> manager_state" where
  "evict_typing now key n m =
    (if now - nt_created n > typing_stop_ttl \<and> map_of (mg_typing m) key \<noteq> None
     then m\<lparr>mg_typing := AList.delete key (mg_typing m), mg_log := mg_log m @ [Called_Stop (nt_id n)]\<rparr> else m)"

definition evict_reaction :: "int \<Rightarrow> string \<Rightarrow> manager_entry \<Rightarrow> manager_state \<Rightarrow> manager_state" where
  "evict_reaction now key n m =
    (if now - nt_created n > typing_stop_ttl \<and> map_of (mg_reactions m) key \<noteq> None
     then m\<lparr>mg_reactions := AList.delete key (mg_reactions m), mg_log := mg_log m @ [Called_Undo (nt_id n)]\<rparr> else m)"

definition evict_placeholder :: "int \<Rightarrow> string \<Rightarrow> manager_entry \<Rightarrow> manager_state \<Rightarrow> manager_state" where
  "evict_placeholder now key n m =
    (if now - nt_created n > placeholder_ttl
     then m\<lparr>mg_placeholders := AList.delete key (mg_placeholders m)\<rparr> else m)"

text \<open>A whole tick, when nothing else happens meanwhile.\<close>

definition janitor_tick :: "int \<Rightarrow> manager_state \<Rightarrow> manager_state" where
  "janitor_tick now m =
    (let m1 = foldl (\<lambda>m (k, n). evict_typing now k n m) m (mg_typing m);
         m2 = foldl (\<lambda>m (k, n). evict_reaction now k n m) m1 (mg_reactions m1)
     in foldl (\<lambda>m (k, n). evict_placeholder now k n m) m2 (mg_placeholders m2))"

end
