(* ===== verification/Utf8.thy ===== *)
theory Utf8
  imports Go_Strings
begin

text \<open>
  Go's conversions between strings and rune slices: \<open>[]rune(string(rs))\<close> is \<open>rs\<close> for valid runes, and the
  runes of any string are valid (bytes that are no UTF-8 decode to U+FFFD).
\<close>

lemma decode_two:
  "2 \<le> a \<Longrightarrow> a < 32 \<Longrightarrow> b < 64 \<Longrightarrow>
    decode_rune (map char_of [192 + a, 128 + b] @ s) = (a * 64 + b, 2)"
  by (simp add: decode_rune_def is_cont_def)

lemma decode_three:
  "a < 16 \<Longrightarrow> b < 64 \<Longrightarrow> c < 64 \<Longrightarrow> (a = 0 \<longrightarrow> 32 \<le> b) \<Longrightarrow> (a = 13 \<longrightarrow> b < 32) \<Longrightarrow>
    decode_rune (map char_of [224 + a, 128 + b, 128 + c] @ s) = (a * 4096 + b * 64 + c, 3)"
  by (simp add: decode_rune_def is_cont_def)

lemma decode_four:
  "a < 5 \<Longrightarrow> b < 64 \<Longrightarrow> c < 64 \<Longrightarrow> d < 64 \<Longrightarrow> (a = 0 \<longrightarrow> 16 \<le> b) \<Longrightarrow> (a = 4 \<longrightarrow> b < 16) \<Longrightarrow>
    decode_rune (map char_of [240 + a, 128 + b, 128 + c, 128 + d] @ s) = (a * 262144 + b * 4096 + c * 64 + d, 4)"
  by (simp add: decode_rune_def is_cont_def)

lemma base_64: "(r :: nat) = r div 4096 * 4096 + r div 64 mod 64 * 64 + r mod 64"
proof -
  have "r div 4096 = r div 64 div 64" by (simp add: div_mult2_eq [symmetric])
  moreover have "r = r div 64 * 64 + r mod 64" "r div 64 = r div 64 div 64 * 64 + r div 64 mod 64"
    by (simp_all add: div_mult_mod_eq)
  ultimately show ?thesis by linarith
qed

lemma base_64_4: "(r :: nat) = r div 262144 * 262144 + r div 4096 mod 64 * 4096 + r div 64 mod 64 * 64 + r mod 64"
proof -
  have "r div 262144 = r div 4096 div 64" by (simp add: div_mult2_eq [symmetric])
  moreover have "r div 4096 = r div 4096 div 64 * 64 + r div 4096 mod 64" by (simp add: div_mult_mod_eq)
  ultimately show ?thesis using base_64 [of r] by linarith
qed

lemma decode_encode_2:
  assumes "128 \<le> r" "r < 2048"
  shows "decode_rune (encode_rune r @ s) = (r, 2)"
proof -
  have "2 \<le> r div 64" "r div 64 < 32" "r mod 64 < 64" using assms by auto
  from decode_two [OF this, of s] show ?thesis
    using assms by (simp add: encode_rune_def valid_rune_def div_mult_mod_eq)
qed

lemma decode_encode_3:
  assumes "2048 \<le> r" "r < 65536" "valid_rune r"
  shows "decode_rune (encode_rune r @ s) = (r, 3)"
proof -
  let ?a = "r div 4096" and ?b = "r div 64 mod 64" and ?c = "r mod 64"
  note r = base_64 [of r]
  have l: "?a < 16" "?b < 64" "?c < 64" using assms(2) by auto
  have "?a = 0 \<longrightarrow> 32 \<le> ?b" using assms(1) r l by linarith
  moreover have "?a = 13 \<longrightarrow> ?b < 32" using assms(3) r l unfolding valid_rune_def by linarith
  ultimately have "decode_rune (map char_of [224 + ?a, 128 + ?b, 128 + ?c] @ s) = (r, 3)"
    using decode_three [OF l, of s] r by simp
  then show ?thesis using assms by (simp add: encode_rune_def)
qed

lemma decode_encode_4:
  assumes "65536 \<le> r" "r < 1114112"
  shows "decode_rune (encode_rune r @ s) = (r, 4)"
proof -
  let ?a = "r div 262144" and ?b = "r div 4096 mod 64" and ?c = "r div 64 mod 64" and ?d = "r mod 64"
  note r = base_64_4 [of r]
  have l: "?a < 5" "?b < 64" "?c < 64" "?d < 64" using assms(2) by auto
  have "?a = 0 \<longrightarrow> 16 \<le> ?b" using assms(1) r l by linarith
  moreover have "?a = 4 \<longrightarrow> ?b < 16" using assms(2) r l by linarith
  ultimately have "decode_rune (map char_of [240 + ?a, 128 + ?b, 128 + ?c, 128 + ?d] @ s) = (r, 4)"
    using decode_four [OF l, of s] r by simp
  then show ?thesis using assms by (simp add: encode_rune_def valid_rune_def)
qed

lemma encode_ascii: "r < 128 \<Longrightarrow> encode_rune r = [char_of r]"
  by (simp add: encode_rune_def valid_rune_def)

lemma decode_encode:
  assumes "valid_rune r"
  shows "decode_rune (encode_rune r @ s) = (r, length (encode_rune r))"
proof -
  consider "r < 128" | "128 \<le> r" "r < 2048" | "2048 \<le> r" "r < 65536" | "65536 \<le> r" "r < 1114112"
    using assms unfolding valid_rune_def by linarith
  then show ?thesis
  proof cases
    case 1
    then show ?thesis by (simp add: encode_ascii decode_ascii)
  next
    case 2
    then show ?thesis by (simp add: decode_encode_2) (simp add: encode_rune_def valid_rune_def)
  next
    case 3
    then show ?thesis using assms by (simp add: decode_encode_3) (simp add: encode_rune_def)
  next
    case 4
    then show ?thesis by (simp add: decode_encode_4) (simp add: encode_rune_def valid_rune_def)
  qed
qed

lemma encode_rune_not_Nil [simp]: "encode_rune r \<noteq> []"
  by (simp add: encode_rune_def Let_def)

lemma runes_of_runes: "list_all valid_rune rs \<Longrightarrow> runes (of_runes rs) = rs"
proof (induction rs)
  case (Cons r rs)
  then show ?case by (subst runes.simps) (simp add: decode_encode)
qed simp

lemma decode_valid: "valid_rune (fst (decode_rune s))"
proof -
  have e: "valid_rune rune_error" by (simp add: valid_rune_def)
  have one: "valid_rune b0" if "b0 < 128" for b0 using that by (simp add: valid_rune_def)
  have two: "valid_rune ((b0 - 192) * 64 + (b1 - 128))" if "b0 < 224" "is_cont b1" for b0 b1
    using that unfolding valid_rune_def is_cont_def by linarith
  have three: "valid_rune ((b0 - 224) * 4096 + (b1 - 128) * 64 + (b2 - 128))"
    if "b0 < 240" "is_cont b1" "is_cont b2" "b0 = 237 \<longrightarrow> b1 < 160" for b0 b1 b2
  proof (cases "b0 \<le> 237")
    case True
    with that show ?thesis unfolding valid_rune_def is_cont_def by linarith
  next
    case False
    with that show ?thesis unfolding valid_rune_def is_cont_def by linarith
  qed
  have four: "valid_rune ((b0 - 240) * 262144 + (b1 - 128) * 4096 + (b2 - 128) * 64 + (b3 - 128))"
    if "b0 < 245" "is_cont b1" "is_cont b2" "is_cont b3" "b0 = 240 \<longrightarrow> 144 \<le> b1" "b0 = 244 \<longrightarrow> b1 < 144" "240 \<le> b0"
    for b0 b1 b2 b3
    using that unfolding valid_rune_def is_cont_def by linarith
  show ?thesis
    unfolding decode_rune_def using e one two three four
    by (simp split: list.split)
qed

lemma runes_valid: "list_all valid_rune (runes s)"
proof (induction s rule: runes.induct)
  case (1 s)
  then show ?case by (subst runes.simps) (simp add: decode_valid)
qed

end
