(* ===== verification/Delivery.thy ===== *)
theory Delivery
  imports Channel_Manager Utf8 "HOL-Library.Multiset"
begin

text \<open>
  What the channel manager (\<open>Channel_Manager\<close>) guarantees: a message without code fences arrives complete
  and in order on a channel that is not permanently broken, a delivery takes a bounded number of attempts,
  and no typing indicator is left behind.  Reactions are left behind, and so is a typing indicator when the
  janitor's tick is interleaved with a new one.
\<close>

section \<open>Attempts\<close>

fun delivered_text :: "manager_event \<Rightarrow> (string \<times> string) option" where
  "delivered_text (Sent msg None) = Some (ob_chat_id msg, ob_content msg)"
| "delivered_text (Edited chat ph text True) = Some (chat, text)"
| "delivered_text e = None"

definition delivered :: "manager_event list \<Rightarrow> (string \<times> string) list" where
  "delivered evs = List.map_filter delivered_text evs"

lemma delivered_simps [simp]:
  "delivered [] = []"
  "delivered (e # evs) = (case delivered_text e of Some x \<Rightarrow> [x] | None \<Rightarrow> []) @ delivered evs"
  "delivered (evs @ evs') = delivered evs @ delivered evs'"
  by (simp_all add: delivered_def map_filter_def split: option.split)

fun is_attempt :: "manager_event \<Rightarrow> bool" where
  "is_attempt (Sent msg r) = True"
| "is_attempt e = False"

fun slept :: "manager_event \<Rightarrow> int" where
  "slept (Slept t) = t"
| "slept e = 0"

text \<open>What happened since \<open>m\<close>.\<close>

definition since :: "manager_state \<Rightarrow> manager_state \<Rightarrow> manager_event list" where
  "since m m' = drop (length (mg_log m)) (mg_log m')"

definition grows :: "manager_state \<Rightarrow> manager_state \<Rightarrow> bool" where
  "grows m m' \<longleftrightarrow> prefix (mg_log m) (mg_log m')"

lemma grows_since: "grows m m' \<Longrightarrow> mg_log m' = mg_log m @ since m m'"
  by (auto simp: grows_def since_def prefix_def)

lemma grows_trans: "grows a b \<Longrightarrow> grows b c \<Longrightarrow> grows a c"
  by (simp add: grows_def)

lemma since_append: "mg_log m' = mg_log m @ evs \<Longrightarrow> since m m' = evs"
  by (simp add: since_def)

text \<open>How long the remaining attempts sleep at most.\<close>

definition delay_bound :: "nat \<Rightarrow> int" where
  "delay_bound attempt = max 1000 (min (500 * 2 ^ attempt) 8000)"

lemma retry_delay_bound: "retry_delay attempt e \<le> delay_bound attempt"
  by (auto simp: retry_delay_def delay_bound_def rate_limit_delay_def base_backoff_def max_backoff_def)

lemma send_attempts_bounds:
  "\<exists>evs. mg_log (snd (send_attempts d msg attempt left m)) = mg_log m @ evs \<and>
     length (filter is_attempt evs) \<le> Suc left \<and>
     sum_list (map slept evs) \<le> (\<Sum>i<left. delay_bound (attempt + i))"
proof (induction left arbitrary: attempt m)
  case 0
  show ?case
    by (auto simp: send_attempts.simps [of d msg attempt 0] call_send_def Let_def split: option.split)
next
  case (Suc left)
  have pos: "0 \<le> (\<Sum>i<n. delay_bound (k + i))" for n k
    by (rule sum_nonneg) (simp add: delay_bound_def)
  let ?r = "dr_send d (mg_calls m) msg"
  show ?case
  proof (cases "\<exists>e. ?r = Some e \<and> \<not> permanent e")
    case False
    then show ?thesis using pos [where n = "Suc left" and k = attempt]
      by (auto simp: send_attempts.simps [of d msg attempt "Suc left"] call_send_def Let_def simp del: sum.lessThan_Suc split: option.split)
  next
    case True
    then obtain e where e: "?r = Some e" "\<not> permanent e" by blast
    let ?m = "m\<lparr>mg_calls := mg_calls m + 1, mg_log := mg_log m @ [Sent msg ?r, Slept (retry_delay attempt e)],
      mg_waits := mg_waits m + 1\<rparr>"
    have step: "send_attempts d msg attempt (Suc left) m =
        (if dr_canceled d (mg_waits m) then (Canceled, ?m) else send_attempts d msg (Suc attempt) left ?m)"
      using e by (simp add: send_attempts.simps [of d msg attempt "Suc left"] call_send_def wait_def Let_def)
    have sums: "(\<Sum>i<Suc left. delay_bound (attempt + i)) = delay_bound attempt + (\<Sum>i<left. delay_bound (Suc attempt + i))"
      by (simp add: sum.lessThan_Suc_shift del: sum.lessThan_Suc)
    note b = retry_delay_bound [of attempt e]
    show ?thesis
    proof (cases "dr_canceled d (mg_waits m)")
      case True
      then show ?thesis using b pos [where n = left and k = "Suc attempt"] by (simp add: step sums del: sum.lessThan_Suc)
    next
      case False
      obtain evs where evs: "mg_log (snd (send_attempts d msg (Suc attempt) left ?m)) = mg_log ?m @ evs"
        "length (filter is_attempt evs) \<le> Suc left"
        "sum_list (map slept evs) \<le> (\<Sum>i<left. delay_bound (Suc attempt + i))"
        using Suc.IH [where attempt = "Suc attempt" and m = ?m] by blast
      have "sum_list (map slept ([Sent msg ?r, Slept (retry_delay attempt e)] @ evs)) \<le>
          (\<Sum>i<Suc left. delay_bound (attempt + i))"
        using evs(3) b unfolding sums by simp
      moreover have "mg_log (snd (send_attempts d msg attempt (Suc left) m)) =
          mg_log m @ [Sent msg ?r, Slept (retry_delay attempt e)] @ evs"
        using evs(1) False by (simp add: step)
      ultimately show ?thesis using evs(2) by (intro exI conjI) (assumption, simp)
    qed
  qed
qed

lemma stop_typing_events: "\<exists>evs. mg_log (stop_typing key m) = mg_log m @ evs \<and> delivered evs = [] \<and>
    filter is_attempt evs = [] \<and> sum_list (map slept evs) = 0"
  by (auto simp: stop_typing_def split: option.split)

lemma undo_reaction_events: "\<exists>evs. mg_log (undo_reaction key m) = mg_log m @ evs \<and> delivered evs = [] \<and>
    filter is_attempt evs = [] \<and> sum_list (map slept evs) = 0"
  by (auto simp: undo_reaction_def split: option.split)

lemma edit_placeholder_events:
  "\<exists>evs. mg_log (snd (edit_placeholder d key msg m)) = mg_log m @ evs \<and>
    delivered evs = (if fst (edit_placeholder d key msg m) then [(ob_chat_id msg, ob_content msg)] else []) \<and>
    filter is_attempt evs = [] \<and> sum_list (map slept evs) = 0"
  by (auto simp: edit_placeholder_def Let_def split: option.split)

lemma pre_send_events:
  "\<exists>evs. mg_log (snd (pre_send d name msg m)) = mg_log m @ evs \<and>
    delivered evs = (if fst (pre_send d name msg m) then [(ob_chat_id msg, ob_content msg)] else []) \<and>
    filter is_attempt evs = [] \<and> sum_list (map slept evs) = 0"
proof -
  let ?k = "note_key name (ob_chat_id msg)"
  obtain e1 where "mg_log (stop_typing ?k m) = mg_log m @ e1" "delivered e1 = []" "filter is_attempt e1 = []"
    "sum_list (map slept e1) = 0" using stop_typing_events by blast
  moreover obtain e2 where "mg_log (undo_reaction ?k (stop_typing ?k m)) = mg_log (stop_typing ?k m) @ e2"
    "delivered e2 = []" "filter is_attempt e2 = []" "sum_list (map slept e2) = 0"
    using undo_reaction_events by blast
  moreover obtain e3 where "mg_log (snd (pre_send d name msg m)) = mg_log (undo_reaction ?k (stop_typing ?k m)) @ e3"
    "delivered e3 = (if fst (pre_send d name msg m) then [(ob_chat_id msg, ob_content msg)] else [])"
    "filter is_attempt e3 = []" "sum_list (map slept e3) = 0"
    unfolding pre_send_def Let_def using edit_placeholder_events by blast
  ultimately show ?thesis by (intro exI [of _ "e1 @ e2 @ e3"]) simp
qed

text \<open>
  Delivering one message asks the channel at most four times, or edits one placeholder instead, and
  waits at most four seconds between the attempts, whatever the channel answers.
\<close>

theorem delivery_bounded:
  "length (filter is_attempt (since m (snd (send_with_retry d name msg m)))) \<le> 4 \<and>
   sum_list (map slept (since m (snd (send_with_retry d name msg m)))) \<le> 4000"
proof (cases "dr_canceled d (mg_waits m)")
  case True
  then show ?thesis by (simp add: send_with_retry_def wait_def since_def)
next
  case False
  let ?m = "m\<lparr>mg_waits := mg_waits m + 1\<rparr>"
  let ?m2 = "snd (pre_send d name msg ?m)"
  obtain evs where e: "mg_log ?m2 = mg_log m @ evs" "filter is_attempt evs = []" "sum_list (map slept evs) = 0"
    using pre_send_events [of d name msg ?m] by auto
  obtain evs' where e': "mg_log (snd (send_attempts d msg 0 max_send_retries ?m2)) = mg_log ?m2 @ evs'"
    "length (filter is_attempt evs') \<le> 4" "sum_list (map slept evs') \<le> (\<Sum>i<3. delay_bound i)"
    using send_attempts_bounds [of d msg 0 max_send_retries ?m2] by (auto simp: max_send_retries_def)
  have "(\<Sum>i<3. delay_bound i) = 4000" by (simp add: delay_bound_def numeral_3_eq_3)
  with e e' False show ?thesis
    by (auto simp: send_with_retry_def wait_def case_prod_beta Let_def since_append)
qed

section \<open>Delivery\<close>

text \<open>
  A channel that is not broken: no permanent error, at most three failures in a row, and no shutdown.
\<close>

definition reliable :: "channel_driver \<Rightarrow> bool" where
  "reliable d \<longleftrightarrow> (\<forall>n msg. dr_send d n msg \<noteq> Some Err_Not_Running \<and> dr_send d n msg \<noteq> Some Err_Send_Failed) \<and>
     (\<forall>n msg. \<exists>k\<le>3. dr_send d (n + k) msg = None) \<and> (\<forall>n. \<not> dr_canceled d n)"

lemma send_attempts_delivers:
  assumes "reliable d" "\<exists>k\<le>left. dr_send d (mg_calls m + k) msg = None"
  shows "fst (send_attempts d msg attempt left m) = Delivered \<and>
    (\<exists>evs. mg_log (snd (send_attempts d msg attempt left m)) = mg_log m @ evs \<and>
      delivered evs = [(ob_chat_id msg, ob_content msg)])"
  using assms(2)
proof (induction left arbitrary: attempt m)
  case 0
  then show ?case by (simp add: send_attempts.simps [of d msg attempt 0] call_send_def Let_def)
next
  case (Suc left)
  show ?case
  proof (cases "dr_send d (mg_calls m) msg")
    case None
    then show ?thesis by (simp add: send_attempts.simps [of d msg attempt "Suc left"] call_send_def Let_def)
  next
    case (Some e)
    have e: "\<not> permanent e" "\<not> dr_canceled d (mg_waits m)"
      using Some assms(1) by (auto simp: reliable_def permanent_def)
    let ?m = "m\<lparr>mg_calls := mg_calls m + 1, mg_log := mg_log m @ [Sent msg (Some e), Slept (retry_delay attempt e)],
      mg_waits := mg_waits m + 1\<rparr>"
    have step: "send_attempts d msg attempt (Suc left) m = send_attempts d msg (Suc attempt) left ?m"
      using e Some by (simp add: send_attempts.simps [of d msg attempt "Suc left"] call_send_def wait_def Let_def)
    obtain k where k: "k \<le> Suc left" "dr_send d (mg_calls m + k) msg = None" using Suc.prems by blast
    with Some obtain j where "k = Suc j" by (cases k) auto
    with k have "\<exists>k\<le>left. dr_send d (mg_calls ?m + k) msg = None" by auto
    from Suc.IH [OF this, of "Suc attempt"] show ?thesis unfolding step by auto
  qed
qed

lemma send_with_retry_delivers:
  assumes "reliable d"
  shows "fst (send_with_retry d name msg m) = Delivered \<and>
    (\<exists>evs. mg_log (snd (send_with_retry d name msg m)) = mg_log m @ evs \<and>
      delivered evs = [(ob_chat_id msg, ob_content msg)])"
proof -
  let ?m = "m\<lparr>mg_waits := mg_waits m + 1\<rparr>"
  let ?m2 = "snd (pre_send d name msg ?m)"
  have w: "wait d m = (False, ?m)" using assms by (simp add: wait_def reliable_def)
  obtain evs where e: "mg_log ?m2 = mg_log m @ evs"
    "delivered evs = (if fst (pre_send d name msg ?m) then [(ob_chat_id msg, ob_content msg)] else [])"
    using pre_send_events [of d name msg ?m] by auto
  show ?thesis
  proof (cases "fst (pre_send d name msg ?m)")
    case True
    with e w show ?thesis by (simp add: send_with_retry_def case_prod_beta Let_def)
  next
    case False
    have "\<exists>k\<le>max_send_retries. dr_send d (mg_calls ?m2 + k) msg = None"
      using assms by (simp add: reliable_def max_send_retries_def)
    from send_attempts_delivers [OF assms this, of 0] e w False show ?thesis
      by (auto simp: send_with_retry_def case_prod_beta Let_def)
  qed
qed

lemma send_all_delivers:
  assumes "reliable d"
  shows "fst (send_all d name cs m) = replicate (length cs) Delivered \<and>
    (\<exists>evs. mg_log (snd (send_all d name cs m)) = mg_log m @ evs \<and>
      delivered evs = map (\<lambda>c. (ob_chat_id c, ob_content c)) cs)"
proof (induction cs arbitrary: m)
  case (Cons c cs)
  obtain r m1 where s: "send_with_retry d name c m = (r, m1)" by fastforce
  from send_with_retry_delivers [OF assms, of name c m] s Cons.IH [of m1] show ?case
    by (auto simp: case_prod_beta Let_def)
qed simp

lemma worker_chunks_plain:
  assumes "0 < dr_max_len d" "\<not> sublist fence (runes (ob_content msg))" "length (runes (ob_content msg)) < fuel"
  shows "\<exists>texts. worker_chunks fuel d msg = Some (map (\<lambda>t. msg\<lparr>ob_content := t\<rparr>) texts) \<and>
    list_all (\<lambda>t. int (rune_count t) \<le> dr_max_len d) texts \<and>
    filter (\<lambda>r. \<not> is_blank r) (concat (map runes texts)) = filter (\<lambda>r. \<not> is_blank r) (runes (ob_content msg))"
proof (cases "dr_max_len d < int (rune_count (ob_content msg))")
  case False
  then show ?thesis by (intro exI [of _ "[ob_content msg]"]) (simp add: worker_chunks_def)
next
  case True
  obtain cs where cs: "split_message fuel (ob_content msg) (dr_max_len d) = Chunks cs"
    "subseq (concat cs) (runes (ob_content msg))"
    "filter (\<lambda>r. \<not> is_blank r) (concat cs) = filter (\<lambda>r. \<not> is_blank r) (runes (ob_content msg))"
    using split_loop_plain [OF _ assms(2), of "nat (dr_max_len d)" 0 fuel] assms(1,3)
    by (auto simp: split_message_def)
  have len: "int (length c) \<le> dr_max_len d" if "c \<in> set cs" for c
    using split_loop_length [of fuel "nat (dr_max_len d)" "runes (ob_content msg)" 0 cs c] cs(1) assms(1) that
    by (simp add: split_message_def)
  have valid: "list_all valid_rune c" if "c \<in> set cs" for c
  proof -
    have "set c \<subseteq> set (runes (ob_content msg))"
    proof
      fix x assume "x \<in> set c"
      with that have "x \<in> set (concat cs)" by auto
      from list_emb_set [OF cs(2) this] show "x \<in> set (runes (ob_content msg))" by blast
    qed
    then show ?thesis using runes_valid [of "ob_content msg"] by (auto simp: list_all_iff)
  qed
  have rt: "map runes (map of_runes cs) = cs"
    using valid by (simp add: runes_of_runes map_idI)
  show ?thesis
  proof (intro exI conjI)
    show "worker_chunks fuel d msg = Some (map (\<lambda>t. msg\<lparr>ob_content := t\<rparr>) (map of_runes cs))"
      using True assms(1) cs(1) by (simp add: worker_chunks_def)
    show "list_all (\<lambda>t. int (rune_count t) \<le> dr_max_len d) (map of_runes cs)"
      using valid len by (simp add: list_all_iff rune_count_def runes_of_runes)
    show "filter (\<lambda>r. \<not> is_blank r) (concat (map runes (map of_runes cs))) =
        filter (\<lambda>r. \<not> is_blank r) (runes (ob_content msg))"
      unfolding rt by (rule cs(3))
  qed
qed

text \<open>
  C12: On a channel that is not broken a message without code fences arrives complete: the worker ends, every
  piece is delivered exactly once, in order, to the chat of the message and within the channel's limit, and
  the pieces together are the message except for white space at the cuts.
\<close>

theorem message_delivered:
  assumes "reliable d" "0 < dr_max_len d" "\<not> sublist fence (runes (ob_content msg))"
    "length (runes (ob_content msg)) < fuel"
  shows "\<exists>rs m' texts. run_worker fuel d name msg m = Some (rs, m') \<and> list_all (\<lambda>r. r = Delivered) rs \<and>
    delivered (since m m') = map (\<lambda>t. (ob_chat_id msg, t)) texts \<and>
    list_all (\<lambda>t. int (rune_count t) \<le> dr_max_len d) texts \<and>
    filter (\<lambda>r. \<not> is_blank r) (concat (map runes texts)) = filter (\<lambda>r. \<not> is_blank r) (runes (ob_content msg))"
proof -
  obtain texts where t: "worker_chunks fuel d msg = Some (map (\<lambda>t. msg\<lparr>ob_content := t\<rparr>) texts)"
    "list_all (\<lambda>t. int (rune_count t) \<le> dr_max_len d) texts"
    "filter (\<lambda>r. \<not> is_blank r) (concat (map runes texts)) = filter (\<lambda>r. \<not> is_blank r) (runes (ob_content msg))"
    using worker_chunks_plain [OF assms(2-4)] by blast
  let ?cs = "map (\<lambda>t. msg\<lparr>ob_content := t\<rparr>) texts"
  obtain rs m' where s: "send_all d name ?cs m = (rs, m')" by fastforce
  with send_all_delivers [OF assms(1), of name ?cs m] obtain evs where
    "rs = replicate (length texts) Delivered" "mg_log m' = mg_log m @ evs"
    "delivered evs = map (\<lambda>t. (ob_chat_id msg, t)) texts" by (auto simp: o_def)
  with s t show ?thesis
    by (intro exI [of _ rs] exI [of _ m'] exI [of _ texts])
      (simp add: run_worker_def since_append list_all_iff)
qed

section \<open>Typing indicators\<close>

text \<open>What the manager does to its bookkeeping, one operation at a time.\<close>

datatype manager_op =
    Op_Typing int string string string
  | Op_Reaction int string string string
  | Op_Placeholder int string string string
  | Op_Deliver channel_driver string outbound_message
  | Op_Tick int

fun apply_manager :: "manager_state \<Rightarrow> manager_op \<Rightarrow> manager_state" where
  "apply_manager m (Op_Typing now channel chat stop) = record_typing_stop now channel chat stop m"
| "apply_manager m (Op_Reaction now channel chat undo) = record_reaction_undo now channel chat undo m"
| "apply_manager m (Op_Placeholder now channel chat ph) = record_placeholder now channel chat ph m"
| "apply_manager m (Op_Deliver d name msg) = snd (send_with_retry d name msg m)"
| "apply_manager m (Op_Tick now) = janitor_tick now m"

definition new_manager_state :: manager_state where
  "new_manager_state = \<lparr>mg_typing = [], mg_reactions = [], mg_placeholders = [], mg_calls = 0, mg_waits = 0, mg_log = []\<rparr>"

definition started :: "manager_op list \<Rightarrow> string multiset" where
  "started ops = mset (List.map_filter (\<lambda>x. case x of Op_Typing now ch chat stop \<Rightarrow> Some stop | _ \<Rightarrow> None) ops)"

definition stopped :: "manager_event list \<Rightarrow> string multiset" where
  "stopped evs = mset (List.map_filter (\<lambda>x. case x of Called_Stop i \<Rightarrow> Some i | _ \<Rightarrow> None) evs)"

definition waiting :: "manager_state \<Rightarrow> string multiset" where
  "waiting m = mset (map (nt_id \<circ> snd) (mg_typing m))"

lemma stopped_simps [simp]:
  "stopped [] = {#}" "stopped (evs @ evs') = stopped evs + stopped evs'"
  "stopped (e # evs) = (case e of Called_Stop i \<Rightarrow> {#i#} | _ \<Rightarrow> {#}) + stopped evs"
  by (simp_all add: stopped_def map_filter_def split: manager_event.split)

lemma mset_delete:
  "distinct (map fst al) \<Longrightarrow> map_of al k = Some v \<Longrightarrow> mset al = add_mset (k, v) (mset (AList.delete k al))"
proof (induction al)
  case (Cons x al)
  show ?case
  proof (cases "fst x = k")
    case True
    with Cons.prems(1) have "AList.delete k al = al"
      by (intro delete_id) (auto simp: image_iff)
    with True Cons.prems(2) show ?thesis by (cases x) simp
  next
    case False
    with Cons show ?thesis by (cases x) auto
  qed
qed simp

lemma mset_update:
  "distinct (map fst al) \<Longrightarrow> mset (AList.update k v al) = add_mset (k, v) (mset (AList.delete k al))"
proof (induction al)
  case (Cons x al)
  show ?case
  proof (cases "fst x = k")
    case True
    with Cons.prems have "AList.delete k al = al"
      by (intro delete_id) (auto simp: image_iff)
    with True show ?thesis by (cases x) simp
  next
    case False
    with Cons show ?thesis by (cases x) auto
  qed
qed simp

text \<open>From \<open>m\<close> to \<open>m'\<close> the indicators \<open>new\<close> have been started: all are stopped or waiting.\<close>

definition accounts :: "manager_state \<Rightarrow> string multiset \<Rightarrow> manager_state \<Rightarrow> bool" where
  "accounts m new m' \<longleftrightarrow> distinct (map fst (mg_typing m')) \<and>
     stopped (mg_log m') + waiting m' = stopped (mg_log m) + waiting m + new"

lemma accounts_trans: "accounts a x b \<Longrightarrow> accounts b y c \<Longrightarrow> accounts a (x + y) c"
  by (simp add: accounts_def ac_simps)

text \<open>Steps that neither touch the typing map nor call a stop function.\<close>

lemma accounts_other:
  "distinct (map fst (mg_typing m)) \<Longrightarrow> mg_typing m' = mg_typing m \<Longrightarrow> mg_log m' = mg_log m @ evs \<Longrightarrow>
    stopped evs = {#} \<Longrightarrow> accounts m {#} m'"
  by (simp add: accounts_def waiting_def)

lemma waiting_take:
  assumes "distinct (map fst al)" "map_of al k = Some n"
  shows "mset (map (nt_id \<circ> snd) al) = add_mset (nt_id n) (mset (map (nt_id \<circ> snd) (AList.delete k al)))"
  using arg_cong [OF mset_delete [OF assms], of "image_mset (nt_id \<circ> snd)"] by simp

lemma accounts_record_typing:
  assumes "distinct (map fst (mg_typing m))"
  shows "accounts m {#stop#} (record_typing_stop now channel chat stop m)"
proof -
  let ?k = "note_key channel chat"
  have "mset (map (nt_id \<circ> snd) (AList.update ?k \<lparr>nt_id = stop, nt_created = now\<rparr> (mg_typing m))) =
      add_mset stop (mset (map (nt_id \<circ> snd) (AList.delete ?k (mg_typing m))))"
    using arg_cong [OF mset_update [OF assms], of "image_mset (nt_id \<circ> snd)"] by simp
  moreover have "AList.delete ?k (mg_typing m) = mg_typing m" if "map_of (mg_typing m) ?k = None"
    using that by (intro delete_id) (simp add: map_of_eq_None_iff)
  ultimately show ?thesis
    using assms waiting_take [OF assms, of ?k]
    by (cases "map_of (mg_typing m) ?k")
      (simp_all add: accounts_def record_typing_stop_def waiting_def Let_def distinct_update)
qed

lemma accounts_stop_typing:
  assumes "distinct (map fst (mg_typing m))"
  shows "accounts m {#} (stop_typing key m)"
  using assms waiting_take [OF assms, of key]
  by (cases "map_of (mg_typing m) key")
    (simp_all add: accounts_def stop_typing_def waiting_def distinct_delete)

lemma accounts_evict_typing:
  assumes "distinct (map fst (mg_typing m))" "map_of (mg_typing m) key = Some n"
  shows "accounts m {#} (evict_typing now key n m)"
  using assms waiting_take [OF assms]
  by (simp add: accounts_def evict_typing_def waiting_def distinct_delete)

lemma evict_typing_others: "k \<noteq> key \<Longrightarrow> map_of (mg_typing (evict_typing now key n m)) k = map_of (mg_typing m) k"
  by (simp add: evict_typing_def delete_conv')

lemma accounts_evict_all:
  "distinct (map fst (mg_typing m)) \<Longrightarrow> distinct (map fst es) \<Longrightarrow>
    (\<And>k n. (k, n) \<in> set es \<Longrightarrow> map_of (mg_typing m) k = Some n) \<Longrightarrow>
    accounts m {#} (foldl (\<lambda>m (k, n). evict_typing now k n m) m es)"
proof (induction es arbitrary: m)
  case Nil
  then show ?case by (simp add: accounts_def)
next
  case (Cons e es)
  obtain k n where e: "e = (k, n)" by fastforce
  let ?m = "evict_typing now k n m"
  have a: "accounts m {#} ?m"
    using Cons.prems(1,3) e by (intro accounts_evict_typing) auto
  have "map_of (mg_typing ?m) k' = Some n'" if "(k', n') \<in> set es" for k' n'
  proof -
    have "k' \<noteq> k" using that Cons.prems(2) e by force
    then show ?thesis using that Cons.prems(3) evict_typing_others by auto
  qed
  then have "accounts ?m {#} (foldl (\<lambda>m (k, n). evict_typing now k n m) ?m es)"
    using a Cons.prems(2) e by (intro Cons.IH) (auto simp: accounts_def)
  from accounts_trans [OF a this] show ?case by (simp add: e)
qed

lemma accounts_janitor:
  assumes "distinct (map fst (mg_typing m))"
  shows "accounts m {#} (janitor_tick now m)"
proof -
  have r: "\<exists>evs. mg_typing (foldl (\<lambda>m (k, n). evict_reaction now k n m) s es) = mg_typing s \<and>
      mg_log (foldl (\<lambda>m (k, n). evict_reaction now k n m) s es) = mg_log s @ evs \<and> stopped evs = {#}" for s es
  proof (induction es arbitrary: s)
    case (Cons e es)
    show ?case using Cons.IH [of "evict_reaction now (fst e) (snd e) s"]
      by (cases e) (auto simp: evict_reaction_def)
  qed simp
  have p: "mg_typing (foldl (\<lambda>m (k, n). evict_placeholder now k n m) s es) = mg_typing s \<and>
      mg_log (foldl (\<lambda>m (k, n). evict_placeholder now k n m) s es) = mg_log s" for s es
    by (induction es arbitrary: s) (auto simp: evict_placeholder_def)
  let ?m1 = "foldl (\<lambda>m (k, n). evict_typing now k n m) m (mg_typing m)"
  have a: "accounts m {#} ?m1"
    using assms by (intro accounts_evict_all) auto
  moreover have "accounts ?m1 {#} (janitor_tick now m)"
    using r [of ?m1 "mg_reactions ?m1"] p a unfolding janitor_tick_def Let_def
    by (elim exE) (rule accounts_other, auto simp: accounts_def)
  ultimately show ?thesis using accounts_trans by fastforce
qed

lemma send_attempts_keeps:
  "mg_typing (snd (send_attempts d msg attempt left m)) = mg_typing m \<and>
   (\<exists>evs. mg_log (snd (send_attempts d msg attempt left m)) = mg_log m @ evs \<and> stopped evs = {#})"
proof (induction left arbitrary: attempt m)
  case 0
  show ?case by (auto simp: send_attempts.simps [of d msg attempt 0] call_send_def Let_def split: option.split)
next
  case (Suc left)
  show ?case
    using Suc.IH [of "Suc attempt" "m\<lparr>mg_calls := mg_calls m + 1,
      mg_log := mg_log m @ [Sent msg (dr_send d (mg_calls m) msg),
        Slept (retry_delay attempt (the (dr_send d (mg_calls m) msg)))], mg_waits := mg_waits m + 1\<rparr>"]
    by (auto simp: send_attempts.simps [of d msg attempt "Suc left"] call_send_def wait_def Let_def split: option.split)
qed

lemma undo_edit_keeps:
  "mg_typing (undo_reaction key m) = mg_typing m"
  "\<exists>evs. mg_log (undo_reaction key m) = mg_log m @ evs \<and> stopped evs = {#}"
  "mg_typing (snd (edit_placeholder d key msg m)) = mg_typing m"
  "\<exists>evs. mg_log (snd (edit_placeholder d key msg m)) = mg_log m @ evs \<and> stopped evs = {#}"
  by (auto simp: undo_reaction_def edit_placeholder_def Let_def split: option.split)

lemma accounts_send:
  assumes "distinct (map fst (mg_typing m))"
  shows "accounts m {#} (snd (send_with_retry d name msg m))"
proof -
  let ?m = "m\<lparr>mg_waits := mg_waits m + 1\<rparr>" and ?k = "note_key name (ob_chat_id msg)"
  let ?s = "stop_typing ?k ?m"
  let ?u = "undo_reaction ?k ?s"
  let ?e = "snd (edit_placeholder d ?k msg ?u)"
  have w: "accounts m {#} ?m" using assms by (rule accounts_other [where evs = "[]"]) simp_all
  have s: "accounts m {#} ?s" using accounts_trans [OF w accounts_stop_typing [of ?m ?k]] assms by simp
  have u: "accounts ?s {#} ?u" using undo_edit_keeps(1,2) [of ?k ?s] s
    by (elim exE) (rule accounts_other, auto simp: accounts_def)
  have e: "accounts ?u {#} ?e" using undo_edit_keeps(3,4) [of d ?k msg ?u] u
    by (elim exE) (rule accounts_other, auto simp: accounts_def)
  have a: "accounts ?e {#} (snd (send_attempts d msg 0 max_send_retries ?e))"
    using send_attempts_keeps [of d msg 0 max_send_retries ?e] e
    by (elim conjE exE) (rule accounts_other, auto simp: accounts_def)
  have "accounts m {#} ?e" using accounts_trans [OF accounts_trans [OF s u] e] by simp
  with w accounts_trans [OF this a] show ?thesis
    by (simp add: send_with_retry_def wait_def pre_send_def case_prod_beta Let_def)
qed

lemma accounts_op:
  assumes "distinct (map fst (mg_typing m))"
  shows "accounts m (started [op]) (apply_manager m op)"
  using assms accounts_record_typing accounts_send accounts_janitor
  by (cases op)
    (auto simp: started_def map_filter_def record_reaction_undo_def record_placeholder_def
      intro!: accounts_other [where evs = "[]"])

lemma started_Cons: "started (op # ops) = started [op] + started ops"
  by (simp add: started_def map_filter_def split: option.split)

lemma accounts_ops:
  "distinct (map fst (mg_typing m)) \<Longrightarrow> accounts m (started ops) (foldl apply_manager m ops)"
proof (induction ops arbitrary: m)
  case Nil
  then show ?case by (simp add: accounts_def started_def map_filter_def)
next
  case (Cons op ops)
  have a: "accounts m (started [op]) (apply_manager m op)" by (rule accounts_op [OF Cons.prems])
  then have "distinct (map fst (mg_typing (apply_manager m op)))" by (simp add: accounts_def)
  from accounts_trans [OF a Cons.IH [OF this]] show ?case by (subst started_Cons) simp
qed

text \<open>
  The janitor does not see the manager at rest: it reads an entry, and takes whatever the map holds under its key at a
  later time; the others record and deliver in between.
\<close>

datatype janitor_action = Manager_Op manager_op | Janitor_Read int string | Janitor_Take

fun janitor_step :: "manager_state \<times> (int \<times> string \<times> manager_entry) option \<Rightarrow> janitor_action \<Rightarrow>
    manager_state \<times> (int \<times> string \<times> manager_entry) option" where
  "janitor_step (m, hand) (Manager_Op op) = (apply_manager m op, hand)"
| "janitor_step (m, hand) (Janitor_Read now key) = (m, map_option (\<lambda>n. (now, key, n)) (map_of (mg_typing m) key))"
| "janitor_step (m, hand) Janitor_Take =
    (case hand of None \<Rightarrow> (m, None) | Some (now, key, n) \<Rightarrow> (evict_typing now key n m, None))"

definition manager_ops :: "janitor_action list \<Rightarrow> manager_op list" where
  "manager_ops ss = List.map_filter (\<lambda>st. case st of Manager_Op op \<Rightarrow> Some op | _ \<Rightarrow> None) ss"

text \<open>No typing indicator is recorded for a chat while the janitor holds an entry of it.\<close>

fun undisturbed :: "string option \<Rightarrow> janitor_action list \<Rightarrow> bool" where
  "undisturbed held [] \<longleftrightarrow> True"
| "undisturbed held (Manager_Op op # ss) \<longleftrightarrow>
    (case op of Op_Typing now channel chat stop \<Rightarrow> held \<noteq> Some (note_key channel chat) | _ \<Rightarrow> True) \<and> undisturbed held ss"
| "undisturbed held (Janitor_Read now key # ss) \<longleftrightarrow> undisturbed (Some key) ss"
| "undisturbed held (Janitor_Take # ss) \<longleftrightarrow> undisturbed None ss"

text \<open>All that happens otherwise only takes indicators out of the map.\<close>

lemma map_le_delete: "map_of (AList.delete k al) \<subseteq>\<^sub>m map_of al"
  by (auto simp: map_le_def delete_conv')

lemma map_le_evicts: "map_of (mg_typing (foldl (\<lambda>m (k, n). evict_typing now k n m) m es)) \<subseteq>\<^sub>m map_of (mg_typing m)"
proof (induction es arbitrary: m)
  case (Cons e es)
  have "map_of (mg_typing (evict_typing now (fst e) (snd e) m)) \<subseteq>\<^sub>m map_of (mg_typing m)"
    by (simp add: evict_typing_def map_le_delete)
  then show ?case using Cons.IH [of "evict_typing now (fst e) (snd e) m"] map_le_trans by (fastforce simp: case_prod_beta)
qed simp

lemma tick_typing: "map_of (mg_typing (janitor_tick now m)) \<subseteq>\<^sub>m map_of (mg_typing m)"
proof -
  have r: "mg_typing (foldl (\<lambda>m (k, n). evict_reaction now k n m) s es) = mg_typing s" for s es
    by (induction es arbitrary: s) (auto simp: evict_reaction_def)
  have p: "mg_typing (foldl (\<lambda>m (k, n). evict_placeholder now k n m) s es) = mg_typing s" for s es
    by (induction es arbitrary: s) (auto simp: evict_placeholder_def)
  show ?thesis by (simp add: janitor_tick_def Let_def r p map_le_evicts)
qed

lemma send_typing: "map_of (mg_typing (snd (send_with_retry d name msg m))) \<subseteq>\<^sub>m map_of (mg_typing m)"
proof -
  have "map_of (mg_typing (stop_typing k (m\<lparr>mg_waits := n\<rparr>))) \<subseteq>\<^sub>m map_of (mg_typing m)" for k n
    by (simp add: stop_typing_def map_le_delete split: option.split)
  then show ?thesis
    using send_attempts_keeps [of d msg 0 max_send_retries] undo_edit_keeps(1,3)
    by (simp add: send_with_retry_def wait_def pre_send_def case_prod_beta Let_def)
qed

lemma op_keeps_entry:
  assumes "case op of Op_Typing now channel chat stop \<Rightarrow> key \<noteq> note_key channel chat | _ \<Rightarrow> True"
    and "map_of (mg_typing m) key \<in> {None, Some n}"
  shows "map_of (mg_typing (apply_manager m op)) key \<in> {None, Some n}"
proof -
  have le: "map_of al' key \<in> {None, Some n}" if "map_of al' \<subseteq>\<^sub>m map_of (mg_typing m)" for al'
    using that assms(2) by (cases "map_of al' key") (auto simp: map_le_def dom_def)
  show ?thesis
  proof (cases op)
    case (Op_Typing now channel chat stop)
    then show ?thesis using assms
      by (auto simp: record_typing_stop_def Let_def update_conv' split: option.split)
  next
    case (Op_Deliver d name msg)
    then show ?thesis using le [OF send_typing] by simp
  next
    case (Op_Tick now)
    then show ?thesis using le [OF tick_typing] by simp
  qed (use assms(2) in \<open>simp_all add: record_reaction_undo_def record_placeholder_def\<close>)
qed

lemma manager_ops_simps [simp]:
  "manager_ops [] = []" "manager_ops (Manager_Op op # ss) = op # manager_ops ss"
  "manager_ops (Janitor_Read now key # ss) = manager_ops ss" "manager_ops (Janitor_Take # ss) = manager_ops ss"
  by (simp_all add: manager_ops_def map_filter_simps)

lemma accounts_refl: "distinct (map fst (mg_typing m)) \<Longrightarrow> accounts m {#} m"
  by (simp add: accounts_def)

lemma accounts_take:
  assumes "distinct (map fst (mg_typing m))" "map_of (mg_typing m) key \<in> {None, Some n}"
  shows "accounts m {#} (evict_typing now key n m)"
proof (cases "map_of (mg_typing m) key")
  case None
  then show ?thesis using accounts_refl [OF assms(1)] by (simp add: evict_typing_def)
next
  case (Some n')
  then show ?thesis using accounts_evict_typing assms by auto
qed

lemma undisturbed_None: "undisturbed held ss \<Longrightarrow> undisturbed None ss"
  by (induction held ss rule: undisturbed.induct) (auto split: manager_op.splits)

lemma accounts_steps:
  assumes "distinct (map fst (mg_typing m))"
    and "undisturbed (map_option (\<lambda>(now, key, n). key) hand) ss"
    and "case hand of None \<Rightarrow> True | Some (now, key, n) \<Rightarrow> map_of (mg_typing m) key \<in> {None, Some n}"
  shows "accounts m (started (manager_ops ss)) (fst (foldl janitor_step (m, hand) ss))"
  using assms
proof (induction ss arbitrary: m hand)
  case Nil
  then show ?case using accounts_refl [of m] by (simp add: started_def)
next
  case (Cons st ss)
  show ?case
  proof (cases st)
    case (Manager_Op op)
    have a: "accounts m (started [op]) (apply_manager m op)" by (rule accounts_op [OF Cons.prems(1)])
    have kept: "map_of (mg_typing (apply_manager m op)) key \<in> {None, Some n}" if "hand = Some (now', key, n)" for now' key n
      using Cons.prems(2,3) that Manager_Op by (intro op_keeps_entry) (auto split: manager_op.split)
    have "accounts (apply_manager m op) (started (manager_ops ss))
        (fst (foldl janitor_step (apply_manager m op, hand) ss))"
    proof (rule Cons.IH)
      show "distinct (map fst (mg_typing (apply_manager m op)))" using a by (simp add: accounts_def)
      show "undisturbed (map_option (\<lambda>(now, key, n). key) hand) ss" using Cons.prems(2) Manager_Op by simp
      show "case hand of None \<Rightarrow> True | Some (now, key, n) \<Rightarrow> map_of (mg_typing (apply_manager m op)) key \<in> {None, Some n}"
        using kept by (auto split: option.split)
    qed
    from accounts_trans [OF a this] show ?thesis using Manager_Op by (simp add: started_Cons [of op "manager_ops ss"])
  next
    case (Janitor_Read now key)
    then show ?thesis using Cons.prems Cons.IH [of m "map_option (\<lambda>n. (now, key, n)) (map_of (mg_typing m) key)"]
      by (cases "map_of (mg_typing m) key") (auto intro: undisturbed_None)
  next
    case Janitor_Take
    show ?thesis
    proof (cases hand)
      case None
      then show ?thesis using Janitor_Take Cons.prems Cons.IH [of m None] by simp
    next
      case (Some h)
      obtain now key n where h: "h = (now, key, n)" by (cases h)
      have a: "accounts m {#} (evict_typing now key n m)" using Cons.prems(1,3) Some h by (intro accounts_take) auto
      then have "accounts (evict_typing now key n m) (started (manager_ops ss))
          (fst (foldl janitor_step (evict_typing now key n m, None) ss))"
        using Cons.prems(2) Janitor_Take by (intro Cons.IH) (auto simp: accounts_def)
      from accounts_trans [OF a this] show ?thesis using Janitor_Take Some h by simp
    qed
  qed
qed

text \<open>In any case the numbers agree: what is taken out is paid for by one call, if of the wrong function.\<close>

lemma counts_steps:
  assumes "distinct (map fst (mg_typing m))"
  shows "size (stopped (mg_log (fst (foldl janitor_step (m, hand) ss)))) + size (waiting (fst (foldl janitor_step (m, hand) ss))) =
    size (stopped (mg_log m)) + size (waiting m) + size (started (manager_ops ss))"
  using assms
proof (induction ss arbitrary: m hand)
  case Nil
  then show ?case by (simp add: started_def)
next
  case (Cons st ss)
  show ?case
  proof (cases st)
    case (Manager_Op op)
    have a: "accounts m (started [op]) (apply_manager m op)" by (rule accounts_op [OF Cons.prems])
    then have "size (stopped (mg_log (apply_manager m op))) + size (waiting (apply_manager m op)) =
        size (stopped (mg_log m)) + size (waiting m) + size (started [op])"
      unfolding accounts_def by (metis size_union)
    then show ?thesis using Cons.IH [of "apply_manager m op" hand] a Manager_Op
      by (simp add: accounts_def started_Cons [of op "manager_ops ss"])
  next
    case (Janitor_Read now key)
    then show ?thesis using Cons.IH [OF Cons.prems] by simp
  next
    case Janitor_Take
    have e: "distinct (map fst (mg_typing (evict_typing now key n m))) \<and>
        size (stopped (mg_log (evict_typing now key n m))) + size (waiting (evict_typing now key n m)) =
        size (stopped (mg_log m)) + size (waiting m)" for now key n
    proof (cases "now - nt_created n > typing_stop_ttl \<and> map_of (mg_typing m) key \<noteq> None")
      case True
      then obtain v where "map_of (mg_typing m) key = Some v" by blast
      from arg_cong [OF waiting_take [OF Cons.prems this], of size] True Cons.prems
      show ?thesis by (simp add: evict_typing_def waiting_def distinct_delete)
    next
      case False
      then show ?thesis using Cons.prems by (auto simp: evict_typing_def)
    qed
    then show ?thesis using Janitor_Take Cons.IH [OF Cons.prems] Cons.IH [OF conjunct1 [OF e]]
      by (cases hand) auto
  qed
qed



text \<open>
  The premise is needed.  An indicator that starts between the janitor's reading of the chat's expired entry and its
  taking leaves the map without being stopped, and the old one is stopped twice.
\<close>

theorem janitor_race_leaves_typing:
  fixes old new :: manager_entry
  defines "m0 \<equiv> new_manager_state\<lparr>mg_typing := [(''t:1'', \<lparr>nt_id = ''old'', nt_created = 0\<rparr>)]\<rparr>"
  defines "m1 \<equiv> record_typing_stop 300001 ''t'' ''1'' ''new'' m0"
  defines "m2 \<equiv> evict_typing 300001 ''t:1'' \<lparr>nt_id = ''old'', nt_created = 0\<rparr> m1"
  shows "mg_typing m2 = [] \<and> mg_log m2 = [Called_Stop ''old'', Called_Stop ''old'']"
  unfolding m2_def m1_def m0_def by code_simp

text \<open>
  Reactions and placeholders are overwritten, not undone: of two messages in a chat before the answer,
  the first keeps its reaction and its placeholder for good.
\<close>

theorem second_reaction_forgets_first:
  "let m = record_placeholder 2 ''t'' ''1'' ''p2'' (record_reaction_undo 2 ''t'' ''1'' ''u2''
         (record_placeholder 1 ''t'' ''1'' ''p1'' (record_reaction_undo 1 ''t'' ''1'' ''u1'' new_manager_state)))
   in mg_reactions m = [(''t:1'', \<lparr>nt_id = ''u2'', nt_created = 2\<rparr>)] \<and>
      mg_placeholders m = [(''t:1'', \<lparr>nt_id = ''p2'', nt_created = 2\<rparr>)] \<and> mg_log m = []"
  by code_simp

section \<open>A concrete channel\<close>

text \<open>Every second call is rate limited.\<close>

definition demo_driver :: channel_driver where
  "demo_driver = \<lparr>dr_send = (\<lambda>n msg. if even n then Some Err_Rate_Limit else None), dr_edit = Some (\<lambda>n c p t. n < 1),
     dr_placeholder = None, dr_max_len = 3, dr_canceled = (\<lambda>n. False)\<rparr>"

lemma demo_reliable: "reliable demo_driver"
proof -
  have "\<exists>k\<le>3. dr_send demo_driver (n + k) msg = None" for n msg
    by (rule exI [of _ "if even n then 1 else 0"]) (simp add: demo_driver_def)
  then show ?thesis by (auto simp: reliable_def demo_driver_def split: if_splits)
qed

definition demo_outbound :: outbound_message where
  "demo_outbound = \<lparr>ob_channel = ''t'', ob_chat_id = ''1'', ob_content = ''ab cd'', ob_reply_to = []\<rparr>"

theorem message_delivered_witness:
  "\<exists>rs m' texts. run_worker 6 demo_driver ''t'' demo_outbound new_manager_state = Some (rs, m') \<and>
     list_all (\<lambda>r. r = Delivered) rs \<and> delivered (since new_manager_state m') = map (\<lambda>t. (''1'', t)) texts"
proof -
  have "0 < dr_max_len demo_driver" "\<not> sublist fence (runes (ob_content demo_outbound))"
    "length (runes (ob_content demo_outbound)) < 6"
    by (simp_all add: demo_driver_def demo_outbound_def runes_demo fence_def sublist_Cons_right)
  from message_delivered [OF demo_reliable this] show ?thesis by (fastforce simp: demo_outbound_def)
qed

end
