(* ===== verification/Go_Filepath.thy ===== *)
theory Go_Filepath
  imports Go_Strings
begin

text \<open>
  Package path/filepath on Unix, as far as the program uses it: Clean, Join, Dir, Base, Abs, Rel, IsAbs and
  IsLocal.  They are lexical: a path is cut into its elements, and the result is written back.
\<close>

section \<open>Elements\<close>

fun split_slash :: "string \<Rightarrow> string list" where
  "split_slash [] = [[]]"
| "split_slash (c # s) = (if c = CHR ''/'' then [] # split_slash s
     else case split_slash s of [] \<Rightarrow> [[c]] | e # es \<Rightarrow> (c # e) # es)"

fun join_slash :: "string list \<Rightarrow> string" where
  "join_slash [] = []"
| "join_slash [e] = e"
| "join_slash (e # f # es) = e @ CHR ''/'' # join_slash (f # es)"

definition is_abs :: "string \<Rightarrow> bool" where
  "is_abs p \<longleftrightarrow> prefix ''/'' p"

text \<open>The elements kept so far, in order: a \<open>..\<close> removes the last one, or is kept or dropped at the start.\<close>

fun clean_elems :: "bool \<Rightarrow> string list \<Rightarrow> string list \<Rightarrow> string list" where
  "clean_elems rooted acc [] = acc"
| "clean_elems rooted acc (e # es) =
    (if e = [] \<or> e = ''.'' then clean_elems rooted acc es
     else if e = ''..'' then
       (if acc \<noteq> [] \<and> last acc \<noteq> ''..'' then clean_elems rooted (butlast acc) es
        else if rooted then clean_elems rooted acc es
        else clean_elems rooted (acc @ [e]) es)
     else clean_elems rooted (acc @ [e]) es)"

definition elems :: "string \<Rightarrow> string list" where
  "elems p = clean_elems (is_abs p) [] (split_slash p)"

definition path_of :: "bool \<Rightarrow> string list \<Rightarrow> string" where
  "path_of rooted es = (if rooted then CHR ''/'' # join_slash es else if es = [] then ''.'' else join_slash es)"

definition clean :: "string \<Rightarrow> string" where
  "clean p = path_of (is_abs p) (elems p)"

definition path_join :: "string \<Rightarrow> string \<Rightarrow> string" where
  "path_join a b = (if a = [] \<and> b = [] then [] else if a = [] then clean b else if b = [] then clean a
     else clean (a @ ''/'' @ b))"

text \<open>\<open>cwd\<close> is the absolute working directory of the process.\<close>

definition path_abs :: "string \<Rightarrow> string \<Rightarrow> string" where
  "path_abs cwd p = (if is_abs p then clean p else path_join cwd p)"

definition path_dir :: "string \<Rightarrow> string" where
  "path_dir p = (let dir = rev (dropWhile (\<lambda>c. c \<noteq> CHR ''/'') (rev p)) in clean dir)"

definition path_base :: "string \<Rightarrow> string" where
  "path_base p =
    (if p = [] then ''.''
     else let q = rev (dropWhile (\<lambda>c. c = CHR ''/'') (rev p)) in
       if q = [] then ''/'' else rev (takeWhile (\<lambda>c. c \<noteq> CHR ''/'') (rev q)))"

fun common_prefix :: "'a list \<Rightarrow> 'a list \<Rightarrow> 'a list" where
  "common_prefix (x # xs) (y # ys) = (if x = y then x # common_prefix xs ys else [])"
| "common_prefix xs ys = []"

text \<open>\<open>Rel\<close>; \<open>None\<close> is its error.\<close>

definition path_rel :: "string \<Rightarrow> string \<Rightarrow> string option" where
  "path_rel base targ =
    (let b = elems base; t = elems targ; n = length (common_prefix b t) in
     if clean base = clean targ then Some ''.''
     else if is_abs base \<noteq> is_abs targ then None
     else if drop n b \<noteq> [] \<and> hd (drop n b) = ''..'' then None
     else Some (join_slash (replicate (length b - n) ''..'' @ drop n t)))"

definition is_local :: "string \<Rightarrow> bool" where
  "is_local p \<longleftrightarrow> \<not> is_abs p \<and> p \<noteq> [] \<and>
     (let q = (if ''.'' \<in> set (split_slash p) \<or> ''..'' \<in> set (split_slash p) then clean p else p)
      in q \<noteq> ''..'' \<and> \<not> prefix ''../'' q)"

section \<open>Elements of a path\<close>

definition plain_elem :: "string \<Rightarrow> bool" where
  "plain_elem e \<longleftrightarrow> e \<noteq> [] \<and> e \<noteq> ''.'' \<and> e \<noteq> ''..'' \<and> CHR ''/'' \<notin> set e"

lemma split_slash_not_Nil [simp]: "split_slash p \<noteq> []"
  by (cases p) (auto split: list.split)

lemma split_slash_elems: "e \<in> set (split_slash p) \<Longrightarrow> CHR ''/'' \<notin> set e"
  by (induction p arbitrary: e) (auto split: if_splits list.splits)

lemma split_no_slash: "CHR ''/'' \<notin> set e \<Longrightarrow> split_slash e = [e]"
  by (induction e) auto

lemma split_slash_append: "CHR ''/'' \<notin> set e \<Longrightarrow> split_slash (e @ CHR ''/'' # p) = e # split_slash p"
  by (induction e) auto

lemma split_join: "es \<noteq> [] \<Longrightarrow> \<forall>e\<in>set es. CHR ''/'' \<notin> set e \<Longrightarrow> split_slash (join_slash es) = es"
  by (induction es rule: join_slash.induct) (auto simp: split_no_slash split_slash_append)

lemma clean_elems_append: "clean_elems r acc (es @ fs) = clean_elems r (clean_elems r acc es) fs"
  by (induction r acc es rule: clean_elems.induct) auto

lemma clean_elems_plain: "list_all plain_elem es \<Longrightarrow> clean_elems r acc es = acc @ es"
  by (induction es arbitrary: acc) (auto simp: plain_elem_def)

lemma clean_elems_rooted:
  "list_all plain_elem acc \<Longrightarrow> list_all (\<lambda>e. CHR ''/'' \<notin> set e) es \<Longrightarrow> list_all plain_elem (clean_elems True acc es)"
proof (induction es arbitrary: acc)
  case (Cons e es)
  have "list_all plain_elem (butlast acc)"
    using Cons.prems(1) by (meson in_set_butlastD list_all_iff)
  moreover have "plain_elem e" if "e \<noteq> []" "e \<noteq> ''.''" "e \<noteq> ''..''"
    using that Cons.prems by (simp add: plain_elem_def)
  ultimately show ?case using Cons by simp
qed simp

text \<open>A cleaned relative path is a number of \<open>..\<close> followed by plain elements.\<close>

definition dots_plain :: "string list \<Rightarrow> bool" where
  "dots_plain es \<longleftrightarrow> (\<exists>n fs. es = replicate n ''..'' @ fs \<and> list_all plain_elem fs)"

lemma elems_rooted: "is_abs p \<Longrightarrow> list_all plain_elem (elems p)"
  unfolding elems_def using clean_elems_rooted [of "[]" "split_slash p"] by (simp add: split_slash_elems list_all_iff)

lemma is_abs_Cons [simp]: "is_abs (c # s) \<longleftrightarrow> c = CHR ''/''" "\<not> is_abs []"
  by (auto simp: is_abs_def)

lemma elems_path_of: "list_all plain_elem es \<Longrightarrow> elems (path_of True es) = es"
proof -
  assume es: "list_all plain_elem es"
  have "split_slash (join_slash es) = (if es = [] then [[]] else es)"
    using es split_join [of es] by (auto simp: list_all_iff plain_elem_def)
  with es show ?thesis by (simp add: elems_def path_of_def clean_elems_plain)
qed

lemma elems_clean: "is_abs p \<Longrightarrow> elems (clean p) = elems p"
  by (simp add: clean_def elems_path_of elems_rooted)

lemma is_abs_clean: "is_abs p \<Longrightarrow> is_abs (clean p)"
  by (simp add: clean_def path_of_def)

lemma clean_idem: "is_abs p \<Longrightarrow> clean (clean p) = clean p"
proof -
  assume p: "is_abs p"
  have "clean (clean p) = path_of (is_abs (clean p)) (elems (clean p))" by (rule clean_def)
  also have "\<dots> = path_of (is_abs p) (elems p)" using p by (simp add: elems_clean is_abs_clean)
  finally show ?thesis by (simp only: clean_def)
qed

lemma clean_eq_iff: "is_abs p \<Longrightarrow> is_abs q \<Longrightarrow> clean p = clean q \<longleftrightarrow> elems p = elems q"
proof
  assume pq: "is_abs p" "is_abs q" and "clean p = clean q"
  then have "elems (clean p) = elems (clean q)" by simp
  with pq show "elems p = elems q" by (simp only: elems_clean)
qed (simp add: clean_def)

lemma common_prefix_append: "common_prefix (xs @ ys) (xs @ zs) = xs @ common_prefix ys zs"
  by (induction xs) auto

lemma common_prefix_same [simp]: "common_prefix xs xs = xs"
  by (induction xs) auto

lemma common_prefix_prefix: "length (common_prefix b t) = length b \<longleftrightarrow> prefix b t"
  by (induction b t rule: common_prefix.induct) auto

lemma length_common_prefix: "length (common_prefix b t) \<le> length b"
  by (induction b t rule: common_prefix.induct) auto

text \<open>\<open>isLocal(rel(base, targ))\<close> for absolute paths: the target's elements start with the base's.\<close>

lemma local_join:
  assumes "list_all plain_elem es" "es \<noteq> []"
  shows "is_local (join_slash es)"
proof -
  have s: "split_slash (join_slash es) = es" using assms by (intro split_join) (auto simp: list_all_iff plain_elem_def)
  have "join_slash es \<noteq> []" "\<not> is_abs (join_slash es)" "join_slash es \<noteq> ''..''" "\<not> prefix ''../'' (join_slash es)"
  proof -
    obtain e fs where es: "es = e # fs" using assms(2) by (cases es) auto
    have e: "plain_elem e" using assms(1) es by simp
    obtain c e' where c: "e = c # e'" using e by (cases e) (auto simp: plain_elem_def)
    have j: "join_slash es = e @ (if fs = [] then [] else CHR ''/'' # join_slash fs)"
      using es by (cases fs) auto
    show "join_slash es \<noteq> []" "\<not> is_abs (join_slash es)" using j c e by (auto simp: plain_elem_def)
    show "join_slash es \<noteq> ''..''"
    proof
      assume "join_slash es = ''..''"
      with s have "es = [''..'']" by simp
      with assms(1) show False by (simp add: plain_elem_def)
    qed
    show "\<not> prefix ''../'' (join_slash es)"
    proof
      assume "prefix ''../'' (join_slash es)"
      then obtain z where "join_slash es = ''..'' @ CHR ''/'' # z" by (auto simp: prefix_def)
      then have "split_slash (join_slash es) = ''..'' # split_slash z"
        by (simp add: split_slash_append)
      with s assms(1) show False by (auto simp: plain_elem_def)
    qed
  qed
  moreover have "''.'' \<notin> set es" "''..'' \<notin> set es" using assms(1) by (auto simp: list_all_iff plain_elem_def)
  ultimately show ?thesis by (simp add: is_local_def s)
qed

lemma clean_dots_step:
  "clean_elems False (replicate m ''..'') (''..'' # es) = clean_elems False (replicate m ''..'' @ [''..'']) es"
  by (cases "m = 0") simp_all

lemma clean_dots:
  "list_all plain_elem fs \<Longrightarrow>
    clean_elems False (replicate m ''..'') (replicate j ''..'' @ fs) = replicate (m + j) ''..'' @ fs"
proof (induction j arbitrary: m)
  case (Suc j)
  have "clean_elems False (replicate m ''..'') (replicate (Suc j) ''..'' @ fs) =
      clean_elems False (replicate m ''..'' @ [''..'']) (replicate j ''..'' @ fs)"
    by (simp only: replicate_Suc append_Cons clean_dots_step)
  also have "replicate m ''..'' @ [''..''] = replicate (Suc m) ''..''" by (simp add: replicate_append_same)
  finally show ?case
    using Suc.IH [OF Suc.prems, of "Suc m"] by (simp only: add_Suc add_Suc_right)
qed (simp add: clean_elems_plain)

text \<open>A path that starts by going up is not local.\<close>

lemma up_not_local:
  assumes "list_all plain_elem fs"
  shows "\<not> is_local (join_slash (replicate (Suc k) ''..'' @ fs))"
proof -
  define es where "es = replicate (Suc k) ''..'' @ fs"
  have "CHR ''/'' \<notin> set e" if "e \<in> set es" for e
  proof -
    from that consider "e = ''..''" | "e \<in> set fs" by (force simp: es_def)
    then show ?thesis
    proof cases
      case 2
      with assms have "plain_elem e" by (simp add: list_all_iff)
      then show ?thesis by (simp add: plain_elem_def)
    qed simp
  qed
  then have s: "split_slash (join_slash es) = es" by (intro split_join) (simp_all add: es_def)
  have c: "clean_elems False [] es = es" using clean_dots [OF assms, of 0 "Suc k"] by (simp add: es_def)
  have na: "\<not> is_abs (join_slash es)" and j: "join_slash es = ''..'' \<or> prefix ''../'' (join_slash es)"
    by (cases "replicate k ''..'' @ fs"; simp add: es_def)+
  have "clean (join_slash es) = join_slash es"
    using na by (simp add: clean_def elems_def s c path_of_def) (simp add: es_def)
  then have "\<not> is_local (join_slash es)"
    using j unfolding is_local_def s Let_def by (simp add: es_def)
  then show ?thesis by (simp add: es_def)
qed

text \<open>The way between two absolute paths, when they differ: up to the common ancestor, then down.\<close>

lemma path_rel_abs:
  assumes b: "is_abs base" and t: "is_abs targ" and ne: "elems base \<noteq> elems targ"
  defines "n \<equiv> length (common_prefix (elems base) (elems targ))"
  shows "path_rel base targ = Some (join_slash (replicate (length (elems base) - n) ''..'' @ drop n (elems targ)))"
proof -
  have "\<not> (drop n (elems base) \<noteq> [] \<and> hd (drop n (elems base)) = ''..'')"
    using elems_rooted [OF b] by (metis in_set_dropD list.set_sel(1) list_all_iff plain_elem_def)
  moreover have "clean base \<noteq> clean targ" using ne b t by (simp add: clean_eq_iff)
  ultimately show ?thesis using b t by (simp add: path_rel_def Let_def n_def)
qed

lemma path_rel_up:
  assumes b: "is_abs base" and t: "is_abs targ" and out: "\<not> prefix (elems base) (elems targ)"
  shows "\<exists>k fs. path_rel base targ = Some (join_slash (replicate (Suc k) ''..'' @ fs)) \<and> list_all plain_elem fs"
proof -
  let ?n = "length (common_prefix (elems base) (elems targ))"
  have "?n < length (elems base)"
    using out common_prefix_prefix [of "elems base" "elems targ"] length_common_prefix [of "elems base" "elems targ"] by linarith
  then obtain k where k: "length (elems base) - ?n = Suc k" by (cases "length (elems base) - ?n") auto
  have "list_all plain_elem (drop ?n (elems targ))"
    using elems_rooted [OF t] by (auto simp: list_all_iff dest: in_set_dropD)
  moreover have "elems base \<noteq> elems targ" using out by auto
  ultimately show ?thesis using path_rel_abs [OF b t] unfolding k by blast
qed

lemma local_rel_abs:
  assumes b: "is_abs base" and t: "is_abs targ"
  shows "(case path_rel base targ of Some r \<Rightarrow> is_local r | None \<Rightarrow> False) \<longleftrightarrow> prefix (elems base) (elems targ)"
proof (cases "prefix (elems base) (elems targ)")
  case False
  with path_rel_up [OF b t] up_not_local show ?thesis by fastforce
next
  case True
  then obtain zs where zs: "elems targ = elems base @ zs" by (auto simp: prefix_def)
  show ?thesis
  proof (cases "zs = []")
    case True
    then have "path_rel base targ = Some ''.''" using zs b t by (simp add: path_rel_def Let_def clean_eq_iff)
    moreover have "is_local ''.''" by code_simp
    ultimately show ?thesis using zs by simp
  next
    case False
    then have "path_rel base targ = Some (join_slash zs)"
      using path_rel_abs [OF b t] zs common_prefix_append [of "elems base" "[]" zs] by simp
    moreover have "list_all plain_elem zs" using elems_rooted [OF t] zs by simp
    ultimately show ?thesis using zs False by (simp add: local_join)
  qed
qed

text \<open>A way that does not start with \<open>..\<close> leads down.\<close>

lemma rel_not_up:
  assumes "is_abs base" "is_abs targ" "path_rel base targ = Some r" "\<not> prefix ''..'' r"
  shows "prefix (elems base) (elems targ)"
proof (rule ccontr)
  assume "\<not> prefix (elems base) (elems targ)"
  then obtain k fs where "r = join_slash (replicate (Suc k) ''..'' @ fs)" using path_rel_up assms(1-3) by fastforce
  then have "prefix ''..'' r" by (cases "replicate k ''..'' @ fs") auto
  with assms(4) show False ..
qed

section \<open>Joining a local path\<close>

lemma split_slash_join: "split_slash (a @ CHR ''/'' # b) = split_slash a @ split_slash b"
  by (induction a) (auto split: list.split)

lemma clean_elems_subset: "set (clean_elems r acc es) \<subseteq> set acc \<union> set es"
proof (induction es arbitrary: acc)
  case (Cons e es)
  have "set (butlast acc) \<subseteq> set acc" by (auto dest: in_set_butlastD)
  with Cons.IH [of acc] Cons.IH [of "butlast acc"] Cons.IH [of "acc @ [e]"] show ?case by auto
qed simp

text \<open>A leading \<open>..\<close> is never removed.\<close>

lemma clean_elems_up: "\<exists>fs. clean_elems False (''..'' # acc) es = ''..'' # fs"
proof (induction es arbitrary: acc)
  case (Cons e es)
  have "clean_elems False (''..'' # acc @ [e']) es = clean_elems False (''..'' # (acc @ [e'])) es" for e' by simp
  with Cons.IH show ?case by (auto simp: Cons.IH)
qed simp

lemma clean_elems_under:
  assumes "''..'' \<notin> set acc" "\<And>fs. clean_elems False acc es \<noteq> ''..'' # fs"
  shows "clean_elems True (ws @ acc) es = ws @ clean_elems False acc es"
  using assms
proof (induction es arbitrary: acc)
  case (Cons e es)
  consider (skip) "e = [] \<or> e = ''.''" | (up) "e = ''..''" | (plain) "e \<noteq> []" "e \<noteq> ''.''" "e \<noteq> ''..''" by blast
  then show ?case
  proof cases
    case skip
    with Cons show ?thesis by auto
  next
    case up
    show ?thesis
    proof (cases "acc = []")
      case True
      with clean_elems_up [of "[]" es] Cons.prems(2) up show ?thesis by auto
    next
      case False
      then have "last acc \<noteq> ''..''" using Cons.prems(1) last_in_set by metis
      moreover have "''..'' \<notin> set (butlast acc)" using Cons.prems(1) by (auto dest: in_set_butlastD)
      ultimately show ?thesis
        using False up Cons.IH [of "butlast acc"] Cons.prems(2) by (auto simp: butlast_append)
    qed
  next
    case plain
    with Cons.IH [of "acc @ [e]"] Cons.prems show ?thesis by auto
  qed
qed simp

lemma local_elems_not_up:
  assumes "is_local rel"
  shows "clean_elems False [] (split_slash rel) \<noteq> ''..'' # fs"
proof
  assume up: "clean_elems False [] (split_slash rel) = ''..'' # fs"
  then have "''..'' \<in> set (split_slash rel)"
    using clean_elems_subset [of False "[]" "split_slash rel"] by auto
  moreover have "clean rel = join_slash (''..'' # fs)"
    using assms up by (simp add: clean_def elems_def path_of_def is_local_def)
  then have "clean rel = ''..'' \<or> prefix ''../'' (clean rel)" by (cases fs) auto
  ultimately show False using assms by (auto simp: is_local_def)
qed

lemma path_join_inside:
  assumes ws: "is_abs ws" and rel: "is_local rel"
  shows "elems (path_join ws rel) = elems ws @ clean_elems False [] (split_slash rel)"
    and "is_abs (path_join ws rel)"
proof -
  have j: "path_join ws rel = clean (ws @ CHR ''/'' # rel)" and abs: "is_abs (ws @ CHR ''/'' # rel)"
    using ws rel by (cases ws; auto simp: path_join_def is_local_def)+
  show "is_abs (path_join ws rel)" using j abs by (simp add: is_abs_clean)
  have "elems (path_join ws rel) = clean_elems True (elems ws @ []) (split_slash rel)"
    using ws abs by (simp only: j elems_clean) (simp add: elems_def split_slash_join clean_elems_append)
  also have "\<dots> = elems ws @ clean_elems False [] (split_slash rel)"
    by (rule clean_elems_under) (use local_elems_not_up [OF rel] in auto)
  finally show "elems (path_join ws rel) = elems ws @ clean_elems False [] (split_slash rel)" .
qed

end
