(* ===== verification/Tool_Args.thy ===== *)
theory Tool_Args
  imports Complex_Main Messages Go_Strings
begin

text \<open>The arguments of a tool call: the type assertions on the values of the decoded JSON object.\<close>

definition str_arg :: "go_args \<Rightarrow> string \<Rightarrow> string option" where
  "str_arg args k = (case map_of args k of Some (Any_Str s) \<Rightarrow> Some s | _ \<Rightarrow> None)"

text \<open>The conversion of a float to \<open>int64\<close> (on amd64 out of range it is the smallest integer).\<close>

definition int64_of_float :: "rat \<Rightarrow> int" where
  "int64_of_float v =
    (let t = (if 0 \<le> v then \<lfloor>v\<rfloor> else \<lceil>v\<rceil>) in if - (2 ^ 63) \<le> t \<and> t < 2 ^ 63 then t else - (2 ^ 63))"

definition num_arg :: "go_args \<Rightarrow> string \<Rightarrow> rat option" where
  "num_arg args k = (case map_of args k of Some (Any_Num v) \<Rightarrow> Some v | _ \<Rightarrow> None)"

definition bool_arg :: "go_args \<Rightarrow> string \<Rightarrow> bool option" where
  "bool_arg args k = (case map_of args k of Some (Any_Bool b) \<Rightarrow> Some b | _ \<Rightarrow> None)"

end
