(* ===== verification/File_Sandbox.thy ===== *)
theory File_Sandbox
  imports Go_Filepath Tool_Args Tool_Registry Go_Regexp "HOL-Library.AList"
begin

text \<open>
  The file tools and their sandbox, \<open>src/pkg/tools/filesystem.go\<close> and \<open>edit.go\<close>: validation of paths, the
  three file systems (the host, the workspace, the workspace with a whitelist) and the tools that read,
  write, edit, append and list.  The disk maps absolute, cleaned paths to contents; which paths the operating
  system refuses (permissions, and links out of the workspace, which \<open>os.Root\<close> refuses) is part of it, and
  resolving symbolic links is a parameter.  A write replaces a file at once (temporary file and rename).
\<close>

section \<open>Validation\<close>

datatype eval_result = Resolved string | Not_Exist | Eval_Error string

record host_env =
  ho_cwd :: string
  ho_eval :: "string \<Rightarrow> eval_result"

definition is_within_workspace :: "string \<Rightarrow> string \<Rightarrow> bool" where
  "is_within_workspace candidate workspace =
    (case path_rel (clean workspace) (clean candidate) of None \<Rightarrow> False | Some rel \<Rightarrow> is_local rel)"

text \<open>The first existing ancestor; for an absolute path the elements of the path are fuel enough.\<close>

fun existing_ancestor :: "nat \<Rightarrow> host_env \<Rightarrow> string \<Rightarrow> eval_result" where
  "existing_ancestor 0 env current = Not_Exist"
| "existing_ancestor (Suc fuel) env current =
    (case ho_eval env current of
       Resolved r \<Rightarrow> Resolved r
     | Eval_Error e \<Rightarrow> Eval_Error e
     | Not_Exist \<Rightarrow> if path_dir current = current then Not_Exist
         else existing_ancestor fuel env (path_dir current))"

definition resolve_existing_ancestor :: "host_env \<Rightarrow> string \<Rightarrow> eval_result" where
  "resolve_existing_ancestor env path = existing_ancestor (Suc (length (elems path))) env (clean path)"

definition symlink_denied :: string where
  "symlink_denied = ''access denied: symlink resolves outside workspace''"

definition validate_path :: "host_env \<Rightarrow> string \<Rightarrow> string \<Rightarrow> bool \<Rightarrow> (string, string) go_result" where
  "validate_path env path workspace restrict =
    (if workspace = [] then Err ''workspace is not defined''
     else let abs_ws = path_abs (ho_cwd env) workspace;
              abs_path = (if is_abs path then clean path else path_abs (ho_cwd env) (path_join abs_ws path))
     in if \<not> restrict then Ok abs_path
        else if \<not> is_within_workspace abs_path abs_ws then Err ''access denied: path is outside the workspace''
        else let real_ws = (case ho_eval env abs_ws of Resolved r \<Rightarrow> r | _ \<Rightarrow> abs_ws)
        in case ho_eval env abs_path of
             Resolved r \<Rightarrow> if is_within_workspace r real_ws then Ok abs_path else Err symlink_denied
           | Not_Exist \<Rightarrow>
              (case resolve_existing_ancestor env (path_dir abs_path) of
                 Resolved r \<Rightarrow> if is_within_workspace r real_ws then Ok abs_path else Err symlink_denied
               | Not_Exist \<Rightarrow> Ok abs_path
               | Eval_Error e \<Rightarrow> Err (''failed to resolve path: '' @ e))
           | Eval_Error e \<Rightarrow> Err (''failed to resolve path: '' @ e))"

definition get_safe_rel_path :: "string \<Rightarrow> string \<Rightarrow> (string, string) go_result" where
  "get_safe_rel_path workspace path =
    (if workspace = [] then Err ''workspace is not defined''
     else let rel = clean path;
              r = (if is_abs rel then path_rel workspace rel else Some rel)
     in case r of
          None \<Rightarrow> Err ''failed to calculate relative path''
        | Some rel \<Rightarrow> if is_local rel then Ok rel else Err (''path escapes workspace: '' @ path))"

section \<open>File systems\<close>

text \<open>
  The files with their absolute paths, and the paths the operating system refuses.  A file below a file
  cannot be, and a directory is what has files below it.
\<close>

record disk =
  dk_files :: "(string \<times> string) list"
  dk_denied :: "string list"

definition inside :: "string \<Rightarrow> string \<Rightarrow> bool" where
  "inside dir p \<longleftrightarrow> prefix (elems dir) (elems p)"

definition in_the_way :: "disk \<Rightarrow> string \<Rightarrow> bool" where
  "in_the_way d p \<longleftrightarrow> list_ex (\<lambda>(q, _). q \<noteq> p \<and> (inside q p \<or> inside p q)) (dk_files d)"

datatype fs_error = Fs_Not_Exist string | Fs_Other string

fun fs_error_text :: "fs_error \<Rightarrow> string" where
  "fs_error_text (Fs_Not_Exist t) = t"
| "fs_error_text (Fs_Other t) = t"

text \<open>The whitelist holds the patterns as the predicates of their matches.\<close>

datatype file_backend = Host_Fs | Sandbox_Fs string | Whitelist_Fs string "(string \<Rightarrow> bool) list"

definition build_fs :: "string \<Rightarrow> bool \<Rightarrow> (string \<Rightarrow> bool) list \<Rightarrow> file_backend" where
  "build_fs workspace restrict patterns =
    (if \<not> restrict then Host_Fs else if patterns \<noteq> [] then Whitelist_Fs workspace patterns else Sandbox_Fs workspace)"

definition whitelist_matches :: "(string \<Rightarrow> bool) list \<Rightarrow> string \<Rightarrow> bool" where
  "whitelist_matches patterns path = list_ex (\<lambda>p. p path) patterns"

text \<open>Where an operation on a path goes: to the host's path, or below the workspace.  A path of the host is
  cleaned as text, which is where the system call goes when every directory the path names before a
  \<open>..\<close> exists and is no link; the operating system itself resolves \<open>dir/..\<close> through the directory.  Paths
  below the workspace are relative and cleaned by the code itself.\<close>

definition sandbox_target :: "string \<Rightarrow> string \<Rightarrow> string \<Rightarrow> (fs_error, string) go_result" where
  "sandbox_target cwd workspace path =
    (case get_safe_rel_path workspace path of
       Err e \<Rightarrow> Err (Fs_Other e)
     | Ok rel \<Rightarrow> Ok (path_join (path_abs cwd workspace) rel))"

fun fs_target :: "string \<Rightarrow> file_backend \<Rightarrow> string \<Rightarrow> (fs_error, string) go_result" where
  "fs_target cwd Host_Fs path = Ok (path_abs cwd path)"
| "fs_target cwd (Sandbox_Fs workspace) path = sandbox_target cwd workspace path"
| "fs_target cwd (Whitelist_Fs workspace patterns) path =
    (if whitelist_matches patterns path then Ok (path_abs cwd path) else sandbox_target cwd workspace path)"

definition disk_read :: "string \<Rightarrow> file_backend \<Rightarrow> disk \<Rightarrow> string \<Rightarrow> (fs_error, string) go_result" where
  "disk_read cwd fs d path =
    (case fs_target cwd fs path of
       Err e \<Rightarrow> Err e
     | Ok p \<Rightarrow> if p \<in> set (dk_denied d) then Err (Fs_Other ''failed to read file: access denied'')
         else if in_the_way d p then Err (Fs_Other ''failed to read file'')
         else case map_of (dk_files d) p of
           None \<Rightarrow> Err (Fs_Not_Exist ''failed to read file: file not found'')
         | Some c \<Rightarrow> Ok c)"

definition disk_write :: "string \<Rightarrow> file_backend \<Rightarrow> disk \<Rightarrow> string \<Rightarrow> string \<Rightarrow> (fs_error, disk) go_result" where
  "disk_write cwd fs d path data =
    (case fs_target cwd fs path of
       Err e \<Rightarrow> Err e
     | Ok p \<Rightarrow> if p \<in> set (dk_denied d) \<or> in_the_way d p then Err (Fs_Other ''failed to write file'')
         else Ok (d\<lparr>dk_files := AList.update p data (dk_files d)\<rparr>))"

section \<open>Tools\<close>

text \<open>The operations of a file system a tool uses, on a state.\<close>

record 'd file_ops =
  fo_read :: "'d \<Rightarrow> string \<Rightarrow> (fs_error, string) go_result"
  fo_write :: "'d \<Rightarrow> string \<Rightarrow> string \<Rightarrow> (fs_error, 'd) go_result"

definition backend_ops :: "string \<Rightarrow> file_backend \<Rightarrow> disk file_ops" where
  "backend_ops cwd fs = \<lparr>fo_read = disk_read cwd fs, fo_write = disk_write cwd fs\<rparr>"

definition replace_edit_content :: "string \<Rightarrow> string \<Rightarrow> string \<Rightarrow> (string, string) go_result" where
  "replace_edit_content text old new =
    (if \<not> str_contains text old then Err ''old_text not found in file. Make sure it matches exactly''
     else let count = str_count text old in
       if 1 < count then Err (''old_text appears '' @ itoa (int count) @ '' times. Please provide more context to make it unique'')
       else Ok (replace_first text old new))"

definition edit_file :: "'d file_ops \<Rightarrow> 'd \<Rightarrow> string \<Rightarrow> string \<Rightarrow> string \<Rightarrow> (string, 'd) go_result" where
  "edit_file ops d path old new =
    (case fo_read ops d path of
       Err e \<Rightarrow> Err (fs_error_text e)
     | Ok text \<Rightarrow>
        (case replace_edit_content text old new of
           Err e \<Rightarrow> Err e
         | Ok text' \<Rightarrow> (case fo_write ops d path text' of Err e \<Rightarrow> Err (fs_error_text e) | Ok d' \<Rightarrow> Ok d')))"

definition append_file :: "'d file_ops \<Rightarrow> 'd \<Rightarrow> string \<Rightarrow> string \<Rightarrow> (string, 'd) go_result" where
  "append_file ops d path text =
    (let write = (\<lambda>old. case fo_write ops d path (old @ text) of Err e \<Rightarrow> Err (fs_error_text e) | Ok d' \<Rightarrow> Ok d')
     in case fo_read ops d path of
          Err (Fs_Other e) \<Rightarrow> Err e
        | Err (Fs_Not_Exist e) \<Rightarrow> write []
        | Ok old \<Rightarrow> write old)"

text \<open>The result of a tool that changes the disk, and the disk after it.\<close>

definition tool_outcome :: "'d \<Rightarrow> string \<Rightarrow> (string, 'd) go_result \<Rightarrow> tool_result \<times> 'd" where
  "tool_outcome d said r = (case r of Err e \<Rightarrow> (error_result e, d) | Ok d' \<Rightarrow> (silent_result said, d'))"

definition write_file_execute :: "'d file_ops \<Rightarrow> go_args \<Rightarrow> 'd \<Rightarrow> tool_result \<times> 'd" where
  "write_file_execute ops args d =
    (case (str_arg args ''path'', str_arg args ''content'') of
       (None, _) \<Rightarrow> (error_result ''path is required'', d)
     | (Some p, None) \<Rightarrow> (error_result ''content is required'', d)
     | (Some p, Some c) \<Rightarrow> tool_outcome d (''File written: '' @ p)
         (case fo_write ops d p c of Err e \<Rightarrow> Err (fs_error_text e) | Ok d' \<Rightarrow> Ok d'))"

definition edit_file_execute :: "'d file_ops \<Rightarrow> go_args \<Rightarrow> 'd \<Rightarrow> tool_result \<times> 'd" where
  "edit_file_execute ops args d =
    (case (str_arg args ''path'', str_arg args ''old_text'', str_arg args ''new_text'') of
       (None, _, _) \<Rightarrow> (error_result ''path is required'', d)
     | (Some p, None, _) \<Rightarrow> (error_result ''old_text is required'', d)
     | (Some p, Some old, None) \<Rightarrow> (error_result ''new_text is required'', d)
     | (Some p, Some old, Some new) \<Rightarrow> tool_outcome d (''File edited: '' @ p) (edit_file ops d p old new))"

definition append_file_execute :: "'d file_ops \<Rightarrow> go_args \<Rightarrow> 'd \<Rightarrow> tool_result \<times> 'd" where
  "append_file_execute ops args d =
    (case (str_arg args ''path'', str_arg args ''content'') of
       (None, _) \<Rightarrow> (error_result ''path is required'', d)
     | (Some p, None) \<Rightarrow> (error_result ''content is required'', d)
     | (Some p, Some c) \<Rightarrow> tool_outcome d (''Appended to '' @ p) (append_file ops d p c))"

section \<open>Reading by pages\<close>

definition max_read_file_size :: int where "max_read_file_size = 64 * 1024"

definition new_read_max :: "int \<Rightarrow> int" where
  "new_read_max max_read_file_size' = (if max_read_file_size' \<le> 0 then max_read_file_size else max_read_file_size')"

definition max_int64 :: int where "max_int64 = 2 ^ 63 - 1"

text \<open>\<open>strconv.ParseInt(s, 10, 64)\<close>: an optional sign and digits, in range.\<close>

definition parse_int64 :: "string \<Rightarrow> int option" where
  "parse_int64 s =
    (let (neg, ds) = (if prefix ''-'' s then (True, drop 1 s) else if prefix ''+'' s then (False, drop 1 s) else (False, s));
         n = foldl (\<lambda>n c. n * 10 + (int (byte c) - 48)) 0 ds; v = (if neg then - n else n)
     in if ds = [] \<or> \<not> list_all (\<lambda>c. 48 \<le> byte c \<and> byte c \<le> 57) ds then None
        else if - max_int64 - 1 \<le> v \<and> v \<le> max_int64 then Some v else None)"

text \<open>
  A JSON number is a float: the comparison with \<open>MaxInt64\<close> is one with \<open>2^63\<close>, and the conversion of
  \<open>2^63\<close> itself yields the smallest integer (on amd64).  Error texts end at the name of the argument.
\<close>

definition get_int64_arg :: "go_args \<Rightarrow> string \<Rightarrow> int \<Rightarrow> (string, int) go_result" where
  "get_int64_arg args key dflt =
    (case map_of args key of
       None \<Rightarrow> Ok dflt
     | Some (Any_Num v) \<Rightarrow>
        (if v \<noteq> of_int \<lfloor>v\<rfloor> then Err (key @ '' must be an integer'')
         else if v > 2 ^ 63 \<or> v < - (2 ^ 63) then Err (key @ '' overflows int64'')
         else if v = 2 ^ 63 then Ok (- max_int64 - 1)
         else Ok \<lfloor>v\<rfloor>)
     | Some (Any_Int n) \<Rightarrow> Ok n
     | Some (Any_Str s) \<Rightarrow>
        (case parse_int64 s of Some n \<Rightarrow> Ok n | None \<Rightarrow> Err (''invalid integer format for '' @ key))
     | Some _ \<Rightarrow> Err (''unsupported type for '' @ key))"

text \<open>A page: the data, and whether the extra byte read behind it exists.\<close>

definition read_page :: "string \<Rightarrow> int \<Rightarrow> int \<Rightarrow> string \<times> bool" where
  "read_page text offset len =
    (let probe = take (nat (len + 1)) (drop (nat offset) text)
     in (take (nat len) probe, int (length probe) > len))"

definition page_header :: "string \<Rightarrow> string \<Rightarrow> int \<Rightarrow> string \<times> bool \<Rightarrow> string" where
  "page_header path text offset = (\<lambda>(data, more).
     let read_end = offset + int (length data) in
     ''[file: '' @ path_base path @ '' | total: '' @ itoa (int (length text)) @ '' bytes | read: bytes '' @
     itoa offset @ ''-'' @ itoa (read_end - 1) @ '']'' @ [CHR 0x0A] @
     (if more then ''[TRUNCATED - file has more content. Call read_file again with offset='' @ itoa read_end @
        '' to continue.]''
      else ''[END OF FILE - no further content.]''))"

definition disk_open :: "string \<Rightarrow> file_backend \<Rightarrow> disk \<Rightarrow> string \<Rightarrow> (fs_error, string) go_result" where
  "disk_open cwd fs d path =
    (case fs_target cwd fs path of
       Err e \<Rightarrow> Err e
     | Ok p \<Rightarrow> if p \<in> set (dk_denied d) then Err (Fs_Other ''failed to open file: access denied'')
         else if in_the_way d p then Err (Fs_Other ''failed to read file content'')
         else case map_of (dk_files d) p of
           None \<Rightarrow> Err (Fs_Not_Exist ''failed to open file: file not found'')
         | Some c \<Rightarrow> Ok c)"

definition read_file_execute :: "string \<Rightarrow> file_backend \<Rightarrow> int \<Rightarrow> go_args \<Rightarrow> disk \<Rightarrow> tool_result" where
  "read_file_execute cwd fs max_size args d =
    (case str_arg args ''path'' of
       None \<Rightarrow> error_result ''path is required''
     | Some path \<Rightarrow>
      (case get_int64_arg args ''offset'' 0 of
         Err e \<Rightarrow> error_result e
       | Ok offset \<Rightarrow> if offset < 0 then error_result ''offset must be >= 0'' else
        (case get_int64_arg args ''length'' max_size of
           Err e \<Rightarrow> error_result e
         | Ok len0 \<Rightarrow> if len0 \<le> 0 then error_result ''length must be > 0'' else
          (case disk_open cwd fs d path of
             Err e \<Rightarrow> error_result (fs_error_text e)
           | Ok text \<Rightarrow>
              let page = read_page text offset (min len0 max_size) in
              if fst page = [] then new_tool_result ''[END OF FILE - no content at this offset]''
              else new_tool_result (page_header path text offset page @ [CHR 0x0A, CHR 0x0A] @ fst page)))))"

text \<open>A reader that follows the offsets the tool announces.\<close>

fun read_all :: "nat \<Rightarrow> string \<Rightarrow> int \<Rightarrow> int \<Rightarrow> string list option" where
  "read_all 0 text offset len = None"
| "read_all (Suc fuel) text offset len =
    (let (data, more) = read_page text offset len in
     if more then map_option ((#) data) (read_all fuel text (offset + int (length data)) len)
     else Some [data])"

section \<open>Listing a directory\<close>

text \<open>An entry is a name and whether it is a directory.\<close>

definition format_dir_entries :: "(string \<times> bool) list \<Rightarrow> tool_result" where
  "format_dir_entries entries =
    new_tool_result (concat (map (\<lambda>(name, dir). (if dir then ''DIR:  '' else ''FILE: '') @ name @ [CHR 0x0A]) entries))"

text \<open>\<open>read_dir\<close> is the operating system's answer for an absolute path.\<close>

definition list_dir_execute ::
  "string \<Rightarrow> file_backend \<Rightarrow> (string \<Rightarrow> (string, (string \<times> bool) list) go_result) \<Rightarrow> go_args \<Rightarrow> tool_result" where
  "list_dir_execute cwd fs read_dir args =
    (let path = (case str_arg args ''path'' of Some p \<Rightarrow> p | None \<Rightarrow> ''.'')
     in case (case fs_target cwd fs path of Err e \<Rightarrow> Err (fs_error_text e) | Ok p \<Rightarrow> read_dir p) of
          Err e \<Rightarrow> error_result (''failed to read directory: '' @ e)
        | Ok entries \<Rightarrow> format_dir_entries entries)"

section \<open>Paths stay inside\<close>

lemma within_workspace_inside:
  assumes "is_abs c" "is_abs ws"
  shows "is_within_workspace c ws \<longleftrightarrow> inside ws c"
  using local_rel_abs [OF is_abs_clean [OF assms(2)] is_abs_clean [OF assms(1)]] assms
  by (auto simp: is_within_workspace_def inside_def elems_clean split: option.splits)

lemma is_abs_append: "is_abs p \<Longrightarrow> is_abs (p @ q)"
  by (cases p) auto

lemma path_abs_is_abs: "is_abs cwd \<Longrightarrow> is_abs (path_abs cwd p)"
  by (cases cwd) (auto simp: path_abs_def path_join_def is_abs_clean is_abs_append)

lemma path_abs_inside: "is_abs cwd \<Longrightarrow> is_local rel \<Longrightarrow> inside (path_abs cwd ws) (path_join (path_abs cwd ws) rel)"
  by (simp add: inside_def path_join_inside path_abs_is_abs)

lemma sandbox_target_inside:
  "is_abs cwd \<Longrightarrow> sandbox_target cwd ws path = Ok p \<Longrightarrow> inside (path_abs cwd ws) p"
  by (auto simp: sandbox_target_def get_safe_rel_path_def Let_def path_abs_inside
      split: sum.splits option.splits if_splits)

text \<open>What the operating system promises: a resolved path is absolute.\<close>

definition resolves_absolute :: "host_env \<Rightarrow> bool" where
  "resolves_absolute env \<longleftrightarrow> is_abs (ho_cwd env) \<and> (\<forall>p r. ho_eval env p = Resolved r \<longrightarrow> is_abs r)"

definition real_workspace :: "host_env \<Rightarrow> string \<Rightarrow> string" where
  "real_workspace env ws = (case ho_eval env (path_abs (ho_cwd env) ws) of Resolved r \<Rightarrow> r | _ \<Rightarrow> path_abs (ho_cwd env) ws)"

lemma real_workspace_abs: "resolves_absolute env \<Longrightarrow> is_abs (real_workspace env ws)"
  by (auto simp: real_workspace_def resolves_absolute_def path_abs_is_abs split: eval_result.split)

text \<open>
  A path that passes the validation of a restricted tool is absolute and lies in the workspace, and if
  it exists it resolves into the workspace's real directory, whatever symbolic links there are.
\<close>

theorem validated_path_confined:
  assumes env: "resolves_absolute env" and ok: "validate_path env path workspace True = Ok p"
  shows "is_abs p \<and> inside (path_abs (ho_cwd env) workspace) p \<and>
    (case ho_eval env p of Resolved r \<Rightarrow> inside (real_workspace env workspace) r | Not_Exist \<Rightarrow> True | Eval_Error e \<Rightarrow> False)"
proof -
  let ?ws = "path_abs (ho_cwd env) workspace"
  let ?p = "if is_abs path then clean path else path_abs (ho_cwd env) (path_join ?ws path)"
  have cwd: "is_abs (ho_cwd env)" using env by (simp add: resolves_absolute_def)
  have abs: "is_abs ?ws" "is_abs ?p" using cwd by (auto simp: path_abs_is_abs is_abs_clean)
  have w: "workspace \<noteq> []" "p = ?p" "is_within_workspace ?p ?ws"
    using ok by (auto simp: validate_path_def Let_def split: if_splits eval_result.splits)
  then have inside: "inside ?ws p" using within_workspace_inside [OF abs(2,1)] by simp
  show ?thesis
  proof (cases "ho_eval env p")
    case (Resolved r)
    with ok w have "is_within_workspace r (real_workspace env workspace)"
      by (auto simp: validate_path_def real_workspace_def Let_def split: if_splits eval_result.splits)
    moreover have "is_abs r" using env Resolved by (auto simp: resolves_absolute_def)
    ultimately have "inside (real_workspace env workspace) r"
      using within_workspace_inside real_workspace_abs [OF env] by blast
    with Resolved inside w(2) abs(2) show ?thesis by simp
  next
    case Not_Exist
    with inside w(2) abs(2) show ?thesis by simp
  next
    case (Eval_Error e)
    with ok w show ?thesis by (auto simp: validate_path_def Let_def split: if_splits)
  qed
qed

section \<open>Calls of the file tools\<close>

datatype file_call = Write_Call go_args | Edit_Call go_args | Append_Call go_args

fun run_call :: "'d file_ops \<Rightarrow> file_call \<Rightarrow> 'd \<Rightarrow> tool_result \<times> 'd" where
  "run_call ops (Write_Call args) d = write_file_execute ops args d"
| "run_call ops (Edit_Call args) d = edit_file_execute ops args d"
| "run_call ops (Append_Call args) d = append_file_execute ops args d"

text \<open>A call writes one file, or nothing.\<close>

lemma run_call_writes:
  "snd (run_call ops c d) = d \<or> (\<exists>p t. fo_write ops d p t = Ok (snd (run_call ops c d)))"
  by (cases c) (auto simp: write_file_execute_def edit_file_execute_def append_file_execute_def tool_outcome_def
      edit_file_def append_file_def Let_def split: option.splits sum.splits fs_error.splits)

text \<open>The contract of a file system: what a write does to what is read.\<close>

locale file_system =
  fixes ops :: "'d file_ops" and same :: "string \<Rightarrow> string \<Rightarrow> bool"
  assumes read_written: "fo_write ops d p t = Ok d' \<Longrightarrow> fo_read ops d' p = Ok t"
    and read_other: "fo_write ops d p t = Ok d' \<Longrightarrow> fo_read ops d q = Ok u \<Longrightarrow> \<not> same p q \<Longrightarrow> fo_read ops d' q = Ok u"
begin

lemma edit_effect:
  assumes read: "fo_read ops d path = Ok t" and edit: "edit_file ops d path old new = Ok d'"
  shows "\<exists>t'. replace_edit_content t old new = Ok t' \<and> fo_read ops d' path = Ok t' \<and>
    (\<forall>q u. fo_read ops d q = Ok u \<longrightarrow> \<not> same path q \<longrightarrow> fo_read ops d' q = Ok u)"
proof -
  obtain t' where "replace_edit_content t old new = Ok t'" "fo_write ops d path t' = Ok d'"
    using assms by (auto simp: edit_file_def split: sum.splits)
  then show ?thesis using read_written read_other by blast
qed

lemma append_effect:
  assumes "append_file ops d path t = Ok d'"
  shows "fo_read ops d' path = Ok ((case fo_read ops d path of Ok u \<Rightarrow> u | Err e \<Rightarrow> []) @ t)"
  using assms read_written by (auto simp: append_file_def Let_def split: sum.splits fs_error.splits)

end

lemma in_the_way_dom:
  "in_the_way d q \<longleftrightarrow> (\<exists>r\<in>dom (map_of (dk_files d)). r \<noteq> q \<and> (inside r q \<or> inside q r))"
  by (force simp: in_the_way_def list_ex_iff dom_map_of_conv_image_fst)

lemma in_the_way_update: "in_the_way (d\<lparr>dk_files := AList.update p t (dk_files d)\<rparr>) q \<longleftrightarrow>
    in_the_way d q \<or> (p \<noteq> q \<and> (inside p q \<or> inside q p))"
  by (auto simp: in_the_way_dom update_conv' simp del: dom_fun_upd split: if_splits)

text \<open>Both backends are file systems: two names are the same if they lead to the same path.\<close>

interpretation backend: file_system "backend_ops cwd fs" "\<lambda>p q. fs_target cwd fs p = fs_target cwd fs q" for cwd fs
proof
  fix d p t d'
  assume w: "fo_write (backend_ops cwd fs) d p t = Ok d'"
  then obtain r where r: "fs_target cwd fs p = Ok r" "r \<notin> set (dk_denied d)" "\<not> in_the_way d r"
      "d' = d\<lparr>dk_files := AList.update r t (dk_files d)\<rparr>"
    by (auto simp: backend_ops_def disk_write_def split: sum.splits if_splits)
  then show "fo_read (backend_ops cwd fs) d' p = Ok t"
    by (simp add: backend_ops_def disk_read_def in_the_way_update update_conv')
  fix q u
  assume q: "fo_read (backend_ops cwd fs) d q = Ok u" "fs_target cwd fs p \<noteq> fs_target cwd fs q"
  then obtain r' where r': "fs_target cwd fs q = Ok r'" "r' \<notin> set (dk_denied d)" "\<not> in_the_way d r'"
      "map_of (dk_files d) r' = Some u"
    by (auto simp: backend_ops_def disk_read_def split: sum.splits if_splits option.splits)
  then have "\<not> (r \<noteq> r' \<and> (inside r r' \<or> inside r' r))" using r(3)
    by (force simp: in_the_way_def list_ex_iff dest: map_of_SomeD)
  with q(2) r r' show "fo_read (backend_ops cwd fs) d' q = Ok u"
    by (simp add: backend_ops_def disk_read_def in_the_way_update update_conv')
qed

lemma validated_path_confined_witness:
  defines "env \<equiv> \<lparr>ho_cwd = ''/home'', ho_eval = (\<lambda>p. if prefix ''/l'' p then Resolved (''/r'' @ drop 2 p) else if is_abs p then Resolved p else Not_Exist)\<rparr>"
  shows "validate_path env ''b/../a'' ''/l/w'' True = Ok ''/l/w/a'' \<and> inside ''/r/w'' ''/r/w/a''"
proof -
  have "resolves_absolute env" by (auto simp: resolves_absolute_def env_def is_abs_def)
  moreover have ok: "validate_path env ''b/../a'' ''/l/w'' True = Ok ''/l/w/a''" unfolding env_def by code_simp
  ultimately have "case ho_eval env ''/l/w/a'' of Resolved r \<Rightarrow> inside (real_workspace env ''/l/w'') r
      | Not_Exist \<Rightarrow> True | Eval_Error e \<Rightarrow> False"
    using validated_path_confined by blast
  moreover have "ho_eval env ''/l/w/a'' = Resolved ''/r/w/a''" "real_workspace env ''/l/w'' = ''/r/w''"
    unfolding env_def by code_simp+
  ultimately show ?thesis using ok by simp
qed

section \<open>Confinement of the sandboxed tools\<close>

text \<open>
  The calls of all file tools.  \<open>ls\<close> is the operating system's listing of a directory, which depends on what is below
  the directory, and on the path to it.
\<close>

datatype file_request = Change file_call | Read_Page int go_args | List_Dir go_args

fun run_request :: "string \<Rightarrow> file_backend \<Rightarrow> (disk \<Rightarrow> string \<Rightarrow> (string, (string \<times> bool) list) go_result) \<Rightarrow>
    file_request \<Rightarrow> disk \<Rightarrow> tool_result \<times> disk" where
  "run_request cwd fs ls (Change c) d = run_call (backend_ops cwd fs) c d"
| "run_request cwd fs ls (Read_Page max_size args) d = (read_file_execute cwd fs max_size args d, d)"
| "run_request cwd fs ls (List_Dir args) d = (list_dir_execute cwd fs (ls d) args, d)"

fun run_requests :: "string \<Rightarrow> file_backend \<Rightarrow> (disk \<Rightarrow> string \<Rightarrow> (string, (string \<times> bool) list) go_result) \<Rightarrow>
    file_request list \<Rightarrow> disk \<Rightarrow> tool_result list \<times> disk" where
  "run_requests cwd fs ls [] d = ([], d)"
| "run_requests cwd fs ls (r # rs) d =
    (let (res, d1) = run_request cwd fs ls r d; (ress, d2) = run_requests cwd fs ls rs d1 in (res # ress, d2))"

text \<open>Two disks with the same files below a directory, and on the path to it; they may differ anywhere else.\<close>

definition agree :: "string \<Rightarrow> disk \<Rightarrow> disk \<Rightarrow> bool" where
  "agree dir d d' \<longleftrightarrow> (\<forall>p. inside dir p \<or> inside p dir \<longrightarrow>
     map_of (dk_files d) p = map_of (dk_files d') p \<and> (p \<in> set (dk_denied d) \<longleftrightarrow> p \<in> set (dk_denied d')))"

definition lists_below :: "(disk \<Rightarrow> string \<Rightarrow> (string, (string \<times> bool) list) go_result) \<Rightarrow> bool" where
  "lists_below ls \<longleftrightarrow> (\<forall>p d d'. agree p d d' \<longrightarrow> ls d p = ls d' p)"

lemma restricted_target_inside:
  "is_abs cwd \<Longrightarrow> fs_target cwd (build_fs ws True []) path = Ok p \<Longrightarrow> inside (path_abs cwd ws) p"
  by (simp add: build_fs_def sandbox_target_inside)

lemma restricted_write_keeps:
  assumes "is_abs cwd" "\<not> inside (path_abs cwd ws) q"
    and w: "fo_write (backend_ops cwd (build_fs ws True [])) d p t = Ok d'"
  shows "map_of (dk_files d') q = map_of (dk_files d) q"
proof -
  from w obtain r where r: "fs_target cwd (build_fs ws True []) p = Ok r" "d' = d\<lparr>dk_files := AList.update r t (dk_files d)\<rparr>"
    by (auto simp: backend_ops_def disk_write_def split: sum.splits if_splits)
  have "r \<noteq> q" using assms(2) restricted_target_inside [OF assms(1) r(1)] by auto
  then show ?thesis by (simp add: r(2) update_conv')
qed

lemma run_requests_keep:
  assumes "is_abs cwd" "\<not> inside (path_abs cwd ws) q"
  shows "map_of (dk_files (snd (run_requests cwd (build_fs ws True []) ls rs d))) q = map_of (dk_files d) q"
proof (induction rs arbitrary: d)
  case (Cons r rs)
  have "map_of (dk_files (snd (run_call (backend_ops cwd (build_fs ws True [])) c d))) q = map_of (dk_files d) q" for c
    using run_call_writes [of "backend_ops cwd (build_fs ws True [])" c d] restricted_write_keeps [OF assms] by metis
  then have "map_of (dk_files (snd (run_request cwd (build_fs ws True []) ls r d))) q = map_of (dk_files d) q"
    by (cases r) simp_all
  with Cons [of "snd (run_request cwd (build_fs ws True []) ls r d)"] show ?case by (simp add: split_beta Let_def)
qed simp

text \<open>What an operation on a path below a directory can see is the same on disks that agree there.\<close>

lemma agree_below: "agree dir d d' \<Longrightarrow> inside dir p \<Longrightarrow> agree p d d'"
  unfolding agree_def inside_def by (meson prefix_order.trans prefix_same_cases)

lemma agree_at: "agree dir d d' \<Longrightarrow> inside dir p \<Longrightarrow>
    map_of (dk_files d) p = map_of (dk_files d') p \<and> (p \<in> set (dk_denied d) \<longleftrightarrow> p \<in> set (dk_denied d'))"
  by (simp add: agree_def)

lemma agree_in_the_way:
  assumes "agree dir d d'" "inside dir p"
  shows "in_the_way d p \<longleftrightarrow> in_the_way d' p"
proof -
  have "map_of (dk_files d) r = map_of (dk_files d') r" if "inside r p \<or> inside p r" for r
    using agree_below [OF assms] that by (auto simp: agree_def)
  then show ?thesis unfolding in_the_way_dom Bex_def dom_def mem_Collect_eq by metis
qed

lemma agree_update: "agree dir d d' \<Longrightarrow>
    agree dir (d\<lparr>dk_files := AList.update p t (dk_files d)\<rparr>) (d'\<lparr>dk_files := AList.update p t (dk_files d')\<rparr>)"
  by (auto simp: agree_def update_conv')

lemma same_open: "is_abs cwd \<Longrightarrow> agree (path_abs cwd ws) d d' \<Longrightarrow>
    disk_open cwd (build_fs ws True []) d path = disk_open cwd (build_fs ws True []) d' path"
  using restricted_target_inside [of cwd ws path] agree_at [of _ d d'] agree_in_the_way [of _ d d']
  by (auto simp: disk_open_def split: sum.split)

lemma same_read: "is_abs cwd \<Longrightarrow> agree (path_abs cwd ws) d d' \<Longrightarrow>
    fo_read (backend_ops cwd (build_fs ws True [])) d path = fo_read (backend_ops cwd (build_fs ws True [])) d' path"
  using restricted_target_inside [of cwd ws path] agree_at [of _ d d'] agree_in_the_way [of _ d d']
  by (auto simp: backend_ops_def disk_read_def split: sum.split)

lemma same_write:
  assumes "is_abs cwd" "agree (path_abs cwd ws) d d'"
  obtains e where "fo_write (backend_ops cwd (build_fs ws True [])) d path t = Err e"
      "fo_write (backend_ops cwd (build_fs ws True [])) d' path t = Err e"
  | d1 d1' where "fo_write (backend_ops cwd (build_fs ws True [])) d path t = Ok d1"
      "fo_write (backend_ops cwd (build_fs ws True [])) d' path t = Ok d1'" "agree (path_abs cwd ws) d1 d1'"
proof (cases "fs_target cwd (build_fs ws True []) path")
  case (Inl e)
  then show thesis using that(1) by (simp add: backend_ops_def disk_write_def)
next
  case (Inr p)
  have "inside (path_abs cwd ws) p" using restricted_target_inside [OF assms(1) Inr] .
  then have "p \<in> set (dk_denied d) \<longleftrightarrow> p \<in> set (dk_denied d')" "in_the_way d p \<longleftrightarrow> in_the_way d' p"
    using agree_at agree_in_the_way assms(2) by blast+
  then show thesis using that Inr agree_update [OF assms(2), of p t]
    by (cases "p \<in> set (dk_denied d) \<or> in_the_way d p") (simp_all add: backend_ops_def disk_write_def)
qed

text \<open>The same outcome on both disks.\<close>

definition same_outcome :: "string \<Rightarrow> (string, disk) go_result \<Rightarrow> (string, disk) go_result \<Rightarrow> bool" where
  "same_outcome dir r r' \<longleftrightarrow> (case (r, r') of (Err e, Err e') \<Rightarrow> e = e' | (Ok d, Ok d') \<Rightarrow> agree dir d d' | _ \<Rightarrow> False)"

lemma same_outcome_Err [simp]: "same_outcome dir (Err e) (Err e)"
  by (simp add: same_outcome_def)

lemma same_outcome_tool:
  assumes "same_outcome dir r r'" "agree dir d d'"
  shows "fst (tool_outcome d said r) = fst (tool_outcome d' said r') \<and> agree dir (snd (tool_outcome d said r)) (snd (tool_outcome d' said r'))"
  using assms by (auto simp: same_outcome_def tool_outcome_def split: sum.splits)

lemma same_write_outcome:
  assumes "is_abs cwd" "agree (path_abs cwd ws) d d'"
  shows "same_outcome (path_abs cwd ws)
    (case fo_write (backend_ops cwd (build_fs ws True [])) d path t of Err e \<Rightarrow> Err (fs_error_text e) | Ok d1 \<Rightarrow> Ok d1)
    (case fo_write (backend_ops cwd (build_fs ws True [])) d' path t of Err e \<Rightarrow> Err (fs_error_text e) | Ok d1 \<Rightarrow> Ok d1)"
  by (rule same_write [OF assms, of path t]) (simp_all add: same_outcome_def)

lemma same_edit:
  assumes "is_abs cwd" "agree (path_abs cwd ws) d d'"
  shows "same_outcome (path_abs cwd ws) (edit_file (backend_ops cwd (build_fs ws True [])) d path old new)
      (edit_file (backend_ops cwd (build_fs ws True [])) d' path old new)"
proof (cases "fo_read (backend_ops cwd (build_fs ws True [])) d' path")
  case (Inl e)
  then show ?thesis by (simp add: edit_file_def same_read [OF assms])
next
  case (Inr t)
  then show ?thesis by (cases "replace_edit_content t old new")
      (simp_all add: edit_file_def same_read [OF assms] same_write_outcome [OF assms])
qed

lemma same_append:
  assumes "is_abs cwd" "agree (path_abs cwd ws) d d'"
  shows "same_outcome (path_abs cwd ws) (append_file (backend_ops cwd (build_fs ws True [])) d path t)
      (append_file (backend_ops cwd (build_fs ws True [])) d' path t)"
proof (cases "fo_read (backend_ops cwd (build_fs ws True [])) d' path")
  case (Inl e)
  then show ?thesis by (cases e) (simp_all add: append_file_def same_read [OF assms] same_write_outcome [OF assms])
next
  case (Inr u)
  then show ?thesis by (simp add: append_file_def same_read [OF assms] same_write_outcome [OF assms])
qed

lemma same_request:
  assumes "is_abs cwd" "lists_below ls" "agree (path_abs cwd ws) d d'"
  shows "fst (run_request cwd (build_fs ws True []) ls r d) = fst (run_request cwd (build_fs ws True []) ls r d') \<and>
    agree (path_abs cwd ws) (snd (run_request cwd (build_fs ws True []) ls r d)) (snd (run_request cwd (build_fs ws True []) ls r d'))"
proof (cases r)
  case (Change c)
  note same = same_outcome_tool [OF same_write_outcome [OF assms(1,3)] assms(3)]
    same_outcome_tool [OF same_edit [OF assms(1,3)] assms(3)]
    same_outcome_tool [OF same_append [OF assms(1,3)] assms(3)]
  show ?thesis using Change assms(3) same
    by (cases c) (auto simp: write_file_execute_def edit_file_execute_def append_file_execute_def split: option.split)
next
  case (Read_Page n args)
  have "read_file_execute cwd (build_fs ws True []) n args d = read_file_execute cwd (build_fs ws True []) n args d'"
    unfolding read_file_execute_def same_open [OF assms(1,3)] by (rule refl)
  then show ?thesis using Read_Page assms(3) by simp
next
  case (List_Dir args)
  have "ls d p = ls d' p" if "fs_target cwd (build_fs ws True []) path = Ok p" for path p
    using agree_below [OF assms(3) restricted_target_inside [OF assms(1) that]] assms(2) by (simp add: lists_below_def)
  then show ?thesis using List_Dir assms(3) by (auto simp: list_dir_execute_def Let_def split: sum.split option.split)
qed

lemma same_requests:
  assumes "is_abs cwd" "lists_below ls" "agree (path_abs cwd ws) d d'"
  shows "fst (run_requests cwd (build_fs ws True []) ls rs d) = fst (run_requests cwd (build_fs ws True []) ls rs d')"
  using assms(3)
proof (induction rs arbitrary: d d')
  case (Cons r rs)
  note s = same_request [OF assms(1,2) Cons.prems, of r]
  then show ?case using Cons.IH [OF conjunct2 [OF s]] by (simp add: split_beta Let_def)
qed simp

text \<open>
  C22: Whatever the model asks of the file tools of a restricted agent without a whitelist, in any sequence of writing,
  editing, appending, reading and listing: no file outside the workspace changes, and nothing outside the workspace is
  seen, that is, all results are the same on any other disk that has the same files in the workspace (and on the path
  to it).
\<close>

theorem sandboxed_calls_confined:
  assumes "is_abs cwd" "lists_below ls"
  shows "(\<not> inside (path_abs cwd ws) q \<longrightarrow>
      map_of (dk_files (snd (run_requests cwd (build_fs ws True []) ls rs d))) q = map_of (dk_files d) q) \<and>
    (agree (path_abs cwd ws) d d' \<longrightarrow>
      fst (run_requests cwd (build_fs ws True []) ls rs d) = fst (run_requests cwd (build_fs ws True []) ls rs d'))"
  using run_requests_keep [OF assms(1)] same_requests [OF assms] by blast

definition demo_listing :: "disk \<Rightarrow> string \<Rightarrow> (string, (string \<times> bool) list) go_result" where
  "demo_listing d p = (if map_of (dk_files d) p = None then Ok [] else Err ''not a directory'')"

definition demo_disk :: "string \<Rightarrow> disk" where
  "demo_disk secret = \<lparr>dk_files = [(''/etc/p'', secret), (''/w/b'', ''y'')], dk_denied = []\<rparr>"

definition demo_requests :: "file_request list" where
  "demo_requests =
    [Change (Write_Call [(''path'', Any_Str ''../etc/p''), (''content'', Any_Str ''x'')]),
     Change (Append_Call [(''path'', Any_Str ''/etc/p''), (''content'', Any_Str ''x'')]),
     Change (Edit_Call [(''path'', Any_Str ''b''), (''old_text'', Any_Str ''y''), (''new_text'', Any_Str ''z'')]),
     Read_Page 10 [(''path'', Any_Str ''/etc/p'')], Read_Page 10 [(''path'', Any_Str ''b'')],
     List_Dir [(''path'', Any_Str ''../etc'')]]"

definition demo_run :: "string \<Rightarrow> tool_result list \<times> disk" where
  "demo_run secret = run_requests ''/'' (build_fs ''/w'' True []) demo_listing demo_requests (demo_disk secret)"

lemma sandboxed_calls_confined_witness:
  "map_of (dk_files (snd (demo_run ''root''))) ''/etc/p'' = Some ''root'' \<and>
   map_of (dk_files (snd (demo_run ''root''))) ''/w/b'' = Some ''z'' \<and> fst (demo_run ''root'') = fst (demo_run ''other'')"
proof (intro conjI)
  have ls: "lists_below demo_listing" by (auto simp: lists_below_def demo_listing_def agree_def inside_def)
  have "is_abs ''/''" "\<not> inside (path_abs ''/'' ''/w'') ''/etc/p''" by code_simp+
  note c = sandboxed_calls_confined [OF this(1) ls] this(2)
  then have "map_of (dk_files (snd (demo_run ''root''))) ''/etc/p'' = map_of (dk_files (demo_disk ''root'')) ''/etc/p''"
    unfolding demo_run_def by blast
  then show "map_of (dk_files (snd (demo_run ''root''))) ''/etc/p'' = Some ''root''" by (simp add: demo_disk_def)
  show "map_of (dk_files (snd (demo_run ''root''))) ''/w/b'' = Some ''z''" by code_simp
  have "\<not> inside (path_abs ''/'' ''/w'') ''/etc/p'' \<and> \<not> inside ''/etc/p'' (path_abs ''/'' ''/w'')" by code_simp
  then have "agree (path_abs ''/'' ''/w'') (demo_disk ''root'') (demo_disk ''other'')" by (auto simp: agree_def demo_disk_def)
  then show "fst (demo_run ''root'') = fst (demo_run ''other'')" unfolding demo_run_def using c(1) by blast
qed

section \<open>Editing\<close>

lemma replace_edit_content_Ok:
  assumes "replace_edit_content t old new = Ok t'"
  shows "\<exists>pre post. t = pre @ old @ post \<and> t' = pre @ new @ post \<and>
    (\<forall>k<length pre. \<not> prefix old (drop k t)) \<and> (if old = [] then t = [] else \<not> sublist old post)"
proof -
  obtain i where i: "str_index t old = Some i" and c: "str_count t old \<le> 1" and t': "t' = replace_first t old new"
    using assms by (auto simp: replace_edit_content_def str_contains_def Let_def split: if_splits)
  let ?pre = "take i t" and ?post = "drop (i + length old) t"
  have t: "t = ?pre @ old @ ?post" "i \<le> length t" using str_index_Some_iff [OF i] by simp_all
  have "\<not> sublist old ?post" if "old \<noteq> []"
  proof -
    have "count_nonempty ?post old = 0"
      using c i that by (simp add: str_count_def count_nonempty.simps [of t])
    then have "str_index ?post old = None"
      using that by (simp add: count_nonempty.simps [of ?post] split: option.splits)
    then show ?thesis using str_contains_iff [of ?post old] by (simp add: str_contains_def)
  qed
  moreover have "t = []" if "old = []" using c that by (cases t) (auto simp: str_count_def rune_count_def runes.simps [of "_ # _"])
  moreover have "t' = ?pre @ new @ ?post" by (simp add: t' replace_first_def i)
  moreover have "\<forall>k<length ?pre. \<not> prefix old (drop k t)" using str_index_first [OF i] by simp
  ultimately show ?thesis using t by (intro exI [of _ ?pre] exI [of _ ?post]) auto
qed

text \<open>
  An edit that succeeds replaces the first occurrence of the old text, after which there is no other one,
  and keeps the rest of the file and every other file.  An empty old text is accepted for an empty file only.
\<close>

theorem edit_file_effect:
  assumes "disk_read cwd fs d path = Ok t" and "edit_file (backend_ops cwd fs) d path old new = Ok d'"
  shows "\<exists>pre post. t = pre @ old @ post \<and> disk_read cwd fs d' path = Ok (pre @ new @ post) \<and>
    (\<forall>k<length pre. \<not> prefix old (drop k t)) \<and> (if old = [] then t = [] else \<not> sublist old post) \<and>
    (\<forall>q u. disk_read cwd fs d q = Ok u \<longrightarrow> fs_target cwd fs q \<noteq> fs_target cwd fs path \<longrightarrow> disk_read cwd fs d' q = Ok u)"
proof -
  have "fo_read (backend_ops cwd fs) d path = Ok t" using assms(1) by (simp add: backend_ops_def)
  from backend.edit_effect [OF this assms(2)] obtain t' where
    "replace_edit_content t old new = Ok t'" "disk_read cwd fs d' path = Ok t'"
    "\<forall>q u. disk_read cwd fs d q = Ok u \<longrightarrow> fs_target cwd fs q \<noteq> fs_target cwd fs path \<longrightarrow> disk_read cwd fs d' q = Ok u"
    by (auto simp: backend_ops_def)
  then show ?thesis using replace_edit_content_Ok by fastforce
qed

lemma edit_file_effect_witness:
  defines "fs \<equiv> Sandbox_Fs ''/w''" and "d \<equiv> \<lparr>dk_files = [(''/w/a'', ''xyz'')], dk_denied = []\<rparr>"
  shows "\<exists>d'. edit_file (backend_ops ''/'' fs) d ''a'' ''y'' ''1'' = Ok d' \<and>
    (\<exists>pre post. ''xyz'' = pre @ ''y'' @ post \<and> disk_read ''/'' fs d' ''a'' = Ok (pre @ ''1'' @ post))"
proof -
  have "disk_read ''/'' fs d ''a'' = Ok ''xyz''" unfolding fs_def d_def by code_simp
  moreover have "edit_file (backend_ops ''/'' fs) d ''a'' ''y'' ''1'' =
      Ok \<lparr>dk_files = [(''/w/a'', ''x1z'')], dk_denied = []\<rparr>" unfolding fs_def d_def by code_simp
  ultimately show ?thesis using edit_file_effect by blast
qed

text \<open>Occurrences that overlap count as one: an ambiguous edit passes.\<close>

lemma overlapping_edit_accepted: "replace_edit_content ''aaa'' ''aa'' ''b'' = Ok ''ba''"
  by code_simp

section \<open>Pages\<close>

text \<open>
  Following the offsets that read_file announces terminates and yields the file from the first offset on,
  in pages of at most the given length.
\<close>

theorem read_all_complete:
  assumes "0 < len" "0 \<le> offset" "length t < fuel + nat offset" "0 < fuel"
  shows "\<exists>pages. read_all fuel t offset len = Some pages \<and> concat pages = drop (nat offset) t \<and>
    (\<forall>p\<in>set pages. int (length p) \<le> len)"
  using assms
proof (induction fuel t offset len rule: read_all.induct)
  case (2 fuel t offset len)
  define data where "data = take (nat len) (drop (nat offset) t)"
  have page: "read_page t offset len = (data, len < int (length t) - offset)"
    using 2(2,3) by (auto simp: read_page_def Let_def data_def min_def)
  show ?case
  proof (cases "len < int (length t) - offset")
    case False
    then have "data = drop (nat offset) t" using 2(2,3) by (simp add: data_def)
    with False page 2(2) show ?thesis by (auto simp: data_def)
  next
    case True
    then have n: "length data = nat len" using 2(2,3) by (simp add: data_def min_def)
    have "length t < fuel + nat (offset + int (length data))" "0 < fuel"
      using 2(2-4) n True by linarith+
    then obtain ps where ps: "read_all fuel t (offset + int (length data)) len = Some ps"
        "concat ps = drop (nat (offset + int (length data))) t" "\<forall>p\<in>set ps. int (length p) \<le> len"
      using 2(1) [OF page [symmetric] refl] True 2(2,3) by auto
    have "drop (nat (offset + int (length data))) t = drop (nat len) (drop (nat offset) t)"
      using 2(2,3) n by (simp add: nat_add_distrib add.commute)
    then have "data @ drop (nat (offset + int (length data))) t = drop (nat offset) t"
      by (simp only: data_def append_take_drop_id)
    with ps True page n 2(2) show ?thesis by auto
  qed
qed simp

lemma read_all_complete_witness:
  "read_all 8 ''abcdefg'' 1 3 = Some [''bcd'', ''efg''] \<and> concat [''bcd'', ''efg''] = drop 1 ''abcdefg''"
proof -
  have "\<exists>pages. read_all 8 ''abcdefg'' 1 3 = Some pages \<and> concat pages = drop (nat 1) ''abcdefg'' \<and>
      (\<forall>p\<in>set pages. int (length p) \<le> 3)"
    by (rule read_all_complete) simp_all
  moreover have "read_all 8 ''abcdefg'' 1 3 = Some [''bcd'', ''efg'']" by code_simp
  ultimately show ?thesis by simp
qed

section \<open>Paths that climb out\<close>

lemma clean_elems_climb: "list_all plain_elem acc \<Longrightarrow> n = length acc \<Longrightarrow> clean_elems True acc (replicate n ''..'' @ es) = clean_elems True [] es"
proof (induction n arbitrary: acc)
  case (Suc n)
  then obtain bs b where acc: "acc = bs @ [b]" by (metis length_Suc_conv_rev)
  with Suc.prems have "b \<noteq> ''..''" by (simp add: plain_elem_def)
  with acc Suc show ?case by simp
qed simp

definition climb :: "string \<Rightarrow> string \<Rightarrow> string" where
  "climb dir target = dir @ CHR ''/'' # join_slash (replicate (length (elems dir)) ''..'') @ CHR ''/'' # target"

lemma clean_climb:
  assumes "is_abs dir" "is_abs target"
  shows "clean (climb dir target) = clean target"
proof -
  let ?n = "length (elems dir)"
  have s: "clean_elems r acc (split_slash (join_slash (replicate ?n ''..'')) @ es) = clean_elems r acc (replicate ?n ''..'' @ es)" for r acc es
    by (cases ?n) (simp_all add: split_join del: replicate_Suc)
  have abs: "is_abs (climb dir target)" using assms(1) by (simp add: climb_def is_abs_append)
  have "split_slash (climb dir target) = split_slash dir @ split_slash (join_slash (replicate ?n ''..'')) @ split_slash target"
    by (simp add: climb_def split_slash_join)
  then have "elems (climb dir target) = clean_elems True (clean_elems True [] (split_slash dir))
      (split_slash (join_slash (replicate ?n ''..'')) @ split_slash target)"
    using abs by (simp only: elems_def clean_elems_append)
  also have "\<dots> = clean_elems True (elems dir) (replicate ?n ''..'' @ split_slash target)"
    using assms(1) by (simp only: s) (simp only: elems_def)
  also have "\<dots> = elems target" using elems_rooted [OF assms(1)] assms(2) by (simp add: clean_elems_climb) (simp add: elems_def)
  finally show ?thesis using abs assms(2) by (simp add: clean_def)
qed

text \<open>
  C35: A whitelist entry for a directory (a pattern that matches the paths that start with it) opens every file
  of the host to reading and writing: the pattern is matched against the path as it was given, before it
  is cleaned.
\<close>

theorem whitelist_opens_host:
  assumes "is_abs dir" "is_abs target" "\<And>p. prefix dir p \<Longrightarrow> pattern p"
  shows "\<exists>path. disk_read cwd (build_fs ws True [pattern]) d path = disk_read cwd (build_fs ws False []) d target \<and>
    disk_write cwd (build_fs ws True [pattern]) d path t = disk_write cwd (build_fs ws False []) d target t"
proof -
  have "is_abs (climb dir target)" "pattern (climb dir target)"
    using assms by (simp_all add: climb_def is_abs_append)
  with assms(1,2) have "fs_target cwd (build_fs ws True [pattern]) (climb dir target) = fs_target cwd (build_fs ws False []) target"
    by (simp add: build_fs_def whitelist_matches_def path_abs_def clean_climb)
  then show ?thesis by (intro exI [of _ "climb dir target"]) (simp only: disk_read_def disk_write_def simp_thms)
qed

lemma whitelist_opens_host_witness:
  defines "pattern \<equiv> rx_match_string (Rx_Seq Rx_Begin (rx_lit ''/d/''))"
    and "d \<equiv> \<lparr>dk_files = [(''/etc/p'', ''root'')], dk_denied = []\<rparr>"
  shows "\<exists>path. disk_read ''/'' (build_fs ''/w'' True [pattern]) d path = Ok ''root''"
proof -
  have "pattern p" if "prefix ''/d/'' p" for p
  proof -
    from that obtain s where "p = ''/d/'' @ s" by (auto simp: prefix_def)
    then show ?thesis by (simp add: pattern_def rx_match_string_def rx_lit_def rx_chr_def)
  qed
  moreover have "is_abs ''/d/''" "is_abs ''/etc/p''" by simp_all
  moreover have "disk_read ''/'' (build_fs ''/w'' False []) d ''/etc/p'' = Ok ''root''" unfolding d_def by code_simp
  ultimately show ?thesis using whitelist_opens_host by metis
qed

end
