(* ===== verification/Shell_Guard.thy ===== *)
theory Shell_Guard
  imports File_Sandbox Agent_Loop
begin

text \<open>
  The exec tool, \<open>src/pkg/tools/shell.go\<close>: the guard that inspects a command before it runs (deny and allow
  patterns, paths outside the workspace), the checks of the channel and of the working directory, and the
  result made of a run.  Running the command is a parameter.
\<close>

section \<open>Patterns\<close>

definition rx_word :: "string \<Rightarrow> rx" where "rx_word s = rx_seq [Rx_Bound, rx_lit s, Rx_Bound]"
definition rx_spaces :: rx where "rx_spaces = rx_plus rx_space"
definition rx_blanks :: rx where "rx_blanks = Rx_Star rx_space"
definition rx_not :: "string \<Rightarrow> rx" where "rx_not cs = Rx_Char (\<lambda>x. x \<notin> set cs)"
definition rx_words :: "string list \<Rightarrow> rx" where "rx_words ws = rx_alts (map rx_lit ws)"
definition rx_dot_star :: rx where "rx_dot_star = Rx_Star rx_any"

definition rx_recursive_rm :: rx where
  "rx_recursive_rm = rx_seq [rx_lit ''rm'', rx_spaces, rx_chr (CHR ''-''), rx_in ''rf'']"

definition deny_files :: "rx list" where
  "deny_files =
    [rx_seq [Rx_Bound, rx_recursive_rm, rx_opt (rx_in ''rf''), Rx_Bound],
     rx_seq [Rx_Bound, rx_lit ''del'', rx_spaces, rx_chr (CHR ''/''), rx_in ''fq'', Rx_Bound],
     rx_seq [Rx_Bound, rx_lit ''rmdir'', rx_spaces, rx_lit ''/s'', Rx_Bound],
     rx_seq [Rx_Bound, rx_words [''format'', ''mkfs'', ''diskpart''], Rx_Bound, rx_space],
     rx_seq [Rx_Bound, rx_lit ''dd'', rx_spaces, rx_lit ''if=''],
     rx_seq [rx_chr (CHR ''>''), rx_blanks, rx_lit ''/dev/'',
       rx_alts (map (\<lambda>s. rx_seq [rx_lit s, rx_range (CHR ''a'') (CHR ''z'')]) [''sd'', ''hd'', ''vd'', ''xvd''] @
         map (\<lambda>s. rx_seq [rx_lit s, rx_digit]) [''nvme'', ''mmcblk'', ''loop'', ''dm-'', ''md'', ''sr'', ''nbd''])]]"

definition deny_shell :: "rx list" where
  "deny_shell =
    [rx_seq [Rx_Bound, rx_words [''shutdown'', ''reboot'', ''poweroff''], Rx_Bound],
     rx_seq [rx_lit '':()'', rx_blanks, rx_chr (CHR ''{''), rx_dot_star, rx_lit ''};'', rx_blanks, rx_chr (CHR '':'')],
     rx_seq [rx_lit ''$('', rx_plus (rx_not '')''), rx_chr (CHR '')'')],
     rx_seq [rx_lit ''${'', rx_plus (rx_not ''}''), rx_chr (CHR ''}'')],
     rx_seq [rx_chr (CHR 0x60), rx_plus (rx_not [CHR 0x60]), rx_chr (CHR 0x60)],
     rx_seq [rx_chr (CHR ''|''), rx_blanks, rx_lit ''sh'', Rx_Bound],
     rx_seq [rx_chr (CHR ''|''), rx_blanks, rx_lit ''bash'', Rx_Bound],
     rx_seq [rx_chr (CHR '';''), rx_blanks, rx_recursive_rm],
     rx_seq [rx_lit ''&&'', rx_blanks, rx_recursive_rm],
     rx_seq [rx_lit ''||'', rx_blanks, rx_recursive_rm],
     rx_seq [rx_lit ''<<'', rx_blanks, rx_lit ''EOF'']] @
    map (\<lambda>w. rx_seq [rx_lit ''$('', rx_blanks, rx_lit w, rx_spaces]) [''cat'', ''curl'', ''wget'', ''which'']"

definition deny_commands :: "rx list" where
  "deny_commands =
    [rx_word ''sudo'',
     rx_seq [Rx_Bound, rx_lit ''chmod'', rx_spaces, rx_range (CHR ''0'') (CHR ''7''), rx_range (CHR ''0'') (CHR ''7''),
       rx_range (CHR ''0'') (CHR ''7''), rx_opt (rx_range (CHR ''0'') (CHR ''7'')), Rx_Bound],
     rx_word ''chown'', rx_word ''pkill'', rx_word ''killall'', rx_word ''kill''] @
    map (\<lambda>w. rx_seq [rx_word w, rx_dot_star, rx_chr (CHR ''|''), rx_blanks, rx_words [''sh'', ''bash'']]) [''curl'', ''wget''] @
    [rx_seq [Rx_Bound, rx_lit ''npm'', rx_spaces, rx_lit ''install'', rx_spaces, rx_lit ''-g'', Rx_Bound],
     rx_seq [Rx_Bound, rx_lit ''pip'', rx_spaces, rx_lit ''install'', rx_spaces, rx_lit ''--user'', Rx_Bound]] @
    map (\<lambda>(w, vs). rx_seq [Rx_Bound, rx_lit w, rx_spaces, rx_words vs, Rx_Bound])
      [(''apt'', [''install'', ''remove'', ''purge'']), (''yum'', [''install'', ''remove'']),
       (''dnf'', [''install'', ''remove'']), (''docker'', [''run'']), (''docker'', [''exec'']),
       (''git'', [''push'']), (''git'', [''force''])] @
    [rx_seq [rx_word ''ssh'', rx_dot_star, rx_chr (CHR ''@'')], rx_word ''eval'',
     rx_seq [Rx_Bound, rx_lit ''source'', rx_spaces, rx_dot_star, rx_lit ''.sh'', Rx_Bound]]"

definition default_deny_patterns :: "rx list" where
  "default_deny_patterns = deny_files @ deny_shell @ deny_commands"

definition letter_char :: "char \<Rightarrow> bool" where
  "letter_char c \<longleftrightarrow> (65 \<le> byte c \<and> byte c \<le> 90) \<or> (97 \<le> byte c \<and> byte c \<le> 122)"

text \<open>What ends a path in a command: white space and quotes.\<close>

definition path_end :: "char \<Rightarrow> bool" where
  "path_end c \<longleftrightarrow> c \<in> set [CHR 0x09, CHR 0x0A, CHR 0x0C, CHR 0x0D, CHR 0x20, CHR 0x22, CHR 0x27]"

definition absolute_path_pattern :: rx where
  "absolute_path_pattern =
    Rx_Alt (rx_seq [Rx_Char letter_char, rx_lit [CHR '':'', CHR 0x5C], rx_plus (rx_not [CHR 0x5C, CHR 0x22, CHR 0x27])])
      (Rx_Seq (rx_chr (CHR ''/'')) (rx_plus (Rx_Char (\<lambda>c. \<not> path_end c))))"

text \<open>
  \<open>FindAllStringIndex(s, -1)\<close> for a pattern that matches no empty text: for each match the text before it and
  the text of it.  The length of the string is fuel enough, a match being one byte at least.
\<close>

fun rx_find_all :: "nat \<Rightarrow> rx \<Rightarrow> string \<Rightarrow> string \<Rightarrow> (string \<times> string) list" where
  "rx_find_all 0 r b s = []"
| "rx_find_all (Suc fuel) r b s =
    (case rx_find_from r b s of
       None \<Rightarrow> []
     | Some ((b1, s1), (b2, s2)) \<Rightarrow>
         (rev b1, take (length s1 - length s2) s1) # rx_find_all fuel r b2 s2)"

section \<open>The guard\<close>

definition safe_paths :: "string list" where
  "safe_paths = [''/dev/null'', ''/dev/zero'', ''/dev/random'', ''/dev/urandom'', ''/dev/stdin'', ''/dev/stdout'', ''/dev/stderr'']"

definition web_schemes :: "string list" where
  "web_schemes = [''http:'', ''https:'', ''ftp:'', ''ftps:'', ''sftp:'', ''ssh:'', ''git:'']"

record exec_tool =
  xt_working_dir :: string
  xt_timeout :: int
  xt_deny :: "rx list"
  xt_allow :: "rx list"
  xt_custom_allow :: "rx list"
  xt_restrict :: bool
  xt_allow_remote :: bool

text \<open>The configuration of the tool; the custom patterns have been compiled.\<close>

record exec_config =
  xc_enable_deny :: bool
  xc_custom_deny :: "rx list"
  xc_custom_allow :: "rx list"
  xc_allow_remote :: bool
  xc_timeout_seconds :: int

definition new_exec_tool :: "string \<Rightarrow> bool \<Rightarrow> exec_config option \<Rightarrow> exec_tool" where
  "new_exec_tool dir restrict config =
    \<lparr>xt_working_dir = dir,
     xt_timeout = (case config of Some c \<Rightarrow> if 0 < xc_timeout_seconds c then xc_timeout_seconds c else 60 | None \<Rightarrow> 60),
     xt_deny = (case config of
        None \<Rightarrow> default_deny_patterns
      | Some c \<Rightarrow> if xc_enable_deny c then default_deny_patterns @ xc_custom_deny c else []),
     xt_allow = [],
     xt_custom_allow = (case config of None \<Rightarrow> [] | Some c \<Rightarrow> xc_custom_allow c),
     xt_restrict = restrict,
     xt_allow_remote = (case config of None \<Rightarrow> True | Some c \<Rightarrow> xc_allow_remote c)\<rparr>"

definition any_match :: "rx list \<Rightarrow> string \<Rightarrow> bool" where
  "any_match rs s = list_ex (\<lambda>r. rx_match_string r s) rs"

definition is_web_path :: "string \<Rightarrow> string \<Rightarrow> bool" where
  "is_web_path before raw \<longleftrightarrow> prefix ''//'' raw \<and> before \<noteq> [] \<and> list_ex (\<lambda>scheme. suffix scheme before) web_schemes"

text \<open>\<open>wd\<close> is the working directory of the process, to which \<open>filepath.Abs\<close> refers.\<close>

definition path_allowed :: "string \<Rightarrow> string \<Rightarrow> string \<times> string \<Rightarrow> bool" where
  "path_allowed wd cwd_path = (\<lambda>(before, raw).
    is_web_path before raw \<or>
    (let p = path_abs wd raw in
     p \<in> set safe_paths \<or>
     (case path_rel cwd_path p of None \<Rightarrow> True | Some rel \<Rightarrow> \<not> prefix ''..'' rel)))"

definition path_mentions :: "string \<Rightarrow> (string \<times> string) list" where
  "path_mentions cmd = rx_find_all (length cmd) absolute_path_pattern [] cmd"

definition guard_workspace :: "string \<Rightarrow> string \<Rightarrow> string \<Rightarrow> string" where
  "guard_workspace wd cmd cwd =
    (if str_contains cmd [CHR ''.'', CHR ''.'', CHR 0x5C] \<or> str_contains cmd ''../'' then
       ''Command blocked by safety guard (path traversal detected)''
     else if list_all (path_allowed wd (path_abs wd cwd)) (path_mentions cmd) then []
     else ''Command blocked by safety guard (path outside working dir)'')"

definition guard_command :: "string \<Rightarrow> exec_tool \<Rightarrow> string \<Rightarrow> string \<Rightarrow> string" where
  "guard_command wd t command cwd =
    (let cmd = trim_space command; lower = to_lower cmd in
     if \<not> any_match (xt_custom_allow t) lower \<and> any_match (xt_deny t) lower then
       ''Command blocked by safety guard (dangerous pattern detected)''
     else if xt_allow t \<noteq> [] \<and> \<not> any_match (xt_allow t) lower then
       ''Command blocked by safety guard (not in allowlist)''
     else if xt_restrict t then guard_workspace wd cmd cwd else [])"

section \<open>Executing\<close>

text \<open>What a run of the command yields: its outputs, and how it failed.\<close>

datatype run_status = Run_Ok | Run_Timeout | Run_Exit string

record command_run =
  cr_stdout :: string
  cr_stderr :: string
  cr_status :: run_status

datatype exec_action = Refuse string | Run_In string

definition max_output :: nat where "max_output = 10000"

definition command_output :: "command_run \<Rightarrow> string" where
  "command_output r =
    (let out = cr_stdout r @ (if cr_stderr r \<noteq> [] then [CHR 0x0A] @ ''STDERR:'' @ [CHR 0x0A] @ cr_stderr r else []) @
           (case cr_status r of Run_Exit e \<Rightarrow> [CHR 0x0A] @ ''Exit code: '' @ e | _ \<Rightarrow> []);
         out1 = (if out = [] then ''(no output)'' else out)
     in if max_output < length out1 then take max_output out1 @ [CHR 0x0A] @ ''... (truncated, '' @
          itoa (int (length out1 - max_output)) @ '' more chars)''
        else out1)"

text \<open>The text of the timeout ends before the duration.\<close>

definition timeout_text :: string where "timeout_text = ''Command timed out after ''"

definition command_result :: "command_run \<Rightarrow> tool_result" where
  "command_result r =
    (case cr_status r of
       Run_Timeout \<Rightarrow> (error_result timeout_text)\<lparr>tr_for_user := timeout_text\<rparr>
     | Run_Exit e \<Rightarrow> (error_result (command_output r))\<lparr>tr_for_user := command_output r\<rparr>
     | Run_Ok \<Rightarrow> user_result (command_output r))"

definition exec_channel :: "go_args \<Rightarrow> string \<Rightarrow> string" where
  "exec_channel args channel =
    trim_space (if channel = [] then (case str_arg args ''__channel'' of Some c \<Rightarrow> c | None \<Rightarrow> []) else channel)"

text \<open>The checks before a run, and the directory it runs in.\<close>

definition exec_cwd :: "host_env \<Rightarrow> exec_tool \<Rightarrow> go_args \<Rightarrow> (string, string) go_result" where
  "exec_cwd env t args =
    (let cwd = (case str_arg args ''working_dir'' of
          Some wd \<Rightarrow> if wd = [] then Ok (xt_working_dir t)
            else if xt_restrict t \<and> xt_working_dir t \<noteq> [] then validate_path env wd (xt_working_dir t) True
            else Ok wd
        | None \<Rightarrow> Ok (xt_working_dir t))
     in case cwd of
          Err e \<Rightarrow> Err (''Command blocked by safety guard ('' @ e @ '')'')
        | Ok c \<Rightarrow> Ok (if c = [] then ho_cwd env else c))"

definition recheck_cwd :: "host_env \<Rightarrow> exec_tool \<Rightarrow> string \<Rightarrow> exec_action" where
  "recheck_cwd env t cwd =
    (if xt_restrict t \<and> xt_working_dir t \<noteq> [] \<and> cwd \<noteq> xt_working_dir t then
       (case ho_eval env cwd of
          Resolved r \<Rightarrow>
           (let abs_ws = path_abs (ho_cwd env) (xt_working_dir t);
                ws = (case ho_eval env abs_ws of Resolved w \<Rightarrow> if w = [] then abs_ws else w | _ \<Rightarrow> abs_ws)
            in case path_rel ws r of
                 Some rel \<Rightarrow> if is_local rel then Run_In r
                   else Refuse ''Command blocked by safety guard (working directory escaped workspace)''
               | None \<Rightarrow> Refuse ''Command blocked by safety guard (working directory escaped workspace)'')
        | Not_Exist \<Rightarrow> Refuse ''Command blocked by safety guard (path resolution failed)''
        | Eval_Error e \<Rightarrow> Refuse ''Command blocked by safety guard (path resolution failed)'')
     else Run_In cwd)"

definition exec_decide :: "host_env \<Rightarrow> exec_tool \<Rightarrow> go_args \<Rightarrow> string \<Rightarrow> string \<Rightarrow> exec_action" where
  "exec_decide env t args channel command =
    (let ch = exec_channel args channel in
     if \<not> xt_allow_remote t \<and> (ch = [] \<or> \<not> is_internal_channel ch) then
       Refuse ''exec is restricted to internal channels''
     else case exec_cwd env t args of
            Err e \<Rightarrow> Refuse e
          | Ok cwd \<Rightarrow>
             (let e = guard_command (ho_cwd env) t command cwd
              in if e \<noteq> [] then Refuse e else recheck_cwd env t cwd))"

text \<open>\<open>run cwd command\<close> starts the command; \<open>None\<close> is a failure to start it.\<close>

definition exec_execute ::
  "host_env \<Rightarrow> exec_tool \<Rightarrow> (string \<Rightarrow> string \<Rightarrow> command_run option) \<Rightarrow> go_args \<Rightarrow> string \<Rightarrow> tool_result" where
  "exec_execute env t run args channel =
    (case str_arg args ''command'' of
       None \<Rightarrow> error_result ''command is required''
     | Some command \<Rightarrow>
        (case exec_decide env t args channel command of
           Refuse e \<Rightarrow> error_result e
         | Run_In cwd \<Rightarrow>
            (case run cwd command of
               None \<Rightarrow> error_result ''failed to start command''
             | Some r \<Rightarrow> command_result r)))"

text \<open>A third letter after \<open>-rf\<close> hides the recursive removal from the patterns.\<close>

lemma rm_rfv_passes: "guard_command ''/'' (new_exec_tool ''/w'' False None) ''rm -rfv a'' ''/w'' = []"
  by code_simp

section \<open>The paths the guard sees\<close>

lemma star_run_greedy:
  "length s \<le> n \<Longrightarrow> \<exists>sts. star_run (rx_run (Rx_Char P)) n (b, s) = (rev (takeWhile P s) @ b, dropWhile P s) # sts"
proof (induction n arbitrary: b s)
  case (Suc n)
  show ?case
  proof (cases s)
    case (Cons c s')
    with Suc.prems Suc.IH [of s' "c # b"] show ?thesis by auto
  qed simp
qed simp

text \<open>A slash and the run of path characters behind it: what is before, the characters, what is behind.\<close>

fun find_slash :: "string \<Rightarrow> (string \<times> string \<times> string) option" where
  "find_slash [] = None"
| "find_slash (c # s) =
    (if c = CHR ''/'' \<and> s \<noteq> [] \<and> \<not> path_end (hd s)
     then Some ([], takeWhile (\<lambda>c. \<not> path_end c) s, dropWhile (\<lambda>c. \<not> path_end c) s)
     else map_option (\<lambda>(u, t, r). (c # u, t, r)) (find_slash s))"

text \<open>What starts a path of a drive behind its letter, and hides the slashes behind it from the guard.\<close>

definition drive_mark :: string where "drive_mark = [CHR '':'', CHR 0x5C]"

lemma abs_pattern_run:
  assumes "\<not> sublist drive_mark s"
  shows "case s of
      [] \<Rightarrow> rx_run absolute_path_pattern (b, s) = []
    | c # s' \<Rightarrow> if c = CHR ''/'' \<and> s' \<noteq> [] \<and> \<not> path_end (hd s')
        then \<exists>sts. rx_run absolute_path_pattern (b, s) =
          (rev (takeWhile (\<lambda>c. \<not> path_end c) s') @ CHR ''/'' # b, dropWhile (\<lambda>c. \<not> path_end c) s') # sts
        else rx_run absolute_path_pattern (b, s) = []"
proof -
  have drive: "rx_run (rx_seq [Rx_Char letter_char, rx_lit [CHR '':'', CHR 0x5C], r]) (b, s) = []" for r
    using assms by (cases s; cases "tl s"; cases "tl (tl s)")
      (auto simp: rx_lit_def rx_chr_def drive_mark_def sublist_Cons_right)
  have run: "rx_run absolute_path_pattern (b, s) =
      rx_run (Rx_Seq (rx_chr (CHR ''/'')) (rx_plus (Rx_Char (\<lambda>c. \<not> path_end c)))) (b, s)"
    by (simp only: absolute_path_pattern_def rx_run.simps(4) drive append_Nil)
  show ?thesis
  proof (cases s)
    case (Cons c s')
    show ?thesis
    proof (cases s')
      case (Cons d s'')
      with run \<open>s = c # s'\<close> star_run_greedy [of s'' "length s''" "\<lambda>c. \<not> path_end c" "d # CHR ''/'' # b"]
      show ?thesis by (auto simp: rx_plus_def rx_chr_def)
    qed (use run Cons in \<open>simp add: rx_plus_def rx_chr_def\<close>)
  qed (use run in \<open>simp add: rx_plus_def rx_chr_def\<close>)
qed

lemma find_abs_pattern:
  "\<not> sublist drive_mark s \<Longrightarrow> rx_find_from absolute_path_pattern b s =
    map_option (\<lambda>(u, t, r). ((rev u @ b, CHR ''/'' # t @ r), (rev t @ CHR ''/'' # rev u @ b, r))) (find_slash s)"
proof (induction s arbitrary: b)
  case Nil
  then show ?case using abs_pattern_run [of "[]" b] by simp
next
  case (Cons c s)
  then have "\<not> sublist drive_mark s" by (simp add: sublist_Cons_right)
  then show ?case
    using abs_pattern_run [of "c # s" b] Cons
    by (cases "c = CHR ''/'' \<and> s \<noteq> [] \<and> \<not> path_end (hd s)") (auto simp: option.map_comp comp_def case_prod_unfold)
qed

definition ends_path :: "string \<Rightarrow> bool" where
  "ends_path u \<longleftrightarrow> u = [] \<or> path_end (last u)"

lemma slash_no_end [simp]: "\<not> path_end (CHR ''/'')"
  by (simp add: path_end_def)

lemma find_slash_word:
  assumes "w \<noteq> []" "list_all (\<lambda>c. \<not> path_end c) w" "v = [] \<or> path_end (hd v)" "ends_path u"
  shows "\<exists>u1 t r. find_slash (u @ CHR ''/'' # w @ v) = Some (u1, t, r) \<and>
    (u1 = u \<and> t = w \<or> (\<exists>u2. u = u1 @ CHR ''/'' # t @ u2 \<and> u2 \<noteq> [] \<and> r = u2 @ CHR ''/'' # w @ v))"
  using assms(4)
proof (induction u)
  case Nil
  have "takeWhile (\<lambda>c. \<not> path_end c) (w @ v) = w" using assms(2,3)
    by (cases v) (auto simp: list_all_iff takeWhile_append)
  moreover have "\<not> path_end (hd (w @ v))" using assms(1,2) by (cases w) auto
  ultimately show ?case using assms(1) by auto
next
  case (Cons c u)
  then have u: "ends_path u" by (auto simp: ends_path_def split: if_splits)
  let ?x = "CHR ''/'' # w @ v"
  show ?case
  proof (cases "c = CHR ''/'' \<and> u @ ?x \<noteq> [] \<and> \<not> path_end (hd (u @ ?x))")
    case True
    then have "u \<noteq> []" using Cons.prems by (auto simp: ends_path_def)
    with u have e: "\<exists>y\<in>set u. path_end y" by (auto simp: ends_path_def intro: last_in_set)
    then have "takeWhile (\<lambda>c. \<not> path_end c) (u @ ?x) = takeWhile (\<lambda>c. \<not> path_end c) u"
      "dropWhile (\<lambda>c. \<not> path_end c) (u @ ?x) = dropWhile (\<lambda>c. \<not> path_end c) u @ ?x"
      "dropWhile (\<lambda>c. \<not> path_end c) u \<noteq> []"
      by (auto simp: takeWhile_append dropWhile_append dropWhile_eq_Nil_conv)
    with True show ?thesis
      by (auto intro!: exI [of _ "dropWhile (\<lambda>c. \<not> path_end c) u"])
  next
    case False
    then have eq: "find_slash ((c # u) @ ?x) = map_option (\<lambda>(u, t, r). (c # u, t, r)) (find_slash (u @ ?x))"
      by (metis append_Cons find_slash.simps(2))
    from Cons.IH [OF u] eq show ?thesis by auto
  qed
qed

text \<open>Every path that stands as a word of a command without drives is found.\<close>

lemma mentions_complete:
  assumes w: "w \<noteq> []" "list_all (\<lambda>c. \<not> path_end c) w" "v = [] \<or> path_end (hd v)"
  shows "length (u @ CHR ''/'' # w @ v) \<le> fuel \<Longrightarrow> \<not> sublist drive_mark (u @ CHR ''/'' # w @ v) \<Longrightarrow> ends_path u \<Longrightarrow>
    (rev b @ u, CHR ''/'' # w) \<in> set (rx_find_all fuel absolute_path_pattern b (u @ CHR ''/'' # w @ v))"
proof (induction fuel arbitrary: b u)
  case (Suc fuel)
  let ?s = "u @ CHR ''/'' # w @ v"
  obtain u1 t r where f: "find_slash ?s = Some (u1, t, r)" and
    c: "u1 = u \<and> t = w \<or> (\<exists>u2. u = u1 @ CHR ''/'' # t @ u2 \<and> u2 \<noteq> [] \<and> r = u2 @ CHR ''/'' # w @ v)"
    using find_slash_word [OF w Suc.prems(3)] by blast
  have ff: "rx_find_from absolute_path_pattern b ?s =
      Some ((rev u1 @ b, CHR ''/'' # t @ r), (rev t @ CHR ''/'' # rev u1 @ b, r))"
    using find_abs_pattern [of ?s b] Suc.prems(2) f by auto
  from c show ?case
  proof
    assume "u1 = u \<and> t = w"
    with ff show ?thesis by simp
  next
    assume "\<exists>u2. u = u1 @ CHR ''/'' # t @ u2 \<and> u2 \<noteq> [] \<and> r = u2 @ CHR ''/'' # w @ v"
    then obtain u2 where u2: "u = u1 @ CHR ''/'' # t @ u2" "u2 \<noteq> []" "r = u2 @ CHR ''/'' # w @ v" by blast
    have "ends_path u2" using Suc.prems(3) u2 by (simp add: ends_path_def)
    moreover have "\<not> sublist drive_mark (u2 @ CHR ''/'' # w @ v)"
      using Suc.prems(2) unfolding u2(1) by (simp only: append_assoc append_Cons) (metis append_Cons append_assoc sublist_append)
    ultimately have "(rev (rev t @ CHR ''/'' # rev u1 @ b) @ u2, CHR ''/'' # w)
        \<in> set (rx_find_all fuel absolute_path_pattern (rev t @ CHR ''/'' # rev u1 @ b) (u2 @ CHR ''/'' # w @ v))"
      using Suc.IH [of u2 "rev t @ CHR ''/'' # rev u1 @ b"] Suc.prems u2 by auto
    with ff u2 show ?thesis by simp
  qed
qed simp

section \<open>What the guard lets through\<close>

lemma trim_space_sublist: "sublist (trim_space s) s"
proof -
  have "prefix (trim_space s) (trim_left_space s)" by (simp add: trim_space_def trim_right_prefix)
  moreover have "suffix (trim_left_space s) s"
    using strip_enc_suffix [of space_encs s] by (simp add: trim_left_space_def)
  ultimately show ?thesis unfolding prefix_def suffix_def sublist_def by metis
qed

lemma path_allowed_inside:
  assumes "is_abs wd" "path_allowed wd (path_abs wd cwd) (u, CHR ''/'' # w)" "ends_path u"
  shows "clean (CHR ''/'' # w) \<in> set safe_paths \<or> inside (path_abs wd cwd) (CHR ''/'' # w)"
proof -
  let ?p = "CHR ''/'' # w"
  have p: "path_abs wd ?p = clean ?p" by (simp add: path_abs_def)
  have "\<not> is_web_path u ?p"
  proof
    assume "is_web_path u ?p"
    then obtain x where "u \<noteq> []" "last u = CHR '':''"
      by (auto simp: is_web_path_def web_schemes_def suffix_def split: if_splits)
    with assms(3) show False by (simp add: ends_path_def path_end_def)
  qed
  moreover have "inside (path_abs wd cwd) ?p"
    if "case path_rel (path_abs wd cwd) (clean ?p) of None \<Rightarrow> True | Some rel \<Rightarrow> \<not> prefix ''..'' rel"
  proof (cases "path_rel (path_abs wd cwd) (clean ?p)")
    case None
    have "path_rel (path_abs wd cwd) (clean ?p) \<noteq> None"
      using path_rel_abs [of "path_abs wd cwd" "clean ?p"] assms(1)
      by (cases "elems (path_abs wd cwd) = elems (clean ?p)")
        (simp_all add: path_abs_is_abs is_abs_clean path_rel_def Let_def clean_eq_iff)
    with None show ?thesis by simp
  next
    case (Some r)
    with that rel_not_up [of "path_abs wd cwd" "clean ?p" r] assms(1) show ?thesis
      by (simp add: path_abs_is_abs is_abs_clean elems_clean inside_def)
  qed
  ultimately show ?thesis using assms(2) by (auto simp: path_allowed_def Let_def p)
qed



text \<open>
  Behind a letter, a colon and a backslash the guard takes everything for one path, which it reads below the working
  directory of the process: if that lies in the workspace, the paths behind it pass.
\<close>

lemma drive_hides_path:
  "guard_command ''/w'' (new_exec_tool ''/w'' True None) (''cat x:'' @ [CHR 0x5C] @ ''a /etc/passwd'') ''/w'' = []"
  by code_simp

lemma find_slash_None: "(\<And>u c v. s = u @ CHR ''/'' # c # v \<Longrightarrow> path_end c) \<Longrightarrow> find_slash s = None"
proof (induction s)
  case (Cons c s)
  have "path_end d" if "s = u @ CHR ''/'' # d # v" for u d v
    using Cons.prems [of "c # u" d v] that by simp
  then have "find_slash s = None" using Cons.IH by blast
  moreover have "\<not> (c = CHR ''/'' \<and> s \<noteq> [] \<and> \<not> path_end (hd s))"
    using Cons.prems [of "[]" "hd s" "tl s"] by (cases s) auto
  ultimately show ?case by (simp only: find_slash.simps if_False option.map)
qed simp

text \<open>
  The guard does not see a slash with white space or a quote behind it: a command all of whose slashes are
  like that, \<open>cd / && cat x\<close> or \<open>cat "/"etc"/"passwd\<close>, passes the check of the workspace, wherever it leads.
\<close>

theorem hidden_slashes_pass:
  assumes "\<And>u c v. trim_space command = u @ CHR ''/'' # c # v \<Longrightarrow> path_end c"
    and "CHR 0x5C \<notin> set command" "\<not> sublist ''../'' command"
    and "\<not> any_match (xt_deny t) (to_lower (trim_space command))" "xt_allow t = []"
  shows "guard_command wd t command cwd = []"
proof -
  let ?cmd = "trim_space command"
  have b: "CHR 0x5C \<notin> set ?cmd" using assms(2) set_trim_space by blast
  then have d: "\<not> sublist drive_mark ?cmd" using set_mono_sublist [of drive_mark ?cmd] by (auto simp: drive_mark_def)
  have "rx_find_from absolute_path_pattern [] ?cmd = None"
    using find_abs_pattern [OF d] find_slash_None [OF assms(1)] by simp
  then have "path_mentions ?cmd = []"
    by (cases "length ?cmd") (simp_all add: path_mentions_def)
  moreover have "\<not> str_contains ?cmd [CHR ''.'', CHR ''.'', CHR 0x5C]"
    using b by (auto simp: str_contains_iff sublist_def)
  moreover have "\<not> str_contains ?cmd ''../''"
    using assms(3) trim_space_sublist [of command] sublist_order.order.trans by (auto simp: str_contains_iff)
  ultimately show ?thesis using assms(4,5) by (simp add: guard_command_def guard_workspace_def Let_def)
qed

lemma hidden_slashes_pass_witness:
  "guard_command ''/'' (new_exec_tool ''/w'' True None) (''cat '' @ [CHR 0x22, CHR ''/'', CHR 0x22] @ ''a'') ''/w'' = []"
proof (rule hidden_slashes_pass)
  let ?c = "''cat '' @ [CHR 0x22, CHR ''/'', CHR 0x22] @ ''a''"
  have t: "trim_space ?c = ?c" by code_simp
  show "\<And>u c v. trim_space ?c = u @ CHR ''/'' # c # v \<Longrightarrow> path_end c"
    unfolding t by (auto simp: append_eq_Cons_conv Cons_eq_append_conv path_end_def)
  show "CHR 0x5C \<notin> set ?c" by simp
  show "\<not> sublist ''../'' ?c" by (simp add: sublist_Cons_right)
  show "\<not> any_match (xt_deny (new_exec_tool ''/w'' True None)) (to_lower (trim_space ?c))" by code_simp
  show "xt_allow (new_exec_tool ''/w'' True None) = []" by (simp add: new_exec_tool_def)
qed

section \<open>What the deny patterns stop\<close>

lemma rx_match_seq_iff: "rx_match (Rx_Seq r1 r2) b t a \<longleftrightarrow>
    (\<exists>t1 t2. t = t1 @ t2 \<and> rx_match r1 b t1 (t2 @ a) \<and> rx_match r2 (rev t1 @ b) t2 a)"
proof
  assume "rx_match (Rx_Seq r1 r2) b t a"
  then show "\<exists>t1 t2. t = t1 @ t2 \<and> rx_match r1 b t1 (t2 @ a) \<and> rx_match r2 (rev t1 @ b) t2 a"
    by (rule match_seqE) blast
qed (auto intro: match_seq)

lemma rx_match_chr_iff: "rx_match (rx_chr c) b t a \<longleftrightarrow> t = [c]"
  by (auto simp: rx_chr_def intro: match_char elim: match_charE)

lemma rx_match_lit_iff: "rx_match (rx_lit s) b t a \<longleftrightarrow> t = s"
proof (induction s arbitrary: b t)
  case Nil
  then show ?case by (auto simp: rx_lit_def intro: match_eps elim: match_epsE)
next
  case (Cons c s)
  show ?case
  proof (cases s)
    case Nil
    then show ?thesis by (simp add: rx_lit_def rx_match_chr_iff)
  next
    case (Cons d s')
    with Cons.IH show ?thesis by (auto simp: rx_lit_def rx_match_seq_iff rx_match_chr_iff)
  qed
qed

lemma rx_match_bound_iff: "rx_match Rx_Bound b t a \<longleftrightarrow> t = [] \<and> at_boundary b a"
  by (auto intro: match_bound elim: match_boundE)

lemma rx_match_word_iff:
  "w \<noteq> [] \<Longrightarrow> rx_match (rx_word w) b t a \<longleftrightarrow> t = w \<and> at_boundary b (w @ a) \<and> at_boundary (rev w @ b) a"
  by (auto simp: rx_word_def rx_match_seq_iff rx_match_bound_iff rx_match_lit_iff)

definition dangerous_words :: "string list" where
  "dangerous_words = [''sudo'', ''chown'', ''pkill'', ''killall'', ''kill'', ''eval'']"

definition whole_word :: "string \<Rightarrow> string \<Rightarrow> bool" where
  "whole_word w s \<longleftrightarrow> (\<exists>u v. s = u @ w @ v \<and> (u = [] \<or> \<not> word_char (last u)) \<and> (v = [] \<or> \<not> word_char (hd v)))"

text \<open>
  A command that has one of the dangerous words as a whole word, in any case, is refused and nothing runs,
  unless the deny patterns are switched off or a custom pattern allows the command.
\<close>

theorem dangerous_word_refused:
  assumes "w \<in> set dangerous_words" "whole_word w (to_lower (trim_space command))"
    and "set default_deny_patterns \<subseteq> set (xt_deny t)" "\<not> any_match (xt_custom_allow t) (to_lower (trim_space command))"
    and "str_arg args ''command'' = Some command"
  shows "tr_is_error (exec_execute env t run args channel) \<and>
    (\<nexists>cwd. exec_decide env t args channel command = Run_In cwd)"
proof -
  let ?s = "to_lower (trim_space command)"
  have w: "w \<noteq> []" "list_all word_char w" "rx_word w \<in> set default_deny_patterns"
    using assms(1) by (auto simp: dangerous_words_def default_deny_patterns_def deny_commands_def) code_simp+
  obtain u v where u: "?s = u @ w @ v" "u = [] \<or> \<not> word_char (last u)" "v = [] \<or> \<not> word_char (hd v)"
    using assms(2) by (auto simp: whole_word_def)
  have "at_boundary (rev u) (w @ v)" "at_boundary (rev w @ rev u) v"
    using w u by (auto simp: at_boundary_def hd_rev list_all_iff hd_append)
  then have "rx_match_string (rx_word w) ?s"
    using u(1) w(1) by (auto simp: rx_match_string_iff rx_match_word_iff)
  then have "any_match (xt_deny t) ?s" using w(3) assms(3) by (auto simp: any_match_def list_ex_iff)
  then have g: "guard_command wd t command cwd \<noteq> []" for wd cwd using assms(4) by (simp add: guard_command_def Let_def)
  then have "\<nexists>cwd. exec_decide env t args channel command = Run_In cwd"
    by (auto simp: exec_decide_def Let_def split: sum.splits)
  with assms(5) show ?thesis
    by (auto simp: exec_execute_def error_result_def split: exec_action.split)
qed

lemma dangerous_word_refused_witness:
  "tr_is_error (exec_execute \<lparr>ho_cwd = ''/'', ho_eval = Resolved\<rparr> (new_exec_tool ''/w'' False None)
    (\<lambda>cwd c. None) [(''command'', Any_Str ''a; SUDO ls'')] ''cli'')"
proof -
  have "''sudo'' \<in> set dangerous_words" by code_simp
  moreover have "to_lower (trim_space ''a; SUDO ls'') = ''a; '' @ ''sudo'' @ '' ls''" by code_simp
  then have "whole_word ''sudo'' (to_lower (trim_space ''a; SUDO ls''))"
    unfolding whole_word_def by (intro exI [of _ "''a; ''"] exI [of _ "'' ls''"]) (simp, code_simp)
  moreover have "set default_deny_patterns \<subseteq> set (xt_deny (new_exec_tool ''/w'' False None))" by (simp add: new_exec_tool_def)
  moreover have "\<not> any_match (xt_custom_allow (new_exec_tool ''/w'' False None)) (to_lower (trim_space ''a; SUDO ls''))"
    by (simp add: new_exec_tool_def any_match_def)
  moreover have "str_arg [(''command'', Any_Str ''a; SUDO ls'')] ''command'' = Some ''a; SUDO ls''" by code_simp
  ultimately show ?thesis using dangerous_word_refused by blast
qed

text \<open>The pattern for here-documents is written in capitals and matched against the lowered command.\<close>

lemma heredoc_pattern_dead: "\<not> rx_match_string (rx_seq [rx_lit ''<<'', rx_blanks, rx_lit ''EOF'']) (to_lower s)"
proof
  assume "rx_match_string (rx_seq [rx_lit ''<<'', rx_blanks, rx_lit ''EOF'']) (to_lower s)"
  then have "CHR ''E'' \<in> set (to_lower s)" by (auto simp: rx_match_string_iff rx_match_seq_iff rx_match_lit_iff)
  then obtain c where "lower_char c = CHR ''E''" by (auto simp: set_to_lower)
  moreover have "is_upper_char (CHR ''E'')" by code_simp
  ultimately show False using lower_char_not_upper [of c] by simp
qed

section \<open>What runs\<close>

lemma resolved_inside:
  assumes "is_abs ws" "is_abs r" "path_rel ws r = Some rel" "is_local rel"
  shows "inside ws r"
  using local_rel_abs [OF assms(1,2)] assms(3,4) by (simp add: inside_def)

text \<open>
  C23: A command runs only if its channel may run commands and the guard lets it pass for the very directory it was
  started for: the one \<open>exec_cwd\<close> gives, which for a restricted tool with a workspace is the workspace or a path below
  it.  It then runs in that directory, resolved anew if it is not the workspace itself, and the resolved directory
  lies in the real workspace.
\<close>

theorem exec_runs_checked:
  assumes env: "resolves_absolute env" and run: "exec_decide env t args channel command = Run_In dir"
  shows "(xt_allow_remote t \<or> is_internal_channel (exec_channel args channel)) \<and>
    (\<exists>cwd. exec_cwd env t args = Ok cwd \<and> guard_command (ho_cwd env) t command cwd = [] \<and>
      (if xt_restrict t \<and> xt_working_dir t \<noteq> [] \<and> cwd \<noteq> xt_working_dir t
       then inside (path_abs (ho_cwd env) (xt_working_dir t)) cwd \<and> ho_eval env cwd = Resolved dir \<and>
         inside (real_workspace env (xt_working_dir t)) dir
       else dir = cwd))"
proof -
  from run obtain cwd where ch: "xt_allow_remote t \<or> is_internal_channel (exec_channel args channel)"
    and c: "exec_cwd env t args = Ok cwd" and g: "guard_command (ho_cwd env) t command cwd = []"
    and r: "recheck_cwd env t cwd = Run_In dir"
    by (auto simp: exec_decide_def Let_def split: if_splits sum.splits)
  have "inside (path_abs (ho_cwd env) (xt_working_dir t)) cwd \<and> ho_eval env cwd = Resolved dir \<and>
      inside (real_workspace env (xt_working_dir t)) dir"
    if w: "xt_restrict t" "xt_working_dir t \<noteq> []" "cwd \<noteq> xt_working_dir t"
  proof -
    from w r obtain rel where *: "ho_eval env cwd = Resolved dir"
        "path_rel (case ho_eval env (path_abs (ho_cwd env) (xt_working_dir t)) of
           Resolved w \<Rightarrow> if w = [] then path_abs (ho_cwd env) (xt_working_dir t) else w
         | _ \<Rightarrow> path_abs (ho_cwd env) (xt_working_dir t)) dir = Some rel" "is_local rel"
      by (auto simp: recheck_cwd_def Let_def split: eval_result.splits option.splits if_splits)
    have "(case ho_eval env (path_abs (ho_cwd env) (xt_working_dir t)) of
           Resolved w \<Rightarrow> if w = [] then path_abs (ho_cwd env) (xt_working_dir t) else w
         | _ \<Rightarrow> path_abs (ho_cwd env) (xt_working_dir t)) = real_workspace env (xt_working_dir t)"
    proof -
      have "ho_eval env p \<noteq> Resolved []" for p using env by (force simp: resolves_absolute_def)
      then show ?thesis by (auto simp: real_workspace_def split: eval_result.split)
    qed
    with *(2) have "path_rel (real_workspace env (xt_working_dir t)) dir = Some rel" by (simp only:)
    moreover have "is_abs dir" using env *(1) by (auto simp: resolves_absolute_def)
    ultimately have "inside (real_workspace env (xt_working_dir t)) dir"
      using *(3) by (intro resolved_inside real_workspace_abs [OF env])
    moreover obtain wd p where "validate_path env wd (xt_working_dir t) True = Ok p" "cwd = (if p = [] then ho_cwd env else p)"
      using c w by (auto simp: exec_cwd_def Let_def split: sum.splits option.splits if_splits)
    then have "inside (path_abs (ho_cwd env) (xt_working_dir t)) cwd"
      using validated_path_confined [OF env, of wd "xt_working_dir t" p] by (cases "p = []") auto
    ultimately show ?thesis using *(1) by blast
  qed
  moreover have "dir = cwd" if "\<not> (xt_restrict t \<and> xt_working_dir t \<noteq> [] \<and> cwd \<noteq> xt_working_dir t)"
    using that r by (auto simp: recheck_cwd_def)
  ultimately show ?thesis using ch c g by (intro conjI exI [of _ cwd]) auto
qed

lemma exec_runs_checked_witness:
  defines "env \<equiv> \<lparr>ho_cwd = ''/'', ho_eval = (\<lambda>p. if is_abs p then Resolved p else Not_Exist)\<rparr>"
    and "t \<equiv> new_exec_tool ''/w'' True None"
  shows "exec_decide env t [(''working_dir'', Any_Str ''b'')] ''cli'' ''ls'' = Run_In ''/w/b'' \<and>
    guard_command ''/'' t ''ls'' ''/w/b'' = [] \<and> inside (real_workspace env (xt_working_dir t)) ''/w/b''"
proof -
  have "resolves_absolute env" by (auto simp: resolves_absolute_def env_def is_abs_def split: if_splits)
  moreover have run: "exec_decide env t [(''working_dir'', Any_Str ''b'')] ''cli'' ''ls'' = Run_In ''/w/b''"
    unfolding env_def t_def by code_simp
  moreover have "xt_restrict t" "xt_working_dir t = ''/w''" by (simp_all add: t_def new_exec_tool_def)
  moreover have "exec_cwd env t [(''working_dir'', Any_Str ''b'')] = Ok ''/w/b''" unfolding env_def t_def by code_simp
  moreover have "ho_cwd env = ''/''" by (simp add: env_def)
  ultimately show ?thesis
    using exec_runs_checked [of env t "[(''working_dir'', Any_Str ''b'')]" "''cli''" "''ls''" "''/w/b''"] by simp
qed

end
