(* ===== verification/Cron_Service.thy ===== *)
theory Cron_Service
  imports Prelude
begin

text \<open>
  The scheduler, \<open>src/pkg/cron/service.go\<close> and \<open>history.go\<close>: jobs in memory and in a file other processes
  change too, the tick that runs the due ones, and the history of runs.  The service is one record with
  the file it is kept in; whether the file can be written is part of it.  The next time of a cron expression
  (package gronx) is the parameter \<open>next_tick\<close>, times are milliseconds.
\<close>

section \<open>Jobs\<close>

record cron_schedule =
  sd_kind :: string
  sd_at :: "int option"
  sd_every :: "int option"
  sd_expr :: string

record cron_payload =
  py_message :: string
  py_command :: string
  py_deliver :: bool
  py_channel :: string
  py_to :: string

record cron_job =
  cj_id :: string
  cj_name :: string
  cj_enabled :: bool
  cj_schedule :: cron_schedule
  cj_payload :: cron_payload
  cj_next :: "int option"
  cj_last :: "int option"
  cj_status :: string
  cj_error :: string
  cj_created :: int
  cj_updated :: int
  cj_delete_after :: bool

text \<open>A run, as the history records it.\<close>

record run_record =
  rr_id :: string
  rr_job :: string
  rr_name :: string
  rr_start :: int
  rr_end :: int
  rr_status :: string
  rr_error :: string

text \<open>The file of the jobs; a file that cannot be read or is not JSON leaves no jobs in memory.  A file that is
  JSON but has a field of another type counts as bad as a whole; \<open>json.Unmarshal\<close> keeps what it decoded beside
  the error it returns.\<close>

datatype cron_file = No_File | Bad_File | Jobs_File "cron_job list"

record cron_service =
  cv_jobs :: "cron_job list"
  cv_running :: bool
  cv_file :: cron_file
  cv_writable :: bool
  cv_history :: "run_record list"

text \<open>\<open>int64\<close> arithmetic.\<close>

definition wrap64 :: "int \<Rightarrow> int" where
  "wrap64 x = (x + 2 ^ 63) mod 2 ^ 64 - 2 ^ 63"

section \<open>The store\<close>

text \<open>The flag says whether loading succeeded.\<close>

definition load_store :: "cron_service \<Rightarrow> cron_service \<times> bool" where
  "load_store cs =
    (case cv_file cs of
       No_File \<Rightarrow> (cs\<lparr>cv_jobs := []\<rparr>, True)
     | Bad_File \<Rightarrow> (cs\<lparr>cv_jobs := []\<rparr>, False)
     | Jobs_File jobs \<Rightarrow> (cs\<lparr>cv_jobs := jobs\<rparr>, True))"

definition save_store :: "cron_service \<Rightarrow> cron_service \<times> bool" where
  "save_store cs = (if cv_writable cs then (cs\<lparr>cv_file := Jobs_File (cv_jobs cs)\<rparr>, True) else (cs, False))"

definition new_cron_service :: "cron_file \<Rightarrow> bool \<Rightarrow> run_record list \<Rightarrow> cron_service" where
  "new_cron_service file writable history =
    fst (load_store \<lparr>cv_jobs = [], cv_running = False, cv_file = file, cv_writable = writable, cv_history = history\<rparr>)"

definition find_job :: "cron_service \<Rightarrow> string \<Rightarrow> cron_job option" where
  "find_job cs i = find (\<lambda>j. cj_id j = i) (cv_jobs cs)"

text \<open>A change of the first job with an identifier.\<close>

fun update_first :: "string \<Rightarrow> (cron_job \<Rightarrow> cron_job) \<Rightarrow> cron_job list \<Rightarrow> cron_job list" where
  "update_first i f [] = []"
| "update_first i f (j # js) = (if cj_id j = i then f j # js else j # update_first i f js)"

section \<open>Schedules\<close>

definition compute_next_run :: "(string \<Rightarrow> int \<Rightarrow> int option) \<Rightarrow> cron_schedule \<Rightarrow> int \<Rightarrow> int option" where
  "compute_next_run next_tick s now =
    (if sd_kind s = ''at'' then
       (case sd_at s of Some t \<Rightarrow> if now < t then Some t else None | None \<Rightarrow> None)
     else if sd_kind s = ''every'' then
       (case sd_every s of Some d \<Rightarrow> if d \<le> 0 then None else Some (wrap64 (now + d)) | None \<Rightarrow> None)
     else if sd_kind s = ''cron'' then (if sd_expr s = [] then None else next_tick (sd_expr s) now)
     else None)"

definition recompute_next_runs :: "(string \<Rightarrow> int \<Rightarrow> int option) \<Rightarrow> int \<Rightarrow> cron_service \<Rightarrow> cron_service" where
  "recompute_next_runs next_tick now cs = cs\<lparr>cv_jobs := map (\<lambda>j.
     if cj_enabled j then j\<lparr>cj_next := compute_next_run next_tick (cj_schedule j) now\<rparr> else j) (cv_jobs cs)\<rparr>"

definition start_cron :: "(string \<Rightarrow> int \<Rightarrow> int option) \<Rightarrow> int \<Rightarrow> cron_service \<Rightarrow> cron_service \<times> string option" where
  "start_cron next_tick now cs =
    (if cv_running cs then (cs, None)
     else let (cs1, loaded) = load_store cs in
       if \<not> loaded then (cs1, Some ''failed to load store'')
       else let (cs2, saved) = save_store (recompute_next_runs next_tick now cs1) in
         if \<not> saved then (cs2, Some ''failed to save store'') else (cs2\<lparr>cv_running := True\<rparr>, None))"

definition stop_cron :: "cron_service \<Rightarrow> cron_service" where
  "stop_cron cs = cs\<lparr>cv_running := False\<rparr>"

section \<open>Changing jobs\<close>

definition add_job :: "(string \<Rightarrow> int \<Rightarrow> int option) \<Rightarrow> string \<Rightarrow> int \<Rightarrow> string \<Rightarrow> cron_schedule \<Rightarrow> string \<Rightarrow> bool \<Rightarrow>
    string \<Rightarrow> string \<Rightarrow> cron_service \<Rightarrow> cron_service \<times> cron_job option" where
  "add_job next_tick new_id now name schedule message deliver channel to cs =
    (let job = \<lparr>cj_id = new_id, cj_name = name, cj_enabled = True, cj_schedule = schedule,
           cj_payload = \<lparr>py_message = message, py_command = [], py_deliver = deliver, py_channel = channel, py_to = to\<rparr>,
           cj_next = compute_next_run next_tick schedule now, cj_last = None, cj_status = [], cj_error = [],
           cj_created = now, cj_updated = now, cj_delete_after = (sd_kind schedule = ''at'')\<rparr>;
         (cs1, saved) = save_store (cs\<lparr>cv_jobs := cv_jobs cs @ [job]\<rparr>)
     in (cs1, if saved then Some job else None))"

text \<open>The flag says whether the job was found and saved.\<close>

definition update_job :: "int \<Rightarrow> cron_job \<Rightarrow> cron_service \<Rightarrow> cron_service \<times> bool" where
  "update_job now job cs =
    (case find_job cs (cj_id job) of
       None \<Rightarrow> (cs, False)
     | Some _ \<Rightarrow> save_store (cs\<lparr>cv_jobs := update_first (cj_id job) (\<lambda>_. job\<lparr>cj_updated := now\<rparr>) (cv_jobs cs)\<rparr>))"

definition remove_job :: "string \<Rightarrow> cron_service \<Rightarrow> cron_service \<times> bool" where
  "remove_job i cs =
    (let jobs = filter (\<lambda>j. cj_id j \<noteq> i) (cv_jobs cs); removed = length jobs < length (cv_jobs cs);
         cs1 = cs\<lparr>cv_jobs := jobs\<rparr>
     in (if removed then fst (save_store cs1) else cs1, removed))"

definition enable_job ::
  "(string \<Rightarrow> int \<Rightarrow> int option) \<Rightarrow> int \<Rightarrow> string \<Rightarrow> bool \<Rightarrow> cron_service \<Rightarrow> cron_service \<times> cron_job option" where
  "enable_job next_tick now i enabled cs =
    (case find_job cs i of
       None \<Rightarrow> (cs, None)
     | Some j \<Rightarrow>
        (let j' = j\<lparr>cj_enabled := enabled, cj_updated := now,
             cj_next := (if enabled then compute_next_run next_tick (cj_schedule j) now else None)\<rparr>
         in (fst (save_store (cs\<lparr>cv_jobs := update_first i (\<lambda>_. j') (cv_jobs cs)\<rparr>)), Some j')))"

definition list_jobs :: "bool \<Rightarrow> cron_service \<Rightarrow> cron_job list" where
  "list_jobs include_disabled cs = (if include_disabled then cv_jobs cs else filter cj_enabled (cv_jobs cs))"

definition next_wake :: "cron_service \<Rightarrow> int option" where
  "next_wake cs = foldl (\<lambda>w j. case (if cj_enabled j then cj_next j else None) of
       None \<Rightarrow> w | Some t \<Rightarrow> (case w of None \<Rightarrow> Some t | Some u \<Rightarrow> if t < u then Some t else w)) None (cv_jobs cs)"

definition cron_status :: "cron_service \<Rightarrow> bool \<times> nat \<times> int option" where
  "cron_status cs = (cv_running cs, length (cv_jobs cs), next_wake cs)"

section \<open>History\<close>

definition max_records :: nat where "max_records = 200"

definition add_record :: "run_record \<Rightarrow> run_record list \<Rightarrow> run_record list" where
  "add_record r rs = (let all = rs @ [r] in if max_records < length all then drop (length all - max_records) all else all)"

text \<open>Newest first; \<open>None\<close> is the panic on a slice out of range.\<close>

definition list_records :: "string \<Rightarrow> int \<Rightarrow> int \<Rightarrow> run_record list \<Rightarrow> (run_record list \<times> nat) option" where
  "list_records job offset limit rs =
    (let filtered = (if job = [] then rs else filter (\<lambda>r. rr_job r = job) rs);
         total = length filtered; rev' = rev filtered; end' = min (offset + limit) (int total)
     in if int total \<le> offset then Some ([], total)
        else if offset < 0 \<or> end' < offset then None
        else Some (take (nat (end' - offset)) (drop (nat offset) rev'), total))"

definition clear_records :: "string \<Rightarrow> run_record list \<Rightarrow> run_record list" where
  "clear_records job rs = (if job = [] then [] else filter (\<lambda>r. rr_job r \<noteq> job) rs)"

section \<open>Ticks\<close>

definition is_due :: "int \<Rightarrow> cron_job \<Rightarrow> bool" where
  "is_due now j \<longleftrightarrow> cj_enabled j \<and> (case cj_next j of Some t \<Rightarrow> t \<le> now | None \<Rightarrow> False)"

text \<open>
  One run of a job: the clock before and after, the identifier of its record, and the handler, which sees
  a copy of the job and may itself change the service.  The error is the left of its result.
\<close>

record job_run =
  jr_start :: int
  jr_end :: int
  jr_record :: string
  jr_handler :: "cron_job \<Rightarrow> cron_service \<Rightarrow> string option \<times> cron_service"

text \<open>The first part of a tick, under the lock: the due jobs lose their next time before they run.\<close>

definition collect_due :: "int \<Rightarrow> cron_service \<Rightarrow> cron_service \<times> string list" where
  "collect_due now cs =
    (let cs1 = fst (load_store cs);
         due = map cj_id (filter (is_due now) (cv_jobs cs1))
     in if due = [] then (cs1, [])
        else (fst (save_store (cs1\<lparr>cv_jobs := map (\<lambda>j. if cj_id j \<in> set due then j\<lparr>cj_next := None\<rparr> else j) (cv_jobs cs1)\<rparr>)),
              due))"

definition mark_run :: "job_run \<Rightarrow> string option \<Rightarrow> cron_job \<Rightarrow> cron_job" where
  "mark_run r err j = j\<lparr>cj_last := Some (jr_start r), cj_updated := jr_end r,
     cj_status := (case err of Some _ \<Rightarrow> ''error'' | None \<Rightarrow> ''ok''),
     cj_error := (case err of Some e \<Rightarrow> e | None \<Rightarrow> [])\<rparr>"

definition run_entry :: "job_run \<Rightarrow> string option \<Rightarrow> cron_job \<Rightarrow> run_record" where
  "run_entry r err j = \<lparr>rr_id = jr_record r, rr_job = cj_id j, rr_name = cj_name j, rr_start = jr_start r,
     rr_end = jr_end r, rr_status = (case err of Some _ \<Rightarrow> ''error'' | None \<Rightarrow> ''ok''),
     rr_error = (case err of Some e \<Rightarrow> e | None \<Rightarrow> [])\<rparr>"

text \<open>What becomes of a job after its run.\<close>

definition reschedule :: "(string \<Rightarrow> int \<Rightarrow> int option) \<Rightarrow> int \<Rightarrow> cron_job \<Rightarrow> cron_service \<Rightarrow> cron_service" where
  "reschedule next_tick now j cs =
    (if sd_kind (cj_schedule j) = ''at'' then
       (if cj_delete_after j then fst (remove_job (cj_id j) cs)
        else cs\<lparr>cv_jobs := update_first (cj_id j) (\<lambda>j. j\<lparr>cj_enabled := False, cj_next := None\<rparr>) (cv_jobs cs)\<rparr>)
     else cs\<lparr>cv_jobs := update_first (cj_id j)
       (\<lambda>j. j\<lparr>cj_next := compute_next_run next_tick (cj_schedule j) now\<rparr>) (cv_jobs cs)\<rparr>)"

text \<open>A run, with the copy of the job the handler was given.\<close>

definition execute_job ::
  "(string \<Rightarrow> int \<Rightarrow> int option) \<Rightarrow> job_run \<Rightarrow> string \<Rightarrow> cron_service \<Rightarrow> cron_service \<times> cron_job list" where
  "execute_job next_tick r i cs =
    (case find_job cs i of
       None \<Rightarrow> (cs, [])
     | Some copy \<Rightarrow>
        (let (err, cs1) = jr_handler r copy cs in
         case find_job cs1 i of
           None \<Rightarrow> (cs1, [copy])
         | Some j \<Rightarrow>
            (let cs2 = cs1\<lparr>cv_jobs := update_first i (mark_run r err) (cv_jobs cs1),
                     cv_history := add_record (run_entry r err copy) (cv_history cs1)\<rparr>
             in (fst (save_store (reschedule next_tick (jr_end r) j cs2)), [copy]))))"

text \<open>The due jobs one after the other; \<open>runs k\<close> is the \<open>k\<close>-th run of the tick.\<close>

fun run_due :: "(string \<Rightarrow> int \<Rightarrow> int option) \<Rightarrow> (nat \<Rightarrow> job_run) \<Rightarrow> nat \<Rightarrow> string list \<Rightarrow> cron_service \<Rightarrow>
    cron_service \<times> cron_job list" where
  "run_due next_tick runs k [] cs = (cs, [])"
| "run_due next_tick runs k (i # is) cs =
    (let (cs1, copy) = execute_job next_tick (runs k) i cs; (cs2, copies) = run_due next_tick runs (Suc k) is cs1
     in (cs2, copy @ copies))"

definition check_jobs :: "(string \<Rightarrow> int \<Rightarrow> int option) \<Rightarrow> int \<Rightarrow> (nat \<Rightarrow> job_run) \<Rightarrow> cron_service \<Rightarrow>
    cron_service \<times> cron_job list" where
  "check_jobs next_tick now runs cs =
    (if \<not> cv_running cs then (cs, [])
     else let (cs1, due) = collect_due now cs in run_due next_tick runs 0 due cs1)"

section \<open>The handlers of the web interface\<close>

text \<open>Another process with its own service on the same file; it loads the file before each request.\<close>

definition web_delete :: "string \<Rightarrow> cron_service \<Rightarrow> cron_service \<times> bool" where
  "web_delete i cs = remove_job i (fst (load_store cs))"

definition web_update :: "int \<Rightarrow> string \<Rightarrow> cron_job \<Rightarrow> cron_service \<Rightarrow> cron_service \<times> bool" where
  "web_update now i job cs = update_job now (job\<lparr>cj_id := i\<rparr>) (fst (load_store cs))"

definition web_enable ::
  "(string \<Rightarrow> int \<Rightarrow> int option) \<Rightarrow> int \<Rightarrow> string \<Rightarrow> bool \<Rightarrow> cron_service \<Rightarrow> cron_service \<times> cron_job option" where
  "web_enable next_tick now i enabled cs = enable_job next_tick now i enabled (fst (load_store cs))"

end
