(* ===== verification/Cron_Runs.thy ===== *)
theory Cron_Runs
  imports Cron_Service
begin

text \<open>
  What the scheduler of \<open>Cron_Service\<close> does over its ticks: one tick against a specification over the list of
  jobs, the spacing of recurring jobs, and the runs that are lost or repeated when the file fails.
\<close>

section \<open>A tick as a function of the jobs\<close>

definition reset_due :: "int \<Rightarrow> cron_job \<Rightarrow> cron_job" where
  "reset_due now j = (if is_due now j then j\<lparr>cj_next := None\<rparr> else j)"

text \<open>The job a run leaves: none for a one-time job that is deleted, else the job with its next time.\<close>

definition after_run :: "(string \<Rightarrow> int \<Rightarrow> int option) \<Rightarrow> job_run \<Rightarrow> string option \<Rightarrow> cron_job \<Rightarrow> cron_job list" where
  "after_run next_tick r err j =
    (let j1 = mark_run r err (j\<lparr>cj_next := None\<rparr>) in
     if sd_kind (cj_schedule j) = ''at'' then (if cj_delete_after j then [] else [j1\<lparr>cj_enabled := False\<rparr>])
     else [j1\<lparr>cj_next := compute_next_run next_tick (cj_schedule j) (jr_end r)\<rparr>])"

fun tick_spec :: "(string \<Rightarrow> int \<Rightarrow> int option) \<Rightarrow> int \<Rightarrow> (nat \<Rightarrow> job_run) \<Rightarrow> (nat \<Rightarrow> string option) \<Rightarrow> nat \<Rightarrow>
    cron_job list \<Rightarrow> cron_job list" where
  "tick_spec next_tick now runs errs k [] = []"
| "tick_spec next_tick now runs errs k (j # js) =
    (if is_due now j then after_run next_tick (runs k) (errs k) j @ tick_spec next_tick now runs errs (Suc k) js
     else j # tick_spec next_tick now runs errs k js)"

lemma update_first_append:
  "i \<notin> cj_id ` set xs \<Longrightarrow> update_first i f (xs @ ys) = xs @ update_first i f ys"
  by (induction xs) auto

lemma find_append_ids:
  "i \<notin> cj_id ` set xs \<Longrightarrow> find (\<lambda>j. cj_id j = i) (xs @ ys) = find (\<lambda>j. cj_id j = i) ys"
  by (induction xs) auto

lemma filter_ids: "i \<notin> cj_id ` set xs \<Longrightarrow> filter (\<lambda>j. cj_id j \<noteq> i) xs = xs"
  by (induction xs) auto

lemma reset_due_id [simp]: "cj_id (reset_due now j) = cj_id j"
  by (simp add: reset_due_def)

lemma mark_run_simps [simp]:
  "cj_id (mark_run r e j) = cj_id j" "cj_schedule (mark_run r e j) = cj_schedule j"
  "cj_delete_after (mark_run r e j) = cj_delete_after j"
  by (simp_all add: mark_run_def)

text \<open>Handlers that leave the service alone; the \<open>k\<close>-th one fails with \<open>errs k\<close>.\<close>

definition plain_handlers :: "(nat \<Rightarrow> job_run) \<Rightarrow> (nat \<Rightarrow> string option) \<Rightarrow> bool" where
  "plain_handlers runs errs \<longleftrightarrow> (\<forall>k j cs. jr_handler (runs k) j cs = (errs k, cs))"

text \<open>The file after an operation: the jobs, if it can be written.\<close>

definition same_host :: "cron_service \<Rightarrow> cron_service \<Rightarrow> bool" where
  "same_host cs cs' \<longleftrightarrow> cv_writable cs' = cv_writable cs \<and> cv_running cs' = cv_running cs \<and>
    cv_file cs' = (if cv_writable cs then Jobs_File (cv_jobs cs') else cv_file cs)"

lemma filter_id_single:
  "distinct (map cj_id js) \<Longrightarrow> j \<in> set js \<Longrightarrow> filter (\<lambda>c. cj_id c = cj_id j) js = [j]"
proof (induction js)
  case (Cons a js)
  show ?case
  proof (cases "a = j")
    case True
    with Cons.prems have "filter (\<lambda>c. cj_id c = cj_id j) js = []"
      by (simp add: filter_empty_conv) (metis image_eqI)
    with True show ?thesis by simp
  next
    case False
    with Cons show ?thesis by (auto simp: image_iff)
  qed
qed simp

lemma execute_one:
  assumes jobs: "cv_jobs cs = xs @ j\<lparr>cj_next := None\<rparr> # ys" and h: "plain_handlers runs errs"
    and d: "cj_id j \<notin> cj_id ` set xs" "cj_id j \<notin> cj_id ` set ys"
  shows "\<exists>cs'. execute_job next_tick (runs k) (cj_id j) cs = (cs', [j\<lparr>cj_next := None\<rparr>]) \<and>
    cv_jobs cs' = xs @ after_run next_tick (runs k) (errs k) j @ ys \<and> same_host cs cs'"
proof -
  have f: "find_job cs (cj_id j) = Some (j\<lparr>cj_next := None\<rparr>)"
    using jobs d by (simp add: find_job_def find_append_ids)
  then show ?thesis
    using h d jobs
    by (auto simp: execute_job_def plain_handlers_def reschedule_def remove_job_def save_store_def Let_def
        after_run_def mark_run_def update_first_append filter_ids same_host_def)
qed

lemma run_due_spec:
  assumes h: "plain_handlers runs errs"
    and jobs: "cv_jobs cs = xs @ map (reset_due now) js" and d: "distinct (map cj_id (xs @ js))"
    and disk: "cv_writable cs \<longrightarrow> cv_file cs = Jobs_File (cv_jobs cs)"
  shows "\<exists>cs'. run_due next_tick runs k (map cj_id (filter (is_due now) js)) cs =
      (cs', map (reset_due now) (filter (is_due now) js)) \<and>
    cv_jobs cs' = xs @ tick_spec next_tick now runs errs k js \<and> same_host cs cs'"
  using jobs d disk
proof (induction js arbitrary: cs xs k)
  case Nil
  then show ?case by (simp add: same_host_def)
next
  case (Cons j js)
  show ?case
  proof (cases "is_due now j")
    case False
    then have "cv_jobs cs = (xs @ [j]) @ map (reset_due now) js" using Cons.prems by (simp add: reset_due_def)
    from Cons.IH [OF this _ Cons.prems(3)] Cons.prems(2) False show ?thesis by simp
  next
    case True
    have jobs1: "cv_jobs cs = xs @ j\<lparr>cj_next := None\<rparr> # map (reset_due now) js"
      using Cons.prems(1) True by (simp add: reset_due_def)
    have ids: "cj_id j \<notin> cj_id ` set xs" "cj_id j \<notin> cj_id ` set (map (reset_due now) js)"
      using Cons.prems(2) by (auto simp: image_image)
    obtain cs1 where c1: "execute_job next_tick (runs k) (cj_id j) cs = (cs1, [j\<lparr>cj_next := None\<rparr>])"
        "cv_jobs cs1 = (xs @ after_run next_tick (runs k) (errs k) j) @ map (reset_due now) js" "same_host cs cs1"
      using execute_one [OF jobs1 h ids, of next_tick k] by auto
    have "set (map cj_id (after_run next_tick (runs k) (errs k) j)) \<subseteq> {cj_id j}"
      "distinct (map cj_id (after_run next_tick (runs k) (errs k) j))"
      by (auto simp: after_run_def Let_def mark_run_def)
    moreover have "cj_id j \<notin> set (map cj_id xs)" "cj_id j \<notin> set (map cj_id js)"
      "distinct (map cj_id xs)" "distinct (map cj_id js)" "set (map cj_id xs) \<inter> set (map cj_id js) = {}"
      using Cons.prems(2) by auto
    ultimately have d1: "distinct (map cj_id ((xs @ after_run next_tick (runs k) (errs k) j) @ js))"
      unfolding map_append distinct_append set_append by blast
    have "cv_writable cs1 \<longrightarrow> cv_file cs1 = Jobs_File (cv_jobs cs1)" using c1(3) by (simp add: same_host_def)
    from Cons.IH [OF c1(2) d1 this, of "Suc k"] c1 True show ?thesis
      by (auto simp: reset_due_def same_host_def)
  qed
qed

text \<open>A tick, whether the file can be written or not.\<close>

lemma check_jobs_spec:
  assumes "cv_running cs" "cv_file cs = Jobs_File jobs" "distinct (map cj_id jobs)" "plain_handlers runs errs"
  shows "\<exists>cs'. check_jobs next_tick now runs cs = (cs', map (reset_due now) (filter (is_due now) jobs)) \<and>
    cv_jobs cs' = tick_spec next_tick now runs errs 0 jobs \<and> same_host cs cs'"
proof -
  let ?due = "map cj_id (filter (is_due now) jobs)"
  have ids: "cj_id j \<in> set ?due \<longleftrightarrow> is_due now j" if "j \<in> set jobs" for j
    using that assms(3) by (auto simp: distinct_map inj_on_def)
  obtain cs1 where c1: "collect_due now cs = (cs1, ?due)" "cv_jobs cs1 = [] @ map (reset_due now) jobs"
      "same_host cs cs1"
  proof (cases "?due = []")
    case True
    then have "\<forall>j\<in>set jobs. \<not> is_due now j" by (auto simp: filter_empty_conv)
    then have "map (reset_due now) jobs = jobs" by (simp add: reset_due_def map_idI)
    with True that [of "cs\<lparr>cv_jobs := jobs\<rparr>"] assms(1,2) show ?thesis
      by (simp add: collect_due_def load_store_def same_host_def)
  next
    case False
    have "map (\<lambda>j. if cj_id j \<in> set ?due then j\<lparr>cj_next := None\<rparr> else j) jobs = map (reset_due now) jobs"
      using ids by (intro map_cong) (simp_all add: reset_due_def)
    with False that assms(1,2) show ?thesis
      by (cases "cv_writable cs") (simp_all add: collect_due_def load_store_def save_store_def same_host_def Let_def)
  qed
  have "cv_writable cs1 \<longrightarrow> cv_file cs1 = Jobs_File (cv_jobs cs1)" using c1(3) by (simp add: same_host_def)
  from run_due_spec [OF assms(4) c1(2) _ this, of next_tick 0] assms(1,3) c1(1,3) show ?thesis
    by (auto simp: check_jobs_def same_host_def)
qed

text \<open>
  C20: A tick of a running scheduler runs every due job exactly once and in order, and no other one; the jobs
  that were not due are untouched, a one-time job is gone (or disabled) after its run, and every other
  one has its next time counted from the end of the run.  The file holds the new jobs.
\<close>

theorem tick_implements_spec:
  assumes "cv_running cs" "cv_writable cs" "cv_file cs = Jobs_File jobs" "distinct (map cj_id jobs)"
    and "plain_handlers runs errs" and "check_jobs next_tick now runs cs = (cs', copies)"
  shows "copies = map (reset_due now) (filter (is_due now) jobs) \<and>
    cv_jobs cs' = tick_spec next_tick now runs errs 0 jobs \<and> cv_file cs' = Jobs_File (cv_jobs cs') \<and> cv_running cs'"
  using check_jobs_spec [OF assms(1,3,4,5), of next_tick now] assms(1,2,6) by (auto simp: same_host_def)

section \<open>Many ticks\<close>

text \<open>Ticks with their times and handlers, and the copies of the jobs each one ran.\<close>

fun ticks :: "(string \<Rightarrow> int \<Rightarrow> int option) \<Rightarrow> (int \<times> (nat \<Rightarrow> job_run)) list \<Rightarrow> cron_service \<Rightarrow>
    cron_service \<times> cron_job list list" where
  "ticks next_tick [] cs = (cs, [])"
| "ticks next_tick ((now, runs) # ts) cs =
    (let (cs1, copies) = check_jobs next_tick now runs cs; (cs2, rest) = ticks next_tick ts cs1
     in (cs2, copies # rest))"

lemma tick_spec_ids:
  "set (map cj_id (tick_spec nt now runs errs k js)) \<subseteq> set (map cj_id js) \<and>
   (distinct (map cj_id js) \<longrightarrow> distinct (map cj_id (tick_spec nt now runs errs k js)))"
proof (induction js arbitrary: k)
  case (Cons j js)
  have a: "set (map cj_id (after_run nt (runs k) (errs k) j)) \<subseteq> {cj_id j}"
    "distinct (map cj_id (after_run nt (runs k) (errs k) j))"
    by (auto simp: after_run_def Let_def mark_run_def)
  show ?case using Cons.IH [of k] Cons.IH [of "Suc k"] a
    unfolding tick_spec.simps by (auto simp: disjoint_iff subset_iff)
qed simp

lemma tick_spec_keeps: "j \<in> set js \<Longrightarrow> \<not> is_due now j \<Longrightarrow> j \<in> set (tick_spec nt now runs errs k js)"
  by (induction js arbitrary: k) auto

text \<open>A scheduler that works: running, the file in step with the jobs.\<close>

definition healthy :: "cron_service \<Rightarrow> cron_job list \<Rightarrow> bool" where
  "healthy cs jobs \<longleftrightarrow> cv_running cs \<and> cv_writable cs \<and> cv_file cs = Jobs_File jobs \<and> distinct (map cj_id jobs)"

lemma healthy_tick:
  assumes "healthy cs jobs" "plain_handlers runs errs"
  shows "\<exists>cs'. check_jobs nt now runs cs = (cs', map (reset_due now) (filter (is_due now) jobs)) \<and>
    healthy cs' (tick_spec nt now runs errs 0 jobs)"
  using check_jobs_spec [of cs jobs runs errs nt now] tick_spec_ids [of nt now runs errs 0 jobs] assms
  by (auto simp: healthy_def same_host_def)

text \<open>Ticks at which a job is not due leave it alone.\<close>

lemma ticks_not_due:
  assumes "healthy cs jobs" "j \<in> set jobs"
    and "\<forall>(now, runs)\<in>set ts. \<not> is_due now j \<and> (\<exists>errs. plain_handlers runs errs)"
  shows "\<exists>cs' jobs' css. ticks nt ts cs = (cs', css) \<and> healthy cs' jobs' \<and> j \<in> set jobs' \<and>
    (\<forall>copies\<in>set css. cj_id j \<notin> cj_id ` set copies)"
  using assms
proof (induction ts arbitrary: cs jobs)
  case (Cons t ts)
  obtain now runs where t: "t = (now, runs)" by (cases t)
  with Cons.prems(3) obtain errs where e: "plain_handlers runs errs" "\<not> is_due now j" by auto
  from healthy_tick [OF Cons.prems(1) e(1)] obtain cs1 where
    c: "check_jobs nt now runs cs = (cs1, map (reset_due now) (filter (is_due now) jobs))"
      "healthy cs1 (tick_spec nt now runs errs 0 jobs)" by blast
  have "cj_id j \<notin> cj_id ` set (filter (is_due now) jobs)"
    using Cons.prems(1,2) e(2) by (auto simp: healthy_def distinct_map inj_on_def)
  with Cons.IH [OF c(2) tick_spec_keeps [OF Cons.prems(2) e(2)]] Cons.prems(3) c(1) t show ?case
    by (fastforce simp: image_image)
qed auto

lemma tick_spec_after:
  "x \<in> set (tick_spec nt now runs errs k js) \<Longrightarrow> distinct (map cj_id js) \<Longrightarrow> j \<in> set js \<Longrightarrow> is_due now j \<Longrightarrow>
    cj_id x = cj_id j \<Longrightarrow> \<exists>k. x \<in> set (after_run nt (runs k) (errs k) j)"
proof (induction js arbitrary: k)
  case (Cons a js)
  have ids: "cj_id y = cj_id a" if "y \<in> set (after_run nt (runs k) (errs k) a)" for y
    using that by (auto simp: after_run_def Let_def mark_run_def split: if_splits)
  have sub: "cj_id y \<in> cj_id ` set js" if "y \<in> set (tick_spec nt now runs errs k' js)" for y k'
    using tick_spec_ids [of nt now runs errs k' js] that by auto
  show ?case
  proof (cases "a = j")
    case True
    with Cons.prems have "cj_id x \<notin> cj_id ` set js" by simp
    with True Cons.prems(1,4) sub show ?thesis by (auto split: if_splits)
  next
    case False
    with Cons.prems have "cj_id x \<noteq> cj_id a" "j \<in> set js" by (auto simp: image_iff)
    with Cons.prems Cons.IH ids show ?thesis by (auto split: if_splits)
  qed
qed simp

text \<open>
  A job that waits for its time is left alone by every tick before it, and is run exactly once by the first
  tick at or after it; what is left of it is what its run makes of it.
\<close>

lemma waiting_job_runs:
  assumes "healthy cs jobs" "j \<in> set jobs" "cj_enabled j" "cj_next j = Some time"
    and "\<forall>(now, runs)\<in>set early. now < time \<and> (\<exists>errs. plain_handlers runs errs)"
    and "time \<le> now" "plain_handlers runs errs"
    and "ticks next_tick (early @ [(now, runs)]) cs = (cs', css)"
  shows "(\<forall>copies\<in>set (butlast css). cj_id j \<notin> cj_id ` set copies) \<and>
    filter (\<lambda>c. cj_id c = cj_id j) (last css) = [j\<lparr>cj_next := None\<rparr>] \<and>
    (\<forall>x\<in>set (cv_jobs cs'). cj_id x = cj_id j \<longrightarrow> (\<exists>k. x \<in> set (after_run next_tick (runs k) (errs k) j)))"
proof -
  have split: "ticks next_tick (ts @ us) cs = (let (cs1, a) = ticks next_tick ts cs; (cs2, b) = ticks next_tick us cs1
      in (cs2, a @ b))" for ts us cs
    by (induction ts arbitrary: cs) (auto simp: Let_def split: prod.splits)
  have "\<forall>(now, runs)\<in>set early. \<not> is_due now j \<and> (\<exists>errs. plain_handlers runs errs)"
    using assms(4,5) by (auto simp: is_due_def)
  from ticks_not_due [OF assms(1,2) this, of next_tick] obtain cs1 jobs1 a where
    a: "ticks next_tick early cs = (cs1, a)" "healthy cs1 jobs1" "j \<in> set jobs1"
      "\<forall>copies\<in>set a. cj_id j \<notin> cj_id ` set copies" by blast
  from check_jobs_spec [of cs1 jobs1 runs errs next_tick now] a(2) assms(7) obtain cs2 where
    c: "check_jobs next_tick now runs cs1 = (cs2, map (reset_due now) (filter (is_due now) jobs1))"
      "cv_jobs cs2 = tick_spec next_tick now runs errs 0 jobs1" by (auto simp: healthy_def)
  have eq: "css = a @ [map (reset_due now) (filter (is_due now) jobs1)]" "cs' = cs2"
    using assms(8) a(1) c(1) by (simp_all add: split)
  have due: "is_due now j" using assms(3,4,6) by (simp add: is_due_def)
  have "filter (\<lambda>c. cj_id c = cj_id j) (map (reset_due now) (filter (is_due now) jobs1)) =
      map (reset_due now) (filter (is_due now) (filter (\<lambda>c. cj_id c = cj_id j) jobs1))"
    by (simp add: filter_map comp_def conj_commute)
  moreover have "filter (\<lambda>c. cj_id c = cj_id j) jobs1 = [j]"
    using a(2,3) by (auto simp: healthy_def dest: filter_id_single)
  ultimately have "filter (\<lambda>c. cj_id c = cj_id j) (last css) = [j\<lparr>cj_next := None\<rparr>]"
    using due eq(1) by (simp add: reset_due_def)
  moreover have "\<exists>k. x \<in> set (after_run next_tick (runs k) (errs k) j)"
    if "x \<in> set (cv_jobs cs')" "cj_id x = cj_id j" for x
    using tick_spec_after [of x next_tick now runs errs 0 jobs1 j] that eq(2) c(2) a(2,3) due
    by (auto simp: healthy_def)
  ultimately show ?thesis using a(4) eq(1) by simp
qed

section \<open>Runs that are lost or repeated\<close>

lemma recompute_mem:
  "j \<in> set jobs \<Longrightarrow> cj_enabled j \<Longrightarrow>
    j\<lparr>cj_next := compute_next_run nt (cj_schedule j) now\<rparr> \<in> set (cv_jobs (recompute_next_runs nt now (cs\<lparr>cv_jobs := jobs\<rparr>)))"
  by (force simp: recompute_next_runs_def image_iff)

lemma recompute_simps [simp]:
  "map cj_id (cv_jobs (recompute_next_runs nt now cs)) = map cj_id (cv_jobs cs)"
  "cv_running (recompute_next_runs nt now cs) = cv_running cs"
  "cv_writable (recompute_next_runs nt now cs) = cv_writable cs"
  by (auto simp: recompute_next_runs_def)

lemma start_healthy:
  assumes "\<not> cv_running cs" "cv_writable cs" "cv_file cs = Jobs_File jobs" "distinct (map cj_id jobs)"
  shows "\<exists>cs'. start_cron nt now cs = (cs', None) \<and>
    healthy cs' (cv_jobs (recompute_next_runs nt now (cs\<lparr>cv_jobs := jobs\<rparr>)))"
  using assms by (simp add: start_cron_def load_store_def save_store_def healthy_def)

text \<open>
  A one-time job whose time has passed when the scheduler starts is lost: it stays enabled and no
  tick ever runs it.
\<close>

theorem missed_one_shot_never_runs:
  assumes "\<not> cv_running cs" "cv_writable cs" "cv_file cs = Jobs_File jobs" "distinct (map cj_id jobs)"
    and "j \<in> set jobs" "cj_enabled j" "sd_kind (cj_schedule j) = ''at''" "sd_at (cj_schedule j) = Some time" "time \<le> now"
    and "\<forall>(_, runs)\<in>set ts. \<exists>errs. plain_handlers runs errs"
    and "ticks next_tick ts (fst (start_cron next_tick now cs)) = (cs', css)"
  shows "j\<lparr>cj_next := None\<rparr> \<in> set (cv_jobs (fst (load_store cs'))) \<and> (\<forall>copies\<in>set css. cj_id j \<notin> cj_id ` set copies)"
proof -
  let ?j = "j\<lparr>cj_next := None\<rparr>"
  obtain cs1 jobs1 where s: "start_cron next_tick now cs = (cs1, None)" "healthy cs1 jobs1" "?j \<in> set jobs1"
  proof -
    have "compute_next_run next_tick (cj_schedule j) now = None" using assms(7-9) by (simp add: compute_next_run_def)
    with recompute_mem [OF assms(5,6), of next_tick now cs] start_healthy [OF assms(1-4), of next_tick now] that
    show ?thesis by auto
  qed
  have "\<forall>(now, runs)\<in>set ts. \<not> is_due now ?j \<and> (\<exists>errs. plain_handlers runs errs)"
    using assms(10) by (auto simp: is_due_def)
  from ticks_not_due [OF s(2,3) this, of next_tick] s(1) assms(11) show ?thesis
    by (auto simp: healthy_def load_store_def)
qed

text \<open>
  While the file cannot be written, a job that is due is run again by every tick, whatever its interval:
  its new time is forgotten when the next tick loads the file.
\<close>

theorem unwritable_file_repeats_runs:
  assumes "cv_running cs" "\<not> cv_writable cs" "cv_file cs = Jobs_File jobs" "distinct (map cj_id jobs)"
    and "j \<in> set jobs" "cj_enabled j" "cj_next j = Some time"
    and "\<forall>(now, runs)\<in>set ts. time \<le> now \<and> (\<exists>errs. plain_handlers runs errs)"
    and "ticks next_tick ts cs = (cs', css)"
  shows "length css = length ts \<and> (\<forall>copies\<in>set css. j\<lparr>cj_next := None\<rparr> \<in> set copies)"
  using assms(1-3,8,9)
proof (induction ts arbitrary: cs cs' css)
  case (Cons t ts)
  obtain now runs where t: "t = (now, runs)" by (cases t)
  with Cons.prems(4) obtain errs where e: "plain_handlers runs errs" "time \<le> now" by auto
  from check_jobs_spec [OF Cons.prems(1,3) assms(4) e(1)] obtain cs1 where
    c: "check_jobs next_tick now runs cs = (cs1, map (reset_due now) (filter (is_due now) jobs))" "same_host cs cs1" by blast
  have "is_due now j" using assms(6,7) e(2) by (simp add: is_due_def)
  then have "j\<lparr>cj_next := None\<rparr> \<in> set (map (reset_due now) (filter (is_due now) jobs))"
    using assms(5) by (force simp: reset_due_def)
  moreover have "cv_running cs1" "\<not> cv_writable cs1" "cv_file cs1 = Jobs_File jobs"
    using c(2) Cons.prems(1-3) by (auto simp: same_host_def)
  ultimately show ?case using Cons.IH [of cs1] Cons.prems(4,5) c(1) t by (auto split: prod.splits)
qed simp

text \<open>
  What another process writes to the file while a job runs is lost: after the run the file holds the
  jobs as the scheduler knew them, deleted ones included.
\<close>

theorem run_undoes_external_deletion:
  assumes "healthy cs jobs" "cv_jobs cs = jobs" "j \<in> set jobs" "d \<in> set jobs" "cj_id d \<noteq> cj_id j"
    and "jr_handler r = (\<lambda>copy cs. (None, cs\<lparr>cv_file := cv_file (fst (web_delete (cj_id d) cs))\<rparr>))"
  shows "\<exists>jobs'. cv_file (fst (execute_job next_tick r (cj_id j) cs)) = Jobs_File jobs' \<and> d \<in> set jobs'"
proof -
  have keep: "d \<in> set (update_first (cj_id j) f js)" if "d \<in> set js" for f js
    using that assms(5) by (induction js) auto
  have "find_job cs (cj_id j) \<noteq> None"
    using assms(2,3) by (auto simp: find_job_def find_eq_None_iff)
  then obtain y where y: "find_job cs (cj_id j) = Some y" by auto
  then have "cj_id y = cj_id j" by (auto simp: find_job_def dest: find_SomeD)
  with y assms(1,2,4-6) keep show ?thesis
    by (auto simp: execute_job_def find_job_def healthy_def reschedule_def remove_job_def save_store_def Let_def)
qed

text \<open>A file that cannot be read for a moment leaves no jobs in memory; the next job added is then the only one.\<close>

lemma unreadable_file_loses_jobs:
  assumes "cv_running cs" "cv_file cs = Bad_File" "cv_writable cs"
  shows "check_jobs nt now runs cs = (cs\<lparr>cv_jobs := []\<rparr>, []) \<and>
    (\<exists>job. cv_file (fst (add_job nt i now name sch msg dl ch to (cs\<lparr>cv_jobs := []\<rparr>))) = Jobs_File [job])"
  using assms by (simp add: check_jobs_def collect_due_def load_store_def add_job_def save_store_def Let_def)

section \<open>A concrete scheduler\<close>

definition demo_job :: "string \<Rightarrow> cron_schedule \<Rightarrow> int option \<Rightarrow> cron_job" where
  "demo_job i sch next = \<lparr>cj_id = i, cj_name = i, cj_enabled = True, cj_schedule = sch,
     cj_payload = \<lparr>py_message = ''m'', py_command = [], py_deliver = True, py_channel = ''s'', py_to = ''42''\<rparr>,
     cj_next = next, cj_last = None, cj_status = [], cj_error = [], cj_created = 0, cj_updated = 0,
     cj_delete_after = (sd_kind sch = ''at'')\<rparr>"

definition demo_every :: cron_schedule where
  "demo_every = \<lparr>sd_kind = ''every'', sd_at = None, sd_every = Some 60000, sd_expr = []\<rparr>"

definition demo_at :: cron_schedule where
  "demo_at = \<lparr>sd_kind = ''at'', sd_at = Some 5000, sd_every = None, sd_expr = []\<rparr>"

definition demo_runs :: "nat \<Rightarrow> job_run" where
  "demo_runs k = \<lparr>jr_start = 6000, jr_end = 6001, jr_record = ''r'', jr_handler = (\<lambda>j cs. (None, cs))\<rparr>"

definition demo_service :: "bool \<Rightarrow> bool \<Rightarrow> cron_job list \<Rightarrow> cron_service" where
  "demo_service running writable jobs = \<lparr>cv_jobs = jobs, cv_running = running, cv_file = Jobs_File jobs,
     cv_writable = writable, cv_history = []\<rparr>"

lemma demo_handlers: "plain_handlers demo_runs (\<lambda>k. None)"
  by (simp add: plain_handlers_def demo_runs_def)

lemma demo_service_simps [simp]:
  "cv_running (demo_service r w js) = r" "cv_writable (demo_service r w js) = w"
  "cv_file (demo_service r w js) = Jobs_File js" "cv_jobs (demo_service r w js) = js"
  by (simp_all add: demo_service_def)

lemma tick_implements_spec_witness:
  "let jobs = [demo_job ''a'' demo_at (Some 5000), demo_job ''b'' demo_every (Some 60000)];
       r = check_jobs (\<lambda>e t. None) 6000 demo_runs (demo_service True True jobs)
   in map cj_id (snd r) = [''a''] \<and> cv_jobs (fst r) = [demo_job ''b'' demo_every (Some 60000)]"
proof -
  let ?jobs = "[demo_job ''a'' demo_at (Some 5000), demo_job ''b'' demo_every (Some 60000)]"
  obtain cs' copies where c: "check_jobs (\<lambda>e t. None) 6000 demo_runs (demo_service True True ?jobs) = (cs', copies)" by force
  have "distinct (map cj_id ?jobs)" by (simp add: demo_job_def)
  then have "copies = map (reset_due 6000) (filter (is_due 6000) ?jobs)"
    "cv_jobs cs' = tick_spec (\<lambda>e t. None) 6000 demo_runs (\<lambda>k. None) 0 ?jobs"
    using tick_implements_spec [OF _ _ _ _ demo_handlers c] by auto
  then show ?thesis
    using c by (simp add: reset_due_def is_due_def demo_job_def after_run_def demo_at_def demo_every_def Let_def)
qed

lemma missed_one_shot_never_runs_witness:
  "\<exists>cs'. demo_job ''a'' demo_at None \<in> set (cv_jobs (fst (load_store cs')))"
proof -
  let ?js = "[demo_job ''a'' demo_at (Some 5000)]"
  obtain cs' css where t: "ticks (\<lambda>e t. None) [(7000, demo_runs)]
      (fst (start_cron (\<lambda>e t. None) 6000 (demo_service False True ?js))) = (cs', css)" by force
  have "(demo_job ''a'' demo_at (Some 5000))\<lparr>cj_next := None\<rparr> \<in> set (cv_jobs (fst (load_store cs')))"
    using missed_one_shot_never_runs [OF _ _ _ _ _ _ _ _ _ _ t, of ?js "demo_job ''a'' demo_at (Some 5000)" 5000] demo_handlers
    by (auto simp: demo_job_def demo_at_def)
  then show ?thesis by (auto simp: demo_job_def)
qed

lemma unwritable_file_repeats_runs_witness:
  "\<exists>cs' css. ticks (\<lambda>e t. None) [(6000, demo_runs), (7000, demo_runs)]
      (demo_service True False [demo_job ''b'' demo_every (Some 5000)]) = (cs', css) \<and>
    length css = 2 \<and> (\<forall>copies\<in>set css. demo_job ''b'' demo_every None \<in> set copies)"
proof -
  let ?ts = "[(6000 :: int, demo_runs), (7000, demo_runs)]" and ?j = "demo_job ''b'' demo_every (Some 5000)"
  obtain cs' css where t: "ticks (\<lambda>e t. None) ?ts (demo_service True False [?j]) = (cs', css)" by force
  have "length css = length ?ts \<and> (\<forall>copies\<in>set css. ?j\<lparr>cj_next := None\<rparr> \<in> set copies)"
    using demo_handlers
    by (intro unwritable_file_repeats_runs [OF _ _ _ _ _ _ _ _ t, of "[?j]" _ 5000]) (auto simp: demo_job_def)
  moreover have "?j\<lparr>cj_next := None\<rparr> = demo_job ''b'' demo_every None" by (simp add: demo_job_def)
  ultimately show ?thesis using t by simp
qed

end
