(* ===== verification/Cron_Tool.thy ===== *)
theory Cron_Tool
  imports Tool_Args Cron_Runs Shell_Guard Bus_Types
begin

text \<open>
  The cron tool, \<open>src/pkg/tools/cron.go\<close>: scheduling by the model, and what a job does when its time comes
  (run a command, deliver its message, or ask the agent).  Running a command and asking the agent are
  parameters.
\<close>

text \<open>\<open>utils.Truncate\<close>; \<open>off\<close> is the flag that switches it off.\<close>

definition truncate_text :: "bool \<Rightarrow> string \<Rightarrow> nat \<Rightarrow> string" where
  "truncate_text off s n =
    (if off then s else if n = 0 then []
     else let rs = runes s in
       if length rs \<le> n then s
       else if n \<le> 3 then of_runes (take n rs) else of_runes (take (n - 3) rs) @ ''...'')"

section \<open>Scheduling\<close>

text \<open>The schedule the arguments ask for: seconds from now, an interval, or an expression, in this order.\<close>

definition schedule_of :: "go_args \<Rightarrow> int \<Rightarrow> cron_schedule option" where
  "schedule_of args now =
    (case (num_arg args ''at_seconds'', num_arg args ''every_seconds'', str_arg args ''cron_expr'') of (a, e, c) \<Rightarrow>
     if (case a of Some v \<Rightarrow> 0 < v | None \<Rightarrow> False) then
       Some \<lparr>sd_kind = ''at'', sd_at = Some (wrap64 (now + wrap64 (int64_of_float (the a) * 1000))), sd_every = None, sd_expr = []\<rparr>
     else if (case e of Some v \<Rightarrow> 0 < v | None \<Rightarrow> False) then
       Some \<lparr>sd_kind = ''every'', sd_at = None, sd_every = Some (wrap64 (int64_of_float (the e) * 1000)), sd_expr = []\<rparr>
     else case c of
         Some x \<Rightarrow> if x = [] then None else Some \<lparr>sd_kind = ''cron'', sd_at = None, sd_every = None, sd_expr = x\<rparr>
       | None \<Rightarrow> None)"

text \<open>The clock is read by the tool, by \<open>AddJob\<close> and by \<open>UpdateJob\<close>.\<close>

record add_clock =
  ac_tool :: int
  ac_add :: int
  ac_update :: int

definition cron_add :: "(string \<Rightarrow> int \<Rightarrow> int option) \<Rightarrow> bool \<Rightarrow> string \<Rightarrow> add_clock \<Rightarrow> string \<Rightarrow> string \<Rightarrow> go_args \<Rightarrow>
    cron_service \<Rightarrow> tool_result \<times> cron_service" where
  "cron_add next_tick off new_id clk channel chat args cs =
    (if channel = [] \<or> chat = [] then
       (error_result ''no session context (channel/chat_id not set). Use this tool in an active conversation.'', cs)
     else let message = (case str_arg args ''message'' of Some m \<Rightarrow> m | None \<Rightarrow> []) in
       if message = [] then (error_result ''message is required for add'', cs)
     else case schedule_of args (ac_tool clk) of
       None \<Rightarrow> (error_result ''one of at_seconds, every_seconds, or cron_expr is required'', cs)
     | Some schedule \<Rightarrow>
      (let command = (case str_arg args ''command'' of Some c \<Rightarrow> c | None \<Rightarrow> []);
           confirm = (bool_arg args ''command_confirm'' = Some True);
           deliver = (command = [] \<and> bool_arg args ''deliver'' \<noteq> Some False)
       in if command \<noteq> [] \<and> \<not> is_internal_channel channel then
            (error_result ''scheduling command execution is restricted to internal channels'', cs)
          else if command \<noteq> [] \<and> \<not> confirm then
            (error_result ''command_confirm=true is required to schedule command execution'', cs)
          else case add_job next_tick new_id (ac_add clk) (truncate_text off message 30) schedule message deliver channel chat cs of
              (cs1, None) \<Rightarrow> (error_result ''Error adding job'', cs1)
            | (cs1, Some job) \<Rightarrow>
                (silent_result (''Cron job added: '' @ cj_name job @ '' (id: '' @ cj_id job @ '')''),
                 if command = [] then cs1
                 else fst (update_job (ac_update clk) (job\<lparr>cj_payload := (cj_payload job)\<lparr>py_command := command\<rparr>\<rparr>) cs1))))"

definition schedule_info :: "cron_job \<Rightarrow> string" where
  "schedule_info j =
    (let s = cj_schedule j in
     case (if sd_kind s = ''every'' then sd_every s else None) of
       Some d \<Rightarrow> ''every '' @ itoa (if d < 0 then - (- d div 1000) else d div 1000) @ ''s''
     | None \<Rightarrow> if sd_kind s = ''cron'' then sd_expr s else if sd_kind s = ''at'' then ''one-time'' else ''unknown'')"

definition cron_list :: "cron_service \<Rightarrow> tool_result" where
  "cron_list cs =
    (let jobs = list_jobs False cs in
     if jobs = [] then silent_result ''No scheduled jobs''
     else silent_result (''Scheduled jobs:'' @ [CHR 0x0A] @ concat (map (\<lambda>j.
       ''- '' @ cj_name j @ '' (id: '' @ cj_id j @ '', '' @ schedule_info j @ '')'' @ [CHR 0x0A]) jobs)))"

definition cron_remove :: "go_args \<Rightarrow> cron_service \<Rightarrow> tool_result \<times> cron_service" where
  "cron_remove args cs =
    (let i = (case str_arg args ''job_id'' of Some i \<Rightarrow> i | None \<Rightarrow> []) in
     if i = [] then (error_result ''job_id is required for remove'', cs)
     else case remove_job i cs of
         (cs1, True) \<Rightarrow> (silent_result (''Cron job removed: '' @ i), cs1)
       | (cs1, False) \<Rightarrow> (error_result (''Job '' @ i @ '' not found''), cs1))"

definition cron_enable :: "(string \<Rightarrow> int \<Rightarrow> int option) \<Rightarrow> int \<Rightarrow> bool \<Rightarrow> go_args \<Rightarrow> cron_service \<Rightarrow> tool_result \<times> cron_service" where
  "cron_enable next_tick now enable args cs =
    (let i = (case str_arg args ''job_id'' of Some i \<Rightarrow> i | None \<Rightarrow> []) in
     if i = [] then (error_result ''job_id is required for enable/disable'', cs)
     else case enable_job next_tick now i enable cs of
         (cs1, None) \<Rightarrow> (error_result (''Job '' @ i @ '' not found''), cs1)
       | (cs1, Some j) \<Rightarrow> (silent_result (''Cron job '' @ [CHR 0x27] @ cj_name j @ [CHR 0x27] @ (if enable then '' enabled'' else '' disabled'')), cs1))"

definition cron_execute :: "(string \<Rightarrow> int \<Rightarrow> int option) \<Rightarrow> bool \<Rightarrow> string \<Rightarrow> add_clock \<Rightarrow> string \<Rightarrow> string \<Rightarrow> go_args \<Rightarrow>
    cron_service \<Rightarrow> tool_result \<times> cron_service" where
  "cron_execute next_tick off new_id clk channel chat args cs =
    (case str_arg args ''action'' of
       None \<Rightarrow> (error_result ''action is required'', cs)
     | Some action \<Rightarrow>
        if action = ''add'' then cron_add next_tick off new_id clk channel chat args cs
        else if action = ''list'' then (cron_list cs, cs)
        else if action = ''remove'' then cron_remove args cs
        else if action = ''enable'' then cron_enable next_tick (ac_tool clk) True args cs
        else if action = ''disable'' then cron_enable next_tick (ac_tool clk) False args cs
        else (error_result (''unknown action: '' @ action), cs))"

section \<open>Executing a job\<close>

text \<open>
  \<open>exec\<close> is the exec tool on a background context, \<open>ask\<close> the agent (message, session, channel, chat).  The
  result: what is published, and the text that the scheduler is told.
\<close>

definition outbound :: "string \<Rightarrow> string \<Rightarrow> string \<Rightarrow> outbound_message" where
  "outbound channel chat t = \<lparr>ob_channel = channel, ob_chat_id = chat, ob_content = t, ob_reply_to = []\<rparr>"

definition execute_cron_job :: "(go_args \<Rightarrow> tool_result) \<Rightarrow>
    (string \<Rightarrow> string \<Rightarrow> string \<Rightarrow> string \<Rightarrow> (string, string) go_result) \<Rightarrow> cron_job \<Rightarrow> outbound_message list \<times> string" where
  "execute_cron_job exec ask job =
    (let p = cj_payload job;
         channel = (if py_channel p = [] then ''cli'' else py_channel p);
         chat = (if py_to p = [] then ''direct'' else py_to p)
     in if py_command p \<noteq> [] then
          (let r = exec [(''command'', Any_Str (py_command p)), (''__channel'', Any_Str channel), (''__chat_id'', Any_Str chat)];
               out = (if tr_is_error r then ''Error executing scheduled command: '' @ tr_for_llm r
                 else ''Scheduled command '' @ [CHR 0x27] @ py_command p @ [CHR 0x27] @ '' executed:'' @ [CHR 0x0A] @ tr_for_llm r)
           in ([outbound channel chat out], ''ok''))
        else if py_deliver p then ([outbound channel chat (py_message p)], ''ok'')
        else case ask (py_message p) (''cron-'' @ cj_id job) channel chat of
            Err e \<Rightarrow> ([], ''Error: '' @ e)
          | Ok _ \<Rightarrow> ([], ''ok''))"

text \<open>The handler the gateway installs (\<open>setupCronTool\<close>): it never fails.\<close>

definition gateway_handler :: "(go_args \<Rightarrow> tool_result) \<Rightarrow>
    (string \<Rightarrow> string \<Rightarrow> string \<Rightarrow> string \<Rightarrow> (string, string) go_result) \<Rightarrow> cron_job \<Rightarrow> string \<times> string option" where
  "gateway_handler exec ask job = (snd (execute_cron_job exec ask job), None)"

end
