(* ===== verification/Plain_Turns.thy ===== *)
theory Plain_Turns
  imports Message_Rounds
begin

text \<open>
  Turns of an agent whose model answers in words: what they return and what they publish.
\<close>

text \<open>An agent whose model always answers, without tool calls and without publishing its reasoning.\<close>

definition plain_answers :: "'s agent_instance \<Rightarrow> bool" where
  "plain_answers a \<longleftrightarrow> 0 < tv_max_iterations (ai_env a) \<and> (\<forall>c. tv_reasoning_chat (ai_env a) c = []) \<and>
    (\<forall>plan n ms ts. \<exists>r. ai_call a plan n ms ts = Ok (Some r) \<and> lr_tool_calls r = [])"

lemma plain_turn:
  assumes "0 < tv_max_iterations env" "\<forall>c. tv_reasoning_chat env c = []"
    and "\<forall>n ms ts. \<exists>r. tv_call env n ms ts = Ok (Some r) \<and> lr_tool_calls r = []"
    and "po_default_response opts \<noteq> []"
  shows "\<exists>answer st'. run_agent_loop env opts st = (Some (Ok answer), st') \<and> answer \<noteq> [] \<and>
    tu_out st' = tu_out st @ (if po_send_response opts then [Out_Text (po_channel opts) (po_chat_id opts) answer] else [])"
proof -
  obtain left where left: "nat (tv_max_iterations env) = Suc left" using assms(1) by (metis gr0_implies_Suc zero_less_nat_eq)
  have retry: "\<exists>r st1. llm_retry env opts 0 max_retries ms s = (Ok (Some r), ms, st1) \<and> lr_tool_calls r = [] \<and>
      tu_out st1 = tu_out s" for ms s
  proof -
    obtain r where r: "tv_call env (tu_calls s) ms (to_provider_defs (tu_registry s)) = Ok (Some r)" "lr_tool_calls r = []"
      using assms(3) by blast
    then show ?thesis by (simp add: max_retries_def numeral_2_eq_2 call_model_def)
  qed
  have it: "\<exists>answer st1. run_llm_iteration env opts ms s = (Turn_Done answer 1, st1) \<and> tu_out st1 = tu_out s" for ms s
  proof -
    obtain r st1 where r: "llm_retry env opts 0 max_retries ms s = (Ok (Some r), ms, st1)" "lr_tool_calls r = []"
        "tu_out st1 = tu_out s" using retry by blast
    then show ?thesis using assms(2) by (simp add: run_llm_iteration_def left handle_reasoning_def)
  qed
  let ?ms = "initial_messages env opts (record_last_channel opts st)"
  let ?s = "(record_last_channel opts st)\<lparr>tu_store := so_add (tv_ops env) (tu_store (record_last_channel opts st))
      (po_session_key opts) (mk_message ''user'' (po_user_message opts))\<rparr>"
  obtain answer st1 where a: "run_llm_iteration env opts ?ms ?s = (Turn_Done answer 1, st1)" "tu_out st1 = tu_out ?s"
    using it by blast
  have "tu_out ?s = tu_out st" by (simp add: record_last_channel_def)
  with a assms(4) show ?thesis by (simp add: run_agent_loop_def Let_def)
qed

text \<open>The turn of a registered agent, from the agent's own fields.\<close>

lemma plain_run_agent:
  assumes "plain_answers a" "po_default_response opts \<noteq> []"
  shows "\<exists>answer. answer \<noteq> [] \<and> fst (run_agent k a opts al) = Some (Ok answer) \<and>
    al_out (snd (run_agent k a opts al)) =
      al_out al @ (if po_send_response opts then [Out_Text (po_channel opts) (po_chat_id opts) answer] else [])"
proof -
  obtain answer st' where r: "run_agent_loop (env_of a opts al) opts (turn_of a al) = (Some (Ok answer), st')" "answer \<noteq> []"
      "tu_out st' = al_out al @ (if po_send_response opts then [Out_Text (po_channel opts) (po_chat_id opts) answer] else [])"
    using plain_turn [of "env_of a opts al" opts "turn_of a al"] assms
    by (auto simp: plain_answers_def env_of_def turn_of_def Let_def)
  then show ?thesis by (simp add: run_agent_def merge_turn_def put_agent_def)
qed

lemma demo_plain: "plain_answers (demo_agent n False)"
  by (simp add: plain_answers_def demo_agent_def Agent_Turns.demo_env_def demo_answer_def)

end
