(* ===== verification/Cron_Delivery.thy ===== *)
theory Cron_Delivery
  imports Cron_Tool Plain_Turns
begin

text \<open>
  Scheduling from end to end: a reminder set with the cron tool is delivered by the first tick at or after
  its time, and a task handed to the agent is answered to nobody.
\<close>

section \<open>Reminders\<close>

lemma wrap64_id: "- (2 ^ 63) \<le> x \<Longrightarrow> x < 2 ^ 63 \<Longrightarrow> wrap64 x = x"
  by (simp add: wrap64_def)

lemma int64_of_float_int: "- (2 ^ 63) \<le> n \<Longrightarrow> n < 2 ^ 63 \<Longrightarrow> int64_of_float (of_int n) = n"
  by (simp add: int64_of_float_def Let_def)

text \<open>The job a reminder becomes.\<close>

definition reminder_job :: "string \<Rightarrow> string \<Rightarrow> string \<Rightarrow> string \<Rightarrow> string \<Rightarrow> int \<Rightarrow> int \<Rightarrow> cron_job" where
  "reminder_job i name message channel chat time now =
    \<lparr>cj_id = i, cj_name = name, cj_enabled = True,
     cj_schedule = \<lparr>sd_kind = ''at'', sd_at = Some time, sd_every = None, sd_expr = []\<rparr>,
     cj_payload = \<lparr>py_message = message, py_command = [], py_deliver = True, py_channel = channel, py_to = chat\<rparr>,
     cj_next = Some time, cj_last = None, cj_status = [], cj_error = [], cj_created = now, cj_updated = now,
     cj_delete_after = True\<rparr>"

lemma cron_add_reminder:
  assumes "channel \<noteq> []" "chat \<noteq> []" "message \<noteq> []" "1 \<le> s" "0 \<le> ac_tool clk" "ac_tool clk + s * 1000 < 2 ^ 63"
    and "ac_add clk < ac_tool clk + s * 1000" "cv_writable cs"
    and args: "str_arg args ''message'' = Some message" "num_arg args ''at_seconds'' = Some (of_int s)"
      "str_arg args ''command'' = None" "bool_arg args ''deliver'' \<noteq> Some False"
  shows "\<exists>said. cron_add next_tick off new_id clk channel chat args cs =
    (silent_result said, let jobs = cv_jobs cs @
        [reminder_job new_id (truncate_text off message 30) message channel chat (ac_tool clk + s * 1000) (ac_add clk)]
      in cs\<lparr>cv_jobs := jobs, cv_file := Jobs_File jobs\<rparr>)"
proof -
  have "s < 2 ^ 63" "s * 1000 < 2 ^ 63" using assms(4-6) by linarith+
  then have "int64_of_float (of_int s) = s" "wrap64 (s * 1000) = s * 1000"
    "wrap64 (ac_tool clk + s * 1000) = ac_tool clk + s * 1000"
    using assms(4-6) by (simp_all add: int64_of_float_int wrap64_id)
  then have "schedule_of args (ac_tool clk) =
      Some \<lparr>sd_kind = ''at'', sd_at = Some (ac_tool clk + s * 1000), sd_every = None, sd_expr = []\<rparr>"
    using assms(4) by (simp add: schedule_of_def args(2) split: option.split)
  then show ?thesis
    using assms(1-3,7,8) args(1,3,4)
    by (simp add: cron_add_def add_job_def save_store_def compute_next_run_def reminder_job_def Let_def)
      (rule exI, rule refl)
qed

text \<open>
  C19: A reminder set for a number of seconds from now is not run by any tick before that time; the first tick at
  or after it runs it once, which publishes its message to the chat it was set in and removes the job.
\<close>

theorem scheduled_reminder_delivered:
  assumes h: "healthy cs jobs" "cv_jobs cs = jobs" "new_id \<notin> cj_id ` set jobs"
    and ctx: "channel \<noteq> []" "chat \<noteq> []" "message \<noteq> []" "1 \<le> s" "0 \<le> ac_tool clk"
      "ac_tool clk + s * 1000 < 2 ^ 63" "ac_add clk < ac_tool clk + s * 1000"
    and args: "str_arg args ''message'' = Some message" "num_arg args ''at_seconds'' = Some (of_int s)"
      "str_arg args ''command'' = None" "bool_arg args ''deliver'' \<noteq> Some False"
    and early: "\<forall>(now, runs)\<in>set early. now < ac_tool clk + s * 1000 \<and> (\<exists>errs. plain_handlers runs errs)"
    and due: "ac_tool clk + s * 1000 \<le> now" "plain_handlers runs errs"
  shows "\<exists>said cs1 cs2 css job. cron_add next_tick off new_id clk channel chat args cs = (silent_result said, cs1) \<and>
    ticks next_tick (early @ [(now, runs)]) cs1 = (cs2, css) \<and>
    (\<forall>copies\<in>set (butlast css). new_id \<notin> cj_id ` set copies) \<and>
    filter (\<lambda>c. cj_id c = new_id) (last css) = [job] \<and>
    execute_cron_job exec ask job = ([outbound channel chat message], ''ok'') \<and>
    new_id \<notin> cj_id ` set (cv_jobs cs2)"
proof -
  let ?time = "ac_tool clk + s * 1000"
  have w: "cv_writable cs" using h by (simp add: healthy_def)
  let ?name = "truncate_text off message 30"
  obtain said where add: "cron_add next_tick off new_id clk channel chat args cs =
      (silent_result said, let js = cv_jobs cs @ [reminder_job new_id ?name message channel chat ?time (ac_add clk)]
        in cs\<lparr>cv_jobs := js, cv_file := Jobs_File js\<rparr>)"
    using cron_add_reminder [OF ctx w args, of next_tick off new_id] by blast
  define j where "j = reminder_job new_id ?name message channel chat ?time (ac_add clk)"
  define js where "js = jobs @ [j]"
  let ?cs1 = "cs\<lparr>cv_jobs := js, cv_file := Jobs_File js\<rparr>"
  have j: "cj_id j = new_id" "cj_enabled j" "cj_next j = Some ?time" "j \<in> set js"
    by (simp_all add: j_def js_def reminder_job_def)
  have h1: "healthy ?cs1 js" using h j(1) by (auto simp: healthy_def js_def)
  obtain cs2 css where t: "ticks next_tick (early @ [(now, runs)]) ?cs1 = (cs2, css)" by force
  from waiting_job_runs [OF h1 j(4,2,3) early due t]
  have "(\<forall>copies\<in>set (butlast css). cj_id j \<notin> cj_id ` set copies)"
    "filter (\<lambda>c. cj_id c = cj_id j) (last css) = [j\<lparr>cj_next := None\<rparr>]"
    "\<forall>x\<in>set (cv_jobs cs2). cj_id x = cj_id j \<longrightarrow> (\<exists>k. x \<in> set (after_run next_tick (runs k) (errs k) j))"
    by simp_all
  moreover have "after_run next_tick (runs k) (errs k) j = []" for k
    by (simp add: after_run_def j_def reminder_job_def)
  moreover have "execute_cron_job exec ask (j\<lparr>cj_next := None\<rparr>) = ([outbound channel chat message], ''ok'')"
    using ctx(1,2) by (simp add: execute_cron_job_def j_def reminder_job_def Let_def)
  ultimately show ?thesis
    using add t j(1) h(2) by (auto simp: Let_def js_def j_def image_iff)
qed

lemma scheduled_reminder_delivered_witness:
  defines "cs \<equiv> \<lparr>cv_jobs = [], cv_running = True, cv_file = Jobs_File [], cv_writable = True, cv_history = []\<rparr>"
    and "runs \<equiv> \<lambda>k. \<lparr>jr_start = 9000, jr_end = 9001, jr_record = ''r'', jr_handler = (\<lambda>j cs. (None, cs))\<rparr>"
    and "args \<equiv> [(''message'', Any_Str ''tea''), (''at_seconds'', Any_Num 5)]"
  shows "\<exists>said cs1 cs2 css job. cron_add (\<lambda>e t. None) False ''j1'' \<lparr>ac_tool = 1000, ac_add = 1001, ac_update = 0\<rparr> ''s'' ''42'' args cs =
      (silent_result said, cs1) \<and>
    ticks (\<lambda>e t. None) ([(5999, runs)] @ [(6000, runs)]) cs1 = (cs2, css) \<and>
    filter (\<lambda>c. cj_id c = ''j1'') (last css) = [job] \<and>
    execute_cron_job (\<lambda>a. error_result []) (\<lambda>t k c h. Err []) job = ([outbound ''s'' ''42'' ''tea''], ''ok'')"
proof -
  let ?clk = "\<lparr>ac_tool = 1000, ac_add = 1001, ac_update = 0\<rparr>"
  have "plain_handlers runs (\<lambda>k. None)" by (simp add: plain_handlers_def runs_def)
  moreover have "healthy cs []" "cv_jobs cs = []" by (simp_all add: healthy_def cs_def)
  moreover have "str_arg args ''message'' = Some ''tea''" "num_arg args ''at_seconds'' = Some (of_int 5)"
    "str_arg args ''command'' = None" "bool_arg args ''deliver'' \<noteq> Some False"
    by (simp_all add: args_def str_arg_def num_arg_def bool_arg_def)
  ultimately show ?thesis
    using scheduled_reminder_delivered [where cs = cs and jobs = "[]" and new_id = "''j1''" and channel = "''s''"
        and chat = "''42''" and message = "''tea''" and s = 5 and clk = ?clk and args = args
        and early = "[(5999, runs)]" and now = 6000 and runs = runs and errs = "\<lambda>k. None"
        and next_tick = "\<lambda>e t. None" and off = False and exec = "\<lambda>a. error_result []" and ask = "\<lambda>t k c h. Err []"]
    by (simp del: ticks.simps) blast
qed

text \<open>A fraction of a second is taken for no time: the tool reports success, and the job never runs.\<close>

lemma fractional_reminder_never_due:
  assumes "0 < v" "v < 1" "0 \<le> ac_tool clk" "ac_tool clk \<le> ac_add clk" "ac_add clk < 2 ^ 63" "cv_writable cs"
    and "channel \<noteq> []" "chat \<noteq> []" "message \<noteq> []" "str_arg args ''message'' = Some message"
    and "num_arg args ''at_seconds'' = Some v" "str_arg args ''command'' = None"
  shows "\<exists>said cs1 job. cron_add next_tick off new_id clk channel chat args cs = (silent_result said, cs1) \<and>
    cv_jobs cs1 = cv_jobs cs @ [job] \<and> cj_enabled job \<and> cj_next job = None"
proof -
  have "\<lfloor>v\<rfloor> = 0" using assms(1,2) by (simp add: floor_eq_iff)
  then have "int64_of_float v = 0" using assms(1) by (simp add: int64_of_float_def Let_def)
  then have "schedule_of args (ac_tool clk) =
      Some \<lparr>sd_kind = ''at'', sd_at = Some (ac_tool clk), sd_every = None, sd_expr = []\<rparr>"
    using assms(1,3-5,11) wrap64_id [of "ac_tool clk"] by (simp add: schedule_of_def wrap64_id split: option.split)
  then show ?thesis
    using assms(4,6-10,12)
    by (auto simp add: cron_add_def add_job_def save_store_def compute_next_run_def Let_def)
qed

text \<open>Commands are scheduled from internal channels only, and with a confirmation.\<close>

lemma command_not_scheduled:
  assumes "str_arg args ''command'' = Some c" "c \<noteq> []"
    and "\<not> is_internal_channel channel \<or> bool_arg args ''command_confirm'' \<noteq> Some True"
  shows "snd (cron_add next_tick off new_id clk channel chat args cs) = cs \<and>
    tr_is_error (fst (cron_add next_tick off new_id clk channel chat args cs))"
  using assms by (auto simp: cron_add_def error_result_def Let_def split: option.split)

section \<open>Tasks for the agent\<close>

text \<open>
  A scheduled task that the agent answers in words is answered to nobody: the answer is neither published by
  the turn nor by the job, which reports success.  And the session is not the job's own one but the one
  of the route.
\<close>

theorem task_answer_lost:
  assumes job: "py_command (cj_payload job) = []" "\<not> py_deliver (cj_payload job)"
    and words: "\<not> has_command_prefix (py_message (cj_payload job))" and ch: "channel \<noteq> ''system''"
    and route: "resolve_message_route env al
      (direct_message (py_message (cj_payload job)) (''cron-'' @ cj_id job) channel chat) = Ok (route, k, a)"
    and a: "plain_answers a"
  shows "\<exists>answer evs al'. process_direct_with_channel env al (py_message (cj_payload job)) (''cron-'' @ cj_id job) channel chat =
      (Some (Ok answer), evs, al') \<and> answer \<noteq> [] \<and> al_out al' = al_out al \<and>
    execute_cron_job exec (\<lambda>t s c h. Ok answer) job = ([], ''ok'') \<and>
    resolve_scope_key route (''cron-'' @ cj_id job) = rr_session_key route"
proof -
  let ?msg = "direct_message (py_message (cj_payload job)) (''cron-'' @ cj_id job) channel chat"
  let ?a = "reset_sent_in_round a" and ?opts = "message_options route ?msg"
  have msg: "transcribe_audio_in_message env ?msg = (?msg, False, [])"
    by (simp add: transcribe_audio_in_message_def direct_message_def split: option.split)
  have "handle_command env al ?msg ?opts ?a = (None, ?a)"
    using words by (simp add: handle_command_def direct_message_def)
  then have p: "process_message env al ?msg =
      (fst (run_agent k ?a ?opts al), [], snd (run_agent k ?a ?opts al))"
    using msg ch route by (simp add: process_message_def process_routed_def direct_message_def Let_def split: prod.split)
  have "plain_answers ?a" using a by (simp add: plain_answers_def reset_sent_in_round_def)
  then obtain answer where r: "answer \<noteq> []" "fst (run_agent k ?a ?opts al) = Some (Ok answer)"
      "al_out (snd (run_agent k ?a ?opts al)) = al_out al"
    using plain_run_agent [of ?a ?opts k al] by (auto simp: message_options_def default_response_def)
  have "execute_cron_job exec (\<lambda>t s c h. Ok answer) job = ([], ''ok'')"
    using job by (simp add: execute_cron_job_def Let_def)
  moreover have "resolve_scope_key route (''cron-'' @ cj_id job) = rr_session_key route"
    by (simp add: resolve_scope_key_def)
  ultimately show ?thesis
    using r p by (simp add: process_direct_with_channel_def)
qed

lemma task_answer_lost_witness:
  defines "job \<equiv> (reminder_job ''1'' ''n'' ''say hi'' ''s'' ''42'' 5 0)\<lparr>cj_payload := \<lparr>py_message = ''say hi'', py_command = [],
      py_deliver = False, py_channel = ''s'', py_to = ''42''\<rparr>\<rparr>"
    and "al \<equiv> demo_loop [(''b'', demo_agent ''b'' False)]"
  shows "\<exists>answer evs al'. process_direct_with_channel demo_loop_env al ''say hi'' (''cron-1'') ''s'' ''42'' =
    (Some (Ok answer), evs, al') \<and> answer \<noteq> [] \<and> al_out al' = al_out al"
proof -
  have j: "py_message (cj_payload job) = ''say hi''" "cj_id job = ''1''" "py_command (cj_payload job) = []"
    "\<not> py_deliver (cj_payload job)" by (simp_all add: job_def reminder_job_def)
  have "\<not> has_command_prefix ''say hi''" "''s'' \<noteq> ''system''" by code_simp+
  moreover have "resolve_message_route demo_loop_env al (direct_message ''say hi'' (''cron-'' @ ''1'') ''s'' ''42'') =
      Ok (resolve_route (le_routes demo_loop_env) (route_input_of (direct_message ''say hi'' (''cron-'' @ ''1'') ''s'' ''42'')),
        ''b'', demo_agent ''b'' False)"
  proof -
    have "rr_agent_id (resolve_route (le_routes demo_loop_env)
        (route_input_of (direct_message ''say hi'' (''cron-'' @ ''1'') ''s'' ''42''))) = ''b''"
      "normalize_agent_id ''b'' = ''b''" by code_simp+
    then show ?thesis by (simp add: resolve_message_route_def get_agent_def al_def demo_loop_def Let_def)
  qed
  ultimately show ?thesis
    using task_answer_lost [of job "''s''" demo_loop_env al "''42''" _ "''b''" "demo_agent ''b'' False"
        "\<lambda>a. error_result []"] j demo_plain by auto
qed

end
