(* ===== verification/State_Heartbeat.thy ===== *)
theory State_Heartbeat
  imports Tool_Registry Agent_Loop Bus_Types
begin

text \<open>
  The state of a workspace (\<open>src/pkg/state/state.go\<close>), the heartbeat (\<open>src/pkg/heartbeat/service.go\<close>) and the
  notifications of devices (\<open>src/pkg/devices/service.go\<close>), which both send to the channel the state names.  Every
  service makes a manager of its own on the same file (\<open>setupServices\<close> in the gateway, \<open>NewAgentLoop\<close>).
\<close>

section \<open>The state of a workspace\<close>

record ws_state =
  ws_channel :: string
  ws_chat :: string
  ws_time :: int

definition empty_state :: ws_state where
  "empty_state = \<lparr>ws_channel = [], ws_chat = [], ws_time = 0\<rparr>"

datatype state_file = State_Missing | State_Broken | State_Saved ws_state

text \<open>The files at the new and the old place, and whether they can be written.\<close>

record state_disk =
  sk_file :: state_file
  sk_old :: state_file
  sk_writable :: bool

text \<open>A manager is the copy of the state it keeps in memory.\<close>

definition save_atomic :: "ws_state \<Rightarrow> state_disk \<Rightarrow> state_disk \<times> bool" where
  "save_atomic st d = (if sk_writable d then (d\<lparr>sk_file := State_Saved st\<rparr>, True) else (d, False))"

definition load_state :: "state_disk \<Rightarrow> ws_state" where
  "load_state d = (case sk_file d of State_Saved st \<Rightarrow> st | _ \<Rightarrow> empty_state)"

definition new_state_manager :: "state_disk \<Rightarrow> ws_state \<times> state_disk" where
  "new_state_manager d =
    (if sk_file d = State_Missing then
       (case sk_old d of State_Saved st \<Rightarrow> (st, fst (save_atomic st d)) | _ \<Rightarrow> (empty_state, d))
     else (load_state d, d))"

text \<open>The flag says whether saving succeeded; the copy in memory changes in any case.\<close>

definition set_last_channel :: "int \<Rightarrow> string \<Rightarrow> ws_state \<Rightarrow> state_disk \<Rightarrow> ws_state \<times> state_disk \<times> bool" where
  "set_last_channel now ch st d =
    (let st' = st\<lparr>ws_channel := ch, ws_time := now\<rparr>; (d', ok) = save_atomic st' d in (st', d', ok))"

definition set_last_chat_id :: "int \<Rightarrow> string \<Rightarrow> ws_state \<Rightarrow> state_disk \<Rightarrow> ws_state \<times> state_disk \<times> bool" where
  "set_last_chat_id now chat st d =
    (let st' = st\<lparr>ws_chat := chat, ws_time := now\<rparr>; (d', ok) = save_atomic st' d in (st', d', ok))"

text \<open>What another start of the process would read.\<close>

lemma set_last_channel_persists:
  "sk_writable d \<Longrightarrow> new_state_manager (fst (snd (set_last_channel now ch st d))) =
    (st\<lparr>ws_channel := ch, ws_time := now\<rparr>, fst (snd (set_last_channel now ch st d)))"
  by (simp add: set_last_channel_def new_state_manager_def save_atomic_def load_state_def Let_def)

section \<open>Heartbeats\<close>

definition min_interval_minutes :: int where "min_interval_minutes = 5"
definition default_interval_minutes :: int where "default_interval_minutes = 30"

text \<open>The file of the tasks.\<close>

datatype task_file = Task_Missing | Task_Unreadable | Task_File string

record heartbeat =
  hb_interval :: int
  hb_enabled :: bool
  hb_running :: bool
  hb_state :: ws_state
  hb_bus :: bool

definition new_heartbeat :: "int \<Rightarrow> bool \<Rightarrow> state_disk \<Rightarrow> heartbeat \<times> state_disk" where
  "new_heartbeat minutes enabled d =
    (let m = (if minutes < min_interval_minutes \<and> minutes \<noteq> 0 then min_interval_minutes else minutes);
         m' = (if m = 0 then default_interval_minutes else m); (st, d') = new_state_manager d
     in (\<lparr>hb_interval = m', hb_enabled = enabled, hb_running = False, hb_state = st, hb_bus = False\<rparr>, d'))"

definition start_heartbeat :: "heartbeat \<Rightarrow> heartbeat" where
  "start_heartbeat hb = (if hb_running hb \<or> \<not> hb_enabled hb then hb else hb\<lparr>hb_running := True\<rparr>)"

definition stop_heartbeat :: "heartbeat \<Rightarrow> heartbeat" where
  "stop_heartbeat hb = hb\<lparr>hb_running := False\<rparr>"

definition lines_of :: "string list \<Rightarrow> string" where
  "lines_of ls = concat (map (\<lambda>l. l @ [CHR 0x0A]) ls)"

definition heartbeat_template :: string where
  "heartbeat_template = lines_of
    [''# Heartbeat Check List'', [], ''This file contains tasks for the heartbeat service to check periodically.'', [],
     ''## Examples'', [], ''- Check for unread messages'', ''- Review upcoming calendar events'',
     ''- Check device status (e.g., MaixCam)'', [], ''## Instructions'', [],
     ''- Execute ALL tasks listed below. Do NOT skip any task.'',
     ''- For simple tasks (e.g., report current time), respond directly.'',
     ''- For complex tasks that may take time, use the spawn tool to create a subagent.'',
     ''- The spawn tool is async - subagent results will be sent to the user automatically.'',
     ''- After spawning a subagent, CONTINUE to process remaining tasks.'',
     ''- Only respond with HEARTBEAT_OK when ALL tasks are done AND nothing needs attention.'', [],
     ''---'', [], ''Add your heartbeat tasks below this line:'']"

text \<open>The prompt (empty for none) and the file after it; \<open>now\<close> is the formatted time.\<close>

definition build_prompt :: "string \<Rightarrow> bool \<Rightarrow> task_file \<Rightarrow> string \<times> task_file" where
  "build_prompt now writable f =
    (case f of
       Task_Missing \<Rightarrow> ([], if writable then Task_File heartbeat_template else Task_Missing)
     | Task_Unreadable \<Rightarrow> ([], f)
     | Task_File content' \<Rightarrow>
        (if content' = [] then []
         else lines_of
           [''# Heartbeat Check'', [], ''Current time: '' @ now, [],
            ''You are a proactive AI assistant. This is a scheduled heartbeat check.'',
            ''Review the following tasks and execute any necessary actions using available skills.'',
            ''If there is nothing that requires attention, respond ONLY with: HEARTBEAT_OK'', [], content'], f))"

text \<open>Platform and user of a channel \<open>platform:user\<close>; empty if it is malformed or internal.\<close>

definition split_channel :: "string \<Rightarrow> string \<times> string" where
  "split_channel ch =
    (if ch = [] then ([], [])
     else case split_n 2 (CHR '':'') ch of
         [p, u] \<Rightarrow> if p = [] \<or> u = [] then ([], []) else (p, u)
       | _ \<Rightarrow> ([], []))"

definition parse_last_channel :: "string \<Rightarrow> string \<times> string" where
  "parse_last_channel ch = (let (p, u) = split_channel ch in if is_internal_channel p then ([], []) else (p, u))"

definition send_response :: "heartbeat \<Rightarrow> string \<Rightarrow> outbound_message list" where
  "send_response hb response =
    (if \<not> hb_bus hb \<or> ws_channel (hb_state hb) = [] then []
     else let (p, u) = parse_last_channel (ws_channel (hb_state hb)) in
       if p = [] \<or> u = [] then []
       else [\<lparr>ob_channel = p, ob_chat_id = u, ob_content = response, ob_reply_to = []\<rparr>])"

text \<open>The call of the handler (prompt, channel, chat), what is published, and the file of the tasks.\<close>

definition execute_heartbeat :: "(string \<Rightarrow> string \<Rightarrow> string \<Rightarrow> tool_result option) option \<Rightarrow> string \<Rightarrow> bool \<Rightarrow> heartbeat \<Rightarrow>
    task_file \<Rightarrow> (string \<times> string \<times> string) option \<times> outbound_message list \<times> task_file" where
  "execute_heartbeat handler now writable hb f =
    (if \<not> hb_enabled hb \<or> \<not> hb_running hb then (None, [], f)
     else let (prompt, f') = build_prompt now writable f in
       if prompt = [] then (None, [], f')
       else case handler of
         None \<Rightarrow> (None, [], f')
       | Some h \<Rightarrow>
          (let (p, u) = parse_last_channel (ws_channel (hb_state hb)) in
           (Some (prompt, p, u),
            (case h prompt p u of
               None \<Rightarrow> []
             | Some r \<Rightarrow>
                if tr_is_error r \<or> tr_async r \<or> tr_silent r then []
                else if tr_for_user r \<noteq> [] then send_response hb (tr_for_user r)
                else if tr_for_llm r \<noteq> [] then send_response hb (tr_for_llm r) else []), f')))"

text \<open>The handler of the gateway: \<open>ask\<close> is the agent without a session.\<close>

definition gateway_heartbeat ::
  "(string \<Rightarrow> string \<Rightarrow> string \<Rightarrow> (string, string) go_result) \<Rightarrow> string \<Rightarrow> string \<Rightarrow> string \<Rightarrow> tool_result option" where
  "gateway_heartbeat ask prompt channel chat =
    (let (c, u) = (if channel = [] \<or> chat = [] then (''cli'', ''direct'') else (channel, chat))
     in Some (case ask prompt c u of
          Err e \<Rightarrow> error_result (''Heartbeat error: '' @ e)
        | Ok response \<Rightarrow> if response = ''HEARTBEAT_OK'' then silent_result ''Heartbeat OK'' else silent_result response))"

section \<open>Notifications of devices\<close>

text \<open>The state is the copy of the manager the service was given.\<close>

definition send_notification :: "bool \<Rightarrow> ws_state \<Rightarrow> string \<Rightarrow> outbound_message list" where
  "send_notification bus st msg =
    (if \<not> bus \<or> ws_channel st = [] then []
     else let (p, u) = split_channel (ws_channel st) in
       if p = [] \<or> u = [] \<or> is_internal_channel p then []
       else [\<lparr>ob_channel = p, ob_chat_id = u, ob_content = msg, ob_reply_to = []\<rparr>])"

section \<open>Which channel a heartbeat takes\<close>

text \<open>
  A process: the manager of the agent loop, the heartbeat with its own one, the file they share, and what the
  heartbeats have asked and published.
\<close>

record workspace_run =
  wr_disk :: state_disk
  wr_agent :: ws_state
  wr_heartbeat :: heartbeat
  wr_tasks :: task_file
  wr_asked :: "(string \<times> string \<times> string) list"
  wr_published :: "outbound_message list"

datatype run_event =
    Recorded int string
  | Beat string "(string \<Rightarrow> string \<Rightarrow> string \<Rightarrow> tool_result option)"
  | Tasks_Edited task_file
  | Heartbeat_Start
  | Heartbeat_Stop

fun happen :: "workspace_run \<Rightarrow> run_event \<Rightarrow> workspace_run" where
  "happen w (Recorded now ch) =
    (let (st, d, ok) = set_last_channel now ch (wr_agent w) (wr_disk w) in w\<lparr>wr_agent := st, wr_disk := d\<rparr>)"
| "happen w (Beat now h) =
    (let (call, out, f) = execute_heartbeat (Some h) now True (wr_heartbeat w) (wr_tasks w)
     in w\<lparr>wr_tasks := f, wr_asked := wr_asked w @ (case call of Some c \<Rightarrow> [c] | None \<Rightarrow> []),
          wr_published := wr_published w @ out\<rparr>)"
| "happen w (Tasks_Edited f) = w\<lparr>wr_tasks := f\<rparr>"
| "happen w Heartbeat_Start = w\<lparr>wr_heartbeat := start_heartbeat (wr_heartbeat w)\<rparr>"
| "happen w Heartbeat_Stop = w\<lparr>wr_heartbeat := stop_heartbeat (wr_heartbeat w)\<rparr>"

text \<open>A process as it starts on a disk.\<close>

definition start_run :: "int \<Rightarrow> task_file \<Rightarrow> state_disk \<Rightarrow> workspace_run" where
  "start_run minutes tasks d =
    (let (agent, d1) = new_state_manager d; (hb, d2) = new_heartbeat minutes True d1
     in \<lparr>wr_disk = d2, wr_agent = agent, wr_heartbeat = hb\<lparr>hb_bus := True\<rparr>, wr_tasks = tasks,
          wr_asked = [], wr_published = []\<rparr>)"

text \<open>All the heartbeats so far were aimed at one channel.\<close>

definition aims_at :: "string \<Rightarrow> workspace_run \<Rightarrow> bool" where
  "aims_at ch w \<longleftrightarrow> ws_channel (hb_state (wr_heartbeat w)) = ch \<and>
     (\<forall>(prompt, p, u)\<in>set (wr_asked w). (p, u) = parse_last_channel ch) \<and>
     (\<forall>m\<in>set (wr_published w). (ob_channel m, ob_chat_id m) = parse_last_channel ch)"

lemma happen_aims: "aims_at ch w \<Longrightarrow> aims_at ch (happen w e)"
proof (cases e)
  case (Beat now h)
  assume aims: "aims_at ch w"
  have "(case fst (execute_heartbeat (Some h) now True (wr_heartbeat w) (wr_tasks w)) of None \<Rightarrow> True
        | Some (prompt, p, u) \<Rightarrow> (p, u) = parse_last_channel ch) \<and>
      (\<forall>m\<in>set (fst (snd (execute_heartbeat (Some h) now True (wr_heartbeat w) (wr_tasks w)))).
        (ob_channel m, ob_chat_id m) = parse_last_channel ch)"
    using aims by (auto simp: aims_at_def execute_heartbeat_def send_response_def Let_def
        split: prod.splits option.splits if_splits)
  with aims Beat show ?thesis
    by (auto simp: aims_at_def Let_def split: prod.splits option.splits)
qed (auto simp: aims_at_def start_heartbeat_def stop_heartbeat_def Let_def split: prod.splits)

text \<open>
  The heartbeat never learns of the channels the agent records: whatever happens after the start, every
  heartbeat is aimed at the channel that was the last one when the process started, though the file names
  the one recorded last.
\<close>

theorem heartbeat_channel_stale:
  assumes w: "w = foldl happen (start_run minutes tasks d) (events @ [Recorded now ch])" and d: "sk_writable d"
  shows "aims_at (ws_channel (fst (new_state_manager d))) w \<and>
    ws_channel (fst (new_state_manager (wr_disk w))) = ch"
proof -
  let ?ch = "ws_channel (fst (new_state_manager d))"
  have twice: "fst (new_state_manager (snd (new_state_manager d))) = fst (new_state_manager d)"
    "sk_writable (snd (new_state_manager d))" "sk_writable (snd (new_state_manager (snd (new_state_manager d))))"
    using d by (auto simp: new_state_manager_def save_atomic_def load_state_def split: state_file.splits)
  have start: "aims_at ?ch (start_run minutes tasks d)" "sk_writable (wr_disk (start_run minutes tasks d))"
    using twice by (auto simp: start_run_def new_heartbeat_def aims_at_def Let_def split: prod.splits)
  have aims: "aims_at ?ch (foldl happen w0 es)" if "aims_at ?ch w0" for w0 es
    using that by (induction es arbitrary: w0) (auto simp: happen_aims)
  have keep: "sk_writable (wr_disk (happen w0 e)) = sk_writable (wr_disk w0)" for w0 e
    by (cases e) (auto simp: set_last_channel_def save_atomic_def Let_def split: prod.splits)
  have "sk_writable (wr_disk (foldl happen w0 es)) = sk_writable (wr_disk w0)" for w0 es
    by (induction es arbitrary: w0) (auto simp: keep)
  then have "ws_channel (fst (new_state_manager (wr_disk w))) = ch"
    using start(2) by (simp add: w set_last_channel_def save_atomic_def new_state_manager_def load_state_def Let_def)
  moreover have "aims_at ?ch w" unfolding w by (rule aims [OF start(1)])
  ultimately show ?thesis by blast
qed

lemma heartbeat_channel_stale_witness:
  "let d = \<lparr>sk_file = State_Saved \<lparr>ws_channel = ''t:1'', ws_chat = [], ws_time = 0\<rparr>, sk_old = State_Missing, sk_writable = True\<rparr>;
       w = foldl happen (start_run 30 (Task_File ''x'') d)
         [Heartbeat_Start, Recorded 1 ''s:2'', Beat ''now'' (\<lambda>p c u. Some (user_result ''done'')), Recorded 2 ''s:3'']
   in map snd (wr_asked w) = [(''t'', ''1'')] \<and> aims_at ''t:1'' w"
proof -
  let ?d = "\<lparr>sk_file = State_Saved \<lparr>ws_channel = ''t:1'', ws_chat = [], ws_time = 0\<rparr>, sk_old = State_Missing, sk_writable = True\<rparr>"
  let ?es = "[Heartbeat_Start, Recorded 1 ''s:2'', Beat ''now'' (\<lambda>p c u. Some (user_result ''done''))]"
  have "aims_at (ws_channel (fst (new_state_manager ?d))) (foldl happen (start_run 30 (Task_File ''x'') ?d) (?es @ [Recorded 2 ''s:3'']))"
    using heartbeat_channel_stale [OF refl, of ?d 30 "Task_File ''x''" ?es 2 "''s:3''"] by simp
  moreover have "ws_channel (fst (new_state_manager ?d)) = ''t:1''" by (simp add: new_state_manager_def load_state_def)
  moreover have "map snd (wr_asked (foldl happen (start_run 30 (Task_File ''x'') ?d) (?es @ [Recorded 2 ''s:3'']))) = [(''t'', ''1'')]"
    by code_simp
  ultimately show ?thesis by (simp only: Let_def append.simps)
qed

end
