(* ===== verification/Subagents.thy ===== *)
theory Subagents
  imports Tool_Loop Plain_Turns File_Sandbox
begin

text \<open>
  Subagents, \<open>src/pkg/tools/subagent.go\<close> and \<open>spawn.go\<close>: tasks that a model delegates, in the background (spawn)
  or waiting for the result (subagent), and the callback of the agent loop that reports a finished one.
  The goroutine of a task is taken as two steps, its start at the spawn and its end.
\<close>

section \<open>Tasks\<close>

record subagent_task =
  sg_id :: string
  sg_task :: string
  sg_label :: string
  sg_agent_id :: string
  sg_channel :: string
  sg_chat :: string
  sg_status :: string
  sg_result :: string
  sg_created :: int

record subagent_manager =
  gm_tasks :: "(string \<times> subagent_task) list"
  gm_tools :: tool_registry
  gm_max_iterations :: int
  gm_max_tokens :: "int option"
  gm_temperature :: "rat option"
  gm_next :: nat

definition new_subagent_manager :: subagent_manager where
  "new_subagent_manager = \<lparr>gm_tasks = [], gm_tools = new_tool_registry, gm_max_iterations = 10, gm_max_tokens = None,
     gm_temperature = None, gm_next = 1\<rparr>"

definition set_llm_options :: "int \<Rightarrow> rat \<Rightarrow> subagent_manager \<Rightarrow> subagent_manager" where
  "set_llm_options n t m = m\<lparr>gm_max_tokens := Some n, gm_temperature := Some t\<rparr>"

definition set_tools :: "tool_registry \<Rightarrow> subagent_manager \<Rightarrow> subagent_manager" where
  "set_tools r m = m\<lparr>gm_tools := r\<rparr>"

definition register_subagent_tool :: "tool \<Rightarrow> subagent_manager \<Rightarrow> subagent_manager" where
  "register_subagent_tool t m = m\<lparr>gm_tools := register (gm_tools m) t\<rparr>"

text \<open>The text for the model, and the task.\<close>

definition spawn_task :: "int \<Rightarrow> string \<Rightarrow> string \<Rightarrow> string \<Rightarrow> string \<Rightarrow> string \<Rightarrow> subagent_manager \<Rightarrow>
    string \<times> subagent_task \<times> subagent_manager" where
  "spawn_task now task label agent_id channel chat m =
    (let t = \<lparr>sg_id = ''subagent-'' @ itoa (int (gm_next m)), sg_task = task, sg_label = label, sg_agent_id = agent_id,
           sg_channel = channel, sg_chat = chat, sg_status = ''running'', sg_result = [], sg_created = now\<rparr>;
         said = (if label \<noteq> [] then ''Spawned subagent '' @ [CHR 0x27] @ label @ [CHR 0x27] @ '' for task: '' @ task
           else ''Spawned subagent for task: '' @ task)
     in (said, t, m\<lparr>gm_tasks := AList.update (sg_id t) t (gm_tasks m), gm_next := gm_next m + 1\<rparr>))"

definition lines_nl :: "string list \<Rightarrow> string" where
  "lines_nl ls = join [CHR 0x0A] ls"

definition subagent_prompt :: string where
  "subagent_prompt = lines_nl
    [''You are a subagent. Complete the given task independently and report the result.'',
     ''You have access to tools - use them as needed to complete your task.'',
     ''After completing the task, provide a clear summary of what was done.'']"

definition task_messages :: "string \<Rightarrow> string \<Rightarrow> message list" where
  "task_messages prompt task = [mk_message ''system'' prompt, mk_message ''user'' task]"

text \<open>\<open>chat\<close> is the model with the options of the manager, \<open>jc\<close> the JSON of arguments.\<close>

definition subagent_config ::
  "(nat \<Rightarrow> message list \<Rightarrow> tool_definition list \<Rightarrow> (string, llm_response) go_result) \<Rightarrow> json_codec \<Rightarrow> subagent_manager \<Rightarrow> loop_config" where
  "subagent_config chat jc m =
    \<lparr>lc_chat = chat, lc_tools = Some (gm_tools m), lc_max_iterations = gm_max_iterations m, lc_json = jc\<rparr>"

text \<open>The end of a task: the context may be canceled before the loop or by the time it ends.\<close>

datatype task_end = Canceled_Before | Loop_Ended bool "(string, loop_result) go_result"

definition end_task :: "task_end \<Rightarrow> subagent_task \<Rightarrow> subagent_task \<times> tool_result option" where
  "end_task e t =
    (case e of
       Canceled_Before \<Rightarrow> (t\<lparr>sg_status := ''canceled'', sg_result := ''Task canceled before execution''\<rparr>, None)
     | Loop_Ended canceled r \<Rightarrow>
        (case r of
           Err err \<Rightarrow>
            (let t1 = (if canceled then t\<lparr>sg_status := ''canceled'', sg_result := ''Task canceled during execution''\<rparr>
                   else t\<lparr>sg_status := ''failed'', sg_result := ''Error: '' @ err\<rparr>)
             in (t1, Some ((error_result (sg_result t1))\<lparr>tr_err := Some err\<rparr>)))
         | Ok lr \<Rightarrow>
            (t\<lparr>sg_status := ''completed'', sg_result := lo_content lr\<rparr>,
             Some ((new_tool_result (''Subagent '' @ [CHR 0x27] @ sg_label t @ [CHR 0x27] @ '' completed (iterations: '' @
               itoa (int (lo_iterations lr)) @ ''): '' @ lo_content lr))\<lparr>tr_for_user := lo_content lr\<rparr>))))"

text \<open>The task as it runs: the loop on its two messages.\<close>

definition task_loop :: "loop_config \<Rightarrow> subagent_task \<Rightarrow> (string, loop_result) go_result" where
  "task_loop cfg t = fst (run_tool_loop cfg (task_messages subagent_prompt (sg_task t)) (sg_channel t) (sg_chat t))"

text \<open>The update of the manager when a task ends, and the result for the callback.\<close>

definition finish_task :: "string \<Rightarrow> task_end \<Rightarrow> subagent_manager \<Rightarrow> subagent_manager \<times> tool_result option" where
  "finish_task i e m =
    (case map_of (gm_tasks m) i of
       None \<Rightarrow> (m, None)
     | Some t \<Rightarrow> (let (t', r) = end_task e t in (m\<lparr>gm_tasks := AList.update i t' (gm_tasks m)\<rparr>, r)))"

definition get_task :: "subagent_manager \<Rightarrow> string \<Rightarrow> subagent_task option" where
  "get_task m i = map_of (gm_tasks m) i"

definition list_tasks :: "subagent_manager \<Rightarrow> subagent_task list" where
  "list_tasks m = map snd (gm_tasks m)"

section \<open>Tools\<close>

definition or_default :: "string \<Rightarrow> string \<Rightarrow> string" where
  "or_default s d = (if s = [] then d else s)"

text \<open>The task that was started, if one was.\<close>

definition spawn_execute :: "(string \<Rightarrow> bool) option \<Rightarrow> int \<Rightarrow> go_args \<Rightarrow> string \<Rightarrow> string \<Rightarrow> subagent_manager \<Rightarrow>
    tool_result \<times> subagent_task option \<times> subagent_manager" where
  "spawn_execute allowed now args channel chat m =
    (let task = (case str_arg args ''task'' of Some t \<Rightarrow> t | None \<Rightarrow> []);
         label = (case str_arg args ''label'' of Some l \<Rightarrow> l | None \<Rightarrow> []);
         agent = (case str_arg args ''agent_id'' of Some a \<Rightarrow> a | None \<Rightarrow> [])
     in if trim_space task = [] then (error_result ''task is required and must be a non-empty string'', None, m)
        else if agent \<noteq> [] \<and> (case allowed of Some ok \<Rightarrow> \<not> ok agent | None \<Rightarrow> False) then
          (error_result (''not allowed to spawn agent '' @ [CHR 0x27] @ agent @ [CHR 0x27]), None, m)
        else let (said, t, m') = spawn_task now task label agent (or_default channel ''cli'') (or_default chat ''direct'') m
          in (async_result said, Some t, m'))"

definition subagent_execute ::
  "(nat \<Rightarrow> message list \<Rightarrow> tool_definition list \<Rightarrow> (string, llm_response) go_result) \<Rightarrow> json_codec \<Rightarrow> subagent_manager \<Rightarrow>
   go_args \<Rightarrow> string \<Rightarrow> string \<Rightarrow> tool_result" where
  "subagent_execute chat_model jc m args channel chat =
    (case str_arg args ''task'' of
       None \<Rightarrow> with_error (error_result ''task is required'') ''task parameter is required''
     | Some task \<Rightarrow>
        (let label = (case str_arg args ''label'' of Some l \<Rightarrow> l | None \<Rightarrow> []) in
         case fst (run_tool_loop (subagent_config chat_model jc m)
             (task_messages ''You are a subagent. Complete the given task independently and provide a clear, concise result.'' task)
             (or_default channel ''cli'') (or_default chat ''direct'')) of
           Err e \<Rightarrow> with_error (error_result (''Subagent execution failed: '' @ e)) e
         | Ok lr \<Rightarrow>
            (let c = lo_content lr in
             (new_tool_result (''Subagent task completed:'' @ [CHR 0x0A] @ ''Label: '' @ or_default label ''(unnamed)'' @
                [CHR 0x0A] @ ''Iterations: '' @ itoa (int (lo_iterations lr)) @ [CHR 0x0A] @ ''Result: '' @ c))
               \<lparr>tr_for_user := (if 500 < length c then take 500 c @ ''...'' else c)\<rparr>)))"

section \<open>The callback of the agent loop\<close>

text \<open>What it publishes to the user, and the message it sends to the loop itself.\<close>

definition async_callback :: "process_options \<Rightarrow> string \<Rightarrow> tool_result \<Rightarrow> outbound list \<times> inbound_message option" where
  "async_callback opts tool r =
    ((if \<not> tr_silent r \<and> tr_for_user r \<noteq> [] then [Out_Text (po_channel opts) (po_chat_id opts) (tr_for_user r)] else []),
     (let c = content_for_llm r in
      if c = [] then None
      else Some ((direct_message c [] ''system'' (po_channel opts @ '':'' @ po_chat_id opts))
        \<lparr>im_sender_id := ''async:'' @ tool\<rparr>)))"

section \<open>The managers of the agent loop\<close>

text \<open>
  How \<open>registerSharedTools\<close> makes and uses a manager: it sets the model options, and the spawn tool starts
  tasks, which end.  No tools are ever set.
\<close>

inductive used_manager :: "subagent_manager \<Rightarrow> bool" where
  made: "used_manager (set_llm_options n t new_subagent_manager)"
| spawned: "used_manager m \<Longrightarrow> used_manager (snd (snd (spawn_execute allowed now args channel chat m)))"
| ended: "used_manager m \<Longrightarrow> used_manager (fst (finish_task i e m))"

lemma spawn_execute_tools [simp]: "gm_tools (snd (snd (spawn_execute allowed now args channel chat m))) = gm_tools m"
  by (simp add: spawn_execute_def spawn_task_def Let_def)

lemma finish_task_tools [simp]: "gm_tools (fst (finish_task i e m)) = gm_tools m"
  by (simp add: finish_task_def split: option.split prod.split)

lemma used_manager_tools: "used_manager m \<Longrightarrow> gm_tools m = new_tool_registry"
  by (induction rule: used_manager.induct) (simp_all add: set_llm_options_def new_subagent_manager_def)

text \<open>
  C33: A subagent of the agent loop has no tools, though its prompt says it has: its model is offered none, and
  whatever tool it calls, the result is an error.
\<close>

theorem subagents_get_no_tools:
  assumes "used_manager m"
  shows "loop_defs (subagent_config chat jc m) = [] \<and> tr_is_error (loop_exec (subagent_config chat jc m) i channel c j tc)"
  using used_manager_tools [OF assms]
  by (simp add: loop_defs_def subagent_config_def to_provider_defs_def visible_entries_def sorted_tool_names_def
      new_tool_registry_def loop_exec_def execute_with_context_def get_tool_def with_error_def error_result_def)

lemma subagents_get_no_tools_witness:
  "tr_is_error (loop_exec (subagent_config (\<lambda>n ms ds. Err []) demo_json (set_llm_options 100 1 new_subagent_manager)) 1 ''s'' ''42'' 0
    \<lparr>tc_id = ''1'', tc_type = ''function'', tc_function = None, tc_name = ''read_file'', tc_arguments = None,
     tc_thought_signature = [], tc_extra_content = None\<rparr>)"
  using subagents_get_no_tools [OF made] by blast

section \<open>The result of a task\<close>

text \<open>A task that is not canceled before it starts always has a result for its callback.\<close>

lemma ended_task_result:
  "map_of (gm_tasks m) i = Some t \<Longrightarrow> \<exists>r. snd (finish_task i (Loop_Ended canceled lr) m) = Some r \<and> content_for_llm r \<noteq> [] \<and>
    \<not> tr_silent r \<and> (\<exists>t'. get_task (fst (finish_task i (Loop_Ended canceled lr) m)) i = Some t' \<and> sg_status t' \<noteq> ''running'')"
  by (cases lr) (auto simp: finish_task_def end_task_def get_task_def content_for_llm_def new_tool_result_def error_result_def
      update_conv' Let_def)

lemma callback_system_message:
  assumes "CHR '':'' \<notin> set (po_channel opts)" "po_channel opts \<noteq> []" "\<not> is_internal_channel (po_channel opts)"
    and "snd (async_callback opts tool r) = Some msg" and "default_key al = Some k" "get_default_agent al = Some a"
    and "plain_answers a"
  shows "\<exists>answer. answer \<noteq> [] \<and> fst (process_system_message al msg) = Some (Ok answer) \<and>
    al_out (snd (process_system_message al msg)) = al_out al @ [Out_Text (po_channel opts) (po_chat_id opts) answer]"
proof -
  let ?o = "\<lparr>po_session_key = build_agent_main_session_key (ai_id a), po_channel = po_channel opts, po_chat_id = po_chat_id opts,
       po_user_message = ''[System: '' @ im_sender_id msg @ ''] '' @ im_content msg, po_media = [],
       po_default_response = ''Background task completed.'', po_enable_summary = False,
       po_send_response = True, po_no_history = False\<rparr>"
  have idx: "str_index (po_channel opts @ CHR '':'' # po_chat_id opts) '':'' = Some (length (po_channel opts))"
    using assms(1) by (subst str_index_byte) (auto simp: takeWhile_append)
  have "im_channel msg = ''system''" "im_chat_id msg = po_channel opts @ CHR '':'' # po_chat_id opts"
    using assms(4) by (auto simp: async_callback_def direct_message_def Let_def split: if_splits)
  then have eq: "process_system_message al msg = run_agent k a ?o al"
    using assms(2,3,5,6) idx by (simp add: process_system_message_def)
  have "po_default_response ?o \<noteq> []" by simp
  from plain_run_agent [OF assms(7) this, of k al] obtain answer where "answer \<noteq> []"
      "fst (run_agent k a ?o al) = Some (Ok answer)"
      "al_out (snd (run_agent k a ?o al)) = al_out al @ [Out_Text (po_channel opts) (po_chat_id opts) answer]"
    by auto
  then show ?thesis unfolding eq by (intro exI [of _ answer] conjI)
qed

lemma callback_message:
  assumes "CHR '':'' \<notin> set (po_channel opts)" "po_channel opts \<noteq> []" "snd (async_callback opts tool r) = Some msg"
  shows "im_channel msg = ''system''" "im_chat_id msg = po_channel opts @ CHR '':'' # po_chat_id opts" "im_media msg = []"
    and "str_index (im_chat_id msg) '':'' = Some (length (po_channel opts))"
  using assms(1,3) by (auto simp: async_callback_def direct_message_def Let_def str_index_byte takeWhile_sep split: if_splits)

lemma callback_internal:
  assumes "CHR '':'' \<notin> set (po_channel opts)" "po_channel opts \<noteq> []" "snd (async_callback opts tool r) = Some msg"
    and "is_internal_channel (po_channel opts)"
  shows "process_system_message al msg = (Some (Ok []), al)"
  using callback_message [OF assms(1-3)] assms(2,4) by (simp add: process_system_message_def)

lemma callback_failure:
  assumes "CHR '':'' \<notin> set (po_channel opts)" "po_channel opts \<noteq> []" "snd (async_callback opts tool r) = Some msg"
    and "process_system_message al msg = (Some (Err err), al1)" "\<not> already_sent al1"
  shows "run_message env al msg = Some (al1\<lparr>al_out := al_out al1 @
    [Out_Text ''system'' (po_channel opts @ CHR '':'' # po_chat_id opts) (''Error processing message: '' @ err)]\<rparr>)"
proof -
  note m = callback_message [OF assms(1-3)]
  have "transcribe_audio_in_message env msg = (msg, False, [])"
    using m(3) by (simp add: transcribe_audio_in_message_def Let_def split: option.split)
  then show ?thesis using m(1,2) assms(4,5) by (simp add: run_message_def process_message_def response_text_def)
qed

lemma callback_direct:
  assumes "map_of (gm_tasks m) i = Some t" "snd (finish_task i (Loop_Ended canceled lr) m) = Some r"
  shows "fst (async_callback opts tool r) = (case lr of
      Ok l \<Rightarrow> if lo_content l = [] then [] else [Out_Text (po_channel opts) (po_chat_id opts) (lo_content l)]
    | Err err \<Rightarrow> [])"
  using assms by (cases lr) (auto simp: finish_task_def end_task_def async_callback_def new_tool_result_def error_result_def Let_def)


text \<open>A task spawned from a chat, and the only agent of the loop.\<close>

definition demo_manager :: subagent_manager where
  "demo_manager = snd (snd (spawn_task 0 ''dig'' [] [] ''telegram'' ''42'' new_subagent_manager))"


text \<open>A task canceled before it starts reports nothing.\<close>

lemma canceled_task_silent: "snd (finish_task i Canceled_Before m) = None"
  by (simp add: finish_task_def end_task_def split: option.split)

text \<open>The agent a task is meant for only decides whether the task may be spawned.\<close>

lemma agent_id_ignored: "task_loop cfg (t\<lparr>sg_agent_id := x\<rparr>) = task_loop cfg t"
  by (simp add: task_loop_def)

end
