(* ===== verification/Bm25.thy ===== *)
theory Bm25
  imports Complex_Main Go_Strings "HOL-Library.AList" "HOL-Library.Multiset"
begin

text \<open>
  The search engine of \<open>src/pkg/utils/bm25.go\<close>: tokens, scores by posting lists, and the best \<open>k\<close> by a min-heap.
  Scores are rationals, with the logarithm of the inverse document frequency as a parameter; the heap works on
  scores of any linear order.
\<close>

section \<open>Tokens\<close>

definition edge_punctuation :: string where
  "edge_punctuation = ''.,;:!?'' @ [CHR 0x22, CHR 0x27] @ ''()/'' @ [CHR 0x5C] @ ''-_''"

text \<open>\<open>strings.Trim\<close> with a set of ASCII characters.\<close>

definition trim_set :: "string \<Rightarrow> string \<Rightarrow> string" where
  "trim_set cs s = rev (dropWhile (\<lambda>c. c \<in> set cs) (rev (dropWhile (\<lambda>c. c \<in> set cs) s)))"

definition bm25_tokenize :: "string \<Rightarrow> string list" where
  "bm25_tokenize s = filter (\<lambda>t. t \<noteq> []) (map (trim_set edge_punctuation) (fields (to_lower s)))"

fun bm25_dedupe_from :: "string list \<Rightarrow> string list \<Rightarrow> string list" where
  "bm25_dedupe_from seen [] = []"
| "bm25_dedupe_from seen (t # ts) =
    (if t \<in> set seen then bm25_dedupe_from seen ts else t # bm25_dedupe_from (t # seen) ts)"

definition bm25_dedupe :: "string list \<Rightarrow> string list" where
  "bm25_dedupe ts = bm25_dedupe_from [] ts"

lemma dedupe_from: "distinct (bm25_dedupe_from seen ts) \<and> set (bm25_dedupe_from seen ts) = set ts - set seen"
  by (induction ts arbitrary: seen) auto

lemma dedupe [simp]: "distinct (bm25_dedupe ts)" "set (bm25_dedupe ts) = set ts"
  by (simp_all add: bm25_dedupe_def dedupe_from)

section \<open>Scores\<close>

record bm25_config =
  bm_k1 :: rat
  bm_b :: rat
  bm_idf :: "nat \<Rightarrow> nat \<Rightarrow> rat"

definition bm25_default :: "(nat \<Rightarrow> nat \<Rightarrow> rat) \<Rightarrow> bm25_config" where
  "bm25_default idf = \<lparr>bm_k1 = 12 / 10, bm_b = 3 / 4, bm_idf = idf\<rparr>"

text \<open>Documents are their lists of tokens.\<close>

definition avg_doc_len :: "string list list \<Rightarrow> rat" where
  "avg_doc_len docs = of_nat (sum_list (map length docs)) / of_nat (length docs)"

definition doc_freq :: "string list list \<Rightarrow> string \<Rightarrow> nat" where
  "doc_freq docs t = length (filter (\<lambda>d. t \<in> set d) docs)"

definition posting_list :: "string list list \<Rightarrow> string \<Rightarrow> nat list" where
  "posting_list docs t = filter (\<lambda>i. t \<in> set (docs ! i)) [0..<length docs]"

definition doc_len_norm :: "bm25_config \<Rightarrow> string list list \<Rightarrow> nat \<Rightarrow> rat" where
  "doc_len_norm cfg docs i =
    bm_k1 cfg * (1 - bm_b cfg + bm_b cfg * of_nat (length (docs ! i)) / avg_doc_len docs)"

definition term_score :: "bm25_config \<Rightarrow> string list list \<Rightarrow> string \<Rightarrow> nat \<Rightarrow> rat" where
  "term_score cfg docs t i =
    (let freq = of_nat (count_list (docs ! i) t); tf_norm = freq * (bm_k1 cfg + 1) / (freq + doc_len_norm cfg docs i)
     in bm_idf cfg (length docs) (doc_freq docs t) * tf_norm)"

definition add_score :: "bm25_config \<Rightarrow> string list list \<Rightarrow> string \<Rightarrow> (nat \<times> rat) list \<Rightarrow> nat \<Rightarrow> (nat \<times> rat) list" where
  "add_score cfg docs t scores i =
    AList.update i ((case map_of scores i of Some x \<Rightarrow> x | None \<Rightarrow> 0) + term_score cfg docs t i) scores"

definition bm25_scores :: "bm25_config \<Rightarrow> string list list \<Rightarrow> string list \<Rightarrow> (nat \<times> rat) list" where
  "bm25_scores cfg docs ts =
    foldl (\<lambda>scores t. foldl (add_score cfg docs t) scores (posting_list docs t)) [] ts"

section \<open>The heap\<close>

function sift_down :: "('d \<times> 'a::linorder) list \<Rightarrow> nat \<Rightarrow> ('d \<times> 'a) list" where
  "sift_down h i =
    (let l = 2 * i + 1; r = 2 * i + 2;
         s1 = (if l < length h \<and> snd (h ! l) < snd (h ! i) then l else i);
         s2 = (if r < length h \<and> snd (h ! r) < snd (h ! s1) then r else s1)
     in if s2 = i then h else sift_down (h[i := h ! s2, s2 := h ! i]) s2)"
  by pat_completeness auto
termination by (relation "measure (\<lambda>(h, i). length h - i)") (auto simp: Let_def split: if_splits)

declare sift_down.simps [simp del]

definition min_heapify :: "('d \<times> 'a::linorder) list \<Rightarrow> ('d \<times> 'a) list" where
  "min_heapify h = foldl sift_down h (rev [0..<length h div 2])"

text \<open>One scored document of the loop over the scores.\<close>

definition top_step :: "nat \<Rightarrow> ('d \<times> 'a::linorder) list \<Rightarrow> 'd \<times> 'a \<Rightarrow> ('d \<times> 'a) list" where
  "top_step k h x =
    (if length h < k then (let h' = h @ [x] in if length h' = k then min_heapify h' else h')
     else if snd (h ! 0) < snd x then sift_down (h[0 := x]) 0 else h)"

definition top_k :: "nat \<Rightarrow> ('d \<times> 'a::linorder) list \<Rightarrow> ('d \<times> 'a) list" where
  "top_k k xs = rev (sort_key snd (foldl (top_step k) [] xs))"

text \<open>The search; \<open>order\<close> is the order in which the map of the scores is ranged over.\<close>

definition bm25_search :: "((nat \<times> rat) list \<Rightarrow> (nat \<times> rat) list) \<Rightarrow> bm25_config \<Rightarrow> ('d \<Rightarrow> string) \<Rightarrow> 'd list \<Rightarrow>
    string \<Rightarrow> int \<Rightarrow> ('d \<times> rat) list" where
  "bm25_search order cfg text_of corpus query k =
    (if k \<le> 0 then []
     else let terms = bm25_tokenize query in
       if terms = [] \<or> corpus = [] then []
       else let docs = map (\<lambda>d. bm25_tokenize (text_of d)) corpus;
                scores = bm25_scores cfg docs (bm25_dedupe terms)
         in if scores = [] then [] else map (\<lambda>(i, s). (corpus ! i, s)) (top_k (nat k) (order scores)))"

section \<open>The heap is right\<close>

definition heap_edge :: "nat \<Rightarrow> nat \<Rightarrow> bool" where
  "heap_edge p c \<longleftrightarrow> c = 2 * p + 1 \<or> c = 2 * p + 2"

definition heap_from :: "nat \<Rightarrow> ('d \<times> 'a::linorder) list \<Rightarrow> bool" where
  "heap_from k h \<longleftrightarrow> (\<forall>p c. k \<le> p \<longrightarrow> heap_edge p c \<longrightarrow> c < length h \<longrightarrow> snd (h ! p) \<le> snd (h ! c))"

text \<open>A heap but for the place \<open>i\<close>, whose element may be too large.\<close>

definition heap_but :: "nat \<Rightarrow> nat \<Rightarrow> ('d \<times> 'a::linorder) list \<Rightarrow> bool" where
  "heap_but k i h \<longleftrightarrow> k \<le> i \<and>
    (\<forall>p c. k \<le> p \<longrightarrow> p \<noteq> i \<longrightarrow> heap_edge p c \<longrightarrow> c < length h \<longrightarrow> snd (h ! p) \<le> snd (h ! c)) \<and>
    (\<forall>p c. k \<le> p \<longrightarrow> heap_edge p i \<longrightarrow> heap_edge i c \<longrightarrow> c < length h \<longrightarrow> snd (h ! p) \<le> snd (h ! c))"

lemma mset_swap_nth: "i < length h \<Longrightarrow> j < length h \<Longrightarrow> mset (h[i := h ! j, j := h ! i]) = mset h"
  by (rule mset_swap)

lemma sift_down_mset: "mset (sift_down h i) = mset h"
proof (induction h i rule: sift_down.induct)
  case (1 h i)
  show ?case
    by (subst sift_down.simps) (auto simp: Let_def 1 mset_swap split: if_splits)
qed

lemma sift_down_length [simp]: "length (sift_down h i) = length h"
  using sift_down_mset [of h i] by (metis size_mset)

text \<open>One level down: the smaller child moves up, and only its old place may be wrong.\<close>

lemma heap_but_step:
  assumes but: "heap_but k i h" and c: "heap_edge i c" "c < length h" "snd (h ! c) < snd (h ! i)"
    and least: "\<And>d. heap_edge i d \<Longrightarrow> d < length h \<Longrightarrow> snd (h ! c) \<le> snd (h ! d)"
  shows "heap_but k c (h[i := h ! c, c := h ! i])"
proof -
  let ?g = "h[i := h ! c, c := h ! i]"
  have ic: "i < c" "k \<le> i" using c(1) but by (auto simp: heap_edge_def heap_but_def)
  have g: "?g ! i = h ! c" "?g ! c = h ! i" "\<And>j. j \<noteq> i \<Longrightarrow> j \<noteq> c \<Longrightarrow> ?g ! j = h ! j"
    using ic c(2) by (auto simp: nth_list_update)
  have parent: "heap_edge p d \<Longrightarrow> heap_edge q d \<Longrightarrow> p = q" for p q d by (auto simp: heap_edge_def)
  have below: "heap_edge p d \<Longrightarrow> p < d" for p d by (auto simp: heap_edge_def)
  have old: "snd (h ! p) \<le> snd (h ! d)" if "k \<le> p" "p \<noteq> i" "heap_edge p d" "d < length h" for p d
    using but that by (auto simp: heap_but_def)
  have up: "snd (h ! p) \<le> snd (h ! d)" if "k \<le> p" "heap_edge p i" "heap_edge i d" "d < length h" for p d
    using but that by (auto simp: heap_but_def)
  have one: "snd (?g ! p) \<le> snd (?g ! d)" if e: "k \<le> p" "p \<noteq> c" "heap_edge p d" "d < length h" for p d
  proof (cases "p = i")
    case True
    then show ?thesis using e(3,4) least [of d] c(3) g below [of i d] by (cases "d = c") auto
  next
    case False
    then have dc: "d \<noteq> c" using parent [OF e(3), of i] c(1) by auto
    show ?thesis
    proof (cases "d = i")
      case True
      then show ?thesis using up [OF e(1) _ c(1,2)] e(2,3) False g by simp
    next
      case d: False
      then show ?thesis using old [OF e(1) False e(3,4)] g(3) e(2) False dc by simp
    qed
  qed
  have two: "snd (?g ! p) \<le> snd (?g ! d)" if e: "heap_edge p c" "heap_edge c d" "d < length h" for p d
  proof -
    have "p = i" using parent e(1) c(1) by blast
    then show ?thesis using old [of c d] e(2,3) ic g below [OF e(2)] by auto
  qed
  show ?thesis using ic one two by (auto simp: heap_but_def)
qed

lemma sift_down_heap: "heap_but k i h \<Longrightarrow> heap_from k (sift_down h i)"
proof (induction h i rule: sift_down.induct)
  case (1 h i)
  define s1 where "s1 = (if 2 * i + 1 < length h \<and> snd (h ! (2 * i + 1)) < snd (h ! i) then 2 * i + 1 else i)"
  define s2 where "s2 = (if 2 * i + 2 < length h \<and> snd (h ! (2 * i + 2)) < snd (h ! s1) then 2 * i + 2 else s1)"
  have eq: "sift_down h i = (if s2 = i then h else sift_down (h[i := h ! s2, s2 := h ! i]) s2)"
    by (subst sift_down.simps) (simp add: s1_def s2_def Let_def)
  have least: "snd (h ! s2) \<le> snd (h ! d)" if "heap_edge i d" "d < length h" for d
    using that by (auto simp: s1_def s2_def heap_edge_def split: if_splits)
  show ?case
  proof (cases "s2 = i")
    case True
    then show ?thesis using eq least 1(2) by (auto simp: heap_from_def heap_but_def)
  next
    case False
    then have "heap_edge i s2" "s2 < length h" "snd (h ! s2) < snd (h ! i)"
      by (auto simp: s1_def s2_def heap_edge_def split: if_splits)
    then have "heap_but k s2 (h[i := h ! s2, s2 := h ! i])" using heap_but_step [OF 1(2)] least by blast
    with 1(1) False eq show ?thesis by (simp add: s1_def s2_def)
  qed
qed

lemma heap_root_least: "heap_from 0 h \<Longrightarrow> j < length h \<Longrightarrow> snd (h ! 0) \<le> snd (h ! j)"
proof (induction j rule: less_induct)
  case (less j)
  show ?case
  proof (cases "j = 0")
    case False
    then have p: "heap_edge ((j - 1) div 2) j" "(j - 1) div 2 < j" by (auto simp: heap_edge_def)
    then have "snd (h ! ((j - 1) div 2)) \<le> snd (h ! j)" using less(2,3) by (auto simp: heap_from_def)
    then show ?thesis using less(1) [OF p(2)] less(2,3) p(2) by fastforce
  qed simp
qed

lemma foldl_sift_mset: "mset (foldl sift_down h is) = mset h"
  by (induction "is" arbitrary: h) (simp_all add: sift_down_mset)

lemma min_heapify_mset: "mset (min_heapify h) = mset h"
  by (simp add: min_heapify_def foldl_sift_mset)

lemma heapify_from:
  "heap_from n h \<Longrightarrow> heap_from 0 (foldl sift_down h (rev [0..<n]))"
proof (induction n arbitrary: h)
  case (Suc n)
  have "heap_but n n h" using Suc(2) by (auto simp: heap_but_def heap_from_def heap_edge_def)
  then show ?case using Suc(1) [OF sift_down_heap] by simp
qed simp

lemma min_heapify_heap: "heap_from 0 (min_heapify h)"
  unfolding min_heapify_def by (rule heapify_from) (auto simp: heap_from_def heap_edge_def)

section \<open>The best \<open>k\<close>\<close>

text \<open>The elements kept so far, and those dropped, which are no better.\<close>

definition keeps_best :: "nat \<Rightarrow> ('d \<times> 'a::linorder) list \<Rightarrow> ('d \<times> 'a) list \<Rightarrow> bool" where
  "keeps_best k xs h \<longleftrightarrow> length h = min k (length xs) \<and> (length h = k \<longrightarrow> heap_from 0 h) \<and>
    (\<exists>dropped. mset xs = mset h + dropped \<and> (\<forall>x\<in>set h. \<forall>y\<in>#dropped. snd y \<le> snd x))"

lemma replace_root:
  assumes "heap_from 0 h" "h \<noteq> []"
  shows "heap_from 0 (sift_down (h[0 := x]) 0)" "mset (sift_down (h[0 := x]) 0) = add_mset x (mset h) - {#h ! 0#}"
proof -
  have "heap_but 0 0 (h[0 := x])" using assms(1) by (auto simp: heap_but_def heap_from_def heap_edge_def)
  then show "heap_from 0 (sift_down (h[0 := x]) 0)" by (rule sift_down_heap)
  show "mset (sift_down (h[0 := x]) 0) = add_mset x (mset h) - {#h ! 0#}"
    using assms(2) by (cases h) (simp_all add: sift_down_mset)
qed

lemma keeps_best_step:
  assumes "keeps_best k xs h" "0 < k"
  shows "keeps_best k (xs @ [x]) (top_step k h x)"
proof -
  obtain dropped where d: "mset xs = mset h + dropped" "\<forall>x\<in>set h. \<forall>y\<in>#dropped. snd y \<le> snd x"
    and len: "length h = min k (length xs)" and heap: "length h = k \<Longrightarrow> heap_from 0 h"
    using assms(1) by (auto simp: keeps_best_def)
  show ?thesis
  proof (cases "length h < k")
    case True
    then have "dropped = {#}" using arg_cong [OF d(1), of size] len by simp
    then have "mset (xs @ [x]) = mset (top_step k h x) + {#}"
      using True d(1) by (simp add: top_step_def min_heapify_mset Let_def)
    moreover have "length (top_step k h x) = min k (length (xs @ [x]))"
      using arg_cong [OF calculation, of size] True len by simp
    moreover have "heap_from 0 (top_step k h x)" if "length (top_step k h x) = k"
      using that True by (auto simp: top_step_def Let_def min_heapify_heap split: if_splits)
    ultimately show ?thesis unfolding keeps_best_def by (metis empty_iff set_mset_empty)
  next
    case False
    then have full: "length h = k" "heap_from 0 h" "h \<noteq> []" using len heap assms(2) by auto
    have least: "\<forall>y\<in>set h. snd (h ! 0) \<le> snd y"
      using heap_root_least [OF full(2)] by (metis in_set_conv_nth)
    show ?thesis
    proof (cases "snd (h ! 0) < snd x")
      case False
      then have "mset (xs @ [x]) = mset h + add_mset x dropped" "\<forall>y\<in>set h. \<forall>z\<in>#add_mset x dropped. snd z \<le> snd y"
        using d least by fastforce+
      moreover have "top_step k h x = h" using False full(1) by (simp add: top_step_def)
      ultimately show ?thesis using full len unfolding keeps_best_def by (intro conjI exI [of _ "add_mset x dropped"]) simp_all
    next
      case True
      note r = replace_root [OF full(2,3), of x]
      have root: "h ! 0 \<in># mset h" using full(3) by (simp add: nth_mem)
      have "set (sift_down (h[0 := x]) 0) \<subseteq> insert x (set h)"
        unfolding set_mset_mset [symmetric] r(2) by (auto dest: in_diffD)
      moreover have "snd z \<le> snd y" if y: "y = x \<or> y \<in> set h" and z: "z = h ! 0 \<or> z \<in># dropped" for y z
      proof -
        have "snd z \<le> snd (h ! 0)" using z d(2) root by auto
        also have "\<dots> \<le> snd y" using y least True by auto
        finally show ?thesis .
      qed
      then have "\<forall>y\<in>insert x (set h). \<forall>z\<in>#add_mset (h ! 0) dropped. snd z \<le> snd y" by simp
      ultimately have "\<forall>y\<in>set (sift_down (h[0 := x]) 0). \<forall>z\<in>#add_mset (h ! 0) dropped. snd z \<le> snd y" by blast
      moreover have "mset (xs @ [x]) = mset (sift_down (h[0 := x]) 0) + add_mset (h ! 0) dropped"
        using d(1) root by (simp add: r(2))
      moreover have "top_step k h x = sift_down (h[0 := x]) 0" using True full(1) by (simp add: top_step_def)
      ultimately show ?thesis using full len r(1) unfolding keeps_best_def
        by (intro conjI exI [of _ "add_mset (h ! 0) dropped"]) simp_all
    qed
  qed
qed

lemma keeps_best_all: "0 < k \<Longrightarrow> keeps_best k xs (foldl (top_step k) [] xs)"
proof (induction xs rule: rev_induct)
  case Nil
  then show ?case by (auto simp: keeps_best_def)
next
  case (snoc x xs)
  then show ?case by (simp add: keeps_best_step)
qed

text \<open>The scores of the result are the best \<open>k\<close> ones, in decreasing order; the rest is no better.\<close>

lemma top_k_best:
  assumes "0 < k"
  shows "length (top_k k xs) = min k (length xs)" "sorted (rev (map snd (top_k k xs)))"
    "\<exists>dropped. mset xs = mset (top_k k xs) + dropped \<and> (\<forall>x\<in>set (top_k k xs). \<forall>y\<in>#dropped. snd y \<le> snd x)"
  using keeps_best_all [OF assms, of xs] by (simp_all add: keeps_best_def top_k_def rev_map [symmetric])

section \<open>The scores are right\<close>

definition doc_matches :: "string list list \<Rightarrow> string list \<Rightarrow> nat \<Rightarrow> bool" where
  "doc_matches docs ts i \<longleftrightarrow> (\<exists>t\<in>set ts. t \<in> set (docs ! i))"

definition doc_score :: "bm25_config \<Rightarrow> string list list \<Rightarrow> string list \<Rightarrow> nat \<Rightarrow> rat" where
  "doc_score cfg docs ts i = (\<Sum>t\<leftarrow>filter (\<lambda>t. t \<in> set (docs ! i)) ts. term_score cfg docs t i)"

lemma posting_list: "distinct (posting_list docs t)" "set (posting_list docs t) = {i. i < length docs \<and> t \<in> set (docs ! i)}"
  by (auto simp: posting_list_def)

lemma map_of_add_scores:
  "distinct is \<Longrightarrow> map_of (foldl (add_score cfg docs t) scores is) i =
    (if i \<in> set is then Some ((case map_of scores i of Some x \<Rightarrow> x | None \<Rightarrow> 0) + term_score cfg docs t i)
     else map_of scores i)"
  by (induction "is" arbitrary: scores) (auto simp: add_score_def update_conv')

lemma distinct_add_scores: "distinct (map fst scores) \<Longrightarrow> distinct (map fst (foldl (add_score cfg docs t) scores is))"
  by (induction "is" arbitrary: scores) (auto simp: add_score_def distinct_update)

lemma distinct_scores: "distinct (map fst (bm25_scores cfg docs ts))"
  unfolding bm25_scores_def by (induction ts rule: rev_induct) (simp_all add: distinct_add_scores)

lemma map_of_scores:
  "map_of (bm25_scores cfg docs ts) i =
    (if i < length docs \<and> doc_matches docs ts i then Some (doc_score cfg docs ts i) else None)"
proof (induction ts rule: rev_induct)
  case Nil
  then show ?case by (simp add: bm25_scores_def doc_matches_def)
next
  case (snoc t ts)
  have none: "\<not> doc_matches docs ts i \<Longrightarrow> doc_score cfg docs ts i = 0"
    by (auto simp: doc_score_def doc_matches_def filter_empty_conv)
  have "bm25_scores cfg docs (ts @ [t]) = foldl (add_score cfg docs t) (bm25_scores cfg docs ts) (posting_list docs t)"
    by (simp add: bm25_scores_def)
  then show ?case using snoc none
    by (auto simp: map_of_add_scores posting_list doc_score_def doc_matches_def)
qed

lemma bm25_search_docs:
  assumes "\<And>xs. mset (order xs) = mset xs"
  shows "fst ` set (bm25_search order cfg text_of corpus query k) \<subseteq> set corpus"
proof (cases "k \<le> 0")
  case False
  let ?docs = "map (\<lambda>d. bm25_tokenize (text_of d)) corpus" and ?ts = "bm25_dedupe (bm25_tokenize query)"
  let ?scores = "bm25_scores cfg ?docs ?ts"
  have "mset (top_k (nat k) (order ?scores)) \<subseteq># mset ?scores"
    using top_k_best(3) [of "nat k" "order ?scores"] False assms by (metis mset_subset_eq_add_left not_le zero_less_nat_eq)
  from set_mset_mono [OF this] have sub: "set (top_k (nat k) (order ?scores)) \<subseteq> set ?scores" by simp
  have index: "i < length corpus" if i: "(i, x) \<in> set ?scores" for i x
  proof -
    have "map_of ?scores i \<noteq> None" using weak_map_of_SomeI [OF i] by blast
    then show ?thesis unfolding map_of_scores by (simp split: if_splits)
  qed
  have inside: "\<forall>x\<in>set (top_k (nat k) (order ?scores)). corpus ! fst x \<in> set corpus"
  proof
    fix x
    assume "x \<in> set (top_k (nat k) (order ?scores))"
    then have "(fst x, snd x) \<in> set ?scores" using sub by auto
    then show "corpus ! fst x \<in> set corpus" by (intro nth_mem) (rule index)
  qed
  have cases: "bm25_search order cfg text_of corpus query k = [] \<or>
      bm25_search order cfg text_of corpus query k = map (\<lambda>(i, x). (corpus ! i, x)) (top_k (nat k) (order ?scores))"
    by (simp add: bm25_search_def Let_def)
  show ?thesis
  proof (cases "bm25_search order cfg text_of corpus query k = []")
    case False
    then show ?thesis using cases inside by (simp add: case_prod_beta image_subset_iff)
  qed simp
qed (simp add: bm25_search_def)

text \<open>
  C24: The search ranks right: for every order in which the map of the scores is ranged over, the result lists
  distinct matching documents, each with the sum of the scores of its query terms, by decreasing score; as many as
  asked for, if there are, and no matching document it leaves out scores higher than one it lists.
\<close>

theorem bm25_ranks:
  fixes corpus :: "'d list" and text_of :: "'d \<Rightarrow> string" and query :: string
  assumes k: "0 < k" and order: "\<And>xs. mset (order xs) = mset xs"
  defines "docs \<equiv> map (\<lambda>d. bm25_tokenize (text_of d)) corpus" and "ts \<equiv> bm25_dedupe (bm25_tokenize query)"
  defines "matching \<equiv> {i. i < length corpus \<and> doc_matches docs ts i}"
  shows "\<exists>ids. bm25_search order cfg text_of corpus query k = map (\<lambda>i. (corpus ! i, doc_score cfg docs ts i)) ids \<and>
    distinct ids \<and> set ids \<subseteq> matching \<and> length ids = min (nat k) (card matching) \<and>
    sorted (rev (map (doc_score cfg docs ts) ids)) \<and>
    (\<forall>i\<in>matching - set ids. \<forall>j\<in>set ids. doc_score cfg docs ts i \<le> doc_score cfg docs ts j)"
proof -
  define scores where "scores = bm25_scores cfg docs ts"
  define top where "top = top_k (nat k) (order scores)"
  have scores: "set scores = (\<lambda>i. (i, doc_score cfg docs ts i)) ` matching"
  proof -
    have "(i, s) \<in> set scores \<longleftrightarrow> i \<in> matching \<and> s = doc_score cfg docs ts i" for i s
      unfolding scores_def map_of_eq_Some_iff [OF distinct_scores, symmetric] map_of_scores
      by (auto simp: matching_def docs_def)
    then show ?thesis by auto
  qed
  have card: "length scores = card matching"
  proof -
    have "distinct scores" using distinct_scores [of cfg docs ts] by (simp add: scores_def distinct_map)
    moreover have "inj_on (\<lambda>i. (i, doc_score cfg docs ts i)) matching" by (simp add: inj_on_def)
    ultimately show ?thesis using scores by (simp add: distinct_card [symmetric] card_image)
  qed
  have best: "length top = min (nat k) (card matching)" "sorted (rev (map snd top))"
    using top_k_best(1,2) [of "nat k" "order scores"] k mset_eq_length [OF order [of scores]] card
    by (simp_all add: top_def)
  obtain dropped where d: "mset scores = mset top + dropped" "\<forall>x\<in>set top. \<forall>y\<in>#dropped. snd y \<le> snd x"
    using top_k_best(3) [of "nat k" "order scores"] k order [of scores] by (auto simp: top_def)
  have sub: "set top \<subseteq> set scores" using d(1) by (metis mset_subset_eq_add_left set_mset_mono set_mset_mset)
  then have snd: "\<forall>x\<in>set top. snd x = doc_score cfg docs ts (fst x) \<and> fst x \<in> matching" using scores by auto
  have dist: "distinct (map fst top)"
  proof -
    have "mset (map fst scores) = mset (map fst top) + image_mset fst dropped" using d(1) by simp
    then show ?thesis using distinct_scores [of cfg docs ts] unfolding scores_def [symmetric]
      by (metis distinct_append ex_mset mset_append mset_eq_imp_distinct_iff)
  qed
  have rest: "doc_score cfg docs ts i \<le> doc_score cfg docs ts j" if "i \<in> matching" "i \<notin> set (map fst top)" "j \<in> set (map fst top)" for i j
  proof -
    have "(i, doc_score cfg docs ts i) \<in># mset scores" using that(1) scores by simp
    then have "(i, doc_score cfg docs ts i) \<in># dropped" using d(1) that(2) by force
    then show ?thesis using d(2) that(3) snd by fastforce
  qed
  have result: "bm25_search order cfg text_of corpus query k = map (\<lambda>(i, s). (corpus ! i, s)) top"
  proof (cases "scores = []")
    case True
    then have "top = []" using best(1) card by simp
    then show ?thesis using k True by (simp add: bm25_search_def scores_def docs_def ts_def Let_def)
  next
    case False
    then have "matching \<noteq> {}" using scores by auto
    then have "ts \<noteq> []" "corpus \<noteq> []" by (auto simp: matching_def doc_matches_def)
    moreover have "bm25_tokenize query \<noteq> []" using \<open>ts \<noteq> []\<close> by (auto simp: ts_def bm25_dedupe_def)
    ultimately show ?thesis using k False
      by (simp add: bm25_search_def scores_def docs_def ts_def top_def Let_def)
  qed
  have scored: "map snd top = map (doc_score cfg docs ts) (map fst top)" using snd by simp
  have docs: "map (\<lambda>(i, s). (corpus ! i, s)) top = map (\<lambda>i. (corpus ! i, doc_score cfg docs ts i)) (map fst top)"
    using snd by (simp add: case_prod_beta)
  show ?thesis
    by (intro exI [of _ "map fst top"] conjI) (use result docs dist snd best scored rest in \<open>auto simp del: map_map\<close>)
qed

text \<open>Three documents and a query with two words, one of them twice.\<close>

definition demo_corpus :: "string list" where
  "demo_corpus = [''a:'', ''b c'', ''(A) d'']"

lemma bm25_ranks_witness:
  "let r = bm25_search id (bm25_default (\<lambda>n df. of_nat n / of_nat df)) id demo_corpus ''D, a D'' 2
   in length r = 2 \<and> fst (hd r) = ''(A) d''"
proof -
  let ?cfg = "bm25_default (\<lambda>n df. of_nat n / of_nat df)"
  let ?docs = "map (\<lambda>d. bm25_tokenize (id d)) demo_corpus" and ?ts = "bm25_dedupe (bm25_tokenize ''D, a D'')"
  let ?r = "bm25_search id ?cfg id demo_corpus ''D, a D'' 2"
  have three: "{i. i < 3 \<and> P i} = {0, 2 :: nat}" if "P 0" "\<not> P 1" "P 2" for P
    using that by (auto simp: less_Suc_eq numeral_3_eq_3 numeral_2_eq_2)
  have "length demo_corpus = 3" by (simp add: demo_corpus_def)
  moreover have "doc_matches ?docs ?ts 0" "\<not> doc_matches ?docs ?ts 1" "doc_matches ?docs ?ts 2"
    by code_simp+
  ultimately have card: "card {i. i < length demo_corpus \<and> doc_matches ?docs ?ts i} = 2"
    using three [of "doc_matches ?docs ?ts"] by (simp only:) simp
  obtain ids where "?r = map (\<lambda>i. (demo_corpus ! i, doc_score ?cfg ?docs ?ts i)) ids" "length ids = min (nat 2) 2"
    using bm25_ranks [of 2 id ?cfg id demo_corpus "''D, a D''", OF zero_less_numeral] unfolding card by auto
  then have "length ?r = 2" by (simp del: One_nat_def)
  moreover have "fst (hd ?r) = ''(A) d''" by code_simp
  ultimately show ?thesis by (simp only: Let_def)
qed

end
