(* ===== verification/Search_Tools.thy ===== *)
theory Search_Tools
  imports Bm25 Tool_Registry Tool_Args
begin

text \<open>
  The tools that find hidden tools, \<open>src/pkg/tools/search_tool.go\<close>: by a regular expression and by BM25, with the
  cached engine of the latter.  The engine is the documents it was built from.  Compiling the expression of the
  model and the JSON of the results are parameters.
\<close>

section \<open>Results\<close>

type_synonym search_doc = "string \<times> string"

text \<open>\<open>marshal\<close> is the JSON of the results; it cannot fail on strings.\<close>

definition format_discovery_response ::
  "(search_doc list \<Rightarrow> string) \<Rightarrow> tool_registry \<Rightarrow> search_doc list \<Rightarrow> int \<Rightarrow> tool_result \<times> tool_registry" where
  "format_discovery_response marshal r results ttl =
    (if results = [] then (silent_result ''No tools found matching the query.'', r)
     else (silent_result (''Found '' @ itoa (int (length results)) @ '' tools:'' @ [CHR 0x0A] @ marshal results @
             [CHR 0x0A, CHR 0x0A] @ ''SUCCESS: These tools have been temporarily UNLOCKED as native tools! '' @
             ''In your next response, you can call them directly just like any normal tool''),
           promote_tools r (map fst results) ttl))"

section \<open>By regular expression\<close>

definition max_regex_pattern_length :: nat where "max_regex_pattern_length = 200"

text \<open>The hidden tools that match, in sorted order, no more than asked for.\<close>

definition search_regex :: "(string \<Rightarrow> (string, string \<Rightarrow> bool) go_result) \<Rightarrow> tool_registry \<Rightarrow> string \<Rightarrow> int \<Rightarrow>
    (string, search_doc list) go_result" where
  "search_regex compile r pattern limit =
    (if limit \<le> 0 then Ok []
     else case compile (''(?i)'' @ pattern) of
       Err e \<Rightarrow> Err (''failed to compile regex pattern '' @ quote_name pattern @ '': '' @ e)
     | Ok matches \<Rightarrow>
        Ok (take (nat limit) (List.map_filter
          (\<lambda>n. case map_of (tr_tools r) n of
             None \<Rightarrow> None
           | Some e \<Rightarrow>
              (let desc = tl_description (te_tool e) in
               if \<not> te_core e \<and> (matches n \<or> matches desc) then Some (n, desc) else None))
          (sorted_tool_names r))))"

definition regex_execute :: "(string \<Rightarrow> (string, string \<Rightarrow> bool) go_result) \<Rightarrow> (search_doc list \<Rightarrow> string) \<Rightarrow> int \<Rightarrow> int \<Rightarrow>
    tool_registry \<Rightarrow> go_args \<Rightarrow> tool_result \<times> tool_registry" where
  "regex_execute compile marshal ttl limit r args =
    (case str_arg args ''pattern'' of
       None \<Rightarrow> (error_result ''Missing or invalid 'pattern' argument. Must be a non-empty string.'', r)
     | Some p \<Rightarrow>
        if trim_space p = [] then (error_result ''Missing or invalid 'pattern' argument. Must be a non-empty string.'', r)
        else if length p > max_regex_pattern_length then
          (error_result (''Pattern too long: max '' @ itoa (int max_regex_pattern_length) @ '' characters allowed''), r)
        else case search_regex compile r p limit of
          Err e \<Rightarrow> (error_result (''Invalid regex pattern syntax: '' @ e @ ''. Please fix your regex and try again.''), r)
        | Ok results \<Rightarrow> format_discovery_response marshal r results ttl)"

section \<open>By BM25\<close>

record bm25_tool =
  bt_ttl :: int
  bt_limit :: int
  bt_engine :: "search_doc list option"
  bt_version :: "64 word"

definition new_bm25_tool :: "int \<Rightarrow> int \<Rightarrow> bm25_tool" where
  "new_bm25_tool ttl limit = \<lparr>bt_ttl = ttl, bt_limit = limit, bt_engine = None, bt_version = 0\<rparr>"

definition doc_text :: "search_doc \<Rightarrow> string" where
  "doc_text d = fst d @ '' '' @ snd d"

definition get_or_build_engine :: "tool_registry \<Rightarrow> bm25_tool \<Rightarrow> search_doc list option \<times> bm25_tool" where
  "get_or_build_engine r t =
    (if bt_engine t \<noteq> None \<and> bt_version t = tr_version r then (bt_engine t, t)
     else let (docs, v) = snapshot_hidden_tools r; e = (if docs = [] then None else Some docs)
       in (e, t\<lparr>bt_engine := e, bt_version := v\<rparr>))"

definition bm25_execute :: "((nat \<times> rat) list \<Rightarrow> (nat \<times> rat) list) \<Rightarrow> bm25_config \<Rightarrow> (search_doc list \<Rightarrow> string) \<Rightarrow>
    go_args \<Rightarrow> tool_registry \<Rightarrow> bm25_tool \<Rightarrow> tool_result \<times> tool_registry \<times> bm25_tool" where
  "bm25_execute order cfg marshal args r t =
    (case str_arg args ''query'' of
       None \<Rightarrow> (error_result ''Missing or invalid 'query' argument. Must be a non-empty string.'', r, t)
     | Some q \<Rightarrow>
        if trim_space q = [] then (error_result ''Missing or invalid 'query' argument. Must be a non-empty string.'', r, t)
        else let (engine, t') = get_or_build_engine r t in
          case engine of
            None \<Rightarrow> (silent_result ''No tools found matching the query.'', r, t')
          | Some docs \<Rightarrow>
             (let ranked = bm25_search order cfg doc_text docs q (bt_limit t') in
              if ranked = [] then (silent_result ''No tools found matching the query.'', r, t')
              else let (res, r') = format_discovery_response marshal r (map fst ranked) (bt_ttl t') in (res, r', t')))"

text \<open>The variant without the cache.\<close>

definition search_bm25 :: "((nat \<times> rat) list \<Rightarrow> (nat \<times> rat) list) \<Rightarrow> bm25_config \<Rightarrow> tool_registry \<Rightarrow> string \<Rightarrow> int \<Rightarrow>
    search_doc list" where
  "search_bm25 order cfg r q limit =
    (let docs = fst (snapshot_hidden_tools r) in
     if docs = [] then [] else map fst (bm25_search order cfg doc_text docs q limit))"

section \<open>The cache is never stale\<close>

text \<open>A registry and the tool as they develop, with the number of steps.\<close>

inductive search_run :: "nat \<Rightarrow> tool_registry \<Rightarrow> bm25_tool \<Rightarrow> bool" where
  start: "search_run 0 new_tool_registry (new_bm25_tool ttl limit)"
| operation: "search_run n r t \<Longrightarrow> search_run (Suc n) (apply_op r a) t"
| search: "search_run n r t \<Longrightarrow> bm25_execute order cfg marshal args r t = (res, r', t') \<Longrightarrow> search_run (Suc n) r' t'"

text \<open>What the engine was built from: an earlier registry, from which the present one came by few operations.\<close>

definition engine_from :: "nat \<Rightarrow> tool_registry \<Rightarrow> bm25_tool \<Rightarrow> bool" where
  "engine_from n r t \<longleftrightarrow> registry_ok r \<and>
    (case bt_engine t of None \<Rightarrow> True
     | Some docs \<Rightarrow> \<exists>r0 ops. registry_ok r0 \<and> r = foldl apply_op r0 ops \<and> length ops \<le> n \<and>
         snapshot_hidden_tools r0 = (docs, bt_version t) \<and> docs \<noteq> [])"

lemma registry_ok_op: "registry_ok r \<Longrightarrow> registry_ok (apply_op r a)"
  by (cases a) (simp_all add: registry_ok_ops)

lemma engine_from_op: "engine_from n r t \<Longrightarrow> engine_from (Suc n) (apply_op r a) t"
proof (cases "bt_engine t")
  case (Some docs)
  assume e: "engine_from n r t"
  then obtain r0 ops where "registry_ok r0" "r = foldl apply_op r0 ops" "length ops \<le> n"
    "snapshot_hidden_tools r0 = (docs, bt_version t)" "docs \<noteq> []"
    using Some by (auto simp: engine_from_def)
  then have "apply_op r a = foldl apply_op r0 (ops @ [a]) \<and> length (ops @ [a]) \<le> Suc n \<and> registry_ok r0 \<and>
      snapshot_hidden_tools r0 = (docs, bt_version t) \<and> docs \<noteq> []" by simp
  moreover have "registry_ok (apply_op r a)" using e by (simp add: engine_from_def registry_ok_op)
  ultimately show ?thesis unfolding engine_from_def Some option.case
    by (intro conjI exI [of _ r0] exI [of _ "ops @ [a]"]) simp_all
qed (simp add: engine_from_def registry_ok_op)

lemma engine_from_weaken: "engine_from n r t \<Longrightarrow> n \<le> m \<Longrightarrow> engine_from m r t"
  by (fastforce simp: engine_from_def split: option.splits)

lemma snapshot_version: "snd (snapshot_hidden_tools r) = tr_version r"
  by (simp add: snapshot_hidden_tools_def)

lemma engine_is_fresh:
  assumes "engine_from n r t" "n < 2 ^ 64"
  shows "fst (get_or_build_engine r t) =
      (let docs = fst (snapshot_hidden_tools r) in if docs = [] then None else Some docs)"
    "engine_from n r (snd (get_or_build_engine r t))"
    "bt_limit (snd (get_or_build_engine r t)) = bt_limit t" "bt_ttl (snd (get_or_build_engine r t)) = bt_ttl t"
proof -
  have "fst (get_or_build_engine r t) = (let docs = fst (snapshot_hidden_tools r) in if docs = [] then None else Some docs) \<and>
      engine_from n r (snd (get_or_build_engine r t))"
  proof (cases "bt_engine t \<noteq> None \<and> bt_version t = tr_version r")
    case True
    then obtain docs r0 ops where d: "bt_engine t = Some docs" "registry_ok r0" "r = foldl apply_op r0 ops" "length ops \<le> n"
      "snapshot_hidden_tools r0 = (docs, bt_version t)" "docs \<noteq> []"
      using assms(1) by (auto simp: engine_from_def)
    then have "tr_version (foldl apply_op r0 ops) = tr_version r0" using True snapshot_version [of r0] by simp
    then have "snapshot_hidden_tools r = (docs, bt_version t)"
      using version_validates_snapshot [of r0 ops] d assms(2) by simp
    then show ?thesis using True d assms(1) by (simp add: get_or_build_engine_def)
  next
    case False
    have "engine_from n r (t\<lparr>bt_engine := (if docs = [] then None else Some docs), bt_version := v\<rparr>)"
      if "snapshot_hidden_tools r = (docs, v)" for docs v
      using that assms(1) by (auto simp: engine_from_def intro!: exI [of _ r] exI [of _ "[]"])
    then show ?thesis using False by (auto simp: get_or_build_engine_def Let_def split: prod.split)
  qed
  then show "fst (get_or_build_engine r t) =
      (let docs = fst (snapshot_hidden_tools r) in if docs = [] then None else Some docs)"
    "engine_from n r (snd (get_or_build_engine r t))" by blast+
  show "bt_limit (snd (get_or_build_engine r t)) = bt_limit t" "bt_ttl (snd (get_or_build_engine r t)) = bt_ttl t"
    by (simp_all add: get_or_build_engine_def Let_def split: prod.split)
qed

lemma format_discovery_registry:
  "snd (format_discovery_response marshal r results ttl) = apply_op r (Promote (map fst results) ttl)"
  by (simp add: format_discovery_response_def promote_tools_def)

lemma bm25_execute_step:
  assumes "engine_from n r t" "n < 2 ^ 64" "bm25_execute order cfg marshal args r t = (res, r', t')"
  shows "engine_from (Suc n) r' t'"
proof -
  obtain t1 where t1: "t1 = snd (get_or_build_engine r t)" "engine_from n r t1" using engine_is_fresh(2) [OF assms(1,2)] by blast
  have "(r', t') = (r, t) \<or> (r', t') = (r, t1) \<or> (\<exists>ns ttl. (r', t') = (apply_op r (Promote ns ttl), t1))"
    using assms(3) format_discovery_registry [of marshal r] unfolding t1(1) bm25_execute_def
    by (auto simp: Let_def split: option.splits if_splits prod.splits) (metis snd_conv)+
  then show ?thesis
    using engine_from_op [OF t1(2)] engine_from_weaken [OF t1(2)] engine_from_weaken [OF assms(1)] by fastforce
qed

lemma search_run_engine: "search_run n r t \<Longrightarrow> n < 2 ^ 64 \<Longrightarrow> engine_from n r t"
proof (induction rule: search_run.induct)
  case (start ttl limit)
  then show ?case by (simp add: engine_from_def new_bm25_tool_def registry_ok_new)
next
  case (operation n r t a)
  then show ?case by (simp add: engine_from_op)
next
  case (search n r t order cfg marshal args res r' t')
  then show ?case using bm25_execute_step by simp
qed

text \<open>Promoting makes exactly the promoted hidden tools callable.\<close>

lemma promote_callable:
  assumes "0 < ttl" "\<And>n. n \<in> set names \<Longrightarrow> \<exists>e. map_of (tr_tools r) n = Some e"
  shows "get_tool (promote_tools r names ttl) n \<noteq> None \<longleftrightarrow> get_tool r n \<noteq> None \<or> n \<in> set names"
  using assms(1) assms(2) [of n] by (auto simp: get_tool_def promote_tools_def map_of_promote expired_def split: option.split)

text \<open>
  What a search reports is what it unlocks, and it searches the tools there are: at any time, with any history
  of registrations, promotions, ticks and searches, a search by BM25 ranks the hidden tools registered now (the
  cached engine is never stale), and afterwards exactly the tools callable before and those it found are callable.
\<close>

theorem search_unlocks_found:
  fixes cfg :: bm25_config
  assumes run: "search_run n r t" "n < 2 ^ 64" and q: "str_arg args ''query'' = Some q" "trim_space q \<noteq> []" and ttl: "0 < bt_ttl t"
    and order: "\<And>xs. mset (order xs) = mset xs"
  defines "found \<equiv> map fst (bm25_search order cfg doc_text (fst (snapshot_hidden_tools r)) q (bt_limit t))"
  shows "\<exists>res r' t'. bm25_execute order cfg marshal args r t = (res, r', t') \<and>
    res = fst (format_discovery_response marshal r found (bt_ttl t)) \<and>
    (\<forall>m. get_tool r' m \<noteq> None \<longleftrightarrow> get_tool r m \<noteq> None \<or> m \<in> fst ` set found)"
proof -
  let ?docs = "fst (snapshot_hidden_tools r)"
  note built = search_run_engine [OF run]
  note fresh = engine_is_fresh [OF built run(2)]
  have known: "\<exists>e. map_of (tr_tools r) m = Some e" if m: "m \<in> fst ` set found" for m
  proof -
    have "set found \<subseteq> set ?docs" using bm25_search_docs [OF order] by (simp add: found_def)
    moreover obtain desc where "(m, desc) \<in> set found" using m by auto
    ultimately have "(m, desc) \<in> set ?docs" by blast
    then have "m \<in> fst ` set (tr_tools r)" by (auto simp: snapshot_hidden_tools_def) force
    then show ?thesis by (metis map_of_eq_None_iff not_None_eq)
  qed
  have callable: "get_tool (apply_op r (Promote (map fst found) (bt_ttl t))) m \<noteq> None \<longleftrightarrow> get_tool r m \<noteq> None \<or> m \<in> fst ` set found" for m
    using promote_callable [OF ttl, of "map fst found" r m] known by simp
  obtain engine t' where e: "get_or_build_engine r t = (engine, t')" "bt_limit t' = bt_limit t" "bt_ttl t' = bt_ttl t"
      "engine = (if ?docs = [] then None else Some ?docs)"
    using fresh by (cases "get_or_build_engine r t") (auto simp: Let_def)
  have ex: "bm25_execute order cfg marshal args r t =
      (fst (format_discovery_response marshal r found (bt_ttl t)), apply_op r (Promote (map fst found) (bt_ttl t)), t')"
  proof (cases "?docs = []")
    case True
    then have "found = []" by (simp add: found_def bm25_search_def)
    then show ?thesis using True e q by (simp add: bm25_execute_def format_discovery_response_def promote_tools_def)
  next
    case False
    show ?thesis
    proof (cases "found = []")
      case True
      then show ?thesis using False e q
        by (simp add: bm25_execute_def format_discovery_response_def promote_tools_def found_def Let_def)
    next
      case some: False
      then show ?thesis using False e q
        by (simp add: bm25_execute_def found_def Let_def case_prod_beta format_discovery_registry)
    qed
  qed
  then show ?thesis using callable by blast
qed

text \<open>A hidden tool is registered after an empty search and found by the next one.\<close>

definition hidden_tool :: tool where
  "hidden_tool = \<lparr>tl_name = ''h'', tl_description = ''mail'', tl_parameters = [],
     tl_execute = (\<lambda>i a c d. new_tool_result []), tl_execute_async = None\<rparr>"

definition demo_query :: go_args where "demo_query = [(''query'', Any_Str ''Mail!'')]"

lemma search_unlocks_found_witness:
  "\<exists>n r t res r' t'. search_run n r t \<and> get_tool r ''h'' = None \<and>
    bm25_execute id (bm25_default (\<lambda>n df. 1)) (\<lambda>ds. []) demo_query r t = (res, r', t') \<and> get_tool r' ''h'' \<noteq> None"
proof -
  let ?cfg = "bm25_default (\<lambda>n df. 1)" and ?t = "new_bm25_tool 3 5"
  let ?r = "apply_op new_tool_registry (Reg_Hidden hidden_tool)"
  have trim: "trim_space ''Mail!'' \<noteq> []" by code_simp
  have "bm25_execute id ?cfg (\<lambda>ds. []) demo_query new_tool_registry ?t =
      (silent_result ''No tools found matching the query.'', new_tool_registry, ?t)"
    using trim by (simp add: bm25_execute_def demo_query_def str_arg_def get_or_build_engine_def new_bm25_tool_def
        snapshot_hidden_tools_def new_tool_registry_def)
  then have run: "search_run (Suc (Suc 0)) ?r ?t" by (rule search_run.operation [OF search_run.search [OF search_run.start]])
  have found: "''h'' \<in> fst ` set (map fst (bm25_search id ?cfg doc_text (fst (snapshot_hidden_tools ?r)) ''Mail!'' (bt_limit ?t)))"
    by code_simp
  have hidden: "get_tool ?r ''h'' = None"
    by (simp add: get_tool_def register_hidden_def new_tool_registry_def hidden_tool_def expired_def)
  have "str_arg demo_query ''query'' = Some ''Mail!''" "0 < bt_ttl ?t" "Suc (Suc 0) < 2 ^ 64"
    by (simp_all add: demo_query_def str_arg_def new_bm25_tool_def)
  then obtain res r' t' where "bm25_execute id ?cfg (\<lambda>ds. []) demo_query ?r ?t = (res, r', t')" "get_tool r' ''h'' \<noteq> None"
    using search_unlocks_found [OF run, of demo_query "''Mail!''" id ?cfg "\<lambda>ds. []"] trim found by (metis id_apply)
  then show ?thesis using run hidden by blast
qed

end
