(* ===== verification/Go_Ip.thy ===== *)
theory Go_Ip
  imports Go_Strings Prelude "HOL-Library.Word"
begin

unbundle bit_operations_syntax

text \<open>
  What the code uses of package net: addresses as their bytes, \<open>ParseIP\<close> (with \<open>netip.ParseAddr\<close>),
  \<open>SplitHostPort\<close> and \<open>JoinHostPort\<close>, and the predicates of \<open>IP\<close>.
\<close>

type_synonym ip_bytes = "8 word list"

section \<open>Parsing\<close>

definition digit_val :: "char \<Rightarrow> nat option" where
  "digit_val c = (let n = byte c in if 48 \<le> n \<and> n \<le> 57 then Some (n - 48) else None)"

definition hex_val :: "char \<Rightarrow> nat option" where
  "hex_val c = (let n = byte c in
     if 48 \<le> n \<and> n \<le> 57 then Some (n - 48)
     else if 97 \<le> n \<and> n \<le> 102 then Some (n - 87)
     else if 65 \<le> n \<and> n \<le> 70 then Some (n - 55) else None)"

text \<open>The fields of an IPv4 address: the fields so far, the value and the digits of the current one.\<close>

fun v4_fields :: "nat list \<Rightarrow> nat \<Rightarrow> nat \<Rightarrow> string \<Rightarrow> nat list option" where
  "v4_fields done v digits [] = (if digits = 0 \<or> length done \<noteq> 3 then None else Some (done @ [v]))"
| "v4_fields done v digits (c # s) =
    (if c = CHR ''.'' then (if digits = 0 \<or> length done = 3 then None else v4_fields (done @ [v]) 0 0 s)
     else case digit_val c of
       None \<Rightarrow> None
     | Some d \<Rightarrow>
        (if digits = 1 \<and> v = 0 then None
         else if v * 10 + d > 255 then None else v4_fields done (v * 10 + d) (digits + 1) s))"

definition parse_v4 :: "string \<Rightarrow> ip_bytes option" where
  "parse_v4 s = map_option (map word_of_nat) (v4_fields [] 0 0 s)"

text \<open>A group of at most four hexadecimal digits and what follows it.\<close>

fun hex_group :: "nat \<Rightarrow> nat \<Rightarrow> string \<Rightarrow> (nat \<times> nat \<times> string) option" where
  "hex_group acc n [] = Some (acc, n, [])"
| "hex_group acc n (c # s) =
    (case hex_val c of
       None \<Rightarrow> Some (acc, n, c # s)
     | Some d \<Rightarrow> if n > 3 then None else hex_group (acc * 16 + d) (n + 1) s)"

definition expand_ellipsis :: "nat option \<Rightarrow> ip_bytes \<Rightarrow> ip_bytes option" where
  "expand_ellipsis ell bs =
    (if length bs = 16 then (if ell = None then Some bs else None)
     else case ell of None \<Rightarrow> None | Some e \<Rightarrow> Some (take e bs @ replicate (16 - length bs) 0 @ drop e bs))"

text \<open>The loop over the groups: the place of the ellipsis, the bytes so far and what is left to read.\<close>

function v6_loop :: "nat option \<Rightarrow> ip_bytes \<Rightarrow> string \<Rightarrow> ip_bytes option" where
  "v6_loop ell bs s =
    (if length bs \<ge> 16 then (if s = [] then expand_ellipsis ell bs else None)
     else case hex_group 0 0 s of
       None \<Rightarrow> None
     | Some (acc, n, rest) \<Rightarrow>
        if n = 0 then None
        else if rest \<noteq> [] \<and> hd rest = CHR ''.'' then
          (if ell = None \<and> length bs \<noteq> 12 \<or> length bs + 4 > 16 then None
           else case parse_v4 s of None \<Rightarrow> None | Some v \<Rightarrow> expand_ellipsis ell (bs @ v))
        else let bs' = bs @ [word_of_nat (acc div 256), word_of_nat (acc mod 256)] in
          if rest = [] then expand_ellipsis ell bs'
          else if hd rest \<noteq> CHR '':'' \<or> length rest = 1 then None
          else let s' = tl rest in
            if hd s' = CHR '':'' then
              (if ell \<noteq> None then None
               else if tl s' = [] then expand_ellipsis (Some (length bs')) bs'
               else v6_loop (Some (length bs')) bs' (tl s'))
            else v6_loop ell bs' s')"
  by pat_completeness auto
termination by (relation "measure (\<lambda>(ell, bs, s). 16 - length bs)") auto

declare v6_loop.simps [simp del]

definition parse_v6 :: "string \<Rightarrow> ip_bytes option" where
  "parse_v6 s =
    (if take 2 s = ''::'' then (if length s = 2 then Some (replicate 16 0) else v6_loop (Some 0) [] (drop 2 s))
     else v6_loop None [] s)"

definition v4_mapped :: "ip_bytes \<Rightarrow> ip_bytes" where
  "v4_mapped v = replicate 10 0 @ [255, 255] @ v"

text \<open>The 16 bytes; addresses with a zone are refused.\<close>

definition parse_ip :: "string \<Rightarrow> ip_bytes option" where
  "parse_ip s =
    (case List.find (\<lambda>c. c \<in> {CHR ''.'', CHR '':'', CHR ''%''}) s of
       Some c \<Rightarrow>
        (if c = CHR ''.'' then map_option v4_mapped (parse_v4 s)
         else if c = CHR '':'' \<and> CHR ''%'' \<notin> set s then parse_v6 s else None)
     | None \<Rightarrow> None)"

section \<open>Host and port\<close>

definition join_host_port :: "string \<Rightarrow> string \<Rightarrow> string" where
  "join_host_port host port =
    (if CHR '':'' \<in> set host then ''['' @ host @ '']:'' @ port else host @ '':'' @ port)"

definition index_of :: "char \<Rightarrow> string \<Rightarrow> nat" where
  "index_of c s = length (takeWhile (\<lambda>x. x \<noteq> c) s)"

text \<open>\<open>None\<close> for an error; with no bracket the host must not contain a colon.\<close>

definition split_host_port :: "string \<Rightarrow> (string \<times> string) option" where
  "split_host_port a =
    (if CHR '':'' \<notin> set a then None
     else let i = length a - 1 - index_of (CHR '':'') (rev a); port = drop (i + 1) a in
       if hd a = CHR ''['' then
         (if CHR '']'' \<notin> set a then None
          else let e = index_of (CHR '']'') a in
            if e + 1 \<noteq> i then None
            else if CHR ''['' \<in> set (tl a) \<or> CHR '']'' \<in> set (drop (e + 1) a) then None
            else Some (drop 1 (take e a), port))
       else if CHR '':'' \<in> set (take i a) \<or> CHR ''['' \<in> set a \<or> CHR '']'' \<in> set a then None
       else Some (take i a, port))"

lemma index_of_rev_append: "c \<notin> set t \<Longrightarrow> index_of c (rev (s @ c # t)) = length t"
  by (simp add: index_of_def takeWhile_append)

lemma split_join_host_port:
  assumes "CHR ''['' \<notin> set host" "CHR '']'' \<notin> set host"
    and "CHR '':'' \<notin> set port" "CHR ''['' \<notin> set port" "CHR '']'' \<notin> set port"
  shows "split_host_port (join_host_port host port) = Some (host, port)"
proof (cases "CHR '':'' \<in> set host")
  case True
  let ?a = "''['' @ host @ '']:'' @ port"
  have "index_of (CHR '':'') (rev ?a) = length port"
    using index_of_rev_append [of "CHR '':''" port "''['' @ host @ '']''"] assms(3) by simp
  moreover have "index_of (CHR '']'') ?a = length host + 1"
    using assms(2) by (simp add: index_of_def takeWhile_append)
  ultimately show ?thesis using True assms by (simp add: split_host_port_def join_host_port_def Let_def)
next
  case False
  have "index_of (CHR '':'') (rev (host @ '':'' @ port)) = length port"
    using index_of_rev_append [of "CHR '':''" port host] assms(3) by simp
  then show ?thesis using False assms
    by (cases host) (auto simp: split_host_port_def join_host_port_def Let_def)
qed

section \<open>Predicates\<close>

definition to4 :: "ip_bytes \<Rightarrow> ip_bytes option" where
  "to4 ip =
    (if length ip = 4 then Some ip
     else if length ip = 16 \<and> (\<forall>b\<in>set (take 10 ip). b = 0) \<and> ip ! 10 = 255 \<and> ip ! 11 = 255 then Some (drop 12 ip)
     else None)"

definition ipv6_loopback :: ip_bytes where "ipv6_loopback = replicate 15 0 @ [1]"

definition is_loopback :: "ip_bytes \<Rightarrow> bool" where
  "is_loopback ip = (case to4 ip of Some v \<Rightarrow> v ! 0 = 127 | None \<Rightarrow> ip = ipv6_loopback)"

definition is_link_local_unicast :: "ip_bytes \<Rightarrow> bool" where
  "is_link_local_unicast ip =
    (case to4 ip of Some v \<Rightarrow> v ! 0 = 169 \<and> v ! 1 = 254
     | None \<Rightarrow> length ip = 16 \<and> ip ! 0 = 0xfe \<and> ip ! 1 AND 0xc0 = 0x80)"

definition is_link_local_multicast :: "ip_bytes \<Rightarrow> bool" where
  "is_link_local_multicast ip =
    (case to4 ip of Some v \<Rightarrow> v ! 0 = 224 \<and> v ! 1 = 0 \<and> v ! 2 = 0
     | None \<Rightarrow> length ip = 16 \<and> ip ! 0 = 0xff \<and> ip ! 1 AND 0x0f = 0x02)"

definition is_multicast :: "ip_bytes \<Rightarrow> bool" where
  "is_multicast ip =
    (case to4 ip of Some v \<Rightarrow> v ! 0 AND 0xf0 = 0xe0 | None \<Rightarrow> length ip = 16 \<and> ip ! 0 = 0xff)"

definition is_unspecified :: "ip_bytes \<Rightarrow> bool" where
  "is_unspecified ip \<longleftrightarrow> to4 ip = Some [0, 0, 0, 0] \<or> ip = replicate 16 0"

section \<open>The parser\<close>

lemma v4_fields_length: "v4_fields don v n s = Some fs \<Longrightarrow> length fs = 4"
  by (induction don v n s rule: v4_fields.induct) (auto split: if_splits option.splits)

lemma parse_v4_length: "parse_v4 s = Some v \<Longrightarrow> length v = 4"
  by (auto simp: parse_v4_def dest: v4_fields_length)

lemma expand_ellipsis_length:
  "expand_ellipsis ell bs = Some ip \<Longrightarrow> length bs \<le> 16 \<Longrightarrow> (\<forall>e. ell = Some e \<longrightarrow> e \<le> length bs) \<Longrightarrow> length ip = 16"
  by (auto simp: expand_ellipsis_def split: if_splits option.splits)

lemma v6_loop_length:
  "v6_loop ell bs s = Some ip \<Longrightarrow> length bs \<le> 16 \<Longrightarrow> even (length bs) \<Longrightarrow> (\<forall>e. ell = Some e \<longrightarrow> e \<le> length bs) \<Longrightarrow>
    length ip = 16"
proof (induction ell bs s rule: v6_loop.induct)
  case (1 ell bs s)
  note eq = 1(3) [unfolded v6_loop.simps [of ell bs s]]
  show ?case
  proof (cases "length bs \<ge> 16")
    case True
    then show ?thesis using eq 1(4,6) by (auto split: if_splits intro: expand_ellipsis_length)
  next
    case False
    then have le: "length bs + 2 \<le> 16" using 1(4,5) by presburger
    obtain acc n rest where g: "hex_group 0 0 s = Some (acc, n, rest)" "n \<noteq> 0"
      using eq False by (auto split: option.splits if_splits)
    define bs' where "bs' = bs @ [word_of_nat (acc div 256), word_of_nat (acc mod 256)]"
    have bs': "length bs' \<le> 16" "even (length bs')" "length bs \<le> length bs'" using le 1(5) by (auto simp: bs'_def)
    show ?thesis
    proof (cases "rest \<noteq> [] \<and> hd rest = CHR ''.''")
      case True
      then show ?thesis using eq False g 1(6)
        by (auto simp: parse_v4_length split: if_splits option.splits intro!: expand_ellipsis_length)
    next
      case nodot: False
      note eq1 = eq [unfolded g, simplified False nodot g(2) if_False option.case prod.case Let_def, folded bs'_def]
      show ?thesis
      proof (cases "rest = []")
        case True
        then show ?thesis using eq1 False g nodot 1(6) bs' by (auto intro!: expand_ellipsis_length simp: bs'_def)
      next
        case more: False
        then have colon: "hd rest = CHR '':''" "length rest \<noteq> 1"
          using eq1 False g nodot by (auto split: if_splits)
        show ?thesis
        proof (cases "hd (tl rest) = CHR '':''")
          case True
          then have ell: "ell = None" using eq1 False g nodot more colon by (auto split: if_splits)
          show ?thesis
          proof (cases "tl (tl rest) = []")
            case fin: True
            then have "expand_ellipsis (Some (length bs')) bs' = Some ip"
              using eq1 False g nodot more colon True ell by (simp add: bs'_def)
            then show ?thesis using bs' by (auto intro: expand_ellipsis_length)
          next
            case on: False
            then have "v6_loop (Some (length bs')) bs' (tl (tl rest)) = Some ip"
              using eq1 False g nodot more colon True ell by (simp add: bs'_def)
            then show ?thesis
              using 1(1) [OF False g(1) refl refl g(2) nodot refl more _ refl True _ on] bs' colon ell by (auto simp: bs'_def)
          qed
        next
          case one: False
          then have "v6_loop ell bs' (tl rest) = Some ip"
            using eq1 False g nodot more colon by (simp add: bs'_def)
          then show ?thesis
            using 1(2) [OF False g(1) refl refl g(2) nodot refl more _ refl one] bs' colon 1(6) by (fastforce simp: bs'_def)
        qed
      qed
    qed
  qed
qed

lemma parse_ip_length: "parse_ip s = Some ip \<Longrightarrow> length ip = 16"
  by (auto simp: parse_ip_def parse_v6_def v4_mapped_def parse_v4_length split: option.splits if_splits
      dest: v6_loop_length)

end
