(* ===== verification/Web_Fetch.thy ===== *)
theory Web_Fetch
  imports Tool_Registry Tool_Args Go_Ip
begin

text \<open>
  The web tools of \<open>src/pkg/tools/web.go\<close>: the pool of API keys, the choice of a search provider, the guard of
  web_fetch against private addresses, and the text of a page.  Resolving names, dialing, the HTTP exchange and
  parsing of URLs are parameters.
\<close>

unbundle bit_operations_syntax

section \<open>The pool of API keys\<close>

record key_pool =
  kp_keys :: "string list"
  kp_current :: "32 word"

record key_iterator =
  ki_keys :: "string list"
  ki_start :: "32 word"
  ki_attempt :: "32 word"

definition new_key_pool :: "string list \<Rightarrow> key_pool" where
  "new_key_pool keys = \<lparr>kp_keys = keys, kp_current = 0\<rparr>"

definition new_iterator :: "key_pool \<Rightarrow> key_iterator \<times> key_pool" where
  "new_iterator p =
    (if kp_keys p = [] then (\<lparr>ki_keys = [], ki_start = 0, ki_attempt = 0\<rparr>, p)
     else let now = kp_current p + 1 in
       (\<lparr>ki_keys = kp_keys p, ki_start = now - 1, ki_attempt = 0\<rparr>, p\<lparr>kp_current := now\<rparr>))"

definition next_key :: "key_iterator \<Rightarrow> string option \<times> key_iterator" where
  "next_key it =
    (let n = word_of_nat (length (ki_keys it)) in
     if n = 0 \<or> ki_attempt it \<ge> n then (None, it)
     else (Some (ki_keys it ! unat ((ki_start it + ki_attempt it) mod n)), it\<lparr>ki_attempt := ki_attempt it + 1\<rparr>))"

text \<open>The keys an iterator still yields; it yields no more than there are keys.\<close>

primrec keys_from :: "nat \<Rightarrow> key_iterator \<Rightarrow> string list" where
  "keys_from 0 it = []"
| "keys_from (Suc n) it = (case next_key it of (None, _) \<Rightarrow> [] | (Some k, it') \<Rightarrow> k # keys_from n it')"

section \<open>Addresses that are never fetched\<close>

definition restricted_v4 :: "ip_bytes \<Rightarrow> bool" where
  "restricted_v4 v \<longleftrightarrow> v ! 0 = 10 \<or> v ! 0 = 127 \<or> v ! 0 = 0 \<or> (v ! 0 = 172 \<and> v ! 1 \<ge> 16 \<and> v ! 1 \<le> 31) \<or>
     (v ! 0 = 192 \<and> v ! 1 = 168) \<or> (v ! 0 = 169 \<and> v ! 1 = 254) \<or> (v ! 0 = 100 \<and> v ! 1 \<ge> 64 \<and> v ! 1 \<le> 127)"

definition restricted_class :: "ip_bytes \<Rightarrow> bool" where
  "restricted_class ip \<longleftrightarrow> is_loopback ip \<or> is_link_local_unicast ip \<or> is_link_local_multicast ip \<or>
     is_multicast ip \<or> is_unspecified ip"

text \<open>The recursive calls are for IPv4 addresses, as \<open>net.IPv4\<close> makes them.\<close>

definition restricted_embedded :: "ip_bytes \<Rightarrow> bool" where
  "restricted_embedded v \<longleftrightarrow> restricted_class (v4_mapped v) \<or> restricted_v4 v"

definition is_private_or_restricted :: "ip_bytes \<Rightarrow> bool" where
  "is_private_or_restricted ip \<longleftrightarrow>
    ip = [] \<or> restricted_class ip \<or>
    (case to4 ip of
       Some v \<Rightarrow> restricted_v4 v
     | None \<Rightarrow>
        length ip = 16 \<and>
        (if ip ! 0 AND 0xfe = 0xfc then True
         else if ip ! 0 = 0x20 \<and> ip ! 1 = 0x02 then restricted_embedded [ip ! 2, ip ! 3, ip ! 4, ip ! 5]
         else if ip ! 0 = 0x20 \<and> ip ! 1 = 0x01 \<and> ip ! 2 = 0 \<and> ip ! 3 = 0 then
           restricted_embedded [ip ! 12 XOR 0xff, ip ! 13 XOR 0xff, ip ! 14 XOR 0xff, ip ! 15 XOR 0xff]
         else False))"

definition trim_suffix :: "string \<Rightarrow> string \<Rightarrow> string" where
  "trim_suffix s suf = (if suffix suf s then take (length s - length suf) s else s)"

definition is_obvious_private_host :: "bool \<Rightarrow> string \<Rightarrow> bool" where
  "is_obvious_private_host allow host =
    (if allow then False
     else let h = trim_suffix (to_lower (trim_space host)) ''.'' in
       if h = [] \<or> h = ''localhost'' \<or> suffix ''.localhost'' h then True
       else case parse_ip h of Some ip \<Rightarrow> is_private_or_restricted ip | None \<Rightarrow> False)"

section \<open>Dialing\<close>

text \<open>
  What the code asks of the network: the addresses of a name and whether a connection succeeds, each a function
  of how many questions were asked before.
\<close>

datatype dial_target = Dial_Ip ip_bytes string | Dial_Any string

record network =
  nw_resolve :: "nat \<Rightarrow> string \<Rightarrow> ip_bytes list option"
  nw_connect :: "nat \<Rightarrow> dial_target \<Rightarrow> bool"

record dialing =
  dl_clock :: nat
  dl_dialed :: "dial_target list"

definition dial :: "network \<Rightarrow> dial_target \<Rightarrow> dialing \<Rightarrow> bool \<times> dialing" where
  "dial nw t d =
    (nw_connect nw (dl_clock d) t, d\<lparr>dl_clock := dl_clock d + 1, dl_dialed := dl_dialed d @ [t]\<rparr>)"

fun dial_first :: "network \<Rightarrow> string \<Rightarrow> ip_bytes list \<Rightarrow> dialing \<Rightarrow> bool \<times> dialing" where
  "dial_first nw port [] d = (False, d)"
| "dial_first nw port (ip # ips) d =
    (if is_private_or_restricted ip then dial_first nw port ips d
     else case dial nw (Dial_Ip ip port) d of
       (True, d') \<Rightarrow> (True, d')
     | (False, d') \<Rightarrow> dial_first nw port ips d')"

definition safe_dial :: "bool \<Rightarrow> network \<Rightarrow> string \<Rightarrow> dialing \<Rightarrow> bool \<times> dialing" where
  "safe_dial allow nw address d =
    (if allow then dial nw (Dial_Any address) d
     else case split_host_port address of
       None \<Rightarrow> (False, d)
     | Some (host, port) \<Rightarrow>
        if host = [] then (False, d)
        else case parse_ip host of
          Some ip \<Rightarrow> if is_private_or_restricted ip then (False, d) else dial nw (Dial_Ip ip port) d
        | None \<Rightarrow>
           (let d1 = d\<lparr>dl_clock := dl_clock d + 1\<rparr> in
            case nw_resolve nw (dl_clock d) host of
              None \<Rightarrow> (False, d1)
            | Some ips \<Rightarrow> dial_first nw port ips d1))"

section \<open>Fetching\<close>

text \<open>A URL as package url parses it, and what a server answers to a request on a connection.\<close>

record url =
  ur_scheme :: string
  ur_host :: string
  ur_hostname :: string
  ur_port :: string

datatype 'r hop_answer = Hop_Failed | Hop_Final 'r | Hop_Redirect url

text \<open>The address the transport dials for a URL: the proxy's when there is one.\<close>

definition url_address :: "url \<Rightarrow> string" where
  "url_address u = join_host_port (ur_hostname u)
     (if ur_port u \<noteq> [] then ur_port u else if ur_scheme u = ''https'' then ''443'' else ''80'')"

definition dial_address :: "url option \<Rightarrow> url \<Rightarrow> string" where
  "dial_address proxy u = url_address (case proxy of Some p \<Rightarrow> p | None \<Rightarrow> u)"

definition max_redirects :: nat where "max_redirects = 5"

text \<open>\<open>CheckRedirect\<close>; \<open>via\<close> is the number of requests made so far.\<close>

definition check_redirect :: "bool \<Rightarrow> nat \<Rightarrow> url \<Rightarrow> bool" where
  "check_redirect allow via u \<longleftrightarrow> \<not> max_redirects \<le> via \<and> \<not> is_obvious_private_host allow (ur_hostname u)"

function client_do :: "bool \<Rightarrow> network \<Rightarrow> (nat \<Rightarrow> url \<Rightarrow> 'r hop_answer) \<Rightarrow> url option \<Rightarrow> nat \<Rightarrow> url \<Rightarrow> dialing \<Rightarrow> 'r option \<times> dialing" where
  "client_do allow nw serve proxy via u d =
    (case safe_dial allow nw (dial_address proxy u) d of
       (False, d1) \<Rightarrow> (None, d1)
     | (True, d1) \<Rightarrow>
        (case serve via u of
           Hop_Failed \<Rightarrow> (None, d1)
         | Hop_Final r \<Rightarrow> (Some r, d1)
         | Hop_Redirect u' \<Rightarrow>
            if check_redirect allow (via + 1) u' then client_do allow nw serve proxy (via + 1) u' d1 else (None, d1)))"
  by pat_completeness auto
termination by (relation "measure (\<lambda>(allow, nw, serve, proxy, via, u, d). max_redirects - via)") (auto simp: check_redirect_def)

declare client_do.simps [simp del]

section \<open>Text of a page\<close>

text \<open>\<open>ReplaceAll\<close> of the patterns for scripts and styles, for tags, for blanks and for blank lines, written out.\<close>

function remove_blocks :: "string \<Rightarrow> string \<Rightarrow> string \<Rightarrow> string" where
  "remove_blocks start stop s =
    (if start = [] then s
     else case str_index s start of
       None \<Rightarrow> s
     | Some i \<Rightarrow>
        (let inner = drop (i + length start) s in
         case str_index inner stop of
           None \<Rightarrow> s
         | Some j \<Rightarrow> take i s @ remove_blocks start stop (drop (j + length stop) inner)))"
  by pat_completeness auto
termination
  by (relation "measure (\<lambda>(start, stop, s). length s)") (auto simp: str_index_Some_iff intro!: diff_less)

declare remove_blocks.simps [simp del]

function strip_tags :: "string \<Rightarrow> string" where
  "strip_tags [] = []"
| "strip_tags (c # s) =
    (if c = CHR ''<'' \<and> takeWhile (\<lambda>x. x \<noteq> CHR ''>'') s \<noteq> [] \<and> CHR ''>'' \<in> set s then
       strip_tags (tl (dropWhile (\<lambda>x. x \<noteq> CHR ''>'') s))
     else c # strip_tags s)"
  by pat_completeness auto
termination
  by (relation "measure length") (auto simp: less_Suc_eq_le intro!: diff_le_self [THEN order_trans] length_dropWhile_le)

definition blank_char :: "char \<Rightarrow> bool" where
  "blank_char c \<longleftrightarrow> c \<in> {CHR 0x09, CHR 0x0C, CHR 0x0D, CHR 0x20}"

function squeeze_blanks :: "string \<Rightarrow> string" where
  "squeeze_blanks [] = []"
| "squeeze_blanks (c # s) =
    (if blank_char c then CHR 0x20 # squeeze_blanks (dropWhile blank_char s) else c # squeeze_blanks s)"
  by pat_completeness auto
termination
  by (relation "measure length") (auto simp: less_Suc_eq_le length_dropWhile_le)

function squeeze_newlines :: "string \<Rightarrow> string" where
  "squeeze_newlines [] = []"
| "squeeze_newlines (c # s) =
    (let run = takeWhile (\<lambda>x. x = CHR 0x0A) s; rest = dropWhile (\<lambda>x. x = CHR 0x0A) s
     in if c = CHR 0x0A then (if length run \<ge> 2 then [c, c] else c # run) @ squeeze_newlines rest
        else c # squeeze_newlines s)"
  by pat_completeness auto
termination
  by (relation "measure length") (auto simp: less_Suc_eq_le length_dropWhile_le)

definition extract_text :: "string \<Rightarrow> string" where
  "extract_text html =
    (let s1 = strip_tags (remove_blocks ''<style'' ''</style>'' (remove_blocks ''<script'' ''</script>'' html));
         s2 = squeeze_newlines (squeeze_blanks (trim_space s1))
     in join [CHR 0x0A] (filter (\<lambda>l. l \<noteq> []) (map trim_space (split_on (CHR 0x0A) s2))))"

section \<open>The tool\<close>

record web_fetch =
  wf_max_chars :: int
  wf_proxy :: "url option"
  wf_limit :: nat

text \<open>The proxy is already checked and parsed.\<close>

definition new_web_fetch :: "int \<Rightarrow> url option \<Rightarrow> int \<Rightarrow> web_fetch" where
  "new_web_fetch max_chars proxy limit =
    \<lparr>wf_max_chars = (if max_chars \<le> 0 then 50000 else max_chars), wf_proxy = proxy,
     wf_limit = (if limit \<le> 0 then 10 * 1024 * 1024 else nat limit)\<rparr>"

text \<open>A response; the body is \<open>None\<close> when reading it fails.\<close>

record page =
  pg_status :: int
  pg_type :: string
  pg_body :: "string option"

text \<open>The JSON of a value, and of the answer to the model.\<close>

record fetch_json =
  fj_pretty :: "string \<Rightarrow> string option"
  fj_answer :: "string \<Rightarrow> int \<Rightarrow> string \<Rightarrow> bool \<Rightarrow> string \<Rightarrow> string"

definition page_text :: "fetch_json \<Rightarrow> string \<Rightarrow> string \<Rightarrow> string \<times> string" where
  "page_text fj content_type body =
    (if str_contains content_type ''application/json'' then
       (case fj_pretty fj body of Some t \<Rightarrow> (t, ''json'') | None \<Rightarrow> (body, ''raw''))
     else if str_contains content_type ''text/html'' \<or>
         body \<noteq> [] \<and> (prefix ''<!DOCTYPE'' body \<or> prefix ''<html'' (to_lower body)) then (extract_text body, ''text'')
     else (body, ''raw''))"

definition truth :: "bool \<Rightarrow> string" where
  "truth b = (if b then ''true'' else ''false'')"

text \<open>The texts of errors of the network are left out.\<close>

definition web_fetch_execute :: "bool \<Rightarrow> network \<Rightarrow> (nat \<Rightarrow> url \<Rightarrow> page hop_answer) \<Rightarrow> (string \<Rightarrow> url option) \<Rightarrow>
    fetch_json \<Rightarrow> web_fetch \<Rightarrow> go_args \<Rightarrow> dialing \<Rightarrow> tool_result \<times> dialing" where
  "web_fetch_execute allow nw serve parse_url fj web args d =
    (case str_arg args ''url'' of
       None \<Rightarrow> (error_result ''url is required'', d)
     | Some s \<Rightarrow>
        (case parse_url s of
           None \<Rightarrow> (error_result ''invalid URL'', d)
         | Some u \<Rightarrow>
            if ur_scheme u \<noteq> ''http'' \<and> ur_scheme u \<noteq> ''https'' then (error_result ''only http/https URLs are allowed'', d)
            else if ur_host u = [] then (error_result ''missing domain in URL'', d)
            else if is_obvious_private_host allow (ur_hostname u) then
              (error_result ''fetching private or local network hosts is not allowed'', d)
            else
              (let max_chars = (case num_arg args ''maxChars'' of
                     Some v \<Rightarrow> if int64_of_float v > 100 then int64_of_float v else wf_max_chars web
                   | None \<Rightarrow> wf_max_chars web)
               in case client_do allow nw serve (wf_proxy web) 0 u d of
                 (None, d') \<Rightarrow> (error_result ''request failed'', d')
               | (Some pg, d') \<Rightarrow>
                  ((case pg_body pg of
                      None \<Rightarrow> error_result ''failed to read response''
                    | Some body \<Rightarrow>
                       if length body > wf_limit web then
                         error_result (''failed to read response: size exceeded '' @ itoa (int (wf_limit web)) @ '' bytes limit'')
                       else
                         (let (t, extractor) = page_text fj (pg_type pg) body;
                              truncated = int (length t) > max_chars;
                              t' = (if truncated then take (nat max_chars) t else t)
                          in (new_tool_result (fj_answer fj s (pg_status pg) extractor truncated t'))
                            \<lparr>tr_for_user := ''Fetched '' @ itoa (int (length t')) @ '' bytes from '' @ s @ '' (extractor: '' @
                               extractor @ '', truncated: '' @ truth truncated @ '')''\<rparr>)), d'))))"

end
