(* ===== verification/Web_Guard.thy ===== *)
theory Web_Guard
  imports Web_Fetch
begin

text \<open>
  What the guard of web_fetch keeps: the addresses it refuses as a list of networks, the connections a fetch makes,
  what a proxy does to it, and the text of a page.
\<close>

unbundle bit_operations_syntax

section \<open>Networks\<close>

definition byte_bits :: "8 word \<Rightarrow> bool list" where
  "byte_bits b = map (bit b) [7, 6, 5, 4, 3, 2, 1, 0]"

definition ip_bits :: "ip_bytes \<Rightarrow> bool list" where
  "ip_bits ip = concat (map byte_bits ip)"

text \<open>An address in a network, given by the address of the network and the length of its prefix.\<close>

definition in_network :: "ip_bytes \<Rightarrow> ip_bytes \<times> nat \<Rightarrow> bool" where
  "in_network ip net \<longleftrightarrow> take (snd net) (ip_bits ip) = take (snd net) (ip_bits (fst net))"

text \<open>This network, RFC 1918, carrier-grade NAT, loopback, link-local and multicast.\<close>

definition refused_v4 :: "(ip_bytes \<times> nat) list" where
  "refused_v4 = [([0, 0, 0, 0], 8), ([10, 0, 0, 0], 8), ([100, 64, 0, 0], 10), ([127, 0, 0, 0], 8), ([169, 254, 0, 0], 16),
     ([172, 16, 0, 0], 12), ([192, 168, 0, 0], 16), ([224, 0, 0, 0], 4)]"

text \<open>The unspecified address, loopback, unique local, link-local and multicast.\<close>

definition refused_v6 :: "(ip_bytes \<times> nat) list" where
  "refused_v6 = [(replicate 16 0, 128), (ipv6_loopback, 128), (0xfc # replicate 15 0, 7),
     (0xfe # 0x80 # replicate 14 0, 10), (0xff # replicate 15 0, 8)]"

text \<open>The IPv4 address that is meant: the address itself, mapped, or embedded by 6to4 or (inverted) by Teredo.\<close>

definition meant_v4 :: "ip_bytes \<Rightarrow> ip_bytes option" where
  "meant_v4 ip =
    (if length ip = 4 then Some ip
     else if in_network ip (v4_mapped [0, 0, 0, 0], 96) then Some (drop 12 ip)
     else if in_network ip (0x20 # 0x02 # replicate 14 0, 16) then Some (take 4 (drop 2 ip))
     else if in_network ip (0x20 # 0x01 # replicate 14 0, 32) then Some (map NOT (drop 12 ip))
     else None)"

definition refused_address :: "ip_bytes \<Rightarrow> bool" where
  "refused_address ip =
    (case meant_v4 ip of Some v \<Rightarrow> list_ex (in_network v) refused_v4 | None \<Rightarrow> list_ex (in_network ip) refused_v6)"

section \<open>The guard is the list of networks\<close>

lemma byte_bits_inject [simp]: "byte_bits a = byte_bits b \<longleftrightarrow> a = b"
proof
  assume eq: "byte_bits a = byte_bits b"
  show "a = b"
  proof (rule bit_word_eqI)
    fix n :: nat
    assume "n < LENGTH(8)"
    then have "n \<in> {0, 1, 2, 3, 4, 5, 6, 7}" by auto
    then show "bit a n = bit b n" using eq by (auto simp: byte_bits_def)
  qed
qed simp

lemma length_byte_bits [simp]: "length (byte_bits b) = 8"
  by (simp add: byte_bits_def)

lemma uint_bits:
  "uint (b :: 8 word) = of_bool (bit b 0) + 2 * of_bool (bit b 1) + 4 * of_bool (bit b 2) + 8 * of_bool (bit b 3) +
     16 * of_bool (bit b 4) + 32 * of_bool (bit b 5) + 64 * of_bool (bit b 6) + 128 * of_bool (bit b 7)"
proof -
  have "0 \<le> uint b \<and> uint b < 256" using unsigned_less [of b] by simp
  then have "uint b = take_bit 8 (uint b)" by (subst eq_commute) (simp add: take_bit_int_eq_self_iff)
  also have "\<dots> = horner_sum of_bool 2 (map (bit (uint b)) [0..<8])" by (simp only: horner_sum_bit_eq_take_bit)
  finally show ?thesis by (simp add: upt_rec numeral_nat bit_uint_iff)
qed

lemma byte_prefix_ranges:
  fixes b :: "8 word"
  shows "take 2 (byte_bits b) = take 2 (byte_bits (64 :: 8 word)) \<longleftrightarrow> 64 \<le> b \<and> b \<le> 127"
    "take 4 (byte_bits b) = take 4 (byte_bits (16 :: 8 word)) \<longleftrightarrow> 16 \<le> b \<and> b \<le> 31"
  by (simp_all add: byte_bits_def word_le_def uint_bits)

lemma byte_prefix_masks:
  fixes b :: "8 word"
  shows "take 4 (byte_bits b) = take 4 (byte_bits (224 :: 8 word)) \<longleftrightarrow> b AND 0xf0 = 0xe0"
    "take 2 (byte_bits b) = take 2 (byte_bits (0x80 :: 8 word)) \<longleftrightarrow> b AND 0xc0 = 0x80"
    "take 7 (byte_bits b) = take 7 (byte_bits (0xfc :: 8 word)) \<longleftrightarrow> b AND 0xfe = 0xfc"
  unfolding byte_bits_inject [symmetric]
  by (simp_all add: byte_bits_def bit_simps)

lemma xor_ff: "b XOR 0xff = NOT (b :: 8 word)"
  unfolding byte_bits_inject [symmetric]
  by (simp add: byte_bits_def bit_simps)

lemmas byte_prefixes = byte_prefix_ranges byte_prefix_masks

lemma bytes4:
  assumes "length v = 4"
  obtains a b c d where "v = [a, b, c, d]"
  using assms by (auto simp: numeral_nat length_Suc_conv)

lemma bytes16:
  assumes "length v = 16"
  obtains a b c d e f g h i j k l m n q r where "v = [a, b, c, d, e, f, g, h, i, j, k, l, m, n, q, r]"
  using assms by (auto simp: numeral_nat length_Suc_conv)

lemma ip_bits_take: "take (8 * n) (ip_bits ip) = ip_bits (take n ip)"
proof (induction ip arbitrary: n)
  case (Cons b ip)
  then show ?case by (cases n) (simp_all add: ip_bits_def)
qed (simp add: ip_bits_def)

lemma ip_bits_inject: "ip_bits a = ip_bits b \<longleftrightarrow> a = b"
proof
  show "ip_bits a = ip_bits b \<Longrightarrow> a = b"
  proof (induction a arbitrary: b)
    case Nil
    then show ?case by (cases b) (auto simp: ip_bits_def byte_bits_def)
  next
    case (Cons x a)
    then show ?case by (cases b) (auto simp: ip_bits_def, simp_all add: byte_bits_def)
  qed
qed simp

text \<open>A network of whole bytes.\<close>

lemma in_byte_network: "in_network ip (net, 8 * n) \<longleftrightarrow> take n ip = take n net"
  by (simp add: in_network_def ip_bits_take ip_bits_inject)

lemma take_bits [simp]:
  "take 8 (byte_bits a @ s) = byte_bits a" "take n (byte_bits a @ s) = (if n \<le> 8 then take n (byte_bits a) else byte_bits a @ take (n - 8) s)"
  by simp_all

lemma refused_v4_iff:
  assumes "length v = 4"
  shows "list_ex (in_network v) refused_v4 \<longleftrightarrow> restricted_v4 v \<or> v ! 0 AND 0xf0 = 0xe0"
proof -
  obtain a b c d where v: "v = [a, b, c, d]" using bytes4 [OF assms] .
  show ?thesis by (auto simp: v refused_v4_def in_network_def ip_bits_def restricted_v4_def byte_prefixes)
qed

lemma to4_replicate [simp]: "to4 (replicate 16 0) = None"
  by (simp add: to4_def)

text \<open>IPv4 addresses, however they are written.\<close>

lemma restricted_class_v4:
  assumes "to4 ip = Some v" "length v = 4"
  shows "restricted_class ip \<or> restricted_v4 v \<longleftrightarrow> list_ex (in_network v) refused_v4"
proof -
  have "ip \<noteq> replicate 16 0" using assms(1) by auto
  then show ?thesis using assms
    by (auto simp: refused_v4_iff restricted_class_def restricted_v4_def is_loopback_def is_link_local_unicast_def
        is_link_local_multicast_def is_multicast_def is_unspecified_def)
qed

lemma restricted_embedded_iff: "length v = 4 \<Longrightarrow> restricted_embedded v \<longleftrightarrow> list_ex (in_network v) refused_v4"
  unfolding restricted_embedded_def by (rule restricted_class_v4) (simp_all add: to4_def v4_mapped_def nth_append)

lemma mapped_network:
  assumes "length ip = 16"
  shows "in_network ip (v4_mapped [0, 0, 0, 0], 96) \<longleftrightarrow> to4 ip = Some (drop 12 ip)"
    "to4 ip \<noteq> Some (drop 12 ip) \<longleftrightarrow> to4 ip = None"
proof -
  obtain a b c d e f g h i j k l m n q r where ip: "ip = [a, b, c, d, e, f, g, h, i, j, k, l, m, n, q, r]"
    using bytes16 [OF assms] .
  show "in_network ip (v4_mapped [0, 0, 0, 0], 96) \<longleftrightarrow> to4 ip = Some (drop 12 ip)"
    using in_byte_network [of ip _ 12] by (simp add: ip v4_mapped_def to4_def numeral_eq_Suc) 
  show "to4 ip \<noteq> Some (drop 12 ip) \<longleftrightarrow> to4 ip = None" using assms by (auto simp: to4_def)
qed

lemma restricted_class_v6:
  assumes "length ip = 16" "to4 ip = None"
  shows "restricted_class ip \<or> ip ! 0 AND 0xfe = 0xfc \<longleftrightarrow> list_ex (in_network ip) refused_v6"
proof -
  obtain a b c d e f g h i j k l m n q r where ip: "ip = [a, b, c, d, e, f, g, h, i, j, k, l, m, n, q, r]"
    using bytes16 [OF assms(1)] .
  have nets: "list_ex (in_network ip) refused_v6 \<longleftrightarrow> ip = replicate 16 0 \<or> ip = ipv6_loopback \<or> a AND 0xfe = 0xfc \<or>
      a = 0xfe \<and> b AND 0xc0 = 0x80 \<or> a = 0xff"
  proof -
    have "in_network ip (replicate 16 0, 128) \<longleftrightarrow> ip = replicate 16 0" "in_network ip (ipv6_loopback, 128) \<longleftrightarrow> ip = ipv6_loopback"
      using in_byte_network [of ip _ 16] assms(1) by (simp_all add: ipv6_loopback_def)
    moreover have "in_network ip (0xff # replicate 15 0, 8) \<longleftrightarrow> a = 0xff" using in_byte_network [of ip _ 1] by (simp add: ip)
    moreover have "in_network ip (0xfc # replicate 15 0, 7) \<longleftrightarrow> a AND 0xfe = 0xfc"
      by (simp add: ip in_network_def ip_bits_def byte_prefixes)
    moreover have "in_network ip (0xfe # 0x80 # replicate 14 0, 10) \<longleftrightarrow> a = 0xfe \<and> b AND 0xc0 = 0x80"
      by (simp add: ip in_network_def ip_bits_def byte_prefixes)
    ultimately show ?thesis by (simp add: refused_v6_def)
  qed
  have "restricted_class ip \<longleftrightarrow> ip = replicate 16 0 \<or> ip = ipv6_loopback \<or> a = 0xfe \<and> b AND 0xc0 = 0x80 \<or> a = 0xff"
    using assms by (auto simp: restricted_class_def is_loopback_def is_link_local_unicast_def
        is_link_local_multicast_def is_multicast_def is_unspecified_def ip)
  then show ?thesis unfolding nets by (auto simp: ip)
qed

lemma embedding_networks:
  assumes "length ip = 16"
  shows "in_network ip (0x20 # 0x02 # replicate 14 0, 16) \<longleftrightarrow> ip ! 0 = 0x20 \<and> ip ! 1 = 0x02"
    "in_network ip (0x20 # 0x01 # replicate 14 0, 32) \<longleftrightarrow> ip ! 0 = 0x20 \<and> ip ! 1 = 0x01 \<and> ip ! 2 = 0 \<and> ip ! 3 = 0"
    "take 4 (drop 2 ip) = [ip ! 2, ip ! 3, ip ! 4, ip ! 5]"
    "map NOT (drop 12 ip) = [ip ! 12 XOR 0xff, ip ! 13 XOR 0xff, ip ! 14 XOR 0xff, ip ! 15 XOR 0xff]"
proof -
  obtain a b c d e f g h i j k l m n q r where ip: "ip = [a, b, c, d, e, f, g, h, i, j, k, l, m, n, q, r]"
    using bytes16 [OF assms] .
  show "in_network ip (0x20 # 0x02 # replicate 14 0, 16) \<longleftrightarrow> ip ! 0 = 0x20 \<and> ip ! 1 = 0x02"
    using in_byte_network [of ip _ 2] by (simp add: ip)
  show "in_network ip (0x20 # 0x01 # replicate 14 0, 32) \<longleftrightarrow> ip ! 0 = 0x20 \<and> ip ! 1 = 0x01 \<and> ip ! 2 = 0 \<and> ip ! 3 = 0"
    using in_byte_network [of ip _ 4] by (simp add: ip numeral_eq_Suc)
  show "take 4 (drop 2 ip) = [ip ! 2, ip ! 3, ip ! 4, ip ! 5]" by (simp add: ip)
  show "map NOT (drop 12 ip) = [ip ! 12 XOR 0xff, ip ! 13 XOR 0xff, ip ! 14 XOR 0xff, ip ! 15 XOR 0xff]"
    by (simp add: ip xor_ff)
qed

lemma guard_iff:
  assumes "length ip = 4 \<or> length ip = 16"
  shows "is_private_or_restricted ip \<longleftrightarrow> refused_address ip"
proof (cases "to4 ip")
  case (Some v)
  then have v: "length v = 4" "ip \<noteq> []" by (auto simp: to4_def split: if_splits)
  have "meant_v4 ip = Some v"
  proof (cases "length ip = 4")
    case False
    then have "length ip = 16" using assms by blast
    then show ?thesis using Some mapped_network [of ip] by (auto simp: meant_v4_def)
  qed (use Some in \<open>simp add: meant_v4_def to4_def\<close>)
  then show ?thesis using Some v restricted_class_v4 [OF Some v(1)]
    by (simp add: is_private_or_restricted_def refused_address_def)
next
  case None
  then have len: "length ip = 16" using assms by (auto simp: to4_def)
  have mapped: "\<not> in_network ip (v4_mapped [0, 0, 0, 0], 96)" using mapped_network [OF len] None by simp
  note emb = embedding_networks [OF len]
  have noclass: "\<not> restricted_class ip" if "ip ! 0 = 0x20"
    using that None by (auto simp: restricted_class_def is_loopback_def is_link_local_unicast_def
        is_link_local_multicast_def is_multicast_def is_unspecified_def ipv6_loopback_def nth_append)
  have ip: "is_private_or_restricted ip \<longleftrightarrow> restricted_class ip \<or> ip ! 0 AND 0xfe = 0xfc \<or>
      ip ! 0 = 0x20 \<and> ip ! 1 = 0x02 \<and> restricted_embedded (take 4 (drop 2 ip)) \<or>
      ip ! 0 = 0x20 \<and> ip ! 1 = 0x01 \<and> ip ! 2 = 0 \<and> ip ! 3 = 0 \<and> restricted_embedded (map NOT (drop 12 ip))"
    unfolding is_private_or_restricted_def None emb(3,4) using len by auto
  show ?thesis
  proof (cases "meant_v4 ip")
    case None2: None
    then show ?thesis using ip restricted_class_v6 [OF len None] mapped len
      by (auto simp: refused_address_def meant_v4_def emb(1,2) split: if_splits)
  next
    case (Some v)
    then have "ip ! 0 = 0x20" "length v = 4" using mapped len by (auto simp: meant_v4_def emb(1,2) split: if_splits)
    then show ?thesis using ip noclass Some restricted_embedded_iff [of v] mapped len
      by (auto simp: refused_address_def meant_v4_def emb(1,2) split: if_splits)
  qed
qed

text \<open>
  C28: The guard refuses exactly the networks it documents: an address is restricted if and only if the IPv4 address
  it means (itself, mapped into IPv6, or embedded by 6to4 or Teredo) is in one of eight networks, or, if it means
  none, the IPv6 address is in one of five.
\<close>

theorem guard_refuses_networks:
  assumes "length ip = 4 \<or> length ip = 16"
  shows "is_private_or_restricted ip \<longleftrightarrow>
    (case meant_v4 ip of Some v \<Rightarrow> \<exists>net\<in>set refused_v4. in_network v net | None \<Rightarrow> \<exists>net\<in>set refused_v6. in_network ip net)"
  using guard_iff [OF assms] by (simp add: refused_address_def list_ex_iff split: option.split)

text \<open>The metadata address of a cloud, as IPv4, mapped, and by 6to4; and a public one.\<close>

lemma guard_refuses_networks_witness:
  "is_private_or_restricted [169, 254, 169, 254] \<and>
   is_private_or_restricted (0x20 # 0x02 # 169 # 254 # 169 # 254 # replicate 10 0) \<and> \<not> is_private_or_restricted [8, 8, 8, 8]"
proof -
  have "list_ex (in_network [169, 254, 169, 254]) refused_v4" "\<not> list_ex (in_network [8, 8, 8, 8]) refused_v4"
    "is_private_or_restricted (0x20 # 0x02 # 169 # 254 # 169 # 254 # replicate 10 0)" by code_simp+
  then show ?thesis
    using guard_refuses_networks [of "[169, 254, 169, 254]"] guard_refuses_networks [of "[8, 8, 8, 8]"]
    by (auto simp: meant_v4_def list_ex_iff)
qed

section \<open>Connections\<close>

text \<open>A connection to an address that is in none of the networks, given addresses of the right length.\<close>

fun allowed_target :: "dial_target \<Rightarrow> bool" where
  "allowed_target (Dial_Ip ip port) \<longleftrightarrow> \<not> refused_address ip"
| "allowed_target (Dial_Any a) \<longleftrightarrow> False"

definition resolver_ok :: "network \<Rightarrow> bool" where
  "resolver_ok nw \<longleftrightarrow> (\<forall>n h ips. nw_resolve nw n h = Some ips \<longrightarrow> (\<forall>ip\<in>set ips. length ip = 4 \<or> length ip = 16))"

definition only_allowed :: "dialing \<Rightarrow> bool" where
  "only_allowed d \<longleftrightarrow> list_all allowed_target (dl_dialed d)"

lemma only_allowed_dial:
  "only_allowed d \<Longrightarrow> \<not> is_private_or_restricted ip \<Longrightarrow> length ip = 4 \<or> length ip = 16 \<Longrightarrow>
    only_allowed (snd (dial nw (Dial_Ip ip port) d))"
  by (simp add: only_allowed_def dial_def guard_iff)

lemma only_allowed_clock [simp]: "only_allowed (d\<lparr>dl_clock := n\<rparr>) = only_allowed d"
  by (simp add: only_allowed_def)

lemma only_allowed_first:
  "only_allowed d \<Longrightarrow> \<forall>ip\<in>set ips. length ip = 4 \<or> length ip = 16 \<Longrightarrow> only_allowed (snd (dial_first nw port ips d))"
proof (induction ips arbitrary: d)
  case (Cons ip ips)
  have "only_allowed (snd (dial nw (Dial_Ip ip port) d))" if "\<not> is_private_or_restricted ip"
    using only_allowed_dial [OF Cons(2) that] Cons(3) by simp
  then show ?case using Cons by (auto split: prod.split bool.split)
qed simp

lemma only_allowed_safe_dial:
  assumes "only_allowed d" "resolver_ok nw"
  shows "only_allowed (snd (safe_dial False nw a d))"
proof -
  have "only_allowed (snd (dial_first nw port ips (d\<lparr>dl_clock := n\<rparr>)))" if "nw_resolve nw m h = Some ips" for m h ips port n
    using that assms by (intro only_allowed_first) (auto simp: resolver_ok_def)
  moreover have "only_allowed (snd (dial nw (Dial_Ip ip port) d))" if "parse_ip h = Some ip" "\<not> is_private_or_restricted ip" for h ip port
    using only_allowed_dial [OF assms(1) that(2)] parse_ip_length [OF that(1)] by simp
  ultimately show ?thesis using assms(1) by (auto simp: safe_dial_def Let_def split: option.split)
qed

lemma only_allowed_client_do:
  "only_allowed d \<Longrightarrow> resolver_ok nw \<Longrightarrow> only_allowed (snd (client_do False nw serve proxy via u d))"
proof (induction False nw serve proxy via u d rule: client_do.induct)
  case (1 nw serve proxy via u d)
  have "only_allowed (snd (safe_dial False nw (dial_address proxy u) d))" 
    using 1(2,3) by (rule only_allowed_safe_dial)
  then show ?case using 1
    by (subst client_do.simps) (auto split: prod.split bool.split hop_answer.split)
qed

lemma web_fetch_dialing:
  "snd (web_fetch_execute allow nw serve parse_url fj web args d) = d \<or>
   (\<exists>u. snd (web_fetch_execute allow nw serve parse_url fj web args d) = snd (client_do allow nw serve (wf_proxy web) 0 u d))"
  by (cases "str_arg args ''url''"; cases "parse_url (the (str_arg args ''url''))")
    (auto simp: web_fetch_execute_def Let_def split: prod.split option.split, (metis snd_conv)+)

text \<open>
  C17: Without a proxy, web_fetch connects to public addresses only: whatever URL the model asks for, wherever
  servers redirect to, and whatever a name resolves to at the moment of each connection, every address that is
  dialed is in none of the refused networks.
\<close>

theorem fetch_dials_public:
  assumes "resolver_ok nw" "wf_proxy web = None"
  shows "\<forall>t\<in>set (dl_dialed (snd (web_fetch_execute False nw serve parse_url fj web args \<lparr>dl_clock = 0, dl_dialed = []\<rparr>))).
    \<exists>ip port. t = Dial_Ip ip port \<and> \<not> refused_address ip"
proof -
  let ?d = "\<lparr>dl_clock = 0, dl_dialed = []\<rparr>"
  have "only_allowed ?d" by (simp add: only_allowed_def)
  then have "only_allowed (snd (client_do False nw serve None 0 u ?d))" for u
    using assms(1) by (rule only_allowed_client_do)
  then have "only_allowed (snd (web_fetch_execute False nw serve parse_url fj web args ?d))"
    using web_fetch_dialing [of False nw serve parse_url fj web args ?d] assms(2) \<open>only_allowed ?d\<close> by metis
  then show ?thesis by (auto simp: only_allowed_def list_all_iff elim!: allowed_target.elims)
qed

text \<open>A name with a private and a public address, whose server redirects to the metadata address of a cloud.\<close>

definition demo_url :: "string \<Rightarrow> url" where
  "demo_url host = \<lparr>ur_scheme = ''http'', ur_host = host, ur_hostname = host, ur_port = []\<rparr>"

definition demo_network :: network where
  "demo_network = \<lparr>nw_resolve = (\<lambda>n h. Some [[10, 0, 0, 1], [8, 8, 8, 8]]), nw_connect = (\<lambda>n t. True)\<rparr>"

definition demo_fetch :: "url option \<Rightarrow> (nat \<Rightarrow> url \<Rightarrow> page hop_answer) \<Rightarrow> tool_result \<times> dialing" where
  "demo_fetch proxy serve = web_fetch_execute False demo_network serve (\<lambda>s. Some (demo_url s))
     \<lparr>fj_pretty = (\<lambda>t. None), fj_answer = (\<lambda>u st x b t. t)\<rparr> (new_web_fetch 9 proxy 9) [(''url'', Any_Str ''a.b'')]
     \<lparr>dl_clock = 0, dl_dialed = []\<rparr>"

lemma fetch_dials_public_witness:
  "let (r, d) = demo_fetch None (\<lambda>n u. Hop_Redirect (demo_url ''169.254.169.254''))
   in tr_is_error r \<and> dl_dialed d = [Dial_Ip [8, 8, 8, 8] ''80''] \<and> \<not> refused_address [8, 8, 8, 8]"
proof -
  let ?serve = "\<lambda>n u. Hop_Redirect (demo_url ''169.254.169.254'')"
  have "resolver_ok demo_network" by (simp add: resolver_ok_def demo_network_def)
  then have "\<forall>t\<in>set (dl_dialed (snd (demo_fetch None ?serve))). \<exists>ip port. t = Dial_Ip ip port \<and> \<not> refused_address ip"
    unfolding demo_fetch_def by (rule fetch_dials_public) (simp add: new_web_fetch_def)
  moreover have "tr_is_error (fst (demo_fetch None ?serve))"
    "dl_dialed (snd (demo_fetch None ?serve)) = [Dial_Ip [8, 8, 8, 8] ''80'']" by code_simp+
  ultimately show ?thesis by (simp add: case_prod_beta)
qed

section \<open>Proxies\<close>

lemma guarded_proxy:
  assumes "split_host_port (url_address p) = Some (h, q)" "h \<noteq> []" "parse_ip h = Some ip" "is_private_or_restricted ip"
  shows "client_do False nw serve (Some p) via u d = (None, d)"
  using assms by (subst client_do.simps) (simp add: dial_address_def safe_dial_def)

text \<open>
  A proxy on a private address breaks web_fetch: the guard checks the address that is dialed, which is the
  proxy's, so every fetch fails, whatever the URL, before anything is sent.
\<close>

theorem private_proxy_breaks_fetch:
  assumes "wf_proxy web = Some p" "split_host_port (url_address p) = Some (h, q)" "h \<noteq> []"
    and "parse_ip h = Some ip" "refused_address ip"
  shows "tr_is_error (fst (web_fetch_execute False nw serve parse_url fj web args d)) \<and>
    snd (web_fetch_execute False nw serve parse_url fj web args d) = d"
proof -
  have "is_private_or_restricted ip" using assms(5) guard_iff parse_ip_length [OF assms(4)] by simp
  then have "client_do False nw serve (Some p) 0 u d = (None, d)" for u using guarded_proxy assms(2-4) by blast
  then show ?thesis using assms(1)
    by (auto simp: web_fetch_execute_def Let_def error_result_def split: option.split)
qed

text \<open>The proxy of the example in the test of the tool.\<close>

lemma private_proxy_breaks_fetch_witness:
  "tr_is_error (fst (demo_fetch (Some \<lparr>ur_scheme = ''http'', ur_host = ''127.0.0.1:7890'', ur_hostname = ''127.0.0.1'', ur_port = ''7890''\<rparr>) (\<lambda>n u. Hop_Final \<lparr>pg_status = 200, pg_type = ''text/plain'', pg_body = Some ''hello''\<rparr>)))"
proof -
  let ?p = "\<lparr>ur_scheme = ''http'', ur_host = ''127.0.0.1:7890'', ur_hostname = ''127.0.0.1'', ur_port = ''7890''\<rparr>"
  have "split_host_port (url_address ?p) = Some (''127.0.0.1'', ''7890'')"
    "parse_ip ''127.0.0.1'' = Some (v4_mapped [127, 0, 0, 1])" "refused_address (v4_mapped [127, 0, 0, 1])" by code_simp+
  then show ?thesis unfolding demo_fetch_def
    using private_proxy_breaks_fetch [where p = ?p] by (simp add: new_web_fetch_def)
qed

text \<open>With a public proxy the guard never sees what the name of the URL resolves to.\<close>

lemma proxy_hides_target:
  "dial_address (Some p) u = dial_address (Some p) u' \<and>
   safe_dial False nw (dial_address (Some p) u) d = safe_dial False nw (dial_address (Some p) u') d"
  by (simp add: dial_address_def)

section \<open>Keys\<close>

text \<open>A search tries every key once, starting one further than the search before, while the counter does not wrap.\<close>

lemma unat_small: "n < 2 ^ 32 \<Longrightarrow> unat (word_of_nat n :: 32 word) = n"
  by (simp add: unsigned_of_nat take_bit_nat_eq_self)

lemma keys_from_map:
  assumes "ki_keys it = keys" "keys \<noteq> []" "unat (ki_start it) + 2 * length keys < 2 ^ 32" "a \<le> length keys"
    and "ki_attempt it = word_of_nat a" "length keys - a < m"
  shows "keys_from m it = map (\<lambda>i. keys ! ((unat (ki_start it) + i) mod length keys)) [a..<length keys]"
  using assms
proof (induction m arbitrary: it a)
  case (Suc m)
  let ?n = "word_of_nat (length keys) :: 32 word"
  have n: "unat ?n = length keys" using Suc(4) by (intro unat_small) simp
  then have n0: "?n \<noteq> 0" using Suc(3) by auto
  have a: "unat (ki_attempt it) = a" using Suc(4,5,6) by (simp add: unat_small)
  show ?case
  proof (cases "a < length keys")
    case True
    have sum: "unat (ki_start it + ki_attempt it) = unat (ki_start it) + a"
      using Suc(4,5) a by (simp add: unat_word_ariths)
    have "next_key it = (Some (keys ! ((unat (ki_start it) + a) mod length keys)), it\<lparr>ki_attempt := word_of_nat (Suc a)\<rparr>)"
      using True Suc(2,6) n n0 a sum by (simp add: next_key_def Let_def word_le_nat_alt unat_mod add.commute)
    moreover have "keys_from m (it\<lparr>ki_attempt := word_of_nat (Suc a)\<rparr>) =
        map (\<lambda>i. keys ! ((unat (ki_start it) + i) mod length keys)) [Suc a..<length keys]"
      using Suc(1) [of "it\<lparr>ki_attempt := word_of_nat (Suc a)\<rparr>" "Suc a"] Suc(2-7) True by simp
    ultimately show ?thesis using True by (simp add: upt_conv_Cons)
  next
    case False
    then have "next_key it = (None, it)" using Suc(2,5) n n0 a by (simp add: next_key_def Let_def word_le_nat_alt)
    then show ?thesis using False by simp
  qed
qed simp

lemma search_tries_every_key:
  assumes "kp_keys p = keys" "keys \<noteq> []" "unat (kp_current p) + 2 * length keys < 2 ^ 32"
  shows "keys_from (Suc (length keys)) (fst (new_iterator p)) = rotate (unat (kp_current p) mod length keys) keys"
proof -
  have "keys_from (Suc (length keys)) (fst (new_iterator p)) =
      map (\<lambda>i. keys ! ((unat (kp_current p) + i) mod length keys)) [0..<length keys]"
    using assms by (subst keys_from_map [where a = 0 and keys = keys]) (auto simp: new_iterator_def Let_def)
  also have "\<dots> = rotate (unat (kp_current p) mod length keys) keys"
    by (rule nth_equalityI) (use assms(2) in \<open>simp_all add: nth_rotate mod_simps add.commute\<close>)
  finally show ?thesis .
qed

text \<open>When it wraps in the middle of a search, a key is tried twice and another not at all.\<close>

lemma wrapped_counter_repeats_key:
  "keys_from 4 (fst (new_iterator \<lparr>kp_keys = [''a'', ''b'', ''c''], kp_current = - 1\<rparr>)) = [''a'', ''a'', ''b'']"
  by code_simp

end
