(* ===== verification/Skill_Install.thy ===== *)
theory Skill_Install
  imports Go_Filepath Tool_Registry Tool_Args
begin

text \<open>
  Installing and removing skills: \<open>src/pkg/utils/skills.go\<close>, \<open>zip.go\<close>, \<open>src/pkg/skills/registry.go\<close>,
  \<open>clawhub_registry.go\<close>, \<open>installer.go\<close> (removal) and \<open>src/pkg/tools/skills_install.go\<close>.  The file system maps
  the elements of absolute paths to nodes; what a registry answers is a parameter.
\<close>

section \<open>The file system\<close>

datatype node = Dir | Regular string

type_synonym tree = "string list \<Rightarrow> node option"

definition stat_ok :: "tree \<Rightarrow> string \<Rightarrow> bool" where
  "stat_ok fs p \<longleftrightarrow> fs (elems p) \<noteq> None"

definition remove_all :: "tree \<Rightarrow> string \<Rightarrow> tree" where
  "remove_all fs p = (\<lambda>q. if prefix (elems p) q then None else fs q)"

text \<open>\<open>None\<close> if a file is in the way.\<close>

definition mkdir_all :: "tree \<Rightarrow> string \<Rightarrow> tree option" where
  "mkdir_all fs p =
    (if list_ex (\<lambda>q. case fs q of Some (Regular _) \<Rightarrow> True | _ \<Rightarrow> False) (prefixes (elems p)) then None
     else Some (\<lambda>q. if prefix q (elems p) \<and> fs q = None then Some Dir else fs q))"

text \<open>\<open>os.Create\<close> and what is written to the file; the directory must be there, and no directory at the place.\<close>

definition create_file :: "tree \<Rightarrow> string \<Rightarrow> string \<Rightarrow> tree option" where
  "create_file fs p content =
    (if elems p = [] \<or> fs (butlast (elems p)) \<noteq> Some Dir \<or> fs (elems p) = Some Dir then None
     else Some (fs(elems p \<mapsto> Regular content)))"

section \<open>Identifiers\<close>

definition validate_skill_identifier :: "string \<Rightarrow> (string, unit) go_result" where
  "validate_skill_identifier identifier =
    (let trimmed = trim_space identifier in
     if trimmed = [] then Err ''identifier is required and must be a non-empty string''
     else if CHR ''/'' \<in> set trimmed \<or> CHR 0x5C \<in> set trimmed \<or> str_contains trimmed ''..'' then
       Err (''identifier must not contain path separators or '' @ [CHR 0x27] @ ''..'' @ [CHR 0x27] @ '' to prevent directory traversal'')
     else Ok ())"

section \<open>Archives\<close>

text \<open>An entry: its size by the header, and its bytes with whether they could be read to the end.\<close>

record zip_entry =
  ze_name :: string
  ze_symlink :: bool
  ze_is_dir :: bool
  ze_size :: nat
  ze_data :: "(string \<times> bool) option"

definition max_file_size :: nat where "max_file_size = 5 * 1024 * 1024"

text \<open>The flag says whether the extraction succeeded.\<close>

definition extract_single_file :: "tree \<Rightarrow> zip_entry \<Rightarrow> string \<Rightarrow> tree \<times> bool" where
  "extract_single_file fs e dest =
    (if ze_size e > max_file_size then (fs, False)
     else case ze_data e of
       None \<Rightarrow> (fs, False)
     | Some (content, whole) \<Rightarrow>
        (case create_file fs dest content of
           None \<Rightarrow> (fs, False)
         | Some fs' \<Rightarrow>
            if length content > max_file_size \<or> \<not> whole then (fs'(elems dest := None), False) else (fs', True)))"

fun extract_entries :: "tree \<Rightarrow> string \<Rightarrow> zip_entry list \<Rightarrow> tree \<times> bool" where
  "extract_entries fs target [] = (fs, True)"
| "extract_entries fs target (e # es) =
    (let clean_name = clean (ze_name e); dest = path_join target clean_name; base = clean target in
     if prefix ''..'' clean_name \<or> is_abs clean_name then (fs, False)
     else if \<not> prefix (base @ ''/'') (clean dest) \<and> clean dest \<noteq> base then (fs, False)
     else if ze_symlink e then (fs, False)
     else if ze_is_dir e then
       (case mkdir_all fs dest of None \<Rightarrow> (fs, False) | Some fs' \<Rightarrow> extract_entries fs' target es)
     else case mkdir_all fs (path_dir dest) of
       None \<Rightarrow> (fs, False)
     | Some fs1 \<Rightarrow>
        (case extract_single_file fs1 e dest of
           (fs2, False) \<Rightarrow> (fs2, False)
         | (fs2, True) \<Rightarrow> extract_entries fs2 target es))"

definition extract_zip_file :: "tree \<Rightarrow> zip_entry list option \<Rightarrow> string \<Rightarrow> tree \<times> bool" where
  "extract_zip_file fs archive target =
    (case archive of
       None \<Rightarrow> (fs, False)
     | Some es \<Rightarrow>
        (case mkdir_all fs target of None \<Rightarrow> (fs, False) | Some fs' \<Rightarrow> extract_entries fs' target es))"

section \<open>Registries\<close>

record skill_meta =
  sm_summary :: string
  sm_latest :: string
  sm_malware :: bool
  sm_suspicious :: bool

record install_result =
  ir_version :: string
  ir_malware :: bool
  ir_suspicious :: bool
  ir_summary :: string

text \<open>What the server of a registry answers: metadata, and an archive for a slug and a version if the download works.\<close>

record skill_registry =
  sr_name :: string
  sr_meta :: "string \<Rightarrow> skill_meta option"
  sr_download :: "string \<Rightarrow> string \<Rightarrow> zip_entry list option option"

definition get_registry :: "skill_registry list \<Rightarrow> string \<Rightarrow> skill_registry option" where
  "get_registry rs name = List.find (\<lambda>r. sr_name r = name) rs"

definition get_skill_meta :: "skill_registry \<Rightarrow> string \<Rightarrow> skill_meta option" where
  "get_skill_meta r slug = (case validate_skill_identifier slug of Err _ \<Rightarrow> None | Ok _ \<Rightarrow> sr_meta r slug)"

definition download_and_install :: "skill_registry \<Rightarrow> string \<Rightarrow> string \<Rightarrow> string \<Rightarrow> tree \<Rightarrow> install_result option \<times> tree" where
  "download_and_install r slug version target fs =
    (case validate_skill_identifier slug of
       Err _ \<Rightarrow> (None, fs)
     | Ok _ \<Rightarrow>
        (let meta = get_skill_meta r slug;
             v1 = (if version = [] then (case meta of Some m \<Rightarrow> sm_latest m | None \<Rightarrow> []) else version);
             v = (if v1 = [] then ''latest'' else v1)
         in case sr_download r slug v of
              None \<Rightarrow> (None, fs)
            | Some archive \<Rightarrow>
               (case extract_zip_file fs archive target of
                  (fs', False) \<Rightarrow> (None, fs')
                | (fs', True) \<Rightarrow>
                   (Some (case meta of
                      None \<Rightarrow> \<lparr>ir_version = v, ir_malware = False, ir_suspicious = False, ir_summary = []\<rparr>
                    | Some m \<Rightarrow> \<lparr>ir_version = v, ir_malware = sm_malware m, ir_suspicious = sm_suspicious m,
                        ir_summary = sm_summary m\<rparr>), fs'))))"

section \<open>The tool\<close>

text \<open>\<open>origin\<close> is the text of the metadata file; its directory exists after a successful installation.\<close>

definition write_origin_meta :: "string \<Rightarrow> tree \<Rightarrow> string \<Rightarrow> tree" where
  "write_origin_meta origin fs target =
    (let p = path_join target ''.skill-origin.json'' in
     case mkdir_all fs (path_dir p) of
       None \<Rightarrow> fs
     | Some fs' \<Rightarrow> (case create_file fs' p origin of None \<Rightarrow> fs' | Some fs'' \<Rightarrow> fs''))"

definition skill_target :: "string \<Rightarrow> string \<Rightarrow> string" where
  "skill_target workspace slug = path_join (path_join workspace ''skills'') slug"

definition warning_sign :: string where
  "warning_sign = [CHR 0xE2, CHR 0x9A, CHR 0xA0, CHR 0xEF, CHR 0xB8, CHR 0x8F]"

text \<open>From the choice of the registry on; the message to the user (in Chinese) is a parameter.\<close>

definition install_from_registry :: "skill_registry list \<Rightarrow> string \<Rightarrow> string \<Rightarrow>
    (string \<Rightarrow> install_result \<Rightarrow> string \<Rightarrow> string \<Rightarrow> string) \<Rightarrow> string \<Rightarrow> string \<Rightarrow> string \<Rightarrow> tree \<Rightarrow> tool_result \<times> tree" where
  "install_from_registry rs workspace origin user_text slug name version fs =
    (let target = skill_target workspace slug in
     case get_registry rs name of
       None \<Rightarrow> (error_result (''registry '' @ quote_name name @ '' not found''), fs)
     | Some r \<Rightarrow>
        (case mkdir_all fs (path_join workspace ''skills'') of
           None \<Rightarrow> (error_result ''failed to create skills directory'', fs)
         | Some fs2 \<Rightarrow>
            (case download_and_install r slug version target fs2 of
               (None, fs3) \<Rightarrow> (error_result (''failed to install '' @ quote_name slug), remove_all fs3 target)
             | (Some ir, fs3) \<Rightarrow>
                if ir_malware ir then
                  (error_result (''skill '' @ quote_name slug @ '' is flagged as malicious and cannot be installed''),
                   remove_all fs3 target)
                else
                  (let said = (if ir_suspicious ir then warning_sign @ '' Warning: skill '' @ quote_name slug @
                           '' is flagged as suspicious (may contain risky patterns).'' @ [CHR 0x0A, CHR 0x0A] else []) @
                         ''Successfully installed skill '' @ quote_name slug @ '' v'' @ ir_version ir @ '' from '' @
                         sr_name r @ '' registry.'' @ [CHR 0x0A] @ ''Location: '' @ target @ [CHR 0x0A] @
                         (if ir_summary ir \<noteq> [] then ''Description: '' @ ir_summary ir @ [CHR 0x0A] else []) @ [CHR 0x0A] @
                         ''The skill is now available and can be loaded in the current session.''
                   in ((new_tool_result said)\<lparr>tr_for_user := user_text slug ir (sr_name r) target\<rparr>,
                       write_origin_meta origin fs3 target)))))"

definition install_skill_execute :: "skill_registry list \<Rightarrow> string \<Rightarrow> string \<Rightarrow>
    (string \<Rightarrow> install_result \<Rightarrow> string \<Rightarrow> string \<Rightarrow> string) \<Rightarrow> go_args \<Rightarrow> tree \<Rightarrow> tool_result \<times> tree" where
  "install_skill_execute rs workspace origin user_text args fs =
    (let slug = (case str_arg args ''slug'' of Some s \<Rightarrow> s | None \<Rightarrow> []);
         name = (case str_arg args ''registry'' of Some s \<Rightarrow> s | None \<Rightarrow> []);
         version = (case str_arg args ''version'' of Some s \<Rightarrow> s | None \<Rightarrow> []);
         force = (case bool_arg args ''force'' of Some b \<Rightarrow> b | None \<Rightarrow> False);
         target = skill_target workspace slug
     in case validate_skill_identifier slug of
          Err e \<Rightarrow> (error_result (''invalid slug '' @ quote_name slug @ '': error: '' @ e), fs)
        | Ok _ \<Rightarrow>
      (case validate_skill_identifier name of
          Err e \<Rightarrow> (error_result (''invalid registry '' @ quote_name name @ '': error: '' @ e), fs)
        | Ok _ \<Rightarrow>
           if \<not> force \<and> stat_ok fs target then
             (error_result (''skill '' @ quote_name slug @ '' already installed at '' @ target @ ''. Use force=true to reinstall.''), fs)
           else install_from_registry rs workspace origin user_text slug name version
             (if force then remove_all fs target else fs)))"

section \<open>Removal\<close>

definition uninstall :: "string \<Rightarrow> string \<Rightarrow> tree \<Rightarrow> (string, unit) go_result \<times> tree" where
  "uninstall workspace skill_name fs =
    (let name = (case List.find (\<lambda>p. p \<noteq> []) (rev (split_slash skill_name)) of Some p \<Rightarrow> p | None \<Rightarrow> skill_name);
         dir = skill_target workspace name
     in if \<not> stat_ok fs dir then
          (Err (''skill '' @ [CHR 0x27] @ skill_name @ [CHR 0x27] @ '' not found (processed as '' @ [CHR 0x27] @ name @ [CHR 0x27, CHR '')'']), fs)
        else (Ok (), remove_all fs dir))"

section \<open>Paths inside a directory\<close>

lemma split_clean: "is_abs p \<Longrightarrow> split_slash (clean p) = [] # (if elems p = [] then [[]] else elems p)"
  using elems_rooted [of p] split_join [of "elems p"]
  by (cases "elems p") (auto simp: clean_def path_of_def plain_elem_def list_all_iff)

lemma clean_prefix_inside:
  assumes "is_abs a" "is_abs b" "prefix (clean a @ ''/'') (clean b) \<or> clean b = clean a"
  shows "prefix (elems a) (elems b)"
proof (cases "clean b = clean a")
  case True
  then show ?thesis using clean_eq_iff [OF assms(2,1)] by simp
next
  case False
  then obtain rest where rest: "clean b = clean a @ CHR ''/'' # rest" using assms(3) by (auto simp: prefix_def)
  show ?thesis
  proof (cases "elems a = []")
    case ne: False
    have "split_slash (clean b) = split_slash (clean a) @ split_slash rest" unfolding rest by (rule split_slash_join)
    then have "(if elems b = [] then [[]] else elems b) = elems a @ split_slash rest"
      using split_clean [OF assms(1)] split_clean [OF assms(2)] ne by simp
    moreover have "hd (elems a) \<noteq> []" using elems_rooted [OF assms(1)] ne by (cases "elems a") (auto simp: plain_elem_def)
    ultimately show ?thesis using ne by (auto simp: prefix_def append_eq_Cons_conv Cons_eq_append_conv split: if_splits)
  qed simp
qed

lemma elems_path_dir:
  assumes "is_abs p" "clean p = p"
  shows "prefix (elems (path_dir p)) (elems p)" "is_abs (path_dir p)"
proof -
  have "CHR ''/'' \<in> set p" using assms(1) by (cases p) (auto simp: is_abs_def)
  then obtain x e where p: "p = x @ CHR ''/'' # e" "CHR ''/'' \<notin> set e" using split_list_last by metis
  have dir: "path_dir p = clean (x @ ''/'')"
    using p(2) by (simp add: path_dir_def p(1) dropWhile_append)
  have abs: "is_abs (x @ ''/'')" using assms(1) unfolding p(1) by (cases x) auto
  have split: "split_slash p = split_slash x @ [e]" using p split_slash_join [of x e] by (simp add: split_no_slash)
  have "elems (path_dir p) = elems (x @ ''/'')" unfolding dir by (rule elems_clean [OF abs])
  also have "\<dots> = clean_elems True [] (split_slash x)"
    using abs split_slash_join [of x "[]"] by (simp add: elems_def clean_elems_append)
  finally have d: "elems (path_dir p) = clean_elems True [] (split_slash x)" .
  have "e \<in> set (split_slash (clean p))" using split assms(2) by simp
  then have "e = [] \<or> plain_elem e" using split_clean [OF assms(1)] elems_rooted [OF assms(1)]
    by (auto simp: list_all_iff split: if_splits)
  then show "prefix (elems (path_dir p)) (elems p)"
    unfolding d using assms(1) split by (auto simp: elems_def clean_elems_append plain_elem_def)
  show "is_abs (path_dir p)" unfolding dir by (rule is_abs_clean [OF abs])
qed

section \<open>What changes\<close>

text \<open>Outside a directory nothing changes but that directories leading to it may be made.\<close>

definition changes_inside :: "string list \<Rightarrow> tree \<Rightarrow> tree \<Rightarrow> bool" where
  "changes_inside base fs fs' \<longleftrightarrow>
    (\<forall>q. \<not> prefix base q \<longrightarrow> fs' q = fs q \<or> prefix q base \<and> fs q = None \<and> fs' q = Some Dir)"

lemma changes_inside_refl [simp]: "changes_inside base fs fs"
  by (simp add: changes_inside_def)

lemma changes_inside_trans: "changes_inside base fs1 fs2 \<Longrightarrow> changes_inside base fs2 fs3 \<Longrightarrow> changes_inside base fs1 fs3"
  unfolding changes_inside_def by (metis option.distinct(1))

lemma changes_inside_mkdir:
  assumes "mkdir_all fs p = Some fs'" "prefix base (elems p) \<or> prefix (elems p) base"
  shows "changes_inside base fs fs'"
proof -
  have "prefix q base" if "prefix q (elems p)" "\<not> prefix base q" for q
    using that assms(2) prefix_same_cases prefix_order.trans by blast
  then show ?thesis using assms(1) by (auto simp: changes_inside_def mkdir_all_def split: if_splits)
qed

lemma changes_inside_create:
  "create_file fs p c = Some fs' \<Longrightarrow> prefix base (elems p) \<Longrightarrow> changes_inside base fs fs'"
  by (auto simp: changes_inside_def create_file_def split: if_splits)

lemma changes_inside_remove: "prefix base (elems p) \<Longrightarrow> changes_inside base fs (remove_all fs p)"
  using prefix_order.trans by (auto simp: changes_inside_def remove_all_def)

lemma changes_inside_single:
  assumes "prefix base (elems dest)"
  shows "changes_inside base fs (fst (extract_single_file fs e dest))"
proof -
  have "changes_inside base fs' (fs'(elems dest := None))" for fs' using assms by (auto simp: changes_inside_def)
  then show ?thesis
    by (auto simp: extract_single_file_def split: option.split
        intro: changes_inside_create [OF _ assms] changes_inside_trans [OF changes_inside_create [OF _ assms]])
qed

lemma path_join_abs: "is_abs a \<Longrightarrow> is_abs (path_join a b) \<and> clean (path_join a b) = path_join a b"
  by (cases a) (auto simp: path_join_def clean_idem is_abs_clean)

lemma extract_entries_inside:
  assumes "is_abs target"
  shows "changes_inside (elems target) fs (fst (extract_entries fs target es))"
proof (induction es arbitrary: fs)
  case (Cons e es)
  let ?dest = "path_join target (clean (ze_name e))"
  note dest = path_join_abs [OF assms, of "clean (ze_name e)"]
  show ?case
  proof (cases "prefix (clean target @ ''/'') (clean ?dest) \<or> clean ?dest = clean target")
    case True
    then have inside: "prefix (elems target) (elems ?dest)"
      using clean_prefix_inside [OF assms] dest by (metis clean_eq_iff prefix_order.refl assms)
    then have parent: "prefix (elems target) (elems (path_dir ?dest)) \<or> prefix (elems (path_dir ?dest)) (elems target)"
      using elems_path_dir(1) [of ?dest] dest prefix_same_cases by metis
    have dir: "changes_inside (elems target) fs fs'" if "mkdir_all fs ?dest = Some fs'" for fs'
      using changes_inside_mkdir [OF that] inside by blast
    have up: "changes_inside (elems target) fs fs'" if "mkdir_all fs (path_dir ?dest) = Some fs'" for fs'
      using changes_inside_mkdir [OF that parent] .
    have single: "changes_inside (elems target) fs' fs2" if "extract_single_file fs' e ?dest = (fs2, ok)" for fs' fs2 ok
      using changes_inside_single [OF inside, of fs' e] that by simp
    show ?thesis
      by (auto simp: Let_def split: option.split prod.split bool.split dest!: up single dir)
        (blast intro: changes_inside_trans Cons)+
  next
    case False
    then show ?thesis by (simp add: Let_def)
  qed
qed simp

lemma extract_zip_inside:
  assumes "is_abs target"
  shows "changes_inside (elems target) fs (fst (extract_zip_file fs archive target))"
proof -
  have "changes_inside (elems target) fs fs'" if "mkdir_all fs target = Some fs'" for fs'
    using changes_inside_mkdir [OF that] by simp
  then show ?thesis using extract_entries_inside [OF assms]
    by (auto simp: extract_zip_file_def split: option.split intro: changes_inside_trans)
qed

section \<open>Installing changes one skill only\<close>

lemma elems_join_elem: "is_abs a \<Longrightarrow> plain_elem e \<Longrightarrow> elems (path_join a e) = elems a @ [e]"
proof -
  assume a: "is_abs a" "plain_elem e"
  then have "is_local e" by (auto simp: is_local_def split_no_slash plain_elem_def prefix_def is_abs_def)
  then show ?thesis using path_join_inside(1) [OF a(1)] a(2) by (simp add: split_no_slash plain_elem_def)
qed

text \<open>What trimming takes away are encodings of white space.\<close>

lemma strip_enc_chars: "set s \<subseteq> set (strip_enc encs s) \<union> (\<Union>e\<in>set encs. set e)"
proof (induction encs s rule: strip_enc.induct)
  case (1 encs s)
  show ?case
  proof (cases "lead_enc encs s")
    case None
    then show ?thesis by (simp add: strip_enc_stop)
  next
    case (Some e)
    then have "s = e @ drop (length e) s" "e \<in> set encs" using lead_enc_Some [OF Some] by (auto simp: prefix_def)
    then have "set s \<subseteq> set e \<union> set (drop (length e) s)" by (metis order_refl set_append)
    moreover have "strip_enc encs s = strip_enc encs (drop (length e) s)" using Some by (subst strip_enc.simps) simp
    ultimately show ?thesis using 1 [OF Some] \<open>e \<in> set encs\<close> by auto
  qed
qed

lemma trim_space_chars: "c \<in> set s \<Longrightarrow> c \<notin> (\<Union>e\<in>set space_encs. set e) \<Longrightarrow> c \<in> set (trim_space s)"
  using strip_enc_chars [of s space_encs] strip_enc_chars [of "rev (trim_left_space s)" "map rev space_encs"]
  by (auto simp: trim_space_def trim_right_space_def trim_left_space_def)

lemma valid_identifier_elem:
  assumes "validate_skill_identifier slug = Ok ()" "slug \<noteq> ''.''"
  shows "plain_elem slug"
proof -
  let ?t = "trim_space slug"
  have t: "?t \<noteq> []" "CHR ''/'' \<notin> set ?t" "\<not> str_contains ?t ''..''"
    using assms(1) by (auto simp: validate_skill_identifier_def Let_def split: if_splits)
  have "CHR ''/'' \<notin> (\<Union>e\<in>set space_encs. set e)" by (simp add: space_encs_def)
  then have "CHR ''/'' \<notin> set slug" using t(2) trim_space_chars by blast
  moreover have "slug \<noteq> []" using t(1) by auto
  moreover have "str_contains (trim_space ''..'') ''..''" by code_simp
  then have "slug \<noteq> ''..''" using t(3) by auto
  ultimately show ?thesis using assms(2) by (simp add: plain_elem_def)
qed

lemma skill_target_inside:
  assumes "is_abs workspace" "plain_elem slug"
  shows "elems (skill_target workspace slug) = elems workspace @ [''skills'', slug]" "is_abs (skill_target workspace slug)"
    "elems (path_join workspace ''skills'') = elems workspace @ [''skills'']"
proof -
  have "elems (path_join workspace ''skills'') = elems workspace @ [''skills'']"
    using elems_join_elem [OF assms(1), of "''skills''"] by (simp add: plain_elem_def)
  then show "elems (skill_target workspace slug) = elems workspace @ [''skills'', slug]"
    "elems (path_join workspace ''skills'') = elems workspace @ [''skills'']"
    using elems_join_elem [OF _ assms(2)] path_join_abs [OF assms(1)] by (simp_all add: skill_target_def)
  show "is_abs (skill_target workspace slug)" using path_join_abs [OF assms(1)] path_join_abs by (simp add: skill_target_def)
qed

lemma changes_inside_origin:
  assumes "is_abs target"
  shows "changes_inside (elems target) fs (write_origin_meta origin fs target)"
proof -
  let ?p = "path_join target ''.skill-origin.json''"
  have p: "elems ?p = elems target @ [''.skill-origin.json'']"
    using elems_join_elem [OF assms, of "''.skill-origin.json''"] by (simp add: plain_elem_def)
  have "prefix (elems (path_dir ?p)) (elems ?p)" using elems_path_dir(1) path_join_abs [OF assms] by blast
  then have "prefix (elems target) (elems (path_dir ?p)) \<or> prefix (elems (path_dir ?p)) (elems target)"
    using prefix_same_cases [of "elems target" "elems ?p" "elems (path_dir ?p)"] p by simp
  then have mk: "mkdir_all fs (path_dir ?p) = Some fs' \<Longrightarrow> changes_inside (elems target) fs fs'" for fs'
    using changes_inside_mkdir by blast
  have cr: "create_file fs' ?p origin = Some fs'' \<Longrightarrow> changes_inside (elems target) fs' fs''" for fs' fs''
    using changes_inside_create p by simp
  show ?thesis
  proof (cases "mkdir_all fs (path_dir ?p)")
    case (Some fs')
    then show ?thesis using mk [OF Some] changes_inside_trans [OF mk [OF Some] cr]
      by (simp add: write_origin_meta_def Let_def split: option.split)
  qed (simp add: write_origin_meta_def)
qed

lemma changes_inside_download:
  assumes "is_abs target"
  shows "changes_inside (elems target) fs (snd (download_and_install r slug version target fs))"
  using extract_zip_inside [OF assms] unfolding download_and_install_def
  by (auto simp: Let_def split: sum.split option.split prod.split bool.split) (metis fst_conv)+

lemma install_from_registry_inside:
  assumes t: "elems (skill_target workspace slug) = base" "is_abs (skill_target workspace slug)"
    and parent: "prefix (elems (path_join workspace ''skills'')) base"
  shows "changes_inside base fs (snd (install_from_registry rs workspace origin user_text slug name version fs))"
proof -
  let ?target = "skill_target workspace slug"
  have rm: "changes_inside base fs' (remove_all fs3 ?target)" if "changes_inside base fs' fs3" for fs' fs3
    using changes_inside_trans [OF that changes_inside_remove] t(1) by simp
  have og: "changes_inside base fs' (write_origin_meta origin fs3 ?target)" if "changes_inside base fs' fs3" for fs' fs3
    using changes_inside_trans [OF that] changes_inside_origin [OF t(2)] t(1) by simp
  have "changes_inside base fs fs3" if "mkdir_all fs (path_join workspace ''skills'') = Some fs2"
    "download_and_install r slug version ?target fs2 = (res, fs3)" for r fs2 fs3 res
  proof -
    have "changes_inside base fs fs2" using changes_inside_mkdir [OF that(1)] parent by blast
    moreover have "changes_inside base fs2 fs3"
      using changes_inside_download [OF t(2), of fs2 r slug version] that(2) t(1) by simp
    ultimately show ?thesis by (rule changes_inside_trans)
  qed
  then show ?thesis
    by (simp add: install_from_registry_def Let_def rm og split: option.split prod.split)
qed

text \<open>
  C25: Installing a skill touches that skill only: whatever archive a registry serves (with any names, links or
  sizes), and whether it succeeds, fails half way or is blocked, nothing outside the directory of the skill is
  created, changed or deleted, except that directories leading to it may be made; provided the slug is not a dot.
\<close>

theorem install_skill_confined:
  assumes "is_abs workspace" "str_arg args ''slug'' = Some slug" "slug \<noteq> ''.''"
  shows "changes_inside (elems workspace @ [''skills'', slug]) fs
    (snd (install_skill_execute rs workspace origin user_text args fs))"
proof (cases "validate_skill_identifier slug")
  case (Inl e)
  then show ?thesis using assms(2) by (simp add: install_skill_execute_def Let_def)
next
  case (Inr u)
  let ?base = "elems workspace @ [''skills'', slug]"
  have "plain_elem slug" using Inr assms(3) valid_identifier_elem by simp
  note t = skill_target_inside [OF assms(1) this]
  have rm: "changes_inside ?base fs (remove_all fs (skill_target workspace slug))"
    using changes_inside_remove [of ?base "skill_target workspace slug"] t(1) by simp
  have parent: "prefix (elems (path_join workspace ''skills'')) ?base" using t(3) by simp
  note inst = install_from_registry_inside [OF t(1,2) parent]
  show ?thesis using Inr assms(2) inst changes_inside_trans [OF rm inst]
    by (simp add: install_skill_execute_def Let_def split: sum.split option.split)
qed

text \<open>An archive that wants to write next to its directory, and a skill that is already there.\<close>

definition demo_hub :: skill_registry where
  "demo_hub = \<lparr>sr_name = ''hub'', sr_meta = (\<lambda>s. None),
     sr_download = (\<lambda>s v. Some (Some [\<lparr>ze_name = ''../b/SKILL.md'', ze_symlink = False, ze_is_dir = False, ze_size = 1,
       ze_data = Some (''x'', True)\<rparr>]))\<rparr>"

definition demo_tree :: tree where
  "demo_tree = (\<lambda>q. if q = [''w'', ''skills'', ''b'', ''SKILL.md''] then Some (Regular ''hi'')
     else if prefix q [''w'', ''skills'', ''b''] then Some Dir else None)"

lemma install_skill_confined_witness:
  "snd (install_skill_execute [demo_hub] ''/w'' [] (\<lambda>s i r t. [])
     [(''slug'', Any_Str ''a''), (''registry'', Any_Str ''hub'')] demo_tree) [''w'', ''skills'', ''b'', ''SKILL.md''] = Some (Regular ''hi'')"
proof -
  let ?fs = "snd (install_skill_execute [demo_hub] ''/w'' [] (\<lambda>s i r t. [])
     [(''slug'', Any_Str ''a''), (''registry'', Any_Str ''hub'')] demo_tree)"
  have "elems ''/w'' = [''w'']" "is_abs ''/w''" by code_simp+
  then have "changes_inside [''w'', ''skills'', ''a''] demo_tree ?fs"
    using install_skill_confined [of "''/w''" "[(''slug'', Any_Str ''a''), (''registry'', Any_Str ''hub'')]" "''a''"]
    by (simp add: str_arg_def)
  then show ?thesis by (auto simp: changes_inside_def demo_tree_def dest!: spec [of _ "[''w'', ''skills'', ''b'', ''SKILL.md'']"])
qed

text \<open>
  The slug \<open>.\<close> passes validation and stands for the directory of all skills: a forced installation of it
  deletes every installed skill, even when the registry does not exist and the installation fails.
\<close>

theorem dot_slug_deletes_skills:
  assumes "is_abs workspace" "str_arg args ''slug'' = Some ''.''" "bool_arg args ''force'' = Some True"
    and "str_arg args ''registry'' = Some name" "validate_skill_identifier name = Ok ()" "get_registry rs name = None"
  shows "tr_is_error (fst (install_skill_execute rs workspace origin user_text args fs)) \<and>
    (\<forall>path. snd (install_skill_execute rs workspace origin user_text args fs) (elems workspace @ ''skills'' # path) = None)"
proof -
  have valid: "validate_skill_identifier ''.'' = Ok ()" by code_simp
  have "elems (path_join (path_join workspace ''skills'') ''.'') = elems (path_join workspace ''skills'')"
    using path_join_inside(1) [of "path_join workspace ''skills''" "''.''"] path_join_abs [OF assms(1)]
    by (simp add: is_local_def clean_def path_of_def elems_def prefix_def)
  then have "elems (skill_target workspace ''.'') = elems workspace @ [''skills'']"
    using elems_join_elem [OF assms(1), of "''skills''"] by (simp add: skill_target_def plain_elem_def)
  then show ?thesis using assms(2-) valid
    by (simp add: install_skill_execute_def install_from_registry_def remove_all_def error_result_def Let_def)
qed

lemma dot_slug_deletes_skills_witness:
  "demo_tree [''w'', ''skills'', ''b'', ''SKILL.md''] \<noteq> None \<and>
   snd (install_skill_execute [demo_hub] ''/w'' [] (\<lambda>s i r t. [])
     [(''slug'', Any_Str ''.''), (''registry'', Any_Str ''nowhere''), (''force'', Any_Bool True)] demo_tree)
     [''w'', ''skills'', ''b'', ''SKILL.md''] = None"
proof -
  have "elems ''/w'' = [''w'']" "is_abs ''/w''" "validate_skill_identifier ''nowhere'' = Ok ()" by code_simp+
  then have "snd (install_skill_execute [demo_hub] ''/w'' [] (\<lambda>s i r t. [])
     [(''slug'', Any_Str ''.''), (''registry'', Any_Str ''nowhere''), (''force'', Any_Bool True)] demo_tree)
     (elems ''/w'' @ ''skills'' # [''b'', ''SKILL.md'']) = None"
    using dot_slug_deletes_skills [where workspace = "''/w''" and name = "''nowhere''" and rs = "[demo_hub]"]
    by (simp add: str_arg_def bool_arg_def get_registry_def demo_hub_def)
  then show ?thesis using \<open>elems ''/w'' = [''w'']\<close> by (simp add: demo_tree_def)
qed

text \<open>A forced installation deletes the skill before anything else, so a failure loses it.\<close>

lemma failed_reinstall_loses_skill:
  assumes "validate_skill_identifier slug = Ok ()" "str_arg args ''slug'' = Some slug" "bool_arg args ''force'' = Some True"
    and "str_arg args ''registry'' = Some name" "validate_skill_identifier name = Ok ()" "get_registry rs name = None"
  shows "snd (install_skill_execute rs workspace origin user_text args fs) = remove_all fs (skill_target workspace slug)"
  using assms by (simp add: install_skill_execute_def install_from_registry_def Let_def)

text \<open>Removing the skill \<open>..\<close> removes the workspace.\<close>

lemma elems_join_parent: "is_abs a \<Longrightarrow> elems (path_join a ''..'') = clean_elems True (elems a) [''..'']"
proof -
  assume a: "is_abs a"
  then have "is_abs (a @ ''/..'')" "a \<noteq> []" by (cases a; simp)+
  then have "elems (path_join a ''..'') = elems (a @ ''/..'')" by (simp add: path_join_def elems_clean)
  then show ?thesis using a \<open>is_abs (a @ ''/..'')\<close> split_slash_join [of a "''..''"]
    by (simp add: elems_def clean_elems_append split_no_slash)
qed

lemma uninstall_parent_removes_workspace:
  assumes "is_abs workspace" "fs (elems workspace) \<noteq> None"
  shows "uninstall workspace ''..'' fs = (Ok (), remove_all fs workspace)"
proof -
  have "elems (skill_target workspace ''..'') = elems workspace"
  proof -
    have a: "is_abs (path_join workspace ''skills'')" "elems (path_join workspace ''skills'') = elems workspace @ [''skills'']"
      using path_join_abs [OF assms(1)] elems_join_elem [OF assms(1), of "''skills''"] by (simp_all add: plain_elem_def)
    then show ?thesis using elems_join_parent [OF a(1)] by (simp add: skill_target_def)
  qed
  then show ?thesis using assms(2) by (simp add: uninstall_def stat_ok_def remove_all_def Let_def)
qed

end
