(* ===== verification/Skill_Loader.thy ===== *)
theory Skill_Loader
  imports Go_Filepath Go_Regexp Prelude
begin

text \<open>
  Finding and showing the installed skills, \<open>src/pkg/skills/loader.go\<close>.  The directories of a root are listed as
  \<open>os.ReadDir\<close> does; parsing of markdown, JSON and YAML, and the normalization of line ends, are parameters.
\<close>

section \<open>Skills\<close>

record skill_info =
  si_name :: string
  si_path :: string
  si_source :: string
  si_description :: string

definition max_name_length :: nat where "max_name_length = 64"
definition max_description_length :: nat where "max_description_length = 1024"

definition rx_alnum :: rx where
  "rx_alnum = Rx_Char (\<lambda>c. word_char c \<and> c \<noteq> CHR ''_'')"

definition name_pattern :: rx where
  "name_pattern = rx_seq [Rx_Begin, rx_plus rx_alnum, Rx_Star (Rx_Seq (rx_chr (CHR ''-'')) (rx_plus rx_alnum)), Rx_End]"

definition valid_skill :: "skill_info \<Rightarrow> bool" where
  "valid_skill i \<longleftrightarrow> si_name i \<noteq> [] \<and> length (si_name i) \<le> max_name_length \<and> rx_match_string name_pattern (si_name i) \<and>
     si_description i \<noteq> [] \<and> length (si_description i) \<le> max_description_length"

section \<open>Front matter\<close>

definition dashes :: string where "dashes = ''---''"

text \<open>The lines before the first \<open>---\<close>, and those after it.\<close>

fun until_dashes :: "string list \<Rightarrow> (string list \<times> string list) option" where
  "until_dashes [] = None"
| "until_dashes (l # ls) = (if l = dashes then Some ([], ls) else map_option (\<lambda>(a, b). (l # a, b)) (until_dashes ls))"

definition split_frontmatter :: "(string \<Rightarrow> string) \<Rightarrow> string \<Rightarrow> string \<times> string" where
  "split_frontmatter nl content =
    (case split_on (CHR 0x0A) (nl content) of
       [] \<Rightarrow> ([], content)
     | l # ls \<Rightarrow>
        (if l \<noteq> dashes then ([], content)
         else case until_dashes ls of
           None \<Rightarrow> ([], content)
         | Some (front, body) \<Rightarrow>
            (join [CHR 0x0A] front, dropWhile (\<lambda>c. c = CHR 0x0A) (join [CHR 0x0A] body))))"

section \<open>Loading\<close>

record skill_parsers =
  sp_normalize :: "string \<Rightarrow> string"
  sp_markdown :: "string \<Rightarrow> string \<times> string"
  sp_json :: "string \<Rightarrow> (string \<times> string) option"
  sp_yaml :: "string \<Rightarrow> string \<times> string"

text \<open>An entry of a directory: whether it is one itself, and its file \<open>SKILL.md\<close>, which may be unreadable.\<close>

record skill_dir =
  sd_name :: string
  sd_is_dir :: bool
  sd_file :: "string option option"

record skills_loader =
  sl_workspace :: string
  sl_global :: string
  sl_builtin :: string
  sl_disk :: "string \<Rightarrow> skill_dir list option"

definition new_skills_loader :: "string \<Rightarrow> string \<Rightarrow> string \<Rightarrow> (string \<Rightarrow> skill_dir list option) \<Rightarrow> skills_loader" where
  "new_skills_loader workspace global builtin disk =
    \<lparr>sl_workspace = path_join workspace ''skills'', sl_global = global, sl_builtin = builtin, sl_disk = disk\<rparr>"

definition skill_roots :: "skills_loader \<Rightarrow> string list" where
  "skill_roots sl = foldl (\<lambda>out root'.
      (let trimmed = trim_space root'; c = clean trimmed in if trimmed = [] \<or> c \<in> set out then out else out @ [c]))
    [] [sl_workspace sl, sl_global sl, sl_builtin sl]"

text \<open>Name and description; the name of the directory stands in for a missing one.\<close>

definition skill_metadata :: "skill_parsers \<Rightarrow> string \<Rightarrow> string \<Rightarrow> string \<times> string" where
  "skill_metadata sp dir_name content =
    (let (front, body) = split_frontmatter (sp_normalize sp) content; (title, desc) = sp_markdown sp body;
         name = (if title \<noteq> [] \<and> rx_match_string name_pattern title \<and> length title \<le> max_name_length then title else dir_name)
     in if front = [] then (name, desc)
        else let (n, d) = (case sp_json sp front of Some nd \<Rightarrow> nd | None \<Rightarrow> sp_yaml sp front)
          in (if n \<noteq> [] then n else name, if d \<noteq> [] then d else desc))"

definition skill_of_dir :: "skill_parsers \<Rightarrow> string \<Rightarrow> string \<Rightarrow> skill_dir \<Rightarrow> skill_info option" where
  "skill_of_dir sp dir source e =
    (if \<not> sd_is_dir e then None
     else case sd_file e of
       None \<Rightarrow> None
     | Some f \<Rightarrow>
        (let path = path_join (path_join dir (sd_name e)) ''SKILL.md'';
             (name, desc) = (case f of None \<Rightarrow> (sd_name e, []) | Some c \<Rightarrow> skill_metadata sp (sd_name e) c);
             info = \<lparr>si_name = name, si_path = path, si_source = source, si_description = desc\<rparr>
         in if valid_skill info then Some info else None))"

fun add_skills :: "skill_info list \<Rightarrow> skill_info list \<Rightarrow> skill_info list" where
  "add_skills skills [] = skills"
| "add_skills skills (i # is) =
    add_skills (if si_name i \<in> si_name ` set skills then skills else skills @ [i]) is"

definition root_skills :: "skill_parsers \<Rightarrow> skills_loader \<Rightarrow> string \<times> string \<Rightarrow> skill_info list" where
  "root_skills sp sl r =
    (case r of (dir, source) \<Rightarrow>
      if dir = [] then []
      else case sl_disk sl dir of None \<Rightarrow> [] | Some es \<Rightarrow> List.map_filter (skill_of_dir sp dir source) es)"

definition loader_roots :: "skills_loader \<Rightarrow> (string \<times> string) list" where
  "loader_roots sl = [(sl_workspace sl, ''workspace''), (sl_global sl, ''global''), (sl_builtin sl, ''builtin'')]"

definition list_skills :: "skill_parsers \<Rightarrow> skills_loader \<Rightarrow> skill_info list" where
  "list_skills sp sl = foldl (\<lambda>skills r. add_skills skills (root_skills sp sl r)) [] (loader_roots sl)"

text \<open>The file of a skill by the name of its directory, in the first root that has it.\<close>

definition find_in_root :: "skills_loader \<Rightarrow> string \<Rightarrow> string \<Rightarrow> string option" where
  "find_in_root sl dir name =
    (if dir = [] then None
     else case sl_disk sl dir of
       None \<Rightarrow> None
     | Some es \<Rightarrow>
        (case List.find (\<lambda>e. sd_name e = name) es of
           Some e \<Rightarrow> (case sd_file e of Some f \<Rightarrow> f | None \<Rightarrow> None) | None \<Rightarrow> None))"

definition load_skill :: "skill_parsers \<Rightarrow> skills_loader \<Rightarrow> string \<Rightarrow> string option" where
  "load_skill sp sl name =
    (case List.map_filter (\<lambda>(dir, _). find_in_root sl dir name) (loader_roots sl) of
       [] \<Rightarrow> None
     | content # _ \<Rightarrow> Some (snd (split_frontmatter (sp_normalize sp) content)))"

definition load_skills_for_context :: "skill_parsers \<Rightarrow> skills_loader \<Rightarrow> string list \<Rightarrow> string" where
  "load_skills_for_context sp sl names =
    join ([CHR 0x0A, CHR 0x0A] @ dashes @ [CHR 0x0A, CHR 0x0A])
      (List.map_filter (\<lambda>n. map_option (\<lambda>c. ''### Skill: '' @ n @ [CHR 0x0A, CHR 0x0A] @ c) (load_skill sp sl n)) names)"

section \<open>The summary for the model\<close>

text \<open>Three replacements of one byte each, in this order.\<close>

definition replace_char :: "char \<Rightarrow> string \<Rightarrow> string \<Rightarrow> string" where
  "replace_char c t s = concat (map (\<lambda>x. if x = c then t else [x]) s)"

definition escape_xml :: "string \<Rightarrow> string" where
  "escape_xml s = replace_char (CHR ''>'') ''&gt;'' (replace_char (CHR ''<'') ''&lt;'' (replace_char (CHR ''&'') ''&amp;'' s))"

definition skill_lines :: "skill_info \<Rightarrow> string list" where
  "skill_lines i =
    [''  <skill>'', ''    <name>'' @ escape_xml (si_name i) @ ''</name>'',
     ''    <description>'' @ escape_xml (si_description i) @ ''</description>'',
     ''    <location>'' @ escape_xml (si_path i) @ ''</location>'',
     ''    <source>'' @ si_source i @ ''</source>'', ''  </skill>'']"

definition build_skills_summary :: "skill_parsers \<Rightarrow> skills_loader \<Rightarrow> string" where
  "build_skills_summary sp sl =
    (let skills = list_skills sp sl in
     if skills = [] then [] else join [CHR 0x0A] (''<skills>'' # concat (map skill_lines skills) @ [''</skills>'']))"

section \<open>What is listed\<close>

text \<open>The bytes of a match, when every class of the pattern allows only some.\<close>

primrec rx_only :: "(char \<Rightarrow> bool) \<Rightarrow> rx \<Rightarrow> bool" where
  "rx_only Q (Rx_Char P) = (\<forall>c. P c \<longrightarrow> Q c)"
| "rx_only Q Rx_Eps = True"
| "rx_only Q (Rx_Seq r1 r2) = (rx_only Q r1 \<and> rx_only Q r2)"
| "rx_only Q (Rx_Alt r1 r2) = (rx_only Q r1 \<and> rx_only Q r2)"
| "rx_only Q (Rx_Star r) = rx_only Q r"
| "rx_only Q Rx_Bound = True"
| "rx_only Q Rx_Begin = True"
| "rx_only Q Rx_End = True"

lemma rx_only_match: "rx_match r b t a \<Longrightarrow> rx_only Q r \<Longrightarrow> list_all Q t"
  by (induction rule: rx_match.induct) auto

lemma name_pattern_chars:
  assumes "rx_match_string name_pattern s"
  shows "list_all (\<lambda>c. word_char c \<and> c \<noteq> CHR ''_'' \<or> c = CHR ''-'') s"
proof -
  obtain u t v where s: "s = u @ t @ v" "rx_match name_pattern (rev u) t v" using assms rx_match_string_iff by blast
  have "u = [] \<and> v = []" using s(2) unfolding name_pattern_def
    by (auto elim!: match_seqE match_beginE match_endE)
  moreover have "rx_only (\<lambda>c. word_char c \<and> c \<noteq> CHR ''_'' \<or> c = CHR ''-'') name_pattern"
    by (simp add: name_pattern_def rx_plus_def rx_alnum_def rx_chr_def)
  ultimately show ?thesis using s rx_only_match by fastforce
qed

lemma valid_skill_elem: "valid_skill i \<Longrightarrow> plain_elem (si_name i)"
proof -
  assume i: "valid_skill i"
  have "\<not> word_char (CHR ''/'')" "\<not> word_char (CHR ''.'')" by code_simp+
  then have "CHR ''/'' \<notin> set (si_name i)" "CHR ''.'' \<notin> set (si_name i)"
    using name_pattern_chars [of "si_name i"] i by (auto simp: valid_skill_def list_all_iff)
  then show ?thesis using i by (auto simp: plain_elem_def valid_skill_def)
qed

lemma add_skills_append:
  "\<exists>new. add_skills skills is = skills @ new \<and> set new \<subseteq> set is \<and>
    (distinct (map si_name skills) \<longrightarrow> distinct (map si_name (skills @ new)))"
proof (induction "is" arbitrary: skills)
  case (Cons i "is")
  show ?case
  proof (cases "si_name i \<in> si_name ` set skills")
    case True
    then show ?thesis using Cons [of skills] by auto
  next
    case False
    obtain new where "add_skills (skills @ [i]) is = (skills @ [i]) @ new" "set new \<subseteq> set is"
      "distinct (map si_name (skills @ [i])) \<longrightarrow> distinct (map si_name ((skills @ [i]) @ new))" using Cons [of "skills @ [i]"] by blast
    then show ?thesis using False by (intro exI [of _ "i # new"]) auto
  qed
qed simp

lemma set_map_filter: "y \<in> set (List.map_filter f xs) \<longleftrightarrow> (\<exists>x\<in>set xs. f x = Some y)"
  by (induction xs) (auto simp: map_filter_simps split: option.split)

lemma skill_of_dir_valid: "skill_of_dir sp dir source e = Some i \<Longrightarrow> valid_skill i"
  by (auto simp: skill_of_dir_def Let_def split: prod.splits option.splits if_splits)

lemma root_skills_valid: "i \<in> set (root_skills sp sl r) \<Longrightarrow> valid_skill i"
  using skill_of_dir_valid by (auto simp: root_skills_def set_map_filter split: prod.splits option.splits if_splits)

lemma list_skills_from:
  "distinct (map si_name skills) \<Longrightarrow> \<forall>i\<in>set skills. valid_skill i \<Longrightarrow>
    let out = foldl (\<lambda>skills r. add_skills skills (root_skills sp sl r)) skills rs
    in distinct (map si_name out) \<and> (\<forall>i\<in>set out. valid_skill i)"
proof (induction rs arbitrary: skills)
  case (Cons r rs)
  obtain new where "add_skills skills (root_skills sp sl r) = skills @ new" "set new \<subseteq> set (root_skills sp sl r)"
    "distinct (map si_name (skills @ new))" using add_skills_append Cons(2) by metis
  moreover from this(2) have "\<forall>i\<in>set (skills @ new). valid_skill i" using Cons(3) root_skills_valid [of _ sp sl r] by auto
  ultimately show ?case using Cons(1) [of "skills @ new"] by (simp add: Let_def)
qed simp

text \<open>
  C39: Every listed skill is well formed, whatever is on the disk: its name is a single path element of letters,
  digits and hyphens, of at most 64 bytes, its description has between 1 and 1024 bytes, and no two listed skills
  have the same name.
\<close>

theorem listed_skills_well_formed:
  "distinct (map si_name (list_skills sp sl)) \<and>
   list_all (\<lambda>i. plain_elem (si_name i) \<and> list_all (\<lambda>c. word_char c \<and> c \<noteq> CHR ''_'' \<or> c = CHR ''-'') (si_name i) \<and>
     length (si_name i) \<le> 64 \<and> 1 \<le> length (si_description i) \<and> length (si_description i) \<le> 1024) (list_skills sp sl)"
proof -
  have all: "distinct (map si_name (list_skills sp sl))" "\<forall>i\<in>set (list_skills sp sl). valid_skill i"
    using list_skills_from [of "[]" sp sl "loader_roots sl"] by (simp_all add: list_skills_def Let_def)
  have "valid_skill i \<Longrightarrow> plain_elem (si_name i) \<and> list_all (\<lambda>c. word_char c \<and> c \<noteq> CHR ''_'' \<or> c = CHR ''-'') (si_name i) \<and>
      length (si_name i) \<le> 64 \<and> 1 \<le> length (si_description i) \<and> length (si_description i) \<le> 1024" for i
    using valid_skill_elem [of i] name_pattern_chars [of "si_name i"]
    by (cases "si_description i") (auto simp: valid_skill_def max_name_length_def max_description_length_def)
  with all show ?thesis unfolding list_all_iff [of _ "list_skills sp sl"] by blast
qed

section \<open>The summary\<close>

text \<open>A reader that undoes the escapes.\<close>

fun unescape_xml :: "string \<Rightarrow> string" where
  "unescape_xml [] = []"
| "unescape_xml (c # s) =
    (if prefix ''&amp;'' (c # s) then CHR ''&'' # unescape_xml (drop 4 s)
     else if prefix ''&lt;'' (c # s) then CHR ''<'' # unescape_xml (drop 3 s)
     else if prefix ''&gt;'' (c # s) then CHR ''>'' # unescape_xml (drop 3 s)
     else c # unescape_xml s)"

lemma escape_xml_Cons:
  "escape_xml (c # s) =
    (if c = CHR ''&'' then ''&amp;'' else if c = CHR ''<'' then ''&lt;'' else if c = CHR ''>'' then ''&gt;'' else [c]) @ escape_xml s"
  by (simp add: escape_xml_def replace_char_def)

lemma unescape_escape: "unescape_xml (escape_xml s) = s"
proof (induction s)
  case (Cons c s)
  then show ?case by (simp add: escape_xml_Cons)
qed (simp add: escape_xml_def replace_char_def)

lemma escape_xml_chars: "CHR ''<'' \<notin> set (escape_xml s) \<and> CHR ''>'' \<notin> set (escape_xml s)"
  by (induction s) (auto simp: escape_xml_Cons escape_xml_def replace_char_def)

text \<open>A skill is shown by its name, and loaded by the name of its directory: a listed skill need not be found.\<close>

definition renamed_skill :: skills_loader where
  "renamed_skill = new_skills_loader ''/w'' [] []
    (\<lambda>d. if d = ''/w/skills'' then Some [\<lparr>sd_name = ''dir'', sd_is_dir = True, sd_file = Some (Some ''x'')\<rparr>] else None)"

lemma listed_skill_not_loaded:
  "let sp = \<lparr>sp_normalize = id, sp_markdown = (\<lambda>s. (''mail'', ''reads mail'')), sp_json = (\<lambda>s. None), sp_yaml = (\<lambda>s. ([], []))\<rparr>
   in map si_name (list_skills sp renamed_skill) = [''mail''] \<and> load_skill sp renamed_skill ''mail'' = None \<and>
      load_skill sp renamed_skill ''dir'' = Some ''x''"
proof -
  let ?sp = "\<lparr>sp_normalize = id, sp_markdown = (\<lambda>s. (''mail'', ''reads mail'')), sp_json = (\<lambda>s. None), sp_yaml = (\<lambda>s. ([], []))\<rparr>"
  have "map si_name (list_skills ?sp renamed_skill) = [''mail'']" by code_simp
  moreover have "load_skill ?sp renamed_skill ''mail'' = None" by code_simp
  moreover have "load_skill ?sp renamed_skill ''dir'' = Some ''x''" by code_simp
  ultimately show ?thesis unfolding Let_def by (intro conjI)
qed

end
