(* ===== verification/Skill_Search.thy ===== *)
theory Skill_Search
  imports Search_Cache Tool_Registry Tool_Args "HOL-Library.Multiset"
begin

text \<open>
  Searching the registries for skills: the merge of the results of all registries (\<open>SearchAll\<close> of
  \<open>src/pkg/skills/registry.go\<close>) and the tool with its cache (\<open>src/pkg/tools/skills_search.go\<close>).  The answers of the
  registries are a list in the order in which they arrive.
\<close>

section \<open>Merging\<close>

record skill_result =
  rs_score :: rat
  rs_slug :: string
  rs_display_name :: string
  rs_summary :: string
  rs_version :: string
  rs_registry :: string

text \<open>The inner loop, on the sorted part backwards.\<close>

fun shift_in :: "skill_result \<Rightarrow> skill_result list \<Rightarrow> skill_result list" where
  "shift_in key [] = [key]"
| "shift_in key (r # rs) = (if rs_score r < rs_score key then r # shift_in key rs else key # r # rs)"

definition sort_by_score_desc :: "skill_result list \<Rightarrow> skill_result list" where
  "sort_by_score_desc rs = foldl (\<lambda>sorted_part key. rev (shift_in key (rev sorted_part))) [] rs"

definition search_all :: "(string, skill_result list) go_result list \<Rightarrow> int \<Rightarrow> (string, skill_result list) go_result" where
  "search_all answers limit =
    (if answers = [] then Err ''no registries configured''
     else let errors = List.map_filter (\<lambda>a. case a of Err e \<Rightarrow> Some e | Ok _ \<Rightarrow> None) answers;
              merged = concat (List.map_filter (\<lambda>a. case a of Err _ \<Rightarrow> None | Ok rs \<Rightarrow> Some rs) answers)
       in if length errors = length answers then Err (''all registries failed: '' @ last errors)
          else let sorted_results = sort_by_score_desc merged in
            Ok (if 0 < limit \<and> nat limit < length sorted_results then take (nat limit) sorted_results else sorted_results))"

section \<open>The tool\<close>

text \<open>\<open>score_text\<close> prints a score with three decimals.\<close>

definition result_lines :: "(rat \<Rightarrow> string) \<Rightarrow> nat \<Rightarrow> skill_result \<Rightarrow> string" where
  "result_lines score_text i r =
    itoa (int (i + 1)) @ ''. **'' @ rs_slug r @ ''**'' @
    (if rs_version r \<noteq> [] then '' v'' @ rs_version r else []) @
    ''  (score: '' @ score_text (rs_score r) @ '', registry: '' @ rs_registry r @ '')'' @ [CHR 0x0A] @
    (if rs_display_name r \<noteq> [] \<and> rs_display_name r \<noteq> rs_slug r then ''   Name: '' @ rs_display_name r @ [CHR 0x0A] else []) @
    (if rs_summary r \<noteq> [] then ''   '' @ rs_summary r @ [CHR 0x0A] else []) @ [CHR 0x0A]"

definition format_search_results :: "(rat \<Rightarrow> string) \<Rightarrow> string \<Rightarrow> skill_result list \<Rightarrow> bool \<Rightarrow> string" where
  "format_search_results score_text query rs cached =
    (if rs = [] then ''No skills found for query: '' @ quote_name query
     else ''Found '' @ itoa (int (length rs)) @ '' skills for '' @ quote_name query @
       (if cached then '' (cached)'' else []) @ '':'' @ [CHR 0x0A, CHR 0x0A] @
       concat (map (\<lambda>(i, r). result_lines score_text i r) (enumerate 0 rs)) @ ''Use install_skill with the slug to install a skill.'')"

text \<open>The limit that is asked for, and the answers of the registries to a query and a limit.\<close>

definition search_limit :: "go_args \<Rightarrow> int" where
  "search_limit args =
    (case num_arg args ''limit'' of
       Some l \<Rightarrow> if 1 \<le> int64_of_float l \<and> int64_of_float l \<le> 20 then int64_of_float l else 5
     | None \<Rightarrow> 5)"

definition find_skills_execute :: "(rat \<Rightarrow> string) \<Rightarrow> (string \<Rightarrow> int \<Rightarrow> (string, skill_result list) go_result list) \<Rightarrow> int \<Rightarrow>
    go_args \<Rightarrow> skill_result search_cache option \<Rightarrow> tool_result \<times> skill_result search_cache option" where
  "find_skills_execute score_text registries now args cache =
    (let query = (case str_arg args ''query'' of Some q \<Rightarrow> to_lower (trim_space q) | None \<Rightarrow> []) in
     if query = [] then (error_result ''query is required and must be a non-empty string'', cache)
     else
       (let search = (\<lambda>c. case search_all (registries query (search_limit args)) (search_limit args) of
              Err e \<Rightarrow> (error_result (''skill search failed: '' @ e), c)
            | Ok rs \<Rightarrow>
               (silent_result (format_search_results score_text query rs False),
                (case c of Some ch \<Rightarrow> Some (if rs \<noteq> [] then cache_put now ch query rs else ch) | None \<Rightarrow> None)))
        in case cache of
             None \<Rightarrow> search None
           | Some ch \<Rightarrow>
              (case cache_get now ch query of
                 (Some rs, ch') \<Rightarrow> (silent_result (format_search_results score_text query rs True), Some ch')
               | (None, ch') \<Rightarrow> search (Some ch'))))"

section \<open>The merge is a stable sort\<close>

lemma shift_in_rev:
  assumes "sorted (map (\<lambda>r. - rs_score r) xs)"
  shows "rev (shift_in key (rev xs)) = filter (\<lambda>r. rs_score key \<le> rs_score r) xs @ key # filter (\<lambda>r. rs_score r < rs_score key) xs"
  using assms
proof (induction xs rule: rev_induct)
  case (snoc x xs)
  then show ?case
  proof (cases "rs_score x < rs_score key")
    case True
    then show ?thesis using snoc by (auto simp: sorted_append)
  next
    case False
    have "\<forall>y\<in>set xs. rs_score x \<le> rs_score y" using snoc(2) by (auto simp: sorted_append)
    then have "filter (\<lambda>r. rs_score key \<le> rs_score r) xs = xs" "filter (\<lambda>r. rs_score r < rs_score key) xs = []"
      using False by (auto simp: filter_id_conv filter_empty_conv)
    then show ?thesis using False by simp
  qed
qed simp

abbreviation down :: "skill_result \<Rightarrow> rat" where "down r \<equiv> - rs_score r"

lemma sorted_parts:
  "sorted (map down xs) \<Longrightarrow> filter (\<lambda>r. rs_score key \<le> rs_score r) xs @ filter (\<lambda>r. rs_score r < rs_score key) xs = xs"
proof (induction xs)
  case (Cons x xs)
  then show ?case
  proof (cases "rs_score key \<le> rs_score x")
    case False
    then have "filter (\<lambda>r. rs_score key \<le> rs_score r) xs = []" "filter (\<lambda>r. rs_score r < rs_score key) xs = xs"
      using Cons(2) by (auto simp: filter_empty_conv filter_id_conv)
    then show ?thesis using False by simp
  qed simp
qed simp

text \<open>
  The hand-written insertion sort of the registry manager is a stable sort: results come by decreasing score,
  and results of the same score stay in the order in which they arrived.
\<close>

theorem sort_by_score_stable: "sort_by_score_desc rs = sort_key down rs"
proof -
  have "mset (sort_by_score_desc rs) = mset rs \<and> sorted (map down (sort_by_score_desc rs)) \<and>
      (\<forall>k. filter (\<lambda>r. down r = k) (sort_by_score_desc rs) = filter (\<lambda>r. down r = k) rs)"
  proof (induction rs rule: rev_induct)
    case (snoc x rs)
    let ?ys = "sort_by_score_desc rs"
    let ?a = "filter (\<lambda>r. rs_score x \<le> rs_score r) ?ys" and ?b = "filter (\<lambda>r. rs_score r < rs_score x) ?ys"
    have ys: "sorted (map down ?ys)" "mset ?ys = mset rs" "?a @ ?b = ?ys"
      using snoc sorted_parts by blast+
    have new: "sort_by_score_desc (rs @ [x]) = ?a @ x # ?b"
      using shift_in_rev [OF ys(1), of x] by (simp add: sort_by_score_desc_def)
    have "mset (?a @ x # ?b) = add_mset x (mset (?a @ ?b))" by simp
    then have "mset (?a @ x # ?b) = mset (rs @ [x])" unfolding ys(3) using ys(2) by simp
    moreover have "sorted (map down (?a @ ?b))" using ys(1,3) by simp
    then have "sorted (map down (?a @ x # ?b))" by (auto simp: sorted_append)
    moreover have "filter (\<lambda>r. down r = k) (?a @ x # ?b) = filter (\<lambda>r. down r = k) (rs @ [x])" for k
    proof -
      have k: "filter (\<lambda>r. down r = k) (?a @ ?b) = filter (\<lambda>r. down r = k) rs" unfolding ys(3) using snoc by blast
      show ?thesis
      proof (cases "down x = k")
        case True
        then have "filter (\<lambda>r. down r = k) ?b = []" by (auto simp: filter_empty_conv)
        then show ?thesis using k True by simp
      qed (use k in simp)
    qed
    ultimately show ?case unfolding new by blast
  qed (simp add: sort_by_score_desc_def)
  then have r: "mset (sort_by_score_desc rs) = mset rs" "sorted (map down (sort_by_score_desc rs))"
    "\<And>k. filter (\<lambda>r. down r = k) (sort_by_score_desc rs) = filter (\<lambda>r. down r = k) rs" by blast+
  have "filter (\<lambda>x. down k = down x) (sort_by_score_desc rs) = filter (\<lambda>x. down k = down x) rs" for k
    using r(3) [of "down k"] by (simp add: eq_commute)
  with r(1,2) show ?thesis by (intro properties_for_sort_key [symmetric]) auto
qed

text \<open>The cache does not know the limit: after a search for one result, a search for twenty finds one.\<close>

definition demo_result :: "string \<Rightarrow> skill_result" where
  "demo_result slug = \<lparr>rs_score = 1, rs_slug = slug, rs_display_name = [], rs_summary = ''x'', rs_version = [], rs_registry = ''r''\<rparr>"

lemma cached_search_ignores_limit:
  "let registries = (\<lambda>q n. [Ok (take (nat n) [demo_result ''a'', demo_result ''b''])]);
       (r1, cache) = find_skills_execute (\<lambda>s. []) registries 0 [(''query'', Any_Str ''mail''), (''limit'', Any_Num 1)]
         (Some (new_search_cache 9 60));
       (r2, cache2) = find_skills_execute (\<lambda>s. []) registries 1 [(''query'', Any_Str ''mail''), (''limit'', Any_Num 2)] cache
   in tr_for_llm r2 = format_search_results (\<lambda>s. []) ''mail'' [demo_result ''a''] True"
  by code_simp

end
