(* ===== verification/Atomic_File.thy ===== *)
theory Atomic_File
  imports Go_Filepath
begin

text \<open>
  \<open>WriteFileAtomic\<close> of \<open>src/pkg/fileutil/file.go\<close>, by which the program writes its files, on a file system that may
  lose whatever has not been synced when the machine stops.
\<close>

section \<open>A file system with a cache\<close>

text \<open>
  Names point to inodes, now and on the medium; an inode has its bytes, and may be synced.
\<close>

record cached_fs =
  fs_names :: "string \<Rightarrow> nat option"
  fs_durable :: "string \<Rightarrow> nat option"
  fs_bytes :: "nat \<Rightarrow> string"
  fs_synced :: "nat \<Rightarrow> bool"
  fs_free :: nat

definition fs_read :: "cached_fs \<Rightarrow> string \<Rightarrow> string option" where
  "fs_read fs p = map_option (fs_bytes fs) (fs_names fs p)"

text \<open>
  What a name may hold after a crash: the file it points to on the medium or the one it pointed to last; the bytes
  of a file that is not synced can be anything.
\<close>

definition after_crash :: "cached_fs \<Rightarrow> string \<Rightarrow> string option \<Rightarrow> bool" where
  "after_crash fs p r \<longleftrightarrow> (\<exists>e\<in>{fs_durable fs p, fs_names fs p}.
     (case e of None \<Rightarrow> r = None | Some i \<Rightarrow> if fs_synced fs i then r = Some (fs_bytes fs i) else r \<noteq> None))"

section \<open>The steps of a write\<close>

datatype write_step = Make_Dir | Open_Temp | Write_Data | Sync_Data | Set_Mode | Close_Temp | Rename_Temp | Sync_Dir | Remove_Temp

text \<open>What a step does when it succeeds; a failing write may leave part of the data.\<close>

fun do_step :: "string \<Rightarrow> string \<Rightarrow> string \<Rightarrow> write_step \<Rightarrow> cached_fs \<Rightarrow> cached_fs" where
  "do_step tmp target data Make_Dir fs = fs"
| "do_step tmp target data Open_Temp fs =
    fs\<lparr>fs_names := (fs_names fs)(tmp \<mapsto> fs_free fs), fs_bytes := (fs_bytes fs)(fs_free fs := []),
       fs_synced := (fs_synced fs)(fs_free fs := False), fs_free := fs_free fs + 1\<rparr>"
| "do_step tmp target data Write_Data fs =
    (case fs_names fs tmp of None \<Rightarrow> fs
     | Some i \<Rightarrow> fs\<lparr>fs_bytes := (fs_bytes fs)(i := data), fs_synced := (fs_synced fs)(i := False)\<rparr>)"
| "do_step tmp target data Sync_Data fs =
    (case fs_names fs tmp of None \<Rightarrow> fs | Some i \<Rightarrow> fs\<lparr>fs_synced := (fs_synced fs)(i := True)\<rparr>)"
| "do_step tmp target data Set_Mode fs = fs"
| "do_step tmp target data Close_Temp fs = fs"
| "do_step tmp target data Rename_Temp fs = fs\<lparr>fs_names := (fs_names fs)(target := fs_names fs tmp, tmp := None)\<rparr>"
| "do_step tmp target data Sync_Dir fs = fs\<lparr>fs_durable := fs_names fs\<rparr>"
| "do_step tmp target data Remove_Temp fs = fs\<lparr>fs_names := (fs_names fs)(tmp := None)\<rparr>"

definition failed_step :: "string \<Rightarrow> string \<Rightarrow> string \<Rightarrow> write_step \<Rightarrow> cached_fs \<Rightarrow> cached_fs" where
  "failed_step tmp target part s fs = (if s = Write_Data then do_step tmp target part Write_Data fs else fs)"

text \<open>
  Which steps fail is a parameter, as is what a failing write leaves.  The result is the list of the states passed,
  the last first, and whether the call succeeds.  After the temporary file is opened every error removes it; the
  errors of syncing the directory and of the removal are ignored.
\<close>

fun run_steps :: "(write_step \<Rightarrow> bool) \<Rightarrow> string \<Rightarrow> string \<Rightarrow> string \<Rightarrow> string \<Rightarrow> write_step list \<Rightarrow> bool \<Rightarrow> cached_fs list \<Rightarrow>
    cached_fs list \<times> bool" where
  "run_steps fails part tmp target data [] opened trace = (trace, True)"
| "run_steps fails part tmp target data (s # ss) opened trace =
    (let fs = hd trace in
     if fails s \<and> s \<noteq> Sync_Dir then
       (let fs' = failed_step tmp target part s fs in
        (if opened \<and> \<not> fails Remove_Temp then do_step tmp target data Remove_Temp fs' # fs' # trace else fs' # trace, False))
     else run_steps fails part tmp target data ss (opened \<or> s = Open_Temp)
       ((if fails s then fs else do_step tmp target data s fs) # trace))"

definition write_file_atomic :: "(write_step \<Rightarrow> bool) \<Rightarrow> string \<Rightarrow> string \<Rightarrow> string \<Rightarrow> string \<Rightarrow> cached_fs \<Rightarrow> cached_fs list \<times> bool" where
  "write_file_atomic fails part tmp_name target data fs =
    run_steps fails part (path_join (path_dir target) tmp_name) target data
      [Make_Dir, Open_Temp, Write_Data, Sync_Data, Set_Mode, Close_Temp, Rename_Temp, Sync_Dir] False [fs]"

section \<open>No crash loses the file\<close>

text \<open>What the target holds after a crash in any state passed: the old content or the new.\<close>

definition target_safe :: "string option \<Rightarrow> string \<Rightarrow> string \<Rightarrow> cached_fs \<Rightarrow> bool" where
  "target_safe old target data fs \<longleftrightarrow> (\<forall>r. after_crash fs target r \<longrightarrow> r = old \<or> r = Some data) \<and>
     fs_read fs target \<in> {old, Some data}"

text \<open>A committed file: it is on the medium as it is read, and no name points to a free inode.\<close>

definition committed :: "string \<Rightarrow> cached_fs \<Rightarrow> bool" where
  "committed target fs \<longleftrightarrow> fs_durable fs target = fs_names fs target \<and>
     (\<forall>i. fs_names fs target = Some i \<longrightarrow> fs_synced fs i) \<and> (\<forall>p i. fs_names fs p = Some i \<longrightarrow> i < fs_free fs)"

text \<open>The target as it was at the start, with the temporary file apart.\<close>

definition untouched :: "string \<Rightarrow> string \<Rightarrow> cached_fs \<Rightarrow> cached_fs \<Rightarrow> bool" where
  "untouched tmp target fs st \<longleftrightarrow> fs_names st target = fs_names fs target \<and> fs_durable st target = fs_durable fs target \<and>
     (\<forall>i. fs_names fs target = Some i \<longrightarrow> fs_bytes st i = fs_bytes fs i \<and> fs_synced st i = fs_synced fs i \<and>
        fs_names st tmp \<noteq> Some i \<and> i < fs_free st)"

lemma untouched_step:
  "untouched tmp target fs st \<Longrightarrow> tmp \<noteq> target \<Longrightarrow> s \<noteq> Rename_Temp \<Longrightarrow> s \<noteq> Sync_Dir \<Longrightarrow>
    untouched tmp target fs (do_step tmp target data s st)"
  by (cases s) (auto simp: untouched_def split: option.split)

lemma untouched_failed: "untouched tmp target fs st \<Longrightarrow> tmp \<noteq> target \<Longrightarrow> untouched tmp target fs (failed_step tmp target part s st)"
  using untouched_step [of tmp target fs st Write_Data part] by (simp add: failed_step_def)

lemma untouched_safe:
  assumes "committed target fs" "untouched tmp target fs st"
  shows "target_safe (fs_read fs target) target data st \<and> fs_read st target = fs_read fs target"
  using assms by (cases "fs_names fs target") (auto simp: untouched_def committed_def target_safe_def after_crash_def fs_read_def)

text \<open>What the theorem says of a result.\<close>

definition write_ok :: "string \<Rightarrow> string \<Rightarrow> cached_fs \<Rightarrow> cached_fs list \<times> bool \<Rightarrow> bool" where
  "write_ok target data fs r \<longleftrightarrow> (\<forall>st\<in>set (fst r). target_safe (fs_read fs target) target data st) \<and>
     fs_read (hd (fst r)) target = (if snd r then Some data else fs_read fs target)"

lemma early_step:
  assumes "committed target fs" "tmp \<noteq> target" "s \<noteq> Rename_Temp" "s \<noteq> Sync_Dir"
    and st: "untouched tmp target fs st" "\<forall>x\<in>set tr. untouched tmp target fs x"
    and more: "untouched tmp target fs (do_step tmp target data s st) \<Longrightarrow>
      write_ok target data fs (run_steps fails part tmp target data ss (opened \<or> s = Open_Temp) (do_step tmp target data s st # st # tr))"
  shows "write_ok target data fs (run_steps fails part tmp target data (s # ss) opened (st # tr))"
proof (cases "fails s")
  case True
  let ?f = "failed_step tmp target part s st"
  have "untouched tmp target fs ?f" "untouched tmp target fs (do_step tmp target data Remove_Temp ?f)"
    using untouched_failed [OF st(1) assms(2)] untouched_step [OF _ assms(2), of fs ?f Remove_Temp]
    by (simp_all del: do_step.simps)
  then have "\<forall>x\<in>set (do_step tmp target data Remove_Temp ?f # ?f # st # tr).
      target_safe (fs_read fs target) target data x \<and> fs_read x target = fs_read fs target"
    using st untouched_safe [OF assms(1)] by auto
  then show ?thesis using True assms(4) by (auto simp: write_ok_def Let_def)
next
  case False
  then show ?thesis using more untouched_step [OF st(1) assms(2-4)] by simp
qed

lemma last_steps:
  assumes "committed target fs" "tmp \<noteq> target" "untouched tmp target fs st" "\<forall>x\<in>set tr. untouched tmp target fs x"
    and new: "fs_names st tmp = Some j" "fs_bytes st j = data" "fs_synced st j"
  shows "write_ok target data fs (run_steps fails part tmp target data [Rename_Temp, Sync_Dir] True (st # tr))"
proof -
  have safe: "\<forall>x\<in>set (st # tr). target_safe (fs_read fs target) target data x \<and> fs_read x target = fs_read fs target"
    using assms(3,4) untouched_safe [OF assms(1)] by auto
  have rm: "untouched tmp target fs (do_step tmp target data Remove_Temp st)" using untouched_step [OF assms(3,2)] by (simp del: do_step.simps)
  note rm = untouched_safe [OF assms(1) rm]
  let ?r = "do_step tmp target data Rename_Temp st"
  have "target_safe (fs_read fs target) target data ?r" "fs_read ?r target = Some data"
    "target_safe (fs_read fs target) target data (do_step tmp target data Sync_Dir ?r)"
    "fs_read (do_step tmp target data Sync_Dir ?r) target = Some data"
    using assms(1-3) new by (cases "fs_names fs target"; auto simp: untouched_def committed_def target_safe_def after_crash_def fs_read_def)+
  then show ?thesis using safe rm by (auto simp: write_ok_def Let_def failed_step_def simp del: do_step.simps)
qed

text \<open>
  C13: An atomic write never damages the file: if the target was committed, then whichever steps of the write fail
  and at whichever point the machine stops, the target afterwards holds its old content or all of the new one; if
  the write succeeds it reads as the new one, otherwise as the old one.
\<close>

theorem atomic_write_safe:
  assumes "committed target fs" "path_join (path_dir target) tmp_name \<noteq> target"
    and "fs_names fs (path_join (path_dir target) tmp_name) = None"
    and run: "write_file_atomic fails part tmp_name target data fs = (trace, ok)"
  shows "(\<forall>st\<in>set trace. target_safe (fs_read fs target) target data st) \<and>
    fs_read (hd trace) target = (if ok then Some data else fs_read fs target)"
proof -
  define tmp where "tmp = path_join (path_dir target) tmp_name"
  have ne: "tmp \<noteq> target" and none: "fs_names fs tmp = None" using assms(2,3) by (simp_all add: tmp_def)
  have start: "untouched tmp target fs fs" using assms(1) none by (auto simp: untouched_def committed_def)
  note early = early_step [OF assms(1) ne]
  let ?d = "do_step tmp target data"
  let ?s4 = "?d Sync_Data (?d Write_Data (?d Open_Temp (?d Make_Dir fs)))"
  have new: "fs_names (?d Close_Temp (?d Set_Mode ?s4)) tmp = Some (fs_free fs)"
    "fs_bytes (?d Close_Temp (?d Set_Mode ?s4)) (fs_free fs) = data" "fs_synced (?d Close_Temp (?d Set_Mode ?s4)) (fs_free fs)"
    by simp_all
  have "write_ok target data fs (write_file_atomic fails part tmp_name target data fs)"
    unfolding write_file_atomic_def tmp_def [symmetric]
    apply (rule early, simp, simp, rule start, simp)
    apply (rule early, simp, simp, assumption, simp add: start)+
    apply (simp del: run_steps.simps do_step.simps)
    apply (rule last_steps [OF assms(1) ne _ _ new])
     apply assumption
    apply (simp del: do_step.simps add: start)
    done
  then show ?thesis using run by (simp add: write_ok_def)
qed

definition demo_cached :: cached_fs where
  "demo_cached = \<lparr>fs_names = [''/d/f'' \<mapsto> 0], fs_durable = [''/d/f'' \<mapsto> 0], fs_bytes = (\<lambda>i. ''old''), fs_synced = (\<lambda>i. True), fs_free = 1\<rparr>"

text \<open>A write whose data does not fit on the medium, and one that succeeds.\<close>

lemma atomic_write_safe_witness:
  "fs_read (hd (fst (write_file_atomic (\<lambda>s. s = Write_Data) ''n'' ''.tmp-1'' ''/d/f'' ''new'' demo_cached))) ''/d/f'' = Some ''old'' \<and>
   fs_read (hd (fst (write_file_atomic (\<lambda>s. False) [] ''.tmp-1'' ''/d/f'' ''new'' demo_cached))) ''/d/f'' = Some ''new''"
proof -
  have c: "committed ''/d/f'' demo_cached" by (simp add: committed_def demo_cached_def)
  have tmp: "path_join (path_dir ''/d/f'') ''.tmp-1'' = ''/d/.tmp-1''" by code_simp
  have ne: "path_join (path_dir ''/d/f'') ''.tmp-1'' \<noteq> ''/d/f''"
    "fs_names demo_cached (path_join (path_dir ''/d/f'') ''.tmp-1'') = None" unfolding tmp by (simp_all add: demo_cached_def)
  have run: "\<not> snd (write_file_atomic (\<lambda>s. s = Write_Data) ''n'' ''.tmp-1'' ''/d/f'' ''new'' demo_cached)"
    "snd (write_file_atomic (\<lambda>s. False) [] ''.tmp-1'' ''/d/f'' ''new'' demo_cached)"
    by (simp_all add: write_file_atomic_def failed_step_def Let_def)
  have "fs_read demo_cached ''/d/f'' = Some ''old''" by (simp add: fs_read_def demo_cached_def)
  then show ?thesis using atomic_write_safe [OF c ne prod.collapse [symmetric]] run by simp
qed

end
