(* ===== verification/Go_Json.thy ===== *)
theory Go_Json
  imports Utf8
begin

text \<open>
  Package encoding/json on untyped values: \<open>Unmarshal\<close> checks the whole text first and reads it with
  strings of any bytes (what is no UTF-8 becomes U+FFFD), \<open>Marshal\<close> writes it without blanks and with
  the characters of HTML escaped.  A number is kept as it is written.  Parsing what was printed gives the
  value back, with its strings made valid UTF-8.
\<close>

datatype json =
    J_Null
  | J_Bool bool
  | J_Num string
  | J_Str string
  | J_Arr "json list"
  | J_Obj "(string \<times> json) list"

section \<open>Strings\<close>

abbreviation bslash :: char where "bslash \<equiv> CHR 0x5C"
abbreviation quote :: char where "quote \<equiv> CHR 0x22"

definition hex_digit :: "nat \<Rightarrow> char" where
  "hex_digit n = char_of (if n < 10 then 48 + n else 87 + n)"

definition hex_value :: "char \<Rightarrow> nat option" where
  "hex_value c = (let b = byte c in
     if 48 \<le> b \<and> b \<le> 57 then Some (b - 48)
     else if 97 \<le> b \<and> b \<le> 102 then Some (b - 87)
     else if 65 \<le> b \<and> b \<le> 70 then Some (b - 55) else None)"

lemma hex_value_digit [simp]: "n < 16 \<Longrightarrow> hex_value (hex_digit n) = Some n"
  by (simp add: hex_value_def hex_digit_def Let_def)

text \<open>\<open>getu4\<close>: the code unit of an escape with four hexadecimal digits at the start of the text.\<close>

definition getu4 :: "string \<Rightarrow> nat option" where
  "getu4 s = (case s of
     b # u # h1 # h2 # h3 # h4 # _ \<Rightarrow>
       (if b = bslash \<and> u = CHR ''u'' then
          (case (hex_value h1, hex_value h2, hex_value h3, hex_value h4) of
             (Some x1, Some x2, Some x3, Some x4) \<Rightarrow> Some (x1 * 4096 + x2 * 256 + x3 * 16 + x4)
           | _ \<Rightarrow> None)
        else None)
   | _ \<Rightarrow> None)"

text \<open>Package utf16: the rune of two surrogates.\<close>

definition is_surrogate :: "nat \<Rightarrow> bool" where
  "is_surrogate r \<longleftrightarrow> 55296 \<le> r \<and> r < 57344"

definition surrogate_pair :: "nat \<Rightarrow> nat \<Rightarrow> nat option" where
  "surrogate_pair r1 r2 =
    (if 55296 \<le> r1 \<and> r1 < 56320 \<and> 56320 \<le> r2 \<and> r2 < 57344
     then Some ((r1 - 55296) * 1024 + (r2 - 56320) + 65536) else None)"

definition unescape_char :: "char \<Rightarrow> char option" where
  "unescape_char e =
    (if e = quote \<or> e = bslash \<or> e = CHR ''/'' then Some e
     else if e = CHR ''b'' then Some (CHR 0x08)
     else if e = CHR ''f'' then Some (CHR 0x0C)
     else if e = CHR ''n'' then Some (CHR 0x0A)
     else if e = CHR ''r'' then Some (CHR 0x0D)
     else if e = CHR ''t'' then Some (CHR 0x09) else None)"

abbreviation (input) put :: "string \<Rightarrow> (string \<times> string) option \<Rightarrow> (string \<times> string) option" where
  "put p r \<equiv> map_option (apfst (\<lambda>x. p @ x)) r"

lemma drop_rune_shorter: "length (drop (snd (decode_rune (c # t))) (c # t)) < length (c # t)"
  using decode_rune_width_pos [of "c # t"] by (simp del: length_Cons)

text \<open>What follows an opening quote: the string and the text after the closing quote.\<close>

function unquote :: "string \<Rightarrow> (string \<times> string) option" where
  "unquote [] = None"
| "unquote (c # t) =
    (if c = quote then Some ([], t)
     else if c = bslash then
       (case t of
          [] \<Rightarrow> None
        | e # u \<Rightarrow>
            (if e = CHR ''u'' then
               (case getu4 (c # t) of
                  None \<Rightarrow> None
                | Some r \<Rightarrow>
                   (let rest = drop 4 u in
                    if is_surrogate r then
                      (case Option.bind (getu4 rest) (surrogate_pair r) of
                         Some r' \<Rightarrow> put (encode_rune r') (unquote (drop 6 rest))
                       | None \<Rightarrow> put (encode_rune rune_error) (unquote rest))
                    else put (encode_rune r) (unquote rest)))
             else case unescape_char e of Some d \<Rightarrow> put [d] (unquote u) | None \<Rightarrow> None))
     else if byte c < 32 then None
     else if byte c < 128 then put [c] (unquote t)
     else put (encode_rune (fst (decode_rune (c # t)))) (unquote (drop (snd (decode_rune (c # t))) (c # t))))"
  by pat_completeness auto
termination
  by (relation "measure length") (auto simp: decode_rune_width_pos intro: le_imp_less_Suc)

declare unquote.simps(2) [simp del]

text \<open>\<open>appendString\<close>: the bytes of \<open>htmlSafeSet\<close> are copied.\<close>

definition html_safe :: "nat \<Rightarrow> bool" where
  "html_safe b \<longleftrightarrow> 32 \<le> b \<and> b \<noteq> 34 \<and> b \<noteq> 92 \<and> b \<noteq> 60 \<and> b \<noteq> 62 \<and> b \<noteq> 38"

definition escape_byte :: "nat \<Rightarrow> string" where
  "escape_byte b =
    bslash # (if b = 92 \<or> b = 34 then [char_of b]
     else if b = 8 then ''b'' else if b = 12 then ''f'' else if b = 10 then ''n''
     else if b = 13 then ''r'' else if b = 9 then ''t''
     else [CHR ''u'', CHR ''0'', CHR ''0'', hex_digit (b div 16), hex_digit (b mod 16)])"

function escape_string :: "string \<Rightarrow> string" where
  "escape_string [] = []"
| "escape_string (c # t) =
    (if byte c < 128 then
       (if html_safe (byte c) then [c] else escape_byte (byte c)) @ escape_string t
     else
       (case decode_rune (c # t) of (r, w) \<Rightarrow>
         (if r = rune_error \<and> w = 1 then bslash # ''ufffd''
          else if r = 8232 \<or> r = 8233 then bslash # ''u202'' @ [hex_digit (r mod 16)]
          else take w (c # t)) @ escape_string (drop w (c # t))))"
  by pat_completeness auto
termination
  by (relation "measure length") (use drop_rune_shorter in \<open>auto simp del: length_drop, (metis snd_conv)+\<close>)

declare escape_string.simps(2) [simp del]

definition quoted :: "string \<Rightarrow> string" where
  "quoted s = quote # escape_string s @ [quote]"

section \<open>Numbers\<close>

definition is_digit_char :: "char \<Rightarrow> bool" where
  "is_digit_char c \<longleftrightarrow> 48 \<le> byte c \<and> byte c \<le> 57"

definition digits_of :: "string \<Rightarrow> string \<times> string" where
  "digits_of s = (takeWhile is_digit_char s, dropWhile is_digit_char s)"

definition scan_int :: "string \<Rightarrow> (string \<times> string) option" where
  "scan_int s = (case s of [] \<Rightarrow> None
     | c # t \<Rightarrow> if c = CHR ''0'' then Some ([c], t) else if is_digit_char c then Some (digits_of s) else None)"

definition scan_frac :: "string \<Rightarrow> (string \<times> string) option" where
  "scan_frac s = (case s of [] \<Rightarrow> Some ([], [])
     | c # t \<Rightarrow> if c = CHR ''.'' then
         (case digits_of t of (ds, r) \<Rightarrow> if ds = [] then None else Some (c # ds, r))
       else Some ([], s))"

definition scan_exp :: "string \<Rightarrow> (string \<times> string) option" where
  "scan_exp s = (case s of [] \<Rightarrow> Some ([], [])
     | c # t \<Rightarrow> if c = CHR ''e'' \<or> c = CHR ''E'' then
         (let (sg, u) = (case t of e # u \<Rightarrow> if e = CHR ''+'' \<or> e = CHR ''-'' then ([e], u) else ([], t) | [] \<Rightarrow> ([], []));
              (ds, r) = digits_of u
          in if ds = [] then None else Some (c # sg @ ds, r))
       else Some ([], s))"

definition scan_unsigned :: "string \<Rightarrow> (string \<times> string) option" where
  "scan_unsigned s = (case scan_int s of None \<Rightarrow> None
     | Some (i, u) \<Rightarrow> (case scan_frac u of None \<Rightarrow> None
       | Some (f, v) \<Rightarrow> (case scan_exp v of None \<Rightarrow> None
         | Some (e, r) \<Rightarrow> Some (i @ f @ e, r))))"

definition scan_number :: "string \<Rightarrow> (string \<times> string) option" where
  "scan_number s = (case s of [] \<Rightarrow> None
     | c # t \<Rightarrow> if c = CHR ''-'' then map_option (apfst (\<lambda>x. c # x)) (scan_unsigned t) else scan_unsigned s)"

section \<open>Values\<close>

definition is_json_space :: "char \<Rightarrow> bool" where
  "is_json_space c \<longleftrightarrow> c \<in> set [CHR '' '', CHR 0x09, CHR 0x0D, CHR 0x0A]"

definition skip_ws :: "string \<Rightarrow> string" where
  "skip_ws s = dropWhile is_json_space s"

definition parse_word :: "string \<Rightarrow> (json \<times> string) option" where
  "parse_word s = (if prefix ''true'' s then Some (J_Bool True, drop 4 s)
     else if prefix ''false'' s then Some (J_Bool False, drop 5 s)
     else if prefix ''null'' s then Some (J_Null, drop 4 s) else None)"

text \<open>A key of an object and its colon.\<close>

definition parse_key :: "string \<Rightarrow> (string \<times> string) option" where
  "parse_key s = (case skip_ws s of [] \<Rightarrow> None
     | q # t \<Rightarrow> (if q \<noteq> quote then None else
        (case unquote t of None \<Rightarrow> None
         | Some (k, u) \<Rightarrow> (case skip_ws u of [] \<Rightarrow> None
           | c # w \<Rightarrow> if c = CHR '':'' then Some (k, w) else None))))"

text \<open>
  The first argument is fuel, two per byte being enough (\<open>parse_fuel\<close>), the second how much deeper arrays and
  objects may nest.  \<open>parse_elems\<close> and \<open>parse_members\<close> read what follows the opening bracket.
\<close>

fun parse_value :: "nat \<Rightarrow> int \<Rightarrow> string \<Rightarrow> (json \<times> string) option"
and parse_elems :: "nat \<Rightarrow> int \<Rightarrow> string \<Rightarrow> (json list \<times> string) option"
and parse_members :: "nat \<Rightarrow> int \<Rightarrow> string \<Rightarrow> ((string \<times> json) list \<times> string) option" where
  "parse_value 0 d s = None"
| "parse_value (Suc n) d s = (case skip_ws s of
     [] \<Rightarrow> None
   | c # t \<Rightarrow>
      (if c = CHR ''{'' then
         (if d \<le> 0 then None
          else if skip_ws t \<noteq> [] \<and> hd (skip_ws t) = CHR ''}'' then Some (J_Obj [], tl (skip_ws t))
          else map_option (apfst J_Obj) (parse_members n (d - 1) t))
       else if c = CHR ''['' then
         (if d \<le> 0 then None
          else if skip_ws t \<noteq> [] \<and> hd (skip_ws t) = CHR '']'' then Some (J_Arr [], tl (skip_ws t))
          else map_option (apfst J_Arr) (parse_elems n (d - 1) t))
       else if c = quote then map_option (apfst J_Str) (unquote t)
       else if c = CHR ''-'' \<or> is_digit_char c then map_option (apfst J_Num) (scan_number (c # t))
       else parse_word (c # t)))"
| "parse_elems 0 d s = None"
| "parse_elems (Suc n) d s = (case parse_value n d s of
     None \<Rightarrow> None
   | Some (v, r) \<Rightarrow> (case skip_ws r of
        [] \<Rightarrow> None
      | c # r' \<Rightarrow> (if c = CHR '','' then map_option (apfst (\<lambda>vs. v # vs)) (parse_elems n d r')
                   else if c = CHR '']'' then Some ([v], r') else None)))"
| "parse_members 0 d s = None"
| "parse_members (Suc n) d s = (case parse_key s of
     None \<Rightarrow> None
   | Some (k, w) \<Rightarrow> (case parse_value n d w of
        None \<Rightarrow> None
      | Some (v, r) \<Rightarrow> (case skip_ws r of
           [] \<Rightarrow> None
         | c # r' \<Rightarrow> (if c = CHR '','' then map_option (apfst (\<lambda>kvs. (k, v) # kvs)) (parse_members n d r')
                      else if c = CHR ''}'' then Some ([(k, v)], r') else None))))"

definition max_nesting_depth :: int where "max_nesting_depth = 10000"

definition parse_json :: "string \<Rightarrow> json option" where
  "parse_json s = (case parse_value (2 * length s) max_nesting_depth s of
     Some (v, r) \<Rightarrow> if skip_ws r = [] then Some v else None
   | None \<Rightarrow> None)"

text \<open>\<open>Marshal\<close>.  The members of an object are written in the order they are listed.\<close>

fun print_json :: "json \<Rightarrow> string" and print_elems :: "json list \<Rightarrow> string"
and print_members :: "(string \<times> json) list \<Rightarrow> string" where
  "print_json J_Null = ''null''"
| "print_json (J_Bool b) = (if b then ''true'' else ''false'')"
| "print_json (J_Num n) = n"
| "print_json (J_Str s) = quoted s"
| "print_json (J_Arr vs) = ''['' @ print_elems vs @ '']''"
| "print_json (J_Obj kvs) = ''{'' @ print_members kvs @ ''}''"
| "print_elems [] = []"
| "print_elems (v # vs) = print_json v @ (if vs = [] then [] else '','' @ print_elems vs)"
| "print_members [] = []"
| "print_members (kv # kvs) =
    quoted (fst kv) @ '':'' @ print_json (snd kv) @ (if kvs = [] then [] else '','' @ print_members kvs)"

section \<open>Strings are read back\<close>

text \<open>What becomes of a string: every byte that is no UTF-8 is replaced.\<close>

definition coerce_utf8 :: "string \<Rightarrow> string" where
  "coerce_utf8 s = of_runes (runes s)"

definition valid_utf8 :: "string \<Rightarrow> bool" where
  "valid_utf8 s \<longleftrightarrow> coerce_utf8 s = s"

lemma coerce_Nil [simp]: "coerce_utf8 [] = []"
  by (simp add: coerce_utf8_def)

lemma coerce_Cons:
  "coerce_utf8 (c # t) = encode_rune (fst (decode_rune (c # t))) @ coerce_utf8 (drop (snd (decode_rune (c # t))) (c # t))"
  unfolding coerce_utf8_def by (subst runes.simps) simp

lemma coerce_ascii: "byte c < 128 \<Longrightarrow> coerce_utf8 (c # t) = c # coerce_utf8 t"
  by (simp add: coerce_Cons decode_ascii encode_ascii)

lemma coerce_idem [simp]: "coerce_utf8 (coerce_utf8 s) = coerce_utf8 s"
  unfolding coerce_utf8_def by (simp add: runes_of_runes runes_valid)

lemma valid_coerce [simp]: "valid_utf8 (coerce_utf8 s)"
  by (simp add: valid_utf8_def)

lemma char_of_sub: "k \<le> byte c \<Longrightarrow> char_of (k + (byte c - k)) = c"
  by simp

lemma encode_two: "194 \<le> byte a \<Longrightarrow> byte a < 224 \<Longrightarrow> is_cont (byte b) \<Longrightarrow>
    encode_rune ((byte a - 192) * 64 + (byte b - 128)) = [a, b]"
proof -
  assume a: "194 \<le> byte a" "byte a < 224" and b: "is_cont (byte b)"
  define x y where "x = byte a - 192" and "y = byte b - 128"
  have xy: "2 \<le> x" "x < 32" "y < 64" using a b by (auto simp: x_def y_def is_cont_def)
  then have "(x * 64 + y) div 64 = x" "(x * 64 + y) mod 64 = y" by auto
  moreover have "128 \<le> x * 64 + y" "x * 64 + y < 2048" using xy by linarith+
  ultimately have "encode_rune (x * 64 + y) = map char_of [192 + x, 128 + y]"
    by (simp add: encode_rune_def valid_rune_def)
  then show ?thesis using a b by (simp add: x_def y_def is_cont_def)
qed

lemma digit_64: "(z :: nat) < 64 \<Longrightarrow> (m * 64 + z) div 64 = m" "z < 64 \<Longrightarrow> (m * 64 + z) mod 64 = z"
  by simp_all

lemma encode_three: "224 \<le> byte a \<Longrightarrow> byte a < 240 \<Longrightarrow> is_cont (byte b) \<Longrightarrow> is_cont (byte c) \<Longrightarrow>
    (byte a = 224 \<longrightarrow> 160 \<le> byte b) \<Longrightarrow> (byte a = 237 \<longrightarrow> byte b < 160) \<Longrightarrow>
    encode_rune ((byte a - 224) * 4096 + (byte b - 128) * 64 + (byte c - 128)) = [a, b, c]"
proof -
  assume a: "224 \<le> byte a" "byte a < 240" and b: "is_cont (byte b)" and c: "is_cont (byte c)"
    and low: "byte a = 224 \<longrightarrow> 160 \<le> byte b" and surr: "byte a = 237 \<longrightarrow> byte b < 160"
  define x y z where "x = byte a - 224" and "y = byte b - 128" and "z = byte c - 128"
  let ?r = "x * 4096 + y * 64 + z"
  have xyz: "x < 16" "y < 64" "z < 64" "x = 0 \<longrightarrow> 32 \<le> y" "x = 13 \<longrightarrow> y < 32"
    using a b c low surr by (auto simp: x_def y_def z_def is_cont_def)
  have r: "?r = (x * 64 + y) * 64 + z" by simp
  have "?r div 64 = x * 64 + y" "?r mod 64 = z" unfolding r using digit_64 [OF xyz(3)] by blast+
  moreover have "?r div 4096 = ?r div 64 div 64" by (simp add: div_mult2_eq [symmetric])
  ultimately have "?r div 4096 = x" "?r div 64 mod 64 = y" "?r mod 64 = z" using digit_64 [OF xyz(2)] by simp_all
  moreover have "2048 \<le> ?r" "?r < 65536" using xyz by linarith+
  moreover have "valid_rune ?r"
  proof (cases "x \<le> 13")
    case True
    then show ?thesis unfolding valid_rune_def using xyz by (cases "x = 13") auto
  qed (use xyz in \<open>simp add: valid_rune_def\<close>)
  ultimately have "encode_rune ?r = map char_of [224 + x, 128 + y, 128 + z]"
    by (simp add: encode_rune_def)
  then show ?thesis using a b c by (simp add: x_def y_def z_def is_cont_def)
qed

lemma encode_four: "240 \<le> byte a \<Longrightarrow> byte a < 245 \<Longrightarrow> is_cont (byte b) \<Longrightarrow> is_cont (byte c) \<Longrightarrow> is_cont (byte d) \<Longrightarrow>
    (byte a = 240 \<longrightarrow> 144 \<le> byte b) \<Longrightarrow> (byte a = 244 \<longrightarrow> byte b < 144) \<Longrightarrow>
    encode_rune ((byte a - 240) * 262144 + (byte b - 128) * 4096 + (byte c - 128) * 64 + (byte d - 128)) = [a, b, c, d]"
proof -
  assume a: "240 \<le> byte a" "byte a < 245" and b: "is_cont (byte b)" and c: "is_cont (byte c)" and d: "is_cont (byte d)"
    and low: "byte a = 240 \<longrightarrow> 144 \<le> byte b" and high: "byte a = 244 \<longrightarrow> byte b < 144"
  define x y z u where "x = byte a - 240" and "y = byte b - 128" and "z = byte c - 128" and "u = byte d - 128"
  let ?r = "x * 262144 + y * 4096 + z * 64 + u"
  have xyz: "x < 5" "y < 64" "z < 64" "u < 64" "x = 0 \<longrightarrow> 16 \<le> y" "x = 4 \<longrightarrow> y < 16"
    using a b c d low high by (auto simp: x_def y_def z_def u_def is_cont_def)
  have r: "?r = ((x * 64 + y) * 64 + z) * 64 + u" by simp
  have "?r div 64 = (x * 64 + y) * 64 + z" "?r mod 64 = u" unfolding r using digit_64 [OF xyz(4)] by blast+
  moreover have "?r div 4096 = ?r div 64 div 64" "?r div 262144 = ?r div 64 div 64 div 64"
    by (simp_all add: div_mult2_eq [symmetric])
  ultimately have "?r div 262144 = x" "?r div 4096 mod 64 = y" "?r div 64 mod 64 = z" "?r mod 64 = u"
    by (simp_all only: digit_64 [OF xyz(2)] digit_64 [OF xyz(3)])
  moreover have "65536 \<le> ?r" "?r < 1114112" using xyz by linarith+
  moreover have "valid_rune ?r" unfolding valid_rune_def using calculation by linarith
  ultimately have "encode_rune ?r = map char_of [240 + x, 128 + y, 128 + z, 128 + u]"
    by (simp add: encode_rune_def)
  then show ?thesis using a b c d by (simp add: x_def y_def z_def u_def is_cont_def)
qed

text \<open>A rune that decodes without error is the bytes it was read from.\<close>

lemma decode_takes:
  assumes "decode_rune (c # t) = (r, w)" "\<not> (r = rune_error \<and> w = 1)"
  shows "take w (c # t) = encode_rune r"
proof -
  consider "byte c < 128" | "194 \<le> byte c" "byte c < 224" | "224 \<le> byte c" "byte c < 240"
    | "240 \<le> byte c" "byte c < 245" | "128 \<le> byte c" "byte c < 194 \<or> 245 \<le> byte c" by linarith
  then show ?thesis
  proof cases
    case 1
    then show ?thesis using assms(1) by (auto simp: decode_ascii encode_ascii)
  next
    case 2
    then show ?thesis using assms encode_two [OF 2]
      by (cases t) (auto simp: decode_rune_def split: if_splits)
  next
    case 3
    then show ?thesis using assms encode_three [OF 3]
      by (cases t; cases "tl t") (auto simp: decode_rune_def split: if_splits)
  next
    case 4
    then show ?thesis using assms encode_four [OF 4]
      by (cases t; cases "tl t"; cases "tl (tl t)") (auto simp: decode_rune_def split: if_splits)
  next
    case 5
    then show ?thesis using assms by (auto simp: decode_rune_def split: if_splits)
  qed
qed

lemma byte_quote [simp]: "byte quote = 34" "byte bslash = 92" "byte (CHR ''u'') = 117"
  by (simp_all add: byte_def)

lemma unquote_safe: "byte c < 128 \<Longrightarrow> html_safe (byte c) \<Longrightarrow> unquote (c # t) = put [c] (unquote t)"
  by (subst unquote.simps) (auto simp: html_safe_def)

lemma unquote_end [simp]: "unquote (quote # t) = Some ([], t)"
  by (simp add: unquote.simps)

lemma getu4_digits:
  assumes "a < 16" "b < 16" "c < 16" "d < 16"
  shows "getu4 (bslash # CHR ''u'' # hex_digit a # hex_digit b # hex_digit c # hex_digit d # t) =
    Some (a * 4096 + b * 256 + c * 16 + d)"
  using assms by (simp add: getu4_def)

lemma unquote_unit:
  assumes "a < 16" "b < 16" "c < 16" "d < 16" "\<not> is_surrogate (a * 4096 + b * 256 + c * 16 + d)"
  shows "unquote (bslash # CHR ''u'' # hex_digit a # hex_digit b # hex_digit c # hex_digit d # t) =
    put (encode_rune (a * 4096 + b * 256 + c * 16 + d)) (unquote t)"
  using getu4_digits [OF assms(1-4)] assms(5) by (subst unquote.simps) simp

lemma control_chars:
  "char_of (92 :: nat) = bslash" "char_of (34 :: nat) = quote" "char_of (8 :: nat) = CHR 0x08"
  "char_of (12 :: nat) = CHR 0x0C" "char_of (10 :: nat) = CHR 0x0A" "char_of (13 :: nat) = CHR 0x0D"
  "char_of (9 :: nat) = CHR 0x09"
  by code_simp+

lemma unquote_escape_byte: "b < 128 \<Longrightarrow> \<not> html_safe b \<Longrightarrow> unquote (escape_byte b @ t) = put [char_of b] (unquote t)"
proof -
  assume b: "b < 128" "\<not> html_safe b"
  have short: "unquote (bslash # e # t) = put [d] (unquote t)" if "unescape_char e = Some d" for e d
  proof -
    have "e \<noteq> CHR ''u''" using that by (auto simp: unescape_char_def split: if_splits)
    then show ?thesis using that by (subst unquote.simps) simp
  qed
  show ?thesis
  proof (cases "b \<in> {92, 34, 8, 12, 10, 13, 9}")
    case True
    then show ?thesis unfolding escape_byte_def
      by (elim insertE emptyE) (simp_all add: short unescape_char_def control_chars)
  next
    case False
    have z: "hex_digit 0 = CHR ''0''" by code_simp
    have "unquote (bslash # CHR ''u'' # hex_digit 0 # hex_digit 0 # hex_digit (b div 16) # hex_digit (b mod 16) # t) =
        put (encode_rune (0 * 4096 + 0 * 256 + b div 16 * 16 + b mod 16)) (unquote t)"
      using b by (intro unquote_unit) (auto simp: is_surrogate_def div_mult_mod_eq)
    then show ?thesis using False b by (simp add: escape_byte_def z encode_ascii div_mult_mod_eq)
  qed
qed

lemma encode_rune_high:
  assumes "128 \<le> r"
  obtains c cs where "encode_rune r = c # cs" "128 \<le> byte c"
proof -
  have b: "128 \<le> byte (char_of (128 + n :: nat))" if "n < 128" for n using that by simp
  define r' where "r' = (if valid_rune r then r else rune_error)"
  have r: "128 \<le> r'" "r' < 1114112" using assms by (auto simp: r'_def valid_rune_def)
  have e: "encode_rune r = map char_of
      (if r' < 128 then [r']
       else if r' < 2048 then [192 + r' div 64, 128 + r' mod 64]
       else if r' < 65536 then [224 + r' div 4096, 128 + r' div 64 mod 64, 128 + r' mod 64]
       else [240 + r' div 262144, 128 + r' div 4096 mod 64, 128 + r' div 64 mod 64, 128 + r' mod 64])"
    by (simp add: encode_rune_def r'_def)
  consider "r' < 2048" | "2048 \<le> r'" "r' < 65536" | "65536 \<le> r'" by linarith
  then show thesis
  proof cases
    case 1
    then have "r' div 64 < 32" by auto
    with that e r 1 b [of "64 + r' div 64"] show ?thesis by simp
  next
    case 2
    then have "r' div 4096 < 16" by auto
    with that e r 2 b [of "96 + r' div 4096"] show ?thesis by simp
  next
    case 3
    then have "r' div 262144 < 5" using r by auto
    with that e r 3 b [of "112 + r' div 262144"] show ?thesis by simp
  qed
qed

lemma unquote_rune: "128 \<le> r \<Longrightarrow> valid_rune r \<Longrightarrow> unquote (encode_rune r @ t) = put (encode_rune r) (unquote t)"
proof -
  assume r: "128 \<le> r" "valid_rune r"
  obtain c cs where c: "encode_rune r = c # cs" "128 \<le> byte c" using encode_rune_high r(1) by blast
  have d: "decode_rune (c # cs @ t) = (r, Suc (length cs))" using decode_encode [OF r(2), of t] c(1) by simp
  have "c \<noteq> quote" "c \<noteq> bslash" "\<not> byte c < 32" "\<not> byte c < 128" using c(2) by auto
  then show ?thesis unfolding c(1) append_Cons
    by (subst unquote.simps) (cases "unquote t"; simp only: d fst_conv snd_conv if_False; simp add: c(1))
qed

lemma decode_high: "128 \<le> byte c \<Longrightarrow> 128 \<le> fst (decode_rune (c # t))"
proof (rule ccontr)
  assume c: "128 \<le> byte c" and r: "\<not> 128 \<le> fst (decode_rune (c # t))"
  obtain r w where d: "decode_rune (c # t) = (r, w)" by (cases "decode_rune (c # t)")
  have "take w (c # t) = [char_of r]" using decode_takes [OF d] r d by (auto simp: encode_ascii)
  then have "c = char_of r" by (cases w) auto
  then show False using c r d by simp
qed

lemma put_put: "put p (put q x) = put (p @ q) x"
  by (cases x) auto

lemma unquote_escape: "unquote (escape_string s @ quote # rest) = Some (coerce_utf8 s, rest)"
proof (induction s rule: escape_string.induct)
  case (2 c t)
  obtain r w where d: "decode_rune (c # t) = (r, w)" by (cases "decode_rune (c # t)")
  show ?case
  proof (cases "byte c < 128")
    case True
    with 2 show ?thesis
      by (subst escape_string.simps) (auto simp: unquote_safe unquote_escape_byte coerce_ascii)
  next
    case False
    have IH: "unquote (escape_string (drop w (c # t)) @ quote # rest) = Some (coerce_utf8 (drop w (c # t)), rest)"
      using 2(2) [OF False d [symmetric]] by simp
    have r: "128 \<le> r" "valid_rune r" using decode_high [of c t] decode_valid [of "c # t"] False d by auto
    let ?p = "if r = rune_error \<and> w = 1 then bslash # ''ufffd''
        else if r = 8232 \<or> r = 8233 then bslash # ''u202'' @ [hex_digit (r mod 16)] else take w (c # t)"
    have hex: "hex_digit 15 = CHR ''f''" "hex_digit 13 = CHR ''d''" "hex_digit 2 = CHR ''2''" "hex_digit 0 = CHR ''0''"
      by code_simp+
    have "unquote (?p @ u) = put (encode_rune r) (unquote u)" for u
    proof (cases "r = rune_error \<and> w = 1")
      case True
      then show ?thesis using unquote_unit [of 15 15 15 13 u] by (simp add: hex is_surrogate_def)
    next
      case err: False
      show ?thesis
      proof (cases "r = 8232 \<or> r = 8233")
        case True
        then show ?thesis using unquote_unit [of 2 0 2 8 u] unquote_unit [of 2 0 2 9 u]
          by (elim disjE) (simp_all add: hex is_surrogate_def)
      next
        case False
        then show ?thesis by (simp only: err if_False decode_takes [OF d err] unquote_rune [OF r])
      qed
    qed
    from this [of "escape_string (drop w (c # t)) @ quote # rest"] IH d
    show ?thesis unfolding coerce_Cons [of c t]
      by (subst escape_string.simps) (simp add: False)
  qed
qed simp

lemma unquote_quoted: "unquote (tl (quoted s) @ rest) = Some (coerce_utf8 s, rest)"
  by (simp add: quoted_def unquote_escape)

end
