(* ===== verification/Json_Roundtrip.thy ===== *)
theory Json_Roundtrip
  imports Go_Json
begin

text \<open>
  Parsing and printing of JSON values: the fuel of the parser is enough for every text, what was printed is read
  back with its strings made valid UTF-8, and what is printed has no control characters.
\<close>

section \<open>Values are read back\<close>

definition num_ok :: "string \<Rightarrow> bool" where
  "num_ok n \<longleftrightarrow> scan_number n = Some (n, [])"

text \<open>What may follow a value.\<close>

definition ends_value :: "string \<Rightarrow> bool" where
  "ends_value r \<longleftrightarrow> r = [] \<or> hd r \<in> set '',]}''"

lemma ends_value_simps [simp]: "ends_value []" "ends_value (CHR '','' # r)" "ends_value (CHR '']'' # r)" "ends_value (CHR ''}'' # r)"
  by (simp_all add: ends_value_def)

lemma ends_value_not_number:
  "ends_value (c # r) \<Longrightarrow> \<not> is_digit_char c \<and> c \<noteq> CHR ''.'' \<and> c \<noteq> CHR ''e'' \<and> c \<noteq> CHR ''E''"
  by (auto simp: ends_value_def is_digit_char_def byte_def)

lemma digits_app:
  assumes "ends_value r"
  shows "takeWhile is_digit_char (s @ r) = takeWhile is_digit_char s"
    "dropWhile is_digit_char (s @ r) = dropWhile is_digit_char s @ r"
proof -
  have "takeWhile is_digit_char r = []" "dropWhile is_digit_char r = r"
    using assms ends_value_not_number by (cases r; simp)+
  then show "takeWhile is_digit_char (s @ r) = takeWhile is_digit_char s"
    "dropWhile is_digit_char (s @ r) = dropWhile is_digit_char s @ r"
    by (induction s) auto
qed

lemma scan_app:
  assumes "ends_value r"
  shows "scan_int s = Some (x, u) \<Longrightarrow> scan_int (s @ r) = Some (x, u @ r)"
    "scan_frac s = Some (x, u) \<Longrightarrow> scan_frac (s @ r) = Some (x, u @ r)"
    "scan_exp s = Some (x, u) \<Longrightarrow> scan_exp (s @ r) = Some (x, u @ r)"
proof -
  note d = digits_app [OF assms] and e = ends_value_not_number
  show "scan_int (s @ r) = Some (x, u @ r)" if "scan_int s = Some (x, u)"
    using that d [of s] by (cases s) (auto simp: scan_int_def digits_of_def split: if_splits)
  show "scan_frac (s @ r) = Some (x, u @ r)" if "scan_frac s = Some (x, u)"
  proof (cases s)
    case Nil
    then show ?thesis using that assms e by (cases r) (auto simp: scan_frac_def)
  next
    case (Cons c t)
    then show ?thesis using that d [of t] by (auto simp: scan_frac_def digits_of_def split: if_splits)
  qed
  show "scan_exp (s @ r) = Some (x, u @ r)" if "scan_exp s = Some (x, u)"
  proof (cases s)
    case Nil
    then show ?thesis using that assms e by (cases r) (auto simp: scan_exp_def)
  next
    case (Cons c t)
    then show ?thesis using that d [of t] d [of "tl t"]
      by (cases t) (auto simp: scan_exp_def digits_of_def Let_def split: if_splits)
  qed
qed

lemma scan_unsigned_app:
  assumes "scan_unsigned s = Some (x, u)" "ends_value r"
  shows "scan_unsigned (s @ r) = Some (x, u @ r)"
proof -
  from assms(1) obtain i f e v w where "scan_int s = Some (i, v)" "scan_frac v = Some (f, w)" "scan_exp w = Some (e, u)"
      "x = i @ f @ e"
    by (auto simp: scan_unsigned_def split: option.splits prod.splits)
  with scan_app [OF assms(2)] show ?thesis by (simp add: scan_unsigned_def)
qed

lemma scan_number_app: "scan_number s = Some (x, u) \<Longrightarrow> ends_value r \<Longrightarrow> scan_number (s @ r) = Some (x, u @ r)"
  using scan_unsigned_app [of s x u r] scan_unsigned_app [of "tl s" "tl x" u r]
  by (cases s) (auto simp: scan_number_def split: if_splits)

lemma num_ok_start: "num_ok n \<Longrightarrow> \<exists>c t. n = c # t \<and> (c = CHR ''-'' \<or> is_digit_char c)"
  by (cases n) (auto simp: num_ok_def scan_number_def scan_unsigned_def scan_int_def is_digit_char_def byte_def
      split: if_splits option.splits)

text \<open>Values whose numbers are well formed and that nest at most \<open>d\<close> deep, and what becomes of their strings.\<close>

fun json_fits :: "int \<Rightarrow> json \<Rightarrow> bool" where
  "json_fits d (J_Num n) = num_ok n"
| "json_fits d (J_Arr vs) = (0 < d \<and> (\<forall>v\<in>set vs. json_fits (d - 1) v))"
| "json_fits d (J_Obj kvs) = (0 < d \<and> (\<forall>kv\<in>set kvs. json_fits (d - 1) (snd kv)))"
| "json_fits d _ = True"

fun clean_json :: "json \<Rightarrow> json" where
  "clean_json (J_Str s) = J_Str (coerce_utf8 s)"
| "clean_json (J_Arr vs) = J_Arr (map clean_json vs)"
| "clean_json (J_Obj kvs) = J_Obj (map (\<lambda>kv. (coerce_utf8 (fst kv), clean_json (snd kv))) kvs)"
| "clean_json j = j"

definition starts_value :: "string \<Rightarrow> bool" where
  "starts_value s \<longleftrightarrow> s \<noteq> [] \<and> \<not> is_json_space (hd s) \<and> hd s \<noteq> CHR '']'' \<and> hd s \<noteq> CHR ''}''"

lemma digit_char_simps:
  "is_digit_char c \<or> c = CHR ''-'' \<Longrightarrow> c \<noteq> quote \<and> c \<noteq> CHR ''{'' \<and> c \<noteq> CHR ''['' \<and> c \<noteq> CHR '']'' \<and> c \<noteq> CHR ''}'' \<and> \<not> is_json_space c"
  by (auto simp: is_digit_char_def byte_def is_json_space_def)

lemma print_starts: "json_fits d j \<Longrightarrow> starts_value (print_json j @ r)"
proof (cases j)
  case (J_Num n)
  moreover assume "json_fits d j"
  ultimately obtain c t where "n = c # t" "c = CHR ''-'' \<or> is_digit_char c" using num_ok_start [of n] by force
  then show ?thesis using J_Num digit_char_simps [of c] by (auto simp: starts_value_def)
qed (auto simp: starts_value_def is_json_space_def quoted_def)

lemma skip_ws_starts [simp]: "starts_value s \<Longrightarrow> skip_ws s = s"
  by (cases s) (auto simp: starts_value_def skip_ws_def)

lemma skip_ws_ends [simp]: "ends_value r \<Longrightarrow> skip_ws r = r"
  by (cases r) (auto simp: ends_value_def skip_ws_def is_json_space_def)

lemma skip_ws_quote [simp]: "skip_ws (quote # t) = quote # t" "skip_ws (CHR '':'' # t) = CHR '':'' # t"
  "skip_ws (CHR ''{'' # t) = CHR ''{'' # t" "skip_ws (CHR ''['' # t) = CHR ''['' # t"
  "skip_ws (CHR '']'' # t) = CHR '']'' # t" "skip_ws (CHR ''}'' # t) = CHR ''}'' # t"
  "skip_ws [] = []"
  by (simp_all add: skip_ws_def is_json_space_def)

lemma skip_ws_words: "skip_ws (''null'' @ t) = ''null'' @ t" "skip_ws (''true'' @ t) = ''true'' @ t"
  "skip_ws (''false'' @ t) = ''false'' @ t"
  by (simp_all add: skip_ws_def is_json_space_def)

lemma word_no_digit: "\<not> is_digit_char (CHR ''n'')" "\<not> is_digit_char (CHR ''t'')" "\<not> is_digit_char (CHR ''f'')"
  by (simp_all add: is_digit_char_def byte_def)

lemma parse_words:
  "0 < n \<Longrightarrow> parse_value n d (''null'' @ r) = Some (J_Null, r)"
  "0 < n \<Longrightarrow> parse_value n d (''true'' @ r) = Some (J_Bool True, r)"
  "0 < n \<Longrightarrow> parse_value n d (''false'' @ r) = Some (J_Bool False, r)"
  by (cases n; simp add: skip_ws_words [simplified] word_no_digit parse_word_def)+

lemma parse_number:
  assumes "num_ok n" "ends_value r" "length n \<le> m"
  shows "parse_value m d (n @ r) = Some (J_Num n, r)"
proof -
  obtain c t where c: "n = c # t" "is_digit_char c \<or> c = CHR ''-''" using num_ok_start [OF assms(1)] by auto
  have "scan_number (n @ r) = Some (n, r)" using scan_number_app assms by (simp add: num_ok_def)
  then show ?thesis using assms(3) c digit_char_simps [OF c(2)] by (cases m) (auto simp: skip_ws_def)
qed

lemma parse_string: "parse_value (Suc n) d (quoted s @ r) = Some (J_Str (coerce_utf8 s), r)"
  by (simp add: quoted_def unquote_escape)

lemma parse_key_quoted: "parse_key (quoted k @ CHR '':'' # w) = Some (coerce_utf8 k, w)"
  by (simp add: parse_key_def quoted_def unquote_escape)

lemma parse_print:
  "json_fits d j \<Longrightarrow> ends_value r \<Longrightarrow> 2 * length (print_json j) \<le> n \<Longrightarrow>
     parse_value n d (print_json j @ r) = Some (clean_json j, r)"
  "\<forall>v\<in>set vs. json_fits d v \<Longrightarrow> vs \<noteq> [] \<Longrightarrow> 2 * length (print_elems vs) < n \<Longrightarrow>
     parse_elems n d (print_elems vs @ CHR '']'' # r) = Some (map clean_json vs, r)"
  "\<forall>kv\<in>set kvs. json_fits d (snd kv) \<Longrightarrow> kvs \<noteq> [] \<Longrightarrow> 2 * length (print_members kvs) < n \<Longrightarrow>
     parse_members n d (print_members kvs @ CHR ''}'' # r) =
       Some (map (\<lambda>kv. (coerce_utf8 (fst kv), clean_json (snd kv))) kvs, r)"
proof (induction j and vs and kvs arbitrary: d r n and d r n and d r n rule: print_json_print_elems_print_members.induct)
  case (4 s)
  then show ?case by (cases n) (auto simp: parse_string quoted_def unquote_escape)
next
  case (5 vs)
  then obtain n' where n: "n = Suc n'" "2 * length (print_elems vs) < n'" by (cases n) auto
  show ?case
  proof (cases vs)
    case Nil
    then show ?thesis using 5(2) n by simp
  next
    case (Cons v vs')
    then have "starts_value (print_elems vs @ CHR '']'' # r)" using print_starts 5(2) by auto
    then have "skip_ws (print_elems vs @ CHR '']'' # r) = print_elems vs @ CHR '']'' # r"
      "hd (print_elems vs @ CHR '']'' # r) \<noteq> CHR '']''"
      using skip_ws_starts by (auto simp: starts_value_def)
    moreover have "parse_elems n' (d - 1) (print_elems vs @ CHR '']'' # r) = Some (map clean_json vs, r)"
      using 5(1) 5(2) n(2) Cons by simp
    ultimately show ?thesis using 5(2) n by simp
  qed
next
  case (6 kvs)
  then obtain n' where n: "n = Suc n'" "2 * length (print_members kvs) < n'" by (cases n) auto
  show ?case
  proof (cases kvs)
    case Nil
    then show ?thesis using 6(2) n by simp
  next
    case (Cons kv kvs')
    then have "print_members kvs \<noteq> []" "hd (print_members kvs) = quote"
      by (simp_all add: quoted_def)
    then have "skip_ws (print_members kvs @ CHR ''}'' # r) = print_members kvs @ CHR ''}'' # r"
      "hd (print_members kvs @ CHR ''}'' # r) \<noteq> CHR ''}''"
      by (cases "print_members kvs"; simp)+
    moreover have "parse_members n' (d - 1) (print_members kvs @ CHR ''}'' # r) =
        Some (map (\<lambda>kv. (coerce_utf8 (fst kv), clean_json (snd kv))) kvs, r)"
      using 6(1) 6(2) n(2) Cons by simp
    ultimately show ?thesis using 6(2) n by simp
  qed
next
  case (8 v vs)
  then obtain n' where n: "n = Suc n'" by (cases n) auto
  show ?case using 8 by (cases "vs = []") (auto simp: n)
next
  case (10 kv kvs)
  then obtain n' where n: "n = Suc n'" by (cases n) auto
  show ?case using 10 by (cases "kvs = []") (auto simp: n parse_key_quoted)
qed (auto simp: parse_words [simplified] parse_number)

section \<open>The fuel is enough\<close>

text \<open>Reading consumes.\<close>

lemma unquote_shorter: "unquote s = Some (x, r) \<Longrightarrow> length r < length s"
proof (induction s arbitrary: x r rule: length_induct)
  case (1 s)
  show ?case
  proof (cases s)
    case (Cons c t)
    have step: "length r < length s" if "unquote s' = Some (y, r)" "length s' < length s" for s' y
      using 1(1) that less_trans by blast
    show ?thesis
    proof (cases t)
      case Nil
      then have "drop (snd (decode_rune (c # t))) (c # t) = []" using drop_rune_shorter [of c t] by auto
      then show ?thesis using 1(2) Cons Nil by (auto simp: unquote.simps simp del: drop_eq_Nil split: if_splits)
    next
      case t: (Cons e u)
      have "length u < length s" "length (drop n u) < length s" "length (drop m (drop n u)) < length s" for m n
        using Cons t by auto
      moreover have "length (drop (snd (decode_rune (c # t))) (c # t)) < length s" using drop_rune_shorter Cons by blast
      ultimately show ?thesis using 1(2) step unfolding Cons unquote.simps(2)
        by (auto simp: t Let_def simp del: length_drop drop_drop split: if_splits option.splits)
    qed
  qed (use 1(2) in simp)
qed

lemma digits_shorter: "digits_of s = (x, r) \<Longrightarrow> length r \<le> length s" "digits_of s = (x, r) \<Longrightarrow> x \<noteq> [] \<Longrightarrow> length r < length s"
  by (auto simp: digits_of_def length_dropWhile_le) (cases s; auto simp: le_imp_less_Suc length_dropWhile_le split: if_splits)

lemma scan_shorter:
  "scan_int s = Some (x, r) \<Longrightarrow> length r < length s"
  "scan_frac s = Some (x, r) \<Longrightarrow> length r \<le> length s"
  "scan_exp s = Some (x, r) \<Longrightarrow> length r \<le> length s"
proof -
  show "length r < length s" if "scan_int s = Some (x, r)"
    using that by (cases s) (auto simp: scan_int_def digits_of_def le_imp_less_Suc length_dropWhile_le split: if_splits)
  show "length r \<le> length s" if "scan_frac s = Some (x, r)"
    using that digits_shorter(1) [of "tl s"] by (cases s) (auto simp: scan_frac_def split: if_splits prod.splits)
  show "length r \<le> length s" if "scan_exp s = Some (x, r)"
    using that digits_shorter(1) [of "tl s"] digits_shorter(1) [of "tl (tl s)"]
    by (cases s; cases "tl s") (auto simp: scan_exp_def Let_def split: if_splits prod.splits)
qed

lemma scan_number_shorter: "scan_number s = Some (x, r) \<Longrightarrow> length r < length s"
proof -
  have u: "length r < length t" if "scan_unsigned t = Some (y, r)" for t y
    using that by (auto simp: scan_unsigned_def split: option.splits prod.splits dest!: scan_shorter)
  show "scan_number s = Some (x, r) \<Longrightarrow> length r < length s"
    by (cases s) (auto simp: scan_number_def split: if_splits dest: u)
qed

lemma skip_ws_length: "length (skip_ws s) \<le> length s"
  by (simp add: skip_ws_def length_dropWhile_le)

lemma skip_ws_Cons: "skip_ws s = c # t \<Longrightarrow> length t < length s"
  using skip_ws_length [of s] by simp

lemma parse_elems_Suc:
  assumes "parse_elems (Suc n) d s = Some (vs, r)"
  obtains v u c w where "parse_value n d s = Some (v, u)" "skip_ws u = c # w"
    "w = r \<or> (\<exists>vs'. parse_elems n d w = Some (vs', r))"
  using assms by (auto split: option.splits list.splits if_splits)

lemma parse_key_shorter: "parse_key s = Some (k, w) \<Longrightarrow> length w < length s"
proof -
  assume "parse_key s = Some (k, w)"
  then obtain q t u c where "skip_ws s = q # t" "unquote t = Some (k, u)" "skip_ws u = c # w"
    by (auto simp: parse_key_def split: list.splits option.splits if_splits)
  then show ?thesis using skip_ws_Cons unquote_shorter by (meson less_trans)
qed

lemma parse_members_Suc:
  assumes "parse_members (Suc n) d s = Some (kvs, r)"
  obtains k w v x c y where "parse_key s = Some (k, w)" "parse_value n d w = Some (v, x)" "skip_ws x = c # y"
    "y = r \<or> (\<exists>kvs'. parse_members n d y = Some (kvs', r))"
  using assms by (auto split: option.splits list.splits if_splits)

lemma parse_value_Suc:
  assumes "parse_value (Suc n) d s = Some (v, r)"
  obtains c t where "skip_ws s = c # t"
    "r = tl (skip_ws t) \<and> skip_ws t \<noteq> [] \<or> (\<exists>kvs. parse_members n (d - 1) t = Some (kvs, r)) \<or>
     (\<exists>vs. parse_elems n (d - 1) t = Some (vs, r)) \<or> (\<exists>x. unquote t = Some (x, r)) \<or>
     (\<exists>x. scan_number (c # t) = Some (x, r)) \<or> r = drop 3 t \<or> r = drop 4 t"
  using assms by (auto simp: parse_word_def split: list.splits if_splits)

lemma parse_shorter:
  "(parse_value n d s = Some (v, r) \<longrightarrow> length r < length s) \<and>
   (parse_elems n d s = Some (vs, r) \<longrightarrow> length r < length s) \<and>
   (parse_members n d s = Some (kvs, r) \<longrightarrow> length r < length s)"
proof (induction n arbitrary: d s v r vs kvs)
  case (Suc n)
  note vals = Suc [THEN conjunct1, rule_format] and elems = Suc [THEN conjunct2, THEN conjunct1, rule_format]
    and members = Suc [THEN conjunct2, THEN conjunct2, rule_format]
  have "length r < length s" if value_s: "parse_value (Suc n) d s = Some (v, r)"
  proof -
    obtain c t where t: "skip_ws s = c # t" and
      r: "r = tl (skip_ws t) \<and> skip_ws t \<noteq> [] \<or> (\<exists>kvs. parse_members n (d - 1) t = Some (kvs, r)) \<or>
         (\<exists>vs. parse_elems n (d - 1) t = Some (vs, r)) \<or> (\<exists>x. unquote t = Some (x, r)) \<or>
         (\<exists>x. scan_number (c # t) = Some (x, r)) \<or> r = drop 3 t \<or> r = drop 4 t"
      using parse_value_Suc [OF value_s] .
    have "length r \<le> length t" using r skip_ws_length [of t] elems members unquote_shorter
        scan_number_shorter [of "c # t"] by (auto simp: less_imp_le less_Suc_eq_le)
    then show ?thesis using skip_ws_Cons [OF t] by simp
  qed
  moreover have "length r < length s" if elems_s: "parse_elems (Suc n) d s = Some (vs, r)"
  proof -
    obtain v u c w where "parse_value n d s = Some (v, u)" "skip_ws u = c # w"
      "w = r \<or> (\<exists>vs'. parse_elems n d w = Some (vs', r))" using parse_elems_Suc [OF elems_s] .
    then show ?thesis using vals [of d s v u] elems [of d w] skip_ws_Cons [of u c w] by fastforce
  qed
  moreover have "length r < length s" if members_s: "parse_members (Suc n) d s = Some (kvs, r)"
  proof -
    obtain k w v x c y where p: "parse_key s = Some (k, w)" "parse_value n d w = Some (v, x)" "skip_ws x = c # y"
      "y = r \<or> (\<exists>kvs'. parse_members n d y = Some (kvs', r))" using parse_members_Suc [OF members_s] .
    have "length y < length s"
      using parse_key_shorter [OF p(1)] vals [OF p(2)] skip_ws_Cons [OF p(3)] by linarith
    then show ?thesis using p(4) members [of d y] by fastforce
  qed
  ultimately show ?case by blast
qed simp

lemma parse_fuel_step:
  "(2 * length s \<le> n \<and> 2 * length s \<le> m \<longrightarrow> parse_value n d s = parse_value m d s) \<and>
   (2 * length s < n \<and> 2 * length s < m \<longrightarrow> parse_elems n d s = parse_elems m d s) \<and>
   (2 * length s < n \<and> 2 * length s < m \<longrightarrow> parse_members n d s = parse_members m d s)"
proof (induction n arbitrary: m d s)
  case 0
  then show ?case by (cases m) (auto simp: skip_ws_def)
next
  case (Suc n)
  note vals = Suc [THEN conjunct1, rule_format] and elems = Suc [THEN conjunct2, THEN conjunct1, rule_format]
    and members = Suc [THEN conjunct2, THEN conjunct2, rule_format]
  have "parse_value (Suc n) d s = parse_value m d s" if le: "2 * length s \<le> Suc n" "2 * length s \<le> m"
  proof (cases "skip_ws s")
    case Nil
    then show ?thesis by (cases m) auto
  next
    case (Cons c t)
    have t: "length t < length s" using skip_ws_Cons [OF Cons] .
    then obtain m' where m: "m = Suc m'" using le by (cases m) auto
    have "parse_elems n (d - 1) t = parse_elems m' (d - 1) t" "parse_members n (d - 1) t = parse_members m' (d - 1) t"
      using elems members le m t by simp_all
    then show ?thesis using Cons m by simp
  qed
  moreover have "parse_elems (Suc n) d s = parse_elems m d s" if le: "2 * length s < Suc n" "2 * length s < m"
  proof -
    obtain m' where m: "m = Suc m'" using le by (cases m) auto
    have v: "parse_value n d s = parse_value m' d s" using vals le m by simp
    show ?thesis
    proof (cases "parse_value m' d s")
      case (Some vu)
      obtain x u where x: "vu = (x, u)" by (cases vu)
      have "length u < length s" using parse_shorter Some x by blast
      then have "parse_elems n d w = parse_elems m' d w" if "skip_ws u = c # w" for c w
        using skip_ws_Cons [OF that] elems le m by simp
      then show ?thesis using Some m v x by (auto split: list.split)
    qed (simp add: m v)
  qed
  moreover have "parse_members (Suc n) d s = parse_members m d s" if le: "2 * length s < Suc n" "2 * length s < m"
  proof -
    obtain m' where m: "m = Suc m'" using le by (cases m) auto
    show ?thesis
    proof (cases "parse_key s")
      case (Some kw)
      obtain k w where w: "kw = (k, w)" by (cases kw)
      have len: "length w < length s" using parse_key_shorter Some w by blast
      then have v: "parse_value n d w = parse_value m' d w" using vals le m by simp
      show ?thesis
      proof (cases "parse_value m' d w")
        case vx: (Some vx)
        obtain x r where x: "vx = (x, r)" by (cases vx)
        have "length r < length w" using parse_shorter vx x by blast
        then have "parse_members n d y = parse_members m' d y" if "skip_ws r = c # y" for c y
          using skip_ws_Cons [OF that] len members le m by simp
        then show ?thesis using Some w vx x m v by (auto split: list.split)
      qed (simp add: Some w m v)
    qed (simp add: m)
  qed
  ultimately show ?case by blast
qed

lemma parse_fuel: "2 * length s \<le> n \<Longrightarrow> parse_value n d s = parse_value (2 * length s) d s"
  using parse_fuel_step by blast

section \<open>Round trip\<close>

lemma parse_print_json: "json_fits max_nesting_depth j \<Longrightarrow> parse_json (print_json j) = Some (clean_json j)"
  using parse_print(1) [of max_nesting_depth j "[]" "2 * length (print_json j)"] by (simp add: parse_json_def)

text \<open>A value whose strings are all valid UTF-8 is read back unchanged.\<close>

fun json_utf8 :: "json \<Rightarrow> bool" where
  "json_utf8 (J_Str s) = valid_utf8 s"
| "json_utf8 (J_Arr vs) = (\<forall>v\<in>set vs. json_utf8 v)"
| "json_utf8 (J_Obj kvs) = (\<forall>kv\<in>set kvs. valid_utf8 (fst kv) \<and> json_utf8 (snd kv))"
| "json_utf8 _ = True"

lemma clean_utf8: "json_utf8 j \<Longrightarrow> clean_json j = j"
  by (induction j rule: clean_json.induct) (auto simp: valid_utf8_def intro!: map_idI)

text \<open>What is printed has no control characters, so it is one line.\<close>

lemma byte_Char: "byte (Char b0 b1 b2 b3 b4 b5 b6 b7) = of_char (Char b0 b1 b2 b3 b4 b5 b6 b7)"
  by (simp add: byte_def)

definition no_control :: "string \<Rightarrow> bool" where
  "no_control s \<longleftrightarrow> (\<forall>c\<in>set s. 32 \<le> byte c)"

lemma no_control_app [simp]: "no_control [] " "no_control (c # s) \<longleftrightarrow> 32 \<le> byte c \<and> no_control s"
  "no_control (s @ t) \<longleftrightarrow> no_control s \<and> no_control t"
  by (auto simp: no_control_def)

lemma no_control_hex: "n < 16 \<Longrightarrow> 32 \<le> byte (hex_digit n)"
  by (simp add: hex_digit_def)

lemma no_control_encode: "128 \<le> r \<Longrightarrow> no_control (encode_rune r)"
proof -
  have b: "32 \<le> byte (char_of (128 + n :: nat))" if "n < 128" for n using that by simp
  assume "128 \<le> r"
  define r' where "r' = (if valid_rune r then r else rune_error)"
  have r: "128 \<le> r'" "r' < 1114112" using \<open>128 \<le> r\<close> by (auto simp: r'_def valid_rune_def)
  have "r' div 64 < 32" if "r' < 2048" using that by auto
  moreover have "r' div 4096 < 16" if "r' < 65536" using that by auto
  moreover have "r' div 262144 < 5" using r by auto
  ultimately show ?thesis unfolding encode_rune_def r'_def [symmetric] Let_def using r by simp
qed

lemma no_control_escape: "no_control (escape_string s)"
proof (induction s rule: escape_string.induct)
  case (2 c t)
  obtain r w where d: "decode_rune (c # t) = (r, w)" by (cases "decode_rune (c # t)")
  have e: "no_control (escape_byte b)" if "b < 128" for b
    using that by (auto simp: escape_byte_def no_control_hex byte_Char)
  show ?case
  proof (cases "byte c < 128")
    case True
    then show ?thesis using 2(1) e [OF True] by (subst escape_string.simps) (simp add: html_safe_def)
  next
    case False
    then have "128 \<le> r" using decode_high [of c t] d by simp
    then have "no_control (take w (c # t))" if "\<not> (r = rune_error \<and> w = 1)"
      using decode_takes [OF d that] no_control_encode by simp
    moreover have "no_control (bslash # ''ufffd'')" "no_control (bslash # ''u202'' @ [hex_digit (r mod 16)])"
      by (simp_all add: no_control_hex byte_Char)
    ultimately show ?thesis using 2(2) [OF False d [symmetric]] False d
      by (subst escape_string.simps) (simp split: if_splits)
  qed
qed simp

lemma digit_control: "is_digit_char c \<Longrightarrow> 32 \<le> byte c"
  by (simp add: is_digit_char_def)

lemma digits_control: "no_control (takeWhile is_digit_char s)"
  by (induction s) (auto simp: is_digit_char_def)

lemma no_control_number: "num_ok n \<Longrightarrow> no_control n"
proof -
  have i: "no_control x" if "scan_int s = Some (x, r)" for s x r
    using that digits_control by (cases s) (auto simp: scan_int_def digits_of_def byte_Char digit_control split: if_splits)
  have f: "no_control x" if "scan_frac s = Some (x, r)" for s x r
    using that digits_control by (cases s) (auto simp: scan_frac_def digits_of_def byte_Char split: if_splits)
  have e: "no_control x" if "scan_exp s = Some (x, r)" for s x r
    using that digits_control
    by (cases s; cases "tl s") (auto simp: scan_exp_def digits_of_def byte_Char Let_def digit_control split: if_splits)
  have u: "no_control x" if "scan_unsigned s = Some (x, r)" for s x r
    using that by (auto simp: scan_unsigned_def split: option.splits prod.splits dest: i f e)
  assume n: "num_ok n"
  show ?thesis
  proof (cases n)
    case (Cons c t)
    then show ?thesis using n u [of t t] u [of n n "[]"]
      by (auto simp: num_ok_def scan_number_def byte_Char split: if_splits dest: u)
  qed simp
qed

lemma no_control_print:
  "json_fits d j \<Longrightarrow> no_control (print_json j)"
  "\<forall>v\<in>set vs. json_fits d v \<Longrightarrow> no_control (print_elems vs)"
  "\<forall>kv\<in>set kvs. json_fits d (snd kv) \<Longrightarrow> no_control (print_members kvs)"
proof (induction j and vs and kvs arbitrary: d and d and d rule: print_json_print_elems_print_members.induct)
  case (5 vs)
  then show ?case using 5(1) [of "d - 1"] by (simp add: byte_Char)
next
  case (6 kvs)
  then show ?case using 6(1) [of "d - 1"] by (simp add: byte_Char)
next
  case (8 v vs)
  then show ?case using 8(1) [of d] 8(2) [of d] by (auto simp: byte_Char)
next
  case (10 kv kvs)
  then show ?case using 10(1) [of d] 10(2) [of d] by (auto simp: byte_Char quoted_def no_control_escape)
qed (auto simp: no_control_number quoted_def no_control_escape byte_Char)

section \<open>A cut object is not JSON\<close>

text \<open>What was read of a text is read of every longer text.\<close>

lemma unquote_conts: "\<forall>x\<in>set u. 128 \<le> byte x \<Longrightarrow> unquote u = None"
proof (induction u rule: length_induct)
  case (1 u)
  show ?case
  proof (cases u)
    case (Cons c t)
    let ?d = "drop (snd (decode_rune (c # t))) (c # t)"
    have "set ?d \<subseteq> set u" "length ?d < length u" unfolding Cons by (rule set_drop_subset, rule drop_rune_shorter)
    then have "unquote ?d = None" using 1 by blast
    moreover have "c \<noteq> quote" "c \<noteq> bslash" "\<not> byte c < 32" "\<not> byte c < 128" using 1(2) Cons by auto
    ultimately show ?thesis using Cons by (simp add: unquote.simps)
  qed simp
qed

lemma decode_rune_app:
  assumes "decode_rune (c # u @ t) \<noteq> decode_rune (c # u)"
  shows "decode_rune (c # u) = (rune_error, 1) \<and> (\<forall>x\<in>set u. 128 \<le> byte x)"
proof (cases "3 \<le> length u")
  case True
  then show ?thesis using assms by (simp add: decode_rune_def)
next
  case False
  then consider "u = []" | a where "u = [a]" | a b where "u = [a, b]"
    by (cases u; cases "tl u"; cases "tl (tl u)") auto
  then show ?thesis
    by cases (use assms in \<open>auto simp: decode_rune_def is_cont_def split: if_splits list.splits\<close>)
qed

lemma getu4_app_long: "6 \<le> length s \<Longrightarrow> getu4 (s @ t) = getu4 s"
  by (cases s; cases "tl s"; cases "tl (tl s)"; cases "tl (tl (tl s))"; cases "tl (tl (tl (tl s)))";
      cases "tl (tl (tl (tl (tl s))))") (auto simp: getu4_def)

lemma getu4_app: "getu4 (s @ t) \<noteq> getu4 s \<Longrightarrow> unquote s = None"
proof (cases "6 \<le> length s")
  case True
  moreover assume "getu4 (s @ t) \<noteq> getu4 s"
  ultimately show ?thesis using getu4_app_long by blast
next
  case False
  moreover assume d: "getu4 (s @ t) \<noteq> getu4 s"
  ultimately have "getu4 s = None"
    by (auto simp: getu4_def numeral_eq_Suc split: list.splits)
  then have "getu4 (s @ t) \<noteq> None" using d by simp
  then have "s = [] \<or> s = [bslash] \<or> (\<exists>u. s = bslash # CHR ''u'' # u)"
    by (cases s; cases "tl s") (auto simp: getu4_def split: list.splits if_splits)
  then show ?thesis using \<open>getu4 s = None\<close> by (auto simp: unquote.simps)
qed

lemma getu4_length: "getu4 s \<noteq> None \<Longrightarrow> 6 \<le> length s"
  by (auto simp: getu4_def split: list.splits)

lemma unquote_app: "unquote s = Some (x, r) \<Longrightarrow> unquote (s @ t) = Some (x, r @ t)"
proof (induction s arbitrary: x r rule: length_induct)
  case (1 s)
  have IH: "unquote (s' @ t) = Some (y, q @ t)" if "unquote s' = Some (y, q)" "length s' < length s" for s' y q
    using 1(1) that by blast
  show ?case
  proof (cases s)
    case (Cons c u)
    consider "c = quote" | "c = bslash" | "c \<noteq> quote" "c \<noteq> bslash" "byte c < 128" | "c \<noteq> quote" "c \<noteq> bslash" "128 \<le> byte c"
      by linarith
    then show ?thesis
    proof cases
      case 2
      then obtain e w where u: "u = e # w" using 1(2) Cons by (auto simp: unquote.simps split: list.splits)
      have g: "getu4 (c # u @ t) = getu4 (c # u)" using getu4_app [of s t] 1(2) Cons by auto
      show ?thesis
      proof (cases "e = CHR ''u''")
        case False
        then show ?thesis using 1(2) 2 Cons u IH [of w] by (auto simp: unquote.simps split: option.splits)
      next
        case True
        obtain v where v: "getu4 (c # u) = Some v"
          using 1(2) 2 Cons u True by (auto simp: unquote.simps split: option.splits)
        then have w: "4 \<le> length w" using u by (auto simp: getu4_def split: list.splits)
        then have dr: "drop 4 (w @ t) = drop 4 w @ t" by simp
        have l: "length (drop 4 w) < length s" "length (drop 6 (drop 4 w)) < length s" using Cons u by auto
        show ?thesis
        proof (cases "is_surrogate v")
          case False
          then show ?thesis using 1(2) 2 Cons u True v g IH [OF _ l(1)] dr
            by (auto simp: unquote.simps simp del: drop_append drop_drop)
        next
          case surr: True
          have some: "unquote (drop 4 w) \<noteq> None \<or> Option.bind (getu4 (drop 4 w)) (surrogate_pair v) \<noteq> None"
            using 1(2) 2 Cons u True v surr by (auto simp: unquote.simps)
          have g2: "getu4 (drop 4 w @ t) = getu4 (drop 4 w) \<and> (getu4 (drop 4 w) \<noteq> None \<longrightarrow> drop 6 (drop 4 w @ t) = drop 6 (drop 4 w) @ t)"
          proof (cases "getu4 (drop 4 w)")
            case None
            then show ?thesis using some getu4_app [of "drop 4 w" t] by (cases "getu4 (drop 4 w @ t)") auto
          next
            case (Some y)
            then have "6 \<le> length (drop 4 w)" using getu4_length [of "drop 4 w"] by simp
            moreover from this have "getu4 (drop 4 w @ t) = getu4 (drop 4 w)" by (rule getu4_app_long)
            ultimately show ?thesis by simp
          qed
          show ?thesis using 1(2) 2 Cons u True v g surr g2 IH [OF _ l(1)] IH [OF _ l(2)] dr
            by (cases "getu4 (drop 4 w)") (auto simp: unquote.simps Let_def simp del: drop_append drop_drop split: option.splits)
        qed
      qed
    next
      case 4
      let ?d = "drop (snd (decode_rune (c # u))) (c # u)"
      have e: "unquote s = put (encode_rune (fst (decode_rune (c # u)))) (unquote ?d)"
        using 4 Cons by (simp add: unquote.simps)
      have same: "decode_rune (c # u @ t) = decode_rune (c # u)"
      proof (rule ccontr)
        assume "\<not> ?thesis"
        from decode_rune_app [OF this] have "unquote ?d = None" using unquote_conts by simp
        then show False using e 1(2) by simp
      qed
      have ne: "?d \<noteq> []" using e 1(2) by (metis map_option_is_None option.distinct(1) unquote.simps(1))
      then have "drop (snd (decode_rune (c # u))) (c # u @ t) = ?d @ t"
        using drop_append [of "snd (decode_rune (c # u))" "c # u" t] by simp
      then show ?thesis using e 1(2) 4 Cons same IH [of ?d] drop_rune_shorter [of c u]
        by (auto simp: unquote.simps simp del: drop_append)
    qed (use 1(2) Cons IH [of u] in \<open>auto simp: unquote.simps split: if_splits\<close>)
  qed (use 1(2) in simp)
qed

lemma digits_app_rest: "dropWhile is_digit_char s \<noteq> [] \<Longrightarrow> digits_of (s @ t) = (fst (digits_of s), snd (digits_of s) @ t)"
  by (induction s) (auto simp: digits_of_def)

lemma scan_app_rest:
  "scan_int s = Some (x, r) \<Longrightarrow> r \<noteq> [] \<Longrightarrow> scan_int (s @ t) = Some (x, r @ t)"
  "scan_frac s = Some (x, r) \<Longrightarrow> r \<noteq> [] \<Longrightarrow> scan_frac (s @ t) = Some (x, r @ t)"
  "scan_exp s = Some (x, r) \<Longrightarrow> r \<noteq> [] \<Longrightarrow> scan_exp (s @ t) = Some (x, r @ t)"
proof -
  show "scan_int (s @ t) = Some (x, r @ t)" if "scan_int s = Some (x, r)" "r \<noteq> []"
    using that digits_app_rest [of s t]
    by (cases s) (auto simp: scan_int_def digits_of_def split: if_splits)
  show "scan_frac (s @ t) = Some (x, r @ t)" if "scan_frac s = Some (x, r)" "r \<noteq> []"
    using that digits_app_rest [of "tl s" t]
    by (cases s) (auto simp: scan_frac_def digits_of_def split: if_splits)
  show "scan_exp (s @ t) = Some (x, r @ t)" if "scan_exp s = Some (x, r)" "r \<noteq> []"
    using that digits_app_rest [of "tl s" t] digits_app_rest [of "tl (tl s)" t]
    by (cases s; cases "tl s") (auto simp: scan_exp_def digits_of_def Let_def split: if_splits)
qed

lemma scan_number_app_rest:
  assumes "scan_number s = Some (x, r)" "r \<noteq> []"
  shows "scan_number (s @ t) = Some (x, r @ t)"
proof -
  have u: "scan_unsigned (s @ t) = Some (y, r @ t)" if s: "scan_unsigned s = Some (y, r)" for s y
  proof -
    obtain i f e v w where p: "scan_int s = Some (i, v)" "scan_frac v = Some (f, w)" "scan_exp w = Some (e, r)"
        "y = i @ f @ e"
      using s by (auto simp: scan_unsigned_def split: option.splits prod.splits)
    moreover have "w \<noteq> []" "v \<noteq> []" using p assms(2) scan_shorter(2) [of v f w] by (auto simp: scan_exp_def scan_frac_def)
    ultimately show ?thesis using scan_app_rest assms(2) by (simp add: scan_unsigned_def)
  qed
  show ?thesis using assms u [of s x] u [of "tl s" "tl x"] by (cases s) (auto simp: scan_number_def split: if_splits)
qed

lemma parse_blank:
  assumes "skip_ws u = []"
  shows "parse_value n d u = None" "parse_elems n d u = None" "parse_members n d u = None"
proof -
  show v: "parse_value n d u = None" for n using assms by (cases n) auto
  show "parse_elems n d u = None" "parse_members n d u = None"
    using assms v by (cases n; auto simp: parse_key_def)+
qed

lemma skip_ws_app: "skip_ws s = c # u \<Longrightarrow> skip_ws (s @ t) = c # u @ t"
  by (induction s) (auto simp: skip_ws_def split: if_splits)

lemma parse_key_app: "parse_key s = Some (k, w) \<Longrightarrow> parse_key (s @ t) = Some (k, w @ t)"
proof -
  assume k: "parse_key s = Some (k, w)"
  then obtain t' u where p: "skip_ws s = quote # t'" "unquote t' = Some (k, u)" "skip_ws u = CHR '':'' # w"
    by (auto simp: parse_key_def split: list.splits option.splits if_splits)
  show ?thesis using skip_ws_app [OF p(1)] unquote_app [OF p(2)] skip_ws_app [OF p(3)] by (simp add: parse_key_def)
qed

definition is_num :: "json \<Rightarrow> bool" where "is_num v \<longleftrightarrow> (\<exists>n. v = J_Num n)"

lemma parse_word_app: "parse_word s = Some (v, r) \<Longrightarrow> parse_word (s @ t) = Some (v, r @ t)"
proof -
  assume w: "parse_word s = Some (v, r)"
  consider "prefix ''true'' s" | "prefix ''false'' s" | "prefix ''null'' s"
    using w by (auto simp: parse_word_def split: if_splits)
  then show ?thesis
  proof cases
    case 1
    then obtain u where "s = ''true'' @ u" by (auto elim: prefixE)
    then show ?thesis using w by (simp add: parse_word_def)
  next
    case 2
    then obtain u where "s = ''false'' @ u" by (auto elim: prefixE)
    then show ?thesis using w by (simp add: parse_word_def)
  next
    case 3
    then obtain u where "s = ''null'' @ u" by (auto elim: prefixE)
    then show ?thesis using w by (simp add: parse_word_def)
  qed
qed

lemma parse_app:
  "(parse_value n d s = Some (v, r) \<longrightarrow> r \<noteq> [] \<or> \<not> is_num v \<longrightarrow> parse_value n d (s @ t) = Some (v, r @ t)) \<and>
   (parse_elems n d s = Some (vs, r) \<longrightarrow> parse_elems n d (s @ t) = Some (vs, r @ t)) \<and>
   (parse_members n d s = Some (kvs, r) \<longrightarrow> parse_members n d (s @ t) = Some (kvs, r @ t))"
proof (induction n arbitrary: d s v r vs kvs)
  case (Suc n)
  note vals = Suc [THEN conjunct1, rule_format] and elems = Suc [THEN conjunct2, THEN conjunct1, rule_format]
    and members = Suc [THEN conjunct2, THEN conjunct2, rule_format]
  have "parse_value (Suc n) d (s @ t) = Some (v, r @ t)"
    if p: "parse_value (Suc n) d s = Some (v, r)" "r \<noteq> [] \<or> \<not> is_num v"
  proof -
    obtain c u where u: "skip_ws s = c # u" using p(1) by (auto split: list.splits)
    note su = skip_ws_app [OF u, of t]
    consider "c \<in> set ''{[''" | "c = quote" | "c \<notin> set ''{[''" "c \<noteq> quote" "c = CHR ''-'' \<or> is_digit_char c"
      | "c \<notin> set ''{[''" "c \<noteq> quote" "c \<noteq> CHR ''-''" "\<not> is_digit_char c" by blast
    then show ?thesis
    proof cases
      case 1
      show ?thesis
      proof (cases "skip_ws u")
        case Nil
        then show ?thesis using p(1) u 1 by (auto simp: parse_blank split: if_splits)
      next
        case (Cons e w)
        then show ?thesis using p(1) u su 1 skip_ws_app [OF Cons, of t] elems members
          by (auto split: if_splits)
      qed
    next
      case 2
      then show ?thesis using p(1) u su unquote_app by auto
    next
      case 3
      then have "scan_number (c # u) = Some (x, r) \<Longrightarrow> r \<noteq> [] \<Longrightarrow> scan_number (c # u @ t) = Some (x, r @ t)" for x
        using scan_number_app_rest [of "c # u" x r t] by simp
      then show ?thesis using p u su 3 by (auto simp: is_num_def)
    next
      case 4
      then show ?thesis using p(1) u su parse_word_app [of "c # u" v r t]
        by auto
    qed
  qed
  moreover have "parse_elems (Suc n) d (s @ t) = Some (vs, r @ t)" if p: "parse_elems (Suc n) d s = Some (vs, r)"
  proof -
    obtain v u where v: "parse_value n d s = Some (v, u)" using p by (auto split: option.splits)
    then obtain c w where c: "skip_ws u = c # w" using p by (auto split: list.splits)
    then have "u \<noteq> []" by auto
    then show ?thesis using p v c vals [OF v] skip_ws_app [OF c, of t] elems [of d w] by (auto split: if_splits)
  qed
  moreover have "parse_members (Suc n) d (s @ t) = Some (kvs, r @ t)" if p: "parse_members (Suc n) d s = Some (kvs, r)"
  proof -
    obtain k w where k: "parse_key s = Some (k, w)" using p by (auto split: option.splits)
    then obtain v u where v: "parse_value n d w = Some (v, u)" using p by (auto split: option.splits)
    then obtain c y where c: "skip_ws u = c # y" using p k by (auto split: list.splits)
    then have "u \<noteq> []" by auto
    then show ?thesis using p k v c parse_key_app [OF k, of t] vals [OF v] skip_ws_app [OF c, of t] members [of d y]
      by (auto split: if_splits)
  qed
  ultimately show ?case by blast
qed simp

lemma cut_object_not_json:
  assumes "json_fits max_nesting_depth (J_Obj kvs)" "print_json (J_Obj kvs) = p @ t" "t \<noteq> []"
  shows "parse_json p = None"
proof (rule ccontr)
  assume "parse_json p \<noteq> None"
  then obtain v r where v: "parse_value (2 * length p) max_nesting_depth p = Some (v, r)"
    by (auto simp: parse_json_def split: option.splits)
  then obtain u where u: "p = CHR ''{'' # u" using assms(2) by (cases p) (auto simp: skip_ws_def)
  then have "\<not> is_num v" using v by (auto simp: skip_ws_def is_json_space_def is_num_def split: if_splits)
  moreover have "parse_value (2 * length (p @ t)) max_nesting_depth p = Some (v, r)"
    using v parse_fuel [of p "2 * length (p @ t)"] by simp
  ultimately have "parse_value (2 * length (p @ t)) max_nesting_depth (p @ t) = Some (v, r @ t)"
    using parse_app by blast
  moreover have "parse_value (2 * length (p @ t)) max_nesting_depth (p @ t) = Some (clean_json (J_Obj kvs), [])"
    using parse_print(1) [OF assms(1), of "[]" "2 * length (p @ t)"] assms(2) by (simp only: append_Nil2 order_refl simp_thms ends_value_simps)
  ultimately show False using assms(3) by simp
qed

end
