(* ===== verification/Message_Json.thy ===== *)
theory Message_Json
  imports Jsonl_Store Json_Roundtrip
begin

text \<open>
  The messages of a session as \<open>json.Marshal\<close> and \<open>json.Unmarshal\<close> write and read them, by the tags of
  \<open>pkg/providers/protocoltypes/types.go\<close>, and the session store of \<open>pkg/memory/jsonl.go\<close> with that codec: a message
  of valid UTF-8 is read back, and a line cut anywhere is not a message.
\<close>

section \<open>Structs and their fields\<close>

text \<open>A field tagged \<open>omitempty\<close>.\<close>

definition omit :: "bool \<Rightarrow> string \<Rightarrow> json \<Rightarrow> (string \<times> json) list" where
  "omit zero k v = (if zero then [] else [(k, v)])"

text \<open>
  The value of a field: keys are matched without regard to case, unknown keys are ignored, \<open>null\<close> leaves a field as
  it is.  Of keys given twice the last is taken (encoding/json merges the structs of such keys; the program never
  writes one twice).
\<close>

definition jfield :: "(string \<times> json) list \<Rightarrow> string \<Rightarrow> json" where
  "jfield kvs name = (case filter (\<lambda>kv. equal_fold (fst kv) name) kvs of [] \<Rightarrow> J_Null | ms \<Rightarrow> snd (last ms))"

text \<open>\<open>None\<close> is an \<open>UnmarshalTypeError\<close>.\<close>

definition dec_string :: "json \<Rightarrow> string option" where
  "dec_string j = (case j of J_Null \<Rightarrow> Some [] | J_Str s \<Rightarrow> Some s | _ \<Rightarrow> None)"

definition dec_list :: "(json \<Rightarrow> 'a option) \<Rightarrow> json \<Rightarrow> 'a list option" where
  "dec_list f j = (case j of J_Null \<Rightarrow> Some [] | J_Arr vs \<Rightarrow> those (map f vs) | _ \<Rightarrow> None)"

definition dec_pointer :: "(json \<Rightarrow> 'a option) \<Rightarrow> json \<Rightarrow> 'a option option" where
  "dec_pointer f j = (case j of J_Null \<Rightarrow> Some None | _ \<Rightarrow> map_option Some (f j))"

definition dec_struct :: "((string \<times> json) list \<Rightarrow> 'a option) \<Rightarrow> json \<Rightarrow> 'a option" where
  "dec_struct f j = (case j of J_Null \<Rightarrow> f [] | J_Obj kvs \<Rightarrow> f kvs | _ \<Rightarrow> None)"

section \<open>Messages\<close>

definition function_call_json :: "function_call \<Rightarrow> json" where
  "function_call_json f = J_Obj ([(''name'', J_Str (fc_name f)), (''arguments'', J_Str (fc_arguments f))] @
     omit (fc_thought_signature f = []) ''thought_signature'' (J_Str (fc_thought_signature f)))"

definition google_extra_json :: "google_extra \<Rightarrow> json" where
  "google_extra_json g =
    J_Obj (omit (ge_thought_signature g = []) ''thought_signature'' (J_Str (ge_thought_signature g)))"

definition extra_content_json :: "extra_content \<Rightarrow> json" where
  "extra_content_json e = J_Obj (case ec_google e of None \<Rightarrow> [] | Some g \<Rightarrow> [(''google'', google_extra_json g)])"

definition tool_call_json :: "tool_call \<Rightarrow> json" where
  "tool_call_json tc = J_Obj ([(''id'', J_Str (tc_id tc))] @ omit (tc_type tc = []) ''type'' (J_Str (tc_type tc)) @
     (case tc_function tc of None \<Rightarrow> [] | Some f \<Rightarrow> [(''function'', function_call_json f)]) @
     (case tc_extra_content tc of None \<Rightarrow> [] | Some e \<Rightarrow> [(''extra_content'', extra_content_json e)]))"

definition content_block_json :: "content_block \<Rightarrow> json" where
  "content_block_json b = J_Obj ([(''type'', J_Str (cb_type b)), (''text'', J_Str (cb_text b))] @
     (case cb_cache_control b of None \<Rightarrow> [] | Some t \<Rightarrow> [(''cache_control'', J_Obj [(''type'', J_Str t)])]))"

definition message_json :: "message \<Rightarrow> json" where
  "message_json m = J_Obj ([(''role'', J_Str (msg_role m)), (''content'', J_Str (msg_content m))] @
     omit (msg_media m = []) ''media'' (J_Arr (map J_Str (msg_media m))) @
     omit (msg_reasoning m = []) ''reasoning_content'' (J_Str (msg_reasoning m)) @
     omit (msg_system_parts m = []) ''system_parts'' (J_Arr (map content_block_json (msg_system_parts m))) @
     omit (msg_tool_calls m = []) ''tool_calls'' (J_Arr (map tool_call_json (msg_tool_calls m))) @
     omit (msg_tool_call_id m = []) ''tool_call_id'' (J_Str (msg_tool_call_id m)))"

definition marshal_message :: "message \<Rightarrow> string" where
  "marshal_message m = print_json (message_json m)"

definition json_function_call :: "json \<Rightarrow> function_call option" where
  "json_function_call = dec_struct (\<lambda>kvs.
     case (dec_string (jfield kvs ''name''), dec_string (jfield kvs ''arguments''),
           dec_string (jfield kvs ''thought_signature'')) of
       (Some n, Some a, Some t) \<Rightarrow> Some \<lparr>fc_name = n, fc_arguments = a, fc_thought_signature = t\<rparr>
     | _ \<Rightarrow> None)"

definition json_google_extra :: "json \<Rightarrow> google_extra option" where
  "json_google_extra = dec_struct (\<lambda>kvs.
     map_option (\<lambda>t. \<lparr>ge_thought_signature = t\<rparr>) (dec_string (jfield kvs ''thought_signature'')))"

definition json_extra_content :: "json \<Rightarrow> extra_content option" where
  "json_extra_content = dec_struct (\<lambda>kvs.
     map_option (\<lambda>g. \<lparr>ec_google = g\<rparr>) (dec_pointer json_google_extra (jfield kvs ''google'')))"

definition json_tool_call :: "json \<Rightarrow> tool_call option" where
  "json_tool_call = dec_struct (\<lambda>kvs.
     case (dec_string (jfield kvs ''id''), dec_string (jfield kvs ''type''),
           dec_pointer json_function_call (jfield kvs ''function''),
           dec_pointer json_extra_content (jfield kvs ''extra_content'')) of
       (Some i, Some t, Some f, Some e) \<Rightarrow>
         Some \<lparr>tc_id = i, tc_type = t, tc_function = f, tc_name = [], tc_arguments = None,
           tc_thought_signature = [], tc_extra_content = e\<rparr>
     | _ \<Rightarrow> None)"

definition json_cache_control :: "json \<Rightarrow> string option" where
  "json_cache_control = dec_struct (\<lambda>kvs. dec_string (jfield kvs ''type''))"

definition json_content_block :: "json \<Rightarrow> content_block option" where
  "json_content_block = dec_struct (\<lambda>kvs.
     case (dec_string (jfield kvs ''type''), dec_string (jfield kvs ''text''),
           dec_pointer json_cache_control (jfield kvs ''cache_control'')) of
       (Some t, Some x, Some c) \<Rightarrow> Some \<lparr>cb_type = t, cb_text = x, cb_cache_control = c\<rparr>
     | _ \<Rightarrow> None)"

definition json_message :: "json \<Rightarrow> message option" where
  "json_message = dec_struct (\<lambda>kvs.
     case (dec_string (jfield kvs ''role''), dec_string (jfield kvs ''content''),
           dec_list dec_string (jfield kvs ''media''), dec_string (jfield kvs ''reasoning_content''),
           dec_list json_content_block (jfield kvs ''system_parts''),
           dec_list json_tool_call (jfield kvs ''tool_calls''), dec_string (jfield kvs ''tool_call_id'')) of
       (Some r, Some c, Some me, Some rc, Some sp, Some tcs, Some i) \<Rightarrow>
         Some \<lparr>msg_role = r, msg_content = c, msg_media = me, msg_reasoning = rc, msg_system_parts = sp,
           msg_tool_calls = tcs, msg_tool_call_id = i\<rparr>
     | _ \<Rightarrow> None)"

definition unmarshal_message :: "string \<Rightarrow> message option" where
  "unmarshal_message s = Option.bind (parse_json s) json_message"

section \<open>Fields are found again\<close>

definition has_key :: "(string \<times> json) list \<Rightarrow> string \<Rightarrow> bool" where
  "has_key kvs n \<longleftrightarrow> (\<exists>kv\<in>set kvs. equal_fold (fst kv) n)"

lemma has_key_simps [simp]:
  "\<not> has_key [] n" "has_key (kv # kvs) n \<longleftrightarrow> equal_fold (fst kv) n \<or> has_key kvs n"
  "has_key (xs @ ys) n \<longleftrightarrow> has_key xs n \<or> has_key ys n" "has_key (omit e k v) n \<longleftrightarrow> \<not> e \<and> equal_fold k n"
  by (auto simp: has_key_def omit_def)

lemma jfield_last:
  "jfield kvs n = (if has_key kvs n then snd (last (filter (\<lambda>kv. equal_fold (fst kv) n) kvs)) else J_Null)"
  unfolding jfield_def has_key_def by (cases "filter (\<lambda>kv. equal_fold (fst kv) n) kvs") (auto simp: filter_empty_conv dest: filter_eq_ConsD)

lemma jfield_app [simp]: "jfield (xs @ ys) n = (if has_key ys n then jfield ys n else jfield xs n)"
proof (cases "has_key ys n")
  case True
  then have "filter (\<lambda>kv. equal_fold (fst kv) n) ys \<noteq> []" by (auto simp: has_key_def filter_empty_conv)
  with True show ?thesis by (simp add: jfield_last)
next
  case False
  then have "filter (\<lambda>kv. equal_fold (fst kv) n) ys = []" by (auto simp: has_key_def filter_empty_conv)
  with False show ?thesis by (simp add: jfield_last)
qed

lemma jfield_simps [simp]:
  "jfield [] n = J_Null" "jfield (omit e k v) n = (if \<not> e \<and> equal_fold k n then v else J_Null)"
  "jfield [kv] n = (if equal_fold (fst kv) n then snd kv else J_Null)"
  by (simp_all add: jfield_def omit_def)

lemma jfield_Cons [simp]:
  "jfield (kv # kvs) n = (if has_key kvs n then jfield kvs n else if equal_fold (fst kv) n then snd kv else J_Null)"
  using jfield_app [of "[kv]" kvs n] by (simp del: jfield_app)

text \<open>The names of the fields are in lower case, so they fold to themselves.\<close>

lemma field_names:
  "to_lower ''name'' = ''name''" "to_lower ''arguments'' = ''arguments''"
  "to_lower ''thought_signature'' = ''thought_signature''" "to_lower ''google'' = ''google''"
  "to_lower ''id'' = ''id''" "to_lower ''type'' = ''type''" "to_lower ''function'' = ''function''"
  "to_lower ''extra_content'' = ''extra_content''" "to_lower ''text'' = ''text''"
  "to_lower ''cache_control'' = ''cache_control''" "to_lower ''role'' = ''role''"
  "to_lower ''content'' = ''content''" "to_lower ''media'' = ''media''"
  "to_lower ''reasoning_content'' = ''reasoning_content''" "to_lower ''system_parts'' = ''system_parts''"
  "to_lower ''tool_calls'' = ''tool_calls''" "to_lower ''tool_call_id'' = ''tool_call_id''"
  by code_simp+

lemma dec_simps [simp]:
  "dec_string J_Null = Some []" "dec_string (J_Str s) = Some s"
  "dec_list f J_Null = Some []" "dec_list f (J_Arr vs) = those (map f vs)"
  "dec_pointer f J_Null = Some None" "dec_pointer f (J_Obj kvs) = map_option Some (f (J_Obj kvs))"
  "dec_struct g J_Null = g []" "dec_struct g (J_Obj kvs) = g kvs"
  by (simp_all add: dec_string_def dec_list_def dec_pointer_def dec_struct_def)

lemma dec_string_omit [simp]: "dec_string (if s = [] then J_Null else J_Str s) = Some s"
  "dec_string (if s \<noteq> [] then J_Str s else J_Null) = Some s"
  by simp_all

lemma those_inv: "(\<And>x. f (g x) = Some (h x)) \<Longrightarrow> those (map (f \<circ> g) xs) = Some (map h xs)"
  by (induction xs) auto

lemmas field_simps_json = field_names equal_fold_def

lemma json_function_call_inv [simp]: "json_function_call (function_call_json f) = Some f"
  by (simp add: json_function_call_def function_call_json_def field_simps_json del: to_lower_simps)

lemma json_google_extra_inv [simp]: "json_google_extra (google_extra_json g) = Some g"
  by (simp add: json_google_extra_def google_extra_json_def field_simps_json del: to_lower_simps)

lemma dec_pointer_calls [simp]:
  "dec_pointer f (google_extra_json g) = map_option Some (f (google_extra_json g))"
  "dec_pointer f (function_call_json c) = map_option Some (f (function_call_json c))"
  "dec_pointer f (extra_content_json e) = map_option Some (f (extra_content_json e))"
  by (simp_all add: google_extra_json_def function_call_json_def extra_content_json_def)

lemma json_extra_content_inv [simp]: "json_extra_content (extra_content_json e) = Some e"
  by (cases "ec_google e"; cases e)
    (simp_all add: json_extra_content_def extra_content_json_def field_simps_json del: to_lower_simps)

lemma json_tool_call_inv [simp]: "json_tool_call (tool_call_json tc) = Some (json_call tc)"
  by (cases "tc_function tc"; cases "tc_extra_content tc"; cases tc)
    (simp_all add: json_tool_call_def tool_call_json_def json_call_def field_simps_json del: to_lower_simps)

lemma json_content_block_inv [simp]: "json_content_block (content_block_json b) = Some b"
  by (cases "cb_cache_control b"; cases b)
    (simp_all add: json_content_block_def content_block_json_def json_cache_control_def field_simps_json del: to_lower_simps)

lemma dec_lists [simp]:
  "those (map (dec_string \<circ> J_Str) xs) = Some xs"
  "those (map (json_content_block \<circ> content_block_json) bs) = Some bs"
  "those (map (json_tool_call \<circ> tool_call_json) tcs) = Some (map json_call tcs)"
  using those_inv [of dec_string J_Str "\<lambda>x. x" xs] those_inv [of json_content_block content_block_json "\<lambda>x. x" bs]
    those_inv [of json_tool_call tool_call_json json_call tcs] by simp_all

lemma dec_list_omit [simp]: "dec_list f (if xs = [] then J_Null else J_Arr (map g xs)) = those (map (f \<circ> g) xs)"
  "dec_list f (if xs \<noteq> [] then J_Arr (map g xs) else J_Null) = those (map (f \<circ> g) xs)"
  by simp_all

lemma json_message_inv: "json_message (message_json m) = Some (json_view m)"
  unfolding message_json_def json_message_def
  by (simp add: field_simps_json json_view_def del: to_lower_simps)

lemma tool_call_json_call [simp]: "tool_call_json (json_call tc) = tool_call_json tc"
  by (simp add: tool_call_json_def json_call_def)

lemma message_json_view [simp]: "message_json (json_view m) = message_json m"
  by (simp add: message_json_def json_view_def o_def)

lemma json_fits_mono: "json_fits d j \<Longrightarrow> d \<le> e \<Longrightarrow> json_fits e j"
  by (induction d j arbitrary: e rule: json_fits.induct) auto

lemma set_omit: "set (omit e k v) = (if e then {} else {(k, v)})"
  by (simp add: omit_def)

lemma tool_call_json_fits: "json_fits 3 (tool_call_json tc)"
proof -
  have f: "json_fits 1 (function_call_json f)" for f by (auto simp: function_call_json_def set_omit)
  have e: "json_fits 2 (extra_content_json e)" for e
    by (auto simp: extra_content_json_def google_extra_json_def set_omit split: option.splits)
  show ?thesis
    using json_fits_mono [OF f, of 2] e by (auto simp: tool_call_json_def set_omit split: option.splits)
qed

lemma message_json_fits: "json_fits max_nesting_depth (message_json m)"
proof -
  have c: "json_fits 2 (content_block_json b)" for b
    by (auto simp: content_block_json_def split: option.splits)
  have "json_fits 5 (message_json m)" using json_fits_mono [OF c, of 3] tool_call_json_fits
    by (auto simp: message_json_def set_omit)
  then show ?thesis by (rule json_fits_mono) (simp add: max_nesting_depth_def)
qed

section \<open>The codec of the session store\<close>

lemma ascii_utf8: "(\<And>c. c \<in> set s \<Longrightarrow> byte c < 128) \<Longrightarrow> valid_utf8 s"
proof -
  have "(\<forall>c\<in>set s. byte c < 128) \<Longrightarrow> coerce_utf8 s = s" by (induction s) (auto simp: coerce_ascii)
  then show "(\<And>c. c \<in> set s \<Longrightarrow> byte c < 128) \<Longrightarrow> valid_utf8 s" by (simp add: valid_utf8_def)
qed

text \<open>All strings of a message that are stored are valid UTF-8, and its line fits into the buffer of the scanner.\<close>

definition storable :: "message \<Rightarrow> bool" where
  "storable m \<longleftrightarrow> json_utf8 (message_json m) \<and> int (length (marshal_message m)) < max_line_size"

lemma unmarshal_marshal: "json_utf8 (message_json m) \<Longrightarrow> unmarshal_message (marshal_message m) = Some (json_view m)"
  by (simp add: unmarshal_message_def marshal_message_def parse_print_json message_json_fits clean_utf8 json_message_inv)

lemma marshal_one_line: "marshal_message m \<noteq> [] \<and> nl \<notin> set (marshal_message m) \<and> cr \<notin> set (marshal_message m)"
proof -
  have "no_control (marshal_message m)" unfolding marshal_message_def by (rule no_control_print) (rule message_json_fits)
  then have "32 \<le> byte c" if "c \<in> set (marshal_message m)" for c using that by (simp add: no_control_def)
  moreover have "\<not> 32 \<le> byte nl" "\<not> 32 \<le> byte cr" by code_simp+
  ultimately have "nl \<notin> set (marshal_message m)" "cr \<notin> set (marshal_message m)" by blast+
  then show ?thesis by (simp add: marshal_message_def message_json_def)
qed

lemma storable_codec: "storable m \<Longrightarrow> codec_ok marshal_message unmarshal_message m"
  using marshal_one_line [of m] unmarshal_marshal [of m] unmarshal_marshal [of "json_view m"]
  by (simp add: codec_ok_def encodes_def line_ok_def storable_def marshal_message_def)

lemma cut_message: "no_torn marshal_message unmarshal_message m"
proof -
  have "parse_json (take n (marshal_message m)) = None" if n: "n < length (marshal_message m)" for n
  proof -
    obtain kvs where k: "message_json m = J_Obj kvs" by (simp add: message_json_def)
    show ?thesis
      by (rule cut_object_not_json [of kvs _ "drop n (marshal_message m)"])
        (use message_json_fits [of m] k n in \<open>auto simp: marshal_message_def\<close>)
  qed
  then show ?thesis by (simp add: no_torn_def unmarshal_message_def)
qed

section \<open>The store\<close>

text \<open>
  C3: With the JSON the program writes, whatever write a crash interrupts, and however it cuts an append, no
  acknowledged message is lost: the history read afterwards ends with the whole history from before, or the operation
  is complete.
\<close>

theorem json_store_crash_safe:
  assumes "jsonl_inv marshal_message unmarshal_message fs"
    and "\<And>m. op = Op_Add m \<Longrightarrow> storable m"
    and "crash (op_writes marshal_message unmarshal_message now fs k op) fs fs'"
  shows "suffix (backend_history unmarshal_message fs k) (backend_history unmarshal_message fs' k) \<or>
    backend_history unmarshal_message fs' k =
      backend_history unmarshal_message (run_writes fs (op_writes marshal_message unmarshal_message now fs k op)) k"
  by (rule jsonl_crash_safe [OF assms(1) _ assms(3)]) (use assms(2) storable_codec cut_message in blast)

text \<open>A message is stored, and the append of a second one is cut in the middle of its line.\<close>

definition demo_message :: message where
  "demo_message = mk_message ''user'' ''<hi>''"

definition demo_store :: jsonl_fs where
  "demo_store = \<lparr>fs_lines = [jsonl_path ''k'' \<mapsto> file_of marshal_message [demo_message]], fs_metas = Map.empty\<rparr>"

definition demo_cut :: jsonl_fs where
  "demo_cut = apply_write demo_store
     (Append_Lines (jsonl_path ''k'') (take 20 (marshal_message (mk_message ''assistant'' ''yo''))))"

lemma demo_storable: "storable demo_message" "storable (mk_message ''assistant'' ''yo'')"
proof -
  have "int (length (marshal_message demo_message)) < max_line_size"
    "int (length (marshal_message (mk_message ''assistant'' ''yo''))) < max_line_size" by code_simp+
  then show "storable demo_message" "storable (mk_message ''assistant'' ''yo'')"
    by (auto simp: storable_def message_json_def demo_message_def mk_message_def set_omit byte_Char intro!: ascii_utf8)
qed

lemma demo_store_holds: "holds marshal_message unmarshal_message demo_store key
    (if sanitize_key key = sanitize_key ''k'' then [demo_message] else [])"
  using storable_codec [OF demo_storable(1)]
  by (simp add: holds_def demo_store_def file_content_def read_meta_def)

lemma json_store_crash_safe_witness:
  "storable (mk_message ''assistant'' ''yo'') \<and> demo_message \<in> set (backend_history unmarshal_message demo_cut ''k'')"
proof -
  have inv: "jsonl_inv marshal_message unmarshal_message demo_store"
    unfolding jsonl_inv_def using demo_store_holds by blast
  let ?op = "Op_Add (mk_message ''assistant'' ''yo'')"
  let ?ws = "op_writes marshal_message unmarshal_message 7 demo_store ''k'' ?op"
  have h: "holds marshal_message unmarshal_message demo_store ''k'' [demo_message]"
    using demo_store_holds [of "''k''"] by simp
  have "crash ?ws demo_store demo_cut"
    by (auto simp: op_writes_def add_msg_writes_def demo_cut_def Let_def intro!: crash_torn prefix_prefix take_is_prefix)
  moreover have "backend_history unmarshal_message demo_store ''k'' = [demo_message]"
    using holds_backend [OF h] by (simp add: demo_store_def read_meta_def json_view_def demo_message_def mk_message_def)
  ultimately show ?thesis
    using json_store_crash_safe [OF inv, of ?op 7 "''k''" demo_cut] demo_storable(2)
      history_add [OF h storable_codec [OF demo_storable(2)], of 7]
    by (auto simp: op_writes_def suffix_def)
qed

end
