(* ===== verification/Json_Any.thy ===== *)
theory Json_Any
  imports Json_Roundtrip Messages "HOL-Library.AList" "HOL-Library.Char_ord" "HOL-Library.List_Lexorder"
begin

text \<open>
  Untyped values (\<open>any\<close>, \<open>map[string]any\<close>) as JSON.  Numbers are decoded to the rational the literal names; how a
  float is printed is a parameter.  The keys of a map are written in the order of their bytes.
\<close>

definition digits_value :: "string \<Rightarrow> nat" where
  "digits_value = foldl (\<lambda>n c. 10 * n + (byte c - 48)) 0"

definition exp_value :: "string \<Rightarrow> rat" where
  "exp_value e = (case e of [] \<Rightarrow> 1
     | _ # t \<Rightarrow> (case t of [] \<Rightarrow> 1
        | c # u \<Rightarrow> if c = CHR ''-'' then 1 / 10 ^ digits_value u
                  else if c = CHR ''+'' then 10 ^ digits_value u else 10 ^ digits_value t))"

definition unsigned_value :: "string \<Rightarrow> rat" where
  "unsigned_value s = (case scan_int s of None \<Rightarrow> 0
     | Some (i, u) \<Rightarrow> (case scan_frac u of None \<Rightarrow> 0
        | Some (f, v) \<Rightarrow> (of_nat (digits_value i) + of_nat (digits_value (tl f)) / 10 ^ length (tl f)) * exp_value v))"

definition num_value :: "string \<Rightarrow> rat" where
  "num_value n = (if n \<noteq> [] \<and> hd n = CHR ''-'' then - unsigned_value (tl n) else unsigned_value n)"

fun json_any :: "json \<Rightarrow> go_any" where
  "json_any J_Null = Any_Nil"
| "json_any (J_Bool b) = Any_Bool b"
| "json_any (J_Num n) = Any_Num (num_value n)"
| "json_any (J_Str s) = Any_Str s"
| "json_any (J_Arr vs) = Any_List (map json_any vs)"
| "json_any (J_Obj kvs) =
    Any_Map (fold (\<lambda>kv m. AList.update (fst kv) (snd kv) m) (map (\<lambda>kv. (fst kv, json_any (snd kv))) kvs) [])"

text \<open>\<open>Unmarshal\<close> into a nil map; \<open>None\<close> is a map that stays nil.\<close>

definition unmarshal_args :: "string \<Rightarrow> go_args option" where
  "unmarshal_args s = (case parse_json s of
     Some (J_Obj kvs) \<Rightarrow> (case json_any (J_Obj kvs) of Any_Map m \<Rightarrow> Some m | _ \<Rightarrow> None)
   | _ \<Rightarrow> None)"

fun any_json :: "(rat \<Rightarrow> string) \<Rightarrow> go_any \<Rightarrow> json" where
  "any_json fmt Any_Nil = J_Null"
| "any_json fmt (Any_Bool b) = J_Bool b"
| "any_json fmt (Any_Num q) = J_Num (fmt q)"
| "any_json fmt (Any_Int i) = J_Num (itoa i)"
| "any_json fmt (Any_Str s) = J_Str s"
| "any_json fmt (Any_List xs) = J_Arr (map (any_json fmt) xs)"
| "any_json fmt (Any_Map m) = J_Obj (sort_key fst (map (\<lambda>kv. (fst kv, any_json fmt (snd kv))) m))"

definition marshal_args :: "(rat \<Rightarrow> string) \<Rightarrow> go_args \<Rightarrow> string" where
  "marshal_args fmt m = print_json (any_json fmt (Any_Map m))"

lemma unmarshal_args_examples:
  "unmarshal_args ''{}'' = Some []" "unmarshal_args ''null'' = None" "unmarshal_args ''[1]'' = None"
  "num_value ''-12.50e1'' = - 125"
  by code_simp+

end
