(* ===== verification/Cli_Tool_Calls.thy ===== *)
theory Cli_Tool_Calls
  imports Message_Json Json_Any
begin

text \<open>
  Tool calls in the text of an answer (\<open>pkg/providers/tool_call_extract.go\<close>, \<open>findMatchingBrace\<close> of
  \<open>claude_cli_provider.go\<close>): models behind a command line tool are asked to answer with a JSON object.  Its end is
  found by counting braces, those inside strings too, so the calls are found exactly if the braces of their text
  balance.
\<close>

section \<open>The functions\<close>

text \<open>The object starts with the text \<open>{"tool_calls"\<close>.\<close>

definition calls_marker :: string where
  "calls_marker = ''{'' @ [quote] @ ''tool_calls'' @ [quote]"

text \<open>How many bytes from the start of the text to behind the brace that closes the first one.\<close>

fun brace_end :: "int \<Rightarrow> string \<Rightarrow> nat option" where
  "brace_end depth [] = None"
| "brace_end depth (c # s) =
    (if c = CHR ''{'' then map_option Suc (brace_end (depth + 1) s)
     else if c = CHR ''}'' then (if depth - 1 = 0 then Some 1 else map_option Suc (brace_end (depth - 1) s))
     else map_option Suc (brace_end depth s))"

definition find_matching_brace :: "string \<Rightarrow> nat \<Rightarrow> nat" where
  "find_matching_brace txt pos = (case brace_end 0 (drop pos txt) of Some n \<Rightarrow> pos + n | None \<Rightarrow> pos)"

text \<open>The struct the object is decoded into.\<close>

definition json_wrapped_function :: "json \<Rightarrow> (string \<times> string) option" where
  "json_wrapped_function = dec_struct (\<lambda>kvs.
     case (dec_string (jfield kvs ''name''), dec_string (jfield kvs ''arguments'')) of
       (Some n, Some a) \<Rightarrow> Some (n, a) | _ \<Rightarrow> None)"

definition json_wrapped_call :: "json \<Rightarrow> (string \<times> string \<times> string \<times> string) option" where
  "json_wrapped_call = dec_struct (\<lambda>kvs.
     case (dec_string (jfield kvs ''id''), dec_string (jfield kvs ''type''),
           json_wrapped_function (jfield kvs ''function'')) of
       (Some i, Some t, Some (n, a)) \<Rightarrow> Some (i, t, n, a) | _ \<Rightarrow> None)"

definition json_wrapper :: "json \<Rightarrow> (string \<times> string \<times> string \<times> string) list option" where
  "json_wrapper = dec_struct (\<lambda>kvs. dec_list json_wrapped_call (jfield kvs ''tool_calls''))"

definition wrapped_call :: "string \<times> string \<times> string \<times> string \<Rightarrow> tool_call" where
  "wrapped_call w = (case w of (i, t, n, a) \<Rightarrow>
     \<lparr>tc_id = i, tc_type = t, tc_function = Some \<lparr>fc_name = n, fc_arguments = a, fc_thought_signature = []\<rparr>,
      tc_name = n, tc_arguments = unmarshal_args a, tc_thought_signature = [], tc_extra_content = None\<rparr>)"

definition extract_tool_calls_from_text :: "string \<Rightarrow> tool_call list" where
  "extract_tool_calls_from_text txt = (case str_index txt calls_marker of
     None \<Rightarrow> []
   | Some start \<Rightarrow>
      (let stop = find_matching_brace txt start in
       if stop = start then []
       else case Option.bind (parse_json (take (stop - start) (drop start txt))) json_wrapper of
          None \<Rightarrow> []
        | Some ws \<Rightarrow> map wrapped_call ws))"

definition strip_tool_calls_from_text :: "string \<Rightarrow> string" where
  "strip_tool_calls_from_text txt = (case str_index txt calls_marker of
     None \<Rightarrow> txt
   | Some start \<Rightarrow>
      (let stop = find_matching_brace txt start in
       if stop = start then txt else trim_space (take start txt @ drop stop txt)))"

section \<open>Matching braces\<close>

lemma brace_end_bounds: "brace_end d s = Some n \<Longrightarrow> 0 < n \<and> n \<le> length s \<and> s ! (n - 1) = CHR ''}''"
proof (induction s arbitrary: d n)
  case (Cons c s)
  then show ?case by (cases n) (fastforce simp: nth_Cons' split: if_splits)+
qed simp

lemma brace_end_app: "brace_end d s = Some n \<Longrightarrow> brace_end d (s @ t) = Some n"
  by (induction s arbitrary: d n) (auto split: if_splits)

lemma brace_end_app_None: "brace_end d s = None \<Longrightarrow> brace_end d (s @ t) = Some n \<Longrightarrow> length s < n"
proof (induction s arbitrary: d n)
  case Nil
  then show ?case using brace_end_bounds [of d t n] by simp
next
  case (Cons c s)
  then show ?case by (auto split: if_splits)
qed

section \<open>JSON texts and longer texts\<close>

text \<open>A text that is JSON and ends in a brace is not cut, nor followed by more that ends in a brace.\<close>

lemma skip_ws_all: "skip_ws r = [] \<longleftrightarrow> (\<forall>c\<in>set r. is_json_space c)"
  by (auto simp: skip_ws_def dropWhile_eq_Nil_conv)

lemma brace_no_space: "\<not> is_json_space (CHR ''}'')"
  by (simp add: is_json_space_def)

lemma json_text_obtain:
  assumes "parse_json s = Some v"
  obtains r where "parse_value (2 * length s) max_nesting_depth s = Some (v, r)" "skip_ws r = []"
  using assms by (auto simp: parse_json_def split: option.splits if_splits)

lemma object_not_num: "prefix ''{'' s \<Longrightarrow> parse_value n d s = Some (v, r) \<Longrightarrow> \<not> is_num v"
proof -
  assume "prefix ''{'' s" "parse_value n d s = Some (v, r)"
  then obtain u m where "s = CHR ''{'' # u" "n = Suc m" by (cases n) (auto simp: prefix_def)
  then show ?thesis using \<open>parse_value n d s = Some (v, r)\<close>
    by (auto simp: skip_ws_def is_json_space_def is_num_def split: if_splits)
qed

lemma object_app:
  assumes "parse_json p = Some v" "prefix ''{'' p" "t \<noteq> []" "last t = CHR ''}''"
  shows "parse_json (p @ t) = None"
proof (rule ccontr)
  obtain r where r: "parse_value (2 * length p) max_nesting_depth p = Some (v, r)" "skip_ws r = []"
    using json_text_obtain [OF assms(1)] .
  have "parse_value (2 * length (p @ t)) max_nesting_depth p = Some (v, r)"
    using r(1) parse_fuel [of p "2 * length (p @ t)"] by simp
  then have p: "parse_value (2 * length (p @ t)) max_nesting_depth (p @ t) = Some (v, r @ t)"
    using parse_app object_not_num [OF assms(2)] by blast
  assume "parse_json (p @ t) \<noteq> None"
  then have "skip_ws (r @ t) = []" using p by (auto simp: parse_json_def split: if_splits)
  then have "is_json_space (last t)" using assms(3) by (simp add: skip_ws_all)
  then show False using assms(4) brace_no_space by simp
qed

lemma object_cut:
  assumes "parse_json (p @ t) = Some v" "prefix ''{'' p" "t \<noteq> []" "last t = CHR ''}''"
  shows "parse_json p = None"
  using object_app [of p _ t] assms by (cases "parse_json p") auto

section \<open>Which calls are found\<close>

text \<open>
  A text balances if it has as many closing as opening braces, and before its end there are always more opening than
  closing ones.
\<close>

definition brace_level :: "string \<Rightarrow> int" where
  "brace_level s = int (count_list s (CHR ''{'')) - int (count_list s (CHR ''}''))"

definition braces_balance :: "string \<Rightarrow> bool" where
  "braces_balance s \<longleftrightarrow> brace_level s = 0 \<and> list_all (\<lambda>n. 0 < brace_level (take n s)) [1..<length s]"

lemma brace_level_simps [simp]:
  "brace_level [] = 0"
  "brace_level (c # s) = (if c = CHR ''{'' then 1 else if c = CHR ''}'' then - 1 else 0) + brace_level s"
  by (simp_all add: brace_level_def)

lemma all_less_Suc_conv: "(\<forall>n<Suc m. P n) \<longleftrightarrow> P 0 \<and> (\<forall>n<m. P (Suc n))"
  by (rule All_less_Suc2)

lemma brace_end_all: "0 < d \<Longrightarrow> brace_end d s = Some (length s) \<longleftrightarrow>
    d + brace_level s = 0 \<and> (\<forall>n<length s. 0 < d + brace_level (take n s))"
proof (induction s arbitrary: d)
  case (Cons c s)
  show ?case
  proof (cases "c = CHR ''}'' \<and> d = 1")
    case True
    then have "brace_end d (c # s) = Some (length (c # s)) \<longleftrightarrow> s = []" by simp
    moreover have "\<not> (\<forall>n<length (c # s). 0 < d + brace_level (take n (c # s)))" if "s \<noteq> []"
      using that True by (intro notI) (drule spec [of _ 1], simp)
    ultimately show ?thesis using True by (cases "s = []") auto
  next
    case False
    let ?d = "d + (if c = CHR ''{'' then 1 else if c = CHR ''}'' then - 1 else 0)"
    have "0 < ?d" using False Cons.prems by auto
    then have "brace_end ?d s = Some (length s) \<longleftrightarrow>
        ?d + brace_level s = 0 \<and> (\<forall>n<length s. 0 < ?d + brace_level (take n s))" by (rule Cons.IH)
    moreover have "brace_end d (c # s) = map_option Suc (brace_end ?d s)" using False by simp
    moreover have "(\<forall>n<length (c # s). 0 < d + brace_level (take n (c # s))) \<longleftrightarrow>
        (\<forall>n<length s. 0 < ?d + brace_level (take n s))"
      using Cons.prems by (simp only: list.size add_0_right add_Suc_right all_less_Suc_conv take_0 take_Suc_Cons
          brace_level_simps add.assoc simp_thms)
    ultimately show ?thesis by (simp only: brace_level_simps list.size add.assoc) auto
  qed
qed simp

text \<open>The scan of the code ends where the text does exactly if the text balances.\<close>

lemma braces_balance_scan: "prefix ''{'' s \<Longrightarrow> braces_balance s \<longleftrightarrow> brace_end 0 s = Some (length s)"
proof -
  assume "prefix ''{'' s"
  then obtain u where u: "s = CHR ''{'' # u" by (auto simp: prefix_def)
  have "set [1..<length s] = Suc ` {..<length u}" by (simp add: u image_Suc_lessThan) auto
  then have "list_all (\<lambda>n. 0 < brace_level (take n s)) [1..<length s] \<longleftrightarrow> (\<forall>n<length u. 0 < 1 + brace_level (take n u))"
    unfolding list_all_iff by (simp add: u lessThan_def)
  then show ?thesis using brace_end_all [of 1 u] by (auto simp: braces_balance_def u)
qed

text \<open>What is decoded: the text between the brace the marker starts with and the matching one.\<close>

definition decoded_object :: "string \<Rightarrow> json option" where
  "decoded_object rest = (case brace_end 0 rest of None \<Rightarrow> None | Some n \<Rightarrow> parse_json (take n rest))"

lemma extract_by_object:
  assumes "str_index (before @ rest) calls_marker = Some (length before)"
  shows "extract_tool_calls_from_text (before @ rest) =
    (case Option.bind (decoded_object rest) json_wrapper of None \<Rightarrow> [] | Some ws \<Rightarrow> map wrapped_call ws)"
  using assms brace_end_bounds [of 0 rest]
  by (auto simp: extract_tool_calls_from_text_def find_matching_brace_def decoded_object_def split: option.split)

lemma decoded_object_balanced:
  assumes "prefix ''{'' txt" "parse_json txt = Some v" "last txt = CHR ''}''"
  shows "decoded_object (txt @ after) = (if brace_end 0 txt = Some (length txt) then Some v else None)"
proof (cases "brace_end 0 txt")
  case None
  have "parse_json (take m (txt @ after)) = None" if m: "brace_end 0 (txt @ after) = Some m" for m
  proof -
    have b: "m \<le> length (txt @ after)" "(txt @ after) ! (m - 1) = CHR ''}''" using brace_end_bounds m by blast+
    have l: "length txt < m" using brace_end_app_None [OF None m] .
    have "take m (txt @ after) = txt @ take (m - length txt) after" using l by simp
    moreover have "last (take (m - length txt) after) = after ! (m - length txt - 1)"
      using b l by (subst last_conv_nth) auto
    moreover have "after ! (m - length txt - 1) = CHR ''}''" using b l by (auto simp: nth_append split: if_splits)
    moreover have "take (m - length txt) after \<noteq> []" using b l by auto
    ultimately show ?thesis using object_app [OF assms(2,1)] by simp
  qed
  then show ?thesis using None by (auto simp: decoded_object_def split: option.split)
next
  case (Some n)
  have b: "0 < n" "n \<le> length txt" using brace_end_bounds Some by blast+
  have e: "brace_end 0 (txt @ after) = Some n" using brace_end_app Some by blast
  show ?thesis
  proof (cases "n = length txt")
    case True
    then show ?thesis using e Some assms(2) by (simp add: decoded_object_def)
  next
    case False
    obtain u where u: "txt = CHR ''{'' # u" using assms(1) by (auto simp: prefix_def)
    have "parse_json (take n txt @ drop n txt) = Some v" using assms(2) by simp
    moreover have "prefix ''{'' (take n txt)" using u b by (cases n) auto
    moreover have "drop n txt \<noteq> []" "last (drop n txt) = CHR ''}''" using b False assms(3) by simp_all
    ultimately have "parse_json (take n txt) = None" using object_cut by blast
    then show ?thesis using e Some b False by (simp add: decoded_object_def)
  qed
qed


text \<open>A call as the prompt asks for it, with the arguments \<open>args\<close> as a string of JSON.\<close>

definition demo_calls :: "string \<Rightarrow> string" where
  "demo_calls args = print_json (J_Obj [(''tool_calls'', J_Arr [J_Obj [(''id'', J_Str ''c1''), (''type'', J_Str ''function''),
     (''function'', J_Obj [(''name'', J_Str ''write_file''), (''arguments'', J_Str args)])]])])"

definition demo_args :: "string \<Rightarrow> string" where
  "demo_args content = print_json (J_Obj [(''content'', J_Str content)])"


end
