(* ===== verification/Cli_Providers.thy ===== *)
theory Cli_Providers
  imports Cli_Tool_Calls Tool_Registry
begin

text \<open>
  Models behind command line tools (\<open>pkg/providers/claude_cli_provider.go\<close>, \<open>codex_cli_provider.go\<close>,
  \<open>buildCLIToolsPrompt\<close> of \<open>toolcall_utils.go\<close>): the prompt a conversation becomes, the arguments of the command, and
  the answer read from its output.  Running the command is a parameter.
\<close>

section \<open>The prompt\<close>

definition text_lines :: "string list \<Rightarrow> string" where
  "text_lines ls = concat (map (\<lambda>l. l @ [nl]) ls)"

definition tool_prompt :: "(rat \<Rightarrow> string) \<Rightarrow> tool_definition \<Rightarrow> string" where
  "tool_prompt fmt t =
    text_lines ((''#### '' @ td_name t) #
      (if td_description t = [] then [] else [''Description: '' @ td_description t]) @
      (if td_parameters t = [] then []
       else [''Parameters:'', ''```json'', marshal_args fmt (td_parameters t), ''```'']) @ [[]])"

text \<open>The example of an answer, with the quotes of the text put in.\<close>

definition call_example :: string where
  "call_example = map (\<lambda>c. if c = CHR 0x27 then quote else c)
     (concat [''{'', [CHR 0x27], ''tool_calls'', [CHR 0x27], '':[{'', [CHR 0x27], ''id'', [CHR 0x27], '':'', [CHR 0x27], ''call_xxx'',
       [CHR 0x27], '','', [CHR 0x27], ''type'', [CHR 0x27], '':'', [CHR 0x27], ''function'', [CHR 0x27], '','', [CHR 0x27],
       ''function'', [CHR 0x27], '':{'', [CHR 0x27], ''name'', [CHR 0x27], '':'', [CHR 0x27], ''tool_name'', [CHR 0x27], '','',
       [CHR 0x27], ''arguments'', [CHR 0x27], '':'', [CHR 0x27], ''{...}'', [CHR 0x27], ''}}]}''])"

definition build_cli_tools_prompt :: "(rat \<Rightarrow> string) \<Rightarrow> tool_definition list \<Rightarrow> string" where
  "build_cli_tools_prompt fmt tools =
    text_lines [''## Available Tools'', [], ''When you need to use a tool, respond with ONLY a JSON object:'', [],
      ''```json'', call_example, ''```'', [],
      ''CRITICAL: The '' @ [CHR 0x27] @ ''arguments'' @ [CHR 0x27] @ '' field MUST be a JSON-encoded STRING.'', [],
      ''### Tool Definitions:'', []] @
    concat (map (tool_prompt fmt) tools)"

definition tool_result_line :: "message \<Rightarrow> string" where
  "tool_result_line m = ''[Tool Result for '' @ msg_tool_call_id m @ '']: '' @ msg_content m"

text \<open>The part a message becomes; messages of other roles become nothing.\<close>

definition claude_part :: "message \<Rightarrow> string option" where
  "claude_part m =
    (if msg_role m = ''user'' then Some (''User: '' @ msg_content m)
     else if msg_role m = ''assistant'' then Some (''Assistant: '' @ msg_content m)
     else if msg_role m = ''tool'' then Some (tool_result_line m) else None)"

definition messages_to_prompt :: "message list \<Rightarrow> string" where
  "messages_to_prompt ms =
    (let parts = List.map_filter claude_part ms in
     if length parts = 1 \<and> prefix ''User: '' (hd parts) then trim_prefix (hd parts) ''User: ''
     else join [nl] parts)"

definition build_system_prompt :: "(rat \<Rightarrow> string) \<Rightarrow> message list \<Rightarrow> tool_definition list \<Rightarrow> string" where
  "build_system_prompt fmt ms tools =
    join [nl, nl] (map msg_content (filter is_system ms) @
      (if tools = [] then [] else [build_cli_tools_prompt fmt tools]))"

definition codex_part :: "message \<Rightarrow> string option" where
  "codex_part m =
    (if msg_role m = ''user'' then Some (msg_content m)
     else if msg_role m = ''assistant'' then Some (''Assistant: '' @ msg_content m)
     else if msg_role m = ''tool'' then Some (tool_result_line m) else None)"

definition codex_prompt :: "(rat \<Rightarrow> string) \<Rightarrow> message list \<Rightarrow> tool_definition list \<Rightarrow> string" where
  "codex_prompt fmt ms tools =
    (let system = map msg_content (filter is_system ms); parts = List.map_filter codex_part ms in
     if length parts = 1 \<and> system = [] \<and> tools = [] then hd parts
     else (if system = [] then []
           else text_lines [''## System Instructions'', []] @ join [nl, nl] system @ [nl, nl] @ text_lines [''## Task'', []]) @
          (if tools = [] then [] else build_cli_tools_prompt fmt tools @ [nl, nl]) @
          join [nl] parts)"

section \<open>Answers\<close>

record usage_info =
  us_prompt :: int
  us_completion :: int
  us_total :: int

type_synonym cli_answer = "llm_response \<times> usage_info option"

text \<open>Decoding of numbers and booleans: an int takes a literal without fraction and exponent, within 64 bits.\<close>

definition dec_int :: "json \<Rightarrow> int option" where
  "dec_int j = (case j of J_Null \<Rightarrow> Some 0
     | J_Num n \<Rightarrow>
        (let neg = n \<noteq> [] \<and> hd n = CHR ''-''; ds = (if neg then tl n else n);
             v = (if neg then - int (digits_value ds) else int (digits_value ds))
         in if list_all is_digit_char ds \<and> - (2 ^ 63) \<le> v \<and> v < 2 ^ 63 then Some v else None)
     | _ \<Rightarrow> None)"

definition dec_bool :: "json \<Rightarrow> bool option" where
  "dec_bool j = (case j of J_Null \<Rightarrow> Some False | J_Bool b \<Rightarrow> Some b | _ \<Rightarrow> None)"

definition dec_float :: "json \<Rightarrow> rat option" where
  "dec_float j = (case j of J_Null \<Rightarrow> Some 0 | J_Num n \<Rightarrow> Some (num_value n) | _ \<Rightarrow> None)"

text \<open>The fields of a struct that are decoded but not used must have their type all the same.\<close>

definition all_strings :: "(string \<times> json) list \<Rightarrow> string list \<Rightarrow> bool" where
  "all_strings kvs names \<longleftrightarrow> list_all (\<lambda>n. dec_string (jfield kvs n) \<noteq> None) names"

definition all_ints :: "(string \<times> json) list \<Rightarrow> string list \<Rightarrow> bool" where
  "all_ints kvs names \<longleftrightarrow> list_all (\<lambda>n. dec_int (jfield kvs n) \<noteq> None) names"

definition make_usage :: "int \<Rightarrow> int \<Rightarrow> usage_info" where
  "make_usage prompt completion = \<lparr>us_prompt = prompt, us_completion = completion, us_total = prompt + completion\<rparr>"

text \<open>The response a text becomes.\<close>

definition response_of_text :: "string \<Rightarrow> llm_response" where
  "response_of_text txt =
    (let calls = extract_tool_calls_from_text txt in
     \<lparr>lr_content = trim_space (if calls = [] then txt else strip_tool_calls_from_text txt), lr_reasoning_content = [],
      lr_tool_calls = calls, lr_finish_reason = (if calls = [] then ''stop'' else ''tool_calls''), lr_reasoning = []\<rparr>)"

definition json_claude_usage :: "json \<Rightarrow> (int \<times> int \<times> int \<times> int) option" where
  "json_claude_usage = dec_struct (\<lambda>kvs.
     case (dec_int (jfield kvs ''input_tokens''), dec_int (jfield kvs ''output_tokens''),
           dec_int (jfield kvs ''cache_creation_input_tokens''), dec_int (jfield kvs ''cache_read_input_tokens'')) of
       (Some i, Some ou, Some cc, Some ch) \<Rightarrow> Some (i, ou, cc, ch) | _ \<Rightarrow> None)"

definition json_claude_response :: "json \<Rightarrow> (bool \<times> string \<times> int \<times> int \<times> int \<times> int) option" where
  "json_claude_response = dec_struct (\<lambda>kvs.
     if \<not> all_strings kvs [''type'', ''subtype'', ''session_id''] \<or>
        \<not> all_ints kvs [''duration_ms'', ''duration_api_ms'', ''num_turns''] \<or> dec_float (jfield kvs ''total_cost_usd'') = None
     then None
     else case (dec_bool (jfield kvs ''is_error''), dec_string (jfield kvs ''result''), json_claude_usage (jfield kvs ''usage'')) of
       (Some e, Some r, Some u) \<Rightarrow> Some (e, r, u) | _ \<Rightarrow> None)"

definition parse_claude_cli_response :: "string \<Rightarrow> (string, cli_answer) go_result" where
  "parse_claude_cli_response out = (case Option.bind (parse_json out) json_claude_response of
     None \<Rightarrow> Err ''failed to parse claude cli response''
   | Some (is_err, result, inp, outp, created, cached) \<Rightarrow>
      (if is_err then Err (''claude cli returned error: '' @ result)
       else Ok (response_of_text result,
         if 0 < inp \<or> 0 < outp then Some (make_usage (inp + created + cached) outp) else None)))"

text \<open>A command that ran: what it printed, and its error.\<close>

record command_run =
  cr_stdout :: string
  cr_stderr :: string
  cr_error :: "string option"

record cli_provider =
  cp_command :: string
  cp_workspace :: string

definition claude_args :: "(rat \<Rightarrow> string) \<Rightarrow> message list \<Rightarrow> tool_definition list \<Rightarrow> string \<Rightarrow> string list" where
  "claude_args fmt ms tools model =
    (let system = build_system_prompt fmt ms tools in
     [''-p'', ''--output-format'', ''json'', ''--dangerously-skip-permissions'', ''--no-chrome''] @
     (if system = [] then [] else [''--system-prompt'', system]) @
     (if model = [] \<or> model = ''claude-code'' then [] else [''--model'', model]) @ [''-''])"

definition command_error :: "string \<Rightarrow> command_run \<Rightarrow> string \<Rightarrow> string" where
  "command_error name r e = name @ '' cli error: '' @ (if cr_stderr r = [] then e else cr_stderr r)"

text \<open>\<open>run\<close> takes the command, its directory (empty: that of the program), its arguments and its input.\<close>

definition claude_chat :: "(string \<Rightarrow> string \<Rightarrow> string list \<Rightarrow> string \<Rightarrow> command_run) \<Rightarrow> (rat \<Rightarrow> string) \<Rightarrow> cli_provider \<Rightarrow>
    message list \<Rightarrow> tool_definition list \<Rightarrow> string \<Rightarrow> (string, cli_answer) go_result" where
  "claude_chat run fmt p ms tools model =
    (let r = run (cp_command p) (cp_workspace p) (claude_args fmt ms tools model) (messages_to_prompt ms) in
     case cr_error r of Some e \<Rightarrow> Err (command_error ''claude'' r e) | None \<Rightarrow> parse_claude_cli_response (cr_stdout r))"

section \<open>Codex\<close>

text \<open>Events of the command, one per line of its output.\<close>

record codex_item =
  ci_type :: string
  ci_text :: string

record codex_event =
  ce_type :: string
  ce_message :: string
  ce_item :: "codex_item option"
  ce_usage :: "usage_info option"
  ce_error :: "string option"

definition json_codex_item :: "json \<Rightarrow> codex_item option" where
  "json_codex_item = dec_struct (\<lambda>kvs.
     if \<not> all_strings kvs [''id'', ''command'', ''status'', ''output''] \<or> dec_pointer dec_int (jfield kvs ''exit_code'') = None
     then None
     else case (dec_string (jfield kvs ''type''), dec_string (jfield kvs ''text'')) of
       (Some t, Some x) \<Rightarrow> Some \<lparr>ci_type = t, ci_text = x\<rparr> | _ \<Rightarrow> None)"

definition json_codex_usage :: "json \<Rightarrow> usage_info option" where
  "json_codex_usage = dec_struct (\<lambda>kvs.
     case (dec_int (jfield kvs ''input_tokens''), dec_int (jfield kvs ''cached_input_tokens''), dec_int (jfield kvs ''output_tokens'')) of
       (Some i, Some c, Some ou) \<Rightarrow> Some (make_usage (i + c) ou) | _ \<Rightarrow> None)"

definition json_codex_error :: "json \<Rightarrow> string option" where
  "json_codex_error = dec_struct (\<lambda>kvs. dec_string (jfield kvs ''message''))"

definition json_codex_event :: "json \<Rightarrow> codex_event option" where
  "json_codex_event = dec_struct (\<lambda>kvs.
     if \<not> all_strings kvs [''thread_id''] then None
     else case (dec_string (jfield kvs ''type''), dec_string (jfield kvs ''message''),
           dec_pointer json_codex_item (jfield kvs ''item''), dec_pointer json_codex_usage (jfield kvs ''usage''),
           dec_pointer json_codex_error (jfield kvs ''error'')) of
       (Some t, Some m, Some i, Some u, Some e) \<Rightarrow>
         Some \<lparr>ce_type = t, ce_message = m, ce_item = i, ce_usage = u, ce_error = e\<rparr>
     | _ \<Rightarrow> None)"

record codex_state =
  cs_parts :: "string list"
  cs_usage :: "usage_info option"
  cs_last_error :: string

definition codex_step :: "codex_event \<Rightarrow> codex_state \<Rightarrow> codex_state" where
  "codex_step ev st =
    (if ce_type ev = ''item.completed'' then
       (case ce_item ev of
          Some it \<Rightarrow> if ci_type it = ''agent_message'' \<and> ci_text it \<noteq> [] then st\<lparr>cs_parts := cs_parts st @ [ci_text it]\<rparr> else st
        | None \<Rightarrow> st)
     else if ce_type ev = ''turn.completed'' then
       (case ce_usage ev of Some u \<Rightarrow> st\<lparr>cs_usage := Some u\<rparr> | None \<Rightarrow> st)
     else if ce_type ev = ''error'' then st\<lparr>cs_last_error := ce_message ev\<rparr>
     else if ce_type ev = ''turn.failed'' then
       (case ce_error ev of Some m \<Rightarrow> st\<lparr>cs_last_error := m\<rparr> | None \<Rightarrow> st)
     else st)"

text \<open>A scanner with the default buffer stops at a line of 64 KiB, and its error is not looked at.\<close>

definition max_scan_token_size :: int where "max_scan_token_size = 64 * 1024"

definition codex_lines :: "string \<Rightarrow> string list" where
  "codex_lines out = filter (\<lambda>l. l \<noteq> []) (map (\<lambda>l. trim_space (drop_cr l))
     (takeWhile (\<lambda>l. int (length l) < max_scan_token_size) (split_lines out)))"

definition codex_events :: "string \<Rightarrow> codex_event list" where
  "codex_events out = List.map_filter (\<lambda>l. Option.bind (parse_json l) json_codex_event) (codex_lines out)"

definition parse_jsonl_events :: "string \<Rightarrow> (string, cli_answer) go_result" where
  "parse_jsonl_events out =
    (let st = fold codex_step (codex_events out) \<lparr>cs_parts = [], cs_usage = None, cs_last_error = []\<rparr> in
     if cs_last_error st \<noteq> [] \<and> cs_parts st = [] then Err (''codex cli: '' @ cs_last_error st)
     else Ok (response_of_text (join [nl] (cs_parts st)), cs_usage st))"

definition codex_args :: "cli_provider \<Rightarrow> string \<Rightarrow> string list" where
  "codex_args p model =
    [''exec'', ''--json'', ''--dangerously-bypass-approvals-and-sandbox'', ''--skip-git-repo-check'', ''--color'', ''never''] @
    (if model = [] \<or> model = ''codex-cli'' then [] else [''-m'', model]) @
    (if cp_workspace p = [] then [] else [''-C'', cp_workspace p]) @ [''-'']"

text \<open>The output is read even if the command failed; \<open>canceled\<close> is whether the context was cancelled.\<close>

definition codex_chat :: "(string \<Rightarrow> string \<Rightarrow> string list \<Rightarrow> string \<Rightarrow> command_run) \<Rightarrow> (rat \<Rightarrow> string) \<Rightarrow> bool \<Rightarrow> cli_provider \<Rightarrow>
    message list \<Rightarrow> tool_definition list \<Rightarrow> string \<Rightarrow> (string, cli_answer) go_result" where
  "codex_chat run fmt canceled p ms tools model =
    (if cp_command p = [] then Err ''codex command not configured''
     else let r = run (cp_command p) [] (codex_args p model) (codex_prompt fmt ms tools);
              parsed = parse_jsonl_events (cr_stdout r);
              usable = (case parsed of Ok (resp, u) \<Rightarrow> lr_content resp \<noteq> [] \<or> lr_tool_calls resp \<noteq> [] | Err e \<Rightarrow> False)
       in if cr_stdout r \<noteq> [] \<and> usable then parsed
          else case cr_error r of
             Some e \<Rightarrow> if canceled then Err ''context canceled'' else Err (command_error ''codex'' r e)
           | None \<Rightarrow> parsed)"

section \<open>What gets lost\<close>

text \<open>
  C29: Codex prints an answer as one line of JSON.  When a line reaches 64 KiB the scanner stops, and its error is not
  looked at: that line and all that follow are as if never printed, and an answer lost so is an empty success.
\<close>

theorem codex_long_line_lost:
  assumes "\<forall>x\<in>set ls. nl \<notin> set x" "nl \<notin> set l" "max_scan_token_size \<le> int (length l)"
  shows "parse_jsonl_events (text_lines ls @ l @ nl # rest) = parse_jsonl_events (text_lines ls) \<and>
    parse_jsonl_events (l @ nl # rest) = Ok (response_of_text [], None)"
proof -
  let ?short = "\<lambda>l. int (length l) < max_scan_token_size"
  have cut: "takeWhile ?short (split_lines (l @ nl # rest)) = []"
    using assms(2,3) by (simp add: split_lines_line)
  have "takeWhile ?short (split_lines (text_lines ls @ l @ nl # rest)) = takeWhile ?short (split_lines (text_lines ls))"
    using assms(1) by (induction ls) (simp_all add: cut text_lines_def split_lines_line)
  then show ?thesis
    using cut by (simp add: parse_jsonl_events_def codex_events_def codex_lines_def map_filter_simps)
qed

text \<open>An answer of one event, followed by a long one.\<close>

definition demo_event :: "string \<Rightarrow> string" where
  "demo_event t = print_json (J_Obj [(''type'', J_Str ''item.completed''),
     (''item'', J_Obj [(''id'', J_Str ''i''), (''type'', J_Str ''agent_message''), (''text'', J_Str t)])])"

lemma codex_long_line_lost_witness:
  "map_sum (\<lambda>e. e) (\<lambda>r. lr_content (fst r)) (parse_jsonl_events (text_lines [demo_event ''hi''] @ replicate 65536 (CHR ''a'') @ [nl])) =
     Ok ''hi'' \<and>
   map_sum (\<lambda>e. e) (\<lambda>r. lr_content (fst r)) (parse_jsonl_events (replicate 65536 (CHR ''a'') @ [nl])) = Ok []"
proof -
  let ?l = "replicate 65536 (CHR ''a'')"
  have l: "nl \<notin> set ?l" "max_scan_token_size \<le> int (length ?l)" by (simp_all add: nl_def max_scan_token_size_def)
  have e: "\<forall>x\<in>set [demo_event ''hi'']. nl \<notin> set x" by code_simp
  have "map_sum (\<lambda>e. e) (\<lambda>r. lr_content (fst r)) (parse_jsonl_events (text_lines [demo_event ''hi''])) =
      (Ok ''hi'' :: (string, string) go_result)"
    "lr_content (response_of_text []) = []"
    by code_simp+
  then show ?thesis using codex_long_line_lost [OF e l, of "[]"] by simp
qed

text \<open>
  The calls of an assistant message are not part of the prompt: the model reads results for identifiers it never
  sees.
\<close>

lemma prompt_forgets_tool_calls:
  "messages_to_prompt (ms @ [m\<lparr>msg_tool_calls := tcs\<rparr>] @ ms') = messages_to_prompt (ms @ [m] @ ms') \<and>
   codex_prompt fmt (ms @ [m\<lparr>msg_tool_calls := tcs\<rparr>] @ ms') tools = codex_prompt fmt (ms @ [m] @ ms') tools"
proof -
  have "claude_part (m\<lparr>msg_tool_calls := tcs\<rparr>) = claude_part m" "codex_part (m\<lparr>msg_tool_calls := tcs\<rparr>) = codex_part m"
    "is_system (m\<lparr>msg_tool_calls := tcs\<rparr>) = is_system m"
    by (simp_all add: claude_part_def codex_part_def is_system_def tool_result_line_def)
  then show ?thesis
    by (simp add: messages_to_prompt_def codex_prompt_def map_filter_def)
qed

end
