(* ===== verification/Openai_Compat.thy ===== *)
theory Openai_Compat
  imports Cli_Providers Error_Classifier
begin

text \<open>
  The client of OpenAI-compatible services, \<open>pkg/providers/openai_compat/provider.go\<close>: the JSON of a request, the
  arguments of tool calls and the response read from JSON, and the errors.  Sending a request is a parameter, as are
  the host of the configured URL and how a float is printed.
\<close>

section \<open>The provider\<close>

record openai_provider =
  oa_api_key :: string
  oa_api_base :: string
  oa_max_tokens_field :: string
  oa_timeout :: int

definition default_request_timeout :: int where "default_request_timeout = 120 * 10 ^ 9"

definition with_max_tokens_field :: "string \<Rightarrow> openai_provider \<Rightarrow> openai_provider" where
  "with_max_tokens_field f p = p\<lparr>oa_max_tokens_field := f\<rparr>"

definition with_request_timeout :: "int \<Rightarrow> openai_provider \<Rightarrow> openai_provider" where
  "with_request_timeout t p = (if 0 < t then p\<lparr>oa_timeout := t\<rparr> else p)"

definition trim_right_slashes :: "string \<Rightarrow> string" where
  "trim_right_slashes s = rev (dropWhile (\<lambda>c. c = CHR ''/'') (rev s))"

definition new_openai_provider :: "string \<Rightarrow> string \<Rightarrow> (openai_provider \<Rightarrow> openai_provider) list \<Rightarrow> openai_provider" where
  "new_openai_provider key base opts = fold (\<lambda>f p. f p) opts
     \<lparr>oa_api_key = key, oa_api_base = trim_right_slashes base, oa_max_tokens_field = [],
      oa_timeout = default_request_timeout\<rparr>"

section \<open>The request\<close>

definition openai_message_json :: "message \<Rightarrow> json" where
  "openai_message_json m = J_Obj ([(''role'', J_Str (msg_role m)), (''content'', J_Str (msg_content m))] @
     omit (msg_reasoning m = []) ''reasoning_content'' (J_Str (msg_reasoning m)) @
     omit (msg_tool_calls m = []) ''tool_calls'' (J_Arr (map tool_call_json (msg_tool_calls m))) @
     omit (msg_tool_call_id m = []) ''tool_call_id'' (J_Str (msg_tool_call_id m)))"

text \<open>With media the content is a list of parts, and the message a map, whose keys are sorted.\<close>

definition media_parts :: "message \<Rightarrow> json list" where
  "media_parts m =
    (if msg_content m = [] then [] else [J_Obj [(''text'', J_Str (msg_content m)), (''type'', J_Str ''text'')]]) @
    map (\<lambda>u. J_Obj [(''image_url'', J_Obj [(''url'', J_Str u)]), (''type'', J_Str ''image_url'')])
      (filter (\<lambda>u. prefix ''data:image/'' u) (msg_media m))"

definition multipart_message_json :: "message \<Rightarrow> json" where
  "multipart_message_json m = J_Obj ([(''content'', J_Arr (media_parts m))] @
     omit (msg_reasoning m = []) ''reasoning_content'' (J_Str (msg_reasoning m)) @
     [(''role'', J_Str (msg_role m))] @
     omit (msg_tool_call_id m = []) ''tool_call_id'' (J_Str (msg_tool_call_id m)) @
     omit (msg_tool_calls m = []) ''tool_calls'' (J_Arr (map tool_call_json (msg_tool_calls m))))"

definition serialize_messages :: "message list \<Rightarrow> json" where
  "serialize_messages ms = J_Arr (map (\<lambda>m. if msg_media m = [] then openai_message_json m else multipart_message_json m) ms)"

definition str_cut :: "char \<Rightarrow> string \<Rightarrow> (string \<times> string) option" where
  "str_cut c s = (if c \<in> set s then Some (takeWhile (\<lambda>x. x \<noteq> c) s, tl (dropWhile (\<lambda>x. x \<noteq> c) s)) else None)"

definition routing_prefixes :: "string list" where
  "routing_prefixes = [''litellm'', ''moonshot'', ''nvidia'', ''groq'', ''ollama'', ''deepseek'', ''google'',
     ''openrouter'', ''zhipu'', ''mistral'', ''vivgrid'', ''minimax'']"

definition normalize_model :: "string \<Rightarrow> string \<Rightarrow> string" where
  "normalize_model model api_base = (case str_cut (CHR ''/'') model of
     None \<Rightarrow> model
   | Some (before, after) \<Rightarrow>
      (if str_contains (to_lower api_base) ''openrouter.ai'' then model
       else if to_lower before \<in> set routing_prefixes then after else model))"

text \<open>A float is converted to an int by truncation.\<close>

definition as_int :: "go_any option \<Rightarrow> int option" where
  "as_int v = (case v of Some (Any_Int i) \<Rightarrow> Some i
     | Some (Any_Num q) \<Rightarrow> Some (if 0 \<le> q then \<lfloor>q\<rfloor> else \<lceil>q\<rceil>) | _ \<Rightarrow> None)"

definition as_float :: "go_any option \<Rightarrow> rat option" where
  "as_float v = (case v of Some (Any_Int i) \<Rightarrow> Some (of_int i) | Some (Any_Num q) \<Rightarrow> Some q | _ \<Rightarrow> None)"

definition tokens_field :: "openai_provider \<Rightarrow> string \<Rightarrow> string" where
  "tokens_field p model =
    (if oa_max_tokens_field p \<noteq> [] then oa_max_tokens_field p
     else if list_ex (\<lambda>n. str_contains (to_lower model) n) [''glm'', ''o1'', ''gpt-5''] then ''max_completion_tokens''
     else ''max_tokens'')"

definition request_temperature :: "string \<Rightarrow> rat \<Rightarrow> rat" where
  "request_temperature model t =
    (if str_contains (to_lower model) ''kimi'' \<and> str_contains (to_lower model) ''k2'' then 1 else t)"

text \<open>\<open>hostname\<close> is the host of a URL that parses.\<close>

definition supports_prompt_cache_key :: "(string \<Rightarrow> string option) \<Rightarrow> string \<Rightarrow> bool" where
  "supports_prompt_cache_key hostname base = (case hostname base of
     None \<Rightarrow> False | Some h \<Rightarrow> h = ''api.openai.com'' \<or> suffix ''.openai.azure.com'' h)"

definition tool_definition_json :: "(rat \<Rightarrow> string) \<Rightarrow> tool_definition \<Rightarrow> json" where
  "tool_definition_json fmt t = J_Obj [(''type'', J_Str ''function''),
     (''function'', J_Obj [(''name'', J_Str (td_name t)), (''description'', J_Str (td_description t)),
        (''parameters'', any_json fmt (Any_Map (td_parameters t)))])]"

text \<open>The map of the request, in the order its keys are set.\<close>

definition request_entries :: "(string \<Rightarrow> string option) \<Rightarrow> (rat \<Rightarrow> string) \<Rightarrow> openai_provider \<Rightarrow> message list \<Rightarrow>
    tool_definition list \<Rightarrow> string \<Rightarrow> go_args \<Rightarrow> (string \<times> json) list" where
  "request_entries hostname fmt p ms tools model opts =
    [(''model'', J_Str model), (''messages'', serialize_messages ms)] @
    (if tools = [] then [] else [(''tools'', J_Arr (map (tool_definition_json fmt) tools)), (''tool_choice'', J_Str ''auto'')]) @
    (case as_int (map_of opts ''max_tokens'') of None \<Rightarrow> [] | Some n \<Rightarrow> [(tokens_field p model, J_Num (itoa n))]) @
    (case as_float (map_of opts ''temperature'') of None \<Rightarrow> []
     | Some t \<Rightarrow> [(''temperature'', J_Num (fmt (request_temperature model t)))]) @
    (case map_of opts ''prompt_cache_key'' of
       Some (Any_Str k) \<Rightarrow> if k \<noteq> [] \<and> supports_prompt_cache_key hostname (oa_api_base p) then [(''prompt_cache_key'', J_Str k)] else []
     | _ \<Rightarrow> [])"

definition request_body :: "(string \<Rightarrow> string option) \<Rightarrow> (rat \<Rightarrow> string) \<Rightarrow> openai_provider \<Rightarrow> message list \<Rightarrow>
    tool_definition list \<Rightarrow> string \<Rightarrow> go_args \<Rightarrow> json" where
  "request_body hostname fmt p ms tools model opts =
    J_Obj (sort_key fst (fold (\<lambda>kv m. AList.update (fst kv) (snd kv) m)
      (request_entries hostname fmt p ms tools (normalize_model model (oa_api_base p)) opts) []))"

section \<open>The response\<close>

text \<open>The map is never nil but for the string \<open>null\<close>, which makes it so; \<open>None\<close> is nil.\<close>

definition unmarshal_into_map :: "string \<Rightarrow> go_args option option" where
  "unmarshal_into_map s = (case parse_json s of
     Some J_Null \<Rightarrow> Some None
   | Some (J_Obj kvs) \<Rightarrow> (case json_any (J_Obj kvs) of Any_Map m \<Rightarrow> Some (Some m) | _ \<Rightarrow> None)
   | _ \<Rightarrow> None)"

definition decode_tool_call_arguments :: "string \<Rightarrow> go_args option" where
  "decode_tool_call_arguments raw0 =
    (let raw = trim_space raw0 in
     if raw = [] \<or> raw = ''null'' then Some []
     else case parse_json raw of
       None \<Rightarrow> Some [(''raw'', Any_Str raw)]
     | Some (J_Str v) \<Rightarrow>
        (if trim_space v = [] then Some []
         else case unmarshal_into_map v of Some m \<Rightarrow> m | None \<Rightarrow> Some [(''raw'', Any_Str v)])
     | Some (J_Obj kvs) \<Rightarrow> (case json_any (J_Obj kvs) of Any_Map m \<Rightarrow> Some m | _ \<Rightarrow> Some [])
     | Some _ \<Rightarrow> Some [(''raw'', Any_Str raw)])"

text \<open>
  The raw text of the arguments of a call: of a decoded value only, so it is the value printed again (blanks within it
  are not kept, which only a value that is no object, printed to the model as it is, can show).
\<close>

definition raw_message :: "json \<Rightarrow> string" where
  "raw_message j = print_json j"

record wire_call =
  wc_id :: string
  wc_function :: "(string \<times> string) option"
  wc_signature :: string

definition json_wire_function :: "(string \<times> json) list \<Rightarrow> json \<Rightarrow> (string \<times> string) option" where
  "json_wire_function outer = dec_struct (\<lambda>kvs.
     case dec_string (jfield kvs ''name'') of None \<Rightarrow> None
     | Some n \<Rightarrow> Some (n, if has_key kvs ''arguments'' then raw_message (jfield kvs ''arguments'') else []))"

definition json_wire_call :: "json \<Rightarrow> wire_call option" where
  "json_wire_call = dec_struct (\<lambda>kvs.
     case (dec_string (jfield kvs ''id''), dec_string (jfield kvs ''type''),
           dec_pointer (json_wire_function kvs) (jfield kvs ''function''),
           dec_pointer json_extra_content (jfield kvs ''extra_content'')) of
       (Some i, Some t, Some f, Some e) \<Rightarrow>
         Some \<lparr>wc_id = i, wc_function = f,
           wc_signature = (case Option.bind e ec_google of Some g \<Rightarrow> ge_thought_signature g | None \<Rightarrow> [])\<rparr>
     | _ \<Rightarrow> None)"

definition call_of_wire :: "wire_call \<Rightarrow> tool_call" where
  "call_of_wire w =
    \<lparr>tc_id = wc_id w, tc_type = [], tc_function = None,
     tc_name = (case wc_function w of Some (n, a) \<Rightarrow> n | None \<Rightarrow> []),
     tc_arguments = (case wc_function w of Some (n, a) \<Rightarrow> decode_tool_call_arguments a | None \<Rightarrow> Some []),
     tc_thought_signature = wc_signature w,
     tc_extra_content = (if wc_signature w = [] then None
        else Some \<lparr>ec_google = Some \<lparr>ge_thought_signature = wc_signature w\<rparr>\<rparr>)\<rparr>"

definition json_reasoning_detail :: "json \<Rightarrow> unit option" where
  "json_reasoning_detail = dec_struct (\<lambda>kvs.
     if all_strings kvs [''format'', ''type'', ''text''] \<and> all_ints kvs [''index''] then Some () else None)"

definition json_usage :: "json \<Rightarrow> usage_info option" where
  "json_usage = dec_struct (\<lambda>kvs.
     case (dec_int (jfield kvs ''prompt_tokens''), dec_int (jfield kvs ''completion_tokens''), dec_int (jfield kvs ''total_tokens'')) of
       (Some a, Some b, Some c) \<Rightarrow> Some \<lparr>us_prompt = a, us_completion = b, us_total = c\<rparr> | _ \<Rightarrow> None)"

definition json_choice_message :: "json \<Rightarrow> (string \<times> string \<times> string \<times> wire_call list) option" where
  "json_choice_message = dec_struct (\<lambda>kvs.
     if dec_list json_reasoning_detail (jfield kvs ''reasoning_details'') = None then None
     else case (dec_string (jfield kvs ''content''), dec_string (jfield kvs ''reasoning_content''),
           dec_string (jfield kvs ''reasoning''), dec_list json_wire_call (jfield kvs ''tool_calls'')) of
       (Some c, Some rc, Some r, Some tcs) \<Rightarrow> Some (c, rc, r, tcs) | _ \<Rightarrow> None)"

definition json_choice :: "json \<Rightarrow> llm_response option" where
  "json_choice = dec_struct (\<lambda>kvs.
     case (json_choice_message (jfield kvs ''message''), dec_string (jfield kvs ''finish_reason'')) of
       (Some (c, rc, r, tcs), Some fin) \<Rightarrow>
         Some \<lparr>lr_content = c, lr_reasoning_content = rc, lr_tool_calls = map call_of_wire tcs, lr_finish_reason = fin,
           lr_reasoning = r\<rparr>
     | _ \<Rightarrow> None)"

definition json_api_response :: "json \<Rightarrow> cli_answer option" where
  "json_api_response = dec_struct (\<lambda>kvs.
     case (dec_list json_choice (jfield kvs ''choices''), dec_pointer json_usage (jfield kvs ''usage'')) of
       (Some [], Some u) \<Rightarrow> Some (\<lparr>lr_content = [], lr_reasoning_content = [], lr_tool_calls = [], lr_finish_reason = ''stop'',
           lr_reasoning = []\<rparr>, None)
     | (Some (c # _), Some u) \<Rightarrow> Some (c, u)
     | _ \<Rightarrow> None)"

text \<open>A \<open>Decoder\<close> reads the first value and leaves the rest.\<close>

definition decode_first :: "string \<Rightarrow> json option" where
  "decode_first s = map_option fst (parse_value (2 * length s) max_nesting_depth s)"

definition parse_response :: "string \<Rightarrow> (string, cli_answer) go_result" where
  "parse_response body = (case Option.bind (decode_first body) json_api_response of
     None \<Rightarrow> Err ''failed to decode response'' | Some r \<Rightarrow> Ok r)"

section \<open>Errors\<close>

definition leading_trimmed_prefix :: "string \<Rightarrow> nat \<Rightarrow> string" where
  "leading_trimmed_prefix body n =
    take n (dropWhile (\<lambda>c. c \<in> set [CHR '' '', CHR 0x09, CHR 0x0A, CHR 0x0D, CHR 0x0C, CHR 0x0B]) body)"

definition looks_like_html :: "string \<Rightarrow> string \<Rightarrow> bool" where
  "looks_like_html body content_type =
    (let ct = to_lower (trim_space content_type); start = to_lower (leading_trimmed_prefix body 128) in
     str_contains ct ''text/html'' \<or> str_contains ct ''application/xhtml+xml'' \<or>
     list_ex (\<lambda>t. prefix t start) [''<!doctype html'', ''<html'', ''<head'', ''<body''])"

definition response_preview :: "string \<Rightarrow> nat \<Rightarrow> string" where
  "response_preview body n =
    (let t = trim_space body in if t = [] then ''<empty>'' else if length t \<le> n then t else take n t @ ''...'')"

definition status_lines :: "nat \<Rightarrow> string \<Rightarrow> string" where
  "status_lines status preview = [nl] @ ''  Status: '' @ itoa (int status) @ [nl] @ ''  Body:   '' @ preview"

definition wrap_html_response_error :: "nat \<Rightarrow> string \<Rightarrow> string \<Rightarrow> string \<Rightarrow> string" where
  "wrap_html_response_error status body content_type base =
    ''API request failed: '' @ base @ '' returned HTML instead of JSON (content-type: '' @ content_type @
    ''); check api_base or proxy configuration.'' @ status_lines status (response_preview body 128)"

record http_answer =
  ha_status :: nat
  ha_content_type :: string
  ha_body :: string

section \<open>A call\<close>

text \<open>\<open>send\<close> takes the URL, the value of the header for authorization and the body.\<close>

definition openai_chat :: "(string \<Rightarrow> string option \<Rightarrow> string \<Rightarrow> (string, http_answer) go_result) \<Rightarrow>
    (string \<Rightarrow> string option) \<Rightarrow> (rat \<Rightarrow> string) \<Rightarrow> openai_provider \<Rightarrow> message list \<Rightarrow> tool_definition list \<Rightarrow> string \<Rightarrow>
    go_args \<Rightarrow> (string, cli_answer) go_result" where
  "openai_chat send hostname fmt p ms tools model opts =
    (if oa_api_base p = [] then Err ''API base not configured''
     else case send (oa_api_base p @ ''/chat/completions'')
            (if oa_api_key p = [] then None else Some (''Bearer '' @ oa_api_key p))
            (print_json (request_body hostname fmt p ms tools model opts)) of
       Err e \<Rightarrow> Err (''failed to send request: '' @ e)
     | Ok resp \<Rightarrow>
        (let start = take 256 (ha_body resp) in
         if ha_status resp \<noteq> 200 then
           (if looks_like_html start (ha_content_type resp)
            then Err (wrap_html_response_error (ha_status resp) start (ha_content_type resp) (oa_api_base p))
            else Err (''API request failed:'' @ status_lines (ha_status resp) (response_preview start 128)))
         else if looks_like_html start (ha_content_type resp)
         then Err (wrap_html_response_error (ha_status resp) start (ha_content_type resp) (oa_api_base p))
         else case parse_response (ha_body resp) of
           Err e \<Rightarrow> Err (''failed to parse JSON response: '' @ e) | Ok r \<Rightarrow> Ok r))"

section \<open>What a request carries\<close>

text \<open>
  What a service reads of a message: the structured parts of the system prompt stay here, and of the media only
  images with their data are sent.
\<close>

definition wire_view :: "message \<Rightarrow> message" where
  "wire_view m = (json_view m)\<lparr>msg_system_parts := [], msg_media := filter (prefix ''data:image/'') (msg_media m)\<rparr>"

text \<open>The service's reading of a content: a string, or a list of parts that are texts or images.\<close>

definition json_image_url :: "json \<Rightarrow> string option" where
  "json_image_url = dec_struct (\<lambda>kvs. dec_string (jfield kvs ''url''))"

definition json_part :: "json \<Rightarrow> (string \<times> string list) option" where
  "json_part = dec_struct (\<lambda>kvs. case dec_string (jfield kvs ''type'') of
       None \<Rightarrow> None
     | Some t \<Rightarrow>
         (if t = ''text'' then map_option (\<lambda>s. (s, [])) (dec_string (jfield kvs ''text''))
          else if t = ''image_url'' then map_option (\<lambda>u. ([], [u])) (json_image_url (jfield kvs ''image_url''))
          else None))"

definition json_message_text :: "json \<Rightarrow> (string \<times> string list) option" where
  "json_message_text j = (case j of
     J_Arr ps \<Rightarrow> map_option (\<lambda>xs. (concat (map fst xs), concat (map snd xs))) (those (map json_part ps))
   | _ \<Rightarrow> map_option (\<lambda>s. (s, [])) (dec_string j))"

definition json_request_message :: "json \<Rightarrow> message option" where
  "json_request_message = dec_struct (\<lambda>kvs.
     case (dec_string (jfield kvs ''role''), json_message_text (jfield kvs ''content''),
           dec_string (jfield kvs ''reasoning_content''), dec_list json_tool_call (jfield kvs ''tool_calls''),
           dec_string (jfield kvs ''tool_call_id'')) of
       (Some r, Some (c, images), Some rc, Some tcs, Some i) \<Rightarrow>
         Some \<lparr>msg_role = r, msg_content = c, msg_media = images, msg_reasoning = rc, msg_system_parts = [],
           msg_tool_calls = tcs, msg_tool_call_id = i\<rparr>
     | _ \<Rightarrow> None)"

definition message_sent :: "message \<Rightarrow> json" where
  "message_sent m = (if msg_media m = [] then openai_message_json m else multipart_message_json m)"

lemma those_map_Some: "(\<And>x. x \<in> set xs \<Longrightarrow> f x = Some (g x)) \<Longrightarrow> those (map f xs) = Some (map g xs)"
  by (induction xs) auto

lemma part_names [simp]:
  "equal_fold ''type'' ''text'' \<longleftrightarrow> False" "equal_fold ''text'' ''type'' \<longleftrightarrow> False"
  "equal_fold ''image_url'' ''type'' \<longleftrightarrow> False" "equal_fold ''type'' ''image_url'' \<longleftrightarrow> False"
  "equal_fold ''text'' ''text'' \<longleftrightarrow> True" "equal_fold ''type'' ''type'' \<longleftrightarrow> True"
  "equal_fold ''image_url'' ''image_url'' \<longleftrightarrow> True" "equal_fold ''url'' ''url'' \<longleftrightarrow> True"
  by code_simp+

lemma json_part_text: "json_part (J_Obj [(''text'', J_Str s), (''type'', J_Str ''text'')]) = Some (s, [])"
  by (simp add: json_part_def dec_struct_def jfield_def dec_string_def)

lemma json_part_image:
  "json_part (J_Obj [(''image_url'', J_Obj [(''url'', J_Str u)]), (''type'', J_Str ''image_url'')]) = Some ([], [u])"
  by (simp add: json_part_def json_image_url_def dec_struct_def jfield_def dec_string_def)

lemma json_message_text_parts:
  "json_message_text (J_Arr (media_parts m)) = Some (msg_content m, filter (prefix ''data:image/'') (msg_media m))"
proof -
  have "concat (map (\<lambda>u. []) us) = []" "concat (map (\<lambda>u. [u]) us) = us" for us :: "string list"
    by (induction us) auto
  then show ?thesis
    by (simp add: json_message_text_def media_parts_def json_part_text json_part_image those_map_Some comp_def)
qed

lemma json_request_message_plain:
  "msg_media m = [] \<Longrightarrow> json_request_message (openai_message_json m) = Some (wire_view m)"
  unfolding openai_message_json_def json_request_message_def
  by (simp add: field_simps_json wire_view_def json_view_def json_message_text_def del: to_lower_simps)

lemma json_request_message_media: "json_request_message (multipart_message_json m) = Some (wire_view m)"
  unfolding multipart_message_json_def json_request_message_def
  by (simp add: field_simps_json wire_view_def json_view_def json_message_text_parts del: to_lower_simps)

lemma json_request_message_sent: "json_request_message (message_sent m) = Some (wire_view m)"
  by (simp add: message_sent_def json_request_message_plain json_request_message_media)

lemma message_sent_fits: "json_fits 5 (message_sent m)"
  using tool_call_json_fits
  by (auto simp: message_sent_def openai_message_json_def multipart_message_json_def media_parts_def set_omit)

lemma part_names_utf8:
  "valid_utf8 ''text''" "valid_utf8 ''type''" "valid_utf8 ''image_url''" "valid_utf8 ''url''" "valid_utf8 ''content''"
  "valid_utf8 ''role''" "valid_utf8 ''reasoning_content''" "valid_utf8 ''tool_calls''" "valid_utf8 ''tool_call_id''"
  by (rule ascii_utf8, auto simp: byte_Char)+

lemma message_sent_utf8: "json_utf8 (message_json m) \<Longrightarrow> json_utf8 (message_sent m)"
proof -
  assume "json_utf8 (message_json m)"
  then have u: "valid_utf8 (msg_role m)" "valid_utf8 (msg_content m)" "\<forall>u\<in>set (msg_media m). valid_utf8 u"
    "msg_reasoning m \<noteq> [] \<Longrightarrow> valid_utf8 (msg_reasoning m)" "msg_tool_call_id m \<noteq> [] \<Longrightarrow> valid_utf8 (msg_tool_call_id m)"
    "\<forall>tc\<in>set (msg_tool_calls m). json_utf8 (tool_call_json tc)"
    by (simp_all add: message_json_def set_omit split: if_splits)
  have "\<forall>j\<in>set (media_parts m). json_utf8 j" using u(2,3) part_names_utf8 by (auto simp: media_parts_def)
  then show ?thesis using u part_names_utf8
    by (auto simp: message_sent_def openai_message_json_def multipart_message_json_def set_omit)
qed

text \<open>
  C10: The messages of a request, with their media or without, are read back from its JSON in their order: role, text,
  images, reasoning, tool calls and the id of the call answered.
\<close>

theorem request_messages_read_back:
  assumes "\<forall>m\<in>set ms. json_utf8 (message_json m)"
  shows "Option.bind (parse_json (print_json (serialize_messages ms))) (dec_list json_request_message) =
    Some (map wire_view ms)"
proof -
  have s: "serialize_messages ms = J_Arr (map message_sent ms)" by (simp add: serialize_messages_def message_sent_def)
  have "json_fits 6 (serialize_messages ms)" unfolding s using message_sent_fits by simp
  then have "json_fits max_nesting_depth (serialize_messages ms)"
    by (rule json_fits_mono) (simp add: max_nesting_depth_def)
  moreover have "json_utf8 (serialize_messages ms)" unfolding s using assms message_sent_utf8 by auto
  ultimately have "parse_json (print_json (serialize_messages ms)) = Some (serialize_messages ms)"
    using parse_print_json clean_utf8 by simp
  then show ?thesis by (simp add: s comp_def those_map_Some json_request_message_sent)
qed

definition demo_exchange :: "message list" where
  "demo_exchange = [(mk_message ''user'' ''hi'')\<lparr>msg_media := [''data:image/png;base64,aGk='', ''media://1'']\<rparr>,
     (mk_message ''assistant'' [])\<lparr>msg_tool_calls := [\<lparr>tc_id = ''c1'', tc_type = ''function'',
        tc_function = Some \<lparr>fc_name = ''f'', fc_arguments = ''{}'', fc_thought_signature = []\<rparr>, tc_name = ''f'',
        tc_arguments = Some [], tc_thought_signature = [], tc_extra_content = None\<rparr>]\<rparr>,
     (mk_message ''tool'' ''ok'')\<lparr>msg_tool_call_id := ''c1''\<rparr>]"

lemma request_messages_read_back_witness:
  "map_option (map (\<lambda>m. (msg_role m, msg_content m, msg_media m)))
     (Option.bind (parse_json (print_json (serialize_messages demo_exchange))) (dec_list json_request_message)) =
    Some [(''user'', ''hi'', [''data:image/png;base64,aGk='']), (''assistant'', [], []), (''tool'', ''ok'', [])]"
proof -
  have "\<forall>m\<in>set demo_exchange. json_utf8 (message_json m)"
    by (auto simp: demo_exchange_def mk_message_def message_json_def tool_call_json_def function_call_json_def set_omit
        byte_Char intro!: ascii_utf8)
  from request_messages_read_back [OF this] show ?thesis
    by (simp add: demo_exchange_def wire_view_def json_view_def mk_message_def)
qed

section \<open>Arguments\<close>

lemma quoted_trimmed: "trim_space (quoted s) = quoted s"
proof (rule trim_space_fixed)
  have "not_spacey quote" by code_simp
  then show "not_spacey (hd (quoted s)) \<and> not_spacey (last (quoted s))" by (simp add: quoted_def)
qed

text \<open>Arguments sent as a string of JSON are the map of that string, and kept as text if it is none.\<close>

lemma string_arguments:
  assumes "valid_utf8 s" "trim_space s \<noteq> []"
  shows "decode_tool_call_arguments (print_json (J_Str s)) =
    (case unmarshal_into_map s of Some m \<Rightarrow> m | None \<Rightarrow> Some [(''raw'', Any_Str s)])"
proof -
  have "parse_json (quoted s) = Some (J_Str s)"
    using parse_print_json [of "J_Str s"] assms(1) by (simp add: valid_utf8_def)
  then show ?thesis using assms(2) quoted_trimmed [of s] by (simp add: decode_tool_call_arguments_def quoted_def)
qed

section \<open>Errors and the fallback chain\<close>

lemma demo_504: "classify_error (Error_Msg (''API request failed:'' @ status_lines 504 ''<empty>'')) ''p'' ''m'' = None"
  by code_simp

definition classified_codes :: "nat list" where
  "classified_codes = [400, 401, 402, 403, 408, 429] @ transient_status_codes"

lemma rx_run_lit: "w \<noteq> [] \<Longrightarrow> rx_run (rx_lit w) (b, s) = (if prefix w s then [(rev w @ b, drop (length w) s)] else [])"
proof (induction w arbitrary: b s)
  case (Cons c w)
  show ?case
  proof (cases w)
    case Nil
    then show ?thesis by (cases s) (auto simp: rx_lit_def rx_chr_def)
  next
    case (Cons d u)
    then have "rx_lit (c # w) = Rx_Seq (rx_chr c) (rx_lit w)" by (simp add: rx_lit_def)
    then show ?thesis using Cons.IH Cons by (cases s) (auto simp: rx_chr_def)
  qed
qed simp

lemma star_stop: "f st = [] \<Longrightarrow> star_run f n st = [st]"
  by (cases n) simp_all

lemma seq_run: "rx_run (Rx_Seq r1 r2) st = concat (map (rx_run r2) (rx_run r1 st))"
  by simp

definition status_tail :: rx where
  "status_tail = Rx_Seq (rx_plus (rx_in [CHR '':'', CHR 0x09, CHR 0x0A, CHR 0x0C, CHR 0x0D, CHR 0x20]))
     (rx_seq [rx_digit, rx_digit, rx_digit])"

lemma status_pattern: "http_status_patterns ! 0 = Rx_Seq (rx_lit ''status'') status_tail"
  by (simp add: http_status_patterns_def status_tail_def)

lemma run_status: "rx_run (Rx_Seq (rx_lit ''status'') status_tail) (b, s) =
    (if prefix ''status'' s then rx_run status_tail (rev ''status'' @ b, drop 6 s) else [])"
  by (simp add: rx_run_lit numeral_eq_Suc del: rev.simps)

lemma run_status_tail:
  assumes "is_digit_char x" "is_digit_char y" "is_digit_char z"
  shows "\<exists>sts. rx_run status_tail (b, '': '' @ [x, y, z] @ rest) = (rev ('': '' @ [x, y, z]) @ b, rest) # sts"
proof -
  let ?blank = "rx_in [CHR '':'', CHR 0x09, CHR 0x0A, CHR 0x0C, CHR 0x0D, CHR 0x20]"
  have d: "byte (CHR ''0'') \<le> byte c \<and> byte c \<le> byte (CHR ''9'')" if "is_digit_char c" for c
    using that by (simp add: is_digit_char_def byte_Char)
  have "x \<notin> set [CHR '':'', CHR 0x09, CHR 0x0A, CHR 0x0C, CHR 0x0D, CHR 0x20]"
    using assms(1) by (auto simp: is_digit_char_def byte_Char)
  then have x: "x \<noteq> c" if "c \<in> set [CHR '':'', CHR 0x09, CHR 0x0A, CHR 0x0C, CHR 0x0D, CHR 0x20]" for c
    using that by blast
  then have "star_run (rx_run ?blank) n (b', x # t) = [(b', x # t)]" for n b' t
    by (intro star_stop) (simp add: rx_in_def)
  then have plus: "rx_run (rx_plus ?blank) (b, '': '' @ [x, y, z] @ rest) =
      [(CHR '' '' # CHR '':'' # b, x # y # z # rest), (CHR '':'' # b, CHR '' '' # x # y # z # rest)]"
    using x by (simp add: rx_plus_def) (simp add: rx_in_def)
  show ?thesis unfolding status_tail_def seq_run plus
    using d [OF assms(1)] d [OF assms(2)] d [OF assms(3)] by (simp add: rx_digit_def rx_range_def)
qed

text \<open>A text in which \<open>status\<close> does not stand is passed over, up to a blank behind it.\<close>

lemma prefix_sep: "c \<notin> set w \<Longrightarrow> prefix w (a @ c # b) \<longleftrightarrow> prefix w a"
proof (induction a arbitrary: w)
  case (Cons x a)
  then show ?case by (cases w) auto
qed (auto simp: prefix_Cons)

lemma sublist_sep: "c \<notin> set w \<Longrightarrow> w \<noteq> [] \<Longrightarrow> sublist w (a @ c # b) \<longleftrightarrow> sublist w a \<or> sublist w b"
  by (induction a) (auto simp: sublist_Cons_right prefix_sep [of c w "x # a" b for x a, simplified] prefix_sep [of c w "[]" b, simplified])

lemma find_skip: "\<not> sublist ''status'' pre \<Longrightarrow>
    rx_find_from (Rx_Seq (rx_lit ''status'') status_tail) b (pre @ CHR '' '' # s) =
    rx_find_from (Rx_Seq (rx_lit ''status'') status_tail) (CHR '' '' # rev pre @ b) s"
proof (induction pre arbitrary: b)
  case (Cons c pre)
  have "\<not> prefix ''status'' (c # pre)" using Cons.prems by (simp add: sublist_Cons_right)
  then have "\<not> prefix ''status'' ((c # pre) @ CHR '' '' # s)" by (subst prefix_sep) simp_all
  then have "rx_run (Rx_Seq (rx_lit ''status'') status_tail) (b, (c # pre) @ CHR '' '' # s) = []" by (simp only: run_status if_False)
  then show ?case using Cons by (simp add: sublist_Cons_right del: seq_run rx_run.simps)
qed (simp add: run_status del: seq_run rx_run.simps)

lemma find_status_at:
  assumes "is_digit_char x" "is_digit_char y" "is_digit_char z" "\<not> sublist ''status'' pre"
  shows "rx_find_string (http_status_patterns ! 0) (pre @ CHR '' '' # ''status: '' @ [x, y, z] @ rest) =
    Some (''status: '' @ [x, y, z])"
proof -
  let ?b = "CHR '' '' # rev pre"
  obtain sts where run: "rx_run (Rx_Seq (rx_lit ''status'') status_tail) (?b, ''status: '' @ [x, y, z] @ rest) =
      (rev (''status: '' @ [x, y, z]) @ ?b, rest) # sts"
    using run_status_tail [OF assms(1-3), of "rev ''status'' @ ?b" rest] unfolding run_status by auto
  show ?thesis using run find_skip [OF assms(4), of "[]" "''status: '' @ [x, y, z] @ rest"]
    unfolding status_pattern rx_find_string_def by simp
qed

lemma classified_code_digits:
  assumes "st \<in> set classified_codes"
  obtains x y z where "itoa (int st) = [x, y, z]" "is_digit_char x" "is_digit_char y" "is_digit_char z" "parse_digits [x, y, z] = st"
proof -
  have "list_all (\<lambda>st. case itoa (int st) of
      [x, y, z] \<Rightarrow> is_digit_char x \<and> is_digit_char y \<and> is_digit_char z \<and> parse_digits [x, y, z] = st
    | _ \<Rightarrow> False) classified_codes" by code_simp
  then have "case itoa (int st) of
      [x, y, z] \<Rightarrow> is_digit_char x \<and> is_digit_char y \<and> is_digit_char z \<and> parse_digits [x, y, z] = st
    | _ \<Rightarrow> False" using assms unfolding list_all_iff by blast
  then show thesis using that by (auto split: list.splits)
qed

lemma extract_first:
  assumes "rx_find_string (http_status_patterns ! 0) msg = Some t"
  shows "extract_http_status msg = parse_digits (last_n 3 t)"
proof -
  obtain r rs where h: "http_status_patterns = r # rs" by (simp add: http_status_patterns_def)
  show ?thesis using assms unfolding extract_http_status_def h by (simp add: map_filter_simps)
qed

lemma status_found:
  assumes "st \<in> set classified_codes" "\<not> sublist ''status'' (to_lower pre)"
  shows "extract_http_status (to_lower (pre @ status_lines st preview)) = st"
proof -
  obtain x y z where xyz: "itoa (int st) = [x, y, z]" "is_digit_char x" "is_digit_char y" "is_digit_char z" "parse_digits [x, y, z] = st"
    using classified_code_digits [OF assms(1)] .
  have d: "lower_char c = c" if "is_digit_char c" for c
    using that by (intro lower_char_id) (auto simp: is_digit_char_def is_upper_char_def byte_Char)
  have split: "to_lower (pre @ status_lines st preview) =
      (to_lower pre @ [nl, CHR '' '']) @ CHR '' '' # ''status: '' @ [x, y, z] @ [nl] @ ''  body:   '' @ to_lower preview"
  proof -
    have l: "to_lower [nl] = [nl]" "to_lower ''  Status: '' = ''  status: ''" "to_lower ''  Body:   '' = ''  body:   ''" by code_simp+
    have "to_lower [x, y, z] = [x, y, z]" using d xyz(2-4) by simp
    moreover have "to_lower (a @ b) = to_lower a @ to_lower b" for a b by (simp add: to_lower_def)
    ultimately show ?thesis unfolding status_lines_def xyz(1) by (simp only: l) simp
  qed
  have "\<not> sublist ''status'' (to_lower pre @ [nl, CHR '' ''])"
    using assms(2) sublist_sep [of nl "''status''" "to_lower pre" "'' ''"] by (auto simp: nl_def dest: sublist_length_le)
  then have "rx_find_string (http_status_patterns ! 0) (to_lower (pre @ status_lines st preview)) =
      Some (''status: '' @ [x, y, z])"
    unfolding split by (rule find_status_at [OF xyz(2-4)])
  from extract_first [OF this] show ?thesis using xyz(5) by (simp add: last_n_def)
qed

text \<open>The text of the error that comes before the status: that of a page of HTML names the URL and the content type.\<close>

definition error_start :: "openai_provider \<Rightarrow> http_answer \<Rightarrow> string" where
  "error_start p resp =
    (if looks_like_html (take 256 (ha_body resp)) (ha_content_type resp)
     then ''API request failed: '' @ oa_api_base p @ '' returned HTML instead of JSON (content-type: '' @
       ha_content_type resp @ ''); check api_base or proxy configuration.''
     else ''API request failed:'')"

definition names_status :: "string \<Rightarrow> bool" where
  "names_status s \<longleftrightarrow> str_contains (to_lower s) ''status''"

lemma error_start_plain:
  assumes "looks_like_html (take 256 (ha_body resp)) (ha_content_type resp) \<longrightarrow>
    \<not> names_status (oa_api_base p) \<and> \<not> names_status (ha_content_type resp)"
  shows "\<not> sublist ''status'' (to_lower (error_start p resp))"
proof -
  let ?mid = "''returned html instead of json (content-type:''" and ?rest_text = "''; check api_base or proxy configuration.''"
  have c: "\<not> sublist ''status'' ''api request failed:''" "\<not> sublist ''status'' ?mid" "\<not> sublist ''status'' ?rest_text"
    by code_simp+
  have w: "''status'' \<noteq> []" "CHR '' '' \<notin> set ''status''" "CHR '')'' \<notin> set ''status''" by simp_all
  have split: "\<not> sublist ''status'' (''api request failed:'' @ CHR '' '' # a @ CHR '' '' # ?mid @ CHR '' '' # b @ CHR '')'' # ?rest_text)"
    if "\<not> sublist ''status'' a" "\<not> sublist ''status'' b" for a b
    unfolding sublist_sep [OF w(2,1)] sublist_sep [OF w(3,1)] using c that by blast
  have l: "to_lower ''API request failed: '' = ''api request failed:'' @ [CHR '' '']" "to_lower ''API request failed:'' = ''api request failed:''"
    "to_lower '' returned HTML instead of JSON (content-type: '' = CHR '' '' # ?mid @ [CHR '' '']"
    "to_lower ''); check api_base or proxy configuration.'' = CHR '')'' # ?rest_text" by code_simp+
  have app: "to_lower (a @ b) = to_lower a @ to_lower b" for a b by (simp add: to_lower_def)
  have "to_lower (error_start p resp) =
      (if looks_like_html (take 256 (ha_body resp)) (ha_content_type resp)
       then ''api request failed:'' @ CHR '' '' # to_lower (oa_api_base p) @ CHR '' '' # ?mid @ CHR '' '' #
         to_lower (ha_content_type resp) @ CHR '')'' # ?rest_text
       else ''api request failed:'')"
    unfolding error_start_def if_distrib [of to_lower] app l by simp
  then show ?thesis using split c(1) assms by (simp only: names_status_def str_contains_iff split: if_split) blast
qed

lemma wrap_html_start: "wrap_html_response_error st b ct base =
    (''API request failed: '' @ base @ '' returned HTML instead of JSON (content-type: '' @ ct @
      ''); check api_base or proxy configuration.'') @ status_lines st (response_preview b 128)"
  by (simp add: wrap_html_response_error_def)


definition demo_provider :: openai_provider where
  "demo_provider = new_openai_provider ''k'' ''http://h/v1/'' [with_request_timeout 5]"

definition demo_page :: http_answer where
  "demo_page = \<lparr>ha_status = 429, ha_content_type = ''text/html'', ha_body = ''<html>slow down''\<rparr>"


end
