(* ===== verification/Wecom_Frames.thy ===== *)
theory Wecom_Frames
  imports Go_Strings Prelude "HOL-Library.Char_ord" "HOL-Library.List_Lexorder"
begin

text \<open>
  What the WeCom channels share (\<open>pkg/channels/wecom/common.go\<close>, \<open>dedupe.go\<close>): signatures, frames with their
  padding, and the window of messages already processed.  SHA-1, AES-CBC and base64 are parameters; what was encrypted
  is decrypted again, whatever the message.
\<close>

section \<open>Padding\<close>

definition block_size :: nat where "block_size = 32"

text \<open>The code tests for a padding of 0 after taking the remainder from the block size, which it never is.\<close>

definition pkcs7_pad :: "string \<Rightarrow> nat \<Rightarrow> string" where
  "pkcs7_pad data bs = (let p0 = bs - length data mod bs; p = (if p0 = 0 then bs else p0)
     in data @ replicate p (char_of p))"

definition pkcs7_unpad :: "string \<Rightarrow> (string, string) go_result" where
  "pkcs7_unpad data =
    (if data = [] then Ok data
     else let p = byte (last data) in
       if p = 0 \<or> p > block_size then Err ''invalid padding size''
       else if p > length data then Err ''padding size larger than data''
       else if \<exists>c\<in>set (drop (length data - p) data). c \<noteq> char_of p then Err ''invalid padding byte''
       else Ok (take (length data - p) data))"

lemma unpad_pad: "pkcs7_unpad (pkcs7_pad data block_size) = Ok data"
proof -
  define p where "p = block_size - length data mod block_size"
  have p: "0 < p" "p \<le> block_size" by (simp_all add: p_def block_size_def)
  then have "p < 256" by (simp add: block_size_def)
  then have "byte (last (data @ replicate p (char_of p))) = p" using p by simp
  then show ?thesis using p by (simp add: pkcs7_unpad_def pkcs7_pad_def p_def [symmetric] Let_def)
qed

lemma padded_length: "length (pkcs7_pad data block_size) mod block_size = 0 \<and> length data < length (pkcs7_pad data block_size)"
proof -
  define p where "p = block_size - length data mod block_size"
  have "length data mod block_size < block_size" by (simp add: block_size_def)
  then have "length data + p = (length data div block_size + 1) * block_size" "0 < p"
    using div_mult_mod_eq [of "length data" block_size] unfolding p_def by (simp_all only: add_mult_distrib)
  then show ?thesis by (simp add: pkcs7_pad_def p_def [symmetric] Let_def)
qed

section \<open>Frames\<close>

text \<open>Big-endian; a length is taken modulo 2 to the 32.\<close>

definition put_uint32 :: "nat \<Rightarrow> string" where
  "put_uint32 n = map char_of [n div 16777216 mod 256, n div 65536 mod 256, n div 256 mod 256, n mod 256]"

definition get_uint32 :: "string \<Rightarrow> nat" where
  "get_uint32 s = foldl (\<lambda>n c. n * 256 + byte c) 0 s"

lemma byte_char_mod: "byte (char_of n) = n mod 256"
  by (simp add: byte_def take_bit_eq_mod)

lemma get_put_uint32: "n < 2 ^ 32 \<Longrightarrow> get_uint32 (put_uint32 n) = n"
proof -
  assume n: "n < 2 ^ 32"
  define a b c where "a = n div 256" and "b = a div 256" and "c = b div 256"
  have e: "n div 65536 = b" "n div 16777216 = c" by (simp_all add: a_def b_def c_def div_mult2_eq [symmetric])
  have "c < 256" using n by (simp add: a_def b_def c_def div_mult2_eq [symmetric] less_mult_imp_div_less)
  moreover have "n = a * 256 + n mod 256" "a = b * 256 + a mod 256" "b = c * 256 + b mod 256"
    by (simp_all add: a_def b_def c_def div_mult_mod_eq)
  ultimately show ?thesis unfolding get_uint32_def put_uint32_def e
    by (simp add: byte_char_mod flip: a_def)
qed

text \<open>The first 16 bytes are random digits.\<close>

definition pack_wecom_frame :: "string \<Rightarrow> string \<Rightarrow> string \<Rightarrow> string" where
  "pack_wecom_frame random msg receiveid = random @ put_uint32 (length msg) @ msg @ receiveid"

definition unpack_wecom_frame :: "string \<Rightarrow> string \<Rightarrow> (string, string) go_result" where
  "unpack_wecom_frame data receiveid =
    (if length data < 20 then Err ''decrypted frame too short''
     else let n = get_uint32 (take 4 (drop 16 data)) in
       if n > length data - 20 then Err ''invalid message length''
       else if receiveid \<noteq> [] \<and> length data > 20 + n \<and> drop (20 + n) data \<noteq> receiveid then Err ''receiveid mismatch''
       else Ok (take n (drop 20 data)))"

lemma unpack_pack:
  assumes "length random = 16" "length msg < 2 ^ 32"
  shows "unpack_wecom_frame (pack_wecom_frame random msg receiveid) receiveid' =
    (if receiveid' \<noteq> [] \<and> receiveid \<noteq> [] \<and> receiveid \<noteq> receiveid' then Err ''receiveid mismatch'' else Ok msg)"
proof -
  have l: "length (put_uint32 n) = 4" for n by (simp add: put_uint32_def)
  then have "take 4 (drop 16 (pack_wecom_frame random msg receiveid)) = put_uint32 (length msg)"
    "drop 20 (pack_wecom_frame random msg receiveid) = msg @ receiveid"
    "drop (20 + length msg) (pack_wecom_frame random msg receiveid) = receiveid"
    "length (pack_wecom_frame random msg receiveid) = 20 + length msg + length receiveid"
    using assms(1) by (simp_all add: pack_wecom_frame_def)
  then show ?thesis using get_put_uint32 [OF assms(2)] by (auto simp: unpack_wecom_frame_def Let_def)
qed

section \<open>Signatures and encryption\<close>

record wecom_crypto =
  wy_sha1_hex :: "string \<Rightarrow> string"
  wy_encrypt :: "string \<Rightarrow> string \<Rightarrow> string"
  wy_decrypt :: "string \<Rightarrow> string \<Rightarrow> string"
  wy_base64 :: "string \<Rightarrow> string"
  wy_unbase64 :: "string \<Rightarrow> string option"

definition compute_signature :: "wecom_crypto \<Rightarrow> string \<Rightarrow> string \<Rightarrow> string \<Rightarrow> string \<Rightarrow> string" where
  "compute_signature wy token timestamp nonce encrypt = wy_sha1_hex wy (concat (sort [token, timestamp, nonce, encrypt]))"

definition verify_signature :: "wecom_crypto \<Rightarrow> string \<Rightarrow> string \<Rightarrow> string \<Rightarrow> string \<Rightarrow> string \<Rightarrow> bool" where
  "verify_signature wy token sig timestamp nonce encrypt \<longleftrightarrow>
    token \<noteq> [] \<and> compute_signature wy token timestamp nonce encrypt = sig"

definition decode_wecom_aes_key :: "wecom_crypto \<Rightarrow> string \<Rightarrow> (string, string) go_result" where
  "decode_wecom_aes_key wy encoded = (case wy_unbase64 wy (encoded @ ''='') of
     None \<Rightarrow> Err ''failed to decode AES key''
   | Some k \<Rightarrow> if length k \<noteq> 32 then Err ''invalid AES key length'' else Ok k)"

definition decrypt_aes_cbc :: "wecom_crypto \<Rightarrow> string \<Rightarrow> string \<Rightarrow> (string, string) go_result" where
  "decrypt_aes_cbc wy key cipher =
    (if cipher = [] then Err ''ciphertext is empty''
     else if length cipher mod 16 \<noteq> 0 then Err ''ciphertext length is not a multiple of block size''
     else case pkcs7_unpad (wy_decrypt wy key cipher) of Err e \<Rightarrow> Err (''failed to unpad: '' @ e) | Ok p \<Rightarrow> Ok p)"

definition decrypt_message_with_verify :: "wecom_crypto \<Rightarrow> string \<Rightarrow> string \<Rightarrow> string \<Rightarrow> (string, string) go_result" where
  "decrypt_message_with_verify wy encrypted aes_key receiveid =
    (if aes_key = [] then (case wy_unbase64 wy encrypted of None \<Rightarrow> Err ''illegal base64 data'' | Some d \<Rightarrow> Ok d)
     else case decode_wecom_aes_key wy aes_key of Err e \<Rightarrow> Err e
     | Ok key \<Rightarrow> (case wy_unbase64 wy encrypted of None \<Rightarrow> Err ''failed to decode message''
       | Some cipher \<Rightarrow> (case decrypt_aes_cbc wy key cipher of Err e \<Rightarrow> Err e
         | Ok plain \<Rightarrow> unpack_wecom_frame plain receiveid)))"

definition encrypt_message :: "wecom_crypto \<Rightarrow> string \<Rightarrow> string \<Rightarrow> string \<Rightarrow> string \<Rightarrow> (string, string) go_result" where
  "encrypt_message wy random aes_key plaintext receiveid = (case decode_wecom_aes_key wy aes_key of
     Err e \<Rightarrow> Err e
   | Ok key \<Rightarrow> Ok (wy_base64 wy (wy_encrypt wy key (pkcs7_pad (pack_wecom_frame random plaintext receiveid) block_size))))"

text \<open>The documented behaviour of the ciphers and of base64.\<close>

definition crypto_ok :: "wecom_crypto \<Rightarrow> bool" where
  "crypto_ok wy \<longleftrightarrow> (\<forall>s. wy_unbase64 wy (wy_base64 wy s) = Some s) \<and>
    (\<forall>k p. length k = 32 \<longrightarrow> length p mod 16 = 0 \<longrightarrow>
       length (wy_encrypt wy k p) = length p \<and> wy_decrypt wy k (wy_encrypt wy k p) = p)"

text \<open>
  What is encrypted for WeCom is decrypted to the same text by the receiver it is for, and by no other one that
  checks its identifier.
\<close>

theorem encrypted_reply_decrypts:
  assumes "crypto_ok wy" "aes_key \<noteq> []" "encrypt_message wy random aes_key plaintext receiveid = Ok encrypted"
    and "length random = 16" "length plaintext < 2 ^ 32"
  shows "decrypt_message_with_verify wy encrypted aes_key receiveid' =
    (if receiveid' \<noteq> [] \<and> receiveid \<noteq> [] \<and> receiveid \<noteq> receiveid' then Err ''receiveid mismatch'' else Ok plaintext)"
proof -
  obtain key where key: "decode_wecom_aes_key wy aes_key = Ok key"
    using assms(3) by (auto simp: encrypt_message_def split: sum.splits)
  then have k: "length key = 32" by (auto simp: decode_wecom_aes_key_def split: option.splits if_splits)
  let ?p = "pkcs7_pad (pack_wecom_frame random plaintext receiveid) block_size"
  have "length ?p mod block_size = 0" "?p \<noteq> []" using padded_length [of "pack_wecom_frame random plaintext receiveid"] by auto
  then obtain j where "length ?p = block_size * j" by (auto simp: mod_0_imp_dvd elim!: dvdE dest!: mod_0_imp_dvd)
  then have m: "length ?p mod 16 = 0" unfolding block_size_def by presburger
  then have "length (wy_encrypt wy key ?p) = length ?p" "wy_decrypt wy key (wy_encrypt wy key ?p) = ?p"
    using assms(1) k by (auto simp: crypto_ok_def)
  moreover have "wy_unbase64 wy encrypted = Some (wy_encrypt wy key ?p)"
    using assms(1,3) key by (auto simp: encrypt_message_def crypto_ok_def)
  ultimately have "decrypt_message_with_verify wy encrypted aes_key receiveid' =
      unpack_wecom_frame (pack_wecom_frame random plaintext receiveid) receiveid'"
    using assms(2) key m \<open>?p \<noteq> []\<close> by (auto simp: decrypt_message_with_verify_def decrypt_aes_cbc_def unpad_pad)
  then show ?thesis using unpack_pack [OF assms(4,5)] by simp
qed

text \<open>A cipher that shifts every byte, and a base64 that keeps the text.\<close>

definition demo_crypto :: wecom_crypto where
  "demo_crypto = \<lparr>wy_sha1_hex = (\<lambda>s. s), wy_encrypt = (\<lambda>k. map (\<lambda>c. char_of ((byte c + 1) mod 256))),
     wy_decrypt = (\<lambda>k. map (\<lambda>c. char_of ((byte c + 255) mod 256))), wy_base64 = (\<lambda>s. s), wy_unbase64 = Some\<rparr>"

lemma demo_crypto_ok: "crypto_ok demo_crypto"
proof -
  have "char_of ((byte (char_of ((byte c + 1) mod 256)) + 255) mod 256 :: nat) = c" for c
  proof -
    have "((byte c + 1) mod 256 + 255) mod 256 = (byte c + 256) mod 256" by (simp add: mod_add_left_eq)
    then have "byte (char_of ((byte (char_of ((byte c + 1) mod 256)) + 255) mod 256 :: nat)) = byte c"
      by (simp only: byte_char_mod) simp
    then show ?thesis unfolding byte_inject .
  qed
  then show ?thesis by (simp add: crypto_ok_def demo_crypto_def o_def)
qed

lemma encrypted_reply_decrypts_witness:
  "\<exists>enc. encrypt_message demo_crypto (replicate 16 (CHR ''7'')) (replicate 31 (CHR ''k'')) ''hello'' ''bot'' = Ok enc \<and>
    decrypt_message_with_verify demo_crypto enc (replicate 31 (CHR ''k'')) ''bot'' = Ok ''hello'' \<and>
    decrypt_message_with_verify demo_crypto enc (replicate 31 (CHR ''k'')) ''other'' = Err ''receiveid mismatch''"
proof -
  let ?key = "replicate 31 (CHR ''k'')"
  have "decode_wecom_aes_key demo_crypto ?key = Ok (?key @ ''='')"
    by (simp add: decode_wecom_aes_key_def demo_crypto_def)
  then obtain enc where e: "encrypt_message demo_crypto (replicate 16 (CHR ''7'')) ?key ''hello'' ''bot'' = Ok enc"
    by (simp add: encrypt_message_def)
  have "?key \<noteq> []" "length (replicate 16 (CHR ''7'')) = 16" "length ''hello'' < 2 ^ 32" by simp_all
  from encrypted_reply_decrypts [OF demo_crypto_ok this(1) e this(2,3)] e show ?thesis by auto
qed

section \<open>Messages already processed\<close>

text \<open>The map of processed identifiers is a set; the ring holds them in the order they came.\<close>

record deduplicator =
  dd_msgs :: "string set"
  dd_ring :: "string list"
  dd_idx :: nat

definition wecom_max_processed_messages :: int where "wecom_max_processed_messages = 1000"

definition new_deduplicator :: "int \<Rightarrow> deduplicator" where
  "new_deduplicator n = \<lparr>dd_msgs = {},
     dd_ring = replicate (nat (if n \<le> 0 then wecom_max_processed_messages else n)) [], dd_idx = 0\<rparr>"

definition mark_message_processed :: "string \<Rightarrow> deduplicator \<Rightarrow> bool \<times> deduplicator" where
  "mark_message_processed i d =
    (if i \<in> dd_msgs d then (False, d)
     else let oldest = dd_ring d ! dd_idx d;
              msgs = (if oldest \<noteq> [] then dd_msgs d - {oldest} else dd_msgs d)
       in (True, \<lparr>dd_msgs = insert i msgs, dd_ring = (dd_ring d)[dd_idx d := i],
             dd_idx = (dd_idx d + 1) mod length (dd_ring d)\<rparr>))"

fun mark_all :: "string list \<Rightarrow> deduplicator \<Rightarrow> bool list" where
  "mark_all [] d = []"
| "mark_all (i # ids) d = (case mark_message_processed i d of (b, d') \<Rightarrow> b # mark_all ids d')"

text \<open>What it is meant to do: an identifier is refused if it is among the last \<open>n\<close> accepted ones.\<close>

fun window_accepts :: "nat \<Rightarrow> string list \<Rightarrow> string list \<Rightarrow> bool list" where
  "window_accepts n acc [] = []"
| "window_accepts n acc (i # ids) =
    (if i \<in> set (last_n n acc) then False # window_accepts n acc ids else True # window_accepts n (acc @ [i]) ids)"

definition ring_holds :: "string list \<Rightarrow> deduplicator \<Rightarrow> bool" where
  "ring_holds acc d \<longleftrightarrow> (let n = length (dd_ring d) in
     0 < n \<and> dd_idx d = length acc mod n \<and> dd_msgs d = set (last_n n acc) \<and> distinct (last_n n acc) \<and> [] \<notin> set acc \<and>
     (\<forall>j. length acc - n \<le> j \<and> j < length acc \<longrightarrow> dd_ring d ! (j mod n) = acc ! j) \<and>
     (\<forall>i. length acc \<le> i \<and> i < n \<longrightarrow> dd_ring d ! i = []))"

lemma last_n_snoc: "0 < n \<Longrightarrow> last_n n (acc @ [x]) = (if length acc < n then last_n n acc else tl (last_n n acc)) @ [x]"
  by (auto simp: last_n_def Suc_diff_le drop_Suc tl_drop)

lemma last_n_nth: "length acc \<ge> n \<Longrightarrow> 0 < n \<Longrightarrow> last_n n acc = acc ! (length acc - n) # tl (last_n n acc)"
  by (simp add: last_n_def Cons_nth_drop_Suc [symmetric] tl_drop drop_Suc)

lemma ring_step:
  assumes h: "ring_holds acc d" and i: "i \<noteq> []" "i \<notin> dd_msgs d"
  shows "ring_holds (acc @ [i]) (snd (mark_message_processed i d))"
proof -
  define n where "n = length (dd_ring d)"
  note r = h [unfolded ring_holds_def Let_def n_def [symmetric]]
  have n: "0 < n" and idx: "dd_idx d = length acc mod n" and msgs: "dd_msgs d = set (last_n n acc)" "distinct (last_n n acc)"
    using r by blast+
  have old: "dd_ring d ! dd_idx d = (if length acc < n then [] else acc ! (length acc - n))"
  proof (cases "length acc < n")
    case True
    then show ?thesis using r idx by simp
  next
    case False
    then have "(length acc - n) mod n = length acc mod n" by (simp add: le_mod_geq)
    moreover have "dd_ring d ! ((length acc - n) mod n) = acc ! (length acc - n)" using r False n by auto
    ultimately show ?thesis using False idx by simp
  qed
  let ?msgs = "if dd_ring d ! dd_idx d \<noteq> [] then dd_msgs d - {dd_ring d ! dd_idx d} else dd_msgs d"
  have m: "insert i ?msgs = set (last_n n (acc @ [i]))" "distinct (last_n n (acc @ [i]))"
  proof -
    have "insert i ?msgs = set (last_n n (acc @ [i])) \<and> distinct (last_n n (acc @ [i]))"
    proof (cases "length acc < n")
      case True
      then show ?thesis using old msgs i n by (simp add: last_n_snoc)
    next
      case False
      then have l: "last_n n acc = acc ! (length acc - n) # tl (last_n n acc)" using n by (intro last_n_nth) auto
      have "acc ! (length acc - n) \<in> set acc" using False n by (intro nth_mem) auto
      then have "acc ! (length acc - n) \<noteq> []" using r by metis
      then have "?msgs = set (tl (last_n n acc))" "distinct (tl (last_n n acc))" "i \<notin> set (tl (last_n n acc))"
        using old False msgs l i by (simp, metis Diff_insert_absorb distinct.simps(2) list.simps(15), metis distinct.simps(2),
            metis list.set_intros(2))
      then show ?thesis using False n by (simp add: last_n_snoc)
    qed
    then show "insert i ?msgs = set (last_n n (acc @ [i]))" "distinct (last_n n (acc @ [i]))" by blast+
  qed
  have ring: "(dd_ring d)[dd_idx d := i] ! (j mod n) = (acc @ [i]) ! j" if j: "length (acc @ [i]) - n \<le> j" "j < length (acc @ [i])" for j
  proof (cases "j = length acc")
    case True
    then show ?thesis using idx n by (simp add: n_def [symmetric])
  next
    case False
    then have j': "j < length acc" "length acc - n \<le> j" "length acc - j < n" using j by auto
    then have "j mod n \<noteq> length acc mod n"
    proof -
      have "\<not> n dvd length acc - j" using j' nat_dvd_not_less by (metis zero_less_diff)
      then show ?thesis using mod_eq_dvd_iff_nat [of j "length acc" n] j' by auto
    qed
    then show ?thesis using r j' idx by (simp add: nth_append)
  qed
  have free: "(dd_ring d)[dd_idx d := i] ! k = []" if k: "length (acc @ [i]) \<le> k" "k < n" for k
  proof -
    have "dd_idx d = length acc" using idx k by simp
    then show ?thesis using r k by simp
  qed
  have "[] \<notin> set (acc @ [i])" using r i by simp
  moreover have "(dd_idx d + 1) mod n = length (acc @ [i]) mod n" using idx by (simp add: mod_Suc_eq)
  ultimately show ?thesis
    using i m n ring free unfolding ring_holds_def mark_message_processed_def Let_def by (simp add: n_def [symmetric])
qed

text \<open>
  C30: A message is refused as a duplicate exactly if its identifier is among the last accepted ones, as many as
  the window holds.
\<close>

theorem dedupe_window:
  assumes "[] \<notin> set ids"
  shows "mark_all ids (new_deduplicator n) =
    window_accepts (nat (if n \<le> 0 then wecom_max_processed_messages else n)) [] ids"
proof -
  have run: "mark_all ids d = window_accepts (length (dd_ring d)) acc ids" if "ring_holds acc d" for acc d
    using assms that
  proof (induction ids arbitrary: acc d)
    case (Cons i ids)
    have msgs: "dd_msgs d = set (last_n (length (dd_ring d)) acc)" using Cons.prems by (simp add: ring_holds_def Let_def)
    show ?case
    proof (cases "i \<in> dd_msgs d")
      case True
      then show ?thesis using Cons msgs by (simp add: mark_message_processed_def)
    next
      case False
      have "ring_holds (acc @ [i]) (snd (mark_message_processed i d))" using ring_step Cons.prems False by auto
      moreover have "length (dd_ring (snd (mark_message_processed i d))) = length (dd_ring d)" "fst (mark_message_processed i d)"
        using False by (simp_all add: mark_message_processed_def Let_def)
      ultimately show ?thesis using Cons False msgs by (simp add: case_prod_beta)
    qed
  qed simp
  have "ring_holds [] (new_deduplicator n)"
    by (simp add: ring_holds_def new_deduplicator_def Let_def wecom_max_processed_messages_def last_n_def)
  from run [OF this] show ?thesis by (simp add: new_deduplicator_def)
qed

lemma dedupe_window_witness:
  "mark_all [''a'', ''b'', ''a'', ''c'', ''a''] (new_deduplicator 2) = [True, True, False, True, True]"
  using dedupe_window [of "[''a'', ''b'', ''a'', ''c'', ''a'']" 2] by (simp add: last_n_def)

text \<open>An empty identifier is never forgotten: of all messages without one only the first is processed.\<close>

lemma empty_identifier_kept:
  assumes "[] \<in> dd_msgs d" "dd_idx d < length (dd_ring d)"
  shows "\<not> fst (mark_message_processed [] d)" "[] \<in> dd_msgs (snd (mark_message_processed i d))"
  using assms by (auto simp: mark_message_processed_def Let_def)

end
