(* ===== verification/Wecom_Aibot.thy ===== *)
theory Wecom_Aibot
  imports Wecom_Frames Channel_Access Channel_Manager Message_Json
begin

text \<open>
  The WeCom AI bot (\<open>pkg/channels/wecom/aibot.go\<close>): WeCom posts a question, polls the stream it is given for the answer,
  and after a deadline takes the answer at a URL.  Tasks wait for their answers in one queue per chat.
\<close>

section \<open>Tasks\<close>

text \<open>
  \<open>sk_answer\<close> is the channel for the answer, which holds one; \<open>sk_cancelled\<close> is the state of the context.  A pointer
  to a task is its place among all tasks ever made.
\<close>

record stream_task =
  sk_stream_id :: string
  sk_chat_id :: string
  sk_response_url :: string
  sk_question :: string
  sk_created :: int
  sk_deadline :: int
  sk_answer :: "string option"
  sk_cancelled :: bool
  sk_stream_closed :: bool
  sk_closed_at :: int
  sk_finished :: bool

record aibot =
  ab_heap :: "stream_task list"
  ab_stream_tasks :: "string \<rightharpoonup> nat"
  ab_chat_tasks :: "string \<rightharpoonup> nat list"
  ab_running :: bool

definition task_at :: "aibot \<Rightarrow> nat \<Rightarrow> stream_task" where
  "task_at b p = ab_heap b ! p"

definition change_task :: "nat \<Rightarrow> (stream_task \<Rightarrow> stream_task) \<Rightarrow> aibot \<Rightarrow> aibot" where
  "change_task p f b = b\<lparr>ab_heap := (ab_heap b)[p := f (task_at b p)]\<rparr>"

definition queue_of :: "aibot \<Rightarrow> string \<Rightarrow> nat list" where
  "queue_of b chat = (case ab_chat_tasks b chat of None \<Rightarrow> [] | Some q \<Rightarrow> q)"

definition stream_deadline :: int where "stream_deadline = 30 * 10 ^ 9"
definition stream_closed_grace_period :: int where "stream_closed_grace_period = 600 * 10 ^ 9"
definition task_max_lifetime :: int where "task_max_lifetime = 3600 * 10 ^ 9"

text \<open>The task a question becomes, and its place.\<close>

definition start_task :: "int \<Rightarrow> string \<Rightarrow> string \<Rightarrow> string \<Rightarrow> string \<Rightarrow> aibot \<Rightarrow> nat \<times> aibot" where
  "start_task now stream_id chat url question b =
    (let p = length (ab_heap b);
         t = \<lparr>sk_stream_id = stream_id, sk_chat_id = chat, sk_response_url = url, sk_question = question, sk_created = now,
              sk_deadline = now + stream_deadline, sk_answer = None, sk_cancelled = (\<not> ab_running b), sk_stream_closed = False,
              sk_closed_at = 0, sk_finished = False\<rparr>
     in (p, b\<lparr>ab_heap := ab_heap b @ [t], ab_stream_tasks := (ab_stream_tasks b)(stream_id \<mapsto> p),
              ab_chat_tasks := (ab_chat_tasks b)(chat \<mapsto> queue_of b chat @ [p])\<rparr>))"

definition remove_task :: "nat \<Rightarrow> aibot \<Rightarrow> aibot" where
  "remove_task p b =
    (let t = task_at b p; q = remove1 p (queue_of b (sk_chat_id t));
         b1 = change_task p (\<lambda>t. t\<lparr>sk_cancelled := True, sk_finished := True\<rparr>) b
     in b1\<lparr>ab_stream_tasks := (ab_stream_tasks b)(sk_stream_id t := None),
           ab_chat_tasks := (ab_chat_tasks b)(sk_chat_id t := (if q = [] then None else Some q))\<rparr>)"

section \<open>Polls\<close>

datatype poll_outcome = Answered string | Timed_Out | Waiting

text \<open>Looking for an answer and acting on what was found are two steps: the lock is taken for the second one only.\<close>

definition poll_select :: "int \<Rightarrow> nat \<Rightarrow> aibot \<Rightarrow> poll_outcome \<times> aibot" where
  "poll_select now p b = (case sk_answer (task_at b p) of
     Some a \<Rightarrow> (Answered a, change_task p (\<lambda>t. t\<lparr>sk_answer := None\<rparr>) b)
   | None \<Rightarrow> (if sk_deadline (task_at b p) < now then Timed_Out else Waiting, b))"

definition poll_finish :: "int \<Rightarrow> nat \<Rightarrow> poll_outcome \<Rightarrow> aibot \<Rightarrow> aibot" where
  "poll_finish now p out b = (case out of
     Answered a \<Rightarrow> remove_task p b
   | Timed_Out \<Rightarrow> (change_task p (\<lambda>t. t\<lparr>sk_stream_closed := True, sk_closed_at := now\<rparr>) b)
       \<lparr>ab_stream_tasks := (ab_stream_tasks b)(sk_stream_id (task_at b p) := None)\<rparr>
   | Waiting \<Rightarrow> b)"

record stream_info =
  sf_id :: string
  sf_finish :: bool
  sf_content :: string

definition wait_notice :: string where
  "wait_notice = [CHR 0xE2, CHR 0x8F, CHR 0xB3] @ '' Processing, please wait. The results will be sent shortly.''"

definition poll_info :: "aibot \<Rightarrow> nat \<Rightarrow> poll_outcome \<Rightarrow> stream_info" where
  "poll_info b p out =
    \<lparr>sf_id = sk_stream_id (task_at b p), sf_finish = (out \<noteq> Waiting),
     sf_content = (case out of Answered a \<Rightarrow> a | Timed_Out \<Rightarrow> wait_notice | Waiting \<Rightarrow> [])\<rparr>"

definition get_stream_response :: "int \<Rightarrow> nat \<Rightarrow> aibot \<Rightarrow> stream_info \<times> aibot" where
  "get_stream_response now p b =
    (let (out, b1) = poll_select now p b in (poll_info b p out, poll_finish now p out b1))"

section \<open>Sending\<close>

text \<open>What is read of the first task that waits, under the lock.\<close>

definition send_pick :: "string \<Rightarrow> aibot \<Rightarrow> (nat \<times> bool \<times> string) option \<times> aibot" where
  "send_pick chat b =
    (let q = dropWhile (\<lambda>p. sk_finished (task_at b p)) (queue_of b chat) in
     (case q of [] \<Rightarrow> None
      | p # _ \<Rightarrow> Some (p, sk_stream_closed (task_at b p), sk_response_url (task_at b p)),
      b\<lparr>ab_chat_tasks := (ab_chat_tasks b)(chat \<mapsto> q)\<rparr>))"

text \<open>The answer of the service at the URL: none if it was not reached.\<close>

definition response_url_body :: "string \<Rightarrow> string" where
  "response_url_body s = print_json (J_Obj [(''markdown'', J_Obj [(''content'', J_Str s)]), (''msgtype'', J_Str ''markdown'')])"

definition send_via_response_url :: "(string \<Rightarrow> string \<Rightarrow> nat option) \<Rightarrow> string \<Rightarrow> string \<Rightarrow> send_error option" where
  "send_via_response_url post url s = (case post url (response_url_body s) of
     None \<Rightarrow> Some Err_Temporary
   | Some status \<Rightarrow>
      (if status = 200 then None else if status = 429 then Some Err_Rate_Limit
       else if status \<ge> 500 then Some Err_Temporary else Some Err_Send_Failed))"

text \<open>A stream that is closed: the answer is posted, and the task is done even if that failed.\<close>

definition send_closed :: "(string \<Rightarrow> string \<Rightarrow> nat option) \<Rightarrow> nat \<Rightarrow> string \<Rightarrow> string \<Rightarrow> aibot \<Rightarrow> send_error option \<times> aibot" where
  "send_closed post p url s b =
    ((if url = [] then None
      else case send_via_response_url post url s of Some e \<Rightarrow> Some Err_Send_Failed | None \<Rightarrow> None), remove_task p b)"

text \<open>A stream that is open: the arms of the select that are ready.  Without one the call blocks.\<close>

datatype select_arm = Arm_Put | Arm_Cancelled | Arm_Context

definition send_open :: "select_arm \<Rightarrow> bool \<Rightarrow> nat \<Rightarrow> string \<Rightarrow> aibot \<Rightarrow> (send_error option \<times> aibot) option" where
  "send_open arm ctx_done p s b = (case arm of
     Arm_Put \<Rightarrow> if sk_answer (task_at b p) = None
       then Some (None, change_task p (\<lambda>t. t\<lparr>sk_answer := Some s\<rparr>) b) else None
   | Arm_Cancelled \<Rightarrow> if sk_cancelled (task_at b p) then Some (None, b) else None
   | Arm_Context \<Rightarrow> if ctx_done then Some (Some Err_Other, b) else None)"

text \<open>The whole call, with nothing in between; no result if it blocks.\<close>

definition aibot_send ::
  "(string \<Rightarrow> string \<Rightarrow> nat option) \<Rightarrow> select_arm \<Rightarrow> bool \<Rightarrow> string \<Rightarrow> string \<Rightarrow> aibot \<Rightarrow> (send_error option \<times> aibot) option" where
  "aibot_send post arm ctx_done chat s b =
    (if \<not> ab_running b then Some (Some Err_Not_Running, b)
     else case send_pick chat b of
       (None, b1) \<Rightarrow> Some (None, b1)
     | (Some (p, True, url), b1) \<Rightarrow> Some (send_closed post p url s b1)
     | (Some (p, False, url), b1) \<Rightarrow> send_open arm ctx_done p s b1)"

section \<open>Cleaning up\<close>

text \<open>
  A task is stale after its lifetime, and late if nothing came for its closed stream.  Expired tasks leave both maps;
  every entry of the first one is under the identifier of its task.
\<close>

definition task_stale :: "int \<Rightarrow> aibot \<Rightarrow> nat \<Rightarrow> bool" where
  "task_stale now b p \<longleftrightarrow> sk_created (task_at b p) < now - task_max_lifetime"

definition task_late :: "int \<Rightarrow> aibot \<Rightarrow> nat \<Rightarrow> bool" where
  "task_late now b p \<longleftrightarrow>
    sk_stream_closed (task_at b p) \<and> sk_closed_at (task_at b p) < now - stream_closed_grace_period"

definition task_cleaned :: "int \<Rightarrow> aibot \<Rightarrow> nat \<Rightarrow> bool" where
  "task_cleaned now b p \<longleftrightarrow>
    task_stale now b p \<and> ab_stream_tasks b (sk_stream_id (task_at b p)) = Some p \<or>
    p \<in> set (queue_of b (sk_chat_id (task_at b p))) \<and> \<not> sk_finished (task_at b p) \<and> (task_stale now b p \<or> task_late now b p)"

definition task_kept :: "int \<Rightarrow> aibot \<Rightarrow> nat \<Rightarrow> bool" where
  "task_kept now b p \<longleftrightarrow> \<not> sk_finished (task_at b p) \<and> \<not> task_stale now b p \<and> \<not> task_late now b p"

definition cleanup_old_tasks :: "int \<Rightarrow> aibot \<Rightarrow> aibot" where
  "cleanup_old_tasks now b = b
    \<lparr>ab_heap := map (\<lambda>p. if task_cleaned now b p then (task_at b p)\<lparr>sk_cancelled := True\<rparr> else task_at b p)
       [0..<length (ab_heap b)],
     ab_stream_tasks := (\<lambda>i. case ab_stream_tasks b i of Some p \<Rightarrow> if task_stale now b p then None else Some p | None \<Rightarrow> None),
     ab_chat_tasks := (\<lambda>c. case ab_chat_tasks b c of None \<Rightarrow> None
       | Some q \<Rightarrow> (case filter (task_kept now b) q of [] \<Rightarrow> None | q' \<Rightarrow> Some q'))\<rparr>"

section \<open>Messages\<close>

record aibot_config =
  ag_token :: string
  ag_aes_key :: string
  ag_welcome :: string
  ag_webhook_path :: string
  ag_base :: base_channel

definition new_aibot_channel :: "aibot_config \<Rightarrow> (string, aibot) go_result" where
  "new_aibot_channel cfg =
    (if ag_token cfg = [] \<or> ag_aes_key cfg = [] then Err ''token and encoding_aes_key are required for WeCom AI Bot''
     else Ok \<lparr>ab_heap = [], ab_stream_tasks = Map.empty, ab_chat_tasks = Map.empty, ab_running = False\<rparr>)"

definition start_aibot :: "aibot \<Rightarrow> aibot" where "start_aibot b = b\<lparr>ab_running := True\<rparr>"

text \<open>Stopping cancels the context all those of the tasks come from.\<close>

definition stop_aibot :: "aibot \<Rightarrow> aibot" where
  "stop_aibot b = b\<lparr>ab_running := False, ab_heap := map (\<lambda>t. t\<lparr>sk_cancelled := True\<rparr>) (ab_heap b)\<rparr>"

definition webhook_path :: "aibot_config \<Rightarrow> string" where
  "webhook_path cfg = (if ag_webhook_path cfg = [] then ''/webhook/wecom-aibot'' else ag_webhook_path cfg)"

definition health_path :: "aibot_config \<Rightarrow> string" where "health_path cfg = webhook_path cfg @ ''/health''"

record aibot_message =
  am_msg_id :: string
  am_bot_id :: string
  am_chat_id :: string
  am_chat_type :: string
  am_user_id :: string
  am_response_url :: string
  am_type :: string
  am_text :: "string option"
  am_stream :: "string option"
  am_image :: "string option"
  am_event :: "string option"

definition json_content :: "string \<Rightarrow> json \<Rightarrow> string option" where
  "json_content name = dec_struct (\<lambda>kvs. dec_string (jfield kvs name))"

definition json_mixed_item :: "json \<Rightarrow> unit option" where
  "json_mixed_item = dec_struct (\<lambda>kvs.
     case (dec_string (jfield kvs ''msgtype''), dec_pointer (json_content ''content'') (jfield kvs ''text''),
           dec_pointer (json_content ''url'') (jfield kvs ''image'')) of
       (Some _, Some _, Some _) \<Rightarrow> Some () | _ \<Rightarrow> None)"

definition json_mixed :: "json \<Rightarrow> unit option" where
  "json_mixed = dec_struct (\<lambda>kvs. map_option (\<lambda>_. ()) (dec_list json_mixed_item (jfield kvs ''msg_item'')))"

definition json_aibot_message :: "json \<Rightarrow> aibot_message option" where
  "json_aibot_message = dec_struct (\<lambda>kvs.
     case (those (map (\<lambda>n. dec_string (jfield kvs n))
             [''msgid'', ''aibotid'', ''chatid'', ''chattype'', ''response_url'', ''msgtype'']),
           json_content ''userid'' (jfield kvs ''from''), dec_pointer json_mixed (jfield kvs ''mixed'')) of
       (Some [mid, ai, chat, ctype, url, mtype], Some user, Some _) \<Rightarrow>
         (case (dec_pointer (json_content ''content'') (jfield kvs ''text''), dec_pointer (json_content ''id'') (jfield kvs ''stream''),
                dec_pointer (json_content ''url'') (jfield kvs ''image''), dec_pointer (json_content ''eventtype'') (jfield kvs ''event'')) of
            (Some te, Some st, Some im, Some ev) \<Rightarrow>
              Some \<lparr>am_msg_id = mid, am_bot_id = ai, am_chat_id = chat, am_chat_type = ctype, am_user_id = user,
                am_response_url = url, am_type = mtype, am_text = te, am_stream = st, am_image = im, am_event = ev\<rparr>
          | _ \<Rightarrow> None)
     | _ \<Rightarrow> None)"

definition sender_id_of :: "aibot_message \<Rightarrow> string" where
  "sender_id_of m = (if am_user_id m = [] then ''unknown'' else am_user_id m)"

definition chat_of :: "aibot_message \<Rightarrow> string" where
  "chat_of m = (if am_chat_id m = [] then sender_id_of m else am_chat_id m)"

definition aibot_sender :: "aibot_message \<Rightarrow> sender_info" where
  "aibot_sender m = no_sender\<lparr>si_platform := ''wecom_aibot'', si_platform_id := sender_id_of m,
     si_canonical_id := build_canonical_id ''wecom_aibot'' (sender_id_of m), si_display_name := sender_id_of m\<rparr>"

text \<open>What the goroutine of a question does.\<close>

definition question_events :: "aibot_config \<Rightarrow> string \<Rightarrow> string \<Rightarrow> aibot_message \<Rightarrow> string \<Rightarrow> channel_event list" where
  "question_events cfg fresh stream_id m question =
    handle_message (ag_base cfg) fresh
      \<lparr>pe_kind = (if am_chat_type m = ''group'' then ''group'' else ''direct''), pe_id = chat_of m\<rparr>
      (am_msg_id m) (sender_id_of m) (chat_of m) question []
      [(''channel'', ''wecom_aibot''), (''chat_type'', am_chat_type m), (''msg_type'', ''text''), (''msgid'', am_msg_id m),
       (''aibotid'', am_bot_id m), (''stream_id'', stream_id), (''response_url'', am_response_url m)]
      (Some (aibot_sender m))"

text \<open>The reply to a callback: the type of the message and the stream.  \<open>fresh\<close> is a new stream identifier.\<close>

type_synonym aibot_reply = "string \<times> stream_info"

definition stream_reply :: "stream_info \<Rightarrow> aibot_reply" where "stream_reply i = (''stream'', i)"

definition final_reply :: "string \<Rightarrow> string \<Rightarrow> aibot_reply" where
  "final_reply stream_id s = stream_reply \<lparr>sf_id = stream_id, sf_finish = True, sf_content = s\<rparr>"

definition empty_reply :: aibot_reply where
  "empty_reply = ([], \<lparr>sf_id = [], sf_finish = False, sf_content = []\<rparr>)"

definition handle_text_message ::
  "aibot_config \<Rightarrow> string \<Rightarrow> int \<Rightarrow> string \<Rightarrow> aibot_message \<Rightarrow> aibot \<Rightarrow> aibot_reply \<times> channel_event list \<times> aibot" where
  "handle_text_message cfg scope now fresh m b = (case am_text m of
     None \<Rightarrow> (empty_reply, [], b)
   | Some question \<Rightarrow>
      (let (p, b1) = start_task now fresh (chat_of m) (am_response_url m) question b;
           (info, b2) = get_stream_response now p b1
       in (stream_reply info, question_events cfg scope fresh m question, b2)))"

definition task_not_found :: string where
  "task_not_found = ''Task not found or already finished. Please resend your message to start a new session.''"

definition handle_stream_message :: "int \<Rightarrow> aibot_message \<Rightarrow> aibot \<Rightarrow> aibot_reply \<times> aibot" where
  "handle_stream_message now m b = (case am_stream m of
     None \<Rightarrow> (empty_reply, b)
   | Some i \<Rightarrow> (case ab_stream_tasks b i of
       None \<Rightarrow> (final_reply i task_not_found, b)
     | Some p \<Rightarrow> (let (info, b1) = get_stream_response now p b in (stream_reply info, b1))))"

definition handle_image_message :: "string \<Rightarrow> aibot_message \<Rightarrow> aibot_reply" where
  "handle_image_message fresh m = (case am_image m of
     None \<Rightarrow> empty_reply
   | Some url \<Rightarrow> final_reply fresh (''Image received (URL: '' @ url @ ''), but image messages are not yet supported''))"

definition handle_mixed_message :: "string \<Rightarrow> aibot_reply" where
  "handle_mixed_message fresh = final_reply fresh ''Mixed message type is not yet supported''"

definition handle_event_message :: "aibot_config \<Rightarrow> string \<Rightarrow> aibot_message \<Rightarrow> aibot_reply" where
  "handle_event_message cfg fresh m =
    (if am_event m = Some ''enter_chat'' \<and> ag_welcome cfg \<noteq> [] then final_reply fresh (ag_welcome cfg) else empty_reply)"

definition process_aibot_message ::
  "aibot_config \<Rightarrow> string \<Rightarrow> int \<Rightarrow> string \<Rightarrow> aibot_message \<Rightarrow> aibot \<Rightarrow> aibot_reply \<times> channel_event list \<times> aibot" where
  "process_aibot_message cfg scope now fresh m b =
    (if am_type m = ''text'' then handle_text_message cfg scope now fresh m b
     else if am_type m = ''stream'' then (let (r, b1) = handle_stream_message now m b in (r, [], b1))
     else if am_type m = ''image'' then (handle_image_message fresh m, [], b)
     else if am_type m = ''mixed'' then (handle_mixed_message fresh, [], b)
     else if am_type m = ''event'' then (handle_event_message cfg fresh m, [], b)
     else (final_reply fresh (''Unsupported message type: '' @ am_type m), [], b))"

section \<open>Callbacks\<close>

definition reply_json :: "aibot_reply \<Rightarrow> json" where
  "reply_json r = J_Obj [(''msgtype'', J_Str (fst r)),
     (''stream'', J_Obj ([(''id'', J_Str (sf_id (snd r))), (''finish'', J_Bool (sf_finish (snd r)))] @
        omit (sf_content (snd r) = []) ''content'' (J_Str (sf_content (snd r)))))]"

definition encrypt_response :: "wecom_crypto \<Rightarrow> aibot_config \<Rightarrow> string \<Rightarrow> string \<Rightarrow> string \<Rightarrow> aibot_reply \<Rightarrow> string" where
  "encrypt_response wy cfg random timestamp nonce r =
    (case encrypt_message wy random (ag_aes_key cfg) (print_json (reply_json r)) [] of
       Err e \<Rightarrow> []
     | Ok enc \<Rightarrow> print_json (J_Obj [(''encrypt'', J_Str enc),
         (''msgsignature'', J_Str (compute_signature wy (ag_token cfg) timestamp nonce enc)),
         (''timestamp'', J_Str timestamp), (''nonce'', J_Str nonce)]))"

record webhook_query =
  wq_signature :: string
  wq_timestamp :: string
  wq_nonce :: string
  wq_echostr :: string

type_synonym http_reply = "nat \<times> string"

definition max_body_size :: int where "max_body_size = 4 * 2 ^ 20"

definition byte_order_mark :: string where "byte_order_mark = [CHR 0xEF, CHR 0xBB, CHR 0xBF]"

definition handle_verification :: "wecom_crypto \<Rightarrow> aibot_config \<Rightarrow> webhook_query \<Rightarrow> http_reply" where
  "handle_verification wy cfg q =
    (if \<not> verify_signature wy (ag_token cfg) (wq_signature q) (wq_timestamp q) (wq_nonce q) (wq_echostr q)
     then (401, ''Signature verification failed'')
     else case decrypt_message_with_verify wy (wq_echostr q) (ag_aes_key cfg) [] of
       Err e \<Rightarrow> (500, ''Decryption failed'')
     | Ok s \<Rightarrow> (200, trim_space (trim_prefix s byte_order_mark)))"

definition json_encrypt :: "json \<Rightarrow> string option" where
  "json_encrypt = dec_struct (\<lambda>kvs. dec_string (jfield kvs ''encrypt''))"

text \<open>The body is \<open>None\<close> if it cannot be read.\<close>

definition handle_message_callback ::
  "wecom_crypto \<Rightarrow> aibot_config \<Rightarrow> string \<Rightarrow> string \<Rightarrow> int \<Rightarrow> string \<Rightarrow> webhook_query \<Rightarrow> string option \<Rightarrow> aibot \<Rightarrow>
     http_reply \<times> channel_event list \<times> aibot" where
  "handle_message_callback wy cfg random scope now fresh q body b = (case body of
     None \<Rightarrow> ((400, ''Failed to read body''), [], b)
   | Some s \<Rightarrow>
      (if int (length s) > max_body_size then ((413, ''Request body too large''), [], b)
       else case Option.bind (parse_json s) json_encrypt of
         None \<Rightarrow> ((400, ''Failed to parse JSON''), [], b)
       | Some enc \<Rightarrow>
          (if \<not> verify_signature wy (ag_token cfg) (wq_signature q) (wq_timestamp q) (wq_nonce q) enc
           then ((401, ''Signature verification failed''), [], b)
           else case decrypt_message_with_verify wy enc (ag_aes_key cfg) [] of
             Err e \<Rightarrow> ((500, ''Decryption failed''), [], b)
           | Ok inner \<Rightarrow> (case Option.bind (parse_json inner) json_aibot_message of
               None \<Rightarrow> ((500, ''Failed to parse message''), [], b)
             | Some m \<Rightarrow>
                (let (r, evs, b1) = process_aibot_message cfg scope now fresh m b;
                     s1 = encrypt_response wy cfg random (wq_timestamp q) (wq_nonce q) r
                 in ((200, if s1 = [] then encrypt_response wy cfg random (wq_timestamp q) (wq_nonce q) empty_reply else s1),
                     evs, b1))))))"

section \<open>Replies\<close>

text \<open>What base64 and hex digests consist of.\<close>

definition crypto_ascii :: "wecom_crypto \<Rightarrow> bool" where
  "crypto_ascii wy \<longleftrightarrow> (\<forall>s. valid_utf8 (wy_base64 wy s) \<and> valid_utf8 (wy_sha1_hex wy s))"

lemma utf8_literals [simp]:
  "valid_utf8 ''encrypt''" "valid_utf8 ''msgsignature''" "valid_utf8 ''timestamp''" "valid_utf8 ''nonce''"
  by (auto intro!: ascii_utf8 simp: byte_Char)

lemma reply_fits: "json_fits max_nesting_depth (reply_json r)"
  by (auto simp: reply_json_def set_omit max_nesting_depth_def)

text \<open>
  C18: What WeCom receives for a callback is an object whose signature it verifies and whose content it decrypts to
  the reply.
\<close>

theorem callback_reply_reads_back:
  assumes crypto: "crypto_ok wy" "crypto_ascii wy" and cfg: "ag_token cfg \<noteq> []" "ag_aes_key cfg \<noteq> []"
    and key: "decode_wecom_aes_key wy (ag_aes_key cfg) = Ok key"
    and random: "length random = 16" and small: "length (print_json (reply_json r)) < 2 ^ 32"
    and utf8: "json_utf8 (reply_json r)" "valid_utf8 timestamp" "valid_utf8 nonce"
  shows "\<exists>kvs enc sig. parse_json (encrypt_response wy cfg random timestamp nonce r) = Some (J_Obj kvs) \<and>
    jfield kvs ''encrypt'' = J_Str enc \<and> jfield kvs ''msgsignature'' = J_Str sig \<and>
    verify_signature wy (ag_token cfg) sig timestamp nonce enc \<and>
    (case decrypt_message_with_verify wy enc (ag_aes_key cfg) [] of Ok inner \<Rightarrow> parse_json inner = Some (reply_json r) | Err _ \<Rightarrow> False)"
proof -
  obtain enc where e: "encrypt_message wy random (ag_aes_key cfg) (print_json (reply_json r)) [] = Ok enc"
    and utf8e: "valid_utf8 enc"
    using key crypto(2) by (auto simp: encrypt_message_def crypto_ascii_def)
  let ?sig = "compute_signature wy (ag_token cfg) timestamp nonce enc"
  define kvs where "kvs = [(''encrypt'', J_Str enc), (''msgsignature'', J_Str ?sig), (''timestamp'', J_Str timestamp), (''nonce'', J_Str nonce)]"
  have "json_utf8 (J_Obj kvs)" using utf8e utf8(2,3) crypto(2) by (simp add: kvs_def crypto_ascii_def compute_signature_def)
  then have "clean_json (J_Obj kvs) = J_Obj kvs" by (rule clean_utf8)
  moreover have "json_fits max_nesting_depth (J_Obj kvs)" by (simp add: kvs_def max_nesting_depth_def)
  ultimately have "parse_json (encrypt_response wy cfg random timestamp nonce r) = Some (J_Obj kvs)"
    using parse_print_json [of "J_Obj kvs"] e by (simp add: encrypt_response_def kvs_def)
  moreover have "jfield kvs ''encrypt'' = J_Str enc" "jfield kvs ''msgsignature'' = J_Str ?sig"
    by (simp_all add: kvs_def equal_fold_def to_lower_def lower_char_def is_upper_char_def byte_Char)
  moreover have "verify_signature wy (ag_token cfg) ?sig timestamp nonce enc" using cfg by (simp add: verify_signature_def)
  moreover have "decrypt_message_with_verify wy enc (ag_aes_key cfg) [] = Ok (print_json (reply_json r))"
    using encrypted_reply_decrypts [OF crypto(1) cfg(2) e random small] by simp
  moreover have "parse_json (print_json (reply_json r)) = Some (reply_json r)"
    using parse_print_json [OF reply_fits] clean_utf8 [OF utf8(1)] by simp
  ultimately show ?thesis by auto
qed

text \<open>The cipher from before, with bytes written as two letters.\<close>

definition letters_of :: "char \<Rightarrow> string" where
  "letters_of c = [char_of (97 + byte c div 16), char_of (97 + byte c mod 16)]"

fun of_letters :: "string \<Rightarrow> string option" where
  "of_letters (a # b # s) = map_option ((#) (char_of ((byte a - 97) * 16 + (byte b - 97)))) (of_letters s)"
| "of_letters [] = Some []"
| "of_letters _ = None"

definition demo_letters :: wecom_crypto where
  "demo_letters = demo_crypto\<lparr>wy_sha1_hex := (\<lambda>s. concat (map letters_of s)), wy_base64 := (\<lambda>s. concat (map letters_of s)),
     wy_unbase64 := (\<lambda>s. if suffix ''='' s then Some s else of_letters s)\<rparr>"

lemma letter_bytes: "(97 + byte c div 16) mod 256 = 97 + byte c div 16" "(97 + byte c mod 16) mod 256 = 97 + byte c mod 16"
  "byte c div 16 < 16" "byte c mod 16 < 16"
proof -
  show d: "byte c div 16 < 16" "byte c mod 16 < 16" using byte_less [of c] by (simp_all add: less_mult_imp_div_less)
  then have "97 + byte c div 16 < 256" "97 + byte c mod 16 < 256" by linarith+
  then show "(97 + byte c div 16) mod 256 = 97 + byte c div 16" "(97 + byte c mod 16) mod 256 = 97 + byte c mod 16"
    by (simp_all only: mod_less)
qed

lemma letters_ascii: "c \<in> set (concat (map letters_of s)) \<Longrightarrow> 97 \<le> byte c \<and> byte c < 128"
proof -
  assume "c \<in> set (concat (map letters_of s))"
  then obtain x where "c \<in> set (letters_of x)" by auto
  then have "byte c = 97 + byte x div 16 \<or> byte c = 97 + byte x mod 16"
    using letter_bytes(1,2) [of x] by (auto simp: letters_of_def byte_char_mod)
  then show ?thesis using letter_bytes(3,4) [of x] by linarith
qed

lemma of_letters_of: "of_letters (concat (map letters_of s)) = Some s"
proof (induction s)
  case (Cons c s)
  have "char_of (byte c div 16 * 16 + byte c mod 16) = c" by (simp add: byte_def)
  with Cons show ?case by (simp add: letters_of_def byte_char_mod letter_bytes(1,2))
qed simp

lemma demo_letters_ok: "crypto_ok demo_letters" "crypto_ascii demo_letters"
proof -
  have "\<not> suffix ''='' (concat (map letters_of s))" for s
  proof
    assume "suffix ''='' (concat (map letters_of s))"
    then have "CHR ''='' \<in> set (concat (map letters_of s))" by (metis in_set_conv_decomp suffix_def)
    from letters_ascii [OF this] show False by (simp add: byte_Char)
  qed
  then show "crypto_ok demo_letters" using demo_crypto_ok of_letters_of by (simp add: crypto_ok_def demo_letters_def demo_crypto_def)
  show "crypto_ascii demo_letters" using letters_ascii by (auto simp: crypto_ascii_def demo_letters_def intro!: ascii_utf8)
qed

lemma demo_key: "length k = 31 \<Longrightarrow> decode_wecom_aes_key demo_letters k = Ok (k @ ''='')"
  by (simp add: decode_wecom_aes_key_def demo_letters_def suffix_def)

lemma callback_reply_reads_back_witness:
  "\<exists>kvs enc sig. verify_signature demo_letters ''t'' sig ''1'' ''n'' enc \<and> jfield kvs ''encrypt'' = J_Str enc \<and>
    (case decrypt_message_with_verify demo_letters enc (replicate 31 (CHR ''k'')) [] of
       Ok inner \<Rightarrow> parse_json inner = Some (reply_json (final_reply ''i'' ''<hi>'')) | Err _ \<Rightarrow> False)"
proof -
  let ?cfg = "\<lparr>ag_token = ''t'', ag_aes_key = replicate 31 (CHR ''k''), ag_welcome = [], ag_webhook_path = [],
     ag_base = \<lparr>bc_name = ''wecom_aibot'', bc_allow_list = [], bc_group_trigger = \<lparr>gt_mention_only = False, gt_prefixes = []\<rparr>,
       bc_owner = None\<rparr>\<rparr>"
  have k: "decode_wecom_aes_key demo_letters (ag_aes_key ?cfg) = Ok (replicate 31 (CHR ''k'') @ ''='')"
    unfolding aibot_config.simps by (rule demo_key) (simp only: length_replicate)
  have "length (print_json (reply_json (final_reply ''i'' ''<hi>''))) < 200" by code_simp
  then have l: "length (print_json (reply_json (final_reply ''i'' ''<hi>''))) < 2 ^ 32" by simp
  have u: "json_utf8 (reply_json (final_reply ''i'' ''<hi>''))" "valid_utf8 ''1''" "valid_utf8 ''n''"
    by (auto simp: reply_json_def final_reply_def stream_reply_def set_omit byte_Char intro!: ascii_utf8)
  have r: "length (replicate 16 (CHR ''7'')) = 16" by simp
  have c: "ag_token ?cfg \<noteq> []" "ag_aes_key ?cfg \<noteq> []"
    unfolding aibot_config.simps by (simp, rule notI, drule arg_cong [where f = length], simp only: length_replicate, simp)
  show ?thesis using callback_reply_reads_back [OF demo_letters_ok c k r l u] unfolding aibot_config.simps
    by - (elim exE conjE, intro exI conjI, assumption+)
qed

end
