(* ===== verification/Wecom_Aibot_Runs.thy ===== *)
theory Wecom_Aibot_Runs
  imports Wecom_Aibot
begin

text \<open>
  The WeCom AI bot at work: under any interleaving of questions, polls, answers and cleanups an answer stays in its
  chat; answers meet their questions when nothing goes wrong; what is lost and swapped when something does.
\<close>

section \<open>Interleavings\<close>

text \<open>
  The bot with its clients: polls and sends between their two steps, and, for the proofs, what was sent to which chat,
  and what was shown in a stream or posted to a URL, each with its task.
\<close>

record aibot_system =
  as_bot :: aibot
  as_polls :: "(nat \<times> poll_outcome) list"
  as_sends :: "(nat \<times> bool \<times> string \<times> string) list"
  as_sent :: "(string \<times> string) list"
  as_shown :: "(nat \<times> string) list"
  as_posted :: "(nat \<times> string \<times> string) list"

fun shown_of :: "nat \<times> poll_outcome \<Rightarrow> (nat \<times> string) list" where
  "shown_of (p, Answered a) = [(p, a)]"
| "shown_of (p, _) = []"

inductive aibot_step :: "aibot_system \<Rightarrow> aibot_system \<Rightarrow> bool" for s where
  ask: "aibot_step s (s\<lparr>as_bot := snd (start_task now i chat url question (as_bot s))\<rparr>)"
| look: "p < length (ab_heap (as_bot s)) \<Longrightarrow> poll_select now p (as_bot s) = (out, b) \<Longrightarrow>
    aibot_step s (s\<lparr>as_bot := b, as_polls := (p, out) # as_polls s\<rparr>)"
| reply: "(p, out) \<in> set (as_polls s) \<Longrightarrow>
    aibot_step s (s\<lparr>as_bot := poll_finish now p out (as_bot s), as_polls := remove1 (p, out) (as_polls s),
      as_shown := as_shown s @ shown_of (p, out)\<rparr>)"
| pick: "ab_running (as_bot s) \<Longrightarrow> send_pick chat (as_bot s) = (Some (p, shut, url), b) \<Longrightarrow>
    aibot_step s (s\<lparr>as_bot := b, as_sends := (p, shut, url, a) # as_sends s, as_sent := as_sent s @ [(chat, a)]\<rparr>)"
| nobody: "ab_running (as_bot s) \<Longrightarrow> send_pick chat (as_bot s) = (None, b) \<Longrightarrow>
    aibot_step s (s\<lparr>as_bot := b, as_sent := as_sent s @ [(chat, a)]\<rparr>)"
| put: "(p, False, url, a) \<in> set (as_sends s) \<Longrightarrow> send_open arm ctx_done p a (as_bot s) = Some (r, b) \<Longrightarrow>
    aibot_step s (s\<lparr>as_bot := b, as_sends := remove1 (p, False, url, a) (as_sends s)\<rparr>)"
| post: "(p, True, url, a) \<in> set (as_sends s) \<Longrightarrow> send_closed web p url a (as_bot s) = (r, b) \<Longrightarrow>
    aibot_step s (s\<lparr>as_bot := b, as_sends := remove1 (p, True, url, a) (as_sends s),
      as_posted := as_posted s @ (if url \<noteq> [] \<and> r = None then [(p, url, a)] else [])\<rparr>)"
| clean: "aibot_step s (s\<lparr>as_bot := cleanup_old_tasks now (as_bot s)\<rparr>)"
| stop: "aibot_step s (s\<lparr>as_bot := stop_aibot (as_bot s)\<rparr>)"

definition start_aibot_system :: aibot_system where
  "start_aibot_system = \<lparr>as_bot = start_aibot \<lparr>ab_heap = [], ab_stream_tasks = Map.empty, ab_chat_tasks = Map.empty, ab_running = False\<rparr>,
     as_polls = [], as_sends = [], as_sent = [], as_shown = [], as_posted = []\<rparr>"

inductive aibot_reachable :: "aibot_system \<Rightarrow> bool" where
  start: "aibot_reachable start_aibot_system"
| step: "aibot_reachable s \<Longrightarrow> aibot_step s s' \<Longrightarrow> aibot_reachable s'"

section \<open>What every step keeps\<close>

text \<open>The chat and the URL of a task never change.\<close>

definition same_tasks :: "aibot \<Rightarrow> aibot \<Rightarrow> bool" where
  "same_tasks b b' \<longleftrightarrow> length (ab_heap b) \<le> length (ab_heap b') \<and> (\<forall>p < length (ab_heap b).
     sk_chat_id (task_at b' p) = sk_chat_id (task_at b p) \<and> sk_response_url (task_at b' p) = sk_response_url (task_at b p) \<and>
     sk_stream_id (task_at b' p) = sk_stream_id (task_at b p))"

lemma task_at_change: "task_at (change_task p f b) r = (if r = p \<and> p < length (ab_heap b) then f (task_at b p) else task_at b r)"
  by (cases "p < length (ab_heap b)") (simp_all add: task_at_def change_task_def nth_list_update list_update_beyond)

lemma change_task_simps [simp]:
  "length (ab_heap (change_task p f b)) = length (ab_heap b)" "ab_stream_tasks (change_task p f b) = ab_stream_tasks b"
  "ab_chat_tasks (change_task p f b) = ab_chat_tasks b" "ab_running (change_task p f b) = ab_running b"
  by (simp_all add: change_task_def)

lemma task_at_update [simp]:
  "task_at (b\<lparr>ab_stream_tasks := x\<rparr>) p = task_at b p" "task_at (b\<lparr>ab_chat_tasks := y\<rparr>) p = task_at b p"
  "task_at (b\<lparr>ab_running := z\<rparr>) p = task_at b p"
  by (simp_all add: task_at_def)

lemma queue_of_update [simp]:
  "queue_of (b\<lparr>ab_stream_tasks := x\<rparr>) c = queue_of b c" "queue_of (b\<lparr>ab_heap := h\<rparr>) c = queue_of b c"
  "queue_of (change_task p f b) c = queue_of b c"
  by (simp_all add: queue_of_def)

lemma queue_of_chat: "queue_of (b\<lparr>ab_chat_tasks := m(chat := (if q = [] then None else Some q))\<rparr>) c =
    (if c = chat then q else queue_of (b\<lparr>ab_chat_tasks := m\<rparr>) c)"
  by (simp add: queue_of_def)

lemma queue_of_chat_some: "queue_of (b\<lparr>ab_chat_tasks := m(chat \<mapsto> q)\<rparr>) c =
    (if c = chat then q else queue_of (b\<lparr>ab_chat_tasks := m\<rparr>) c)"
  by (simp add: queue_of_def)

lemma queue_of_same [simp]: "queue_of (b\<lparr>ab_chat_tasks := ab_chat_tasks b\<rparr>) c = queue_of b c"
  by (simp add: queue_of_def)

text \<open>
  The queues of a chat hold its tasks, each once, in the order in which they were asked; a stream that can be polled
  is that of a task which is not done.
\<close>

definition aibot_ok :: "aibot \<Rightarrow> bool" where
  "aibot_ok b \<longleftrightarrow>
    (\<forall>c. sorted_wrt (<) (queue_of b c) \<and> (\<forall>p\<in>set (queue_of b c). p < length (ab_heap b) \<and> sk_chat_id (task_at b p) = c)) \<and>
    (\<forall>i p. ab_stream_tasks b i = Some p \<longrightarrow>
       p < length (ab_heap b) \<and> sk_stream_id (task_at b p) = i \<and> \<not> sk_finished (task_at b p))"

text \<open>What every step but a question does: no task appears, no queue grows, no stream is opened again.\<close>

definition shrinks :: "aibot \<Rightarrow> aibot \<Rightarrow> bool" where
  "shrinks b b' \<longleftrightarrow> same_tasks b b' \<and> length (ab_heap b') = length (ab_heap b) \<and>
    (\<forall>c. subseq (queue_of b' c) (queue_of b c)) \<and>
    (\<forall>i p. ab_stream_tasks b' i = Some p \<longrightarrow> ab_stream_tasks b i = Some p \<and>
       (p < length (ab_heap b) \<longrightarrow> sk_stream_id (task_at b p) = i \<longrightarrow> \<not> sk_finished (task_at b p) \<longrightarrow> \<not> sk_finished (task_at b' p)))"

lemma subseq_keeps: "subseq xs ys \<Longrightarrow> sorted_wrt P ys \<Longrightarrow> sorted_wrt P xs \<and> set xs \<subseteq> set ys"
  by (induction rule: list_emb.induct) auto

lemma shrinks_ok: "aibot_ok b \<Longrightarrow> shrinks b b' \<Longrightarrow> aibot_ok b'"
proof -
  assume ok: "aibot_ok b" and sh: "shrinks b b'"
  have "sorted_wrt (<) (queue_of b' c)" "set (queue_of b' c) \<subseteq> set (queue_of b c)" for c
    using ok sh subseq_keeps unfolding aibot_ok_def shrinks_def by metis+
  then show ?thesis using ok sh unfolding aibot_ok_def shrinks_def same_tasks_def by (metis subsetD)
qed

lemma subseq_remove1: "subseq (remove1 x xs) xs"
  by (induction xs) auto

lemma queue_of_remove: "queue_of (remove_task p b) c =
    (if c = sk_chat_id (task_at b p) then remove1 p (queue_of b c) else queue_of b c)"
  by (auto simp: remove_task_def Let_def queue_of_def)

lemma task_at_remove: "task_at (remove_task p b) r =
    (if r = p \<and> p < length (ab_heap b) then (task_at b p)\<lparr>sk_cancelled := True, sk_finished := True\<rparr> else task_at b r)"
  by (simp add: remove_task_def Let_def task_at_change)

lemma remove_simps [simp]:
  "length (ab_heap (remove_task p b)) = length (ab_heap b)"
  "ab_stream_tasks (remove_task p b) = (ab_stream_tasks b)(sk_stream_id (task_at b p) := None)"
  "ab_running (remove_task p b) = ab_running b"
  by (simp_all add: remove_task_def Let_def)

lemma shrinks_remove: "shrinks b (remove_task p b)"
  by (auto simp: shrinks_def same_tasks_def task_at_remove queue_of_remove subseq_remove1)

lemma shrinks_select: "poll_select now p b = (out, b') \<Longrightarrow> shrinks b b'"
  by (auto simp: shrinks_def same_tasks_def poll_select_def task_at_change split: option.splits if_splits)

lemma shrinks_finish: "shrinks b (poll_finish now p out b)"
  using shrinks_remove by (auto simp: poll_finish_def shrinks_def same_tasks_def task_at_change split: poll_outcome.splits)

lemma subseq_dropWhile: "subseq (dropWhile P xs) xs"
  by (induction xs) auto

lemma shrinks_pick: "send_pick chat b = (r, b') \<Longrightarrow> shrinks b b'"
  by (auto simp: send_pick_def Let_def shrinks_def same_tasks_def queue_of_chat_some subseq_dropWhile)

lemma shrinks_put: "send_open arm ctx p a b = Some (r, b') \<Longrightarrow> shrinks b b'"
  by (auto simp: send_open_def shrinks_def same_tasks_def task_at_change split: select_arm.splits if_splits)

lemma cancel_if: "(if c then t\<lparr>sk_cancelled := True\<rparr> else t) = t\<lparr>sk_cancelled := c \<or> sk_cancelled t\<rparr>"
  by (cases c) simp_all

lemma task_at_cleanup:
  "p < length (ab_heap b) \<Longrightarrow> \<exists>x. task_at (cleanup_old_tasks now b) p = (task_at b p)\<lparr>sk_cancelled := x\<rparr>"
  unfolding cleanup_old_tasks_def Let_def task_at_def by (simp add: cancel_if) blast

lemma queue_filtered:
  "ab_chat_tasks b' = (\<lambda>c. case ab_chat_tasks b c of None \<Rightarrow> None | Some q \<Rightarrow> (case filter f q of [] \<Rightarrow> None | q' \<Rightarrow> Some q')) \<Longrightarrow>
    queue_of b' c = filter f (queue_of b c)"
  by (auto simp: queue_of_def split: option.split list.split)

lemma cleanup_simps:
  "length (ab_heap (cleanup_old_tasks now b)) = length (ab_heap b)"
  "ab_stream_tasks (cleanup_old_tasks now b) i = Some p \<Longrightarrow> ab_stream_tasks b i = Some p"
  "subseq (queue_of (cleanup_old_tasks now b) c) (queue_of b c)"
proof -
  show "length (ab_heap (cleanup_old_tasks now b)) = length (ab_heap b)"
    by (simp add: cleanup_old_tasks_def Let_def)
  show "ab_stream_tasks (cleanup_old_tasks now b) i = Some p \<Longrightarrow> ab_stream_tasks b i = Some p"
    by (auto simp: cleanup_old_tasks_def Let_def split: option.splits if_splits)
  have "queue_of (cleanup_old_tasks now b) c = filter (task_kept now b) (queue_of b c)"
    by (rule queue_filtered) (simp add: cleanup_old_tasks_def)
  then show "subseq (queue_of (cleanup_old_tasks now b) c) (queue_of b c)" by simp
qed

lemma shrinks_cleanup: "shrinks b (cleanup_old_tasks now b)"
proof -
  have "sk_chat_id (task_at (cleanup_old_tasks now b) p) = sk_chat_id (task_at b p) \<and>
      sk_response_url (task_at (cleanup_old_tasks now b) p) = sk_response_url (task_at b p) \<and>
      sk_stream_id (task_at (cleanup_old_tasks now b) p) = sk_stream_id (task_at b p) \<and>
      sk_finished (task_at (cleanup_old_tasks now b) p) = sk_finished (task_at b p)" if "p < length (ab_heap b)" for p
    using task_at_cleanup [OF that, of now] by auto
  then show ?thesis unfolding shrinks_def same_tasks_def cleanup_simps(1)
    by (simp add: cleanup_simps(3)) (blast dest: cleanup_simps(2))
qed

lemma shrinks_stop: "shrinks b (stop_aibot b)"
  by (auto simp: shrinks_def same_tasks_def stop_aibot_def task_at_def queue_of_def)

lemma start_task_ok: "aibot_ok b \<Longrightarrow> aibot_ok (snd (start_task now i chat url question b))"
  by (auto simp: aibot_ok_def start_task_def Let_def task_at_def queue_of_def nth_append sorted_wrt_append
      less_Suc_eq split: if_splits option.splits)

section \<open>Answers stay in their chat\<close>

text \<open>An answer a task may be given: it was sent to the chat of the task.\<close>

definition owed :: "aibot_system \<Rightarrow> nat \<Rightarrow> string \<Rightarrow> bool" where
  "owed s p a \<longleftrightarrow> p < length (ab_heap (as_bot s)) \<and> (sk_chat_id (task_at (as_bot s) p), a) \<in> set (as_sent s)"

definition posted_right :: "aibot_system \<Rightarrow> nat \<Rightarrow> string \<Rightarrow> string \<Rightarrow> bool" where
  "posted_right s p url a \<longleftrightarrow> owed s p a \<and> sk_response_url (task_at (as_bot s) p) = url"

definition system_ok :: "aibot_system \<Rightarrow> bool" where
  "system_ok s \<longleftrightarrow> aibot_ok (as_bot s) \<and>
    (\<forall>p a. p < length (ab_heap (as_bot s)) \<longrightarrow> sk_answer (task_at (as_bot s) p) = Some a \<longrightarrow> owed s p a) \<and>
    (\<forall>p a. (p, Answered a) \<in> set (as_polls s) \<longrightarrow> owed s p a) \<and>
    (\<forall>p shut url a. (p, shut, url, a) \<in> set (as_sends s) \<longrightarrow> posted_right s p url a) \<and>
    (\<forall>p a. (p, a) \<in> set (as_shown s) \<longrightarrow> owed s p a) \<and>
    (\<forall>p url a. (p, url, a) \<in> set (as_posted s) \<longrightarrow> posted_right s p url a)"

lemma owed_mono:
  assumes "same_tasks (as_bot s) (as_bot s')" "set (as_sent s) \<subseteq> set (as_sent s')"
  shows "owed s p a \<Longrightarrow> owed s' p a" "posted_right s p url a \<Longrightarrow> posted_right s' p url a"
  using assms by (auto simp: owed_def posted_right_def same_tasks_def)

lemma shrinks_same: "shrinks b b' \<Longrightarrow> same_tasks b b'" "shrinks b b' \<Longrightarrow> length (ab_heap b') = length (ab_heap b)"
  by (simp_all add: shrinks_def)

text \<open>What a step has to show: new answers, polls, sends and results are owed.\<close>

lemma system_ok_step:
  assumes ok: "system_ok s" and same: "same_tasks (as_bot s) (as_bot s')" "set (as_sent s) \<subseteq> set (as_sent s')"
    and bot: "aibot_ok (as_bot s')"
    and "\<And>p a. p < length (ab_heap (as_bot s')) \<Longrightarrow> sk_answer (task_at (as_bot s') p) = Some a \<Longrightarrow>
      p < length (ab_heap (as_bot s)) \<and> sk_answer (task_at (as_bot s) p) = Some a \<or> owed s' p a"
    and "\<And>p a. (p, Answered a) \<in> set (as_polls s') \<Longrightarrow> (p, Answered a) \<in> set (as_polls s) \<or> owed s' p a"
    and "\<And>p shut url a. (p, shut, url, a) \<in> set (as_sends s') \<Longrightarrow> (p, shut, url, a) \<in> set (as_sends s) \<or> posted_right s' p url a"
    and "\<And>p a. (p, a) \<in> set (as_shown s') \<Longrightarrow> (p, a) \<in> set (as_shown s) \<or> owed s' p a"
    and "\<And>p url a. (p, url, a) \<in> set (as_posted s') \<Longrightarrow> (p, url, a) \<in> set (as_posted s) \<or> posted_right s' p url a"
  shows "system_ok s'"
  unfolding system_ok_def using bot assms(5-) ok [unfolded system_ok_def] owed_mono [OF same] by meson

lemma select_answers: "poll_select now p b = (out, b') \<Longrightarrow> sk_answer (task_at b' r) = Some a \<Longrightarrow> sk_answer (task_at b r) = Some a"
  by (auto simp: poll_select_def task_at_change split: option.splits if_splits)

lemma select_answered: "poll_select now p b = (Answered a, b') \<Longrightarrow> sk_answer (task_at b p) = Some a"
  by (auto simp: poll_select_def split: option.splits if_splits)

lemma finish_answers: "sk_answer (task_at (poll_finish now p out b) r) = sk_answer (task_at b r)"
  by (auto simp: poll_finish_def task_at_remove task_at_change split: poll_outcome.splits)

lemma pick_task: "send_pick chat b = (Some (p, shut, url), b') \<Longrightarrow>
    p \<in> set (queue_of b chat) \<and> url = sk_response_url (task_at b p) \<and> shut = sk_stream_closed (task_at b p)"
  by (auto simp: send_pick_def Let_def split: list.splits)
    (metis list.set_intros(1) set_dropWhileD)+

lemma pick_heap: "send_pick chat b = (r, b') \<Longrightarrow> ab_heap b' = ab_heap b"
  by (auto simp: send_pick_def Let_def)

lemma put_answers: "send_open arm ctx p a b = Some (r, b') \<Longrightarrow>
    sk_answer (task_at b' q) = Some x \<Longrightarrow> sk_answer (task_at b q) = Some x \<or> q = p \<and> x = a"
  by (auto simp: send_open_def task_at_change split: select_arm.splits if_splits)

lemma remove_answers: "sk_answer (task_at (remove_task p b) r) = sk_answer (task_at b r)"
  by (simp add: task_at_remove)

lemma cleanup_answers: "r < length (ab_heap b) \<Longrightarrow> sk_answer (task_at (cleanup_old_tasks now b) r) = sk_answer (task_at b r)"
  using task_at_cleanup [of r b now] by auto

lemma stop_answers: "r < length (ab_heap b) \<Longrightarrow> sk_answer (task_at (stop_aibot b) r) = sk_answer (task_at b r)"
  by (simp add: stop_aibot_def task_at_def)

lemma system_ok_shrink:
  assumes ok: "system_ok s" and sh: "shrinks (as_bot s) (as_bot s')" and sent: "set (as_sent s) \<subseteq> set (as_sent s')"
    and "\<And>p a. p < length (ab_heap (as_bot s)) \<Longrightarrow> sk_answer (task_at (as_bot s') p) = Some a \<Longrightarrow>
      sk_answer (task_at (as_bot s) p) = Some a \<or> owed s p a"
    and "\<And>p a. (p, Answered a) \<in> set (as_polls s') \<Longrightarrow> (p, Answered a) \<in> set (as_polls s) \<or> owed s p a"
    and "\<And>p shut url a. (p, shut, url, a) \<in> set (as_sends s') \<Longrightarrow> (p, shut, url, a) \<in> set (as_sends s) \<or> posted_right s' p url a"
    and "\<And>p a. (p, a) \<in> set (as_shown s') \<Longrightarrow> (p, a) \<in> set (as_shown s) \<or> owed s p a"
    and "\<And>p url a. (p, url, a) \<in> set (as_posted s') \<Longrightarrow> (p, url, a) \<in> set (as_posted s) \<or> posted_right s p url a"
  shows "system_ok s'"
proof -
  have "aibot_ok (as_bot s')" using ok sh shrinks_ok by (auto simp: system_ok_def)
  moreover note m = owed_mono [OF shrinks_same(1) [OF sh] sent]
  ultimately show ?thesis
    by (intro system_ok_step [OF ok shrinks_same(1) [OF sh] sent]) (use assms(4-) m shrinks_same(2) [OF sh] in \<open>metis+\<close>)
qed

lemma step_keeps: "aibot_step s s' \<Longrightarrow> system_ok s \<Longrightarrow> system_ok s'"
proof (induction rule: aibot_step.induct)
  case (ask now i chat url question)
  let ?b = "as_bot s"
  have ok: "aibot_ok ?b" using ask by (simp add: system_ok_def)
  show ?case
    by (rule system_ok_step [OF ask], simp_all add: start_task_ok [OF ok])
      (auto simp: same_tasks_def start_task_def Let_def task_at_def nth_append less_Suc_eq split: if_splits)
next
  case (look p now out b)
  have "owed s p a" if "out = Answered a" for a
    using that look select_answered [of now p "as_bot s" a b] unfolding system_ok_def by blast
  then show ?case
    by (intro system_ok_shrink [OF look(3)])
      (use shrinks_select [OF look(2)] select_answers [OF look(2)] in auto)
next
  case (reply p out now)
  have "owed s p a" if "out = Answered a" for a using that reply unfolding system_ok_def by blast
  then have "(q, a) \<in> set (shown_of (p, out)) \<Longrightarrow> owed s q a" for q a by (cases out) auto
  then show ?case
    by (intro system_ok_shrink [OF reply(2)]) (auto simp: shrinks_finish finish_answers dest: subsetD [OF set_remove1_subset])
next
  case (pick chat p shut url b a)
  have "p \<in> set (queue_of (as_bot s) chat)" "url = sk_response_url (task_at (as_bot s) p)" using pick_task [OF pick(2)] by auto
  moreover have "aibot_ok (as_bot s)" using pick(3) by (simp add: system_ok_def)
  ultimately have "posted_right (s\<lparr>as_bot := b, as_sends := (p, shut, url, a) # as_sends s, as_sent := as_sent s @ [(chat, a)]\<rparr>) p url a"
    using pick_heap [OF pick(2)] by (auto simp: posted_right_def owed_def aibot_ok_def task_at_def)
  then show ?case
    by (intro system_ok_shrink [OF pick(3)]) (use shrinks_pick [OF pick(2)] pick_heap [OF pick(2)] in \<open>auto simp: task_at_def\<close>)
next
  case (nobody chat b a)
  show ?case
    by (intro system_ok_shrink [OF nobody(3)]) (use shrinks_pick [OF nobody(2)] pick_heap [OF nobody(2)] in \<open>auto simp: task_at_def\<close>)
next
  case (put p url a arm ctx_done r b)
  have "owed s p a" using put(1,3) unfolding system_ok_def posted_right_def by blast
  then show ?case
    by (intro system_ok_shrink [OF put(3)])
      (use shrinks_put [OF put(2)] put_answers [OF put(2)] in \<open>auto dest: subsetD [OF set_remove1_subset]\<close>)
next
  case (post p url a web r b)
  have b: "b = remove_task p (as_bot s)" using post(2) by (simp add: send_closed_def)
  have "posted_right s p url a" using post(1,3) unfolding system_ok_def by blast
  then show ?case
    by (intro system_ok_shrink [OF post(3)]) (auto simp: b shrinks_remove remove_answers dest: subsetD [OF set_remove1_subset] split: if_splits)
next
  case (clean now)
  show ?case by (intro system_ok_shrink [OF clean]) (auto simp: shrinks_cleanup cleanup_answers)
next
  case stop
  show ?case by (intro system_ok_shrink [OF stop]) (auto simp: shrinks_stop stop_answers)
qed

lemma reachable_ok: "aibot_reachable s \<Longrightarrow> system_ok s"
proof (induction rule: aibot_reachable.induct)
  case start
  show ?case by (simp add: system_ok_def start_aibot_system_def start_aibot_def aibot_ok_def queue_of_def)
next
  case (step s s')
  then show ?case using step_keeps by blast
qed

text \<open>
  C11: However questions, polls, answers and cleanups interleave, an answer shown in a stream was sent to the chat the
  question of that stream came from, and so was one posted to a URL, which is that of the question.
\<close>

theorem answers_keep_chat:
  assumes "aibot_reachable s"
  shows "(\<forall>(p, a)\<in>set (as_shown s). (sk_chat_id (task_at (as_bot s) p), a) \<in> set (as_sent s)) \<and>
    (\<forall>(p, url, a)\<in>set (as_posted s). (sk_chat_id (task_at (as_bot s) p), a) \<in> set (as_sent s) \<and>
      sk_response_url (task_at (as_bot s) p) = url)"
  using reachable_ok [OF assms] by (auto simp: system_ok_def owed_def posted_right_def)

section \<open>One answer per question\<close>

text \<open>A chat whose questions all wait with their streams open.\<close>

definition awaits :: "aibot \<Rightarrow> nat \<Rightarrow> bool" where
  "awaits b p \<longleftrightarrow> p < length (ab_heap b) \<and> sk_answer (task_at b p) = None \<and>
    \<not> sk_stream_closed (task_at b p) \<and> \<not> sk_finished (task_at b p)"

definition all_await :: "aibot \<Rightarrow> string \<Rightarrow> bool" where
  "all_await b chat \<longleftrightarrow> ab_running b \<and> distinct (queue_of b chat) \<and>
    (\<forall>p\<in>set (queue_of b chat). awaits b p \<and> sk_chat_id (task_at b p) = chat)"

definition answer_info :: "aibot \<Rightarrow> nat \<Rightarrow> string \<Rightarrow> stream_info" where
  "answer_info b p a = \<lparr>sf_id = sk_stream_id (task_at b p), sf_finish = True, sf_content = a\<rparr>"

lemma pick_first:
  assumes "all_await b chat" "queue_of b chat = p # q"
  shows "send_pick chat b = (Some (p, False, sk_response_url (task_at b p)), b\<lparr>ab_chat_tasks := (ab_chat_tasks b)(chat \<mapsto> p # q)\<rparr>)"
  using assms by (simp add: send_pick_def all_await_def awaits_def)

lemma queue_of_picked [simp]: "queue_of (b\<lparr>ab_chat_tasks := (ab_chat_tasks b)(chat \<mapsto> q)\<rparr>) c = (if c = chat then q else queue_of b c)"
  by (simp add: queue_of_def)

text \<open>The answer goes to the first question, and its poll shows it.\<close>

lemma send_then_poll:
  assumes "all_await b chat" "queue_of b chat = p # q"
  obtains b1 b2 where "aibot_send post Arm_Put ctx_done chat a b = Some (None, b1)"
    and "get_stream_response now p b1 = (answer_info b p a, b2)"
    and "queue_of b2 chat = q" "all_await b2 chat" "\<And>r. r \<noteq> p \<Longrightarrow> task_at b2 r = task_at b r"
    and "sk_cancelled (task_at b2 p)" "ab_stream_tasks b2 (sk_stream_id (task_at b p)) = None" "sk_answer (task_at b1 p) = Some a"
    and "queue_of b1 chat = p # q" "sk_stream_closed (task_at b1 p) = False" "sk_finished (task_at b1 p) = False" "ab_running b1"
    and "ab_stream_tasks b1 = ab_stream_tasks b" "ab_stream_tasks b2 = (ab_stream_tasks b)(sk_stream_id (task_at b p) := None)"
    and "length (ab_heap b1) = length (ab_heap b)" "sk_stream_id (task_at b1 p) = sk_stream_id (task_at b p)"
    and "sk_response_url (task_at b1 p) = sk_response_url (task_at b p)" "sk_chat_id (task_at b1 p) = chat"
    and "sk_cancelled (task_at b1 p) = sk_cancelled (task_at b p)" "sk_answer (task_at b2 p) = None"
    and "length (ab_heap b2) = length (ab_heap b)" "ab_chat_tasks b1 chat = Some (p # q)"
proof -
  let ?b0 = "b\<lparr>ab_chat_tasks := (ab_chat_tasks b)(chat \<mapsto> p # q)\<rparr>"
  define b1 where "b1 = change_task p (\<lambda>t. t\<lparr>sk_answer := Some a\<rparr>) ?b0"
  define b2 where "b2 = remove_task p (change_task p (\<lambda>t. t\<lparr>sk_answer := None\<rparr>) b1)"
  have p: "awaits b p" "sk_chat_id (task_at b p) = chat" "ab_running b" "distinct (p # q)"
    and q: "\<And>r. r \<in> set q \<Longrightarrow> awaits b r \<and> sk_chat_id (task_at b r) = chat"
    using assms by (auto simp: all_await_def)
  have t1: "task_at b1 r = (if r = p then (task_at b p)\<lparr>sk_answer := Some a\<rparr> else task_at b r)" for r
    using p(1) by (simp add: b1_def task_at_change awaits_def)
  have l: "length (ab_heap b1) = length (ab_heap b)" by (simp add: b1_def)
  have t2: "task_at b2 r = (if r = p then (task_at b p)\<lparr>sk_answer := None, sk_cancelled := True, sk_finished := True\<rparr> else task_at b r)" for r
    using p(1) l by (simp add: b2_def task_at_remove task_at_change t1 awaits_def)
  have q2: "queue_of b2 chat = q"
    using p(1,2) by (simp add: b2_def queue_of_remove task_at_change t1 l awaits_def) (simp add: b1_def)
  have r2: "ab_running b2" "length (ab_heap b2) = length (ab_heap b)" using p(3) by (simp_all add: b2_def b1_def)
  show thesis
  proof (rule that [of b1 b2])
    show "aibot_send post Arm_Put ctx_done chat a b = Some (None, b1)"
      using p by (simp add: aibot_send_def pick_first [OF assms] send_open_def awaits_def b1_def)
    show "get_stream_response now p b1 = (answer_info b p a, b2)"
      by (simp add: get_stream_response_def poll_select_def poll_finish_def poll_info_def t1 answer_info_def b2_def)
    show "all_await b2 chat" unfolding all_await_def q2
      using p q r2 by (auto simp: t2 awaits_def)
    show "ab_stream_tasks b2 = (ab_stream_tasks b)(sk_stream_id (task_at b p) := None)"
      "ab_stream_tasks b2 (sk_stream_id (task_at b p)) = None"
      using p(1) by (simp_all add: b2_def task_at_change t1 l awaits_def) (simp_all add: b1_def)
  qed (use p(1,2,3) r2 in \<open>simp_all add: q2 t1 t2 awaits_def\<close>, simp_all add: b1_def)
qed

text \<open>
  A second message for the same question (the next part of an answer above 2048 characters): while the first one waits
  for its poll the call blocks; when the poll has come it ends without an error, whichever arm of the select it takes,
  and so does one made later; nothing is left to be polled.
\<close>

lemma later_chunks_lost:
  assumes "all_await b chat" "queue_of b chat = [p]"
  shows "\<exists>b1 b2. aibot_send post Arm_Put False chat a1 b = Some (None, b1) \<and>
    aibot_send post Arm_Put False chat a2 b1 = None \<and>
    get_stream_response now p b1 = (answer_info b p a1, b2) \<and>
    ab_stream_tasks b2 (sk_stream_id (task_at b p)) = None \<and>
    send_open Arm_Cancelled False p a2 b2 = Some (None, b2) \<and>
    (\<forall>arm. \<exists>b3. aibot_send post arm False chat a2 b2 = Some (None, b3) \<and> ab_heap b3 = ab_heap b2)"
proof -
  obtain b1 b2 where s: "aibot_send post Arm_Put False chat a1 b = Some (None, b1)"
    "get_stream_response now p b1 = (answer_info b p a1, b2)" "queue_of b2 chat = []" "all_await b2 chat"
    "sk_cancelled (task_at b2 p)" "ab_stream_tasks b2 (sk_stream_id (task_at b p)) = None" "sk_answer (task_at b1 p) = Some a1"
    "queue_of b1 chat = [p]" "sk_stream_closed (task_at b1 p) = False" "sk_finished (task_at b1 p) = False" "ab_running b1"
    by (rule send_then_poll [OF assms]) blast
  then have "aibot_send post Arm_Put False chat a2 b1 = None"
    by (simp add: aibot_send_def send_pick_def send_open_def)
  moreover have "send_open Arm_Cancelled False p a2 b2 = Some (None, b2)" using s by (simp add: send_open_def)
  moreover have "\<exists>b3. aibot_send post arm False chat a2 b2 = Some (None, b3) \<and> ab_heap b3 = ab_heap b2" for arm
    using s by (simp add: aibot_send_def send_pick_def all_await_def)
  ultimately show ?thesis using s by blast
qed

section \<open>Answers that go wrong\<close>

text \<open>A question waits at the end of the queue of its chat.\<close>

lemma start_awaits:
  assumes "all_await b chat" and b': "b' = snd (start_task now i chat url question b)"
  shows "all_await b' chat \<and> queue_of b' chat = queue_of b chat @ [length (ab_heap b)] \<and>
    ab_stream_tasks b' = (ab_stream_tasks b)(i \<mapsto> length (ab_heap b)) \<and> length (ab_heap b') = length (ab_heap b) + 1 \<and>
    task_at b' (length (ab_heap b)) = \<lparr>sk_stream_id = i, sk_chat_id = chat, sk_response_url = url, sk_question = question,
      sk_created = now, sk_deadline = now + stream_deadline, sk_answer = None, sk_cancelled = False, sk_stream_closed = False,
      sk_closed_at = 0, sk_finished = False\<rparr> \<and> (\<forall>p < length (ab_heap b). task_at b' p = task_at b p)"
proof -
  have "queue_of b' chat = queue_of b chat @ [length (ab_heap b)]" "ab_running b' = ab_running b"
    by (simp_all add: b' start_task_def Let_def queue_of_def)
  then show ?thesis using assms(1)
    by (auto simp: all_await_def awaits_def b' start_task_def Let_def task_at_def nth_append)
qed

lemma text_message:
  assumes "am_text m = Some question"
  shows "handle_text_message cfg scope now i m b =
    (stream_reply \<lparr>sf_id = i, sf_finish = False, sf_content = []\<rparr>, question_events cfg scope i m question,
     snd (start_task now i (chat_of m) (am_response_url m) question b))"
  using assms by (simp add: handle_text_message_def start_task_def Let_def get_stream_response_def poll_select_def poll_finish_def
      poll_info_def task_at_def stream_deadline_def)

text \<open>
  C31: A user who may not talk to the agent asks in a group, then one who may: the agent is asked the second question
  only, but its answer is shown to the first user, and the second one gets none.
\<close>

theorem refused_question_takes_answer:
  assumes idle: "ab_running b" "queue_of b chat = []" and texts: "am_text m1 = Some q1" "am_text m2 = Some q2"
    and chats: "chat_of m1 = chat" "chat_of m2 = chat" and ids: "i1 \<noteq> i2"
    and refused: "\<not> sender_admitted (ag_base cfg) (sender_id_of m1) (aibot_sender m1)"
    and asked: "handle_text_message cfg scope1 now1 i1 m1 b = (r1, evs1, b1)"
      "handle_text_message cfg scope2 now2 i2 m2 b1 = (r2, evs2, b2)"
    and polls: "am_stream p1 = Some i1" "am_stream p2 = Some i2"
  shows "evs1 = [] \<and> (\<exists>b3 b4. aibot_send post Arm_Put False chat a b2 = Some (None, b3) \<and>
    handle_stream_message now3 p1 b3 = (final_reply i1 a, b4) \<and>
    sf_content (snd (fst (handle_stream_message now4 p2 b4))) \<in> {[], wait_notice})"
proof -
  let ?n = "length (ab_heap b)"
  have "evs1 = []" using asked(1) refused by (auto simp: text_message [OF texts(1)] question_events_def handle_message_def)
  have aw: "all_await b chat" using idle by (simp add: all_await_def)
  have b: "b1 = snd (start_task now1 i1 chat (am_response_url m1) q1 b)" "b2 = snd (start_task now2 i2 chat (am_response_url m2) q2 b1)"
    using asked chats by (auto simp: text_message [OF texts(1)] text_message [OF texts(2)])
  note s1 = start_awaits [OF aw b(1)]
  note s2 = start_awaits [OF s1 [THEN conjunct1] b(2)]
  have q: "queue_of b2 chat = ?n # [Suc ?n]" using s1 s2 idle(2) by simp
  have t: "sk_stream_id (task_at b2 ?n) = i1" "sk_answer (task_at b2 (Suc ?n)) = None"
    "ab_stream_tasks b2 i1 = Some ?n" "ab_stream_tasks b2 i2 = Some (Suc ?n)" using s1 s2 ids by simp_all
  obtain b3 b4 where s: "aibot_send post Arm_Put False chat a b2 = Some (None, b3)"
    "get_stream_response now3 ?n b3 = (answer_info b2 ?n a, b4)" "\<And>r. r \<noteq> ?n \<Longrightarrow> task_at b4 r = task_at b2 r"
    "ab_stream_tasks b3 = ab_stream_tasks b2" "ab_stream_tasks b4 = (ab_stream_tasks b2)(i1 := None)"
    by (rule send_then_poll [OF s2 [THEN conjunct1] q]) (use t(1) in blast)
  have "handle_stream_message now3 p1 b3 = (final_reply i1 a, b4)"
    using s t polls by (simp add: handle_stream_message_def final_reply_def answer_info_def)
  moreover have "sf_content (snd (fst (handle_stream_message now4 p2 b4))) \<in> {[], wait_notice}"
    using s t polls ids by (auto simp: handle_stream_message_def get_stream_response_def poll_select_def poll_info_def stream_reply_def)
  ultimately show ?thesis using \<open>evs1 = []\<close> s(1) by blast
qed

text \<open>
  C15: Two users ask in an idle chat.  If the answer to the first question has been polled before the one to the second
  is sent, each question is shown its own answer.  If the second answer is sent earlier, it is bound to the first
  question: the call blocks until the first question is polled, then it returns without an error, whichever arm of its
  select it takes; no later poll shows the answer, and the second question, which still waits, is shown none.
\<close>

theorem early_answer_lost:
  assumes idle: "ab_running b" "queue_of b chat = []" and texts: "am_text m1 = Some q1" "am_text m2 = Some q2"
    and chats: "chat_of m1 = chat" "chat_of m2 = chat" and ids: "i1 \<noteq> i2"
    and asked: "handle_text_message cfg scope1 now1 i1 m1 b = (r1, evs1, b1)"
      "handle_text_message cfg scope2 now2 i2 m2 b1 = (r2, evs2, b2)"
    and polls: "am_stream p1 = Some i1" "am_stream p2 = Some i2"
  shows "\<exists>b3. aibot_send post Arm_Put False chat a1 b2 = Some (None, b3) \<and>
    (\<exists>b4 b5 b6. handle_stream_message now3 p1 b3 = (final_reply i1 a1, b4) \<and>
       aibot_send post Arm_Put False chat a2 b4 = Some (None, b5) \<and>
       handle_stream_message now4 p2 b5 = (final_reply i2 a2, b6)) \<and>
    (\<exists>n url b4 b5. send_pick chat b3 = (Some (n, False, url), b4) \<and> (\<forall>arm. send_open arm False n a2 b4 = None) \<and>
       handle_stream_message now3 p1 b4 = (final_reply i1 a1, b5) \<and>
       (\<forall>arm\<in>{Arm_Put, Arm_Cancelled}. \<exists>b6. send_open arm False n a2 b5 = Some (None, b6) \<and>
         fst (handle_stream_message now4 p1 b6) = final_reply i1 task_not_found \<and>
         sf_content (snd (fst (handle_stream_message now4 p2 b6))) \<in> {[], wait_notice}))"
proof -
  let ?n = "length (ab_heap b)"
  have aw: "all_await b chat" using idle by (simp add: all_await_def)
  have b: "b1 = snd (start_task now1 i1 chat (am_response_url m1) q1 b)" "b2 = snd (start_task now2 i2 chat (am_response_url m2) q2 b1)"
    using asked chats by (auto simp: text_message [OF texts(1)] text_message [OF texts(2)])
  note s1 = start_awaits [OF aw b(1)]
  note s2 = start_awaits [OF s1 [THEN conjunct1] b(2)]
  have q: "queue_of b2 chat = ?n # [Suc ?n]" using s1 s2 idle(2) by simp
  have t: "sk_stream_id (task_at b2 ?n) = i1" "sk_stream_id (task_at b2 (Suc ?n)) = i2" "sk_answer (task_at b2 (Suc ?n)) = None"
    "sk_cancelled (task_at b2 ?n) = False" "ab_stream_tasks b2 i1 = Some ?n" "ab_stream_tasks b2 i2 = Some (Suc ?n)"
    "?n < length (ab_heap b2)" using s1 s2 ids by simp_all
  obtain b3 b4 where s: "aibot_send post Arm_Put False chat a1 b2 = Some (None, b3)"
    "get_stream_response now3 ?n b3 = (answer_info b2 ?n a1, b4)" "queue_of b4 chat = [Suc ?n]" "all_await b4 chat"
    "\<And>r. r \<noteq> ?n \<Longrightarrow> task_at b4 r = task_at b2 r" "sk_cancelled (task_at b4 ?n)"
    "sk_answer (task_at b3 ?n) = Some a1" "queue_of b3 chat = [?n, Suc ?n]" "\<not> sk_stream_closed (task_at b3 ?n)"
    "\<not> sk_finished (task_at b3 ?n)" "ab_stream_tasks b3 = ab_stream_tasks b2"
    "ab_stream_tasks b4 = (ab_stream_tasks b2)(i1 := None)" "\<not> sk_cancelled (task_at b3 ?n)" "sk_answer (task_at b4 ?n) = None"
    "length (ab_heap b4) = length (ab_heap b2)" "ab_chat_tasks b3 chat = Some [?n, Suc ?n]"
    by (rule send_then_poll [OF s2 [THEN conjunct1] q, of post False a1 now3], rule that, assumption, assumption) (simp_all add: t(1,4))
  have poll: "handle_stream_message now3 p1 b3 = (final_reply i1 a1, b4)"
    using s t polls by (simp add: handle_stream_message_def final_reply_def answer_info_def)
  obtain b5 b6 where f: "aibot_send post Arm_Put False chat a2 b4 = Some (None, b5)"
    "get_stream_response now4 (Suc ?n) b5 = (answer_info b4 (Suc ?n) a2, b6)" "ab_stream_tasks b5 = ab_stream_tasks b4"
    by (rule send_then_poll [OF s(4,3)]) blast
  have first: "handle_stream_message now4 p2 b5 = (final_reply i2 a2, b6)"
    using f s(5,12) t polls ids by (simp add: handle_stream_message_def final_reply_def answer_info_def)
  have "(ab_chat_tasks b3)(chat \<mapsto> [?n, Suc ?n]) = ab_chat_tasks b3" using s(16) by (simp add: fun_upd_idem)
  then have pick: "send_pick chat b3 = (Some (?n, False, sk_response_url (task_at b3 ?n)), b3)"
    using s(8-10) by (simp add: send_pick_def)
  have blocked: "send_open arm False ?n a2 b3 = None" for arm using s(7,13) by (cases arm) (simp_all add: send_open_def)
  have late: "fst (handle_stream_message now4 p1 b7) = final_reply i1 task_not_found \<and>
      sf_content (snd (fst (handle_stream_message now4 p2 b7))) \<in> {[], wait_notice}"
    if "ab_stream_tasks b7 = ab_stream_tasks b4" "task_at b7 (Suc ?n) = task_at b4 (Suc ?n)" for b7
    using that s(5,12) t polls ids
    by (auto simp: handle_stream_message_def get_stream_response_def poll_select_def poll_info_def stream_reply_def)
  have "\<exists>b7. send_open arm False ?n a2 b4 = Some (None, b7) \<and> fst (handle_stream_message now4 p1 b7) = final_reply i1 task_not_found \<and>
      sf_content (snd (fst (handle_stream_message now4 p2 b7))) \<in> {[], wait_notice}" if "arm \<in> {Arm_Put, Arm_Cancelled}" for arm
    using that s(6,14,15) t(7) late [of b4] late [of "change_task ?n (\<lambda>t. t\<lparr>sk_answer := Some a2\<rparr>) b4"]
    by (auto simp: send_open_def task_at_change)
  then show ?thesis using s(1) poll f(1) first pick blocked by blast
qed

text \<open>
  An answer between the two steps of a poll that finds the deadline passed is never shown, and the next answer in the
  chat goes to the URL of this question instead of its own.
\<close>

lemma answer_between_steps_lost:
  assumes "all_await b chat" "queue_of b chat = p # q" "sk_deadline (task_at b p) < now"
  shows "poll_select now p b = (Timed_Out, b) \<and> (\<exists>b1. aibot_send post Arm_Put False chat a1 b = Some (None, b1) \<and>
    (let b2 = poll_finish now p Timed_Out b1 in
       ab_stream_tasks b2 (sk_stream_id (task_at b p)) = None \<and>
       fst (send_pick chat b2) = Some (p, True, sk_response_url (task_at b p))))"
proof -
  have a: "awaits b p" using assms by (simp add: all_await_def)
  obtain b1 where s: "aibot_send post Arm_Put False chat a1 b = Some (None, b1)" "queue_of b1 chat = p # q"
    "sk_finished (task_at b1 p) = False" "length (ab_heap b1) = length (ab_heap b)"
    "sk_stream_id (task_at b1 p) = sk_stream_id (task_at b p)" "sk_response_url (task_at b1 p) = sk_response_url (task_at b p)"
    by (rule send_then_poll [OF assms(1,2)]) blast
  then show ?thesis using a assms(3)
    by (simp add: poll_select_def poll_finish_def awaits_def send_pick_def task_at_change)
qed

section \<open>Examples\<close>

definition demo_bot :: aibot where
  "demo_bot = snd (start_task 0 ''j'' ''c'' ''v'' ''why?'' (snd (start_task 0 ''i'' ''c'' ''u'' ''who?'' (as_bot start_aibot_system))))"

lemma demo_bot_awaits: "all_await demo_bot ''c''" "queue_of demo_bot ''c'' = [0, 1]"
  "sk_stream_id (task_at demo_bot 0) = ''i''" "sk_stream_id (task_at demo_bot 1) = ''j''"
  by (simp_all add: demo_bot_def start_aibot_system_def start_aibot_def start_task_def Let_def all_await_def awaits_def
      queue_of_def task_at_def)

text \<open>A question, its answer, and the poll that shows it.\<close>

lemma answered_run:
  "\<exists>s. aibot_reachable s \<and> as_shown s = [(0, ''me'')] \<and> as_posted s = [] \<and> sk_chat_id (task_at (as_bot s) 0) = ''c''"
proof -
  define s1 where "s1 = start_aibot_system\<lparr>as_bot := snd (start_task 0 ''i'' ''c'' ''u'' ''who?'' (as_bot start_aibot_system))\<rparr>"
  define b2 where "b2 = snd (send_pick ''c'' (as_bot s1))"
  define s2 where "s2 = s1\<lparr>as_bot := b2, as_sends := [(0, False, ''u'', ''me'')], as_sent := [(''c'', ''me'')]\<rparr>"
  define b3 where "b3 = change_task 0 (\<lambda>t. t\<lparr>sk_answer := Some ''me''\<rparr>) b2"
  define s3 where "s3 = s2\<lparr>as_bot := b3, as_sends := []\<rparr>"
  define b4 where "b4 = change_task 0 (\<lambda>t. t\<lparr>sk_answer := None\<rparr>) b3"
  define s4 where "s4 = s3\<lparr>as_bot := b4, as_polls := [(0, Answered ''me'')]\<rparr>"
  define s5 where "s5 = s4\<lparr>as_bot := poll_finish 5 0 (Answered ''me'') b4, as_polls := [], as_shown := [(0, ''me'')]\<rparr>"
  note d = s1_def s2_def s3_def s4_def s5_def start_aibot_system_def start_aibot_def
  have h: "length (ab_heap b2) = 1" "task_at b2 0 = \<lparr>sk_stream_id = ''i'', sk_chat_id = ''c'', sk_response_url = ''u'', sk_question = ''who?'',
      sk_created = 0, sk_deadline = stream_deadline, sk_answer = None, sk_cancelled = False, sk_stream_closed = False,
      sk_closed_at = 0, sk_finished = False\<rparr>" "send_pick ''c'' (as_bot s1) = (Some (0, False, ''u''), b2)" "ab_running (as_bot s1)"
    by (simp_all add: b2_def s1_def start_aibot_system_def start_aibot_def start_task_def Let_def send_pick_def queue_of_def task_at_def)
  have "aibot_step start_aibot_system s1" unfolding s1_def by (rule aibot_step.ask)
  moreover have "aibot_step s1 s2"
    using aibot_step.pick [OF h(4,3), of "''me''"] by (simp add: s2_def) (simp add: s1_def start_aibot_system_def)
  moreover have "aibot_step s2 s3"
    using aibot_step.put [of 0 "''u''" "''me''" s2 Arm_Put False None b3] h by (simp add: s3_def send_open_def b3_def) (simp add: s2_def)
  moreover have "aibot_step s3 s4"
  proof -
    have "0 < length (ab_heap (as_bot s3))" "poll_select 5 0 (as_bot s3) = (Answered ''me'', b4)"
      using h by (simp_all add: d b3_def b4_def poll_select_def task_at_change)
    from aibot_step.look [OF this] show ?thesis by (simp add: s4_def) (simp add: d)
  qed
  moreover have "aibot_step s4 s5"
    using aibot_step.reply [of 0 "Answered ''me''" s4 5] by (simp add: s5_def) (simp add: d)
  ultimately have "aibot_reachable s5" by (meson aibot_reachable.intros)
  moreover have "sk_chat_id (task_at (as_bot s5) 0) = ''c''"
    using h by (simp add: s5_def poll_finish_def task_at_remove b4_def b3_def task_at_change)
  moreover have "as_shown s5 = [(0, ''me'')]" "as_posted s5 = []" by (simp_all add: d)
  ultimately show ?thesis by blast
qed

lemma answers_keep_chat_witness:
  "\<exists>s. aibot_reachable s \<and> as_shown s = [(0, ''me'')] \<and> (''c'', ''me'') \<in> set (as_sent s)"
  using answered_run answers_keep_chat by fastforce

text \<open>A group in which only user 42 may talk to the agent.\<close>

definition demo_aibot_config :: aibot_config where
  "demo_aibot_config = \<lparr>ag_token = ''t'', ag_aes_key = ''k'', ag_welcome = [], ag_webhook_path = [],
     ag_base = \<lparr>bc_name = ''wecom_aibot'', bc_allow_list = [''42''],
       bc_group_trigger = \<lparr>gt_mention_only = False, gt_prefixes = []\<rparr>, bc_owner = None\<rparr>\<rparr>"

definition demo_question :: "string \<Rightarrow> string \<Rightarrow> aibot_message" where
  "demo_question user question = \<lparr>am_msg_id = ''m'', am_bot_id = ''b'', am_chat_id = ''g'', am_chat_type = ''group'',
     am_user_id = user, am_response_url = ''u'', am_type = ''text'', am_text = Some question, am_stream = None,
     am_image = None, am_event = None\<rparr>"

definition demo_poll :: "string \<Rightarrow> aibot_message" where
  "demo_poll i = (demo_question ''7'' [])\<lparr>am_type := ''stream'', am_text := None, am_stream := Some i\<rparr>"

lemma refused_question_takes_answer_witness:
  "\<exists>evs b1 r1 r2 b2 b3 b4. handle_text_message demo_aibot_config ''s'' 0 ''i1'' (demo_question ''7'' ''who?'') (as_bot start_aibot_system) = (r1, [], b1) \<and>
    handle_text_message demo_aibot_config ''s'' 1 ''i2'' (demo_question ''42'' ''why?'') b1 = (r2, evs, b2) \<and>
    aibot_send (\<lambda>_ _. None) Arm_Put False ''g'' ''because'' b2 = Some (None, b3) \<and>
    handle_stream_message 2 (demo_poll ''i1'') b3 = (final_reply ''i1'' ''because'', b4)"
proof -
  have refused: "\<not> sender_admitted (ag_base demo_aibot_config) (sender_id_of (demo_question ''7'' ''who?'')) (aibot_sender (demo_question ''7'' ''who?''))"
    by code_simp
  obtain r1 evs1 b1 r2 evs2 b2 where h:
    "handle_text_message demo_aibot_config ''s'' 0 ''i1'' (demo_question ''7'' ''who?'') (as_bot start_aibot_system) = (r1, evs1, b1)"
    "handle_text_message demo_aibot_config ''s'' 1 ''i2'' (demo_question ''42'' ''why?'') b1 = (r2, evs2, b2)" using prod_cases3 by metis
  have "ab_running (as_bot start_aibot_system)" "queue_of (as_bot start_aibot_system) ''g'' = []"
    by (simp_all add: start_aibot_system_def start_aibot_def queue_of_def)
  from refused_question_takes_answer [OF this _ _ _ _ _ refused h, of "''who?''" "''why?''" "demo_poll ''i1''" "demo_poll ''i2''" "\<lambda>_ _. None" "''because''" 2 3]
  show ?thesis using h by (auto simp: demo_question_def demo_poll_def chat_of_def)
qed

lemma early_answer_lost_witness:
  "\<exists>b1 b2 r1 r2 evs1 evs2 b3 n url b4 b5.
    handle_text_message demo_aibot_config ''s'' 0 ''i1'' (demo_question ''42'' ''who?'') (as_bot start_aibot_system) = (r1, evs1, b1) \<and>
    handle_text_message demo_aibot_config ''s'' 1 ''i2'' (demo_question ''42'' ''why?'') b1 = (r2, evs2, b2) \<and>
    aibot_send (\<lambda>_ _. None) Arm_Put False ''g'' ''me'' b2 = Some (None, b3) \<and>
    send_pick ''g'' b3 = (Some (n, False, url), b4) \<and>
    handle_stream_message 2 (demo_poll ''i1'') b4 = (final_reply ''i1'' ''me'', b5) \<and>
    (\<exists>b6. send_open Arm_Put False n ''because'' b5 = Some (None, b6) \<and>
      sf_content (snd (fst (handle_stream_message 3 (demo_poll ''i2'') b6))) \<in> {[], wait_notice})"
proof -
  obtain r1 evs1 b1 r2 evs2 b2 where h:
    "handle_text_message demo_aibot_config ''s'' 0 ''i1'' (demo_question ''42'' ''who?'') (as_bot start_aibot_system) = (r1, evs1, b1)"
    "handle_text_message demo_aibot_config ''s'' 1 ''i2'' (demo_question ''42'' ''why?'') b1 = (r2, evs2, b2)" using prod_cases3 by metis
  have idle: "ab_running (as_bot start_aibot_system)" "queue_of (as_bot start_aibot_system) ''g'' = []"
    by (simp_all add: start_aibot_system_def start_aibot_def queue_of_def)
  have m: "am_text (demo_question ''42'' ''who?'') = Some ''who?''" "am_text (demo_question ''42'' ''why?'') = Some ''why?''"
    "chat_of (demo_question ''42'' ''who?'') = ''g''" "chat_of (demo_question ''42'' ''why?'') = ''g''" "''i1'' \<noteq> ''i2''"
    "am_stream (demo_poll ''i1'') = Some ''i1''" "am_stream (demo_poll ''i2'') = Some ''i2''"
    by (simp_all add: demo_question_def demo_poll_def chat_of_def)
  from early_answer_lost [OF idle m(1-5) h m(6,7), of "\<lambda>_ _. None" "''me''" 2 "''because''" 3]
  show ?thesis using h by blast
qed

end
