(* ===== verification/Spec2Isabelle.thy ===== *)
theory Spec2Isabelle
  imports Route_Resolver Agent_Turns Fallback Commands Model_Router Message_Bus Media_Store
    Search_Cache Channel_Access Message_Rounds Delivery Shell_Guard Cron_Delivery State_Heartbeat Subagents
    Search_Tools Web_Guard Skill_Install Skill_Loader Skill_Search Atomic_File Openai_Compat Wecom_Aibot_Runs
begin

text \<open>
  A verification development for OopsClaw, a personal agent in Go (module picoclaw).

  The program.  Channels (chat platforms, \<open>src/pkg/channels\<close>) hand incoming messages to a bus
  (\<open>src/pkg/bus\<close>).  The agent loop (\<open>src/pkg/agent/loop.go\<close>) takes them one at a time, transcribes voice
  messages, resolves the route (\<open>src/pkg/routing\<close>) to an agent and a session, answers commands
  (\<open>src/pkg/commands\<close>) at once and runs a turn of the agent for everything else: a request is built from
  the session (\<open>src/pkg/session\<close>, \<open>src/pkg/memory\<close>), a model is called through the fallback chain
  (\<open>src/pkg/providers\<close>), tool calls are executed through the tool registry (\<open>src/pkg/tools\<close>) until the
  model answers, the session is saved and now and then summarized.  The answer goes back over the bus,
  split to the length a channel allows.

  Theories, in the order of their imports, and what they show.

  \<^item> \<open>Prelude\<close>, \<open>Go_Strings\<close>, \<open>Go_Regexp\<close>: result types, lists and maps; Go strings as byte lists with the
    functions of package strings the code calls (UTF-8 decoding, TrimSpace, ToLower, Index, Fields);
    the part of package regexp the code uses.  Regular expression search is shown sound and complete.
  \<^item> \<open>Agent_Ids\<close>, \<open>Session_Keys\<close>, \<open>Route_Resolver\<close> (\<open>pkg/routing/agent_id.go\<close>, \<open>session_key.go\<close>, \<open>route.go\<close>):
    normalized identifiers are well formed; under each of the per-peer scopes direct chats of different peers
    never share a key, keys parse back to their agent; \<open>ResolveRoute\<close> is the declarative cascade of binding priorities and always names
    a configured agent.
  \<^item> \<open>Messages\<close>, \<open>Session_Store\<close>, \<open>Session_Manager\<close>, \<open>Jsonl_Store\<close> (\<open>pkg/providers/protocoltypes\<close>,
    \<open>pkg/session\<close>, \<open>pkg/memory/jsonl.go\<close>): the session interface is the locale \<open>session_store\<close>, interpreted
    by the in-memory manager and by the append-only JSONL store; the writes of the latter are explicit, so
    that a crash may happen between any two of them or in the middle of an append, and no acknowledged
    message is lost.
  \<^item> \<open>History\<close>, \<open>Agent_Context\<close> (\<open>pkg/agent/context.go\<close>, \<open>loop.go\<close>): sanitizing yields exactly the histories a
    strict provider accepts; what emergency compression and summarization do to a session, and that
    summarizations of one session never overlap.
  \<^item> \<open>Error_Classifier\<close>, \<open>Cooldown\<close>, \<open>Fallback\<close> (\<open>pkg/providers\<close>): classification of errors by pattern, the
    exponential backoff, and the fallback chain as an implementation of its declarative specification.
  \<^item> \<open>Tool_Registry\<close>, \<open>Tool_Loop\<close> (\<open>pkg/tools/registry.go\<close>, \<open>result.go\<close>, \<open>base.go\<close>, \<open>toolloop.go\<close>): the model is
    offered exactly the tools it can call, promoted tools live for their TTL, the loop of a subagent sends
    acceptable requests only.
  \<^item> \<open>Agent_Loop\<close>, \<open>Agent_Turns\<close> (\<open>runAgentLoop\<close>, \<open>runLLMIteration\<close>): every request of a turn is a system
    message, an acceptable history and complete exchanges, and acceptable as a whole to a strict provider when
    no context window was exceeded; the session stays acceptable, the number of model calls is bounded.
  \<^item> \<open>Commands\<close> (\<open>pkg/commands\<close>): a message is answered by a built-in command or passed on unchanged.
  \<^item> \<open>Model_Router\<close> (\<open>pkg/routing/features.go\<close>, \<open>classifier.go\<close>, \<open>router.go\<close>): when the light model answers.
  \<^item> \<open>Bus_Types\<close>, \<open>Message_Bus\<close> (\<open>pkg/bus\<close>): each channel of the bus is a bounded queue under any interleaving
    of publishers, consumers and \<open>Close\<close>; what \<open>Close\<close> drains is lost, and nothing before it.
  \<^item> \<open>Channel_Access\<close> (\<open>pkg/identity/identity.go\<close>, \<open>pkg/channels/base.go\<close>): allow-lists, canonical identifiers
    and what a channel does with an incoming message.
  \<^item> \<open>Split_Message\<close> (\<open>pkg/channels/split.go\<close>): chunks are never too long and no slice is out of range; splitting ends on messages without
    code fences and does not on one with a very long first line in a code block.
  \<^item> \<open>Utf8\<close>, \<open>Channel_Manager\<close>, \<open>Delivery\<close> (\<open>pkg/channels/manager.go\<close>, \<open>errutil.go\<close>): a message without code
    fences arrives complete and in order on a channel that is not broken, with at most four attempts per
    chunk; no typing indicator is stopped twice, and each is stopped or still waits to be unless the janitor
    takes an entry that was replaced after it had read it.
  \<^item> \<open>Media_Store\<close> (\<open>pkg/media/store.go\<close>), \<open>Search_Cache\<close> (\<open>pkg/skills/search_cache.go\<close>): stored media resolve
    until they are released or expire; the cache returns what was put, and only fresh, similar results.
  \<^item> \<open>Agent_Registry\<close>, \<open>Message_Processing\<close>, \<open>Message_Rounds\<close> (\<open>pkg/agent/registry.go\<close>, \<open>Run\<close>,
    \<open>processMessage\<close> and what they call): one agent answers every message of a user in its chat unless the
    message tool sent something in the turn; with several agents a flag of that tool silences all but the
    default one.

  \<^item> \<open>Plain_Turns\<close>: turns of an agent whose model answers in words, used by the subagents and cron jobs.
  \<^item> \<open>Go_Filepath\<close>, \<open>File_Sandbox\<close> (\<open>pkg/tools/filesystem.go\<close>, \<open>edit.go\<close>): path/filepath on Unix, and the file
    tools: calls restricted to the workspace change nothing outside it, and their results do not depend on what
    is there.
  \<^item> \<open>Shell_Guard\<close> (\<open>pkg/tools/shell.go\<close>): the guard of the exec tool and the directory a command runs in.
  \<^item> \<open>Cron_Service\<close>, \<open>Cron_Runs\<close>, \<open>Cron_Tool\<close>, \<open>Cron_Delivery\<close> (\<open>pkg/cron\<close>, \<open>pkg/tools/cron.go\<close>, the handlers of
    \<open>web/backend/api/cron.go\<close>): the scheduler under any interleaving of its loop, the tool and the web backend;
    which jobs run, how often, and where their output goes.
  \<^item> \<open>State_Heartbeat\<close> (\<open>pkg/state\<close>, \<open>pkg/heartbeat\<close>, the notifications of \<open>pkg/devices\<close>): the last channel a user
    wrote from, and what is sent there.
  \<^item> \<open>Subagents\<close> (\<open>pkg/tools/subagent.go\<close>, \<open>spawn.go\<close>): the life of a spawned task, and what each of
    its ends leads to: an answer in the chat, an error on the system channel, or nothing.
  \<^item> \<open>Tool_Args\<close>, \<open>Bm25\<close>, \<open>Search_Tools\<close> (\<open>pkg/utils/bm25.go\<close>, \<open>pkg/tools/search_tool.go\<close>): arguments of tools; the
    search with its heap is a stable ranking by score; the search tools unlock what they report.
  \<^item> \<open>Go_Ip\<close>, \<open>Web_Fetch\<close>, \<open>Web_Guard\<close> (\<open>pkg/tools/web.go\<close>): package net on addresses, the pool of API keys, web_fetch:
    the guard of its dialer refuses exactly a list of networks, and no connection is made to them.
  \<^item> \<open>Skill_Install\<close>, \<open>Skill_Loader\<close>, \<open>Skill_Search\<close> (\<open>pkg/skills\<close>, \<open>pkg/tools/skills_install.go\<close>,
    \<open>skills_search.go\<close>, \<open>pkg/utils/zip.go\<close>): installing stays inside the directory of the skill; which skills are
    listed; searching several registries.
  \<^item> \<open>Go_Json\<close>, \<open>Json_Roundtrip\<close>, \<open>Message_Json\<close>, \<open>Json_Any\<close>: encoding/json on the values the program reads and writes,
    with its limit of depth and its repair of invalid UTF-8; what is printed is parsed back; the messages of
    \<open>pkg/providers/protocoltypes\<close> by their tags, and the session store with this codec.
  \<^item> \<open>Cli_Tool_Calls\<close>, \<open>Cli_Providers\<close> (\<open>pkg/providers/tool_call_extract.go\<close>, \<open>claude_cli_provider.go\<close>,
    \<open>codex_cli_provider.go\<close>, \<open>toolcall_utils.go\<close>): prompts for command line tools, the answers read from their output,
    which tool calls in a text are found.
  \<^item> \<open>Openai_Compat\<close> (\<open>pkg/providers/openai_compat\<close>): requests, responses and errors of the client for
    OpenAI-compatible services; what a request carries is read back, and the status of a failed call reaches the
    classification of errors.
  \<^item> \<open>Wecom_Frames\<close>, \<open>Wecom_Aibot\<close>, \<open>Wecom_Aibot_Runs\<close> (\<open>pkg/channels/wecom/common.go\<close>, \<open>dedupe.go\<close>, \<open>aibot.go\<close>):
    encrypted frames, the window of processed messages, and the bot whose answers wait in a queue per chat: its steps
    under any interleaving: an answer goes to the chat it is for; which ones never reach the user.
  \<^item> \<open>Atomic_File\<close> (\<open>pkg/fileutil/file.go\<close>): an atomic write survives every failure and every crash.

  How code and model correspond.  A Go struct is a record, a Go map an association list in the order it is
  ranged over, or a HOL map where it is not; an error is the left side of a sum; a nil pointer is \<open>None\<close>.
  Strings are lists of bytes; ToLower and EqualFold are exact on ASCII letters.  Integers are \<open>nat\<close> or
  \<open>int\<close> where no overflow is possible and words where the code relies on their width (trigrams, versions).
  Times are integers, floats (scores, similarities) are rationals with the same comparisons.

  Bounds and fuel.  Loops over data are structural recursion or functions with a measure.  The loop of
  \<open>llm_iteration\<close> counts down the configured number of iterations, as the code does.  Fuel is taken by
  \<open>split_loop\<close>: one turn per rune is enough for messages without code fences (\<open>split_plain_text\<close>), and for others
  no fuel need be enough (\<open>split_never_ends\<close>); by the search for an existing ancestor of a path, one step per
  element; by the search for all matches of a regular expression, one per byte; by reading a file in pieces,
  one per byte; and by parsing JSON, two per byte (\<open>parse_fuel\<close>).

  Parameters.  Code outside the repository is an argument of the model: the provider's answers, the
  execution of a tool, the clock, fresh identifiers, the concrete channels, the next time of a
  cron expression (package gronx), symbolic links, what a command prints, names and connections of the
  network, the parsing of URLs, markdown, JSON and YAML, the answers of skill registries, the logarithm
  in the score of a search, the printing of floats, HTTP exchanges with a provider, commands that answer for a model,
  SHA-1, AES and base64.  The lemmas of the session store take its JSON codec as a parameter, for which \<open>Message_Json\<close>
  puts in the real one; the tool loop takes the printing of arguments as one.

  Not modelled.  The web frontend and its backend (but for the handlers of cron jobs), the command line tools, the
  concrete channel adapters but for the WeCom AI bot, provider clients with an API of their own, the requests of web search providers, installing skills from
  GitHub, voice transcription, MCP, hardware and browser tools, logging, authentication flows, configuration
  and its migration, USB events and health endpoints: they are input and output around third-party services.  Locks
  are not modelled where every operation holds the lock throughout.
\<close>

end
